(* ===== verification/Prelude.thy ===== *)
theory Prelude
  imports Complex_Main "HOL-Library.Multiset" "HOL-Library.Sublist"
begin

text \<open>
  Shared vocabulary of the development.

  Characters. Rust strings are sequences of Unicode scalar values. A HOL character has
  a code from 0 to 255 and is read here as the scalar value of that code (the Basic Latin
  and Latin-1 blocks), not as a UTF-8 byte. The standard library predicates the source
  uses are written out exactly on that range: \<open>is_whitespace\<close>, \<open>is_alphanumeric\<close>,
  \<open>to_lower\<close>, the ASCII variants. \<open>length\<close> is then \<open>chars().count()\<close>.

  Numbers. \<open>f64\<close> is the type of the source's floating point values, read as exact
  reals: rounding, infinities and NaN are not modelled. A signed 64-bit integer is an
  \<open>int\<close>, with \<open>wrap_i64\<close> where an addition may leave the range (release profile: it
  wraps) and \<open>sat_i64\<close> where a float is cast (it saturates). Lengths and counters of
  in-memory collections are \<open>nat\<close>.

  Row identifiers (\<open>Uuid\<close>) are natural numbers; the nil identifier is 0.
\<close>

named_theorems il_simps \<open>unfolding equations that component proofs share\<close>
named_theorems il_inv \<open>preservation facts of the component invariants\<close>

type_synonym uuid = nat
type_synonym f64 = real

section \<open>Machine numbers\<close>

definition wrap_i64 :: "int \<Rightarrow> int" where
  "wrap_i64 n = (n + 2 ^ 63) mod 2 ^ 64 - 2 ^ 63"

definition sat_i64 :: "int \<Rightarrow> int" where
  "sat_i64 n = max (- (2 ^ 63)) (min (2 ^ 63 - 1) n)"

definition clamp :: "'a::linorder \<Rightarrow> 'a \<Rightarrow> 'a \<Rightarrow> 'a" where
  "clamp n lo hi = (if n < lo then lo else if hi < n then hi else n)"

lemma wrap_i64_id: "- (2 ^ 63) \<le> n \<Longrightarrow> n < 2 ^ 63 \<Longrightarrow> wrap_i64 n = n"
  by (simp add: wrap_i64_def)

lemma wrap_i64_range: "- (2 ^ 63) \<le> wrap_i64 n \<and> wrap_i64 n < 2 ^ 63"
proof -
  have "0 \<le> (n + 2 ^ 63) mod 2 ^ 64" "(n + 2 ^ 63) mod 2 ^ 64 < (2 ^ 64 :: int)"
    by (auto intro: pos_mod_bound)
  then show ?thesis by (simp add: wrap_i64_def)
qed

lemma sat_i64_ge_1: "1 \<le> n \<Longrightarrow> 1 \<le> sat_i64 n"
  by (simp add: sat_i64_def)

lemma clamp_bounds: "lo \<le> hi \<Longrightarrow> lo \<le> clamp n lo hi \<and> clamp n lo hi \<le> hi"
  by (auto simp: clamp_def)

lemma clamp_id [simp]: "lo \<le> n \<Longrightarrow> n \<le> hi \<Longrightarrow> clamp n lo hi = n"
  by (auto simp: clamp_def)

lemma clamp_idem: "lo \<le> hi \<Longrightarrow> clamp (clamp n lo hi) lo hi = clamp n lo hi"
  by (auto simp: clamp_def)

section \<open>Lists\<close>

lemma find_append: "find P (xs @ ys) = (case find P xs of Some x \<Rightarrow> Some x | None \<Rightarrow> find P ys)"
  by (induction xs) auto

section \<open>Characters\<close>

definition code_of :: "char \<Rightarrow> nat" where
  "code_of c = of_char c"

definition is_whitespace :: "char \<Rightarrow> bool" where
  "is_whitespace c = (let n = code_of c in
     (9 \<le> n \<and> n \<le> 13) \<or> n = 32 \<or> n = 133 \<or> n = 160)"

definition is_upper :: "char \<Rightarrow> bool" where
  "is_upper c = (let n = code_of c in
     (65 \<le> n \<and> n \<le> 90) \<or> (192 \<le> n \<and> n \<le> 214) \<or> (216 \<le> n \<and> n \<le> 222))"

definition is_alphanumeric :: "char \<Rightarrow> bool" where
  "is_alphanumeric c = (let n = code_of c in
     (48 \<le> n \<and> n \<le> 57) \<or> (65 \<le> n \<and> n \<le> 90) \<or> (97 \<le> n \<and> n \<le> 122)
     \<or> n = 170 \<or> n = 178 \<or> n = 179 \<or> n = 181 \<or> n = 185 \<or> n = 186
     \<or> (188 \<le> n \<and> n \<le> 190) \<or> (192 \<le> n \<and> n \<le> 214) \<or> (216 \<le> n \<and> n \<le> 246)
     \<or> (248 \<le> n \<and> n \<le> 255))"

definition is_ascii_alphanumeric :: "char \<Rightarrow> bool" where
  "is_ascii_alphanumeric c = (let n = code_of c in
     (48 \<le> n \<and> n \<le> 57) \<or> (65 \<le> n \<and> n \<le> 90) \<or> (97 \<le> n \<and> n \<le> 122))"

definition to_lower :: "char \<Rightarrow> char" where
  "to_lower c = (if is_upper c then char_of (code_of c + 32) else c)"

definition to_ascii_lower :: "char \<Rightarrow> char" where
  "to_ascii_lower c =
     (if 65 \<le> code_of c \<and> code_of c \<le> 90 then char_of (code_of c + 32) else c)"

definition to_ascii_upper :: "char \<Rightarrow> char" where
  "to_ascii_upper c =
     (if 97 \<le> code_of c \<and> code_of c \<le> 122 then char_of (code_of c - 32) else c)"

lemmas char_defs = is_whitespace_def is_upper_def is_alphanumeric_def
  is_ascii_alphanumeric_def to_lower_def to_ascii_lower_def to_ascii_upper_def Let_def

lemma code_of_char_of: "n < 256 \<Longrightarrow> code_of (char_of n) = n"
  by (simp add: code_of_def)

lemma code_of_inject: "code_of a = code_of b \<longleftrightarrow> a = b"
  by (simp add: code_of_def)

lemma code_of_to_lower:
  "code_of (to_lower c) = (if is_upper c then code_of c + 32 else code_of c)"
proof (cases "is_upper c")
  case True
  then have "code_of c + 32 < 256"
    unfolding is_upper_def Let_def by linarith
  with True show ?thesis
    by (simp add: to_lower_def code_of_char_of)
qed (simp add: to_lower_def)

lemma is_upper_to_lower [simp]: "\<not> is_upper (to_lower c)"
  unfolding is_upper_def [of "to_lower c"] code_of_to_lower Let_def
  unfolding is_upper_def Let_def by presburger

lemma alphanumeric_not_space: "is_alphanumeric c \<Longrightarrow> \<not> is_whitespace c"
  unfolding is_alphanumeric_def is_whitespace_def Let_def by linarith

lemma to_lower_idem [simp]: "to_lower (to_lower c) = to_lower c"
  by (simp add: to_lower_def [of "to_lower c"])

lemma is_upper_alphanumeric: "is_upper c \<Longrightarrow> is_alphanumeric c"
  unfolding is_upper_def is_alphanumeric_def Let_def by (elim disjE) simp_all

lemma to_lower_alnum_iff [simp]: "is_alphanumeric (to_lower c) = is_alphanumeric c"
proof (cases "is_upper c")
  case True
  let ?m = "code_of c + 32"
  have "(97 \<le> ?m \<and> ?m \<le> 122) \<or> (224 \<le> ?m \<and> ?m \<le> 246) \<or> (248 \<le> ?m \<and> ?m \<le> 254)"
    using True unfolding is_upper_def Let_def by linarith
  moreover have "code_of (to_lower c) = ?m"
    using True by (simp add: code_of_to_lower)
  ultimately have "is_alphanumeric (to_lower c)"
    unfolding is_alphanumeric_def Let_def by (elim disjE) simp_all
  with True show ?thesis by (simp add: is_upper_alphanumeric)
qed (simp add: to_lower_def)

lemma to_lower_space [simp]: "is_whitespace (to_lower c) = is_whitespace c"
proof (cases "is_upper c")
  case True
  then show ?thesis
    by (simp add: is_upper_alphanumeric alphanumeric_not_space)
qed (simp add: to_lower_def)

lemma to_lower_nonalnum: "\<not> is_alphanumeric c \<Longrightarrow> to_lower c = c"
  by (auto simp: to_lower_def dest: is_upper_alphanumeric)

lemma space_is_space [simp]: "is_whitespace CHR '' ''"
  by (simp add: is_whitespace_def code_of_def)

lemma space_not_alnum [simp]: "\<not> is_alphanumeric CHR '' ''"
  by (simp add: is_alphanumeric_def code_of_def)

section \<open>Strings\<close>

definition lowercase :: "string \<Rightarrow> string" where
  "lowercase s = map to_lower s"

definition ascii_lowercase :: "string \<Rightarrow> string" where
  "ascii_lowercase s = map to_ascii_lower s"

definition ascii_uppercase :: "string \<Rightarrow> string" where
  "ascii_uppercase s = map to_ascii_upper s"

definition trim_start :: "string \<Rightarrow> string" where
  "trim_start s = dropWhile is_whitespace s"

definition trim_end :: "string \<Rightarrow> string" where
  "trim_end s = rev (dropWhile is_whitespace (rev s))"

definition trim :: "string \<Rightarrow> string" where
  "trim s = trim_end (trim_start s)"

definition starts_with :: "string \<Rightarrow> string \<Rightarrow> bool" where
  "starts_with s p = (take (length p) s = p)"

definition ends_with :: "string \<Rightarrow> string \<Rightarrow> bool" where
  "ends_with s p = starts_with (rev s) (rev p)"

fun contains_str :: "string \<Rightarrow> string \<Rightarrow> bool" where
  "contains_str [] p = (p = [])"
| "contains_str (c # cs) p = (starts_with (c # cs) p \<or> contains_str cs p)"

text \<open>\<open>split_by P s\<close> cuts at every character that satisfies \<open>P\<close>; empty pieces are kept.\<close>

fun split_by :: "(char \<Rightarrow> bool) \<Rightarrow> string \<Rightarrow> string list" where
  "split_by P [] = [[]]"
| "split_by P (c # cs) =
     (if P c then [] # split_by P cs
      else case split_by P cs of [] \<Rightarrow> [[c]] | w # ws \<Rightarrow> (c # w) # ws)"

definition split_on :: "char \<Rightarrow> string \<Rightarrow> string list" where
  "split_on d s = split_by (\<lambda>c. c = d) s"

definition split_whitespace :: "string \<Rightarrow> string list" where
  "split_whitespace s = filter (\<lambda>w. w \<noteq> []) (split_by is_whitespace s)"

fun join_str :: "string \<Rightarrow> string list \<Rightarrow> string" where
  "join_str sep [] = []"
| "join_str sep [w] = w"
| "join_str sep (w # v # ws) = w @ sep @ join_str sep (v # ws)"

definition split_once :: "char \<Rightarrow> string \<Rightarrow> (string \<times> string) option" where
  "split_once d s =
     (if d \<in> set s then Some (takeWhile (\<lambda>c. c \<noteq> d) s, tl (dropWhile (\<lambda>c. c \<noteq> d) s)) else None)"

definition strip_prefix :: "string \<Rightarrow> string \<Rightarrow> string option" where
  "strip_prefix p s = (if starts_with s p then Some (drop (length p) s) else None)"

definition strip_suffix :: "string \<Rightarrow> string \<Rightarrow> string option" where
  "strip_suffix p s = (if ends_with s p then Some (take (length s - length p) s) else None)"

text \<open>Byte offsets of the source's \<open>find\<close>/\<open>rfind\<close> are character offsets here.\<close>

fun find_char :: "char \<Rightarrow> string \<Rightarrow> nat option" where
  "find_char d [] = None"
| "find_char d (c # cs) = (if c = d then Some 0 else map_option Suc (find_char d cs))"

definition rfind_char :: "char \<Rightarrow> string \<Rightarrow> nat option" where
  "rfind_char d s = map_option (\<lambda>i. length s - Suc i) (find_char d (rev s))"

fun trim_start_matches :: "string \<Rightarrow> string \<Rightarrow> string" where
  "trim_start_matches p s =
     (if p \<noteq> [] \<and> s \<noteq> [] \<and> starts_with s p then trim_start_matches p (drop (length p) s) else s)"

declare trim_start_matches.simps [simp del]

fun trim_end_matches :: "char \<Rightarrow> string \<Rightarrow> string" where
  "trim_end_matches d s = rev (dropWhile (\<lambda>c. c = d) (rev s))"

text \<open>Decimal rendering of unsigned and signed integers.\<close>

definition digit_char :: "nat \<Rightarrow> char" where
  "digit_char d = char_of (48 + d)"

fun show_nat :: "nat \<Rightarrow> string" where
  "show_nat n = (if n < 10 then [digit_char n] else show_nat (n div 10) @ [digit_char (n mod 10)])"

declare show_nat.simps [simp del]

definition show_int :: "int \<Rightarrow> string" where
  "show_int n = (if n < 0 then ''-'' @ show_nat (nat (- n)) else show_nat (nat n))"

section \<open>Facts on splitting, joining and trimming\<close>

abbreviation word_chars :: "string \<Rightarrow> bool" where
  "word_chars w \<equiv> w \<noteq> [] \<and> (\<forall>c \<in> set w. \<not> is_whitespace c)"

lemma split_by_nonempty [simp]: "split_by P s \<noteq> []"
  by (induction s) (auto split: list.splits)

lemma split_by_no_sep: "\<forall>c \<in> set w. \<not> P c \<Longrightarrow> split_by P w = [w]"
  by (induction w) auto

lemma split_by_append:
  "\<forall>c \<in> set w. \<not> P c \<Longrightarrow> P d \<Longrightarrow> split_by P (w @ d # s) = w # split_by P s"
  by (induction w) auto

lemma split_by_pieces: "w \<in> set (split_by P s) \<Longrightarrow> c \<in> set w \<Longrightarrow> \<not> P c"
proof (induction s arbitrary: w)
  case (Cons d s)
  obtain v vs where v: "split_by P s = v # vs"
    by (meson neq_Nil_conv split_by_nonempty)
  have "\<not> P c" if "u = v \<or> u \<in> set vs" and "c \<in> set u" for u
    using Cons.IH [of u] that v by simp
  with Cons.prems v show ?case
    by (fastforce split: if_splits)
qed simp

lemma split_by_map:
  "(\<And>c. P (f c) = P c) \<Longrightarrow> split_by P (map f s) = map (map f) (split_by P s)"
  by (induction s) (auto split: list.splits)

lemma split_by_chars: "w \<in> set (split_by P s) \<Longrightarrow> set w \<subseteq> set s"
proof (induction s arbitrary: w)
  case (Cons d s)
  obtain v vs where v: "split_by P s = v # vs"
    by (meson neq_Nil_conv split_by_nonempty)
  from Cons v show ?case
    by (fastforce split: if_splits)
qed simp

lemma join_split_on: "join_str [d] (split_on d s) = s"
  unfolding split_on_def
proof (induction s)
  case (Cons c s)
  obtain v vs where v: "split_by (\<lambda>c. c = d) s = v # vs"
    by (meson neq_Nil_conv split_by_nonempty)
  with Cons show ?case by (cases vs) auto
qed simp

lemma split_on_join:
  "ws \<noteq> [] \<Longrightarrow> \<forall>w \<in> set ws. d \<notin> set w \<Longrightarrow> split_on d (join_str [d] ws) = ws"
proof (induction "[d]" ws rule: join_str.induct)
  case (2 w)
  then show ?case
    by (auto simp: split_on_def intro: split_by_no_sep)
next
  case (3 w v ws)
  then have "split_by (\<lambda>c. c = d) (w @ d # join_str [d] (v # ws)) =
    w # split_by (\<lambda>c. c = d) (join_str [d] (v # ws))"
    by (intro split_by_append) auto
  with 3 show ?case by (simp add: split_on_def)
qed simp

lemma split_whitespace_word: "w \<in> set (split_whitespace s) \<Longrightarrow> word_chars w"
  by (auto simp: split_whitespace_def dest: split_by_pieces)

lemma split_whitespace_join:
  "\<forall>w \<in> set ws. word_chars w \<Longrightarrow> split_whitespace (join_str '' '' ws) = ws"
proof (induction "'' ''" ws rule: join_str.induct)
  case (2 w)
  then show ?case
    by (simp add: split_whitespace_def split_by_no_sep)
next
  case (3 w v ws)
  then have "split_by is_whitespace (w @ CHR '' '' # join_str '' '' (v # ws)) =
    w # split_by is_whitespace (join_str '' '' (v # ws))"
    by (intro split_by_append) auto
  with 3 show ?case by (simp add: split_whitespace_def)
qed (simp add: split_whitespace_def)

lemma split_whitespace_lowercase:
  "split_whitespace (lowercase s) = map lowercase (split_whitespace s)"
  by (simp add: split_whitespace_def lowercase_def split_by_map filter_map o_def)

lemma lowercase_idem [simp]: "lowercase (lowercase s) = lowercase s"
  by (simp add: lowercase_def)

lemma lowercase_eq_Nil [simp]: "lowercase s = [] \<longleftrightarrow> s = []"
  by (simp add: lowercase_def)

lemma lowercase_join: "lowercase (join_str '' '' ws) = join_str '' '' (map lowercase ws)"
proof (induction "'' ''" ws rule: join_str.induct)
  case (3 w v ws)
  have "to_lower CHR '' '' = CHR '' ''" by (simp add: to_lower_nonalnum)
  with 3 show ?case by (simp add: lowercase_def)
qed (simp_all add: lowercase_def)

lemma join_str_eq_Nil: "\<forall>w \<in> set ws. w \<noteq> [] \<Longrightarrow> join_str sep ws = [] \<longleftrightarrow> ws = []"
  by (induction sep ws rule: join_str.induct) auto

lemma trim_le: "length (trim s) \<le> length s"
proof -
  have "length (dropWhile P xs) \<le> length xs" for P and xs :: string
    by (rule length_dropWhile_le)
  then show ?thesis
    unfolding trim_def trim_end_def trim_start_def by (metis le_trans length_rev)
qed

lemma dropWhile_not_hd: "(\<And>c. xs \<noteq> [] \<Longrightarrow> \<not> P (hd xs)) \<Longrightarrow> dropWhile P xs = xs"
  by (cases xs) auto

lemma hd_dropWhile_not: "dropWhile P xs \<noteq> [] \<Longrightarrow> \<not> P (hd (dropWhile P xs))"
  by (rule hd_dropWhile)

lemma trim_hd_last:
  assumes "trim s \<noteq> []"
  shows "\<not> is_whitespace (hd (trim s)) \<and> \<not> is_whitespace (last (trim s))"
proof -
  let ?u = "dropWhile is_whitespace s"
  have ne: "dropWhile is_whitespace (rev ?u) \<noteq> []"
    using assms unfolding trim_def trim_end_def trim_start_def by (metis rev.simps(1))
  then have ne': "?u \<noteq> []" by (metis dropWhile.simps(1) rev.simps(1))
  have last: "\<not> is_whitespace (last (trim s))"
    using hd_dropWhile_not [OF ne] ne
    by (simp add: trim_def trim_end_def trim_start_def last_rev)
  obtain v where v: "rev ?u = v @ dropWhile is_whitespace (rev ?u)"
    by (metis takeWhile_dropWhile_id)
  then have "?u = rev (dropWhile is_whitespace (rev ?u)) @ rev v"
    by (metis rev_append rev_rev_ident)
  then have "hd (trim s) = hd ?u"
    using ne by (metis hd_append2 rev_is_Nil_conv trim_def trim_end_def trim_start_def)
  with last hd_dropWhile_not [OF ne'] show ?thesis by simp
qed

lemma trim_id:
  assumes "s = [] \<or> \<not> is_whitespace (hd s) \<and> \<not> is_whitespace (last s)"
  shows "trim s = s"
proof (cases "s = []")
  case False
  with assms have "dropWhile is_whitespace s = s"
    and "dropWhile is_whitespace (rev s) = rev s"
    by (auto intro!: dropWhile_not_hd simp: hd_rev)
  then show ?thesis by (simp add: trim_def trim_end_def trim_start_def)
qed (simp add: trim_def trim_end_def trim_start_def)

lemma trim_idem [simp]: "trim (trim s) = trim s"
  by (rule trim_id) (use trim_hd_last in blast)

lemma trim_Nil [simp]: "trim [] = []"
  by (simp add: trim_id)

lemma trim_eq_Nil_iff: "trim s = [] \<longleftrightarrow> (\<forall>c \<in> set s. is_whitespace c)"
proof
  assume "trim s = []"
  then have "\<forall>c \<in> set (dropWhile is_whitespace s). is_whitespace c"
    by (simp add: trim_def trim_end_def trim_start_def dropWhile_eq_Nil_conv)
  then have "dropWhile is_whitespace s = []"
    by (metis hd_dropWhile list.set_sel(1))
  then show "\<forall>c \<in> set s. is_whitespace c"
    by (simp add: dropWhile_eq_Nil_conv)
next
  assume "\<forall>c \<in> set s. is_whitespace c"
  then show "trim s = []"
    by (auto simp: trim_def trim_end_def trim_start_def dest: set_dropWhileD)
qed

lemma set_trim: "set (trim s) \<subseteq> set s"
  unfolding trim_def trim_end_def trim_start_def
  by (auto dest!: set_dropWhileD)

section \<open>Decimal rendering is injective\<close>

lemma code_of_digit: "d < 10 \<Longrightarrow> code_of (digit_char d) = 48 + d"
  by (simp add: digit_char_def code_of_char_of)

definition digits_value :: "string \<Rightarrow> nat" where
  "digits_value s = foldl (\<lambda>a c. a * 10 + (code_of c - 48)) 0 s"

lemma digits_value_show_nat [simp]: "digits_value (show_nat n) = n"
proof (induction n rule: show_nat.induct)
  case (1 n)
  then show ?case
    by (subst show_nat.simps) (auto simp: digits_value_def code_of_digit)
qed

lemma show_nat_inject [simp]: "show_nat m = show_nat n \<longleftrightarrow> m = n"
  by (metis digits_value_show_nat)

lemma show_nat_digits: "c \<in> set (show_nat n) \<Longrightarrow> 48 \<le> code_of c \<and> code_of c \<le> 57"
proof (induction n rule: show_nat.induct)
  case (1 n)
  show ?case
  proof (cases "n < 10")
    case True
    with 1 show ?thesis
      by (subst (asm) show_nat.simps) (auto simp: code_of_digit)
  next
    case False
    with 1 show ?thesis
      by (subst (asm) (2) show_nat.simps) (auto simp: code_of_digit)
  qed
qed

lemma show_nat_nonempty [simp]: "show_nat n \<noteq> []"
  by (subst show_nat.simps) simp

end
