(* ===== verification/Json.thy ===== *)
theory Json
  imports Prelude "HOL-Library.AList"
begin

text \<open>
  The part of \<open>serde_json\<close>'s value type that the settings store, the study engine and the
  job payloads use. An object is an association list without repeated keys (\<open>wf_json\<close>);
  a number is an integer or a float, as in \<open>serde_json::Number\<close>. The readers are \<open>as_i64\<close>,
  \<open>as_f64\<close>, \<open>as_bool\<close>, \<open>as_str\<close>, \<open>as_array\<close>, \<open>as_object\<close> and \<open>get\<close>.
\<close>

datatype json =
    JNull
  | JBool bool
  | JInt int
  | JFloat f64
  | JStr string
  | JArr "json list"
  | JObj "(string \<times> json) list"

type_synonym json_object = "(string \<times> json) list"

fun is_object :: "json \<Rightarrow> bool" where
  "is_object (JObj _) = True"
| "is_object _ = False"

fun as_object :: "json \<Rightarrow> json_object option" where
  "as_object (JObj kvs) = Some kvs"
| "as_object _ = None"

fun as_array :: "json \<Rightarrow> json list option" where
  "as_array (JArr vs) = Some vs"
| "as_array _ = None"

fun as_str :: "json \<Rightarrow> string option" where
  "as_str (JStr s) = Some s"
| "as_str _ = None"

fun as_bool :: "json \<Rightarrow> bool option" where
  "as_bool (JBool b) = Some b"
| "as_bool _ = None"

text \<open>A float is never an \<open>i64\<close>, an integer outside the range is not one either.\<close>

fun as_i64 :: "json \<Rightarrow> int option" where
  "as_i64 (JInt n) = (if - (2 ^ 63) \<le> n \<and> n < 2 ^ 63 then Some n else None)"
| "as_i64 _ = None"

fun as_f64 :: "json \<Rightarrow> f64 option" where
  "as_f64 (JInt n) = Some (of_int n)"
| "as_f64 (JFloat x) = Some x"
| "as_f64 _ = None"

definition get_key :: "json \<Rightarrow> string \<Rightarrow> json option" where
  "get_key v k = (case v of JObj kvs \<Rightarrow> map_of kvs k | _ \<Rightarrow> None)"

text \<open>Indexing with \<open>[key]\<close>: a missing key or a non-object reads as null.\<close>

definition index_key :: "json \<Rightarrow> string \<Rightarrow> json" where
  "index_key v k = (case get_key v k of None \<Rightarrow> JNull | Some x \<Rightarrow> x)"

text \<open>Assignment \<open>v[key] = x\<close> on an object that is present.\<close>

definition set_key :: "json \<Rightarrow> string \<Rightarrow> json \<Rightarrow> json" where
  "set_key v k x = (case v of JObj kvs \<Rightarrow> JObj (AList.update k x kvs) | _ \<Rightarrow> v)"

fun wf_json :: "json \<Rightarrow> bool" where
  "wf_json (JObj kvs) = (distinct (map fst kvs) \<and> (\<forall>kv \<in> set kvs. wf_json (snd kv)))"
| "wf_json (JArr vs) = (\<forall>v \<in> set vs. wf_json v)"
| "wf_json _ = True"

fun null_free :: "json \<Rightarrow> bool" where
  "null_free JNull = False"
| "null_free (JObj kvs) = (\<forall>kv \<in> set kvs. null_free (snd kv))"
| "null_free _ = True"

lemma get_key_set_key:
  "is_object v \<Longrightarrow> get_key (set_key v k x) k' = (if k' = k then Some x else get_key v k')"
  by (cases v) (auto simp: get_key_def set_key_def update_conv')

lemma is_object_set_key [simp]: "is_object (set_key v k x) = is_object v"
  by (cases v) (auto simp: set_key_def)

lemma get_key_object: "get_key v k = Some x \<Longrightarrow> is_object v"
  by (cases v) (auto simp: get_key_def)

lemma get_key_JObj [simp]: "get_key (JObj kvs) k = map_of kvs k"
  by (simp add: get_key_def)

section \<open>Decimal integers\<close>

definition is_digit :: "char \<Rightarrow> bool" where
  "is_digit c = (48 \<le> code_of c \<and> code_of c \<le> 57)"

text \<open>\<open>str::parse::<i64>\<close>: an optional sign, at least one digit, in range.\<close>

definition parse_i64 :: "string \<Rightarrow> int option" where
  "parse_i64 s =
     (let (neg, ds) = (case s of [] \<Rightarrow> (False, [])
                        | c # cs \<Rightarrow> if c = CHR ''-'' then (True, cs)
                                    else if c = CHR ''+'' then (False, cs) else (False, s));
          n = (if neg then - int (digits_value ds) else int (digits_value ds))
      in if ds \<noteq> [] \<and> list_all is_digit ds \<and> - (2 ^ 63) \<le> n \<and> n < 2 ^ 63 then Some n else None)"

lemma parse_i64_show_nat:
  assumes "int n < 2 ^ 63"
  shows "parse_i64 (show_nat n) = Some (int n)"
proof -
  obtain c cs where s: "show_nat n = c # cs"
    using show_nat_nonempty by (meson neq_Nil_conv)
  have d: "\<forall>x \<in> set (show_nat n). is_digit x"
    by (auto simp: is_digit_def dest: show_nat_digits)
  have "c \<noteq> CHR ''-''" "c \<noteq> CHR ''+''"
    using d s by (auto simp: is_digit_def code_of_def)
  moreover have "digits_value (c # cs) = n"
    using digits_value_show_nat [of n] by (simp add: s)
  ultimately show ?thesis
    using d assms by (simp add: parse_i64_def s list_all_iff)
qed

lemma parse_i64_show_int: "0 \<le> n \<Longrightarrow> n < 2 ^ 63 \<Longrightarrow> parse_i64 (show_int n) = Some n"
  using parse_i64_show_nat [of "nat n"] by (simp add: show_int_def)

end
