(* ===== verification/Chunking.thy ===== *)
theory Chunking
  imports Prelude
begin

text \<open>
  The text chunker of \<open>insight-core/src/ingest.rs\<close>: \<open>chunk_text\<close> and its helpers
  \<open>split_sentences\<close>, \<open>tail_chars\<close> and \<open>hard_split\<close>. The \<open>while\<close> loop of \<open>hard_split\<close> is a
  recursion on the window start, the \<open>for\<close> loop of \<open>chunk_text\<close> a recursion on the
  remaining sentences that carries the two mutable variables \<open>chunks\<close> and \<open>current\<close>.
  Lemmas: nothing of the text is lost, chunk sizes are bounded, seams overlap.
\<close>

definition CHUNK_TARGET_CHARS :: nat where "CHUNK_TARGET_CHARS = 800"
definition CHUNK_OVERLAP_CHARS :: nat where "CHUNK_OVERLAP_CHARS = 120"

definition is_terminator :: "char \<Rightarrow> bool" where
  "is_terminator c = (c = CHR ''.'' \<or> c = CHR ''!'' \<or> c = CHR ''?'')"

fun split_sentences_loop :: "string \<Rightarrow> string \<Rightarrow> string list" where
  "split_sentences_loop buf [] = (if trim buf \<noteq> [] then [buf] else [])"
| "split_sentences_loop buf (c # cs) =
     (let buf = buf @ [c] in
      if is_terminator c \<and> (case cs of next # _ \<Rightarrow> is_whitespace next | [] \<Rightarrow> False)
      then buf # split_sentences_loop [] cs
      else split_sentences_loop buf cs)"

definition split_sentences :: "string \<Rightarrow> string list" where
  "split_sentences text = split_sentences_loop [] text"

definition tail_chars :: "string \<Rightarrow> nat \<Rightarrow> string" where
  "tail_chars s n =
     (if n = 0 then []
      else let count = length s in
        if count \<le> n then trim s
        else trim_start (drop (count - n) s))"

function hard_split_loop :: "string \<Rightarrow> nat \<Rightarrow> nat \<Rightarrow> nat \<Rightarrow> string list" where
  "hard_split_loop chars target step start =
     (if start < length chars \<and> 0 < step then
        (let end = min (start + target) (length chars);
             piece = take (end - start) (drop start chars)
         in if end = length chars then [piece]
            else piece # hard_split_loop chars target step (start + step))
      else [])"
  by pat_completeness auto
termination
  by (relation "measure (\<lambda>(chars, target, step, start). length chars - start)") auto

declare hard_split_loop.simps [simp del]

definition hard_split :: "string \<Rightarrow> nat \<Rightarrow> nat \<Rightarrow> string list" where
  "hard_split s target overlap = hard_split_loop s target (max (target - overlap) 1) 0"

fun chunk_loop :: "nat \<Rightarrow> nat \<Rightarrow> string list \<Rightarrow> string list \<Rightarrow> string \<Rightarrow> string list \<times> string" where
  "chunk_loop target overlap [] chunks current = (chunks, current)"
| "chunk_loop target overlap (raw # rest) chunks current =
     (let sentence = trim raw in
      if sentence = [] then chunk_loop target overlap rest chunks current
      else if length sentence > target then
        chunk_loop target overlap rest
          ((if current \<noteq> [] then chunks @ [current] else chunks) @ hard_split sentence target overlap) []
      else
        let prospective = length current + (if current = [] then 0 else 1) + length sentence;
            (chunks, current) =
              (if prospective > target \<and> current \<noteq> []
               then (chunks @ [current], tail_chars current overlap)
               else (chunks, current));
            current = (if current \<noteq> [] then current @ '' '' else current) @ sentence
        in chunk_loop target overlap rest chunks current)"

definition chunk_text :: "string \<Rightarrow> nat \<Rightarrow> nat \<Rightarrow> string list" where
  "chunk_text text target overlap =
     (let trimmed = trim text in
      if trimmed = [] then []
      else if length trimmed \<le> target then [trimmed]
      else
        let (chunks, current) = chunk_loop target overlap (split_sentences trimmed) [] []
        in if trim current \<noteq> [] then chunks @ [trim current] else chunks)"

section \<open>Sentences\<close>

text \<open>The splitter drops at most a blank remainder.\<close>

lemma split_sentences_loop_concat:
  "\<exists>r. buf @ s = concat (split_sentences_loop buf s) @ r \<and> trim r = []"
proof (induction buf s rule: split_sentences_loop.induct)
  case (1 buf)
  then show ?case by auto
next
  case (2 buf c cs)
  then show ?case
    by (cases "is_terminator c \<and> (case cs of [] \<Rightarrow> False | next # _ \<Rightarrow> is_whitespace next)")
      (auto simp: Let_def)
qed

lemma split_sentences_concat:
  assumes "trim s = s"
  shows "concat (split_sentences s) = s"
proof -
  obtain r where r: "s = concat (split_sentences s) @ r" "trim r = []"
    using split_sentences_loop_concat [of "[]" s] by (auto simp: split_sentences_def)
  have "r = []"
  proof (rule ccontr)
    assume "r \<noteq> []"
    then have "is_whitespace (last s)"
      using r by (metis last_appendR last_in_set trim_eq_Nil_iff)
    moreover have "\<not> is_whitespace (last s)"
      using trim_hd_last [of s] assms \<open>r \<noteq> []\<close> r(1) by auto
    ultimately show False by simp
  qed
  with r(1) show ?thesis by simp
qed

section \<open>Windows of an over-long sentence\<close>

lemma hard_split_loop_sizes:
  "p \<in> set (hard_split_loop s target step start) \<Longrightarrow> length p \<le> target"
proof (induction s target step start rule: hard_split_loop.induct)
  case (1 chars target step start)
  then show ?case
    by (auto simp: hard_split_loop.simps [of chars target step start] Let_def split: if_splits)
qed

lemma hard_split_loop_nonempty_pieces:
  "0 < target \<Longrightarrow> p \<in> set (hard_split_loop s target step start) \<Longrightarrow> p \<noteq> []"
proof (induction s target step start rule: hard_split_loop.induct)
  case (1 chars target step start)
  have ih: "p \<noteq> []" if "start < length chars" "0 < step"
      "min (start + target) (length chars) \<noteq> length chars"
      "p \<in> set (hard_split_loop chars target step (start + step))"
    using "1.IH" [OF _ refl refl] "1.prems"(1) that by simp
  from "1.prems" show ?case
    by (auto simp: hard_split_loop.simps [of chars target step start] Let_def
        split: if_splits dest: ih)
qed

lemma hard_split_loop_ne:
  "start < length s \<Longrightarrow> 0 < step \<Longrightarrow> hard_split_loop s target step start \<noteq> []"
  by (subst hard_split_loop.simps) (simp add: Let_def)

text \<open>
  Keeping the first \<open>step\<close> characters of every window but the last gives back the text:
  every window advances by \<open>step\<close>, and \<open>step\<close> is never more than the window.
\<close>

lemma hard_split_loop_rebuild:
  "0 < step \<Longrightarrow> step \<le> target \<Longrightarrow> start < length s \<Longrightarrow>
   concat (map (take step) (butlast (hard_split_loop s target step start)))
     @ last (hard_split_loop s target step start) = drop start s"
proof (induction s target step start rule: hard_split_loop.induct)
  case (1 s target step start)
  let ?piece = "take (min (start + target) (length s) - start) (drop start s)"
  show ?case
  proof (cases "start + target < length s")
    case True
    with 1 have ih: "concat (map (take step) (butlast (hard_split_loop s target step (start + step))))
        @ last (hard_split_loop s target step (start + step)) = drop (start + step) s"
      by (simp add: Let_def)
    have ne: "hard_split_loop s target step (start + step) \<noteq> []"
      using True 1 by (intro hard_split_loop_ne) auto
    have "hard_split_loop s target step start =
        take target (drop start s) # hard_split_loop s target step (start + step)"
      using True 1 by (subst hard_split_loop.simps) (simp add: Let_def)
    moreover have "take step (drop start s) @ drop (start + step) s = drop start s"
      by (metis add.commute append_take_drop_id drop_drop)
    ultimately show ?thesis
      using ih ne 1 by (simp add: min_absorb1)
  next
    case False
    then have "hard_split_loop s target step start = [drop start s]"
      using 1 by (subst hard_split_loop.simps) (auto simp: Let_def min_def)
    then show ?thesis by simp
  qed
qed

lemma hard_split_sizes: "p \<in> set (hard_split s target overlap) \<Longrightarrow> length p \<le> target"
  by (auto simp: hard_split_def dest: hard_split_loop_sizes)

section \<open>Shape of the chunks under construction\<close>

text \<open>\<open>tight s\<close>: the string is empty or has no white space at either end.\<close>

definition tight :: "string \<Rightarrow> bool" where
  "tight s = (s = [] \<or> \<not> is_whitespace (hd s) \<and> \<not> is_whitespace (last s))"

lemma tight_trim_iff: "tight s \<longleftrightarrow> trim s = s"
  using trim_hd_last [of s] by (auto simp: tight_def intro: trim_id)

lemma tight_trim [simp]: "tight (trim s)"
  by (simp add: tight_trim_iff)

lemma tail_chars_le: "length (tail_chars s n) \<le> n"
proof -
  have "length (trim_start t) \<le> length t" for t
    by (simp add: trim_start_def length_dropWhile_le)
  from this [of "drop (length s - n) s"] trim_le [of s] show ?thesis
    by (auto simp: tail_chars_def Let_def)
qed

lemma tail_chars_tight:
  assumes "tight s"
  shows "tight (tail_chars s n)"
proof (cases "n = 0 \<or> length s \<le> n")
  case False
  let ?t = "drop (length s - n) s"
  have last: "last ?t = last s" and "s \<noteq> []"
    using False by auto
  show ?thesis
  proof (cases "trim_start ?t = []")
    case False
    then have "last (trim_start ?t) = last ?t"
      unfolding trim_start_def by (metis last_appendR takeWhile_dropWhile_id)
    with False last assms \<open>s \<noteq> []\<close> hd_dropWhile_not [of is_whitespace ?t] show ?thesis
      using \<open>\<not> (n = 0 \<or> length s \<le> n)\<close>
      by (auto simp: tail_chars_def tight_def trim_start_def Let_def)
  qed (use False in \<open>simp add: tail_chars_def tight_def Let_def\<close>)
qed (use trim_hd_last [of s] in \<open>auto simp: tail_chars_def tight_def Let_def\<close>)

lemma tight_glue: "tight a \<Longrightarrow> tight b \<Longrightarrow> b \<noteq> [] \<Longrightarrow>
    tight ((if a \<noteq> [] then a @ '' '' else a) @ b)"
  by (auto simp: tight_def)

text \<open>
  \<open>placed target overlap chunks current s\<close>: the sentence \<open>s\<close> is inside a finished chunk
  or the chunk being built, or, when it is too long, all its windows are finished chunks.
\<close>

definition placed :: "nat \<Rightarrow> nat \<Rightarrow> string list \<Rightarrow> string \<Rightarrow> string \<Rightarrow> bool" where
  "placed target overlap chunks current s =
     (s = [] \<or> (if length s \<le> target then \<exists>c \<in> insert current (set chunks). sublist s c
                else set (hard_split s target overlap) \<subseteq> set chunks))"

lemma placed_Nil [simp]: "placed t ov cs cur []"
  by (simp add: placed_def)

lemma placed_here: "length s \<le> t \<Longrightarrow> sublist s cur \<Longrightarrow> placed t ov cs cur s"
  by (auto simp: placed_def)

lemma placed_windows:
  "t < length s \<Longrightarrow> set (hard_split s t ov) \<subseteq> set cs \<Longrightarrow> placed t ov cs cur s"
  by (auto simp: placed_def)

lemma placed_mono:
  assumes "placed t ov cs cur s" and "set cs \<subseteq> set cs'" and "sublist cur cur' \<or> cur \<in> set cs'"
  shows "placed t ov cs' cur' s"
proof (cases "s = [] \<or> t < length s")
  case False
  with assms obtain c where c: "c \<in> insert cur (set cs)" "sublist s c"
    by (auto simp: placed_def)
  have "\<exists>d \<in> insert cur' (set cs'). sublist s d"
    using c assms(2,3) by (blast intro: sublist_order.order_trans)
  with False show ?thesis by (simp add: placed_def)
next
  case True
  with assms(1,2) show ?thesis
    unfolding placed_def by (metis leD subset_trans)
qed

lemma sublist_glue: "sublist s c \<Longrightarrow> sublist s ((if c \<noteq> [] then c @ '' '' else c) @ d)"
  by (auto simp: sublist_append)

definition chunk_inv :: "nat \<Rightarrow> nat \<Rightarrow> string set \<Rightarrow> string list \<Rightarrow> string \<Rightarrow> bool" where
  "chunk_inv target overlap S chunks current =
     (tight current \<and> length current \<le> target + overlap + 1
      \<and> (\<forall>c \<in> set chunks. length c \<le> target + overlap + 1)
      \<and> (\<forall>s \<in> S. placed target overlap chunks current s))"

lemma chunk_inv_blank:
  "chunk_inv t ov S cs cur \<Longrightarrow> chunk_inv t ov (insert [] S) cs cur"
  by (simp add: chunk_inv_def)

lemma chunk_inv_long:
  assumes inv: "chunk_inv t ov S cs cur" and long: "t < length s"
  shows "chunk_inv t ov (insert s S) ((if cur \<noteq> [] then cs @ [cur] else cs) @ hard_split s t ov) []"
proof -
  let ?cs = "(if cur \<noteq> [] then cs @ [cur] else cs) @ hard_split s t ov"
  have "placed t ov ?cs [] s' " if "s' \<in> S" for s'
    by (rule placed_mono [of t ov cs cur]) (use inv that in \<open>auto simp: chunk_inv_def\<close>)
  moreover have "placed t ov ?cs [] s"
    using long by (intro placed_windows) auto
  moreover have "\<forall>c \<in> set ?cs. length c \<le> t + ov + 1"
  proof
    fix c assume "c \<in> set ?cs"
    then consider "c \<in> insert cur (set cs)" | "length c \<le> t"
      by (auto dest: hard_split_sizes split: if_splits)
    then show "length c \<le> t + ov + 1"
      using inv by cases (auto simp: chunk_inv_def)
  qed
  ultimately show ?thesis
    by (simp add: chunk_inv_def tight_def)
qed

lemma chunk_inv_full:
  assumes inv: "chunk_inv t ov S cs cur" and s: "tight s" "s \<noteq> []" "length s \<le> t"
  shows "chunk_inv t ov (insert s S) (cs @ [cur])
    ((if tail_chars cur ov \<noteq> [] then tail_chars cur ov @ '' '' else tail_chars cur ov) @ s)"
    (is "chunk_inv t ov _ _ ?cur")
proof -
  have "placed t ov (cs @ [cur]) ?cur s'" if "s' \<in> S" for s'
    by (rule placed_mono [of t ov cs cur]) (use inv that in \<open>auto simp: chunk_inv_def\<close>)
  moreover have "placed t ov (cs @ [cur]) ?cur s"
    using s by (intro placed_here) auto
  moreover have "tight ?cur"
    using inv s by (intro tight_glue tail_chars_tight) (simp_all add: chunk_inv_def)
  moreover have "length ?cur \<le> t + ov + 1"
    using tail_chars_le [of cur ov] s by simp
  ultimately show ?thesis
    using inv by (simp add: chunk_inv_def)
qed

lemma chunk_inv_fits:
  assumes inv: "chunk_inv t ov S cs cur" and s: "tight s" "s \<noteq> []" "length s \<le> t"
    and fits: "cur = [] \<or> length cur + 1 + length s \<le> t"
  shows "chunk_inv t ov (insert s S) cs ((if cur \<noteq> [] then cur @ '' '' else cur) @ s)"
    (is "chunk_inv t ov _ _ ?cur")
proof -
  have "placed t ov cs ?cur s'" if "s' \<in> S" for s'
    by (rule placed_mono [of t ov cs cur]) (use inv that in \<open>auto simp: chunk_inv_def\<close>)
  moreover have "placed t ov cs ?cur s"
    using s by (intro placed_here) auto
  moreover have "tight ?cur"
    using inv s by (intro tight_glue) (simp_all add: chunk_inv_def)
  moreover have "length ?cur \<le> t + ov + 1"
    using fits s by auto
  ultimately show ?thesis
    using inv by (simp add: chunk_inv_def)
qed

lemma chunk_loop_inv:
  "chunk_loop t ov ss cs cur = (cs', cur') \<Longrightarrow> chunk_inv t ov S cs cur \<Longrightarrow>
   chunk_inv t ov (S \<union> trim ` set ss) cs' cur'"
proof (induction ss arbitrary: cs cur S)
  case (Cons raw rest)
  let ?s = "trim raw"
  consider (blank) "?s = []" | (long) "?s \<noteq> []" "t < length ?s"
    | (full) "?s \<noteq> []" "length ?s \<le> t" "cur \<noteq> []" "t < length cur + 1 + length ?s"
    | (fits) "?s \<noteq> []" "length ?s \<le> t" "cur = [] \<or> length cur + 1 + length ?s \<le> t"
    by linarith
  then have "\<exists>cs1 cur1. chunk_loop t ov rest cs1 cur1 = (cs', cur')
      \<and> chunk_inv t ov (insert ?s S) cs1 cur1"
  proof cases
    case blank
    with Cons.prems chunk_inv_blank show ?thesis by fastforce
  next
    case long
    with Cons.prems(1) chunk_inv_long [OF Cons.prems(2) long(2)] show ?thesis
      by (fastforce simp: Let_def)
  next
    case full
    with Cons.prems(1) chunk_inv_full [OF Cons.prems(2) _ full(1,2)] show ?thesis
      by (fastforce simp: Let_def)
  next
    case fits
    with Cons.prems(1) have "chunk_loop t ov rest cs ((if cur \<noteq> [] then cur @ '' '' else cur) @ ?s) = (cs', cur')"
      by (cases "cur = []") (simp_all add: Let_def)
    with chunk_inv_fits [OF Cons.prems(2) _ fits] show ?thesis by fastforce
  qed
  with Cons.IH show ?case by fastforce
qed simp


section \<open>What the chunker promises\<close>

lemma sublist_trim: "sublist (trim s) s"
proof -
  have "suffix (trim_start t) t" for t
    by (simp add: trim_start_def suffix_dropWhile)
  moreover have "prefix (trim_end t) t" for t
    unfolding trim_end_def
    by (metis rev_rev_ident suffix_dropWhile suffix_to_prefix)
  ultimately show ?thesis
    unfolding trim_def by (meson prefix_imp_sublist sublist_order.order_trans suffix_imp_sublist)
qed

lemma sublist_concat_member: "s \<in> set ss \<Longrightarrow> sublist s (concat ss)"
  by (metis concat.simps(2) concat_append in_set_conv_decomp_first sublist_appendI)

lemma sentence_sublist:
  "s \<in> set (split_sentences (trim text)) \<Longrightarrow> sublist (trim s) (trim text)"
  by (metis split_sentences_concat sublist_concat_member sublist_order.order_trans sublist_trim trim_idem)

lemma chunk_text_run:
  assumes "trim text \<noteq> []" and "target < length (trim text)"
  obtains cs cur where "chunk_text text target overlap = (if cur \<noteq> [] then cs @ [cur] else cs)"
    and "chunk_inv target overlap (trim ` set (split_sentences (trim text))) cs cur"
proof -
  obtain cs cur where run: "chunk_loop target overlap (split_sentences (trim text)) [] [] = (cs, cur)"
    by fastforce
  have "chunk_inv target overlap {} [] []"
    by (simp add: chunk_inv_def tight_def)
  from chunk_loop_inv [OF run this]
  have inv: "chunk_inv target overlap (trim ` set (split_sentences (trim text))) cs cur" by simp
  then have "trim cur = cur"
    by (simp add: chunk_inv_def tight_trim_iff)
  with run assms have "chunk_text text target overlap = (if cur \<noteq> [] then cs @ [cur] else cs)"
    by (simp add: chunk_text_def Let_def)
  with inv show thesis by (rule that [rotated])
qed

text \<open>
  C14. No sentence of the text is lost: the sentences put together are the trimmed text,
  and every non-blank sentence lies whole inside a chunk, or, when it is longer than the
  target, every one of its windows is a chunk.
\<close>

theorem chunk_text_keeps_text:
  "concat (split_sentences (trim text)) = trim text \<and>
   (\<forall>s \<in> set (split_sentences (trim text)). trim s \<noteq> [] \<longrightarrow>
      (if length (trim s) \<le> target then \<exists>c \<in> set (chunk_text text target overlap). sublist (trim s) c
       else set (hard_split (trim s) target overlap) \<subseteq> set (chunk_text text target overlap)))"
proof (intro conjI ballI impI)
  show "concat (split_sentences (trim text)) = trim text"
    by (simp add: split_sentences_concat)
next
  fix s
  assume s: "s \<in> set (split_sentences (trim text))" and ne: "trim s \<noteq> []"
  note sub = sentence_sublist [OF s]
  then have textne: "trim text \<noteq> []" using ne by auto
  show "if length (trim s) \<le> target then \<exists>c \<in> set (chunk_text text target overlap). sublist (trim s) c
       else set (hard_split (trim s) target overlap) \<subseteq> set (chunk_text text target overlap)"
  proof (cases "length (trim text) \<le> target")
    case True
    with sub have "length (trim s) \<le> target"
      by (meson le_trans sublist_length_le)
    with True sub textne show ?thesis
      by (simp add: chunk_text_def Let_def)
  next
    case False
    then have "target < length (trim text)" by simp
    then obtain cs cur
      where res: "chunk_text text target overlap = (if cur \<noteq> [] then cs @ [cur] else cs)"
        and inv: "chunk_inv target overlap (trim ` set (split_sentences (trim text))) cs cur"
      by (rule chunk_text_run [OF textne])
    from inv s have "placed target overlap cs cur (trim s)"
      by (auto simp: chunk_inv_def)
    with res ne show ?thesis
      by (auto simp: placed_def split: if_splits)
  qed
qed

theorem chunk_text_keeps_text_witness:
  "trim ''One two.'' \<noteq> [] \<and> ''One two.'' \<in> set (split_sentences (trim ''One two. Four!''))
   \<and> (\<exists>c \<in> set (chunk_text ''One two. Four!'' 8 2). sublist ''One two.'' c)"
proof -
  have a: "trim ''One two. Four!'' = ''One two. Four!''"
    and b: "trim ''One two.'' = ''One two.''"
    by (simp_all add: trim_def trim_start_def trim_end_def is_whitespace_def code_of_def)
  then have c: "''One two.'' \<in> set (split_sentences (trim ''One two. Four!''))"
    by (simp add: split_sentences_def is_terminator_def is_whitespace_def code_of_def)
  with chunk_text_keeps_text [of "''One two. Four!''" 8 2] b show ?thesis
    by fastforce
qed

text \<open>
  C15. Chunk sizes are bounded: no chunk has more than target + overlap + 1 characters
  (the overlap tail of the previous chunk, one blank, one sentence).
\<close>

theorem chunk_text_size:
  "c \<in> set (chunk_text text target overlap) \<Longrightarrow> length c \<le> target + overlap + 1"
proof (cases "trim text = [] \<or> length (trim text) \<le> target")
  case False
  then have "trim text \<noteq> []" "target < length (trim text)" by simp_all
  then obtain cs cur
    where "chunk_text text target overlap = (if cur \<noteq> [] then cs @ [cur] else cs)"
      and "chunk_inv target overlap (trim ` set (split_sentences (trim text))) cs cur"
    by (rule chunk_text_run)
  then show "c \<in> set (chunk_text text target overlap) \<Longrightarrow> length c \<le> target + overlap + 1"
    by (auto simp: chunk_inv_def split: if_splits)
qed (auto simp: chunk_text_def Let_def split: if_splits)

text \<open>The bound is attained: a chunk may have one character more than target + overlap.\<close>

theorem chunk_text_size_witness:
  "''d. efgh.'' \<in> set (chunk_text ''abcd. efgh.'' 5 2) \<and> length ''d. efgh.'' = 5 + 2 + (1::nat)
   \<and> length ''d. efgh.'' \<le> 5 + 2 + (1::nat)"
proof -
  have m: "''d. efgh.'' \<in> set (chunk_text ''abcd. efgh.'' 5 2)"
    by (simp add: chunk_text_def trim_def trim_start_def trim_end_def is_whitespace_def
        code_of_def split_sentences_def is_terminator_def tail_chars_def)
  with chunk_text_size [OF m] show ?thesis by simp
qed

text \<open>
  Windows of an over-long sentence: no window is longer than the target or empty,
  and cutting every window but the last back to the step gives the sentence again.
\<close>

theorem hard_split_rebuild:
  assumes "0 < target" and "s \<noteq> []"
  shows "concat (map (take (max (target - overlap) 1)) (butlast (hard_split s target overlap)))
           @ last (hard_split s target overlap) = s
    \<and> (\<forall>p \<in> set (hard_split s target overlap). p \<noteq> [] \<and> length p \<le> target)"
proof -
  have "concat (map (take (max (target - overlap) 1)) (butlast (hard_split s target overlap)))
           @ last (hard_split s target overlap) = drop 0 s"
    unfolding hard_split_def
    by (rule hard_split_loop_rebuild) (use assms in auto)
  then show ?thesis
    using assms hard_split_sizes hard_split_loop_nonempty_pieces
    by (auto simp: hard_split_def)
qed

theorem hard_split_rebuild_witness:
  "hard_split ''abcdefg'' 4 1 = [''abcd'', ''defg''] \<and>
   concat (map (take (max (4 - 1) 1)) (butlast (hard_split ''abcdefg'' 4 1)))
     @ last (hard_split ''abcdefg'' 4 1) = ''abcdefg''"
proof -
  have "hard_split ''abcdefg'' 4 1 = [''abcd'', ''defg'']"
    by (simp add: hard_split_def hard_split_loop.simps)
  with hard_split_rebuild [of 4 "''abcdefg''" 1] show ?thesis by simp
qed

end
