(* ===== verification/UnionFind.thy ===== *)
theory UnionFind
  imports Prelude
begin

text \<open>
  The union-find structure inside \<open>community_labels\<close> of \<open>insight-core/src/graph.rs\<close>: a
  parent vector, the nested function \<open>find\<close> with path halving, and the link step
  \<open>parent[ra] = rb\<close>. \<open>find_root\<close> is a partial function: \<open>None\<close> stands for a loop that does
  not end and for an index out of range; \<open>find_root_correct\<close> shows that neither happens on a
  well-formed vector. The locale \<open>partition_store\<close> states what the community loop
  relies on; it is interpreted on the model at the end of the theory.
\<close>

partial_function (option) find_root :: "nat list \<Rightarrow> nat \<Rightarrow> (nat list \<times> nat) option" where
  "find_root parent x =
     (if length parent \<le> x then None
      else if parent ! x = x then Some (parent, x)
      else if length parent \<le> parent ! x then None
      else let parent = parent[x := parent ! (parent ! x)] in find_root parent (parent ! x))"

definition link_roots :: "nat list \<Rightarrow> nat \<Rightarrow> nat \<Rightarrow> nat list" where
  "link_roots parent ra rb = parent[ra := rb]"

definition unite :: "nat list \<Rightarrow> nat \<Rightarrow> nat \<Rightarrow> nat list option" where
  "unite parent a b =
     (case find_root parent a of None \<Rightarrow> None
      | Some (parent, ra) \<Rightarrow>
          (case find_root parent b of None \<Rightarrow> None
           | Some (parent, rb) \<Rightarrow>
               Some (if ra \<noteq> rb then link_roots parent ra rb else parent)))"

section \<open>Representatives\<close>

inductive rooted :: "nat list \<Rightarrow> nat \<Rightarrow> nat \<Rightarrow> bool" for p where
  root: "x < length p \<Longrightarrow> p ! x = x \<Longrightarrow> rooted p x x"
| up: "x < length p \<Longrightarrow> p ! x \<noteq> x \<Longrightarrow> rooted p (p ! x) r \<Longrightarrow> rooted p x r"

inductive_simps rooted_simps: "rooted p x r"

definition ranked :: "(nat \<Rightarrow> nat) \<Rightarrow> nat list \<Rightarrow> bool" where
  "ranked rank p =
     (\<forall>x < length p. p ! x < length p \<and> (p ! x \<noteq> x \<longrightarrow> rank (p ! x) < rank x))"

definition forest :: "nat list \<Rightarrow> bool" where
  "forest p = (\<exists>rank. ranked rank p)"

definition rep :: "nat list \<Rightarrow> nat \<Rightarrow> nat" where
  "rep p x = (THE r. rooted p x r)"

lemma rooted_at_root: "rooted p x r \<Longrightarrow> p ! x = x \<Longrightarrow> r = x"
  by (erule rooted.cases) simp_all

lemma rooted_parent: "rooted p x r \<Longrightarrow> rooted p (p ! x) r"
  by (erule rooted.cases) (simp_all add: rooted.root)

lemma rooted_unique: "rooted p x r \<Longrightarrow> rooted p x s \<Longrightarrow> r = s"
  by (induction arbitrary: s rule: rooted.induct) (blast dest: rooted_at_root rooted_parent)+

lemma rooted_is_root: "rooted p x r \<Longrightarrow> r < length p \<and> p ! r = r"
  by (induction rule: rooted.induct) auto

lemma rooted_exists: "ranked rank p \<Longrightarrow> x < length p \<Longrightarrow> \<exists>r. rooted p x r"
proof (induction "rank x" arbitrary: x rule: less_induct)
  case less
  show ?case
  proof (cases "p ! x = x")
    case True
    with less.prems show ?thesis by (blast intro: rooted.root)
  next
    case False
    with less.prems have "rank (p ! x) < rank x" "p ! x < length p"
      by (simp_all add: ranked_def)
    with less.hyps less.prems(1) obtain r where "rooted p (p ! x) r" by blast
    with False less.prems(2) show ?thesis by (blast intro: rooted.up)
  qed
qed

lemma rep_eqI: "rooted p x r \<Longrightarrow> rep p x = r"
  unfolding rep_def by (blast intro: rooted_unique the_equality)

lemma rooted_rep: "forest p \<Longrightarrow> x < length p \<Longrightarrow> rooted p x (rep p x)"
  by (metis forest_def rep_eqI rooted_exists)

lemma rep_root: "forest p \<Longrightarrow> x < length p \<Longrightarrow> rep p x < length p \<and> p ! (rep p x) = rep p x"
  by (blast dest: rooted_rep rooted_is_root)

lemma rep_idem: "forest p \<Longrightarrow> x < length p \<Longrightarrow> rep p (rep p x) = rep p x"
  by (metis rep_eqI rep_root rooted.root)

section \<open>Path halving\<close>

lemma ranked_halve:
  assumes "ranked rank p" "x < length p" "p ! x \<noteq> x"
  shows "ranked rank (p[x := p ! (p ! x)])"
proof -
  let ?gp = "p ! (p ! x)"
  have px: "p ! x < length p" "rank (p ! x) < rank x"
    using assms by (auto simp: ranked_def)
  then have "?gp < length p" "rank ?gp \<le> rank (p ! x)"
    using assms(1) by (auto simp: ranked_def order.order_iff_strict)
  with assms px show ?thesis
    by (auto simp: ranked_def nth_list_update)
qed

lemma rooted_halve:
  assumes rk: "ranked rank p" and x: "x < length p" "p ! x \<noteq> x" and y: "rooted p y r"
  shows "rooted (p[x := p ! (p ! x)]) y r"
  using y
proof (induction rule: rooted.induct)
  case (root y)
  with x(2) have "y \<noteq> x" by auto
  with root show ?case by (intro rooted.root) auto
next
  case (up y r)
  let ?q = "p[x := p ! (p ! x)]"
  show ?case
  proof (cases "y = x")
    case False
    with up show ?thesis by (intro rooted.up [of y ?q]) auto
  next
    case True
    have gp: "p ! (p ! x) \<noteq> x"
      using x rk by (metis less_asym ranked_def)
    have "rooted ?q (p ! (p ! x)) r"
    proof (cases "p ! (p ! x) = p ! x")
      case True
      with up.IH \<open>y = x\<close> show ?thesis by simp
    next
      case False
      from up.IH \<open>y = x\<close> have "rooted ?q (p ! x) r" by simp
      then have "rooted ?q (?q ! (p ! x)) r" by (rule rooted_parent)
      with x show ?thesis by simp
    qed
    then have "rooted ?q (?q ! x) r"
      using x by simp
    moreover have "?q ! x \<noteq> x" "x < length ?q"
      using gp x by simp_all
    ultimately show ?thesis
      using True by (metis rooted.up)
  qed
qed

lemma find_root_ranked:
  "ranked rank p \<Longrightarrow> x < length p \<Longrightarrow> \<exists>p'. find_root p x = Some (p', rep p x)
     \<and> ranked rank p' \<and> length p' = length p \<and> (\<forall>y r. rooted p y r \<longrightarrow> rooted p' y r)"
proof (induction "rank x" arbitrary: x p rule: less_induct)
  case less
  have forest: "forest p"
    using less.prems by (auto simp: forest_def)
  show ?case
  proof (cases "p ! x = x")
    case True
    with less.prems have "find_root p x = Some (p, x)" "rep p x = x"
      by (auto simp: find_root.simps intro: rep_eqI rooted.root)
    with less.prems show ?thesis by auto
  next
    case False
    let ?q = "p[x := p ! (p ! x)]"
    have px: "p ! x < length p" "rank (p ! x) < rank x"
      using less.prems False by (auto simp: ranked_def)
    then have "p ! (p ! x) < length p" "rank (p ! (p ! x)) \<le> rank (p ! x)"
      using less.prems(1) by (auto simp: ranked_def order.order_iff_strict)
    with px less.prems have gp: "?q ! x < length ?q" and less_rank: "rank (?q ! x) < rank x"
      by auto
    have keeps: "rooted ?q y r" if "rooted p y r" for y r
      using rooted_halve [OF less.prems False that] .
    have same: "rep ?q (?q ! x) = rep p x"
      using keeps [OF rooted_rep [OF forest less.prems(2)]] by (intro rep_eqI rooted_parent)
    have unfold: "find_root p x = find_root ?q (?q ! x)"
      using less.prems px False by (subst find_root.simps) (simp add: Let_def)
    from less.hyps [OF less_rank ranked_halve [OF less.prems False] gp] obtain p'
      where "find_root ?q (?q ! x) = Some (p', rep p x)" "ranked rank p'" "length p' = length p"
        "\<forall>y r. rooted ?q y r \<longrightarrow> rooted p' y r"
      unfolding same by auto
    with unfold keeps show ?thesis by auto
  qed
qed

lemma find_root_correct:
  assumes "forest p" "x < length p"
  shows "\<exists>p'. find_root p x = Some (p', rep p x) \<and> forest p' \<and> length p' = length p
    \<and> (\<forall>y < length p. rep p' y = rep p y)"
proof -
  from assms(1) obtain rank where rank: "ranked rank p"
    by (auto simp: forest_def)
  from find_root_ranked [OF rank assms(2)] obtain p'
    where p': "find_root p x = Some (p', rep p x)" "ranked rank p'" "length p' = length p"
      "\<forall>y r. rooted p y r \<longrightarrow> rooted p' y r" by auto
  then have "\<forall>y < length p. rep p' y = rep p y"
    using rooted_rep [OF assms(1)] by (blast intro: rep_eqI)
  with p' show ?thesis by (auto simp: forest_def)
qed

section \<open>Linking two roots\<close>

lemma rooted_link:
  assumes "rooted p y r" and ra: "ra < length p" "p ! ra = ra"
    and rb: "rb < length p" "p ! rb = rb" and ne: "ra \<noteq> rb"
  shows "rooted (p[ra := rb]) y (if r = ra then rb else r)"
  using assms(1)
proof (induction rule: rooted.induct)
  case (root y)
  let ?q = "p[ra := rb]"
  have "rooted ?q rb rb"
    using rb ne by (intro rooted.root) auto
  then have "rooted ?q ra rb"
    using ra ne by (intro rooted.up [of ra ?q rb]) auto
  moreover have "rooted ?q y y" if "y \<noteq> ra"
    using root that by (intro rooted.root) auto
  ultimately show ?case by auto
next
  case (up y r)
  with ra have "y \<noteq> ra" by auto
  with up show ?case by (intro rooted.up [of y "p[ra := rb]"]) auto
qed

lemma forest_link:
  assumes "forest p" and ra: "ra < length p" "p ! ra = ra"
    and rb: "rb < length p" "p ! rb = rb" and ne: "ra \<noteq> rb"
  shows "forest (p[ra := rb])"
proof -
  from assms(1) obtain rank where rank: "ranked rank p"
    by (auto simp: forest_def)
  define rank' where "rank' y = rank y + (if rep p y = ra then rank rb + 1 else 0)" for y
  have rep_parent: "rep p (p ! y) = rep p y" if "y < length p" for y
    using rooted_rep [OF assms(1) that] by (intro rep_eqI rooted_parent)
  have "rep p rb = rb" "rep p ra = ra"
    using ra rb by (auto intro!: rep_eqI rooted.root)
  with rank rep_parent ra rb ne have "ranked rank' (p[ra := rb])"
    by (auto simp: ranked_def rank'_def nth_list_update)
  then show ?thesis by (auto simp: forest_def)
qed

lemma rep_link:
  assumes "forest p" and "ra < length p" "p ! ra = ra" "rb < length p" "p ! rb = rb" "ra \<noteq> rb"
    and "y < length p"
  shows "rep (p[ra := rb]) y = (if rep p y = ra then rb else rep p y)"
  using rooted_link [OF rooted_rep [OF assms(1,7)] assms(2-6)] by (rule rep_eqI)

section \<open>The contract of a partition store\<close>

locale partition_store =
  fixes ok :: "'s \<Rightarrow> bool"
    and size_of :: "'s \<Rightarrow> nat"
    and find :: "'s \<Rightarrow> nat \<Rightarrow> ('s \<times> nat) option"
    and link :: "'s \<Rightarrow> nat \<Rightarrow> nat \<Rightarrow> 's"
    and class_of :: "'s \<Rightarrow> nat \<Rightarrow> nat"
  assumes find_total: "ok s \<Longrightarrow> x < size_of s \<Longrightarrow>
      \<exists>s'. find s x = Some (s', class_of s x) \<and> ok s' \<and> size_of s' = size_of s
        \<and> (\<forall>y < size_of s. class_of s' y = class_of s y)"
    and class_range: "ok s \<Longrightarrow> x < size_of s \<Longrightarrow> class_of s x < size_of s"
    and class_idem: "ok s \<Longrightarrow> x < size_of s \<Longrightarrow> class_of s (class_of s x) = class_of s x"
    and link_ok: "ok s \<Longrightarrow> a < size_of s \<Longrightarrow> b < size_of s \<Longrightarrow> class_of s a = a \<Longrightarrow>
      class_of s b = b \<Longrightarrow> a \<noteq> b \<Longrightarrow> ok (link s a b) \<and> size_of (link s a b) = size_of s
        \<and> (\<forall>y < size_of s. class_of (link s a b) y = (if class_of s y = a then b else class_of s y))"
begin

text \<open>Two finds and a conditional link merge exactly two classes.\<close>

lemma unite_step:
  assumes ok: "ok s" and a: "a < size_of s" and b: "b < size_of s"
  shows "\<exists>s1 s2 s3. find s a = Some (s1, class_of s a) \<and> find s1 b = Some (s2, class_of s b)
    \<and> s3 = (if class_of s a \<noteq> class_of s b then link s2 (class_of s a) (class_of s b) else s2)
    \<and> ok s3 \<and> size_of s3 = size_of s
    \<and> (\<forall>y < size_of s. class_of s3 y = (if class_of s y = class_of s a then class_of s b else class_of s y))"
proof -
  from find_total [OF ok a] obtain s1
    where s1: "find s a = Some (s1, class_of s a)" "ok s1" "size_of s1 = size_of s"
      "\<forall>y < size_of s. class_of s1 y = class_of s y" by auto
  with find_total [of s1 b] b obtain s2
    where s2: "find s1 b = Some (s2, class_of s b)" "ok s2" "size_of s2 = size_of s"
      "\<forall>y < size_of s. class_of s2 y = class_of s y" by auto
  let ?ra = "class_of s a" and ?rb = "class_of s b"
  have roots: "?ra < size_of s2" "?rb < size_of s2" "class_of s2 ?ra = ?ra" "class_of s2 ?rb = ?rb"
    using s2(3,4) class_range [OF ok] class_idem [OF ok] a b by auto
  show ?thesis
  proof (cases "?ra = ?rb")
    case True
    with s1(1) s2 show ?thesis by auto
  next
    case False
    with link_ok [OF s2(2) roots False] s1(1) s2 show ?thesis by auto
  qed
qed

end

interpretation uf: partition_store forest length find_root link_roots rep
proof unfold_locales
  fix s :: "nat list" and x
  assume "forest s" "x < length s"
  then show "\<exists>s'. find_root s x = Some (s', rep s x) \<and> forest s' \<and> length s' = length s
      \<and> (\<forall>y < length s. rep s' y = rep s y)"
    by (rule find_root_correct)
  from \<open>forest s\<close> \<open>x < length s\<close> show "rep s x < length s" "rep s (rep s x) = rep s x"
    by (auto dest: rep_root rep_idem)
next
  fix s :: "nat list" and a b
  assume s: "forest s" and ab: "a < length s" "b < length s" "rep s a = a" "rep s b = b" "a \<noteq> b"
  then have "s ! a = a" "s ! b = b"
    by (metis rep_root)+
  with s ab show "forest (link_roots s a b) \<and> length (link_roots s a b) = length s
      \<and> (\<forall>y < length s. rep (link_roots s a b) y = (if rep s y = a then b else rep s y))"
    by (simp add: link_roots_def forest_link rep_link)
qed

lemma unite_correct:
  assumes "forest p" "a < length p" "b < length p"
  shows "\<exists>p'. unite p a b = Some p' \<and> forest p' \<and> length p' = length p
    \<and> (\<forall>y < length p. rep p' y = (if rep p y = rep p a then rep p b else rep p y))"
  using uf.unite_step [OF assms] by (auto simp: unite_def)

lemma forest_initial: "forest [0..<n]"
  by (auto simp: forest_def ranked_def)

lemma rep_initial: "x < n \<Longrightarrow> rep [0..<n] x = x"
  by (auto intro!: rep_eqI rooted.root)

text \<open>
  \<open>find\<close> with path halving always ends on a well-formed parent vector, returns the
  root of its argument, and changes neither the roots nor the well-formedness.
\<close>

theorem find_root_terminates:
  assumes "forest p" "x < length p"
  shows "\<exists>p'. find_root p x = Some (p', rep p x) \<and> rooted p x (rep p x) \<and> forest p'
    \<and> length p' = length p \<and> (\<forall>y < length p. rep p' y = rep p y)"
  using find_root_correct [OF assms] rooted_rep [OF assms] by auto

theorem find_root_terminates_witness:
  "\<exists>p'. find_root [0, 0, 1, 2] 3 = Some (p', rep [0, 0, 1, 2] 3) \<and> p' = [0, 0, 1, 1]"
proof -
  have f: "forest [0, 0, 1, 2]"
    unfolding forest_def ranked_def
    by (rule exI [of _ "\<lambda>x. x"]) (auto simp: nth_Cons split: nat.splits)
  have "find_root [0, 0, 1, 2] 3 = Some ([0, 0, 1, 1], 0)"
    by (simp add: find_root.simps)
  with find_root_terminates [OF f, of 3] show ?thesis by auto
qed

end
