(* ===== verification/Graph.thy ===== *)
theory Graph
  imports UnionFind
begin

text \<open>
  The knowledge graph of \<open>insight-core/src/graph.rs\<close>: \<open>adjacency\<close>, \<open>community_labels\<close>
  (connected components by union-find) and the power iteration of \<open>pagerank\<close>. The tables
  are read into lists; a \<open>HashMap\<close> is a finite map, and where the code iterates over one,
  the iteration order is an argument (\<open>adj_order\<close>, \<open>index_order\<close>, \<open>rank_order\<close>): any list
  without repetition of the keys. Every \<open>unwrap\<close>, \<open>map[key]\<close> and vector access that could
  panic is a \<open>None\<close> branch. The theorems show that communities are exactly the connected
  components and that PageRank is a probability distribution.
\<close>

type_synonym edge_row = "uuid \<times> uuid"

section \<open>Adjacency\<close>

definition or_default :: "('k \<rightharpoonup> 'v list) \<Rightarrow> 'k \<Rightarrow> 'v list" where
  "or_default m k = (case m k of None \<Rightarrow> [] | Some vs \<Rightarrow> vs)"

fun adjacency_nodes :: "uuid list \<Rightarrow> (uuid \<rightharpoonup> uuid list) \<Rightarrow> (uuid \<rightharpoonup> uuid list)" where
  "adjacency_nodes [] adj = adj"
| "adjacency_nodes (v # vs) adj = adjacency_nodes vs (adj(v \<mapsto> or_default adj v))"

fun adjacency_edges :: "edge_row list \<Rightarrow> (uuid \<rightharpoonup> uuid list) \<Rightarrow> (uuid \<rightharpoonup> uuid list)" where
  "adjacency_edges [] adj = adj"
| "adjacency_edges ((s, d) # es) adj =
     (let adj = adj(s \<mapsto> or_default adj s @ [d]);
          adj = adj(d \<mapsto> or_default adj d @ [s])
      in adjacency_edges es adj)"

definition adjacency :: "uuid list \<Rightarrow> edge_row list \<Rightarrow> (uuid \<rightharpoonup> uuid list)" where
  "adjacency node_ids edges = adjacency_edges edges (adjacency_nodes node_ids Map.empty)"

section \<open>Communities\<close>

fun index_from :: "nat \<Rightarrow> uuid list \<Rightarrow> (uuid \<rightharpoonup> nat) \<Rightarrow> (uuid \<rightharpoonup> nat)" where
  "index_from i [] m = m"
| "index_from i (v # vs) m = index_from (Suc i) vs (m(v \<mapsto> i))"

definition node_index :: "uuid list \<Rightarrow> (uuid \<rightharpoonup> nat)" where
  "node_index node_ids = index_from 0 node_ids Map.empty"

fun unite_neighbors :: "(uuid \<rightharpoonup> nat) \<Rightarrow> nat \<Rightarrow> uuid list \<Rightarrow> nat list \<Rightarrow> nat list option" where
  "unite_neighbors index a [] parent = Some parent"
| "unite_neighbors index a (n # ns) parent =
     (case index n of
        None \<Rightarrow> unite_neighbors index a ns parent
      | Some b \<Rightarrow> (case unite parent a b of None \<Rightarrow> None
                    | Some parent \<Rightarrow> unite_neighbors index a ns parent))"

fun unite_all :: "(uuid \<rightharpoonup> nat) \<Rightarrow> (uuid \<rightharpoonup> uuid list) \<Rightarrow> uuid list \<Rightarrow> nat list \<Rightarrow> nat list option" where
  "unite_all index adj [] parent = Some parent"
| "unite_all index adj (v # vs) parent =
     (case index v of
        None \<Rightarrow> unite_all index adj vs parent
      | Some a \<Rightarrow> (case unite_neighbors index a (or_default adj v) parent of None \<Rightarrow> None
                    | Some parent \<Rightarrow> unite_all index adj vs parent))"

text \<open>\<open>roots\<close> is the \<open>HashMap\<close> from root to community number, as an association list.\<close>

fun label_all :: "(uuid \<rightharpoonup> nat) \<Rightarrow> uuid list \<Rightarrow> nat list \<Rightarrow> (nat \<times> nat) list \<Rightarrow> (uuid \<rightharpoonup> nat)
    \<Rightarrow> ((uuid \<rightharpoonup> nat) \<times> nat) option" where
  "label_all index [] parent roots labels = Some (labels, length roots)"
| "label_all index (v # vs) parent roots labels =
     (case index v of
        None \<Rightarrow> None
      | Some i \<Rightarrow> (case find_root parent i of
          None \<Rightarrow> None
        | Some (parent, r) \<Rightarrow>
            (let next = length roots in
             case map_of roots r of
               Some community \<Rightarrow> label_all index vs parent roots (labels(v \<mapsto> community))
             | None \<Rightarrow> label_all index vs parent ((r, next) # roots) (labels(v \<mapsto> next)))))"

definition community_labels ::
  "uuid list \<Rightarrow> uuid list \<Rightarrow> uuid list \<Rightarrow> edge_row list \<Rightarrow> ((uuid \<rightharpoonup> nat) \<times> nat) option" where
  "community_labels adj_order index_order node_ids edges =
     (let adj = adjacency node_ids edges;
          index = node_index node_ids;
          parent = [0..<length node_ids]
      in case unite_all index adj adj_order parent of
           None \<Rightarrow> None
         | Some parent \<Rightarrow> label_all index index_order parent [] Map.empty)"

section \<open>PageRank\<close>

definition damping :: f64 where "damping = 0.85"

definition add_at :: "('k \<rightharpoonup> f64) \<Rightarrow> 'k \<Rightarrow> f64 \<Rightarrow> ('k \<rightharpoonup> f64) option" where
  "add_at m k share = (case m k of None \<Rightarrow> None | Some x \<Rightarrow> Some (m(k \<mapsto> x + share)))"

fun spread :: "'k list \<Rightarrow> f64 \<Rightarrow> ('k \<rightharpoonup> f64) \<Rightarrow> ('k \<rightharpoonup> f64) option" where
  "spread [] share next = Some next"
| "spread (t # ts) share next = Option.bind (add_at next t share) (spread ts share)"

definition uniform :: "uuid list \<Rightarrow> f64 \<Rightarrow> (uuid \<rightharpoonup> f64)" where
  "uniform node_ids x = (\<lambda>v. if v \<in> set node_ids then Some x else None)"

fun rank_pass :: "uuid list \<Rightarrow> (uuid \<rightharpoonup> uuid list) \<Rightarrow> (uuid \<rightharpoonup> f64) \<Rightarrow> uuid list \<Rightarrow> (uuid \<rightharpoonup> f64)
    \<Rightarrow> (uuid \<rightharpoonup> f64) option" where
  "rank_pass node_ids adj rank [] next = Some next"
| "rank_pass node_ids adj rank (v # vs) next =
     (case (adj v, rank v) of
        (Some neighbors, Some rv) \<Rightarrow>
          Option.bind
            (if neighbors = []
             then spread node_ids (damping * rv / real (length node_ids)) next
             else spread neighbors (damping * rv / real (length neighbors)) next)
            (rank_pass node_ids adj rank vs)
      | _ \<Rightarrow> None)"

fun power_iteration :: "nat \<Rightarrow> uuid list \<Rightarrow> (uuid \<rightharpoonup> uuid list) \<Rightarrow> (uuid \<rightharpoonup> f64) \<Rightarrow> (uuid \<rightharpoonup> f64) option" where
  "power_iteration 0 node_ids adj rank = Some rank"
| "power_iteration (Suc k) node_ids adj rank =
     Option.bind
       (rank_pass node_ids adj rank node_ids
          (uniform node_ids ((1 - damping) / real (length node_ids))))
       (power_iteration k node_ids adj)"

definition scored_rows :: "uuid list \<Rightarrow> (uuid \<rightharpoonup> f64) \<Rightarrow> (uuid \<rightharpoonup> string) \<Rightarrow> (uuid \<times> string \<times> f64) list" where
  "scored_rows rank_order rank labels =
     map (\<lambda>v. (v, case labels v of None \<Rightarrow> [] | Some l \<Rightarrow> l, case rank v of None \<Rightarrow> 0 | Some x \<Rightarrow> x))
       rank_order"

definition pagerank :: "uuid list \<Rightarrow> uuid list \<Rightarrow> edge_row list \<Rightarrow> (uuid \<rightharpoonup> string)
    \<Rightarrow> (uuid \<times> string \<times> f64) list option" where
  "pagerank rank_order node_ids edges labels =
     (let adj = adjacency node_ids edges in
      if node_ids = [] then Some []
      else case power_iteration 30 node_ids adj (uniform node_ids (1 / real (length node_ids))) of
             None \<Rightarrow> None
           | Some rank \<Rightarrow> Some (sort_key (\<lambda>(_, _, score). - score) (scored_rows rank_order rank labels)))"

section \<open>The adjacency map\<close>

lemma or_default_upd [simp]: "or_default (m(k \<mapsto> vs)) k' = (if k' = k then vs else or_default m k')"
  by (simp add: or_default_def)

lemma adjacency_nodes_default: "or_default (adjacency_nodes vs adj) u = or_default adj u"
  by (induction vs arbitrary: adj) auto

lemma adjacency_nodes_dom: "dom (adjacency_nodes vs adj) = dom adj \<union> set vs"
  by (induction vs arbitrary: adj) auto

lemma adjacency_edges_default:
  "set (or_default (adjacency_edges es adj) u) =
     set (or_default adj u) \<union> {v. (u, v) \<in> set es \<or> (v, u) \<in> set es}"
  by (induction es arbitrary: adj) (auto simp: Let_def split: if_splits)

lemma or_default_empty [simp]: "or_default (\<lambda>x. None) u = []"
  by (simp add: or_default_def)

lemma adjacency_neighbors:
  "set (or_default (adjacency V E) u) = {v. (u, v) \<in> set E \<or> (v, u) \<in> set E}"
  by (simp add: adjacency_def adjacency_edges_default adjacency_nodes_default)

lemma adjacency_edges_keeps: "adj v \<noteq> None \<Longrightarrow> adjacency_edges es adj v \<noteq> None"
proof (induction es arbitrary: adj)
  case (Cons e es)
  obtain s d where "e = (s, d)" by fastforce
  with Cons show ?case by (simp add: Let_def)
qed simp

lemma adjacency_node: "v \<in> set V \<Longrightarrow> \<exists>ns. adjacency V E v = Some ns"
  using adjacency_nodes_dom [of V Map.empty] adjacency_edges_keeps [of "adjacency_nodes V Map.empty" v E]
  by (auto simp: adjacency_def)

lemma index_from_Some:
  "distinct vs \<Longrightarrow> dom m \<inter> set vs = {} \<Longrightarrow>
   index_from i vs m v = Some j \<longleftrightarrow> m v = Some j \<or> (\<exists>k < length vs. vs ! k = v \<and> j = i + k)"
proof (induction vs arbitrary: i m)
  case (Cons u vs)
  have split: "(\<exists>k < length (u # vs). (u # vs) ! k = v \<and> j = i + k) \<longleftrightarrow>
      u = v \<and> j = i \<or> (\<exists>k < length vs. vs ! k = v \<and> j = Suc i + k)"
    by (auto simp: less_Suc_eq_0_disj)
  have "index_from (Suc i) vs (m(u \<mapsto> i)) v = Some j \<longleftrightarrow>
      (m(u \<mapsto> i)) v = Some j \<or> (\<exists>k < length vs. vs ! k = v \<and> j = Suc i + k)"
    using Cons.prems by (intro Cons.IH) (auto simp: disjoint_iff domIff split: if_splits)
  moreover have "m u = None" using Cons.prems(2) by auto
  ultimately show ?case
    unfolding split by (cases "v = u") (simp_all, blast+)
qed simp

lemma node_index_Some:
  "distinct V \<Longrightarrow> node_index V v = Some i \<longleftrightarrow> i < length V \<and> V ! i = v"
  by (auto simp: node_index_def index_from_Some)

section \<open>Merging along the edges\<close>

definition uf_inv :: "nat list \<Rightarrow> nat \<Rightarrow> (nat \<times> nat) set \<Rightarrow> (nat \<times> nat) set \<Rightarrow> bool" where
  "uf_inv p n C R \<longleftrightarrow> forest p \<and> length p = n
     \<and> (\<forall>x < n. \<forall>y < n. rep p x = rep p y \<longrightarrow> (x, y) \<in> C)
     \<and> (\<forall>(a, b) \<in> R. a < n \<and> b < n \<and> rep p a = rep p b)"

lemma unite_inv:
  assumes inv: "uf_inv p n C R" and ab: "a < n" "b < n" "(a, b) \<in> C"
    and C: "sym C" "trans C"
  shows "\<exists>p'. unite p a b = Some p' \<and> uf_inv p' n C (insert (a, b) R)"
proof -
  from inv have p: "forest p" "length p = n" by (simp_all add: uf_inv_def)
  with unite_correct [of p a b] ab obtain p' where p': "unite p a b = Some p'" "forest p'" "length p' = n"
    "\<forall>y < n. rep p' y = (if rep p y = rep p a then rep p b else rep p y)" by auto
  have cls: "(x, y) \<in> C" if "x < n" "y < n" "rep p x = rep p y" for x y
    using inv that by (auto simp: uf_inv_def)
  have "(x, y) \<in> C" if "x < n" "y < n" "rep p' x = rep p' y" for x y
  proof -
    have "(u, v) \<in> C" if "u < n" "v < n" "rep p u = rep p a" "rep p v = rep p b" for u v
      using cls [of u a] cls [of b v] that ab C by (metis transD)
    with cls [OF that(1,2)] that p'(4) C(1) show ?thesis
      by (metis symD)
  qed
  moreover have "rep p' u = rep p' v" if "(u, v) \<in> insert (a, b) R" for u v
    using that inv p'(4) ab by (auto simp: uf_inv_def)
  ultimately have "uf_inv p' n C (insert (a, b) R)"
    using p' inv ab by (auto simp: uf_inv_def)
  with p'(1) show ?thesis by auto
qed

lemma unite_neighbors_inv:
  assumes "uf_inv p n C R" and "a < n" and "sym C" "trans C"
    and "\<And>v b. v \<in> set ns \<Longrightarrow> index v = Some b \<Longrightarrow> b < n \<and> (a, b) \<in> C"
  shows "\<exists>p'. unite_neighbors index a ns p = Some p'
    \<and> uf_inv p' n C (R \<union> {(a, b) | v b. v \<in> set ns \<and> index v = Some b})"
  using assms(1,5)
proof (induction ns arbitrary: p R)
  case (Cons v ns)
  show ?case
  proof (cases "index v")
    case None
    then have eq: "{(a, b) | w b. w \<in> set (v # ns) \<and> index w = Some b} =
        {(a, b) | w b. w \<in> set ns \<and> index w = Some b}"
      by auto
    have "\<exists>p'. unite_neighbors index a ns p = Some p'
        \<and> uf_inv p' n C (R \<union> {(a, b) | v b. v \<in> set ns \<and> index v = Some b})"
      by (rule Cons.IH [OF Cons.prems(1)]) (rule Cons.prems(2); simp)
    with None show ?thesis unfolding eq by simp
  next
    case (Some b)
    with Cons.prems(2) [of v b] have b: "b < n" "(a, b) \<in> C" by auto
    from unite_inv [OF Cons.prems(1) assms(2) b assms(3,4)] obtain q
      where q: "unite p a b = Some q" "uf_inv q n C (insert (a, b) R)" by auto
    have eq: "insert (a, b) R \<union> {(a, b) | v b. v \<in> set ns \<and> index v = Some b} =
        R \<union> {(a, b) | w b. w \<in> set (v # ns) \<and> index w = Some b}"
      using Some by auto
    have "\<exists>p'. unite_neighbors index a ns q = Some p'
        \<and> uf_inv p' n C (insert (a, b) R \<union> {(a, b) | v b. v \<in> set ns \<and> index v = Some b})"
      by (rule Cons.IH [OF q(2)]) (rule Cons.prems(2); simp)
    with q(1) Some show ?thesis unfolding eq by simp
  qed
qed auto

definition processed :: "(uuid \<rightharpoonup> nat) \<Rightarrow> (uuid \<rightharpoonup> uuid list) \<Rightarrow> uuid set \<Rightarrow> (nat \<times> nat) set" where
  "processed index adj S = {(a, b). \<exists>u v. u \<in> S \<and> index u = Some a \<and> v \<in> set (or_default adj u) \<and> index v = Some b}"

lemma unite_all_inv:
  assumes "uf_inv p n C R" and "sym C" "trans C"
    and "\<And>u v a b. u \<in> set us \<Longrightarrow> index u = Some a \<Longrightarrow> v \<in> set (or_default adj u) \<Longrightarrow>
      index v = Some b \<Longrightarrow> b < n \<and> (a, b) \<in> C"
    and "\<And>u a. index u = Some a \<Longrightarrow> a < n"
  shows "\<exists>p'. unite_all index adj us p = Some p' \<and> uf_inv p' n C (R \<union> processed index adj (set us))"
  using assms(1,4)
proof (induction us arbitrary: p R)
  case Nil
  then show ?case by (simp add: processed_def)
next
  case (Cons u us)
  show ?case
  proof (cases "index u")
    case None
    then have eq: "processed index adj (set (u # us)) = processed index adj (set us)"
      by (auto simp: processed_def)
    have "\<exists>p'. unite_all index adj us p = Some p'
        \<and> uf_inv p' n C (R \<union> processed index adj (set us))"
      by (rule Cons.IH [OF Cons.prems(1)]) (rule Cons.prems(2); simp)
    with None show ?thesis unfolding eq by simp
  next
    case (Some a)
    let ?N = "{(a, b) | v b. v \<in> set (or_default adj u) \<and> index v = Some b}"
    have "\<exists>q. unite_neighbors index a (or_default adj u) p = Some q \<and> uf_inv q n C (R \<union> ?N)"
      by (rule unite_neighbors_inv) (use Cons.prems Some assms(2,3,5) in auto)
    then obtain q where q: "unite_neighbors index a (or_default adj u) p = Some q"
      "uf_inv q n C (R \<union> ?N)" by auto
    have eq: "(R \<union> ?N) \<union> processed index adj (set us) = R \<union> processed index adj (set (u # us))"
      using Some by (auto simp: processed_def)
    have "\<exists>p'. unite_all index adj us q = Some p' \<and> uf_inv p' n C ((R \<union> ?N) \<union> processed index adj (set us))"
      by (rule Cons.IH [OF q(2)]) (rule Cons.prems(2); simp)
    with q(1) Some show ?thesis unfolding eq by simp
  qed
qed

section \<open>Numbering the communities\<close>

definition numbered :: "(nat \<times> nat) list \<Rightarrow> bool" where
  "numbered roots \<longleftrightarrow> distinct (map fst roots) \<and> map snd roots = rev [0..<length roots]"

lemma numbered_Cons: "numbered roots \<Longrightarrow> map_of roots r = None \<Longrightarrow> numbered ((r, length roots) # roots)"
  by (auto simp: numbered_def map_of_eq_None_iff)

lemma numbered_inj:
  "numbered roots \<Longrightarrow> map_of roots r = Some c \<Longrightarrow> map_of roots s = Some c \<Longrightarrow> r = s"
proof -
  assume n: "numbered roots" and r: "map_of roots r = Some c" and s: "map_of roots s = Some c"
  have "distinct (map snd roots)" using n by (simp add: numbered_def)
  moreover have "(r, c) \<in> set roots" "(s, c) \<in> set roots"
    using r s by (auto dest: map_of_SomeD)
  ultimately show "r = s"
    by (metis distinct_map inj_onD prod.inject snd_conv)
qed

lemma numbered_ran: "numbered roots \<Longrightarrow> ran (map_of roots) = {..<length roots}"
proof -
  assume n: "numbered roots"
  then have "ran (map_of roots) = snd ` set roots"
    by (auto simp: numbered_def ran_distinct)
  also have "\<dots> = set (map snd roots)" by simp
  also have "\<dots> = {..<length roots}"
    using n unfolding numbered_def by auto
  finally show ?thesis .
qed

lemma label_all_correct:
  assumes "forest p" and "\<forall>v \<in> set vs. \<exists>i < length p. index v = Some i" and "numbered roots"
  shows "\<exists>labels' roots'. label_all index vs p roots labels = Some (labels', length roots')
    \<and> numbered roots' \<and> map_of roots \<subseteq>\<^sub>m map_of roots'
    \<and> dom (map_of roots') = dom (map_of roots) \<union> {rep p i | v i. v \<in> set vs \<and> index v = Some i}
    \<and> (\<forall>v \<in> set vs. \<forall>i. index v = Some i \<longrightarrow> labels' v = map_of roots' (rep p i) \<and> labels' v \<noteq> None)
    \<and> (\<forall>v. v \<notin> set vs \<longrightarrow> labels' v = labels v)"
  using assms
proof (induction vs arbitrary: p roots labels)
  case Nil
  then show ?case by auto
next
  case (Cons v vs)
  from Cons.prems(2) obtain i where i: "i < length p" "index v = Some i" by auto
  let ?r = "rep p i"
  from find_root_correct [OF Cons.prems(1) i(1)] obtain q
    where q: "find_root p i = Some (q, ?r)" "forest q" "length q = length p"
      "\<forall>y < length p. rep q y = rep p y" by auto
  have same: "rep q j = rep p j" if "w \<in> set vs" "index w = Some j" for w j
    using Cons.prems(2) q(4) that by auto
  define roots1 where "roots1 = (case map_of roots ?r of Some _ \<Rightarrow> roots | None \<Rightarrow> (?r, length roots) # roots)"
  define c where "c = (case map_of roots ?r of Some c \<Rightarrow> c | None \<Rightarrow> length roots)"
  have unfold: "label_all index (v # vs) p roots labels = label_all index vs q roots1 (labels(v \<mapsto> c))"
    using i q(1) by (simp add: roots1_def c_def Let_def split: option.splits)
  have r1: "numbered roots1" "map_of roots1 ?r = Some c" "map_of roots \<subseteq>\<^sub>m map_of roots1"
    "dom (map_of roots1) = insert ?r (dom (map_of roots))"
    using Cons.prems(3) numbered_Cons [OF Cons.prems(3), of ?r]
    by (auto simp: roots1_def c_def map_le_def split: option.splits)
  have all: "\<forall>v \<in> set vs. \<exists>i < length q. index v = Some i"
    using Cons.prems(2) q(3) by simp
  obtain labels' roots' where l: "label_all index vs q roots1 (labels(v \<mapsto> c)) = Some (labels', length roots')"
    "numbered roots'" "map_of roots1 \<subseteq>\<^sub>m map_of roots'"
    "dom (map_of roots') = dom (map_of roots1) \<union> {rep q i | v i. v \<in> set vs \<and> index v = Some i}"
    "\<forall>v \<in> set vs. \<forall>i. index v = Some i \<longrightarrow> labels' v = map_of roots' (rep q i) \<and> labels' v \<noteq> None"
    "\<forall>w. w \<notin> set vs \<longrightarrow> labels' w = (labels(v \<mapsto> c)) w"
    using Cons.IH [OF q(2) all r1(1), of "labels(v \<mapsto> c)"] by blast
  have cr: "map_of roots' ?r = Some c"
    using l(3) r1(2) by (metis domI map_le_def)
  have "map_of roots \<subseteq>\<^sub>m map_of roots'"
    using r1(3) l(3) by (rule map_le_trans)
  moreover have "dom (map_of roots') =
      dom (map_of roots) \<union> {rep p i | w i. w \<in> set (v # vs) \<and> index w = Some i}"
  proof -
    have "{rep q i | v i. v \<in> set vs \<and> index v = Some i} = {rep p i | v i. v \<in> set vs \<and> index v = Some i}"
      by (rule Collect_cong) (metis same)
    moreover have "{rep p i | w i. w \<in> set (v # vs) \<and> index w = Some i} =
        insert ?r {rep p i | v i. v \<in> set vs \<and> index v = Some i}"
      using i(2) by auto
    ultimately show ?thesis using l(4) r1(4) by simp
  qed
  moreover have "labels' w = map_of roots' (rep p j) \<and> labels' w \<noteq> None"
    if "w \<in> set (v # vs)" "index w = Some j" for w j
  proof (cases "w \<in> set vs")
    case True
    with l(5) same that(2) show ?thesis by metis
  next
    case False
    with that i l(6) cr show ?thesis by auto
  qed
  moreover have "labels' w = labels w" if "w \<notin> set (v # vs)" for w
    using l(6) that by simp
  moreover have "label_all index (v # vs) p roots labels = Some (labels', length roots')"
    using l(1) unfold by simp
  ultimately show ?case
    using l(2) by blast
qed

section \<open>Communities are the connected components\<close>

definition adjacent_rel :: "uuid list \<Rightarrow> edge_row list \<Rightarrow> (uuid \<times> uuid) set" where
  "adjacent_rel V E =
     {(u, v). u \<in> set V \<and> v \<in> set V \<and> ((u, v) \<in> set E \<or> (v, u) \<in> set E)}"

definition connected :: "uuid list \<Rightarrow> edge_row list \<Rightarrow> uuid \<Rightarrow> uuid \<Rightarrow> bool" where
  "connected V E u v \<longleftrightarrow> (u, v) \<in> (adjacent_rel V E)\<^sup>*"

lemma connected_sym: "connected V E u v \<Longrightarrow> connected V E v u"
proof -
  have "sym (adjacent_rel V E)" by (auto simp: sym_def adjacent_rel_def)
  then show "connected V E u v \<Longrightarrow> connected V E v u"
    unfolding connected_def by (blast dest: sym_rtrancl symD)
qed

lemma connected_trans: "connected V E u v \<Longrightarrow> connected V E v w \<Longrightarrow> connected V E u w"
  unfolding connected_def by (rule rtrancl_trans)

lemma merged_classes:
  assumes V: "distinct V" and cover: "set V \<subseteq> set adj_order"
  shows "\<exists>p. unite_all (node_index V) (adjacency V E) adj_order [0..<length V] = Some p
    \<and> forest p \<and> length p = length V
    \<and> (\<forall>i < length V. \<forall>j < length V. rep p i = rep p j \<longleftrightarrow> connected V E (V ! i) (V ! j))"
proof -
  let ?n = "length V" and ?ix = "node_index V" and ?adj = "adjacency V E"
  define C where "C = {(i, j). i < ?n \<and> j < ?n \<and> connected V E (V ! i) (V ! j)}"
  have start: "uf_inv [0..<?n] ?n C {}"
    by (auto simp: uf_inv_def forest_initial rep_initial C_def connected_def)
  have C: "sym C" "trans C"
    by (auto simp: C_def intro!: symI transI dest: connected_sym intro: connected_trans)
  have step: "b < ?n \<and> (a, b) \<in> C"
    if "?ix u = Some a" "v \<in> set (or_default ?adj u)" "?ix v = Some b" for u v a b
    using that by (auto simp: node_index_Some [OF V] adjacency_neighbors C_def connected_def
        adjacent_rel_def intro!: r_into_rtrancl)
  have range: "a < ?n" if "?ix u = Some a" for u a
    using that by (simp add: node_index_Some [OF V])
  have "\<exists>p. unite_all ?ix ?adj adj_order [0..<?n] = Some p
      \<and> uf_inv p ?n C ({} \<union> processed ?ix ?adj (set adj_order))"
    by (rule unite_all_inv [OF start C]) (use step range in blast)+
  then obtain p where p: "unite_all ?ix ?adj adj_order [0..<?n] = Some p"
      "uf_inv p ?n C (processed ?ix ?adj (set adj_order))" by auto
  have edge: "rep p i = rep p j" if "i < ?n" "j < ?n" "(V ! i, V ! j) \<in> adjacent_rel V E" for i j
  proof -
    have "(i, j) \<in> processed ?ix ?adj (set adj_order)"
      using that cover by (auto simp: processed_def node_index_Some [OF V] adjacency_neighbors
          adjacent_rel_def intro!: exI [of _ "V ! i"] exI [of _ "V ! j"])
    with p(2) show ?thesis by (auto simp: uf_inv_def)
  qed
  have conn: "rep p i = rep p j" if "i < ?n" "j < ?n" "connected V E (V ! i) (V ! j)" for i j
  proof -
    have "\<forall>k < ?n. V ! k = w \<longrightarrow> rep p i = rep p k" if "(V ! i, w) \<in> (adjacent_rel V E)\<^sup>*" for w
      using that
    proof (induction rule: rtrancl_induct)
      case base
      with \<open>i < ?n\<close> V show ?case by (auto simp: nth_eq_iff_index_eq)
    next
      case (step v w)
      from step.hyps(2) obtain k where "k < ?n" "V ! k = v"
        by (auto simp: adjacent_rel_def in_set_conv_nth)
      with step edge show ?case by metis
    qed
    with that show ?thesis by (simp add: connected_def)
  qed
  have sound: "connected V E (V ! i) (V ! j)" if "i < ?n" "j < ?n" "rep p i = rep p j" for i j
    using that p(2) by (auto simp: uf_inv_def C_def)
  from p(2) have "forest p" "length p = ?n" by (simp_all add: uf_inv_def)
  with p(1) conn sound show ?thesis by blast
qed

lemma labels_range:
  assumes "dom (map_of roots) = {rep p i | v i. v \<in> S \<and> ix v = Some i}"
    and "\<forall>v \<in> S. \<forall>i. ix v = Some i \<longrightarrow> labels v = map_of roots (rep p i) \<and> labels v \<noteq> None"
    and "dom labels = S" "\<forall>v \<in> S. \<exists>i. ix v = Some i"
  shows "ran labels = ran (map_of roots)"
proof
  show "ran labels \<subseteq> ran (map_of roots)"
  proof
    fix c assume "c \<in> ran labels"
    then obtain v where v: "labels v = Some c" by (auto simp: ran_def)
    with assms(3) have "v \<in> S" by auto
    with assms(2,4) v show "c \<in> ran (map_of roots)" by (metis ranI)
  qed
  show "ran (map_of roots) \<subseteq> ran labels"
  proof
    fix c assume "c \<in> ran (map_of roots)"
    then obtain r where r: "map_of roots r = Some c" by (auto simp: ran_def)
    with assms(1) obtain v i where "v \<in> S" "ix v = Some i" "r = rep p i" by blast
    with assms(2) r show "c \<in> ran labels" by (metis ranI)
  qed
qed

text \<open>
  C12. \<open>community_labels\<close> never panics or loops, labels every node and nothing else, gives
  two nodes the same label exactly when a path of edges connects them, and the labels are
  \<open>0, \<dots>, count - 1\<close>, whatever order the hash maps are iterated in.
\<close>

theorem communities_are_components:
  assumes V: "distinct V" and cover: "set V \<subseteq> set adj_order" and ids: "set index_order = set V"
  shows "\<exists>labels count. community_labels adj_order index_order V E = Some (labels, count)
    \<and> dom labels = set V \<and> ran labels = {..<count}
    \<and> (\<forall>u \<in> set V. \<forall>v \<in> set V. labels u = labels v \<longleftrightarrow> connected V E u v)"
proof -
  from merged_classes [OF V cover] obtain p
    where p: "unite_all (node_index V) (adjacency V E) adj_order [0..<length V] = Some p"
      "forest p" "length p = length V"
      "\<forall>i < length V. \<forall>j < length V. rep p i = rep p j \<longleftrightarrow> connected V E (V ! i) (V ! j)" by blast
  have ix: "\<exists>i < length V. node_index V v = Some i \<and> V ! i = v" if "v \<in> set V" for v
    using that by (auto simp: node_index_Some [OF V] in_set_conv_nth)
  then have all: "\<forall>v \<in> set index_order. \<exists>i < length p. node_index V v = Some i"
    using p(3) ids by metis
  from label_all_correct [OF p(2) all, of "[]" Map.empty] obtain labels roots
    where l: "label_all (node_index V) index_order p [] Map.empty = Some (labels, length roots)"
      "numbered roots"
      "dom (map_of roots) = {rep p i | v i. v \<in> set V \<and> node_index V v = Some i}"
      "\<forall>v \<in> set V. \<forall>i. node_index V v = Some i \<longrightarrow> labels v = map_of roots (rep p i) \<and> labels v \<noteq> None"
      "\<forall>v. v \<notin> set V \<longrightarrow> labels v = None"
    by (auto simp: numbered_def ids)
  have "community_labels adj_order index_order V E = Some (labels, length roots)"
    using p(1) l(1) by (simp add: community_labels_def Let_def)
  moreover have dom: "dom labels = set V"
    using l(4,5) ix by (auto simp: domIff) metis
  moreover have "ran labels = ran (map_of roots)"
    by (rule labels_range [OF l(3,4)]) (use dom ix in auto)
  moreover have "labels u = labels v \<longleftrightarrow> connected V E u v" if uv: "u \<in> set V" "v \<in> set V" for u v
  proof -
    from ix uv obtain i j where ij: "i < length V" "node_index V u = Some i" "V ! i = u"
      "j < length V" "node_index V v = Some j" "V ! j = v" by metis
    have "labels u = labels v \<longleftrightarrow> rep p i = rep p j"
      using l(4) uv ij numbered_inj [OF l(2)] by (metis not_None_eq)
    with p(4) ij show ?thesis by auto
  qed
  ultimately show ?thesis
    using numbered_ran [OF l(2)] by auto
qed

theorem communities_are_components_witness:
  "\<exists>labels. community_labels [3, 2, 1] [1, 2, 3] [1, 2, 3] [(1, 3)] = Some (labels, 2)
     \<and> labels 1 = labels 3 \<and> labels 1 \<noteq> labels 2
     \<and> (labels 1 = labels 3 \<longleftrightarrow> connected [1, 2, 3] [(1, 3)] 1 3)"
proof -
  obtain labels count where
    "community_labels [3, 2, 1] [1, 2, 3] [1, 2, 3] [(1, 3)] = Some (labels, count)"
    and conn: "labels 1 = labels 3 \<longleftrightarrow> connected [1, 2, 3] [(1, 3)] 1 3"
    using communities_are_components [of "[1, 2, 3]" "[3, 2, 1]" "[1, 2, 3]" "[(1, 3)]"] by auto
  moreover have "community_labels [3, 2, 1] [1, 2, 3] [1, 2, 3] [(1, 3)] =
      Some ([1 \<mapsto> 0, 2 \<mapsto> 1, 3 \<mapsto> 0], 2)"
    by (simp add: community_labels_def adjacency_def or_default_def node_index_def unite_def
        find_root.simps link_roots_def upt_rec)
  ultimately show ?thesis by auto
qed

section \<open>PageRank keeps a probability distribution\<close>

definition mass :: "uuid set \<Rightarrow> (uuid \<rightharpoonup> f64) \<Rightarrow> f64" where
  "mass S m = (\<Sum>v \<in> S. the (m v))"

lemma mass_upd:
  assumes "finite S" "k \<in> S"
  shows "mass S (m(k \<mapsto> the (m k) + x)) = mass S m + x"
proof -
  have "(\<Sum>v \<in> S - {k}. the ((m(k \<mapsto> the (m k) + x)) v)) = (\<Sum>v \<in> S - {k}. the (m v))"
    by (rule sum.cong) auto
  with assms show ?thesis
    unfolding mass_def by (simp add: sum.remove [of S k])
qed

text \<open>One pass of \<open>next[t] += share\<close> adds \<open>share\<close> once per target and lowers nothing.\<close>

lemma spread_correct:
  assumes "finite S" "dom next = S" "set ts \<subseteq> S" "0 \<le> share"
  shows "\<exists>next'. spread ts share next = Some next' \<and> dom next' = S
    \<and> mass S next' = mass S next + real (length ts) * share
    \<and> (\<forall>v \<in> S. the (next v) \<le> the (next' v))"
  using assms(2,3)
proof (induction ts arbitrary: "next")
  case (Cons t ts)
  let ?m = "next(t \<mapsto> the (next t) + share)"
  from Cons.prems obtain x where x: "next t = Some x" by auto
  then have step: "add_at next t share = Some ?m" by (simp add: add_at_def)
  have dom: "dom ?m = S" "set ts \<subseteq> S" "t \<in> S" using Cons.prems by auto
  obtain next' where n: "spread ts share ?m = Some next'" "dom next' = S"
      "mass S next' = mass S ?m + real (length ts) * share" "\<forall>v \<in> S. the (?m v) \<le> the (next' v)"
    using Cons.IH [OF dom(1,2)] by blast
  have "the (next v) \<le> the (next' v)" if "v \<in> S" for v
    using n(4) that assms(4) by (cases "v = t") force+
  moreover have "mass S next' = mass S next + real (length (t # ts)) * share"
    using n(3) mass_upd [OF assms(1) dom(3), of "next" share] by (simp add: algebra_simps)
  ultimately show ?case using step n(1,2) by simp
qed simp

lemma damping_range: "0 < damping" "damping < 1"
  by (simp_all add: damping_def)

definition stochastic :: "uuid set \<Rightarrow> (uuid \<rightharpoonup> f64) \<Rightarrow> bool" where
  "stochastic S rank \<longleftrightarrow> dom rank = S \<and> mass S rank = 1
     \<and> (\<forall>v \<in> S. (1 - damping) / real (card S) \<le> the (rank v))"

lemma rank_pass_correct:
  assumes S: "set node_ids = S" "node_ids \<noteq> []"
    and adj: "\<And>v. v \<in> S \<Longrightarrow> \<exists>ns. adj v = Some ns \<and> set ns \<subseteq> S"
    and rank: "dom rank = S" "\<And>v. v \<in> S \<Longrightarrow> 0 \<le> the (rank v)"
    and vs: "set vs \<subseteq> S" and nxt: "dom next = S"
  shows "\<exists>next'. rank_pass node_ids adj rank vs next = Some next' \<and> dom next' = S
    \<and> mass S next' = mass S next + damping * (\<Sum>v \<leftarrow> vs. the (rank v))
    \<and> (\<forall>v \<in> S. the (next v) \<le> the (next' v))"
  using vs nxt
proof (induction vs arbitrary: "next")
  case (Cons v vs)
  have fin: "finite S" using S by auto
  from Cons.prems have v: "v \<in> S" "set vs \<subseteq> S" by simp_all
  from adj [OF v(1)] obtain ns where ns: "adj v = Some ns" "set ns \<subseteq> S" by auto
  from v rank obtain x where x: "rank v = Some x" "0 \<le> x"
    by (metis domD option.sel)
  define ts where "ts = (if ns = [] then node_ids else ns)"
  define share where "share = damping * x / real (length ts)"
  have ts: "set ts \<subseteq> S" "0 < length ts" "0 \<le> share"
    using S ns x damping_range by (auto simp: ts_def share_def)
  from spread_correct [OF fin Cons.prems(2) ts(1,3)] obtain m
    where m: "spread ts share next = Some m" "dom m = S"
      "mass S m = mass S next + damping * x" "\<forall>v \<in> S. the (next v) \<le> the (m v)"
    using ts(2) by (auto simp: share_def)
  from Cons.IH [OF v(2) m(2)] obtain next' where n: "rank_pass node_ids adj rank vs m = Some next'"
      "dom next' = S" "mass S next' = mass S m + damping * (\<Sum>v \<leftarrow> vs. the (rank v))"
      "\<forall>v \<in> S. the (m v) \<le> the (next' v)" by auto
  have "rank_pass node_ids adj rank (v # vs) next = Some next'"
    using ns x m(1) n(1) by (auto simp: ts_def share_def)
  moreover have "mass S next' = mass S next + damping * (\<Sum>v \<leftarrow> v # vs. the (rank v))"
    using n(3) m(3) x by (simp add: algebra_simps)
  ultimately show ?case
    using n(2,4) m(4) order_trans by blast
qed simp

lemma mass_uniform: "set node_ids = S \<Longrightarrow> mass S (uniform node_ids x) = real (card S) * x"
  by (simp add: mass_def uniform_def)

lemma power_iteration_correct:
  assumes V: "distinct V" "V \<noteq> []"
    and adj: "\<And>v. v \<in> set V \<Longrightarrow> \<exists>ns. adj v = Some ns \<and> set ns \<subseteq> set V"
  shows "stochastic (set V) rank \<Longrightarrow>
    \<exists>rank'. power_iteration k V adj rank = Some rank' \<and> stochastic (set V) rank'"
proof (induction k arbitrary: rank)
  case (Suc k)
  let ?S = "set V"
  let ?base = "uniform V ((1 - damping) / real (length V))"
  have card: "length V = card ?S" "0 < card ?S"
    using V by (simp_all add: distinct_card card_gt_0_iff)
  have rank: "dom rank = ?S" "mass ?S rank = 1"
    using Suc.prems by (simp_all add: stochastic_def)
  have pos: "0 \<le> the (rank v)" if "v \<in> ?S" for v
  proof -
    have "0 \<le> (1 - damping) / real (card ?S)" using damping_range by simp
    also have "\<dots> \<le> the (rank v)" using Suc.prems that by (simp add: stochastic_def)
    finally show ?thesis .
  qed
  have dom: "dom ?base = ?S" by (auto simp: uniform_def dom_def)
  have "\<exists>r. rank_pass V adj rank V ?base = Some r \<and> dom r = ?S
      \<and> mass ?S r = mass ?S ?base + damping * (\<Sum>v \<leftarrow> V. the (rank v))
      \<and> (\<forall>v \<in> ?S. the (?base v) \<le> the (r v))"
    by (rule rank_pass_correct [OF refl V(2)]) (use adj rank(1) pos dom in auto)
  then obtain r where r: "rank_pass V adj rank V ?base = Some r" "dom r = ?S"
      "mass ?S r = mass ?S ?base + damping * (\<Sum>v \<leftarrow> V. the (rank v))"
      "\<forall>v \<in> ?S. the (?base v) \<le> the (r v)" by auto
  have "(\<Sum>v \<leftarrow> V. the (rank v)) = mass ?S rank"
    using V by (simp add: mass_def sum_list_distinct_conv_sum_set)
  with r(3) rank card V(2) have "mass ?S r = 1"
    by (simp add: mass_uniform)
  with r(2,4) card have "stochastic ?S r"
    by (simp add: stochastic_def uniform_def)
  with Suc.IH r(1) show ?case by simp
qed simp

lemma uniform_stochastic:
  assumes "distinct V" "V \<noteq> []"
  shows "stochastic (set V) (uniform V (1 / real (length V)))"
proof -
  have card: "length V = card (set V)" "0 < card (set V)"
    using assms by (simp_all add: distinct_card card_gt_0_iff)
  have "mass (set V) (uniform V (1 / real (length V))) = 1"
    using card assms(2) by (simp add: mass_uniform)
  with card damping_range show ?thesis
    by (auto simp: stochastic_def uniform_def dom_def divide_right_mono)
qed

lemma scored_rows_total:
  assumes "distinct order" "set order = S" "stochastic S rank"
  shows "mset (map fst (sort_key k (scored_rows order rank labels))) = mset order"
    and "(\<Sum>(v, l, score) \<leftarrow> sort_key k (scored_rows order rank labels). score) = 1"
proof -
  let ?raw = "scored_rows order rank labels"
  have "map fst ?raw = order" by (simp add: scored_rows_def o_def)
  moreover have "mset (map fst (sort_key k ?raw)) = mset (map fst ?raw)" by simp
  ultimately show "mset (map fst (sort_key k ?raw)) = mset order" by simp
  have score: "(case rank v of None \<Rightarrow> 0 | Some x \<Rightarrow> x) = the (rank v)" if "v \<in> set order" for v
    using assms that by (auto simp: stochastic_def split: option.splits)
  have "(\<Sum>(v, l, score) \<leftarrow> sort_key k ?raw. score) = (\<Sum>(v, l, score) \<leftarrow> ?raw. score)"
    by (metis mset_map mset_sort sum_mset_sum_list)
  also have "\<dots> = (\<Sum>v \<leftarrow> order. the (rank v))"
    unfolding scored_rows_def using score by (simp add: o_def cong: map_cong)
  also have "\<dots> = mass S rank"
    using assms(1,2) by (simp add: mass_def sum_list_distinct_conv_sum_set)
  finally show "(\<Sum>(v, l, score) \<leftarrow> sort_key k ?raw. score) = 1" using assms(3) by (simp add: stochastic_def)
qed

text \<open>
  C13. PageRank never panics on a graph whose edges join existing nodes: it returns one row
  per node, the scores add up to 1, every node keeps at least its teleport share, and the
  rows come highest score first.
\<close>

theorem pagerank_distribution:
  assumes V: "distinct V" "V \<noteq> []" and E: "\<forall>(s, d) \<in> set E. s \<in> set V \<and> d \<in> set V"
    and ord: "distinct rank_order" "set rank_order = set V"
  shows "\<exists>rows. pagerank rank_order V E labels = Some rows
    \<and> mset (map fst rows) = mset V
    \<and> (\<Sum>(v, l, score) \<leftarrow> rows. score) = 1
    \<and> (\<forall>(v, l, score) \<in> set rows. (1 - damping) / real (length V) \<le> score)
    \<and> sorted_wrt (\<lambda>(_, _, a) (_, _, b). b \<le> a) rows"
proof -
  let ?S = "set V"
  have card: "length V = card ?S" "0 < card ?S"
    using V by (simp_all add: distinct_card card_gt_0_iff)
  have adj: "\<exists>ns. adjacency V E v = Some ns \<and> set ns \<subseteq> ?S" if "v \<in> ?S" for v
  proof -
    from adjacency_node [OF that] obtain ns where ns: "adjacency V E v = Some ns" by blast
    with adjacency_neighbors [of V E v] have "set ns = {w. (v, w) \<in> set E \<or> (w, v) \<in> set E}"
      by (simp add: or_default_def)
    with E ns show ?thesis by auto
  qed
  have "stochastic ?S (uniform V (1 / real (length V)))" by (rule uniform_stochastic [OF V])
  then have "\<exists>rank. power_iteration 30 V (adjacency V E) (uniform V (1 / real (length V))) = Some rank
      \<and> stochastic ?S rank"
    by (intro power_iteration_correct [OF V]) (use adj in auto)
  then obtain rank
    where rank: "power_iteration 30 V (adjacency V E) (uniform V (1 / real (length V))) = Some rank"
      "stochastic ?S rank" by auto
  let ?raw = "scored_rows rank_order rank labels"
  let ?rows = "sort_key (\<lambda>(_, _, score). - score) ?raw"
  have "pagerank rank_order V E labels = Some ?rows"
    using rank V by (simp add: pagerank_def Let_def)
  moreover have "mset (map fst ?rows) = mset V" "(\<Sum>(v, l, score) \<leftarrow> ?rows. score) = 1"
    using scored_rows_total [OF ord rank(2)] V ord by (simp_all add: set_eq_iff_mset_eq_distinct)
  moreover have "\<forall>(v, l, score) \<in> set ?rows. (1 - damping) / real (length V) \<le> score"
    using rank(2) ord card by (auto simp: scored_rows_def stochastic_def split: option.splits)
  moreover have "sorted_wrt (\<lambda>(_, _, a) (_, _, b). b \<le> a) ?rows"
    using sorted_sort_key [of "\<lambda>(_, _, score). - score" ?raw]
    by (auto simp: sorted_map elim!: sorted_wrt_mono_rel [rotated])
  ultimately show ?thesis by blast
qed

theorem pagerank_distribution_witness:
  "\<exists>rows. pagerank [2, 1] [1, 2] [(1, 2)] (\<lambda>_. None) = Some rows
    \<and> (\<Sum>(v, l, score) \<leftarrow> rows. score) = 1"
  using pagerank_distribution [of "[1, 2]" "[(1, 2)]" "[2, 1]" "\<lambda>_. None"] by auto

end
