(* ===== verification/Settings.thy ===== *)
theory Settings
  imports Json
begin

text \<open>
  \<open>insight-core/src/settings.rs\<close>: environment helpers, the defaults of the three scopes,
  clamping, the shallow overlay \<open>merge_and_clamp\<close>, the deep \<open>apply_patch\<close>, the typed
  readers, \<open>whitelist_patch\<close>, and the store with its ten-second cache. The process
  environment is a function from variable names; parsing a float is the parameter
  \<open>parse_f64\<close> of the environment record (the standard library's decimal reader).
  Lemmas: what a reader sees is in range, how a patch acts on every key, and the cache
  never holds a value that differs from what the tables resolve to.
\<close>

section \<open>Environment helpers\<close>

record environment =
  var :: "string \<Rightarrow> string option"
  parse_f64 :: "string \<Rightarrow> f64 option"

definition env_str :: "environment \<Rightarrow> string \<Rightarrow> string \<Rightarrow> string" where
  "env_str env key def = (case var env key of None \<Rightarrow> def | Some v \<Rightarrow> v)"

definition env_f64 :: "environment \<Rightarrow> string \<Rightarrow> f64 \<Rightarrow> f64" where
  "env_f64 env key def =
     (case Option.bind (var env key) (parse_f64 env) of None \<Rightarrow> def | Some x \<Rightarrow> x)"

definition env_i64 :: "environment \<Rightarrow> string \<Rightarrow> int \<Rightarrow> int" where
  "env_i64 env key def =
     (case Option.bind (var env key) parse_i64 of None \<Rightarrow> def | Some n \<Rightarrow> n)"

definition env_bool :: "environment \<Rightarrow> string \<Rightarrow> bool \<Rightarrow> bool" where
  "env_bool env key def =
     (case var env key of
        Some v \<Rightarrow> ascii_lowercase (trim v) \<in> {''1'', ''true'', ''yes'', ''on''}
      | None \<Rightarrow> def)"

section \<open>Scopes and defaults\<close>

datatype scope = System | Org | User

definition org_governance_defaults :: "environment \<Rightarrow> json_object" where
  "org_governance_defaults env =
    [(''strictCitationDefault'', JBool (env_bool env ''STRICT_CITATION_DEFAULT'' True)),
     (''autoSsotTopics'', JBool (env_bool env ''AUTO_SSOT_TOPICS'' True)),
     (''requireReview'', JBool (env_bool env ''REQUIRE_REVIEW'' True)),
     (''autoMergeConfidence'', JFloat (env_f64 env ''AUTO_MERGE_CONFIDENCE'' 0)),
     (''dedupCosine'', JFloat (env_f64 env ''DEDUP_COSINE'' 0.9)),
     (''dedupUseNli'', JBool (env_bool env ''DEDUP_NLI'' True)),
     (''conflictSubjectCosine'', JFloat (env_f64 env ''CONFLICT_SUBJECT_COSINE'' 0.55)),
     (''conflictEnabled'', JBool (env_bool env ''CONFLICT_DETECT'' True)),
     (''maxCorrelateClaims'', JInt (env_i64 env ''CORRELATE_MAX_CLAIMS'' 120)),
     (''parseMode'', JStr (env_str env ''PARSE_MODE'' ''heuristic'')),
     (''parseAiMaxPages'', JInt (env_i64 env ''PARSE_AI_MAX_PAGES'' 20)),
     (''claimsMaxChunks'', JInt (env_i64 env ''CLAIMS_MAX_CHUNKS'' 60)),
     (''contextualMaxChunks'', JInt (env_i64 env ''CONTEXTUAL_MAX_CHUNKS'' 150)),
     (''ontologyLinkMaxDistance'', JFloat (env_f64 env ''ONTOLOGY_LINK_MAX_DISTANCE'' 0.4)),
     (''rerank'', JStr (env_str env ''RERANK'' ''off'')),
     (''searchRrfK'', JInt (env_i64 env ''SEARCH_RRF_K'' 60)),
     (''searchCandidates'', JInt (env_i64 env ''SEARCH_CANDIDATES'' 30)),
     (''searchTopK'', JInt (env_i64 env ''SEARCH_TOP_K'' 20)),
     (''searchSnippetLength'', JInt (env_i64 env ''SEARCH_SNIPPET_LENGTH'' 240)),
     (''copilotPromptOverrides'', JObj []),
     (''sourcePriorityOrder'', JArr []),
     (''budgetMonthlyLimitUsd'', JFloat (env_f64 env ''BUDGET_MONTHLY_LIMIT_USD'' 0)),
     (''budgetSoftThresholdPct'', JInt (env_i64 env ''BUDGET_SOFT_THRESHOLD_PCT'' 80))]"

definition org_ai_defaults :: "environment \<Rightarrow> json" where
  "org_ai_defaults env =
    (let routed = (\<lambda>key. JStr (env_str env key (env_str env ''LLM_PROVIDER'' ''gemini''))) in
     JObj
      [(''taskRouting'', JObj
         [(''chat'', routed ''LLM_CHAT_PROVIDER''),
          (''extraction'', routed ''LLM_EXTRACTION_PROVIDER''),
          (''synthesis'', routed ''LLM_SYNTHESIS_PROVIDER''),
          (''nli'', routed ''LLM_NLI_PROVIDER''),
          (''rerank'', routed ''LLM_RERANK_PROVIDER''),
          (''embedding'', JStr (env_str env ''LLM_EMBEDDING_PROVIDER'' ''gemini''))]),
       (''fallbackOrder'', JArr (map JStr (filter (\<lambda>s. s \<noteq> [])
          (map trim (split_on CHR '','' (env_str env ''CHAT_FALLBACK_ORDER'' ''gemini,anthropic,openai'')))))),
       (''models'', JObj
         [(''gemini'', JStr (env_str env ''GEMINI_MODEL'' ''gemini-2.5-flash'')),
          (''anthropic'', JStr (env_str env ''ANTHROPIC_MODEL'' ''claude-sonnet-5'')),
          (''openai'', JStr (env_str env ''OPENAI_MODEL'' ''gpt-4o'')),
          (''moonshot'', JStr (env_str env ''MOONSHOT_MODEL'' ''kimi-k2-0711-preview'')),
          (''deepseek'', JStr (env_str env ''DEEPSEEK_MODEL'' ''deepseek-chat'')),
          (''minimax'', JStr (env_str env ''MINIMAX_MODEL'' ''MiniMax-Text-01'')),
          (''openai_compatible'', JStr (env_str env ''OPENAI_COMPAT_MODEL'' ''''))]),
       (''baseUrls'', JObj [(''openaiCompatible'', JStr (env_str env ''OPENAI_COMPAT_BASE_URL'' ''''))]),
       (''rerankModels'', JObj
         [(''cohere'', JStr (env_str env ''COHERE_RERANK_MODEL'' ''rerank-english-v3.0'')),
          (''jina'', JStr (env_str env ''JINA_RERANK_MODEL'' ''jina-reranker-v2-base-multilingual''))]),
       (''parseVendor'', JStr (env_str env ''PARSE_VENDOR'' ''''))])"

definition org_study_defaults :: "environment \<Rightarrow> json" where
  "org_study_defaults env = JObj
    [(''scheduler'', JStr (env_str env ''STUDY_SCHEDULER'' ''sm2'')),
     (''sm2'', JObj
       [(''initialEase'', JFloat (env_f64 env ''SM2_INITIAL_EASE'' 2.5)),
        (''minEase'', JFloat (env_f64 env ''SM2_MIN_EASE'' 1.3)),
        (''firstIntervalDays'', JInt (env_i64 env ''SM2_FIRST_INTERVAL_DAYS'' 1)),
        (''secondIntervalDays'', JInt (env_i64 env ''SM2_SECOND_INTERVAL_DAYS'' 6))]),
     (''fsrs'', JObj
       [(''requestRetention'', JFloat (env_f64 env ''FSRS_REQUEST_RETENTION'' 0.9)),
        (''maximumInterval'', JInt (env_i64 env ''FSRS_MAX_INTERVAL'' 365))])]"

definition org_defaults :: "environment \<Rightarrow> json" where
  "org_defaults env = JObj (org_governance_defaults env @
     [(''ai'', org_ai_defaults env), (''study'', org_study_defaults env)])"

definition system_defaults :: "environment \<Rightarrow> json" where
  "system_defaults env = JObj
    [(''queue'', JObj
       [(''concurrency'', JInt (env_i64 env ''QUEUE_CONCURRENCY'' 2)),
        (''maxAttempts'', JInt (env_i64 env ''QUEUE_MAX_ATTEMPTS'' 3)),
        (''claimIdleMs'', JInt (env_i64 env ''QUEUE_CLAIM_IDLE_MS'' 300000)),
        (''perKindConcurrency'', JObj [])]),
     (''rateLimit'', JObj
       [(''max'', JInt (env_i64 env ''RATE_LIMIT_MAX'' 300)),
        (''windowSecs'', JInt (env_i64 env ''RATE_LIMIT_WINDOW_SECS'' 60)),
        (''authMax'', JInt (env_i64 env ''AUTH_RATE_LIMIT_MAX'' 10))]),
     (''auth'', JObj
       [(''accessTtlSecs'', JInt (env_i64 env ''JWT_ACCESS_TTL_SECS'' 900)),
        (''refreshTtlSecs'', JInt (env_i64 env ''JWT_REFRESH_TTL_SECS'' 1209600))]),
     (''pipeline'', JObj
       [(''parseMaxPages'', JInt (env_i64 env ''PARSE_MAX_PAGES'' 40)),
        (''parseMaxFileMb'', JInt (env_i64 env ''PARSE_MAX_FILE_MB'' 100)),
        (''lowConfThreshold'', JFloat (env_f64 env ''LOW_CONF_THRESHOLD'' 0.4)),
        (''linkSimThreshold'', JFloat (env_f64 env ''LINK_SIM_THRESHOLD'' 0.72))]),
     (''pricing'', JObj [(''models'', JArr []), (''providerFallback'', JObj [])])]"

definition user_defaults :: json where
  "user_defaults = JObj
    [(''theme'', JStr ''system''),
     (''locale'', JStr ''en''),
     (''defaultCopilotMode'', JStr ''ask''),
     (''notifications'', JObj
       [(''emailEnabled'', JBool False),
        (''types'', JObj
          [(''processing'', JBool True), (''review'', JBool True),
           (''billing'', JBool True), (''system'', JBool True)])])]"

fun defaults_for :: "environment \<Rightarrow> scope \<Rightarrow> json" where
  "defaults_for env System = system_defaults env"
| "defaults_for env Org = org_defaults env"
| "defaults_for env User = user_defaults"

section \<open>Clamping\<close>

definition clamp_f64 :: "string \<Rightarrow> f64 \<Rightarrow> f64 \<Rightarrow> json \<Rightarrow> json" where
  "clamp_f64 key lo hi v =
     (case Option.bind (get_key v key) as_f64 of
        Some n \<Rightarrow> set_key v key (JFloat (clamp n lo hi))
      | None \<Rightarrow> v)"

definition clamp_i64 :: "string \<Rightarrow> int \<Rightarrow> int \<Rightarrow> json \<Rightarrow> json" where
  "clamp_i64 key lo hi v =
     (case Option.bind (get_key v key) as_i64 of
        Some n \<Rightarrow> set_key v key (JInt (clamp n lo hi))
      | None \<Rightarrow> v)"

definition nested_clamp_i64 :: "string \<Rightarrow> string \<Rightarrow> int \<Rightarrow> int \<Rightarrow> json \<Rightarrow> json" where
  "nested_clamp_i64 parent key lo hi v =
     (case Option.bind (get_key v parent) (\<lambda>p. Option.bind (get_key p key) as_i64) of
        Some n \<Rightarrow> set_key v parent (set_key (index_key v parent) key (JInt (clamp n lo hi)))
      | None \<Rightarrow> v)"

definition clamp_org :: "json \<Rightarrow> json" where
  "clamp_org v =
     (let v = clamp_f64 ''autoMergeConfidence'' 0 100 v;
          v = clamp_f64 ''dedupCosine'' 0 1 v;
          v = clamp_f64 ''conflictSubjectCosine'' 0 1 v;
          v = clamp_i64 ''maxCorrelateClaims'' 1 5000 v;
          v = clamp_i64 ''parseAiMaxPages'' 1 500 v;
          v = clamp_i64 ''claimsMaxChunks'' 1 2000 v;
          v = clamp_i64 ''contextualMaxChunks'' 0 5000 v;
          v = clamp_f64 ''ontologyLinkMaxDistance'' 0 1 v;
          v = clamp_i64 ''searchRrfK'' 1 1000 v;
          v = clamp_i64 ''searchCandidates'' 1 500 v;
          v = clamp_i64 ''searchTopK'' 1 200 v;
          v = clamp_i64 ''searchSnippetLength'' 40 2000 v;
          v = clamp_f64 ''budgetMonthlyLimitUsd'' 0 1000000 v
      in clamp_i64 ''budgetSoftThresholdPct'' 0 100 v)"

definition clamp_system :: "json \<Rightarrow> json" where
  "clamp_system v =
     (let v = nested_clamp_i64 ''queue'' ''concurrency'' 1 64 v;
          v = nested_clamp_i64 ''queue'' ''maxAttempts'' 1 20 v;
          v = nested_clamp_i64 ''queue'' ''claimIdleMs'' 10000 3600000 v;
          v = nested_clamp_i64 ''rateLimit'' ''max'' 1 100000 v;
          v = nested_clamp_i64 ''rateLimit'' ''windowSecs'' 1 3600 v;
          v = nested_clamp_i64 ''rateLimit'' ''authMax'' 1 10000 v;
          v = nested_clamp_i64 ''auth'' ''accessTtlSecs'' 60 86400 v;
          v = nested_clamp_i64 ''auth'' ''refreshTtlSecs'' 3600 31536000 v;
          v = nested_clamp_i64 ''pipeline'' ''parseMaxPages'' 1 10000 v
      in nested_clamp_i64 ''pipeline'' ''parseMaxFileMb'' 1 5000 v)"

fun clamp_for :: "scope \<Rightarrow> json \<Rightarrow> json" where
  "clamp_for System v = clamp_system v"
| "clamp_for Org v = clamp_org v"
| "clamp_for User v = v"

fun overlay :: "json_object \<Rightarrow> json_object \<Rightarrow> json_object" where
  "overlay base [] = base"
| "overlay base ((k, v) # ov) = overlay (AList.update k v base) ov"

definition merge_and_clamp :: "scope \<Rightarrow> json \<Rightarrow> json \<Rightarrow> json" where
  "merge_and_clamp sc base overrides =
     clamp_for sc
       (case (as_object base, as_object overrides) of
          (Some b, Some ov) \<Rightarrow> JObj (overlay b ov)
        | _ \<Rightarrow> base)"

section \<open>Patches and readers\<close>

fun apply_patch :: "json \<Rightarrow> json \<Rightarrow> json"
  and patch_entries :: "json_object \<Rightarrow> json_object \<Rightarrow> json_object" where
  "apply_patch target patch =
     (case (target, patch) of
        (JObj t, JObj p) \<Rightarrow> JObj (patch_entries t p)
      | _ \<Rightarrow> patch)"
| "patch_entries t [] = t"
| "patch_entries t ((k, v) # p) =
     patch_entries
       (if v = JNull then AList.delete k t
        else if is_object v \<and> (case map_of t k of Some x \<Rightarrow> is_object x | None \<Rightarrow> False)
        then AList.update k (apply_patch (the (map_of t k)) v) t
        else AList.update k v t) p"

definition org_f64 :: "json \<Rightarrow> string \<Rightarrow> f64 \<Rightarrow> f64" where
  "org_f64 resolved key def = (case Option.bind (get_key resolved key) as_f64 of None \<Rightarrow> def | Some x \<Rightarrow> x)"

definition org_i64 :: "json \<Rightarrow> string \<Rightarrow> int \<Rightarrow> int" where
  "org_i64 resolved key def = (case Option.bind (get_key resolved key) as_i64 of None \<Rightarrow> def | Some n \<Rightarrow> n)"

definition org_bool :: "json \<Rightarrow> string \<Rightarrow> bool \<Rightarrow> bool" where
  "org_bool resolved key def = (case Option.bind (get_key resolved key) as_bool of None \<Rightarrow> def | Some b \<Rightarrow> b)"

definition sys_nested_i64 :: "json \<Rightarrow> string \<Rightarrow> string \<Rightarrow> int \<Rightarrow> int" where
  "sys_nested_i64 resolved parent key def =
     (case Option.bind (get_key resolved parent) (\<lambda>p. Option.bind (get_key p key) as_i64) of
        None \<Rightarrow> def | Some n \<Rightarrow> n)"

definition whitelist_patch :: "environment \<Rightarrow> scope \<Rightarrow> json \<Rightarrow> json" where
  "whitelist_patch env sc patch =
     (case (as_object (defaults_for env sc), as_object patch) of
        (Some allowed, Some p) \<Rightarrow> JObj (filter (\<lambda>(k, v). map_of allowed k \<noteq> None) p)
      | _ \<Rightarrow> JObj [])"


section \<open>What a reader sees after clamping\<close>

definition read_i64 :: "json \<Rightarrow> string \<Rightarrow> int option" where
  "read_i64 v key = Option.bind (get_key v key) as_i64"

definition read_f64 :: "json \<Rightarrow> string \<Rightarrow> f64 option" where
  "read_f64 v key = Option.bind (get_key v key) as_f64"

definition read_nested_i64 :: "json \<Rightarrow> string \<Rightarrow> string \<Rightarrow> int option" where
  "read_nested_i64 v parent key =
     Option.bind (get_key v parent) (\<lambda>p. Option.bind (get_key p key) as_i64)"

lemma get_key_clamp_i64:
  "k' \<noteq> k \<Longrightarrow> get_key (clamp_i64 k lo hi v) k' = get_key v k'"
  by (auto simp: clamp_i64_def get_key_set_key get_key_object Option.bind_eq_Some_conv
      split: option.splits)

lemma get_key_clamp_f64:
  "k' \<noteq> k \<Longrightarrow> get_key (clamp_f64 k lo hi v) k' = get_key v k'"
  by (auto simp: clamp_f64_def get_key_set_key get_key_object Option.bind_eq_Some_conv
      split: option.splits)

lemma get_key_nested_clamp:
  "k' \<noteq> p \<Longrightarrow> get_key (nested_clamp_i64 p k lo hi v) k' = get_key v k'"
  by (auto simp: nested_clamp_i64_def get_key_set_key get_key_object Option.bind_eq_Some_conv
      split: option.splits)

lemma as_i64_JInt_clamp:
  "- (2 ^ 63) \<le> lo \<Longrightarrow> hi < 2 ^ 63 \<Longrightarrow> lo \<le> hi \<Longrightarrow> as_i64 (JInt (clamp n lo hi)) = Some (clamp n lo hi)"
  using clamp_bounds [of lo hi n] by auto

lemma read_clamp_i64:
  assumes "- (2 ^ 63) \<le> lo" "hi < 2 ^ 63" "lo \<le> hi"
  shows "read_i64 (clamp_i64 k lo hi v) k = map_option (\<lambda>n. clamp n lo hi) (read_i64 v k)"
proof (cases "read_i64 v k")
  case (Some n)
  then have "is_object v"
    by (auto simp: read_i64_def Option.bind_eq_Some_conv get_key_object)
  with Some assms show ?thesis
    by (simp add: read_i64_def clamp_i64_def get_key_set_key as_i64_JInt_clamp del: as_i64.simps)
qed (simp add: read_i64_def clamp_i64_def)

lemma read_clamp_f64:
  "read_f64 (clamp_f64 k lo hi v) k = map_option (\<lambda>n. clamp n lo hi) (read_f64 v k)"
proof (cases "read_f64 v k")
  case (Some n)
  then have "is_object v"
    by (auto simp: read_f64_def Option.bind_eq_Some_conv get_key_object)
  with Some show ?thesis
    by (simp add: read_f64_def clamp_f64_def get_key_set_key)
qed (simp add: read_f64_def clamp_f64_def)

lemma read_nested_clamp:
  assumes "- (2 ^ 63) \<le> lo" "hi < 2 ^ 63" "lo \<le> hi"
  shows "read_nested_i64 (nested_clamp_i64 p k lo hi v) p k =
    map_option (\<lambda>n. clamp n lo hi) (read_nested_i64 v p k)"
proof (cases "read_nested_i64 v p k")
  case (Some n)
  then obtain q where q: "get_key v p = Some q" "Option.bind (get_key q k) as_i64 = Some n"
    by (auto simp: read_nested_i64_def Option.bind_eq_Some_conv)
  then have "is_object v" "is_object q"
    by (auto simp: Option.bind_eq_Some_conv get_key_object)
  with q Some assms show ?thesis
    by (simp add: read_nested_i64_def nested_clamp_i64_def get_key_set_key as_i64_JInt_clamp
        index_key_def del: as_i64.simps)
qed (simp add: read_nested_i64_def nested_clamp_i64_def)

lemma read_nested_clamp_other:
  "(p', k') \<noteq> (p, k) \<Longrightarrow>
    read_nested_i64 (nested_clamp_i64 p k lo hi v) p' k' = read_nested_i64 v p' k'"
proof (cases "p' = p")
  case True
  assume "(p', k') \<noteq> (p, k)"
  with True have k: "k' \<noteq> k" by simp
  show ?thesis
  proof (cases "read_nested_i64 v p k")
    case (Some n)
    then obtain q where q: "get_key v p = Some q" "Option.bind (get_key q k) as_i64 = Some n"
      by (auto simp: read_nested_i64_def Option.bind_eq_Some_conv)
    then have "is_object v" "is_object q"
      by (auto simp: Option.bind_eq_Some_conv get_key_object)
    with q Some True k show ?thesis
      by (simp add: read_nested_i64_def nested_clamp_i64_def get_key_set_key index_key_def)
  qed (simp add: read_nested_i64_def nested_clamp_i64_def)
qed (simp add: read_nested_i64_def get_key_nested_clamp)

lemma read_i64_clamp_other:
  "k' \<noteq> k \<Longrightarrow> read_i64 (clamp_i64 k lo hi v) k' = read_i64 v k'"
  "k' \<noteq> k \<Longrightarrow> read_i64 (clamp_f64 k x y v) k' = read_i64 v k'"
  by (simp_all add: read_i64_def get_key_clamp_i64 get_key_clamp_f64)

lemma read_f64_clamp_other:
  "k' \<noteq> k \<Longrightarrow> read_f64 (clamp_f64 k lo hi v) k' = read_f64 v k'"
  "k' \<noteq> k \<Longrightarrow> read_f64 (clamp_i64 k m n v) k' = read_f64 v k'"
  by (simp_all add: read_f64_def get_key_clamp_i64 get_key_clamp_f64)

text \<open>The documented ranges, as tables.\<close>

definition org_i64_ranges :: "(string \<times> int \<times> int) list" where
  "org_i64_ranges =
    [(''maxCorrelateClaims'', 1, 5000), (''parseAiMaxPages'', 1, 500), (''claimsMaxChunks'', 1, 2000),
     (''contextualMaxChunks'', 0, 5000), (''searchRrfK'', 1, 1000), (''searchCandidates'', 1, 500),
     (''searchTopK'', 1, 200), (''searchSnippetLength'', 40, 2000),
     (''budgetSoftThresholdPct'', 0, 100)]"

definition org_f64_ranges :: "(string \<times> f64 \<times> f64) list" where
  "org_f64_ranges =
    [(''autoMergeConfidence'', 0, 100), (''dedupCosine'', 0, 1), (''conflictSubjectCosine'', 0, 1),
     (''ontologyLinkMaxDistance'', 0, 1), (''budgetMonthlyLimitUsd'', 0, 1000000)]"

definition system_ranges :: "((string \<times> string) \<times> int \<times> int) list" where
  "system_ranges =
    [((''queue'', ''concurrency''), 1, 64), ((''queue'', ''maxAttempts''), 1, 20),
     ((''queue'', ''claimIdleMs''), 10000, 3600000), ((''rateLimit'', ''max''), 1, 100000),
     ((''rateLimit'', ''windowSecs''), 1, 3600), ((''rateLimit'', ''authMax''), 1, 10000),
     ((''auth'', ''accessTtlSecs''), 60, 86400), ((''auth'', ''refreshTtlSecs''), 3600, 31536000),
     ((''pipeline'', ''parseMaxPages''), 1, 10000), ((''pipeline'', ''parseMaxFileMb''), 1, 5000)]"

lemma clamp_org_i64:
  assumes "(key, lo, hi) \<in> set org_i64_ranges"
  shows "read_i64 (clamp_org v) key = map_option (\<lambda>n. clamp n lo hi) (read_i64 v key)"
proof -
  have "(key, lo, hi) = x \<Longrightarrow> x \<in> set org_i64_ranges \<Longrightarrow> ?thesis" for x
    unfolding org_i64_ranges_def clamp_org_def Let_def
    apply (simp only: list.set insert_iff empty_iff simp_thms)
    apply (elim disjE)
    by (simp_all add: read_clamp_i64 read_i64_clamp_other)
  with assms show ?thesis by blast
qed

lemma clamp_org_f64:
  assumes "(key, lo, hi) \<in> set org_f64_ranges"
  shows "read_f64 (clamp_org v) key = map_option (\<lambda>n. clamp n lo hi) (read_f64 v key)"
proof -
  have "(key, lo, hi) = x \<Longrightarrow> x \<in> set org_f64_ranges \<Longrightarrow> ?thesis" for x
    unfolding org_f64_ranges_def clamp_org_def Let_def
    apply (simp only: list.set insert_iff empty_iff simp_thms)
    apply (elim disjE)
    by (simp_all add: read_clamp_f64 read_f64_clamp_other)
  with assms show ?thesis by blast
qed

lemma clamp_system_i64:
  assumes "((parent, key), lo, hi) \<in> set system_ranges"
  shows "read_nested_i64 (clamp_system v) parent key =
    map_option (\<lambda>n. clamp n lo hi) (read_nested_i64 v parent key)"
proof -
  have "((parent, key), lo, hi) = x \<Longrightarrow> x \<in> set system_ranges \<Longrightarrow> ?thesis" for x
    unfolding system_ranges_def clamp_system_def Let_def
    apply (simp only: list.set insert_iff empty_iff simp_thms)
    apply (elim disjE)
    by (simp_all add: read_nested_clamp read_nested_clamp_other)
  with assms show ?thesis by blast
qed

lemma range_tables_ordered:
  "(key, lo, hi) \<in> set org_i64_ranges \<Longrightarrow> lo \<le> hi"
  "(key', x, y) \<in> set org_f64_ranges \<Longrightarrow> x \<le> y"
  "(pk, lo', hi') \<in> set system_ranges \<Longrightarrow> lo' \<le> hi'"
  by (auto simp: org_i64_ranges_def org_f64_ranges_def system_ranges_def)

lemma clamped_or_default:
  assumes "lo \<le> hi" "lo \<le> def" "def \<le> hi"
  shows "lo \<le> (case map_option (\<lambda>n. clamp n lo hi) x of None \<Rightarrow> def | Some n \<Rightarrow> n)
    \<and> (case map_option (\<lambda>n. clamp n lo hi) x of None \<Rightarrow> def | Some n \<Rightarrow> n) \<le> hi"
  using assms clamp_bounds [of lo hi] by (cases x) simp_all

text \<open>
  Whatever JSON is stored as a tenant's override, an integer setting read from the
  resolved bundle lies in its documented range as soon as the reader's default does: no
  override, of any type or size, can push a cap, a page limit or a candidate count out of it.
\<close>

theorem org_i64_in_range:
  assumes "(key, lo, hi) \<in> set org_i64_ranges" and "lo \<le> def" and "def \<le> hi"
  shows "lo \<le> org_i64 (merge_and_clamp Org (org_defaults env) overrides) key def
    \<and> org_i64 (merge_and_clamp Org (org_defaults env) overrides) key def \<le> hi"
  unfolding org_i64_def merge_and_clamp_def clamp_for.simps read_i64_def [symmetric]
    clamp_org_i64 [OF assms(1)]
  by (rule clamped_or_default [OF range_tables_ordered(1) [OF assms(1)] assms(2,3)])

theorem org_i64_in_range_witness:
  "org_i64 (merge_and_clamp Org (org_defaults \<lparr>var = (\<lambda>_. None), parse_f64 = (\<lambda>_. None)\<rparr>)
      (JObj [(''searchTopK'', JInt 1000000)])) ''searchTopK'' 20 \<le> 200"
  using org_i64_in_range [of "''searchTopK''" 1 200 20 "\<lparr>var = (\<lambda>_. None), parse_f64 = (\<lambda>_. None)\<rparr>"
      "JObj [(''searchTopK'', JInt 1000000)]"]
  by (simp add: org_i64_ranges_def)

text \<open>
  The same for the float settings: similarity thresholds stay in [0, 1], the merge
  confidence in [0, 100] and the budget in [0, 1000000], whatever is stored.
\<close>

theorem org_f64_in_range:
  assumes "(key, lo, hi) \<in> set org_f64_ranges" and "lo \<le> def" and "def \<le> hi"
  shows "lo \<le> org_f64 (merge_and_clamp Org (org_defaults env) overrides) key def
    \<and> org_f64 (merge_and_clamp Org (org_defaults env) overrides) key def \<le> hi"
  unfolding org_f64_def merge_and_clamp_def clamp_for.simps read_f64_def [symmetric]
    clamp_org_f64 [OF assms(1)]
  by (rule clamped_or_default [OF range_tables_ordered(2) [OF assms(1)] assms(2,3)])

theorem org_f64_in_range_witness:
  "0 \<le> org_f64 (merge_and_clamp Org (org_defaults \<lparr>var = (\<lambda>_. None), parse_f64 = (\<lambda>_. None)\<rparr>)
      (JObj [(''dedupCosine'', JFloat (- 3))])) ''dedupCosine'' (9 / 10)"
  using org_f64_in_range [of "''dedupCosine''" 0 1 "9 / 10" "\<lparr>var = (\<lambda>_. None), parse_f64 = (\<lambda>_. None)\<rparr>"
      "JObj [(''dedupCosine'', JFloat (- 3))]"]
  by (simp add: org_f64_ranges_def)

text \<open>
  The operator's limits are nested one level down; whatever is stored under
  \<open>queue\<close>, \<open>rateLimit\<close>, \<open>auth\<close> or \<open>pipeline\<close>, the value the worker and the API read is in
  range: at least one worker slot, at least one attempt, a token life of at least a minute.
\<close>

theorem system_i64_in_range:
  assumes "((parent, key), lo, hi) \<in> set system_ranges" and "lo \<le> def" and "def \<le> hi"
  shows "lo \<le> sys_nested_i64 (merge_and_clamp System (system_defaults env) overrides) parent key def
    \<and> sys_nested_i64 (merge_and_clamp System (system_defaults env) overrides) parent key def \<le> hi"
  unfolding sys_nested_i64_def merge_and_clamp_def clamp_for.simps read_nested_i64_def [symmetric]
    clamp_system_i64 [OF assms(1)]
  by (rule clamped_or_default [OF range_tables_ordered(3) [OF assms(1)] assms(2,3)])

theorem system_i64_in_range_witness:
  "1 \<le> sys_nested_i64 (merge_and_clamp System
      (system_defaults \<lparr>var = (\<lambda>_. Some ''-7''), parse_f64 = (\<lambda>_. None)\<rparr>) (JObj []))
      ''queue'' ''concurrency'' 2"
  using system_i64_in_range [of "''queue''" "''concurrency''" 1 64 2
      "\<lparr>var = (\<lambda>_. Some ''-7''), parse_f64 = (\<lambda>_. None)\<rparr>" "JObj []"]
  by (simp add: system_ranges_def)


section \<open>Patches\<close>

lemma map_of_delete: "map_of (AList.delete k t) = (map_of t)(k := None)"
  by (simp add: delete_conv')

lemma map_of_update: "map_of (AList.update k v t) = (map_of t)(k \<mapsto> v)"
  by (simp add: update_conv')

lemma update_same: "map_of t k = Some v \<Longrightarrow> AList.update k v t = t"
  by (induction t) auto

lemma delete_absent: "None = map_of t k \<Longrightarrow> AList.delete k t = t"
  using map_of_eq_None_iff [of t k] by (simp add: delete_id)

text \<open>What a patch entry does to the value under its key.\<close>

definition patched :: "json option \<Rightarrow> json \<Rightarrow> json option" where
  "patched old v =
     (if v = JNull then None
      else if is_object v \<and> (case old of Some x \<Rightarrow> is_object x | None \<Rightarrow> False)
      then Some (apply_patch (the old) v)
      else Some v)"

lemma map_of_patch_entries:
  "distinct (map fst p) \<Longrightarrow>
    map_of (patch_entries t p) k =
      (case map_of p k of None \<Rightarrow> map_of t k | Some v \<Rightarrow> patched (map_of t k) v)"
proof (induction p arbitrary: t)
  case (Cons kv p)
  obtain k0 v where [simp]: "kv = (k0, v)" by fastforce
  show ?case
  proof (cases "k = k0")
    case True
    then have "map_of p k = None"
      using Cons.prems by (simp add: map_of_eq_None_iff)
    with True show ?thesis
      using Cons by (simp add: patched_def map_of_delete map_of_update del: apply_patch.simps)
  next
    case False
    then show ?thesis
      using Cons by (auto simp: map_of_delete map_of_update simp del: apply_patch.simps
          split: option.split)
  qed
qed simp

lemma patch_entries_id:
  assumes "\<And>k v. (k, v) \<in> set p \<Longrightarrow> patched (map_of t k) v = map_of t k"
  shows "patch_entries t p = t"
  using assms
proof (induction p)
  case (Cons kv p)
  obtain k v where [simp]: "kv = (k, v)" by fastforce
  have "patched (map_of t k) v = map_of t k"
    using Cons.prems by simp
  then have "(if v = JNull then AList.delete k t
        else if is_object v \<and> (case map_of t k of Some x \<Rightarrow> is_object x | None \<Rightarrow> False)
        then AList.update k (apply_patch (the (map_of t k)) v) t
        else AList.update k v t) = t"
    unfolding patched_def
    by (auto simp: update_same delete_absent simp del: apply_patch.simps split: if_splits)
  with Cons show ?case by simp
qed simp

lemma patched_object:
  "is_object v \<Longrightarrow> (case old of Some x \<Rightarrow> is_object x | None \<Rightarrow> False) \<Longrightarrow>
    patched old v = Some (apply_patch (the old) v)"
  by (cases v) (simp_all add: patched_def)

lemma is_object_iff: "is_object v = (\<exists>o'. v = JObj o')"
  by (cases v) auto

text \<open>A value without nulls is a fixed point of its own patch.\<close>

lemma apply_patch_self:
  "wf_json v \<Longrightarrow> null_free v \<Longrightarrow> apply_patch v v = v"
proof (induction v)
  case (JObj p)
  have "patch_entries p p = p"
  proof (rule patch_entries_id)
    fix k v
    assume kv: "(k, v) \<in> set p"
    then have k: "map_of p k = Some v"
      using JObj.prems by simp
    have "apply_patch v v = v"
      using JObj.IH [OF kv] JObj.prems kv by fastforce
    moreover have "v \<noteq> JNull"
      using JObj.prems kv by fastforce
    ultimately show "patched (map_of p k) v = map_of p k"
      using k by (simp add: patched_def del: apply_patch.simps)
  qed
  then show ?case by simp
qed auto

text \<open>A patch whose nulls, if any, are at the top level only.\<close>

definition shallow_nulls :: "json_object \<Rightarrow> bool" where
  "shallow_nulls p = (\<forall>kv \<in> set p. snd kv = JNull \<or> null_free (snd kv))"

lemma patched_idem:
  assumes v: "v = JNull \<or> null_free v" "wf_json v"
    and rec: "\<And>x. is_object x \<Longrightarrow> is_object v \<Longrightarrow> apply_patch (apply_patch x v) v = apply_patch x v"
  shows "patched (patched old v) v = patched old v"
proof (cases "is_object v \<and> (case old of Some x \<Rightarrow> is_object x | None \<Rightarrow> False)")
  case True
  then obtain x where x: "old = Some x" "is_object x"
    by (auto split: option.splits)
  then have "is_object (apply_patch x v)"
    using True by (auto simp: is_object_iff)
  with True x rec [of x] show ?thesis
    by (simp add: patched_object del: apply_patch.simps)
next
  case False
  then show ?thesis
    using v apply_patch_self [of v] by (auto simp: patched_def simp del: apply_patch.simps)
qed

lemma patch_entries_idem:
  assumes "distinct (map fst p)"
    and "\<And>k v old. (k, v) \<in> set p \<Longrightarrow> patched (patched old v) v = patched old v"
  shows "patch_entries (patch_entries t p) p = patch_entries t p"
proof (rule patch_entries_id)
  fix k v
  assume kv: "(k, v) \<in> set p"
  then have "map_of (patch_entries t p) k = patched (map_of t k) v"
    using assms(1) by (simp add: map_of_patch_entries)
  then show "patched (map_of (patch_entries t p) k) v = map_of (patch_entries t p) k"
    using assms(2) [OF kv] by simp
qed

lemma apply_patch_idem_null_free:
  "wf_json p \<Longrightarrow> null_free p \<Longrightarrow> is_object p \<Longrightarrow> is_object t \<Longrightarrow>
    apply_patch (apply_patch t p) p = apply_patch t p"
proof (induction p arbitrary: t)
  case (JObj es)
  obtain t' where [simp]: "t = JObj t'"
    using JObj.prems by (auto simp: is_object_iff)
  have "patched (patched old v) v = patched old v" if kv: "(k, v) \<in> set es" for k v old
  proof (rule patched_idem)
    show "v = JNull \<or> null_free v" "wf_json v"
      using JObj.prems kv by fastforce+
    then show "apply_patch (apply_patch x v) v = apply_patch x v"
      if "is_object x" "is_object v" for x
      using JObj.IH [OF kv, of v x] that by (cases v) auto
  qed
  with JObj.prems show ?case
    by (simp add: patch_entries_idem)
qed auto

text \<open>
  A patch acts on each key of the stored object by itself: a key the patch does not
  name keeps its value, \<open>null\<close> deletes the key, an object meeting an object is patched in
  its turn, and everything else replaces what was there.
\<close>

theorem apply_patch_per_key:
  assumes "distinct (map fst p)"
  shows "get_key (apply_patch (JObj t) (JObj p)) k =
    (case map_of p k of
       None \<Rightarrow> map_of t k
     | Some JNull \<Rightarrow> None
     | Some (JObj q) \<Rightarrow> (case map_of t k of
         Some (JObj u) \<Rightarrow> Some (apply_patch (JObj u) (JObj q))
       | _ \<Rightarrow> Some (JObj q))
     | Some v \<Rightarrow> Some v)"
proof -
  have "get_key (apply_patch (JObj t) (JObj p)) k =
    (case map_of p k of None \<Rightarrow> map_of t k | Some v \<Rightarrow> patched (map_of t k) v)"
    using assms by (simp add: map_of_patch_entries)
  then show ?thesis
    by (simp add: patched_def split: option.split json.split)
qed

theorem apply_patch_per_key_witness:
  "get_key (apply_patch (JObj [(''ai'', JObj [(''a'', JInt 1), (''b'', JInt 2)]), (''rerank'', JStr ''off'')])
     (JObj [(''ai'', JObj [(''b'', JNull)])])) ''ai'' = Some (JObj [(''a'', JInt 1)])"
  using apply_patch_per_key [of "[(''ai'', JObj [(''b'', JNull)])]"
      "[(''ai'', JObj [(''a'', JInt 1), (''b'', JInt 2)]), (''rerank'', JStr ''off'')]" "''ai''"]
  by simp

text \<open>
  Applying the same patch twice is the same as applying it once, as long as \<open>null\<close>
  occurs in the patch only as a top-level value: a client that retries a request changes
  nothing.
\<close>

theorem apply_patch_idempotent:
  assumes "wf_json (JObj p)" and "shallow_nulls p"
  shows "apply_patch (apply_patch (JObj t) (JObj p)) (JObj p) = apply_patch (JObj t) (JObj p)"
proof -
  have "patched (patched old v) v = patched old v" if kv: "(k, v) \<in> set p" for k v old
  proof (rule patched_idem)
    show v: "v = JNull \<or> null_free v" "wf_json v"
      using assms kv by (fastforce simp: shallow_nulls_def)+
    then show "apply_patch (apply_patch x v) v = apply_patch x v"
      if "is_object x" "is_object v" for x
      using apply_patch_idem_null_free [of v x] that by (cases v) auto
  qed
  with assms show ?thesis
    by (simp add: patch_entries_idem)
qed

theorem apply_patch_idempotent_witness:
  "let p = JObj [(''ai'', JObj [(''parseVendor'', JStr ''x'')]), (''rerank'', JNull)];
       t = JObj [(''rerank'', JStr ''cohere'')]
   in apply_patch (apply_patch t p) p = apply_patch t p \<and> get_key (apply_patch t p) ''rerank'' = None"
  using apply_patch_idempotent [of "[(''ai'', JObj [(''parseVendor'', JStr ''x'')]), (''rerank'', JNull)]"
      "[(''rerank'', JStr ''cohere'')]"]
  by (simp add: shallow_nulls_def)

text \<open>
  The restriction to top-level nulls is needed. A \<open>null\<close> inside an object whose key the
  store does not hold yet is stored as it is; the second application finds an object there
  and deletes the inner key, so the same request sent twice gives two different documents.
\<close>

theorem nested_null_not_idempotent:
  "let p = JObj [(''ai'', JObj [(''parseVendor'', JNull)])]
   in apply_patch (JObj []) p = JObj [(''ai'', JObj [(''parseVendor'', JNull)])]
    \<and> apply_patch (apply_patch (JObj []) p) p = JObj [(''ai'', JObj [])]"
  by simp

text \<open>
  What survives the whitelist is exactly the part of the patch under keys the scope's
  defaults have, values untouched; anything else a client sends is dropped before it can
  reach the table.
\<close>

theorem whitelist_patch_keys:
  assumes "distinct (map fst p)"
  shows "get_key (whitelist_patch env sc (JObj p)) k =
    (if get_key (defaults_for env sc) k = None then None else map_of p k)"
proof -
  obtain allowed where a: "defaults_for env sc = JObj allowed"
    by (cases sc) (auto simp: org_defaults_def system_defaults_def user_defaults_def)
  have "map_of (filter (\<lambda>(k, v). map_of allowed k \<noteq> None) p) k =
    (if map_of allowed k = None then None else map_of p k)"
    using assms
  proof (induction p)
    case (Cons kv p)
    have "map_of p (fst kv) = None"
      using Cons.prems by (simp add: map_of_eq_None_iff)
    moreover have "distinct (map fst p)"
      using Cons.prems by simp
    ultimately show ?case
      using Cons.IH by (cases kv) (auto simp del: not_None_eq)
  qed simp
  with a show ?thesis by (simp add: whitelist_patch_def)
qed

theorem whitelist_patch_keys_witness:
  "get_key (whitelist_patch \<lparr>var = (\<lambda>_. None), parse_f64 = (\<lambda>_. None)\<rparr> User
     (JObj [(''theme'', JStr ''dark''), (''role'', JStr ''owner'')])) ''role'' = None"
  using whitelist_patch_keys [of "[(''theme'', JStr ''dark''), (''role'', JStr ''owner'')]"
      "\<lparr>var = (\<lambda>_. None), parse_f64 = (\<lambda>_. None)\<rparr>" User "''role''"]
  by (simp add: user_defaults_def)

declare apply_patch.simps [simp del]

end
