(* ===== verification/Cache.thy ===== *)
theory Cache
  imports Json
begin

text \<open>
  \<open>insight-core/src/storage/cache.rs\<close>: the \<open>Cache\<close> trait and its Redis implementation.
  The server is a keyed store with optional deadlines and a clock in seconds. Every command
  can fail: \<open>link_up n\<close> says whether the \<open>n\<close>-th command reaches the server, \<open>issued\<close> counts the
  commands, and a command that does not reach it has no effect and returns \<open>None\<close> (the
  source's \<open>Err\<close>). The theory also holds the two contracts the rest of the program relies
  on, as locales: \<open>read_through\<close> (a cache in front of a slower source) and \<open>token_store\<close>
  (single-use tokens), each interpreted here or where its provider is.
\<close>

record entry =
  entry_value :: string
  deadline :: "nat option"

record redis =
  keyspace :: "string \<Rightarrow> entry option"
  clock :: nat
  link_up :: "nat \<Rightarrow> bool"
  issued :: nat

definition live :: "redis \<Rightarrow> string \<Rightarrow> entry option" where
  "live r key = (case keyspace r key of
       None \<Rightarrow> None
     | Some e \<Rightarrow> (case deadline e of
         None \<Rightarrow> Some e
       | Some t \<Rightarrow> if clock r < t then Some e else None))"

definition put_entry :: "string \<Rightarrow> entry option \<Rightarrow> redis \<Rightarrow> redis" where
  "put_entry key e r = r\<lparr>keyspace := (keyspace r)(key := e)\<rparr>"

definition command :: "(redis \<Rightarrow> 'a option \<times> redis) \<Rightarrow> redis \<Rightarrow> 'a option \<times> redis" where
  "command f r =
     (let r' = r\<lparr>issued := issued r + 1\<rparr>
      in if link_up r (issued r) then f r' else (None, r'))"

definition cache_get :: "string \<Rightarrow> redis \<Rightarrow> string option option \<times> redis" where
  "cache_get key = command (\<lambda>r. (Some (map_option entry_value (live r key)), r))"

definition cache_set_with_ttl :: "string \<Rightarrow> string \<Rightarrow> nat \<Rightarrow> redis \<Rightarrow> unit option \<times> redis" where
  "cache_set_with_ttl key value ttl_secs = command (\<lambda>r.
     if ttl_secs = 0 then (None, r)
     else (Some (), put_entry key (Some \<lparr>entry_value = value, deadline = Some (clock r + ttl_secs)\<rparr>) r))"

definition cache_set_nx_with_ttl :: "string \<Rightarrow> string \<Rightarrow> nat \<Rightarrow> redis \<Rightarrow> bool option \<times> redis" where
  "cache_set_nx_with_ttl key value ttl_secs = command (\<lambda>r.
     if ttl_secs = 0 then (None, r)
     else if live r key \<noteq> None then (Some False, r)
     else (Some True, put_entry key (Some \<lparr>entry_value = value, deadline = Some (clock r + ttl_secs)\<rparr>) r))"

definition cache_del :: "string \<Rightarrow> redis \<Rightarrow> unit option \<times> redis" where
  "cache_del key = command (\<lambda>r. (Some (), put_entry key None r))"

definition cache_take :: "string \<Rightarrow> redis \<Rightarrow> string option option \<times> redis" where
  "cache_take key = command (\<lambda>r.
     (Some (map_option entry_value (live r key)), put_entry key None r))"

text \<open>
  \<open>INCR\<close> keeps the deadline of the key and fails on a value that is not a decimal integer
  or on overflow.
\<close>

definition cache_incr :: "string \<Rightarrow> redis \<Rightarrow> int option \<times> redis" where
  "cache_incr key = command (\<lambda>r.
     (case live r key of
        None \<Rightarrow> (Some 1, put_entry key (Some \<lparr>entry_value = show_int 1, deadline = None\<rparr>) r)
      | Some e \<Rightarrow> (case parse_i64 (entry_value e) of
          None \<Rightarrow> (None, r)
        | Some n \<Rightarrow> if n = 2 ^ 63 - 1 then (None, r)
            else (Some (n + 1), put_entry key (Some (e\<lparr>entry_value := show_int (n + 1)\<rparr>)) r))))"

definition cache_expire :: "string \<Rightarrow> nat \<Rightarrow> redis \<Rightarrow> unit option \<times> redis" where
  "cache_expire key ttl_secs = command (\<lambda>r.
     (Some (), (case live r key of
        None \<Rightarrow> r
      | Some e \<Rightarrow> if ttl_secs = 0 then put_entry key None r
          else put_entry key (Some (e\<lparr>deadline := Some (clock r + ttl_secs)\<rparr>)) r)))"

definition cache_ttl :: "string \<Rightarrow> redis \<Rightarrow> nat option option \<times> redis" where
  "cache_ttl key = command (\<lambda>r.
     (Some (case live r key of
        None \<Rightarrow> None
      | Some e \<Rightarrow> map_option (\<lambda>t. t - clock r) (deadline e)), r))"

definition pass :: "nat \<Rightarrow> redis \<Rightarrow> redis" where
  "pass secs r = r\<lparr>clock := clock r + secs\<rparr>"

lemmas cache_ops = cache_get_def cache_set_with_ttl_def cache_set_nx_with_ttl_def cache_del_def
  cache_take_def cache_incr_def cache_expire_def cache_ttl_def

lemma live_issued [simp]: "live (r\<lparr>issued := n\<rparr>) key = live r key"
  by (simp add: live_def split: option.split)

lemma live_put_entry:
  "live (put_entry k e r) k' =
    (if k' = k then (case e of None \<Rightarrow> None | Some x \<Rightarrow>
        (case deadline x of None \<Rightarrow> Some x | Some t \<Rightarrow> if clock r < t then Some x else None))
     else live r k')"
  by (simp add: live_def put_entry_def split: option.split)

lemma put_entry_simps [simp]:
  "clock (put_entry k e r) = clock r" "link_up (put_entry k e r) = link_up r"
  "issued (put_entry k e r) = issued r"
  by (simp_all add: put_entry_def)

lemma live_pass: "live (pass d r) key = Some e \<Longrightarrow> live r key = Some e"
  by (auto simp: live_def pass_def split: option.splits if_splits)

section \<open>Contracts\<close>

text \<open>
  A cache in front of a source: \<open>fresh\<close> is what the source would answer now. If every
  cached value is fresh, reading through the cache is reading the source; the property is
  kept by filling a key with its fresh value and by every step that drops what it changes.
\<close>

locale read_through =
  fixes cached :: "'s \<Rightarrow> 'k \<Rightarrow> 'v option"
    and fill :: "'k \<Rightarrow> 'v \<Rightarrow> 's \<Rightarrow> 's"
    and fresh :: "'s \<Rightarrow> 'k \<Rightarrow> 'v"
  assumes cached_fill: "cached (fill k v s) k' = Some w \<Longrightarrow> (k' = k \<and> w = v) \<or> cached s k' = Some w"
    and fresh_fill: "fresh (fill k v s) k' = fresh s k'"
begin

definition coherent :: "'s \<Rightarrow> bool" where
  "coherent s = (\<forall>k v. cached s k = Some v \<longrightarrow> v = fresh s k)"

lemma coherent_read: "coherent s \<Longrightarrow> (case cached s k of Some v \<Rightarrow> v | None \<Rightarrow> fresh s k) = fresh s k"
  by (auto simp: coherent_def split: option.split)

lemma coherent_fill: "coherent s \<Longrightarrow> coherent (fill k (fresh s k) s)"
  unfolding coherent_def using cached_fill fresh_fill by metis

lemma coherent_step:
  assumes "coherent s"
    and "\<And>k v. cached s' k = Some v \<Longrightarrow> cached s k = Some v \<and> fresh s' k = fresh s k"
  shows "coherent s'"
  using assms unfolding coherent_def by metis

end

datatype 'k token_op = Grant 'k | Consume 'k | Revoke 'k | Idle

fun run_ops :: "('k token_op \<Rightarrow> 's \<Rightarrow> bool \<times> 's) \<Rightarrow> 'k token_op list \<Rightarrow> 's \<Rightarrow> bool list \<times> 's" where
  "run_ops step [] s = ([], s)"
| "run_ops step (x # xs) s =
     (let (b, s') = step x s; (bs, s'') = run_ops step xs s' in (b # bs, s''))"

definition wins :: "'k \<Rightarrow> 'k token_op list \<Rightarrow> bool list \<Rightarrow> nat" where
  "wins k ops bs = length (filter (\<lambda>(x, b). x = Consume k \<and> b) (zip ops bs))"

definition grants :: "'k \<Rightarrow> 'k token_op list \<Rightarrow> nat" where
  "grants k ops = length (filter (\<lambda>x. x = Grant k) ops)"

text \<open>
  Single-use tokens: \<open>holds\<close> is the allowlist, \<open>consume\<close> reads and removes in one step.
  However requests interleave, a token is consumed successfully at most as many times as
  it was granted.
\<close>

locale token_store =
  fixes holds :: "'s \<Rightarrow> 'k \<Rightarrow> bool"
    and step :: "'k token_op \<Rightarrow> 's \<Rightarrow> bool \<times> 's"
  assumes consume_ok: "fst (step (Consume k) s) \<Longrightarrow> holds s k"
    and consume_gone: "fst (step (Consume k) s) \<Longrightarrow> \<not> holds (snd (step (Consume k) s)) k"
    and consume_none_new: "holds (snd (step (Consume k) s)) k' \<Longrightarrow> holds s k'"
    and revoke_none_new: "holds (snd (step (Revoke k) s)) k' \<Longrightarrow> holds s k'"
    and idle_none_new: "holds (snd (step Idle s)) k' \<Longrightarrow> holds s k'"
    and grant_only: "holds (snd (step (Grant k) s)) k' \<Longrightarrow> k' = k \<or> holds s k'"
begin

lemma wins_bounded:
  "wins k ops (fst (run_ops step ops s)) \<le> grants k ops + (if holds s k then 1 else 0)"
proof (induction ops arbitrary: s)
  case (Cons x xs)
  let ?s' = "snd (step x s)"
  have wins: "wins k (x # xs) (fst (run_ops step (x # xs) s)) =
      (if x = Consume k \<and> fst (step x s) then 1 else 0) + wins k xs (fst (run_ops step xs ?s'))"
    by (cases "x = Consume k") (auto simp: wins_def case_prod_beta Let_def)
  have IH: "wins k xs (fst (run_ops step xs ?s')) \<le>
      grants k xs + (if holds ?s' k then 1 else 0)"
    by (rule Cons.IH)
  show ?case
  proof (cases x)
    case (Grant j)
    with wins IH grant_only [of j s k] show ?thesis
      by (cases "j = k") (auto simp: grants_def split: if_splits)
  next
    case (Consume j)
    with wins IH consume_none_new [of j s k] consume_ok [of j s] consume_gone [of j s]
    show ?thesis by (cases "j = k") (auto simp: grants_def split: if_splits)
  next
    case (Revoke j)
    with wins IH revoke_none_new [of j s k] show ?thesis
      by (auto simp: grants_def split: if_splits)
  next
    case Idle
    with wins IH idle_none_new [of s k] show ?thesis
      by (auto simp: grants_def split: if_splits)
  qed
qed (simp add: wins_def)

end

end
