(* ===== verification/SettingsStore.thy ===== *)
theory SettingsStore
  imports Settings Cache
begin

text \<open>
  \<open>SettingsStore\<close> of \<open>insight-core/src/settings.rs\<close>: the three tables of stored overrides,
  the process-local cache with its ten-second life, and the operations that resolve and
  patch each scope. The clock is in milliseconds; \<open>reachable\<close> says whether the database
  answers, and an operation that needs it returns \<open>None\<close> otherwise, with no change to the
  state. The steps of this process and those of another process on the same database are
  two relations: only the first invalidate the cache.
\<close>

datatype cache_key = KSystem | KOrg uuid | KUser uuid uuid

record cache_entry =
  cached_values :: json
  stored_at :: nat

record system_row =
  sys_values :: json
  sys_updated_at :: nat
  sys_updated_by :: "uuid option"

record org_settings_row =
  org_name :: "string option"
  logo_key :: "string option"
  org_values :: json
  org_updated_at :: nat

record user_row =
  pref_values :: json
  pref_updated_at :: nat

record settings_store =
  system_settings :: "system_row option"
  org_settings :: "uuid \<Rightarrow> org_settings_row option"
  user_preferences :: "uuid \<times> uuid \<Rightarrow> user_row option"
  cache :: "cache_key \<Rightarrow> cache_entry option"
  now_ms :: nat
  reachable :: bool

record org_row_view =
  row_name :: "string option"
  row_logo :: "string option"
  row_overrides :: json
  row_updated_at :: "nat option"

record org_bundle =
  bundle_name :: "string option"
  bundle_logo :: "string option"
  bundle_settings :: json
  bundle_defaults :: json
  overridden :: "string list"
  bundle_updated_at :: "nat option"

definition CACHE_TTL :: nat where
  "CACHE_TTL = 10 * 1000"

section \<open>The cache\<close>

definition settings_cache_get :: "settings_store \<Rightarrow> cache_key \<Rightarrow> json option" where
  "settings_cache_get s key = (case cache s key of
       None \<Rightarrow> None
     | Some e \<Rightarrow> if now_ms s - stored_at e < CACHE_TTL then Some (cached_values e) else None)"

definition settings_cache_put :: "cache_key \<Rightarrow> json \<Rightarrow> settings_store \<Rightarrow> settings_store" where
  "settings_cache_put key v s =
     s\<lparr>cache := (cache s)(key \<mapsto> \<lparr>cached_values = v, stored_at = now_ms s\<rparr>)\<rparr>"

definition settings_cache_invalidate :: "cache_key \<Rightarrow> settings_store \<Rightarrow> settings_store" where
  "settings_cache_invalidate key s = s\<lparr>cache := (cache s)(key := None)\<rparr>"

section \<open>Reading the tables\<close>

definition system_overrides :: "settings_store \<Rightarrow> json" where
  "system_overrides s = (case system_settings s of None \<Rightarrow> JObj [] | Some r \<Rightarrow> sys_values r)"

definition org_row :: "uuid \<Rightarrow> settings_store \<Rightarrow> org_row_view" where
  "org_row tenant s = (case org_settings s tenant of
       Some r \<Rightarrow> \<lparr>row_name = org_name r, row_logo = logo_key r, row_overrides = org_values r,
                  row_updated_at = Some (org_updated_at r)\<rparr>
     | None \<Rightarrow> \<lparr>row_name = None, row_logo = None, row_overrides = JObj [], row_updated_at = None\<rparr>)"

definition user_overrides :: "uuid \<Rightarrow> uuid \<Rightarrow> settings_store \<Rightarrow> json" where
  "user_overrides tenant user s =
     (case user_preferences s (tenant, user) of None \<Rightarrow> JObj [] | Some r \<Rightarrow> pref_values r)"

definition object_keys :: "json \<Rightarrow> string list" where
  "object_keys v = (case as_object v of Some kvs \<Rightarrow> map fst kvs | None \<Rightarrow> [])"

section \<open>Operations\<close>

definition resolve_system :: "environment \<Rightarrow> settings_store \<Rightarrow> json option \<times> settings_store" where
  "resolve_system env s = (case settings_cache_get s KSystem of
       Some v \<Rightarrow> (Some v, s)
     | None \<Rightarrow>
         if \<not> reachable s then (None, s)
         else let resolved = merge_and_clamp System (system_defaults env) (system_overrides s)
              in (Some resolved, settings_cache_put KSystem resolved s))"

definition write_system :: "json \<Rightarrow> uuid option \<Rightarrow> settings_store \<Rightarrow> settings_store" where
  "write_system overrides by_user s =
     s\<lparr>system_settings := Some \<lparr>sys_values = overrides, sys_updated_at = now_ms s, sys_updated_by = by_user\<rparr>\<rparr>"

definition patch_system ::
  "environment \<Rightarrow> json \<Rightarrow> uuid option \<Rightarrow> settings_store \<Rightarrow> json option \<times> settings_store" where
  "patch_system env patch updated_by s =
     (if \<not> reachable s then (None, s)
      else let overrides = apply_patch (system_overrides s) patch;
               s1 = write_system overrides updated_by s;
               s2 = settings_cache_invalidate KSystem s1
           in resolve_system env s2)"

definition resolve_org :: "environment \<Rightarrow> uuid \<Rightarrow> settings_store \<Rightarrow> json option \<times> settings_store" where
  "resolve_org env tenant s = (case settings_cache_get s (KOrg tenant) of
       Some v \<Rightarrow> (Some v, s)
     | None \<Rightarrow>
         if \<not> reachable s then (None, s)
         else let resolved = merge_and_clamp Org (org_defaults env) (row_overrides (org_row tenant s))
              in (Some resolved, settings_cache_put (KOrg tenant) resolved s))"

definition get_org_bundle :: "environment \<Rightarrow> uuid \<Rightarrow> settings_store \<Rightarrow> org_bundle option" where
  "get_org_bundle env tenant s =
     (if \<not> reachable s then None
      else let row = org_row tenant s
           in Some \<lparr>bundle_name = row_name row, bundle_logo = row_logo row,
                bundle_settings = merge_and_clamp Org (org_defaults env) (row_overrides row),
                bundle_defaults = org_defaults env,
                overridden = object_keys (row_overrides row),
                bundle_updated_at = row_updated_at row\<rparr>)"

definition write_org ::
  "uuid \<Rightarrow> string option \<Rightarrow> string option \<Rightarrow> json \<Rightarrow> settings_store \<Rightarrow> settings_store" where
  "write_org tenant name logo overrides s =
     s\<lparr>org_settings := (org_settings s)(tenant \<mapsto>
        \<lparr>org_name = name, logo_key = logo, org_values = overrides, org_updated_at = now_ms s\<rparr>)\<rparr>"

definition patch_org ::
  "environment \<Rightarrow> uuid \<Rightarrow> json \<Rightarrow> string option \<Rightarrow> string option option
    \<Rightarrow> settings_store \<Rightarrow> org_bundle option \<times> settings_store" where
  "patch_org env tenant patch name logo s =
     (if \<not> reachable s then (None, s)
      else let cur = org_row tenant s;
               overrides = apply_patch (row_overrides cur) patch;
               name' = (case name of Some n \<Rightarrow> Some n | None \<Rightarrow> row_name cur);
               logo' = (case logo of Some v \<Rightarrow> v | None \<Rightarrow> row_logo cur);
               s1 = write_org tenant name' logo' overrides s;
               s2 = settings_cache_invalidate (KOrg tenant) s1
           in (Some \<lparr>bundle_name = name', bundle_logo = logo',
                 bundle_settings = merge_and_clamp Org (org_defaults env) overrides,
                 bundle_defaults = org_defaults env,
                 overridden = object_keys overrides,
                 bundle_updated_at = Some (now_ms s)\<rparr>, s2))"

definition resolve_user ::
  "uuid \<Rightarrow> uuid \<Rightarrow> settings_store \<Rightarrow> json option \<times> settings_store" where
  "resolve_user tenant user s = (case settings_cache_get s (KUser tenant user) of
       Some v \<Rightarrow> (Some v, s)
     | None \<Rightarrow>
         if \<not> reachable s then (None, s)
         else let resolved = merge_and_clamp User user_defaults (user_overrides tenant user s)
              in (Some resolved, settings_cache_put (KUser tenant user) resolved s))"

definition user_prefs_raw :: "uuid \<Rightarrow> uuid \<Rightarrow> settings_store \<Rightarrow> json option" where
  "user_prefs_raw tenant user s = (if reachable s then Some (user_overrides tenant user s) else None)"

definition write_user :: "uuid \<Rightarrow> uuid \<Rightarrow> json \<Rightarrow> settings_store \<Rightarrow> settings_store" where
  "write_user tenant user values' s =
     s\<lparr>user_preferences := (user_preferences s)((tenant, user) \<mapsto>
        \<lparr>pref_values = values', pref_updated_at = now_ms s\<rparr>)\<rparr>"

definition set_user_prefs_raw ::
  "uuid \<Rightarrow> uuid \<Rightarrow> json \<Rightarrow> settings_store \<Rightarrow> unit option \<times> settings_store" where
  "set_user_prefs_raw tenant user values' s =
     (if \<not> reachable s then (None, s)
      else (Some (), settings_cache_invalidate (KUser tenant user) (write_user tenant user values' s)))"

definition patch_user ::
  "uuid \<Rightarrow> uuid \<Rightarrow> json \<Rightarrow> settings_store \<Rightarrow> json option \<times> settings_store" where
  "patch_user tenant user patch s =
     (if \<not> reachable s then (None, s)
      else let overrides = apply_patch (user_overrides tenant user s) patch
           in (Some (merge_and_clamp User user_defaults overrides),
               settings_cache_invalidate (KUser tenant user) (write_user tenant user overrides s)))"

section \<open>What the tables resolve to, and the steps\<close>

fun effective :: "environment \<Rightarrow> settings_store \<Rightarrow> cache_key \<Rightarrow> json" where
  "effective env s KSystem = merge_and_clamp System (system_defaults env) (system_overrides s)"
| "effective env s (KOrg t) = merge_and_clamp Org (org_defaults env) (row_overrides (org_row t s))"
| "effective env s (KUser t u) = merge_and_clamp User user_defaults (user_overrides t u s)"

fun resolve :: "environment \<Rightarrow> cache_key \<Rightarrow> settings_store \<Rightarrow> json option \<times> settings_store" where
  "resolve env KSystem = resolve_system env"
| "resolve env (KOrg t) = resolve_org env t"
| "resolve env (KUser t u) = resolve_user t u"

fun last_write :: "settings_store \<Rightarrow> cache_key \<Rightarrow> nat option" where
  "last_write s KSystem = map_option sys_updated_at (system_settings s)"
| "last_write s (KOrg t) = map_option org_updated_at (org_settings s t)"
| "last_write s (KUser t u) = map_option pref_updated_at (user_preferences s (t, u))"

inductive local_step :: "environment \<Rightarrow> settings_store \<Rightarrow> settings_store \<Rightarrow> bool"
  for env :: environment where
  tick: "local_step env s (s\<lparr>now_ms := now_ms s + d\<rparr>)"
| link: "local_step env s (s\<lparr>reachable := b\<rparr>)"
| resolve: "local_step env s (snd (resolve env k s))"
| patch_system: "local_step env s (snd (patch_system env p who s))"
| patch_org: "local_step env s (snd (patch_org env t p name logo s))"
| patch_user: "local_step env s (snd (patch_user t u p s))"
| set_user: "local_step env s (snd (set_user_prefs_raw t u v s))"

inductive remote_step :: "settings_store \<Rightarrow> settings_store \<Rightarrow> bool" where
  remote_system: "remote_step s (write_system v who s)"
| remote_org: "remote_step s (write_org t name logo v s)"
| remote_user: "remote_step s (write_user t u v s)"

inductive local_run :: "environment \<Rightarrow> settings_store \<Rightarrow> settings_store \<Rightarrow> bool"
  for env :: environment where
  "local_run env s s"
| "local_run env s s' \<Longrightarrow> local_step env s' s'' \<Longrightarrow> local_run env s s''"

inductive shared_run :: "environment \<Rightarrow> settings_store \<Rightarrow> settings_store \<Rightarrow> bool"
  for env :: environment where
  "shared_run env s s"
| "shared_run env s s' \<Longrightarrow> local_step env s' s'' \<Longrightarrow> shared_run env s s''"
| "shared_run env s s' \<Longrightarrow> remote_step s' s'' \<Longrightarrow> shared_run env s s''"

inductive_cases local_stepE: "local_step env s s'"
inductive_cases remote_stepE: "remote_step s s'"

lemmas store_updates = settings_cache_put_def settings_cache_invalidate_def write_system_def
  write_org_def write_user_def

lemmas table_reads = system_overrides_def org_row_def user_overrides_def

lemma resolve_eq:
  "resolve env k s = (case settings_cache_get s k of
       Some v \<Rightarrow> (Some v, s)
     | None \<Rightarrow> if \<not> reachable s then (None, s)
         else (Some (effective env s k), settings_cache_put k (effective env s k) s))"
  by (cases k) (simp_all add: resolve_system_def resolve_org_def resolve_user_def Let_def
      split: option.split)

declare resolve.simps [simp del]

lemma effective_put [simp]: "effective env (settings_cache_put k v s) k' = effective env s k'"
  by (cases k') (simp_all add: store_updates table_reads)

lemma effective_invalidate [simp]:
  "effective env (settings_cache_invalidate k s) k' = effective env s k'"
  by (cases k') (simp_all add: store_updates table_reads)

lemma effective_clock [simp]:
  "effective env (s\<lparr>now_ms := n\<rparr>) k = effective env s k"
  "effective env (s\<lparr>reachable := b\<rparr>) k = effective env s k"
  by (cases k; simp add: table_reads)+

lemma effective_write_system: "k \<noteq> KSystem \<Longrightarrow> effective env (write_system v w s) k = effective env s k"
  by (cases k) (auto simp: store_updates table_reads)

lemma effective_write_org: "k \<noteq> KOrg t \<Longrightarrow> effective env (write_org t n l v s) k = effective env s k"
  by (cases k) (auto simp: store_updates table_reads)

lemma effective_write_user: "k \<noteq> KUser t u \<Longrightarrow> effective env (write_user t u v s) k = effective env s k"
  by (cases k) (auto simp: store_updates table_reads)

lemmas effective_writes = effective_write_system effective_write_org effective_write_user

lemma cache_get_put:
  "settings_cache_get (settings_cache_put k v s) k' =
    (if k' = k then Some v else settings_cache_get s k')"
  by (simp add: settings_cache_get_def settings_cache_put_def CACHE_TTL_def split: option.split)

lemma cache_get_invalidate:
  "settings_cache_get (settings_cache_invalidate k s) k' =
    (if k' = k then None else settings_cache_get s k')"
  by (simp add: settings_cache_get_def settings_cache_invalidate_def split: option.split)

lemma cache_get_write [simp]:
  "settings_cache_get (write_system v w s) k = settings_cache_get s k"
  "settings_cache_get (write_org t n l v s) k = settings_cache_get s k"
  "settings_cache_get (write_user t u v s) k = settings_cache_get s k"
  "settings_cache_get (s\<lparr>reachable := b\<rparr>) k = settings_cache_get s k"
  by (simp_all add: settings_cache_get_def store_updates split: option.split)

lemma cache_get_later:
  "settings_cache_get (s\<lparr>now_ms := now_ms s + d\<rparr>) k = Some v \<Longrightarrow> settings_cache_get s k = Some v"
  by (auto simp: settings_cache_get_def split: option.splits if_splits)

interpretation sc: read_through settings_cache_get settings_cache_put "effective env" for env
  by unfold_locales (auto simp: cache_get_put split: if_splits)


section \<open>Coherence of one process\<close>

lemma coherent_write:
  assumes "sc.coherent env s" and "s' = settings_cache_invalidate k (w s)"
    and "\<And>k'. settings_cache_get (w s) k' = settings_cache_get s k'"
    and "\<And>k'. k' \<noteq> k \<Longrightarrow> effective env (w s) k' = effective env s k'"
  shows "sc.coherent env s'"
  using assms by (intro sc.coherent_step [OF assms(1)]) (auto simp: cache_get_invalidate split: if_splits)

lemma coherent_resolve: "sc.coherent env s \<Longrightarrow> sc.coherent env (snd (resolve env k s))"
  by (auto simp: resolve_eq sc.coherent_fill split: option.split)

lemma coherent_local_step [il_inv]:
  assumes "local_step env s s'" and c: "sc.coherent env s"
  shows "sc.coherent env s'"
  using assms(1)
proof cases
  case (tick d)
  then show ?thesis
    by (intro sc.coherent_step [OF c]) (auto dest: cache_get_later)
next
  case (link b)
  then show ?thesis
    by (intro sc.coherent_step [OF c]) auto
next
  case (resolve k)
  with c show ?thesis by (simp add: coherent_resolve)
next
  case (patch_system p who)
  have "sc.coherent env (settings_cache_invalidate KSystem (write_system v who s))" for v
    by (rule coherent_write [OF c refl]) (auto simp: effective_writes)
  with patch_system c show ?thesis
    using coherent_resolve [of env _ KSystem] by (auto simp: patch_system_def Let_def resolve.simps)
next
  case (patch_org t p name logo)
  have "sc.coherent env (settings_cache_invalidate (KOrg t) (write_org t n l v s))" for n l v
    by (rule coherent_write [OF c refl]) (auto simp: effective_writes)
  with patch_org c show ?thesis by (auto simp: patch_org_def Let_def)
next
  case (patch_user t u p)
  have "sc.coherent env (settings_cache_invalidate (KUser t u) (write_user t u v s))" for v
    by (rule coherent_write [OF c refl]) (auto simp: effective_writes)
  with patch_user c show ?thesis by (auto simp: patch_user_def Let_def)
next
  case (set_user t u v)
  have "sc.coherent env (settings_cache_invalidate (KUser t u) (write_user t u v s))" for v
    by (rule coherent_write [OF c refl]) (auto simp: effective_writes)
  with set_user c show ?thesis by (auto simp: set_user_prefs_raw_def Let_def)
qed

lemma coherent_local_run:
  "local_run env s s' \<Longrightarrow> sc.coherent env s \<Longrightarrow> sc.coherent env s'"
  by (induction rule: local_run.induct) (auto intro: il_inv)

lemma coherent_empty: "cache s = (\<lambda>_. None) \<Longrightarrow> sc.coherent env s"
  by (simp add: sc.coherent_def settings_cache_get_def)

lemma resolve_coherent:
  "sc.coherent env s \<Longrightarrow> fst (resolve env k s) = Some v \<Longrightarrow> v = effective env s k"
  by (auto simp: resolve_eq sc.coherent_def split: option.splits if_splits)

section \<open>Staleness under another process\<close>

definition fresh_or_older :: "environment \<Rightarrow> settings_store \<Rightarrow> bool" where
  "fresh_or_older env s =
    ((\<forall>k u. last_write s k = Some u \<longrightarrow> u \<le> now_ms s)
   \<and> (\<forall>k e. cache s k = Some e \<longrightarrow> stored_at e \<le> now_ms s \<and>
        (cached_values e = effective env s k \<or> (\<exists>u. last_write s k = Some u \<and> stored_at e \<le> u))))"

lemma last_write_simps [simp]:
  "last_write (s\<lparr>now_ms := n\<rparr>) k = last_write s k"
  "last_write (s\<lparr>reachable := b\<rparr>) k = last_write s k"
  "last_write (s\<lparr>cache := c\<rparr>) k = last_write s k"
  by (cases k; simp)+

lemma last_write_writes:
  "last_write (write_system v w s) k = (if k = KSystem then Some (now_ms s) else last_write s k)"
  "last_write (write_org t n l v s) k = (if k = KOrg t then Some (now_ms s) else last_write s k)"
  "last_write (write_user t u v s) k = (if k = KUser t u then Some (now_ms s) else last_write s k)"
  by (cases k; simp add: store_updates)+

lemma write_frame [simp]:
  "cache (write_system v w s) = cache s" "now_ms (write_system v w s) = now_ms s"
  "cache (write_org t n l v s) = cache s" "now_ms (write_org t n l v s) = now_ms s"
  "cache (write_user t u v s) = cache s" "now_ms (write_user t u v s) = now_ms s"
  by (simp_all add: store_updates)

lemma older_write:
  assumes "fresh_or_older env s" and "cache s' = cache s" "now_ms s' = now_ms s"
    and "\<And>k'. last_write s' k' = (if k' = k then Some (now_ms s) else last_write s k')"
    and "\<And>k'. k' \<noteq> k \<Longrightarrow> effective env s' k' = effective env s k'"
  shows "fresh_or_older env s'"
  unfolding fresh_or_older_def
proof (intro conjI allI impI)
  fix k' u assume "last_write s' k' = Some u"
  with assms show "u \<le> now_ms s'"
    by (auto simp: fresh_or_older_def split: if_splits)
next
  fix k' e assume e: "cache s' k' = Some e"
  with assms show "stored_at e \<le> now_ms s'"
    by (auto simp: fresh_or_older_def)
  show "cached_values e = effective env s' k' \<or> (\<exists>u. last_write s' k' = Some u \<and> stored_at e \<le> u)"
    using assms e by (cases "k' = k") (auto simp: fresh_or_older_def)
qed

lemma older_invalidate:
  "fresh_or_older env s \<Longrightarrow> fresh_or_older env (settings_cache_invalidate k s)"
  unfolding fresh_or_older_def effective_invalidate
  by (auto simp: settings_cache_invalidate_def)

lemma older_put:
  "fresh_or_older env s \<Longrightarrow> fresh_or_older env (settings_cache_put k (effective env s k) s)"
  unfolding fresh_or_older_def effective_put
  by (auto simp: settings_cache_put_def)

lemma older_resolve: "fresh_or_older env s \<Longrightarrow> fresh_or_older env (snd (resolve env k s))"
  by (auto simp: resolve_eq older_put split: option.split)

lemma older_resolve_system:
  "fresh_or_older env s \<Longrightarrow> fresh_or_older env (snd (resolve_system env s))"
  using older_resolve [of env s KSystem] by (simp add: resolve.simps)

lemma older_writes:
  assumes "fresh_or_older env s"
  shows "fresh_or_older env (write_system v w s)"
    and "fresh_or_older env (write_org t n l v s)"
    and "fresh_or_older env (write_user t u v s)"
proof -
  show "fresh_or_older env (write_system v w s)"
    by (rule older_write [OF assms, where k = KSystem]) (simp_all add: last_write_writes effective_writes)
  show "fresh_or_older env (write_org t n l v s)"
    by (rule older_write [OF assms, where k = "KOrg t"]) (simp_all add: last_write_writes effective_writes)
  show "fresh_or_older env (write_user t u v s)"
    by (rule older_write [OF assms, where k = "KUser t u"]) (simp_all add: last_write_writes effective_writes)
qed

lemma older_local_step [il_inv]:
  assumes "local_step env s s'" and "fresh_or_older env s"
  shows "fresh_or_older env s'"
  using assms
proof cases
  case (tick d)
  with assms(2) show ?thesis
    by (auto simp: fresh_or_older_def intro: trans_le_add1)
next
  case (link b)
  with assms(2) show ?thesis by (auto simp: fresh_or_older_def)
next
  case (patch_system p who)
  with assms(2) show ?thesis
    by (auto simp: patch_system_def Let_def intro!: older_resolve_system older_writes older_invalidate)
next
  case (resolve k)
  with assms(2) show ?thesis by (simp add: older_resolve)
next
  case (patch_org t p name logo)
  with assms(2) show ?thesis
    by (auto simp: patch_org_def Let_def intro!: older_writes older_invalidate)
next
  case (patch_user t u p)
  with assms(2) show ?thesis
    by (auto simp: patch_user_def Let_def intro!: older_writes older_invalidate)
next
  case (set_user t u v)
  with assms(2) show ?thesis
    by (auto simp: set_user_prefs_raw_def Let_def intro!: older_writes older_invalidate)
qed

lemma older_run: "shared_run env s s' \<Longrightarrow> fresh_or_older env s \<Longrightarrow> fresh_or_older env s'"
  by (induction rule: shared_run.induct)
     (auto intro: older_local_step older_writes elim!: remote_stepE)


section \<open>Properties\<close>


definition example_env :: environment where
  "example_env = \<lparr>var = (\<lambda>_. None), parse_f64 = (\<lambda>_. None)\<rparr>"

definition example_store :: settings_store where
  "example_store = \<lparr>system_settings = None, org_settings = (\<lambda>_. None),
     user_preferences = (\<lambda>_. None), cache = (\<lambda>_. None), now_ms = 0, reachable = True\<rparr>"

lemma dark_theme:
  "get_key (merge_and_clamp User user_defaults (JObj [(''theme'', JStr ''dark'')])) ''theme'' =
    Some (JStr ''dark'')"
  by (simp add: merge_and_clamp_def user_defaults_def)


text \<open>
  Several processes share the database but not the cache. After another process wrote a
  scope, a resolve here may still answer from the cache, but only until the entry's ten
  seconds are over: once ten seconds have passed since the last write of that scope, every
  resolve that answers gives the current value.
\<close>

theorem settings_fresh_after_ttl:
  assumes run: "shared_run env s0 s" and start: "cache s0 = (\<lambda>_. None)"
      "\<And>k u. last_write s0 k = Some u \<Longrightarrow> u \<le> now_ms s0"
    and old: "\<And>u. last_write s k = Some u \<Longrightarrow> u + CACHE_TTL \<le> now_ms s"
    and v: "fst (resolve env k s) = Some v"
  shows "v = effective env s k"
proof -
  have "fresh_or_older env s0"
    using start by (simp add: fresh_or_older_def)
  then have inv: "fresh_or_older env s"
    using older_run [OF run] by blast
  show ?thesis
  proof (cases "settings_cache_get s k")
    case None
    with v show ?thesis by (auto simp: resolve_eq split: if_splits)
  next
    case (Some w)
    then obtain e where e: "cache s k = Some e" "now_ms s - stored_at e < CACHE_TTL" "cached_values e = v"
      using v by (auto simp: resolve_eq settings_cache_get_def split: option.splits if_splits)
    then have "\<not> (\<exists>u. last_write s k = Some u \<and> stored_at e \<le> u)"
      using old by fastforce
    moreover have "cached_values e = effective env s k \<or> (\<exists>u. last_write s k = Some u \<and> stored_at e \<le> u)"
      using inv e(1) unfolding fresh_or_older_def by blast
    ultimately show ?thesis using e(3) by blast
  qed
qed

theorem settings_fresh_after_ttl_witness:
  "let s = (write_user 4 2 (JObj [(''theme'', JStr ''dark'')])
             (snd (resolve example_env (KUser 4 2) example_store)))\<lparr>now_ms := 10000\<rparr>
   in fst (resolve example_env (KUser 4 2) s) = Some (effective example_env s (KUser 4 2))
     \<and> get_key (effective example_env s (KUser 4 2)) ''theme'' = Some (JStr ''dark'')"
proof -
  let ?s1 = "snd (resolve example_env (KUser 4 2) example_store)"
  let ?s2 = "write_user 4 2 (JObj [(''theme'', JStr ''dark'')]) ?s1"
  let ?s = "?s2\<lparr>now_ms := 10000\<rparr>"
  have n: "now_ms ?s1 = 0" "cache ?s1 (KUser 4 2) = Some \<lparr>cached_values = user_defaults, stored_at = 0\<rparr>"
    by (simp_all add: resolve_eq settings_cache_get_def example_store_def store_updates
        user_overrides_def merge_and_clamp_def user_defaults_def)
  have "local_step example_env ?s2 (?s2\<lparr>now_ms := now_ms ?s2 + 10000\<rparr>)"
    by (rule local_step.tick)
  then have "local_step example_env ?s2 ?s"
    using n by simp
  then have run: "shared_run example_env example_store ?s"
    by (rule shared_run.intros(2) [OF shared_run.intros(3) [OF shared_run.intros(2)
            [OF shared_run.intros(1) local_step.resolve] remote_step.remote_user]])
  have lw: "last_write ?s (KUser 4 2) = Some 0"
    using n by (simp add: write_user_def)
  have miss: "settings_cache_get ?s (KUser 4 2) = None"
    using n by (simp add: settings_cache_get_def CACHE_TTL_def)
  have up: "reachable ?s"
    by (simp add: resolve_eq settings_cache_get_def example_store_def store_updates)
  have some: "fst (resolve example_env (KUser 4 2) ?s) = Some (effective example_env ?s (KUser 4 2))"
    using miss up by (simp add: resolve_eq)
  have w: "last_write example_store k = None" for k
    by (cases k) (simp_all add: example_store_def)
  have "effective example_env ?s (KUser 4 2) = effective example_env ?s (KUser 4 2)"
  proof (rule settings_fresh_after_ttl [OF run _ _ _ some])
    show "cache example_store = (\<lambda>_. None)" by (simp add: example_store_def)
    show "u \<le> now_ms example_store" if "last_write example_store k = Some u" for k u
      using that w by simp
    show "u + CACHE_TTL \<le> now_ms ?s" if "last_write ?s (KUser 4 2) = Some u" for u
      using that unfolding lw by (simp add: CACHE_TTL_def)
  qed
  moreover have "effective example_env ?s (KUser 4 2) =
      merge_and_clamp User user_defaults (JObj [(''theme'', JStr ''dark'')])"
    by (simp add: resolve_eq settings_cache_get_def example_store_def store_updates user_overrides_def)
  ultimately show ?thesis using some dark_theme by (simp add: Let_def)
qed

text \<open>
  A tenant's patch is read back by the next resolve, through the cache: the answer is
  the defaults overlaid with the patched overrides, clamped; the bundle it returned says the
  same; no other tenant's row and no user's row changes.
\<close>

theorem patch_org_read_back:
  assumes "reachable s" and "patch_org env t p name logo s = (Some b, s')"
  shows "fst (resolve_org env t s') = Some (bundle_settings b)
    \<and> bundle_settings b = merge_and_clamp Org (org_defaults env) (apply_patch (row_overrides (org_row t s)) p)
    \<and> (\<forall>t'. t' \<noteq> t \<longrightarrow> org_row t' s' = org_row t' s)
    \<and> user_preferences s' = user_preferences s \<and> system_settings s' = system_settings s"
  using assms
  by (auto simp: patch_org_def Let_def resolve_org_def cache_get_invalidate org_row_def
      settings_cache_invalidate_def write_org_def settings_cache_get_def)

theorem patch_org_read_back_witness:
  "let s' = snd (patch_org example_env 7 (JObj [(''rerank'', JStr ''cohere'')]) None None example_store)
   in \<exists>v. fst (resolve_org example_env 7 s') = Some v \<and> org_row 8 s' = org_row 8 example_store"
proof -
  let ?p = "patch_org example_env 7 (JObj [(''rerank'', JStr ''cohere'')]) None None example_store"
  obtain b s' where b: "?p = (Some b, s')"
    by (simp add: patch_org_def example_store_def Let_def)
  have "reachable example_store" by (simp add: example_store_def)
  from patch_org_read_back [OF this b] show ?thesis
    using b by (simp add: Let_def)
qed

end
