(* ===== verification/Tenancy.thy ===== *)
theory Tenancy
  imports Prelude "HOL-Library.AList"
begin

text \<open>
  \<open>insight-core/src/tenancy.rs\<close>: tenants, users, invitations and device sessions. A table is
  the list of its rows in insertion order; each SQL statement of the source is an operation
  on it, and a row-level-security scope is a filter on the tenant column (a statement under
  \<open>set_tenant\<close> sees and writes only that tenant's rows, as the policies of the migrations
  say). Unique indexes are checks that make an insert fail. A transaction that fails leaves
  the state unchanged. \<open>fresh\<close> is the supply of new identifiers, \<open>db_now\<close> the clock in seconds.
  Argon2 is a parameter: \<open>hash_pw salt password\<close> and \<open>verify_pw password hash\<close>, with
  \<open>argon2_ok\<close> the documented relation between them.
\<close>

section \<open>Roles\<close>

definition APP_ROLES :: "string list" where
  "APP_ROLES = [''viewer'', ''editor'', ''admin'', ''owner'']"

definition INVITABLE_ROLES :: "string list" where
  "INVITABLE_ROLES = [''admin'', ''editor'', ''viewer'']"

definition normalize_role :: "string \<Rightarrow> string" where
  "normalize_role role =
     (let first = ascii_lowercase (trim (hd (split_on CHR '','' role)))
      in if first = ''owner'' then ''owner''
         else if first = ''admin'' then ''admin''
         else if first = ''editor'' then ''editor''
         else ''viewer'')"

definition role_rank :: "string \<Rightarrow> nat" where
  "role_rank role =
     (let r = normalize_role role
      in if r = ''owner'' then 3 else if r = ''admin'' then 2 else if r = ''editor'' then 1 else 0)"

section \<open>Tables\<close>

record tenant =
  tenant_key :: uuid
  tenant_kind :: string
  tenant_name :: string
  plan :: string
  suspended :: bool

record user =
  user_key :: uuid
  user_tenant :: uuid
  email :: string
  user_name :: "string option"
  role :: string
  password_hash :: "string option"
  status :: string
  platform_role :: string

record invitation =
  invite_key :: uuid
  invite_tenant :: uuid
  invite_email :: string
  invite_role :: string
  invite_status :: string
  invited_by :: uuid
  invite_expires :: int
  invite_created :: int

record session =
  sid :: uuid
  session_tenant :: uuid
  session_user :: uuid
  current_jti :: uuid
  user_agent :: "string option"
  ip_address :: "string option"
  last_seen_at :: int
  expires_at :: int
  revoked_at :: "int option"

record tenancy_db =
  tenants :: "tenant list"
  users :: "user list"
  invitations :: "invitation list"
  sessions :: "session list"
  fresh :: uuid
  db_now :: int

datatype sign_up_error = EmailTaken

record identity =
  id_user :: user
  id_tenant :: tenant

type_synonym hash_fn = "nat \<Rightarrow> string \<Rightarrow> string"
type_synonym verify_fn = "string \<Rightarrow> string \<Rightarrow> bool option"

text \<open>Documented behaviour of Argon2: a hash verifies against its own password only.\<close>

definition argon2_ok :: "hash_fn \<Rightarrow> verify_fn \<Rightarrow> bool" where
  "argon2_ok hash_pw verify_pw =
    (\<forall>salt pw pw'. verify_pw pw' (hash_pw salt pw) = Some (pw' = pw))"

definition update_where :: "('r \<Rightarrow> bool) \<Rightarrow> ('r \<Rightarrow> 'r) \<Rightarrow> 'r list \<Rightarrow> 'r list" where
  "update_where P f rows = map (\<lambda>r. if P r then f r else r) rows"

definition clean_email :: "string \<Rightarrow> string" where
  "clean_email s = lowercase (trim s)"

text \<open>The two unique indexes of the users table.\<close>

definition email_taken :: "user list \<Rightarrow> uuid \<Rightarrow> string \<Rightarrow> bool" where
  "email_taken us tenant mail =
    (\<exists>u \<in> set us. (user_tenant u = tenant \<and> email u = mail)
       \<or> (password_hash u \<noteq> None \<and> lowercase (email u) = lowercase mail))"

definition new_user :: "uuid \<Rightarrow> uuid \<Rightarrow> string \<Rightarrow> string \<Rightarrow> string \<Rightarrow> string \<Rightarrow> user" where
  "new_user key tenant mail nm rl hash =
    \<lparr>user_key = key, user_tenant = tenant, email = mail, user_name = Some nm, role = rl,
     password_hash = Some hash, status = ''active'', platform_role = ''user''\<rparr>"

section \<open>Sign-up and sign-in\<close>

definition sign_up ::
  "hash_fn \<Rightarrow> nat \<Rightarrow> string \<Rightarrow> string \<Rightarrow> string \<Rightarrow> tenancy_db
    \<Rightarrow> (sign_up_error + identity) \<times> tenancy_db" where
  "sign_up hash_pw salt mail password nm db =
     (let mail = clean_email mail;
          t = \<lparr>tenant_key = fresh db, tenant_kind = ''user'', tenant_name = nm, plan = ''free'',
               suspended = False\<rparr>;
          u = new_user (fresh db + 1) (tenant_key t) mail nm ''owner'' (hash_pw salt password)
      in if email_taken (users db) (tenant_key t) mail then (Inl EmailTaken, db)
         else (Inr \<lparr>id_user = u, id_tenant = t\<rparr>,
               db\<lparr>tenants := tenants db @ [t], users := users db @ [u], fresh := fresh db + 2\<rparr>))"

definition get_tenant :: "uuid \<Rightarrow> tenancy_db \<Rightarrow> tenant option" where
  "get_tenant key db = find (\<lambda>t. tenant_key t = key) (tenants db)"

definition fetch_user_for_auth :: "string \<Rightarrow> tenancy_db \<Rightarrow> (user \<times> string option) option" where
  "fetch_user_for_auth mail db =
     map_option (\<lambda>u. (u, password_hash u))
       (find (\<lambda>u. email u = mail \<and> password_hash u \<noteq> None) (users db))"

text \<open>\<open>None\<close> is an internal error: an unreadable hash or a missing tenant row.\<close>

definition verify_credentials ::
  "verify_fn \<Rightarrow> string \<Rightarrow> string \<Rightarrow> tenancy_db \<Rightarrow> identity option option" where
  "verify_credentials verify_pw mail password db =
     (case fetch_user_for_auth (clean_email mail) db of
        None \<Rightarrow> Some None
      | Some (u, None) \<Rightarrow> Some None
      | Some (u, Some hash) \<Rightarrow>
          (case verify_pw password hash of
             None \<Rightarrow> None
           | Some False \<Rightarrow> Some None
           | Some True \<Rightarrow> (case get_tenant (user_tenant u) db of
               None \<Rightarrow> None
             | Some t \<Rightarrow> Some (Some \<lparr>id_user = u, id_tenant = t\<rparr>))))"

definition get_user :: "uuid \<Rightarrow> uuid \<Rightarrow> tenancy_db \<Rightarrow> user option" where
  "get_user tenant key db = find (\<lambda>u. user_tenant u = tenant \<and> user_key u = key) (users db)"

definition get_platform_role :: "uuid \<Rightarrow> uuid \<Rightarrow> tenancy_db \<Rightarrow> string option" where
  "get_platform_role tenant key db = map_option platform_role (get_user tenant key db)"

section \<open>Invitations\<close>

definition pending_for :: "uuid \<Rightarrow> string \<Rightarrow> invitation \<Rightarrow> bool" where
  "pending_for tenant mail i =
    (invite_tenant i = tenant \<and> lowercase (invite_email i) = lowercase mail \<and> invite_status i = ''pending'')"

text \<open>\<open>ORDER BY created_at DESC\<close>: a stable insertion sort, newest first.\<close>

definition newest_first :: "invitation list \<Rightarrow> invitation list" where
  "newest_first is = sort_key (\<lambda>i. - invite_created i) is"

definition list_invitations :: "uuid \<Rightarrow> tenancy_db \<Rightarrow> invitation list" where
  "list_invitations tenant db =
     newest_first (filter (\<lambda>i. invite_tenant i = tenant \<and> invite_status i = ''pending'') (invitations db))"

definition create_invitation ::
  "uuid \<Rightarrow> string \<Rightarrow> string \<Rightarrow> uuid \<Rightarrow> int \<Rightarrow> tenancy_db \<Rightarrow> invitation \<times> tenancy_db" where
  "create_invitation tenant mail rl by_user ttl_secs db =
     (let mail = clean_email mail;
          rl = normalize_role rl;
          rl = (if rl \<in> set INVITABLE_ROLES then rl else ''viewer'');
          expires = db_now db + ttl_secs
      in case find (pending_for tenant mail) (invitations db) of
           Some i \<Rightarrow>
             (let i' = i\<lparr>invite_role := rl, invite_expires := expires, invited_by := by_user\<rparr>
              in (i', db\<lparr>invitations := update_where (pending_for tenant mail)
                    (\<lambda>i. i\<lparr>invite_role := rl, invite_expires := expires, invited_by := by_user\<rparr>)
                    (invitations db)\<rparr>))
         | None \<Rightarrow>
             (let i = \<lparr>invite_key = fresh db, invite_tenant = tenant, invite_email = mail,
                       invite_role = rl, invite_status = ''pending'', invited_by = by_user,
                       invite_expires = expires, invite_created = db_now db\<rparr>
              in (i, db\<lparr>invitations := invitations db @ [i], fresh := fresh db + 1\<rparr>)))"

definition cancel_invitation :: "uuid \<Rightarrow> uuid \<Rightarrow> tenancy_db \<Rightarrow> bool \<times> tenancy_db" where
  "cancel_invitation tenant key db =
     (let hit = (\<lambda>i. invite_tenant i = tenant \<and> invite_key i = key \<and> invite_status i = ''pending'')
      in (list_ex hit (invitations db),
          db\<lparr>invitations := update_where hit (\<lambda>i. i\<lparr>invite_status := ''canceled''\<rparr>) (invitations db)\<rparr>))"

definition redeemable :: "string \<Rightarrow> tenancy_db \<Rightarrow> invitation list" where
  "redeemable mail db = newest_first
     (filter (\<lambda>i. invite_status i = ''pending'' \<and> invite_email i = mail \<and> db_now db < invite_expires i)
        (invitations db))"

definition sign_up_with_invite ::
  "hash_fn \<Rightarrow> nat \<Rightarrow> string \<Rightarrow> string \<Rightarrow> string \<Rightarrow> tenancy_db
    \<Rightarrow> (sign_up_error + identity) option \<times> tenancy_db" where
  "sign_up_with_invite hash_pw salt mail password nm db =
     (let mail = clean_email mail
      in case redeemable mail db of
           [] \<Rightarrow> (case sign_up hash_pw salt mail password nm db of (r, db') \<Rightarrow> (Some r, db'))
         | i # _ \<Rightarrow>
             (let t = invite_tenant i;
                  u = new_user (fresh db) t mail nm (normalize_role (invite_role i)) (hash_pw salt password)
              in if email_taken (users db) t mail then (Some (Inl EmailTaken), db)
                 else case get_tenant t db of
                   None \<Rightarrow> (None, db)
                 | Some tn \<Rightarrow>
                     (Some (Inr \<lparr>id_user = u, id_tenant = tn\<rparr>),
                      db\<lparr>users := users db @ [u], fresh := fresh db + 1,
                         invitations := update_where
                           (\<lambda>j. invite_tenant j = t \<and> invite_key j = invite_key i)
                           (\<lambda>j. j\<lparr>invite_status := ''accepted''\<rparr>) (invitations db)\<rparr>)))"

section \<open>Administration\<close>

definition update_user ::
  "uuid \<Rightarrow> uuid \<Rightarrow> string option \<Rightarrow> string option \<Rightarrow> tenancy_db
    \<Rightarrow> (string \<times> string) option \<times> tenancy_db" where
  "update_user tenant key rl st db =
     (let hit = (\<lambda>u. user_tenant u = tenant \<and> user_key u = key);
          us = (case rl of None \<Rightarrow> users db
                | Some r \<Rightarrow> update_where hit (\<lambda>u. u\<lparr>role := normalize_role r\<rparr>) (users db));
          us = (case st of None \<Rightarrow> us
                | Some s \<Rightarrow> update_where hit (\<lambda>u. u\<lparr>status := s\<rparr>) us)
      in (map_option (\<lambda>u. (role u, status u)) (find hit us), db\<lparr>users := us\<rparr>))"

text \<open>
  Giving a password to a row can hit the unique index on password e-mails; the statement
  then fails (\<open>None\<close>) and nothing changes.
\<close>

definition set_user_password ::
  "hash_fn \<Rightarrow> nat \<Rightarrow> uuid \<Rightarrow> uuid \<Rightarrow> string \<Rightarrow> tenancy_db \<Rightarrow> bool option \<times> tenancy_db" where
  "set_user_password hash_pw salt tenant key password db =
     (let hit = (\<lambda>u. user_tenant u = tenant \<and> user_key u = key)
      in if list_ex (\<lambda>u. hit u \<and> list_ex (\<lambda>v. user_key v \<noteq> key \<and> password_hash v \<noteq> None
                 \<and> lowercase (email v) = lowercase (email u)) (users db)) (users db)
         then (None, db)
         else (Some (list_ex hit (users db)),
          db\<lparr>users := update_where hit (\<lambda>u. u\<lparr>password_hash := Some (hash_pw salt password)\<rparr>) (users db)\<rparr>))"

section \<open>Device sessions\<close>

definition insert_session ::
  "uuid \<Rightarrow> uuid \<Rightarrow> uuid \<Rightarrow> uuid \<Rightarrow> string option \<Rightarrow> string option \<Rightarrow> int \<Rightarrow> tenancy_db \<Rightarrow> tenancy_db" where
  "insert_session tenant s user jti agent ip expires db =
     db\<lparr>sessions := sessions db @ [\<lparr>sid = s, session_tenant = tenant, session_user = user,
        current_jti = jti, user_agent = agent, ip_address = ip, last_seen_at = db_now db,
        expires_at = expires, revoked_at = None\<rparr>]\<rparr>"

definition live_session :: "uuid \<Rightarrow> uuid \<Rightarrow> session \<Rightarrow> bool" where
  "live_session tenant s r = (session_tenant r = tenant \<and> sid r = s \<and> revoked_at r = None)"

definition touch_session :: "uuid \<Rightarrow> uuid \<Rightarrow> uuid \<Rightarrow> tenancy_db \<Rightarrow> bool \<times> tenancy_db" where
  "touch_session tenant s jti db =
     (list_ex (live_session tenant s) (sessions db),
      db\<lparr>sessions := update_where (live_session tenant s)
        (\<lambda>r. r\<lparr>current_jti := jti, last_seen_at := db_now db\<rparr>) (sessions db)\<rparr>)"

definition list_sessions :: "uuid \<Rightarrow> uuid \<Rightarrow> tenancy_db \<Rightarrow> session list" where
  "list_sessions tenant user db = sort_key (\<lambda>r. - last_seen_at r)
     (filter (\<lambda>r. session_tenant r = tenant \<and> session_user r = user \<and> revoked_at r = None
        \<and> db_now db < expires_at r) (sessions db))"

definition revoke_session :: "uuid \<Rightarrow> uuid \<Rightarrow> tenancy_db \<Rightarrow> uuid option \<times> tenancy_db" where
  "revoke_session tenant s db =
     (map_option current_jti (find (live_session tenant s) (sessions db)),
      db\<lparr>sessions := update_where (live_session tenant s)
        (\<lambda>r. r\<lparr>revoked_at := Some (db_now db)\<rparr>) (sessions db)\<rparr>)"

definition revoke_other_sessions ::
  "uuid \<Rightarrow> uuid \<Rightarrow> uuid option \<Rightarrow> tenancy_db \<Rightarrow> uuid list \<times> tenancy_db" where
  "revoke_other_sessions tenant user keep db =
     (let hit = (\<lambda>r. session_tenant r = tenant \<and> session_user r = user \<and> revoked_at r = None
            \<and> (case keep of None \<Rightarrow> True | Some k \<Rightarrow> sid r \<noteq> k))
      in (map current_jti (filter hit (sessions db)),
          db\<lparr>sessions := update_where hit (\<lambda>r. r\<lparr>revoked_at := Some (db_now db)\<rparr>) (sessions db)\<rparr>))"


section \<open>Roles: facts\<close>

lemma normalize_role_in: "normalize_role r \<in> {''owner'', ''admin'', ''editor'', ''viewer''}"
  by (simp add: normalize_role_def Let_def)

lemma normalize_role_fixed [simp]:
  "normalize_role ''owner'' = ''owner''" "normalize_role ''admin'' = ''admin''"
  "normalize_role ''editor'' = ''editor''" "normalize_role ''viewer'' = ''viewer''"
  by code_simp+

lemma normalize_role_idem [simp]: "normalize_role (normalize_role r) = normalize_role r"
  using normalize_role_in [of r] by auto

lemma role_rank_normalize [simp]: "role_rank (normalize_role r) = role_rank r"
  by (simp add: role_rank_def)

lemma role_rank_simps [simp]:
  "role_rank ''owner'' = 3" "role_rank ''admin'' = 2" "role_rank ''editor'' = 1" "role_rank ''viewer'' = 0"
  by (simp_all add: role_rank_def)

lemma role_rank_iff:
  "role_rank r = 3 \<longleftrightarrow> normalize_role r = ''owner''"
  "2 \<le> role_rank r \<longleftrightarrow> normalize_role r \<in> {''admin'', ''owner''}"
  "1 \<le> role_rank r \<longleftrightarrow> normalize_role r \<noteq> ''viewer''"
  using normalize_role_in [of r] by (auto simp: role_rank_def Let_def)

section \<open>Tables: facts\<close>

lemma update_where_simps [simp]:
  "update_where P f [] = []"
  "update_where P f (r # rs) = (if P r then f r else r) # update_where P f rs"
  by (simp_all add: update_where_def)

lemma set_update_where: "x \<in> set (update_where P f rows) \<longleftrightarrow>
    (\<exists>r \<in> set rows. x = (if P r then f r else r))"
  by (auto simp: update_where_def)

lemma update_where_hit:
  "x \<in> set (update_where P f rows) \<Longrightarrow> P x \<Longrightarrow> \<exists>r \<in> set rows. P r \<and> x = f r"
  by (auto simp: update_where_def split: if_splits)

lemma map_update_where: "(\<And>r. g (f r) = g r) \<Longrightarrow> map g (update_where P f rows) = map g rows"
  by (induction rows) auto

lemma filter_update_where_subset:
  assumes "\<And>r. g (f r) = g r" "\<And>r. r \<in> set rows \<Longrightarrow> P r \<Longrightarrow> Q (f r) \<Longrightarrow> Q r"
  shows "set (map g (filter Q (update_where P f rows))) \<subseteq> set (map g (filter Q rows))"
  using assms by (fastforce simp: update_where_def)

lemma distinct_filter_update_where:
  assumes "distinct (map g (filter Q rows))" "\<And>r. g (f r) = g r"
    "\<And>r. r \<in> set rows \<Longrightarrow> P r \<Longrightarrow> Q (f r) \<Longrightarrow> Q r"
  shows "distinct (map g (filter Q (update_where P f rows)))"
  using assms
proof (induction rows)
  case (Cons r rs)
  have IH: "distinct (map g (filter Q (update_where P f rs)))"
    using Cons by (auto split: if_splits)
  have "g r \<notin> set (map g (filter Q (update_where P f rs)))" if "Q r"
    using Cons.prems filter_update_where_subset [of g f rs P Q] that by auto
  moreover have "Q r" if "P r" "Q (f r)"
    using Cons.prems(3) that by simp
  ultimately show ?case
    using IH Cons.prems(2) by auto
qed simp

lemma find_Some_iff_first: "find P xs = Some x \<Longrightarrow> x \<in> set xs \<and> P x"
  by (auto simp: find_Some_iff)

lemma find_exists: "\<exists>x \<in> set xs. P x \<Longrightarrow> \<exists>v. find P xs = Some v"
  by (induction xs) auto

lemma find_None_all: "find P xs = None \<Longrightarrow> x \<in> set xs \<Longrightarrow> \<not> P x"
  by (auto simp: find_None_iff)

section \<open>Invariant\<close>

definition password_emails :: "user list \<Rightarrow> string list" where
  "password_emails us = map (\<lambda>u. lowercase (email u)) (filter (\<lambda>u. password_hash u \<noteq> None) us)"

definition pending_keys :: "invitation list \<Rightarrow> (uuid \<times> string) list" where
  "pending_keys is = map (\<lambda>i. (invite_tenant i, lowercase (invite_email i)))
     (filter (\<lambda>i. invite_status i = ''pending'') is)"

definition users_ok :: "uuid set \<Rightarrow> uuid \<Rightarrow> user list \<Rightarrow> bool" where
  "users_ok T n us =
    ((\<forall>u \<in> set us. user_key u < n \<and> user_tenant u \<in> T)
   \<and> distinct (map user_key us) \<and> distinct (password_emails us))"

definition invites_ok :: "uuid set \<Rightarrow> invitation list \<Rightarrow> bool" where
  "invites_ok T is =
    ((\<forall>i \<in> set is. invite_role i \<in> set INVITABLE_ROLES \<and> invite_tenant i \<in> T)
   \<and> distinct (pending_keys is))"

definition tenant_keys :: "tenancy_db \<Rightarrow> uuid set" where
  "tenant_keys db = tenant_key ` set (tenants db)"

definition tenancy_inv :: "tenancy_db \<Rightarrow> bool" where
  "tenancy_inv db =
    ((\<forall>t \<in> tenant_keys db. t < fresh db)
   \<and> users_ok (tenant_keys db) (fresh db) (users db)
   \<and> invites_ok (tenant_keys db) (invitations db))"

inductive tenancy_step :: "hash_fn \<Rightarrow> tenancy_db \<Rightarrow> tenancy_db \<Rightarrow> bool"
  for hash_pw :: hash_fn where
  sign_up: "tenancy_step hash_pw db (snd (sign_up_with_invite hash_pw salt mail pw nm db))"
| invite: "t \<in> tenant_keys db \<Longrightarrow>
    tenancy_step hash_pw db (snd (create_invitation t mail rl who ttl db))"
| cancel: "tenancy_step hash_pw db (snd (cancel_invitation t key db))"
| update: "tenancy_step hash_pw db (snd (update_user t key rl st db))"
| reset: "tenancy_step hash_pw db (snd (set_user_password hash_pw salt t key pw db))"
| start: "tenancy_step hash_pw db (insert_session t s u j agent ip expires db)"
| touch: "tenancy_step hash_pw db (snd (touch_session t s j db))"
| revoke: "tenancy_step hash_pw db (snd (revoke_session t s db))"
| revoke_others: "tenancy_step hash_pw db (snd (revoke_other_sessions t u keep db))"
| clock: "0 \<le> d \<Longrightarrow> tenancy_step hash_pw db (db\<lparr>db_now := db_now db + d\<rparr>)"

inductive tenancy_run :: "hash_fn \<Rightarrow> tenancy_db \<Rightarrow> tenancy_db \<Rightarrow> bool"
  for hash_pw :: hash_fn where
  "tenancy_run hash_pw db db"
| "tenancy_run hash_pw db db' \<Longrightarrow> tenancy_step hash_pw db' db'' \<Longrightarrow> tenancy_run hash_pw db db''"

inductive_cases tenancy_stepE: "tenancy_step hash_pw db db'"

lemma lowercase_clean [simp]: "lowercase (clean_email m) = clean_email m"
  by (simp add: clean_email_def lowercase_idem)

lemma users_ok_mono: "users_ok T n us \<Longrightarrow> T \<subseteq> T' \<Longrightarrow> n \<le> n' \<Longrightarrow> users_ok T' n' us"
  unfolding users_ok_def by (meson less_le_trans subsetD)

lemma invites_ok_mono: "invites_ok T is \<Longrightarrow> T \<subseteq> T' \<Longrightarrow> invites_ok T' is"
  unfolding invites_ok_def by blast

lemma users_ok_snoc:
  assumes ok: "users_ok T n us" and new: "\<not> email_taken us t mail" "n \<le> k" "k < n'" "t \<in> T"
  shows "users_ok T n' (us @ [new_user k t mail nm rl h])"
proof -
  have "distinct (password_emails (us @ [new_user k t mail nm rl h]))"
    using ok new(1) by (auto simp: users_ok_def password_emails_def email_taken_def new_user_def)
  moreover have "k \<notin> set (map user_key us)"
    using ok new(2) by (auto simp: users_ok_def)
  ultimately show ?thesis
    using ok new by (auto simp: users_ok_def new_user_def)
qed

lemma users_ok_update:
  assumes ok: "users_ok T n us"
    and keep: "\<And>u. user_key (f u) = user_key u" "\<And>u. user_tenant (f u) = user_tenant u"
      "\<And>u. email (f u) = email u" "\<And>u. password_hash (f u) = password_hash u"
  shows "users_ok T n (update_where P f us)"
  using ok unfolding users_ok_def password_emails_def
  by (auto simp: set_update_where map_update_where keep intro!: distinct_filter_update_where)

lemma invites_ok_snoc:
  assumes "invites_ok T is" "invite_tenant i \<in> T" "invite_role i \<in> set INVITABLE_ROLES"
    "find (pending_for (invite_tenant i) (invite_email i)) is = None"
  shows "invites_ok T (is @ [i])"
  using assms find_None_all [OF assms(4)]
  by (auto simp: invites_ok_def pending_keys_def pending_for_def)

lemma invites_ok_update:
  assumes ok: "invites_ok T is"
    and keep: "\<And>i. invite_tenant (f i) = invite_tenant i" "\<And>i. invite_email (f i) = invite_email i"
    and step: "\<And>i. i \<in> set is \<Longrightarrow> P i \<Longrightarrow> invite_status (f i) = ''pending'' \<Longrightarrow> invite_status i = ''pending''"
    and role: "\<And>i. i \<in> set is \<Longrightarrow> P i \<Longrightarrow> invite_role (f i) \<in> set INVITABLE_ROLES"
  shows "invites_ok T (update_where P f is)"
  using ok role unfolding invites_ok_def pending_keys_def
  by (auto simp: set_update_where keep step intro!: distinct_filter_update_where)

lemma invite_role_ok: "(if normalize_role r \<in> set INVITABLE_ROLES then normalize_role r else ''viewer'')
    \<in> set INVITABLE_ROLES"
  by (simp add: INVITABLE_ROLES_def)

lemma sign_up_inv:
  assumes "tenancy_inv db"
  shows "tenancy_inv (snd (sign_up hash_pw salt mail pw nm db))"
proof (cases "email_taken (users db) (fresh db) (clean_email mail)")
  case False
  let ?T = "insert (fresh db) (tenant_keys db)"
  have "users_ok ?T (fresh db) (users db)" "invites_ok ?T (invitations db)"
    using assms by (auto simp: tenancy_inv_def intro: users_ok_mono invites_ok_mono)
  then have "users_ok ?T (fresh db + 2) (users db @
      [new_user (fresh db + 1) (fresh db) (clean_email mail) nm ''owner'' (hash_pw salt pw)])"
    using False by (intro users_ok_snoc [where n = "fresh db"]) auto
  with assms False \<open>invites_ok ?T (invitations db)\<close> show ?thesis
    by (auto simp: tenancy_inv_def sign_up_def Let_def tenant_keys_def)
qed (use assms in \<open>simp add: sign_up_def Let_def\<close>)

lemma redeemable_head:
  "redeemable mail db = i # is \<Longrightarrow> i \<in> set (invitations db) \<and> invite_status i = ''pending''
     \<and> invite_email i = mail \<and> db_now db < invite_expires i"
proof -
  assume "redeemable mail db = i # is"
  then have "i \<in> set (redeemable mail db)" by simp
  then show ?thesis by (auto simp: redeemable_def newest_first_def)
qed

lemma sign_up_with_invite_inv:
  assumes inv: "tenancy_inv db"
  shows "tenancy_inv (snd (sign_up_with_invite hash_pw salt mail pw nm db))"
proof (cases "redeemable (clean_email mail) db")
  case Nil
  then show ?thesis
    using sign_up_inv [OF inv, of hash_pw salt "clean_email mail" pw nm]
    by (simp add: sign_up_with_invite_def Let_def case_prod_beta)
next
  case (Cons i "is")
  let ?u = "new_user (fresh db) (invite_tenant i) (clean_email mail) nm (normalize_role (invite_role i)) (hash_pw salt pw)"
  have i: "invite_tenant i \<in> tenant_keys db"
    using redeemable_head [OF Cons] inv by (auto simp: tenancy_inv_def invites_ok_def)
  have "users_ok (tenant_keys db) (fresh db + 1) (users db @ [?u])"
    if "\<not> email_taken (users db) (invite_tenant i) (clean_email mail)"
    using inv that i by (intro users_ok_snoc [where n = "fresh db"]) (auto simp: tenancy_inv_def)
  moreover have "invites_ok (tenant_keys db) (update_where
      (\<lambda>j. invite_tenant j = invite_tenant i \<and> invite_key j = invite_key i)
      (\<lambda>j. j\<lparr>invite_status := ''accepted''\<rparr>) (invitations db))"
    using inv by (intro invites_ok_update) (auto simp: tenancy_inv_def invites_ok_def)
  ultimately show ?thesis
    using inv Cons
    by (auto simp: sign_up_with_invite_def Let_def tenancy_inv_def tenant_keys_def less_Suc_eq
        split: option.split)
qed

lemma create_invitation_inv:
  assumes inv: "tenancy_inv db" and t: "t \<in> tenant_keys db"
  shows "tenancy_inv (snd (create_invitation t mail rl who ttl db))"
proof -
  let ?rl = "if normalize_role rl \<in> set INVITABLE_ROLES then normalize_role rl else ''viewer''"
  have "invites_ok (tenant_keys db) (update_where (pending_for t (clean_email mail))
      (\<lambda>i. i\<lparr>invite_role := ?rl, invite_expires := db_now db + ttl, invited_by := who\<rparr>) (invitations db))"
    using inv invite_role_ok [of rl]
    by (intro invites_ok_update) (auto simp: tenancy_inv_def pending_for_def)
  moreover have "invites_ok (tenant_keys db) (invitations db @ [\<lparr>invite_key = fresh db,
      invite_tenant = t, invite_email = clean_email mail, invite_role = ?rl,
      invite_status = ''pending'', invited_by = who, invite_expires = db_now db + ttl,
      invite_created = db_now db\<rparr>])"
    if "find (pending_for t (clean_email mail)) (invitations db) = None"
    using inv t that invite_role_ok [of rl]
    by (intro invites_ok_snoc) (auto simp: tenancy_inv_def)
  ultimately show ?thesis
    using inv by (auto simp: create_invitation_def Let_def tenancy_inv_def tenant_keys_def
        intro: users_ok_mono less_SucI split: option.split)
qed


lemma set_user_password_inv:
  assumes inv: "tenancy_inv db"
  shows "tenancy_inv (snd (set_user_password hash_pw salt t key pw db))"
proof -
  let ?hit = "\<lambda>u. user_tenant u = t \<and> user_key u = key"
  let ?f = "\<lambda>u. u\<lparr>password_hash := Some (hash_pw salt pw)\<rparr>"
  have free: "distinct (password_emails (update_where ?hit ?f us))"
    if "distinct (password_emails us)" "distinct (map user_key us)"
      "\<And>u v. u \<in> set us \<Longrightarrow> ?hit u \<Longrightarrow> v \<in> set us \<Longrightarrow> user_key v \<noteq> key \<Longrightarrow> password_hash v \<noteq> None
        \<Longrightarrow> lowercase (email v) \<noteq> lowercase (email u)" for us
    using that
  proof (induction us)
    case (Cons u us)
    have IH: "distinct (password_emails (update_where ?hit ?f us))"
      using Cons by (auto simp: password_emails_def split: if_splits)
    have keys: "user_key v \<noteq> user_key u" if "v \<in> set us" for v
      using Cons.prems(2) that by (auto simp: image_iff)
    have "lowercase (email u) \<notin> set (password_emails (update_where ?hit ?f us))"
      if pw: "?hit u \<or> password_hash u \<noteq> None"
    proof
      assume "lowercase (email u) \<in> set (password_emails (update_where ?hit ?f us))"
      then obtain v where v: "v \<in> set us" "lowercase (email v) = lowercase (email u)"
        "?hit v \<or> password_hash v \<noteq> None"
        by (auto simp: password_emails_def set_update_where split: if_splits)
      show False
      proof (cases "?hit u")
        case True
        with keys v have "user_key v \<noteq> key" by auto
        with True v Cons.prems(3) [of u v] show False by auto
      next
        case nohit: False
        from pw nohit have u: "password_hash u \<noteq> None" by blast
        show False
        proof (cases "?hit v")
          case True
          with keys [OF v(1)] u v Cons.prems(3) [of v u] show False by auto
        next
          case False
          with v have "lowercase (email v) \<in> set (password_emails us)"
            unfolding password_emails_def set_map set_filter by blast
          with u v Cons.prems(1) show False
            by (simp add: password_emails_def)
        qed
      qed
    qed
    with IH show ?case
      by (cases "?hit u") (auto simp: password_emails_def)
  qed (simp add: password_emails_def)
  show ?thesis
  proof (cases "fst (set_user_password hash_pw salt t key pw db)")
    case None
    with inv show ?thesis
      by (auto simp: set_user_password_def Let_def split: if_splits)
  next
    case (Some b)
    then have "\<not> list_ex (\<lambda>u. ?hit u \<and> list_ex (\<lambda>v. user_key v \<noteq> key \<and> password_hash v \<noteq> None
                 \<and> lowercase (email v) = lowercase (email u)) (users db)) (users db)"
      by (simp add: set_user_password_def Let_def split: if_splits)
    then have "lowercase (email v) \<noteq> lowercase (email u)" if "u \<in> set (users db)" "?hit u"
      "v \<in> set (users db)" "user_key v \<noteq> key" "password_hash v \<noteq> None" for u v
      using that unfolding list_ex_iff by blast
    then have "distinct (password_emails (update_where ?hit ?f (users db)))"
      using inv by (intro free) (auto simp: tenancy_inv_def users_ok_def)
    with inv Some show ?thesis
      by (auto simp: tenancy_inv_def set_user_password_def Let_def users_ok_def tenant_keys_def
          set_update_where map_update_where split: if_splits)
  qed
qed

lemma update_user_inv:
  "tenancy_inv db \<Longrightarrow> tenancy_inv (snd (update_user t key rl st db))"
  unfolding tenancy_inv_def update_user_def Let_def
  by (auto simp: tenant_keys_def intro!: users_ok_update split: option.split)

lemma cancel_inv:
  assumes "tenancy_inv db"
  shows "tenancy_inv (snd (cancel_invitation t key db))"
proof -
  have "invites_ok (tenant_keys db) (update_where
      (\<lambda>i. invite_tenant i = t \<and> invite_key i = key \<and> invite_status i = ''pending'')
      (\<lambda>i. i\<lparr>invite_status := ''canceled''\<rparr>) (invitations db))"
    using assms by (intro invites_ok_update) (auto simp: tenancy_inv_def invites_ok_def)
  with assms show ?thesis
    by (simp add: tenancy_inv_def cancel_invitation_def Let_def tenant_keys_def)
qed

lemma tenancy_step_inv [il_inv]:
  assumes "tenancy_step hash_pw db db'" "tenancy_inv db"
  shows "tenancy_inv db'"
  using assms
  by (cases rule: tenancy_step.cases)
     (simp_all add: sign_up_with_invite_inv create_invitation_inv cancel_inv update_user_inv
        set_user_password_inv,
      auto simp: tenancy_inv_def tenant_keys_def insert_session_def touch_session_def
        revoke_session_def revoke_other_sessions_def Let_def)

lemma tenancy_run_inv: "tenancy_run hash_pw db db' \<Longrightarrow> tenancy_inv db \<Longrightarrow> tenancy_inv db'"
  by (induction rule: tenancy_run.induct) (auto intro: il_inv)

definition empty_db :: tenancy_db where
  "empty_db = \<lparr>tenants = [], users = [], invitations = [], sessions = [], fresh = 1, db_now = 0\<rparr>"

lemma empty_db_inv: "tenancy_inv empty_db"
  by (simp add: tenancy_inv_def empty_db_def tenant_keys_def users_ok_def invites_ok_def
      password_emails_def pending_keys_def)

section \<open>Properties\<close>

text \<open>
  C16. In every state reachable from an empty database by sign-ups, invitations,
  administration and session traffic: no two password accounts share an e-mail address,
  whatever its case; a tenant has at most one pending invitation per address; no invitation,
  whatever role the caller asked for, carries the owner role; and every user belongs to an
  existing tenant.
\<close>

theorem tenancy_consistent:
  assumes "tenancy_run hash_pw empty_db db"
  shows "distinct (map (\<lambda>u. lowercase (email u)) (filter (\<lambda>u. password_hash u \<noteq> None) (users db)))
    \<and> distinct (map (\<lambda>i. (invite_tenant i, lowercase (invite_email i)))
        (filter (\<lambda>i. invite_status i = ''pending'') (invitations db)))
    \<and> (\<forall>i \<in> set (invitations db). normalize_role (invite_role i) \<noteq> ''owner'')
    \<and> (\<forall>u \<in> set (users db). \<exists>t \<in> set (tenants db). tenant_key t = user_tenant u)"
proof -
  have inv: "tenancy_inv db"
    using tenancy_run_inv [OF assms empty_db_inv] .
  then have "\<forall>u \<in> set (users db). user_tenant u \<in> tenant_key ` set (tenants db)"
    by (simp add: tenancy_inv_def users_ok_def tenant_keys_def)
  then have "\<forall>u \<in> set (users db). \<exists>t \<in> set (tenants db). tenant_key t = user_tenant u"
    by fastforce
  moreover have "\<forall>i \<in> set (invitations db). normalize_role (invite_role i) \<noteq> ''owner''"
    using inv by (auto simp: tenancy_inv_def invites_ok_def INVITABLE_ROLES_def)
  ultimately show ?thesis
    using inv by (simp add: tenancy_inv_def users_ok_def invites_ok_def password_emails_def pending_keys_def)
qed

definition plain_hash :: hash_fn where
  "plain_hash salt pw = pw"

definition plain_verify :: verify_fn where
  "plain_verify pw h = Some (pw = h)"

lemma plain_argon2: "argon2_ok plain_hash plain_verify"
  by (simp add: argon2_ok_def plain_hash_def plain_verify_def)

lemma invite_then_join_run:
  "tenancy_run plain_hash empty_db
    (snd (sign_up_with_invite plain_hash 0 ''b@x.io'' ''secretpw'' ''B''
      (snd (create_invitation 1 ''B@x.io'' ''owner'' 2 3600
        (snd (sign_up_with_invite plain_hash 0 ''a@x.io'' ''password'' ''A'' empty_db))))))"
proof -
  have "(1 :: nat) \<in> tenant_keys (snd (sign_up_with_invite plain_hash 0 ''a@x.io'' ''password'' ''A'' empty_db))"
    by code_simp
  then show ?thesis
    by (intro tenancy_run.intros(2) [OF tenancy_run.intros(2) [OF tenancy_run.intros(2)
          [OF tenancy_run.intros(1) tenancy_step.sign_up] tenancy_step.invite] tenancy_step.sign_up])
qed

theorem tenancy_consistent_witness:
  "let db = snd (sign_up_with_invite plain_hash 0 ''b@x.io'' ''secretpw'' ''B''
      (snd (create_invitation 1 ''B@x.io'' ''owner'' 2 3600
        (snd (sign_up_with_invite plain_hash 0 ''a@x.io'' ''password'' ''A'' empty_db)))))
   in map role (users db) = [''owner'', ''viewer''] \<and> map user_tenant (users db) = [1, 1]
     \<and> (\<forall>i \<in> set (invitations db). normalize_role (invite_role i) \<noteq> ''owner'')"
proof -
  let ?db = "snd (sign_up_with_invite plain_hash 0 ''b@x.io'' ''secretpw'' ''B''
      (snd (create_invitation 1 ''B@x.io'' ''owner'' 2 3600
        (snd (sign_up_with_invite plain_hash 0 ''a@x.io'' ''password'' ''A'' empty_db)))))"
  have "map role (users ?db) = [''owner'', ''viewer'']" "map user_tenant (users ?db) = [1, 1]"
    by code_simp+
  with tenancy_consistent [OF invite_then_join_run] show ?thesis
    by (simp add: Let_def)
qed


lemma clean_email_idem [simp]: "clean_email (clean_email m) = clean_email m"
proof -
  have "trim (lowercase (trim m)) = lowercase (trim m)"
    by (simp add: trim_def trim_start_def trim_end_def lowercase_def dropWhile_map rev_map o_def)
       (metis (no_types) trim_idem trim_def trim_start_def trim_end_def)
  then show ?thesis by (simp add: clean_email_def lowercase_idem)
qed

lemma fetch_new_user:
  assumes "\<not> email_taken us t mail" "lowercase mail = mail"
  shows "find (\<lambda>u. email u = mail \<and> password_hash u \<noteq> None) (us @ [new_user k t mail nm rl h]) =
    Some (new_user k t mail nm rl h)"
proof -
  have "find (\<lambda>u. email u = mail \<and> password_hash u \<noteq> None) us = None"
    using assms by (auto simp: find_None_iff email_taken_def)
  then show ?thesis
    by (induction us) (auto simp: new_user_def split: if_splits)
qed

lemma find_snoc: "find P (xs @ [x]) = (case find P xs of Some y \<Rightarrow> Some y | None \<Rightarrow> if P x then Some x else None)"
  by (induction xs) auto

lemma get_tenant_new:
  "\<forall>t \<in> set (tenants db). tenant_key t < fresh db \<Longrightarrow> tenant_key t = fresh db \<Longrightarrow>
    get_tenant (fresh db) (db\<lparr>tenants := tenants db @ [t], users := us, fresh := n\<rparr>) = Some t"
proof -
  assume a: "\<forall>t \<in> set (tenants db). tenant_key t < fresh db" "tenant_key t = fresh db"
  then have "find (\<lambda>t. tenant_key t = fresh db) (tenants db) = None"
    by (auto simp: find_None_iff)
  with a show ?thesis by (simp add: get_tenant_def find_snoc)
qed



text \<open>
  C17. An invitation is single-use. Signing up with the address of a redeemable invitation
  joins the inviting tenant with the invited role, never as owner, and leaves no redeemable
  invitation with the same key; a second sign-up with the address is refused.
\<close>

theorem invitation_redeemed_once:
  assumes inv: "tenancy_inv db" and i: "redeemable (clean_email mail) db = i # is"
    and up: "sign_up_with_invite hash_pw salt mail pw nm db = (Some (Inr idt), db')"
  shows "user_tenant (id_user idt) = invite_tenant i
    \<and> role (id_user idt) = normalize_role (invite_role i) \<and> role (id_user idt) \<noteq> ''owner''
    \<and> (\<forall>j \<in> set (redeemable (clean_email mail) db').
          \<not> (invite_tenant j = invite_tenant i \<and> invite_key j = invite_key i))
    \<and> (\<exists>e. fst (sign_up_with_invite hash_pw salt' mail pw' nm' db') = Some (Inl e))"
proof -
  let ?u = "new_user (fresh db) (invite_tenant i) (clean_email mail) nm (normalize_role (invite_role i)) (hash_pw salt pw)"
  from up i have idt: "id_user idt = ?u" and us: "users db' = users db @ [?u]"
    and ivs: "invitations db' = update_where
        (\<lambda>j. invite_tenant j = invite_tenant i \<and> invite_key j = invite_key i)
        (\<lambda>j. j\<lparr>invite_status := ''accepted''\<rparr>) (invitations db)"
    by (auto simp: sign_up_with_invite_def Let_def split: if_splits option.splits)
  have "invite_role i \<in> set INVITABLE_ROLES"
    using redeemable_head [OF i] inv by (auto simp: tenancy_inv_def invites_ok_def)
  then have "normalize_role (invite_role i) \<noteq> ''owner''"
    by (auto simp: INVITABLE_ROLES_def)
  moreover have "\<forall>j \<in> set (redeemable (clean_email mail) db').
          \<not> (invite_tenant j = invite_tenant i \<and> invite_key j = invite_key i)"
    by (auto simp: redeemable_def newest_first_def ivs set_update_where dest: arg_cong [where f = invite_status]
        split: if_splits)
  moreover have "email_taken (users db') t (clean_email mail)" for t
    by (auto simp: email_taken_def us new_user_def)
  then have "\<exists>e. fst (sign_up_with_invite hash_pw salt' mail pw' nm' db') = Some (Inl e)"
    by (auto simp: sign_up_with_invite_def sign_up_def Let_def split: list.split)
  ultimately show ?thesis
    by (simp add: idt new_user_def)
qed

theorem invitation_redeemed_once_witness:
  "let db = snd (create_invitation 1 ''b@x.io'' ''admin'' 2 3600
             (snd (sign_up_with_invite plain_hash 0 ''a@x.io'' ''password'' ''A'' empty_db)));
       r = sign_up_with_invite plain_hash 0 ''b@x.io'' ''secretpw'' ''B'' db
   in (\<exists>idt. fst r = Some (Inr idt) \<and> user_tenant (id_user idt) = 1 \<and> role (id_user idt) = ''admin'')
     \<and> (\<exists>e. fst (sign_up_with_invite plain_hash 1 ''b@x.io'' ''other'' ''C'' (snd r)) = Some (Inl e))"
proof -
  let ?db1 = "snd (sign_up_with_invite plain_hash 0 ''a@x.io'' ''password'' ''A'' empty_db)"
  let ?db = "snd (create_invitation 1 ''b@x.io'' ''admin'' 2 3600 ?db1)"
  let ?r = "sign_up_with_invite plain_hash 0 ''b@x.io'' ''secretpw'' ''B'' ?db"
  have "(1 :: nat) \<in> tenant_keys ?db1" by code_simp
  then have inv: "tenancy_inv ?db"
    using create_invitation_inv sign_up_with_invite_inv empty_db_inv by blast
  have "(case fst ?r of Some (Inr _) \<Rightarrow> True | _ \<Rightarrow> False)" by code_simp
  then obtain idt where idt: "fst ?r = Some (Inr idt)"
    by (auto split: option.splits sum.splits)
  then have r: "?r = (Some (Inr idt), snd ?r)" by (simp add: prod_eq_iff)
  have "(case redeemable (clean_email ''b@x.io'') ?db of i # _ \<Rightarrow>
      invite_tenant i = 1 \<and> normalize_role (invite_role i) = ''admin'' | [] \<Rightarrow> False)" by code_simp
  then obtain i "is" where i: "redeemable (clean_email ''b@x.io'') ?db = i # is"
      "invite_tenant i = 1" "normalize_role (invite_role i) = ''admin''"
    by (auto split: list.splits)
  from invitation_redeemed_once [OF inv i(1) r, of 1 "''other''" "''C''"] i idt show ?thesis
    by (simp add: Let_def)
qed

text \<open>
  Role changes are not restricted to the invitable roles: the update an administrator
  performs stores the owner role when it is asked for, on any user of the tenant, the
  administrator included; and the read-back confirms it.
\<close>

theorem update_user_can_make_owner:
  assumes "u \<in> set (users db)" and "user_tenant u = t" and "user_key u = key"
  shows "(\<exists>st. fst (update_user t key (Some ''owner'') None db) = Some (''owner'', st))
    \<and> (\<forall>v \<in> set (users (snd (update_user t key (Some ''owner'') None db))).
         user_tenant v = t \<and> user_key v = key \<longrightarrow> role_rank (role v) = 3)"
proof -
  let ?us = "update_where (\<lambda>u. user_tenant u = t \<and> user_key u = key) (\<lambda>u. u\<lparr>role := ''owner''\<rparr>) (users db)"
  have all: "\<forall>v \<in> set ?us. user_tenant v = t \<and> user_key v = key \<longrightarrow> role v = ''owner''"
  proof (intro ballI impI)
    fix v
    assume "v \<in> set ?us" "user_tenant v = t \<and> user_key v = key"
    from update_where_hit [OF this] show "role v = ''owner''" by auto
  qed
  have "\<exists>v \<in> set ?us. user_tenant v = t \<and> user_key v = key"
    using assms by (intro bexI [of _ "u\<lparr>role := ''owner''\<rparr>"]) (auto simp: set_update_where)
  then obtain v where v: "find (\<lambda>u. user_tenant u = t \<and> user_key u = key) ?us = Some v"
    using find_exists [of ?us "\<lambda>u. user_tenant u = t \<and> user_key u = key"] by blast
  have "role v = ''owner''"
    using all find_Some_iff_first [OF v] by blast
  moreover have "fst (update_user t key (Some ''owner'') None db) = map_option (\<lambda>u. (role u, status u)) (Some v)"
    "users (snd (update_user t key (Some ''owner'') None db)) = ?us"
    unfolding v [symmetric] by (simp_all add: update_user_def Let_def)
  ultimately show ?thesis
    using all by simp
qed

theorem update_user_can_make_owner_witness:
  "let db = snd (sign_up_with_invite plain_hash 0 ''b@x.io'' ''secretpw'' ''B''
      (snd (create_invitation 1 ''b@x.io'' ''admin'' 2 3600
        (snd (sign_up_with_invite plain_hash 0 ''a@x.io'' ''password'' ''A'' empty_db)))))
   in map role (users db) = [''owner'', ''admin'']
     \<and> (\<exists>st. fst (update_user 1 4 (Some ''owner'') None db) = Some (''owner'', st))"
proof -
  let ?db = "snd (sign_up_with_invite plain_hash 0 ''b@x.io'' ''secretpw'' ''B''
      (snd (create_invitation 1 ''b@x.io'' ''admin'' 2 3600
        (snd (sign_up_with_invite plain_hash 0 ''a@x.io'' ''password'' ''A'' empty_db)))))"
  have "map role (users ?db) = [''owner'', ''admin'']" by code_simp
  moreover have "list_ex (\<lambda>u. user_tenant u = 1 \<and> user_key u = 4) (users ?db)" by code_simp
  then obtain u where "u \<in> set (users ?db)" "user_tenant u = 1" "user_key u = 4"
    by (auto simp: list_ex_iff)
  note update_user_can_make_owner [OF this]
  ultimately show ?thesis by (simp add: Let_def)
qed

end
