(* ===== verification/Auth.thy ===== *)
theory Auth
  imports Tenancy Cache
begin

text \<open>
  \<open>insight-api/src/auth.rs\<close>, \<open>error.rs\<close> and the handlers of \<open>routes/auth.rs\<close>: tokens, the
  refresh allowlist, the extractors, and sign-up, sign-in, refresh, sign-out and session
  revocation. The state joins the tenancy tables, the cache and the supply of random
  identifiers \<open>uuids\<close> (each one is handed out once). The JWT library is a parameter of two
  functions with \<open>jwt_ok\<close>, its documented behaviour: what it decodes was encoded under the
  same secret, and what was encoded decodes to itself until it expires.
  A handler returns an error or a value, and the state it leaves.
\<close>

record api_error =
  err_status :: nat
  err_code :: string

definition bad_request :: api_error where
  "bad_request = \<lparr>err_status = 400, err_code = ''bad_request''\<rparr>"
definition unauthorized :: api_error where
  "unauthorized = \<lparr>err_status = 401, err_code = ''unauthorized''\<rparr>"
definition forbidden :: api_error where
  "forbidden = \<lparr>err_status = 403, err_code = ''forbidden''\<rparr>"
definition not_found :: api_error where
  "not_found = \<lparr>err_status = 404, err_code = ''not_found''\<rparr>"
definition conflict :: api_error where
  "conflict = \<lparr>err_status = 409, err_code = ''conflict''\<rparr>"
definition payment_required :: api_error where
  "payment_required = \<lparr>err_status = 402, err_code = ''payment_required''\<rparr>"
definition internal :: api_error where
  "internal = \<lparr>err_status = 500, err_code = ''internal''\<rparr>"

section \<open>State and tokens\<close>

record claims =
  sub :: uuid
  ten :: uuid
  claim_role :: string
  claim_typ :: string
  exp_at :: int
  iat :: int
  jti :: uuid
  claim_sid :: uuid

record api_config =
  jwt_secret :: string
  access_ttl_secs :: nat
  refresh_ttl_secs :: nat
  rate_limit_max :: nat
  rate_limit_window_secs :: nat
  auth_rate_limit_max :: nat

record jwt_library =
  jwt_encode :: "string \<Rightarrow> claims \<Rightarrow> string"
  jwt_decode :: "string \<Rightarrow> int \<Rightarrow> string \<Rightarrow> claims option"

definition jwt_ok :: "jwt_library \<Rightarrow> bool" where
  "jwt_ok jwt =
    ((\<forall>k now t c. jwt_decode jwt k now t = Some c \<longrightarrow> t = jwt_encode jwt k c)
   \<and> (\<forall>k now c. jwt_decode jwt k now (jwt_encode jwt k c) = Some c
        \<or> (exp_at c < now \<and> jwt_decode jwt k now (jwt_encode jwt k c) = None)))"

record api_key_row =
  key_hash :: string
  key_id :: uuid
  key_tenant :: uuid
  key_role :: string
  key_revoked :: bool

record api_state =
  tdb :: tenancy_db
  cache_srv :: redis
  uuids :: uuid
  api_keys :: "api_key_row list"

definition new_uuid :: "api_state \<Rightarrow> uuid \<times> api_state" where
  "new_uuid s = (uuids s, s\<lparr>uuids := uuids s + 1\<rparr>)"

definition mint ::
  "jwt_library \<Rightarrow> api_config \<Rightarrow> uuid \<Rightarrow> uuid \<Rightarrow> string \<Rightarrow> string \<Rightarrow> uuid \<Rightarrow> api_state
    \<Rightarrow> (string \<times> uuid) \<times> api_state" where
  "mint jwt cfg user_id tenant_id rl ty s_id s =
     (let ttl = (if ty = ''refresh'' then refresh_ttl_secs cfg else access_ttl_secs cfg);
          now = db_now (tdb s);
          (j, s) = new_uuid s;
          c = \<lparr>sub = user_id, ten = tenant_id, claim_role = rl, claim_typ = ty, exp_at = now + int ttl,
               iat = now, jti = j, claim_sid = s_id\<rparr>
      in ((jwt_encode jwt (jwt_secret cfg) c, j), s))"

definition verify :: "jwt_library \<Rightarrow> api_config \<Rightarrow> string \<Rightarrow> string \<Rightarrow> api_state \<Rightarrow> api_error + claims" where
  "verify jwt cfg token expected s =
     (case jwt_decode jwt (jwt_secret cfg) (db_now (tdb s)) token of
        None \<Rightarrow> Inl unauthorized
      | Some c \<Rightarrow> if claim_typ c \<noteq> expected then Inl unauthorized else Inr c)"

definition refresh_key :: "uuid \<Rightarrow> string" where
  "refresh_key j = ''refresh:'' @ show_nat j"

definition on_cache :: "(redis \<Rightarrow> 'a \<times> redis) \<Rightarrow> api_state \<Rightarrow> 'a \<times> api_state" where
  "on_cache f s = (case f (cache_srv s) of (x, r) \<Rightarrow> (x, s\<lparr>cache_srv := r\<rparr>))"

definition on_db :: "(tenancy_db \<Rightarrow> 'a \<times> tenancy_db) \<Rightarrow> api_state \<Rightarrow> 'a \<times> api_state" where
  "on_db f s = (case f (tdb s) of (x, d) \<Rightarrow> (x, s\<lparr>tdb := d\<rparr>))"

definition allow_refresh :: "api_config \<Rightarrow> uuid \<Rightarrow> uuid \<Rightarrow> api_state \<Rightarrow> unit option \<times> api_state" where
  "allow_refresh cfg j user_id =
     on_cache (cache_set_with_ttl (refresh_key j) (show_nat user_id) (refresh_ttl_secs cfg))"

definition consume_refresh :: "uuid \<Rightarrow> api_state \<Rightarrow> bool option \<times> api_state" where
  "consume_refresh j s =
     (case on_cache (cache_take (refresh_key j)) s of (r, s) \<Rightarrow> (map_option (\<lambda>v. v \<noteq> None) r, s))"

definition revoke_refresh :: "uuid \<Rightarrow> api_state \<Rightarrow> unit option \<times> api_state" where
  "revoke_refresh j = on_cache (cache_del (refresh_key j))"

section \<open>Requests and extractors\<close>

record request =
  authorization :: "string option"
  access_cookie :: "string option"
  refresh_cookie :: "string option"
  body_refresh_token :: "string option"
  x_api_key :: "string option"
  x_forwarded_for :: "string option"
  user_agent_header :: "string option"
  peer_addr :: "string option"

record authed_user =
  auth_user :: uuid
  auth_tenant :: uuid
  auth_role :: string
  auth_session :: uuid

definition access_token_from_parts :: "request \<Rightarrow> string option" where
  "access_token_from_parts req =
     (case Option.bind (authorization req) (strip_prefix ''Bearer '') of
        Some token \<Rightarrow> Some (trim token)
      | None \<Rightarrow> access_cookie req)"

definition from_claims :: "claims \<Rightarrow> authed_user" where
  "from_claims c = \<lparr>auth_user = sub c, auth_tenant = ten c, auth_role = claim_role c,
                    auth_session = claim_sid c\<rparr>"

text \<open>
  \<open>extension\<close> is what the rate-limit layer left in the request; \<open>sha256_hex\<close> is a parameter.
  The best-effort \<open>last_used_at\<close> touch of the API key is not part of the state.
\<close>

definition authed_user_from ::
  "jwt_library \<Rightarrow> (string \<Rightarrow> string) \<Rightarrow> api_config \<Rightarrow> authed_user option \<Rightarrow> request \<Rightarrow> api_state
    \<Rightarrow> api_error + authed_user" where
  "authed_user_from jwt sha256_hex cfg extension req s =
     (case extension of
        Some u \<Rightarrow> Inr u
      | None \<Rightarrow> (case x_api_key req of
          Some raw \<Rightarrow>
            (case find (\<lambda>k. key_hash k = sha256_hex (trim raw) \<and> \<not> key_revoked k) (api_keys s) of
               None \<Rightarrow> Inl unauthorized
             | Some k \<Rightarrow> Inr \<lparr>auth_user = 0, auth_tenant = key_tenant k, auth_role = key_role k,
                               auth_session = 0\<rparr>)
        | None \<Rightarrow> (case access_token_from_parts req of
            None \<Rightarrow> Inl unauthorized
          | Some token \<Rightarrow> map_sum id from_claims (verify jwt cfg token ''access'' s))))"

definition require_admin :: "api_error + authed_user \<Rightarrow> api_error + authed_user" where
  "require_admin r = (case r of
       Inl e \<Rightarrow> Inl e
     | Inr u \<Rightarrow> if role_rank (auth_role u) < role_rank ''admin'' then Inl forbidden else Inr u)"

definition require_super_admin :: "tenancy_db \<Rightarrow> api_error + authed_user \<Rightarrow> api_error + authed_user" where
  "require_super_admin db r = (case r of
       Inl e \<Rightarrow> Inl e
     | Inr u \<Rightarrow> if get_platform_role (auth_tenant u) (auth_user u) db \<noteq> Some ''super_admin''
         then Inl forbidden else Inr u)"

section \<open>Handlers\<close>

definition valid_email :: "string \<Rightarrow> bool" where
  "valid_email mail = (case split_once CHR ''@'' mail of
       None \<Rightarrow> False
     | Some (loc, domain) \<Rightarrow>
         loc \<noteq> [] \<and> domain \<noteq> [] \<and> CHR ''.'' \<in> set domain
         \<and> \<not> starts_with domain ''.'' \<and> \<not> ends_with domain ''.''
         \<and> \<not> list_ex is_whitespace mail)"

definition forwarded_ip :: "request \<Rightarrow> string option" where
  "forwarded_ip req = (case x_forwarded_for req of
       None \<Rightarrow> None
     | Some v \<Rightarrow> (let ip = trim (hd (split_on CHR '','' v)) in if ip = [] then None else Some ip))"

record tokens =
  access_token :: string
  refresh_token :: string

definition start_session ::
  "jwt_library \<Rightarrow> api_config \<Rightarrow> request \<Rightarrow> uuid \<Rightarrow> uuid \<Rightarrow> string \<Rightarrow> api_state
    \<Rightarrow> (api_error + tokens) \<times> api_state" where
  "start_session jwt cfg req user_id tenant_id rl s =
     (let (s_id, s) = new_uuid s;
          ((access, _), s) = mint jwt cfg user_id tenant_id rl ''access'' s_id s;
          ((refresh, j), s) = mint jwt cfg user_id tenant_id rl ''refresh'' s_id s
      in case allow_refresh cfg j user_id s of
           (None, s) \<Rightarrow> (Inl internal, s)
         | (Some _, s) \<Rightarrow>
             (let expires = db_now (tdb s) + int (refresh_ttl_secs cfg);
                  s = s\<lparr>tdb := insert_session tenant_id s_id user_id j (user_agent_header req)
                        (forwarded_ip req) expires (tdb s)\<rparr>
              in (Inr \<lparr>access_token = access, refresh_token = refresh\<rparr>, s)))"

definition sign_up_handler ::
  "jwt_library \<Rightarrow> hash_fn \<Rightarrow> api_config \<Rightarrow> nat \<Rightarrow> request \<Rightarrow> string \<Rightarrow> string \<Rightarrow> string \<Rightarrow> api_state
    \<Rightarrow> (api_error + identity \<times> tokens) \<times> api_state" where
  "sign_up_handler jwt hash_pw cfg salt req mail password nm s =
     (let mail = clean_email mail; nm = trim nm
      in if \<not> valid_email mail then (Inl bad_request, s)
         else if length password < 8 then (Inl bad_request, s)
         else if nm = [] then (Inl bad_request, s)
         else case on_db (sign_up_with_invite hash_pw salt mail password nm) s of
           (None, s) \<Rightarrow> (Inl internal, s)
         | (Some (Inl EmailTaken), s) \<Rightarrow> (Inl conflict, s)
         | (Some (Inr idt), s) \<Rightarrow>
             (case start_session jwt cfg req (user_key (id_user idt)) (tenant_key (id_tenant idt))
                     (role (id_user idt)) s of
                (Inl e, s) \<Rightarrow> (Inl e, s)
              | (Inr t, s) \<Rightarrow> (Inr (idt, t), s)))"

definition sign_in_handler ::
  "jwt_library \<Rightarrow> verify_fn \<Rightarrow> api_config \<Rightarrow> request \<Rightarrow> string \<Rightarrow> string \<Rightarrow> api_state
    \<Rightarrow> (api_error + identity \<times> tokens) \<times> api_state" where
  "sign_in_handler jwt verify_pw cfg req mail password s =
     (case verify_credentials verify_pw mail password (tdb s) of
        None \<Rightarrow> (Inl internal, s)
      | Some None \<Rightarrow> (Inl unauthorized, s)
      | Some (Some idt) \<Rightarrow>
          if map_option suspended (get_tenant (tenant_key (id_tenant idt)) (tdb s)) = Some True
          then (Inl forbidden, s)
          else case start_session jwt cfg req (user_key (id_user idt)) (tenant_key (id_tenant idt))
                      (role (id_user idt)) s of
                 (Inl e, s) \<Rightarrow> (Inl e, s)
               | (Inr t, s) \<Rightarrow> (Inr (idt, t), s))"

definition refresh_token_from :: "request \<Rightarrow> string option" where
  "refresh_token_from req = (case refresh_cookie req of
       Some c \<Rightarrow> Some c
     | None \<Rightarrow> body_refresh_token req)"

definition refresh_handler ::
  "jwt_library \<Rightarrow> api_config \<Rightarrow> request \<Rightarrow> api_state \<Rightarrow> (api_error + tokens) \<times> api_state" where
  "refresh_handler jwt cfg req s =
     (case refresh_token_from req of
        None \<Rightarrow> (Inl unauthorized, s)
      | Some token \<Rightarrow> (case verify jwt cfg token ''refresh'' s of
          Inl e \<Rightarrow> (Inl e, s)
        | Inr c \<Rightarrow> (case consume_refresh (jti c) s of
            (None, s) \<Rightarrow> (Inl internal, s)
          | (Some False, s) \<Rightarrow> (Inl unauthorized, s)
          | (Some True, s) \<Rightarrow>
              (let s_id = claim_sid c;
                   ((access, _), s) = mint jwt cfg (sub c) (ten c) (claim_role c) ''access'' s_id s;
                   ((refresh, j), s) = mint jwt cfg (sub c) (ten c) (claim_role c) ''refresh'' s_id s
               in if s_id = 0 then (Inl unauthorized, s)
                  else case on_db (touch_session (ten c) s_id j) s of
                    (False, s) \<Rightarrow> (Inl unauthorized, s)
                  | (True, s) \<Rightarrow> (case allow_refresh cfg j (sub c) s of
                      (None, s) \<Rightarrow> (Inl internal, s)
                    | (Some _, s) \<Rightarrow> (Inr \<lparr>access_token = access, refresh_token = refresh\<rparr>, s))))))"

definition sign_out_handler ::
  "jwt_library \<Rightarrow> api_config \<Rightarrow> request \<Rightarrow> api_state \<Rightarrow> (api_error + unit) \<times> api_state" where
  "sign_out_handler jwt cfg req s =
     (case refresh_token_from req of
        None \<Rightarrow> (Inr (), s)
      | Some token \<Rightarrow> (case verify jwt cfg token ''refresh'' s of
          Inl _ \<Rightarrow> (Inr (), s)
        | Inr c \<Rightarrow> (case revoke_refresh (jti c) s of
            (None, s) \<Rightarrow> (Inl internal, s)
          | (Some _, s) \<Rightarrow>
              (if claim_sid c \<noteq> 0
               then (Inr (), snd (on_db (revoke_session (ten c) (claim_sid c)) s))
               else (Inr (), s)))))"

definition revoke_session_handler ::
  "authed_user \<Rightarrow> uuid \<Rightarrow> api_state \<Rightarrow> (api_error + unit) \<times> api_state" where
  "revoke_session_handler user token s =
     (case on_db (revoke_session (auth_tenant user) token) s of
        (None, s) \<Rightarrow> (Inr (), s)
      | (Some j, s) \<Rightarrow> (case revoke_refresh j s of
          (None, s) \<Rightarrow> (Inl internal, s)
        | (Some _, s) \<Rightarrow> (Inr (), s)))"

fun revoke_all :: "uuid list \<Rightarrow> api_state \<Rightarrow> api_state" where
  "revoke_all [] s = s"
| "revoke_all (j # js) s = revoke_all js (snd (revoke_refresh j s))"

definition revoke_other_sessions_handler :: "authed_user \<Rightarrow> api_state \<Rightarrow> nat \<times> api_state" where
  "revoke_other_sessions_handler user s =
     (case on_db (revoke_other_sessions (auth_tenant user) (auth_user user) (Some (auth_session user))) s of
        (js, s) \<Rightarrow> (length js, revoke_all js s))"


section \<open>The refresh allowlist\<close>

definition allowlisted :: "api_state \<Rightarrow> uuid \<Rightarrow> bool" where
  "allowlisted s j = (live (cache_srv s) (refresh_key j) \<noteq> None)"

fun token_step :: "api_config \<Rightarrow> uuid \<Rightarrow> uuid token_op \<Rightarrow> api_state \<Rightarrow> bool \<times> api_state" where
  "token_step cfg u (Grant j) s = (case allow_refresh cfg j u s of (r, s) \<Rightarrow> (r \<noteq> None, s))"
| "token_step cfg u (Consume j) s = (case consume_refresh j s of (r, s) \<Rightarrow> (r = Some True, s))"
| "token_step cfg u (Revoke j) s = (case revoke_refresh j s of (r, s) \<Rightarrow> (r \<noteq> None, s))"
| "token_step cfg u Idle s = (False, s\<lparr>cache_srv := pass 1 (cache_srv s)\<rparr>)"

lemma refresh_key_inject [simp]: "refresh_key a = refresh_key b \<longleftrightarrow> a = b"
  by (simp add: refresh_key_def show_nat_inject)

lemma allow_refresh_frame:
  "tdb (snd (allow_refresh cfg j u s)) = tdb s" "uuids (snd (allow_refresh cfg j u s)) = uuids s"
  "api_keys (snd (allow_refresh cfg j u s)) = api_keys s"
  by (simp_all add: allow_refresh_def on_cache_def case_prod_beta)

lemma consume_refresh_frame:
  "tdb (snd (consume_refresh j s)) = tdb s" "uuids (snd (consume_refresh j s)) = uuids s"
  by (simp_all add: consume_refresh_def on_cache_def case_prod_beta)

lemma revoke_refresh_frame:
  "tdb (snd (revoke_refresh j s)) = tdb s" "uuids (snd (revoke_refresh j s)) = uuids s"
  by (simp_all add: revoke_refresh_def on_cache_def case_prod_beta)

lemmas refresh_frames = allow_refresh_frame consume_refresh_frame revoke_refresh_frame

lemma allowlisted_allow:
  "allowlisted (snd (allow_refresh cfg j u s)) j' \<Longrightarrow> j' = j \<or> allowlisted s j'"
  by (auto simp: allowlisted_def allow_refresh_def on_cache_def case_prod_beta cache_set_with_ttl_def
      command_def Let_def live_put_entry split: if_splits)

lemma allowlisted_consume:
  "allowlisted (snd (consume_refresh j s)) j' \<Longrightarrow> allowlisted s j'"
  "fst (consume_refresh j s) = Some True \<Longrightarrow> allowlisted s j"
  "fst (consume_refresh j s) = Some b \<Longrightarrow> \<not> allowlisted (snd (consume_refresh j s)) j"
  by (auto simp: allowlisted_def consume_refresh_def on_cache_def case_prod_beta cache_take_def
      command_def Let_def live_put_entry split: if_splits)

lemma allowlisted_revoke: "allowlisted (snd (revoke_refresh j s)) j' \<Longrightarrow> allowlisted s j'"
  by (auto simp: allowlisted_def revoke_refresh_def on_cache_def case_prod_beta cache_del_def
      command_def Let_def live_put_entry split: if_splits)

lemma allowlisted_pass: "allowlisted (s\<lparr>cache_srv := pass d (cache_srv s)\<rparr>) j \<Longrightarrow> allowlisted s j"
  by (auto simp: allowlisted_def dest: live_pass)

interpretation rt: token_store allowlisted "token_step cfg u" for cfg u
  by unfold_locales
     (auto simp: case_prod_beta dest: allowlisted_allow allowlisted_consume allowlisted_revoke
        allowlisted_pass)

text \<open>
  C19. A refresh token identifier is consumed at most once per time it was put on the
  allowlist, whatever other requests are interleaved with the consumers, whichever cache
  commands fail, and however much time passes: two concurrent refreshes with one token
  cannot both rotate it.
\<close>

theorem refresh_single_use:
  "wins j ops (fst (run_ops (token_step cfg u) ops s)) \<le> grants j ops + (if allowlisted s j then 1 else 0)"
  by (rule rt.wins_bounded)

section \<open>Tokens\<close>

lemma jwt_decode_encode:
  assumes "jwt_ok jwt"
  shows "jwt_decode jwt k now (jwt_encode jwt k c) = Some c
    \<or> exp_at c < now \<and> jwt_decode jwt k now (jwt_encode jwt k c) = None"
  using assms unfolding jwt_ok_def by blast

lemma verify_encoded:
  assumes "jwt_ok jwt" "verify jwt cfg (jwt_encode jwt (jwt_secret cfg) c) ty s = Inr c'"
  shows "c' = c \<and> claim_typ c = ty"
  using jwt_decode_encode [OF assms(1), of "jwt_secret cfg" "db_now (tdb s)" c] assms(2)
  by (auto simp: verify_def split: if_splits)

lemma verify_fresh:
  assumes "jwt_ok jwt" "db_now (tdb s) \<le> exp_at c" "claim_typ c = ty"
  shows "verify jwt cfg (jwt_encode jwt (jwt_secret cfg) c) ty s = Inr c"
  using jwt_decode_encode [OF assms(1), of "jwt_secret cfg" "db_now (tdb s)" c] assms(2,3)
  by (auto simp: verify_def)

lemma mint_eq:
  "mint jwt cfg u t rl ty x s =
    (let c = \<lparr>sub = u, ten = t, claim_role = rl, claim_typ = ty,
        exp_at = db_now (tdb s) + int (if ty = ''refresh'' then refresh_ttl_secs cfg else access_ttl_secs cfg),
        iat = db_now (tdb s), jti = uuids s, claim_sid = x\<rparr>
     in ((jwt_encode jwt (jwt_secret cfg) c, uuids s), s\<lparr>uuids := uuids s + 1\<rparr>))"
  by (simp add: mint_def new_uuid_def Let_def)

text \<open>The claims the refresh handler puts in its two tokens.\<close>

definition rotated :: "api_config \<Rightarrow> claims \<Rightarrow> string \<Rightarrow> uuid \<Rightarrow> int \<Rightarrow> claims" where
  "rotated cfg c ty j now = c\<lparr>claim_typ := ty, iat := now, jti := j,
     exp_at := now + int (if ty = ''refresh'' then refresh_ttl_secs cfg else access_ttl_secs cfg)\<rparr>"

lemma mint_rotated:
  "mint jwt cfg (sub c) (ten c) (claim_role c) ty (claim_sid c) s =
    ((jwt_encode jwt (jwt_secret cfg) (rotated cfg c ty (uuids s) (db_now (tdb s))), uuids s),
     s\<lparr>uuids := uuids s + 1\<rparr>)"
  by (cases c) (simp add: mint_eq rotated_def)

lemma refresh_handler_cases:
  assumes "refresh_handler jwt cfg req s = (Inr t, s')"
  obtains token c s1 s2 s3 where
    "refresh_token_from req = Some token" "verify jwt cfg token ''refresh'' s = Inr c"
    "consume_refresh (jti c) s = (Some True, s1)" "claim_sid c \<noteq> 0"
    "s2 = s1\<lparr>uuids := uuids s1 + 2\<rparr>"
    "on_db (touch_session (ten c) (claim_sid c) (uuids s1 + 1)) s2 = (True, s3)"
    "allow_refresh cfg (uuids s1 + 1) (sub c) s3 = (Some (), s')"
    "t = \<lparr>access_token = jwt_encode jwt (jwt_secret cfg) (rotated cfg c ''access'' (uuids s1) (db_now (tdb s1))),
          refresh_token = jwt_encode jwt (jwt_secret cfg) (rotated cfg c ''refresh'' (uuids s1 + 1) (db_now (tdb s1)))\<rparr>"
  using assms unfolding refresh_handler_def
  by (auto simp: Let_def mint_rotated split: option.splits sum.splits prod.splits bool.splits if_splits)


section \<open>Rotation\<close>

lemma list_ex_update_where:
  "list_ex P rows \<Longrightarrow> (\<And>r. P r \<Longrightarrow> P (f r)) \<Longrightarrow> list_ex P (update_where P f rows)"
  by (induction rows) auto

lemma on_db_frame:
  "on_db f s = (x, s') \<Longrightarrow> uuids s' = uuids s \<and> cache_srv s' = cache_srv s"
  by (auto simp: on_db_def split: prod.splits)

lemma refresh_handler_tables:
  assumes "refresh_handler jwt cfg req s = (Inr t, s')"
  shows "users (tdb s') = users (tdb s) \<and> db_now (tdb s') = db_now (tdb s) \<and> tenants (tdb s') = tenants (tdb s)"
proof -
  from assms obtain token c s1 s2 s3 where "refresh_token_from req = Some token"
    "verify jwt cfg token ''refresh'' s = Inr c" "consume_refresh (jti c) s = (Some True, s1)"
    "s2 = s1\<lparr>uuids := uuids s1 + 2\<rparr>"
    "on_db (touch_session (ten c) (claim_sid c) (uuids s1 + 1)) s2 = (True, s3)"
    "allow_refresh cfg (uuids s1 + 1) (sub c) s3 = (Some (), s')"
    by (rule refresh_handler_cases)
  then show ?thesis
    using consume_refresh_frame(1) [of "jti c" s] allow_refresh_frame(1) [of cfg "uuids s1 + 1" "sub c" s3]
    by (auto simp: on_db_def touch_session_def)
qed

text \<open>
  A successful refresh rotates: the identifier of the presented token is off the
  allowlist, so presenting the same token again is refused; the new tokens name the same
  user, tenant and session, and a session that the table holds as live.
\<close>

theorem refresh_rotates:
  assumes ok: "jwt_ok jwt" and r: "refresh_handler jwt cfg req s = (Inr t, s')"
    and tok: "refresh_token_from req = Some (jwt_encode jwt (jwt_secret cfg) c)"
    and old: "jti c < uuids s"
  shows "\<not> allowlisted s' (jti c)
    \<and> (\<exists>e. fst (refresh_handler jwt cfg req s') = Inl e)
    \<and> (\<exists>a b. access_token t = jwt_encode jwt (jwt_secret cfg) a \<and> refresh_token t = jwt_encode jwt (jwt_secret cfg) b
        \<and> sub a = sub c \<and> ten a = ten c \<and> claim_sid a = claim_sid c \<and> claim_typ a = ''access''
        \<and> sub b = sub c \<and> ten b = ten c \<and> claim_sid b = claim_sid c \<and> claim_typ b = ''refresh''
        \<and> jti b \<noteq> jti c)
    \<and> list_ex (live_session (ten c) (claim_sid c)) (sessions (tdb s'))"
proof -
  from r obtain token c' s1 s2 s3 where st: "refresh_token_from req = Some token"
    "verify jwt cfg token ''refresh'' s = Inr c'" "consume_refresh (jti c') s = (Some True, s1)"
    "s2 = s1\<lparr>uuids := uuids s1 + 2\<rparr>"
    "on_db (touch_session (ten c') (claim_sid c') (uuids s1 + 1)) s2 = (True, s3)"
    "allow_refresh cfg (uuids s1 + 1) (sub c') s3 = (Some (), s')"
    "t = \<lparr>access_token = jwt_encode jwt (jwt_secret cfg) (rotated cfg c' ''access'' (uuids s1) (db_now (tdb s1))),
          refresh_token = jwt_encode jwt (jwt_secret cfg) (rotated cfg c' ''refresh'' (uuids s1 + 1) (db_now (tdb s1)))\<rparr>"
    by (rule refresh_handler_cases)
  have "token = jwt_encode jwt (jwt_secret cfg) c"
    using st(1) tok by simp
  then have c': "c' = c"
    using verify_encoded [OF ok, of cfg c "''refresh''" s c'] st(2) by simp
  have u: "uuids s1 = uuids s"
    using consume_refresh_frame(2) [of "jti c'" s] st(3) by simp
  have "\<not> allowlisted s1 (jti c)"
    using allowlisted_consume(3) [of "jti c'" s True] st(3) c' by simp
  then have "\<not> allowlisted s3 (jti c)"
    using on_db_frame [OF st(5)] st(4) by (simp add: allowlisted_def)
  then have gone: "\<not> allowlisted s' (jti c)"
    using allowlisted_allow [of cfg "uuids s1 + 1" "sub c'" s3 "jti c"] st(6) old u by auto
  have again: "\<exists>e. fst (refresh_handler jwt cfg req s') = Inl e"
  proof (cases "fst (refresh_handler jwt cfg req s')")
    case (Inr t2)
    then obtain s'' where "refresh_handler jwt cfg req s' = (Inr t2, s'')"
      by (metis prod.collapse)
    then obtain tk d s1' where "refresh_token_from req = Some tk"
      "verify jwt cfg tk ''refresh'' s' = Inr d" "consume_refresh (jti d) s' = (Some True, s1')"
      by (rule refresh_handler_cases)
    with tok have "allowlisted s' (jti c)"
      using verify_encoded [OF ok, of cfg c "''refresh''" s' d] allowlisted_consume(2) [of "jti d" s']
      by auto
    with gone show ?thesis ..
  qed simp
  have sess: "sessions (tdb s3) = update_where (live_session (ten c) (claim_sid c))
      (\<lambda>r. r\<lparr>current_jti := uuids s1 + 1, last_seen_at := db_now (tdb s2)\<rparr>) (sessions (tdb s2))"
    and ex: "list_ex (live_session (ten c) (claim_sid c)) (sessions (tdb s2))"
    using st(5) c' by (auto simp: on_db_def touch_session_def)
  have "list_ex (live_session (ten c) (claim_sid c)) (sessions (tdb s3))"
    unfolding sess by (rule list_ex_update_where [OF ex]) (simp add: live_session_def)
  moreover have "tdb s' = tdb s3"
    using allow_refresh_frame(1) [of cfg "uuids s1 + 1" "sub c'" s3] st(6) by simp
  ultimately show ?thesis
    using gone again st(7) c' u old by (auto simp: rotated_def intro!: exI)
qed


section \<open>An instance of the token library\<close>

text \<open>A self-delimiting textual encoding: enough to show that \<open>jwt_ok\<close> can hold.\<close>

definition enc_nat :: "nat \<Rightarrow> string" where
  "enc_nat n = replicate n (CHR ''1'') @ ''0''"

definition enc_str :: "string \<Rightarrow> string" where
  "enc_str w = enc_nat (length w) @ w"

definition enc_int :: "int \<Rightarrow> string" where
  "enc_int z = (if z < 0 then CHR ''-'' else CHR ''+'') # enc_nat (nat (abs z))"

definition dec_nat :: "string \<Rightarrow> nat \<times> string" where
  "dec_nat s = (length (takeWhile (\<lambda>c. c = CHR ''1'') s), tl (dropWhile (\<lambda>c. c = CHR ''1'') s))"

definition dec_str :: "string \<Rightarrow> string \<times> string" where
  "dec_str s = (case dec_nat s of (n, r) \<Rightarrow> (take n r, drop n r))"

definition dec_int :: "string \<Rightarrow> int \<times> string" where
  "dec_int s = (case dec_nat (tl s) of (n, r) \<Rightarrow> (if hd s = CHR ''-'' then - int n else int n, r))"

lemma dec_enc_nat: "dec_nat (enc_nat n @ r) = (n, r)"
proof -
  have "takeWhile (\<lambda>c. c = CHR ''1'') (replicate n CHR ''1'' @ CHR ''0'' # r) = replicate n CHR ''1''"
    "dropWhile (\<lambda>c. c = CHR ''1'') (replicate n CHR ''1'' @ CHR ''0'' # r) = CHR ''0'' # r"
    by (induction n) simp_all
  then show ?thesis by (simp add: dec_nat_def enc_nat_def)
qed

lemma dec_enc_str: "dec_str (enc_str w @ r) = (w, r)"
  by (simp add: dec_str_def enc_str_def dec_enc_nat)

lemma dec_enc_int: "dec_int (enc_int z @ r) = (z, r)"
  by (simp add: dec_int_def enc_int_def dec_enc_nat)

definition plain_encode :: "string \<Rightarrow> claims \<Rightarrow> string" where
  "plain_encode k c = enc_str k @ enc_nat (sub c) @ enc_nat (ten c) @ enc_str (claim_role c)
     @ enc_str (claim_typ c) @ enc_int (exp_at c) @ enc_int (iat c) @ enc_nat (jti c) @ enc_nat (claim_sid c)"

definition plain_decode :: "string \<Rightarrow> int \<Rightarrow> string \<Rightarrow> claims option" where
  "plain_decode k now t =
     (let (_, r) = dec_str t; (a, r) = dec_nat r; (b, r) = dec_nat r; (rl, r) = dec_str r;
          (ty, r) = dec_str r; (e, r) = dec_int r; (i, r) = dec_int r; (j, r) = dec_nat r;
          (x, r) = dec_nat r;
          c = \<lparr>sub = a, ten = b, claim_role = rl, claim_typ = ty, exp_at = e, iat = i, jti = j, claim_sid = x\<rparr>
      in if plain_encode k c = t \<and> now \<le> e then Some c else None)"

definition plain_jwt :: jwt_library where
  "plain_jwt = \<lparr>jwt_encode = plain_encode, jwt_decode = plain_decode\<rparr>"

lemma plain_jwt_ok: "jwt_ok plain_jwt"
proof -
  have dec: "plain_decode k now (plain_encode k c) = (if now \<le> exp_at c then Some c else None)" for k now c
  proof -
    have "dec_nat (enc_nat (claim_sid c)) = (claim_sid c, [])"
      using dec_enc_nat [of "claim_sid c" "[]"] by simp
    moreover have "plain_encode k \<lparr>sub = sub c, ten = ten c, claim_role = claim_role c,
        claim_typ = claim_typ c, exp_at = exp_at c, iat = iat c, jti = jti c, claim_sid = claim_sid c\<rparr> =
        plain_encode k c"
      by (simp add: plain_encode_def)
    moreover have "dec_str (plain_encode k c) = (k, enc_nat (sub c) @ enc_nat (ten c) @ enc_str (claim_role c)
     @ enc_str (claim_typ c) @ enc_int (exp_at c) @ enc_int (iat c) @ enc_nat (jti c) @ enc_nat (claim_sid c))"
      by (simp add: plain_encode_def dec_enc_str)
    ultimately show ?thesis
      by (simp add: plain_decode_def Let_def dec_enc_str dec_enc_nat dec_enc_int)
  qed
  moreover have "t = plain_encode k c" if "plain_decode k now t = Some c" for k now t c
    using that by (auto simp: plain_decode_def Let_def split: prod.splits if_splits)
  ultimately show ?thesis
    by (auto simp: jwt_ok_def plain_jwt_def)
qed


text \<open>
  A concrete run: Ann signs up in an empty system whose cache always answers, and refreshes
  with the cookie she was given.
\<close>

definition example_cfg :: api_config where
  "example_cfg = \<lparr>jwt_secret = ''s'', access_ttl_secs = 9, refresh_ttl_secs = 99,
     rate_limit_max = 3, rate_limit_window_secs = 60, auth_rate_limit_max = 2\<rparr>"

definition up_redis :: redis where
  "up_redis = \<lparr>keyspace = (\<lambda>_. None), clock = 0, link_up = (\<lambda>_. True), issued = 0\<rparr>"

definition start_state :: api_state where
  "start_state = \<lparr>tdb = empty_db, cache_srv = up_redis, uuids = 1, api_keys = []\<rparr>"

definition plain_request :: request where
  "plain_request = \<lparr>authorization = None, access_cookie = None, refresh_cookie = None,
     body_refresh_token = None, x_api_key = None, x_forwarded_for = None,
     user_agent_header = None, peer_addr = Some ''1.2.3.4''\<rparr>"

definition ann_state :: api_state where
  "ann_state = snd (sign_up_handler plain_jwt plain_hash example_cfg 0 plain_request
     ''ann@x.io'' ''password'' ''Ann'' start_state)"

definition ann_refresh :: claims where
  "ann_refresh = \<lparr>sub = 2, ten = 1, claim_role = ''owner'', claim_typ = ''refresh'', exp_at = 99,
     iat = 0, jti = 3, claim_sid = 1\<rparr>"

definition with_refresh :: "claims \<Rightarrow> request" where
  "with_refresh c = plain_request\<lparr>refresh_cookie := Some (plain_encode ''s'' c)\<rparr>"

lemma ann_tokens:
  "fst (sign_up_handler plain_jwt plain_hash example_cfg 0 plain_request
     ''ann@x.io'' ''password'' ''Ann'' start_state) \<noteq> Inl e"
  "uuids ann_state = 4" "allowlisted ann_state 3" "db_now (tdb ann_state) = 0"
  "map sid (sessions (tdb ann_state)) = [1]"
  by code_simp+


lemma ann_users:
  "users (tdb ann_state) = [new_user 2 1 ''ann@x.io'' ''Ann'' ''owner'' ''password'']"
  by code_simp

definition ann_result :: "(api_error + tokens) \<times> api_state" where
  "ann_result = refresh_handler plain_jwt example_cfg (with_refresh ann_refresh) ann_state"

lemma ann_refreshes:
  obtains t s' where
    "refresh_handler plain_jwt example_cfg (with_refresh ann_refresh) ann_state = (Inr t, s')"
    "ann_result = (Inr t, s')"
proof -
  have "(case fst ann_result of Inr _ \<Rightarrow> True | Inl _ \<Rightarrow> False)" by code_simp
  then obtain t where "fst ann_result = Inr t"
    by (cases "fst ann_result") auto
  then have "ann_result = (Inr t, snd ann_result)" by (simp add: prod_eq_iff)
  then show ?thesis using that unfolding ann_result_def by metis
qed

lemma with_refresh_token:
  "refresh_token_from (with_refresh c) = Some (jwt_encode plain_jwt (jwt_secret example_cfg) c)"
  by (simp add: refresh_token_from_def with_refresh_def plain_request_def plain_jwt_def example_cfg_def)

theorem refresh_rotates_witness:
  "\<not> allowlisted (snd ann_result) 3
     \<and> (\<exists>e. fst (refresh_handler plain_jwt example_cfg (with_refresh ann_refresh) (snd ann_result)) = Inl e)"
proof -
  obtain t s' where t: "refresh_handler plain_jwt example_cfg (with_refresh ann_refresh) ann_state = (Inr t, s')"
      "ann_result = (Inr t, s')"
    by (rule ann_refreshes)
  have "jti ann_refresh < uuids ann_state" "jti ann_refresh = 3"
    by (simp_all add: ann_tokens ann_refresh_def)
  with refresh_rotates [OF plain_jwt_ok t(1) with_refresh_token] show ?thesis
    unfolding t(2) snd_conv by simp
qed

text \<open>
  The role in a token pair is the role in the refresh token presented, not the role in
  the users table: whatever that table says by then (a demotion, say), the holder of a
  refresh token whose claims name an admin or owner gets, with the new access token, through
  the admin gate.
\<close>

theorem refresh_keeps_role:
  assumes ok: "jwt_ok jwt" and r: "refresh_handler jwt cfg req s = (Inr t, s')"
    and tok: "refresh_token_from req = Some (jwt_encode jwt (jwt_secret cfg) c)"
    and rank: "2 \<le> role_rank (claim_role c)"
    and later: "db_now (tdb s'') = db_now (tdb s)"
    and req': "x_api_key req' = None" "authorization req' = None" "access_cookie req' = Some (access_token t)"
  shows "\<exists>u. require_admin (authed_user_from jwt sha cfg None req' s'') = Inr u
    \<and> auth_user u = sub c \<and> auth_role u = claim_role c"
proof -
  from r obtain token c' s1 s2 s3 where st: "refresh_token_from req = Some token"
    "verify jwt cfg token ''refresh'' s = Inr c'" "consume_refresh (jti c') s = (Some True, s1)"
    "t = \<lparr>access_token = jwt_encode jwt (jwt_secret cfg) (rotated cfg c' ''access'' (uuids s1) (db_now (tdb s1))),
          refresh_token = jwt_encode jwt (jwt_secret cfg) (rotated cfg c' ''refresh'' (uuids s1 + 1) (db_now (tdb s1)))\<rparr>"
    by (rule refresh_handler_cases)
  have "token = jwt_encode jwt (jwt_secret cfg) c"
    using st(1) tok by simp
  then have c': "c' = c"
    using verify_encoded [OF ok, of cfg c "''refresh''" s c'] st(2) by simp
  have now: "db_now (tdb s1) = db_now (tdb s)"
    using consume_refresh_frame(1) [of "jti c'" s] st(3) by simp
  let ?a = "rotated cfg c ''access'' (uuids s1) (db_now (tdb s))"
  have "verify jwt cfg (jwt_encode jwt (jwt_secret cfg) ?a) ''access'' s'' = Inr ?a"
    using later by (intro verify_fresh [OF ok]) (auto simp: rotated_def)
  then show ?thesis
    using req' rank by (simp add: authed_user_from_def access_token_from_parts_def st(4) c' now
        require_admin_def from_claims_def rotated_def)
qed

theorem refresh_keeps_role_witness:
  "let s2 = (snd ann_result)\<lparr>tdb := snd (update_user 1 2 (Some ''viewer'') None (tdb (snd ann_result)))\<rparr>
   in map role (users (tdb s2)) = [''viewer'']
     \<and> (\<exists>t u. fst ann_result = Inr t \<and> require_admin (authed_user_from plain_jwt id example_cfg None
            (plain_request\<lparr>access_cookie := Some (access_token t)\<rparr>) s2) = Inr u)"
proof -
  let ?s2 = "(snd ann_result)\<lparr>tdb := snd (update_user 1 2 (Some ''viewer'') None (tdb (snd ann_result)))\<rparr>"
  obtain t s' where t: "refresh_handler plain_jwt example_cfg (with_refresh ann_refresh) ann_state = (Inr t, s')"
      "ann_result = (Inr t, s')"
    by (rule ann_refreshes)
  have "users (tdb (snd ann_result)) = users (tdb ann_state)" "db_now (tdb (snd ann_result)) = db_now (tdb ann_state)"
    unfolding t(2) snd_conv using refresh_handler_tables [OF t(1)] by simp_all
  then have rl: "map role (users (tdb ?s2)) = [''viewer'']" and now: "db_now (tdb ?s2) = db_now (tdb ann_state)"
    by (simp_all add: update_user_def Let_def ann_users new_user_def)
  have rank: "2 \<le> role_rank (claim_role ann_refresh)"
    by (simp add: ann_refresh_def)
  let ?q = "plain_request\<lparr>access_cookie := Some (access_token t)\<rparr>"
  have q: "x_api_key ?q = None" "authorization ?q = None" "access_cookie ?q = Some (access_token t)"
    by (simp_all add: plain_request_def)
  obtain u where "require_admin (authed_user_from plain_jwt id example_cfg None ?q ?s2) = Inr u"
    using refresh_keeps_role [OF plain_jwt_ok t(1) with_refresh_token rank now q] by blast
  moreover have "fst ann_result = Inr t"
    unfolding t(2) by simp
  ultimately show ?thesis
    using rl unfolding Let_def by blast
qed

section \<open>Sign-in and revocation\<close>

lemma start_session_up:
  assumes "link_up (cache_srv s) (issued (cache_srv s))" "0 < refresh_ttl_secs cfg"
  shows "\<exists>t s'. start_session jwt cfg req u t' rl s = (Inr t, s')"
  using assms by (simp add: start_session_def new_uuid_def mint_eq Let_def allow_refresh_def
      on_cache_def cache_set_with_ttl_def command_def)

text \<open>
  Suspending an account does not close its door: sign-in looks at the password and at
  the tenant, never at the user's status, so a suspended user whose tenant is in order gets
  a new session.
\<close>

theorem suspended_user_signs_in:
  assumes "verify_credentials verify_pw mail pw (tdb s) = Some (Some idt)"
    and "status (id_user idt) = ''suspended''"
    and "map_option suspended (get_tenant (tenant_key (id_tenant idt)) (tdb s)) = Some False"
    and "link_up (cache_srv s) (issued (cache_srv s))" and "0 < refresh_ttl_secs cfg"
  shows "\<exists>t s'. sign_in_handler jwt verify_pw cfg req mail pw s = (Inr (idt, t), s')
    \<and> status (id_user idt) = ''suspended''"
proof -
  obtain t s' where "start_session jwt cfg req (user_key (id_user idt)) (tenant_key (id_tenant idt))
      (role (id_user idt)) s = (Inr t, s')"
    using start_session_up [OF assms(4,5)] by blast
  with assms show ?thesis by (auto simp: sign_in_handler_def)
qed

definition suspended_state :: api_state where
  "suspended_state = ann_state\<lparr>tdb := snd (update_user 1 2 None (Some ''suspended'') (tdb ann_state))\<rparr>"

theorem suspended_user_signs_in_witness:
  "map status (users (tdb suspended_state)) = [''suspended'']
    \<and> (\<exists>x s'. sign_in_handler plain_jwt plain_verify example_cfg plain_request ''ann@x.io'' ''password''
         suspended_state = (Inr x, s'))"
proof -
  have st: "map status (users (tdb suspended_state)) = [''suspended'']" by code_simp
  have "(case verify_credentials plain_verify ''ann@x.io'' ''password'' (tdb suspended_state) of
      Some (Some idt) \<Rightarrow> status (id_user idt) = ''suspended'' \<and>
        map_option suspended (get_tenant (tenant_key (id_tenant idt)) (tdb suspended_state)) = Some False
    | _ \<Rightarrow> False)" by code_simp
  then obtain idt where idt: "verify_credentials plain_verify ''ann@x.io'' ''password'' (tdb suspended_state) = Some (Some idt)"
    "status (id_user idt) = ''suspended''"
    "map_option suspended (get_tenant (tenant_key (id_tenant idt)) (tdb suspended_state)) = Some False"
    by (auto split: option.splits)
  have up: "link_up (cache_srv suspended_state) (issued (cache_srv suspended_state))" by code_simp
  have ttl: "0 < refresh_ttl_secs example_cfg" by (simp add: example_cfg_def)
  from suspended_user_signs_in [OF idt up ttl] st show ?thesis by blast
qed

text \<open>The traffic after a revocation: any handler, any administration, time, lost commands.\<close>

inductive api_step :: "jwt_library \<Rightarrow> hash_fn \<Rightarrow> verify_fn \<Rightarrow> api_config \<Rightarrow> api_state \<Rightarrow> api_state \<Rightarrow> bool"
  for jwt hash_pw verify_pw cfg where
  sign_up: "api_step jwt hash_pw verify_pw cfg s (snd (sign_up_handler jwt hash_pw cfg salt req m p n s))"
| sign_in: "api_step jwt hash_pw verify_pw cfg s (snd (sign_in_handler jwt verify_pw cfg req m p s))"
| refresh: "api_step jwt hash_pw verify_pw cfg s (snd (refresh_handler jwt cfg req s))"
| sign_out: "api_step jwt hash_pw verify_pw cfg s (snd (sign_out_handler jwt cfg req s))"
| revoke: "api_step jwt hash_pw verify_pw cfg s (snd (revoke_session_handler u x s))"
| revoke_others: "api_step jwt hash_pw verify_pw cfg s (snd (revoke_other_sessions_handler u s))"
| administration: "tenancy_step hash_pw (tdb s) d \<Longrightarrow> sessions d = sessions (tdb s) \<Longrightarrow>
    api_step jwt hash_pw verify_pw cfg s (s\<lparr>tdb := d\<rparr>)"
| cache_change: "api_step jwt hash_pw verify_pw cfg s (s\<lparr>cache_srv := r\<rparr>)"

inductive api_run :: "jwt_library \<Rightarrow> hash_fn \<Rightarrow> verify_fn \<Rightarrow> api_config \<Rightarrow> api_state \<Rightarrow> api_state \<Rightarrow> bool"
  for jwt hash_pw verify_pw cfg where
  "api_run jwt hash_pw verify_pw cfg s s"
| "api_run jwt hash_pw verify_pw cfg s s' \<Longrightarrow> api_step jwt hash_pw verify_pw cfg s' s'' \<Longrightarrow>
    api_run jwt hash_pw verify_pw cfg s s''"

text \<open>No row of the session table is live under this identifier, and none will be issued it.\<close>

definition dead_session :: "uuid \<Rightarrow> uuid \<Rightarrow> api_state \<Rightarrow> bool" where
  "dead_session t x s = (x < uuids s \<and> \<not> list_ex (live_session t x) (sessions (tdb s)))"

lemma not_live_update:
  assumes "\<not> list_ex (live_session t x) rows"
    and "\<And>r. live_session t x (f r) \<Longrightarrow> live_session t x r"
  shows "\<not> list_ex (live_session t x) (update_where P f rows)"
  using assms by (induction rows) auto

lemma dead_same_db:
  "dead_session t x s \<Longrightarrow> tdb s' = tdb s \<Longrightarrow> uuids s \<le> uuids s' \<Longrightarrow> dead_session t x s'"
  by (simp add: dead_session_def)

lemma dead_update:
  assumes "dead_session t x s" and "\<And>r. live_session t x (f r) \<Longrightarrow> live_session t x r"
  shows "x < uuids s \<and> \<not> list_ex (live_session t x) (update_where P f (sessions (tdb s)))"
  using assms not_live_update by (auto simp: dead_session_def)

lemma dead_touch: "dead_session t x s \<Longrightarrow> dead_session t x (snd (on_db (touch_session t' y j) s))"
  by (drule dead_update [where P = "live_session t' y"
        and f = "\<lambda>r. r\<lparr>current_jti := j, last_seen_at := db_now (tdb s)\<rparr>"])
     (simp_all add: live_session_def on_db_def touch_session_def dead_session_def)

lemma dead_revoke: "dead_session t x s \<Longrightarrow> dead_session t x (snd (on_db (revoke_session t' y) s))"
  by (drule dead_update [where P = "live_session t' y" and f = "\<lambda>r. r\<lparr>revoked_at := Some (db_now (tdb s))\<rparr>"])
     (simp_all add: live_session_def on_db_def revoke_session_def dead_session_def)

lemma dead_revoke_others:
  "dead_session t x s \<Longrightarrow> dead_session t x (snd (on_db (revoke_other_sessions t' u k) s))"
  by (drule dead_update [where P = "\<lambda>r. session_tenant r = t' \<and> session_user r = u \<and> revoked_at r = None
        \<and> (case k of None \<Rightarrow> True | Some k \<Rightarrow> sid r \<noteq> k)" and f = "\<lambda>r. r\<lparr>revoked_at := Some (db_now (tdb s))\<rparr>"])
     (simp_all add: live_session_def on_db_def revoke_other_sessions_def Let_def dead_session_def)

lemma dead_cache:
  "dead_session t x s \<Longrightarrow> dead_session t x (snd (allow_refresh cfg j u s))"
  "dead_session t x s \<Longrightarrow> dead_session t x (snd (consume_refresh j s))"
  "dead_session t x s \<Longrightarrow> dead_session t x (snd (revoke_refresh j s))"
  by (auto intro: dead_same_db simp: refresh_frames)

lemma dead_revoke_all: "dead_session t x s \<Longrightarrow> dead_session t x (revoke_all js s)"
  by (induction js arbitrary: s) (auto intro: dead_cache)

lemma dead_start_session:
  assumes "dead_session t x s"
  shows "dead_session t x (snd (start_session jwt cfg req u t' rl s))"
proof -
  let ?s = "s\<lparr>uuids := uuids s + 3\<rparr>"
  have d: "dead_session t x (snd (allow_refresh cfg j u ?s))" for j
    using assms by (intro dead_cache) (simp add: dead_session_def)
  have e: "tdb (snd (allow_refresh cfg j u ?s)) = tdb s" "uuids (snd (allow_refresh cfg j u ?s)) = uuids s + 3" for j
    by (simp_all add: refresh_frames)
  show ?thesis
    using assms d [of "uuids s + 2"] e [of "uuids s + 2"]
    by (auto simp: start_session_def new_uuid_def mint_eq Let_def insert_session_def dead_session_def
        live_session_def numeral_3_eq_3 split: prod.splits option.splits)
qed


lemma dead_sign_in: "dead_session t x s \<Longrightarrow> dead_session t x (snd (sign_in_handler jwt v cfg req m p s))"
  using dead_start_session [of t x s jwt cfg req]
  by (auto simp: sign_in_handler_def split: option.splits sum.splits prod.splits)
     (metis snd_conv)+

lemma sign_up_sessions:
  "sessions (snd (sign_up_with_invite hash_pw salt mail pw nm db)) = sessions db"
  by (auto simp: sign_up_with_invite_def sign_up_def Let_def split: list.split option.split)

lemma dead_sign_up:
  assumes "dead_session t x s"
  shows "dead_session t x (snd (sign_up_handler jwt h cfg salt req m p n s))"
proof -
  let ?s = "snd (on_db (sign_up_with_invite h salt (clean_email m) p (trim n)) s)"
  have d: "dead_session t x ?s"
    using assms by (simp add: on_db_def case_prod_beta dead_session_def sign_up_sessions)
  then show ?thesis
    using assms dead_start_session [OF d, of jwt cfg req]
    by (auto simp: sign_up_handler_def Let_def split: option.splits sum.splits prod.splits sign_up_error.splits)
       (metis snd_conv)+
qed

lemma dead_refresh: 
  assumes "dead_session t x s"
  shows "dead_session t x (snd (refresh_handler jwt cfg req s))"
proof -
  have a: "dead_session t x (snd (consume_refresh j s))" for j
    using assms by (rule dead_cache)
  have b: "dead_session t x (s'\<lparr>uuids := n\<rparr>)" if "dead_session t x s'" "uuids s' \<le> n" for s' n
    using that by (simp add: dead_session_def)
  show ?thesis
    unfolding refresh_handler_def
    using assms a
    by (auto simp: Let_def mint_eq split: option.splits sum.splits prod.splits bool.splits)
       (metis snd_conv b dead_touch dead_cache(1) le_SucI le_refl)+
qed


lemma dead_sign_out:
  assumes "dead_session t x s"
  shows "dead_session t x (snd (sign_out_handler jwt cfg req s))"
proof -
  have "dead_session t x (snd (revoke_refresh j s))" for j
    using assms by (rule dead_cache)
  then show ?thesis
    using assms dead_revoke
    by (auto simp: sign_out_handler_def split: option.splits sum.splits prod.splits) (metis snd_conv)+
qed

lemma dead_revoke_handler:
  assumes "dead_session t x s"
  shows "dead_session t x (snd (revoke_session_handler u y s))"
proof -
  let ?s = "snd (on_db (revoke_session (auth_tenant u) y) s)"
  have d: "dead_session t x ?s"
    using assms by (rule dead_revoke)
  then show ?thesis
    using dead_cache(3) [OF d]
    by (auto simp: revoke_session_handler_def split: option.splits prod.splits) (metis snd_conv)+
qed

lemma dead_step [il_inv]:
  "api_step jwt h v cfg s s' \<Longrightarrow> dead_session t x s \<Longrightarrow> dead_session t x s'"
proof (induction rule: api_step.induct)
  case (revoke_others s u)
  then show ?case
    using dead_revoke_others [of t x s "auth_tenant u" "auth_user u" "Some (auth_session u)"]
    by (auto simp: revoke_other_sessions_handler_def split: prod.splits intro: dead_revoke_all)
next
  case (administration s d)
  then show ?case by (simp add: dead_session_def)
next
  case (cache_change s r)
  then show ?case by (simp add: dead_session_def)
qed (simp_all add: dead_sign_up dead_sign_in dead_refresh dead_sign_out dead_revoke_handler)

lemma dead_run: "api_run jwt h v cfg s s' \<Longrightarrow> dead_session t x s \<Longrightarrow> dead_session t x s'"
  by (induction rule: api_run.induct) (auto intro: il_inv)

lemma revoke_handler_kills:
  assumes "x < uuids s"
  shows "dead_session (auth_tenant u) x (snd (revoke_session_handler u x s))"
proof -
  let ?d = "snd (on_db (revoke_session (auth_tenant u) x) s)"
  have "\<not> list_ex (live_session (auth_tenant u) x) (update_where (live_session (auth_tenant u) x)
      (\<lambda>r. r\<lparr>revoked_at := Some (db_now (tdb s))\<rparr>) rows)" for rows
    by (induction rows) (auto simp: live_session_def)
  then have d: "dead_session (auth_tenant u) x ?d"
    using assms by (simp add: dead_session_def on_db_def revoke_session_def)
  then show ?thesis
    using dead_cache(3) [OF d]
    by (auto simp: revoke_session_handler_def split: option.splits prod.splits) (metis snd_conv)+
qed

text \<open>
  C20. Revoking a session is final. After any user of a tenant revoked a session of that
  tenant (the handler asks no more than that of the caller), no refresh token of the session
  gets new tokens, whatever sign-ins, refreshes, sign-outs, revocations, administration and
  cache losses or restorations happen in between: even if its identifier were back on the
  allowlist, the session row refuses it.
\<close>

theorem revoked_session_never_refreshes:
  assumes ok: "jwt_ok jwt" and x: "x < uuids s"
    and run: "api_run jwt h v cfg (snd (revoke_session_handler u x s)) s'"
    and tok: "refresh_token_from req = Some (jwt_encode jwt (jwt_secret cfg) c)"
    and c: "ten c = auth_tenant u" "claim_sid c = x"
  shows "\<exists>e. fst (refresh_handler jwt cfg req s') = Inl e"
proof (cases "fst (refresh_handler jwt cfg req s')")
  case (Inr t)
  then obtain s'' where r: "refresh_handler jwt cfg req s' = (Inr t, s'')"
    by (metis prod.collapse)
  have dead: "dead_session (auth_tenant u) x s'"
    using dead_run [OF run revoke_handler_kills [OF x]] .
  from r obtain token c' s1 s2 s3 where st: "refresh_token_from req = Some token"
    "verify jwt cfg token ''refresh'' s' = Inr c'" "consume_refresh (jti c') s' = (Some True, s1)"
    "s2 = s1\<lparr>uuids := uuids s1 + 2\<rparr>"
    "on_db (touch_session (ten c') (claim_sid c') (uuids s1 + 1)) s2 = (True, s3)"
    by (rule refresh_handler_cases)
  have "token = jwt_encode jwt (jwt_secret cfg) c"
    using st(1) tok by simp
  then have "c' = c"
    using verify_encoded [OF ok, of cfg c "''refresh''" s' c'] st(2) by simp
  then have "list_ex (live_session (auth_tenant u) x) (sessions (tdb s1))"
    using st(4,5) c by (simp add: on_db_def touch_session_def)
  moreover have "tdb s1 = tdb s'"
    using consume_refresh_frame(1) [of "jti c'" s'] st(3) by simp
  ultimately show ?thesis
    using dead by (simp add: dead_session_def)
qed simp

theorem revoked_session_never_refreshes_witness:
  "let s = snd (revoke_session_handler \<lparr>auth_user = 2, auth_tenant = 1, auth_role = ''owner'', auth_session = 1\<rparr> 1 ann_state);
       s' = s\<lparr>cache_srv := cache_srv ann_state\<rparr>
   in allowlisted s' 3
     \<and> (\<exists>e. fst (refresh_handler plain_jwt example_cfg (with_refresh ann_refresh) s') = Inl e)"
proof -
  let ?u = "\<lparr>auth_user = 2, auth_tenant = 1, auth_role = ''owner'', auth_session = 1\<rparr>"
  let ?s = "snd (revoke_session_handler ?u 1 ann_state)"
  let ?s' = "?s\<lparr>cache_srv := cache_srv ann_state\<rparr>"
  have run: "api_run plain_jwt plain_hash plain_verify example_cfg ?s ?s'"
    by (rule api_run.intros(2) [OF api_run.intros(1) api_step.cache_change])
  have "1 < uuids ann_state" by (simp add: ann_tokens)
  moreover have "ten ann_refresh = auth_tenant ?u" "claim_sid ann_refresh = 1"
    by (simp_all add: ann_refresh_def)
  ultimately have "\<exists>e. fst (refresh_handler plain_jwt example_cfg (with_refresh ann_refresh) ?s') = Inl e"
    by (rule revoked_session_never_refreshes [OF plain_jwt_ok _ run with_refresh_token])
  moreover have "allowlisted ?s' 3"
    using ann_tokens(3) by (simp add: allowlisted_def)
  ultimately show ?thesis by (simp add: Let_def)
qed

end
