(* ===== verification/RateLimit.thy ===== *)
theory RateLimit
  imports Auth
begin

text \<open>
  \<open>insight-api/src/middleware.rs\<close>: the fixed-window limiter over the cache, its two layers
  (per tenant on authenticated traffic, per address on the sign-in endpoints), and the
  audit rule. A layer answers \<open>Rejected\<close> with the Retry-After seconds or passes the request
  on, with what it left in the request. The theorems bound what one window lets through
  under arbitrary cache failures and show what an API-key caller meets.
\<close>

datatype verdict = Pass "authed_user option" | Rejected nat

definition fixed_window :: "string \<Rightarrow> nat \<Rightarrow> nat \<Rightarrow> redis \<Rightarrow> nat option \<times> redis" where
  "fixed_window key max_hits window r =
     (case cache_incr key r of
        (None, r) \<Rightarrow> (None, r)
      | (Some n, r) \<Rightarrow>
          (let r = (case cache_ttl key r of
                      (Some None, r) \<Rightarrow> snd (cache_expire key window r)
                    | (_, r) \<Rightarrow> r)
           in if n \<le> int max_hits then (None, r)
              else (case cache_ttl key r of
                      (Some (Some t), r) \<Rightarrow> (Some (if 0 < t then t else window), r)
                    | (_, r) \<Rightarrow> (Some window, r))))"

definition client_ip :: "request \<Rightarrow> string option" where
  "client_ip req =
     (case x_forwarded_for req of
        Some v \<Rightarrow> (let first = trim (hd (split_on CHR '','' v))
                   in if first \<noteq> [] then Some first else peer_addr req)
      | None \<Rightarrow> peer_addr req)"

definition tenant_rl_key :: "uuid \<Rightarrow> string" where
  "tenant_rl_key t = ''rl:tenant:'' @ show_nat t"

definition auth_rl_key :: "string \<Rightarrow> string" where
  "auth_rl_key ip = ''rl:auth:'' @ ip"

definition rate_limit ::
  "jwt_library \<Rightarrow> api_config \<Rightarrow> request \<Rightarrow> api_state \<Rightarrow> verdict \<times> api_state" where
  "rate_limit jwt cfg req s =
     (case access_token_from_parts req of
        None \<Rightarrow> (Pass None, s)
      | Some token \<Rightarrow> (case verify jwt cfg token ''access'' s of
          Inl _ \<Rightarrow> (Pass None, s)
        | Inr c \<Rightarrow>
            (case on_cache (fixed_window (tenant_rl_key (ten c)) (rate_limit_max cfg)
                     (rate_limit_window_secs cfg)) s of
               (Some t, s) \<Rightarrow> (Rejected t, s)
             | (None, s) \<Rightarrow> (Pass (Some (from_claims c)), s))))"

definition auth_rate_limit :: "api_config \<Rightarrow> request \<Rightarrow> api_state \<Rightarrow> verdict \<times> api_state" where
  "auth_rate_limit cfg req s =
     (case client_ip req of
        None \<Rightarrow> (Pass None, s)
      | Some ip \<Rightarrow>
          (case on_cache (fixed_window (auth_rl_key ip) (auth_rate_limit_max cfg)
                   (rate_limit_window_secs cfg)) s of
             (Some t, s) \<Rightarrow> (Rejected t, s)
           | (None, s) \<Rightarrow> (Pass None, s)))"

definition is_audited :: "string \<Rightarrow> bool" where
  "is_audited path = list_ex (starts_with path)
     [''/api/admin'', ''/api/org/settings'', ''/api/users'', ''/api/webhooks'', ''/api/ai/'',
      ''/api/ontologies'', ''/api/evaluation/golden'', ''/api/sources'', ''/api/api-keys'']"

record audit_entry =
  audit_tenant :: uuid
  audit_actor :: string
  audit_action :: string
  audit_target :: string

text \<open>The entry a finished request leaves in the audit log, if any.\<close>

definition audit :: "string \<Rightarrow> string \<Rightarrow> authed_user option \<Rightarrow> nat \<Rightarrow> audit_entry option" where
  "audit verb path actor response_status =
     (if verb \<in> {''POST'', ''PUT'', ''PATCH'', ''DELETE''}
         \<and> 200 \<le> response_status \<and> response_status < 300 \<and> is_audited path
      then map_option (\<lambda>u. \<lparr>audit_tenant = auth_tenant u, audit_actor = show_nat (auth_user u),
             audit_action = verb @ '' '' @ path, audit_target = path\<rparr>) actor
      else None)"

section \<open>One counter\<close>

text \<open>
  A counter key holds a rendered count, and while it is alive it lives at least until \<open>T\<close>.
\<close>

definition hits :: "string \<Rightarrow> redis \<Rightarrow> int" where
  "hits key r = (case live r key of
       None \<Rightarrow> 0
     | Some e \<Rightarrow> (case parse_i64 (entry_value e) of None \<Rightarrow> 0 | Some n \<Rightarrow> n))"

definition counter_ok :: "string \<Rightarrow> nat \<Rightarrow> redis \<Rightarrow> bool" where
  "counter_ok key T r = (\<forall>e. live r key = Some e \<longrightarrow>
     (\<exists>n. parse_i64 (entry_value e) = Some n \<and> 0 \<le> n \<and> n < 2 ^ 63)
     \<and> (\<forall>t. deadline e = Some t \<longrightarrow> T \<le> t))"

lemma hits_nonneg: "counter_ok key T r \<Longrightarrow> 0 \<le> hits key r"
  by (auto simp: counter_ok_def hits_def split: option.split)

lemma incr_cases:
  assumes ok: "counter_ok key T r" and T: "clock r < T"
  obtains
    (failed) r' where "cache_incr key r = (None, r')" "counter_ok key T r'" "hits key r' = hits key r"
      "clock r' = clock r"
  | (counted) r' where "cache_incr key r = (Some (hits key r + 1), r')" "counter_ok key T r'"
      "hits key r' = hits key r + 1" "clock r' = clock r"
proof -
  let ?r = "r\<lparr>issued := issued r + 1\<rparr>"
  have same: "counter_ok key T ?r" "hits key ?r = hits key r" "clock ?r = clock r"
    using ok by (simp_all add: counter_ok_def hits_def)
  show ?thesis
  proof (cases "link_up r (issued r)")
    case False
    then have "cache_incr key r = (None, ?r)"
      by (simp add: cache_incr_def command_def Let_def)
    with same show ?thesis by (rule failed [rotated])
  next
    case up: True
    show ?thesis
    proof (cases "live r key")
      case None
      let ?r' = "put_entry key (Some \<lparr>entry_value = show_int 1, deadline = None\<rparr>) ?r"
      have "cache_incr key r = (Some 1, ?r')"
        using up None by (simp add: cache_incr_def command_def Let_def)
      moreover have "hits key r = 0" "counter_ok key T ?r'" "hits key ?r' = 1" "clock ?r' = clock r"
        using None by (simp_all add: hits_def counter_ok_def live_put_entry parse_i64_show_int)
      ultimately show ?thesis by (intro counted [of ?r']) simp_all
    next
      case (Some e)
      with ok obtain n where n: "parse_i64 (entry_value e) = Some n" "0 \<le> n" "n < 2 ^ 63"
        and dl: "\<And>t. deadline e = Some t \<Longrightarrow> T \<le> t"
        by (auto simp: counter_ok_def)
      have h: "hits key r = n" using Some n by (simp add: hits_def)
      show ?thesis
      proof (cases "n = 2 ^ 63 - 1")
        case True
        then have "cache_incr key r = (None, ?r)"
          using up Some n(1) by (simp add: cache_incr_def command_def Let_def)
        with same show ?thesis by (rule failed [rotated])
      next
        case False
        let ?e = "e\<lparr>entry_value := show_int (n + 1)\<rparr>"
        let ?r' = "put_entry key (Some ?e) ?r"
        have "cache_incr key r = (Some (n + 1), ?r')"
          using up Some n(1) False by (simp add: cache_incr_def command_def Let_def)
        moreover have "live ?r' key = Some ?e"
          using dl T by (auto simp: live_put_entry split: option.split dest: less_le_trans)
        then have "hits key ?r' = n + 1" "counter_ok key T ?r'"
          using n False dl by (simp_all add: hits_def counter_ok_def parse_i64_show_int)
        ultimately show ?thesis
          using h by (intro counted [of ?r']) simp_all
      qed
    qed
  qed
qed

lemma live_deadline: "live r key = Some e \<Longrightarrow> deadline e = Some t \<Longrightarrow> clock r < t"
  by (auto simp: live_def split: option.splits if_splits)

lemma ttl_frame:
  "live (snd (cache_ttl key r)) k = live r k" "clock (snd (cache_ttl key r)) = clock r"
  by (simp_all add: cache_ttl_def command_def Let_def)

lemma expire_counter:
  assumes "counter_ok key T r" "T \<le> clock r + window" "clock r < T"
  shows "counter_ok key T (snd (cache_expire key window r))"
    "hits key (snd (cache_expire key window r)) = hits key r"
    "clock (snd (cache_expire key window r)) = clock r"
  using assms
  by (auto simp: cache_expire_def command_def Let_def counter_ok_def hits_def live_put_entry
      split: option.splits)

lemma counter_ok_live_eq:
  "(\<And>k. live r' k = live r k) \<Longrightarrow> counter_ok key T r' = counter_ok key T r \<and> hits key r' = hits key r"
  by (simp add: counter_ok_def hits_def)

lemma fixed_window_step:
  fixes m :: nat
  assumes ok: "counter_ok key T r" and T: "clock r < T" "T \<le> clock r + window"
  defines "w \<equiv> fixed_window key m window r"
  shows "counter_ok key T (snd w) \<and> clock (snd w) = clock r
    \<and> (if fst (cache_incr key r) = None then hits key (snd w) = hits key r \<and> fst w = None
       else hits key (snd w) = hits key r + 1 \<and> (fst w = None \<longleftrightarrow> hits key r + 1 \<le> int m))"
  using ok T(1)
proof (cases rule: incr_cases)
  case (failed r')
  then show ?thesis by (simp add: w_def fixed_window_def)
next
  case (counted r1)
  let ?t = "cache_ttl key r1"
  let ?r2 = "case ?t of (Some None, r) \<Rightarrow> snd (cache_expire key window r) | (_, r) \<Rightarrow> r"
  have t: "counter_ok key T (snd ?t)" "hits key (snd ?t) = hits key r + 1" "clock (snd ?t) = clock r"
    using counted counter_ok_live_eq [of "snd ?t" r1 key T] by (simp_all add: ttl_frame)
  have r2: "counter_ok key T ?r2" "hits key ?r2 = hits key r + 1" "clock ?r2 = clock r"
    using t expire_counter [of key T "snd ?t" window] T
    by (auto split: prod.splits option.splits)
  let ?u = "cache_ttl key ?r2"
  have u: "counter_ok key T (snd ?u)" "hits key (snd ?u) = hits key r + 1" "clock (snd ?u) = clock r"
    using r2 counter_ok_live_eq [of "snd ?u" ?r2 key T] by (simp_all add: ttl_frame)
  obtain v where v: "(case ?u of (Some (Some t), r) \<Rightarrow> (Some (if 0 < t then t else window), r)
      | (_, r) \<Rightarrow> (Some window, r)) = (Some v, snd ?u)"
  proof -
    have "\<exists>v. (case p of (Some (Some t), r) \<Rightarrow> (Some (if 0 < t then t else window), r)
      | (_, r) \<Rightarrow> (Some window, r)) = (Some v, snd p)" for p :: "nat option option \<times> redis"
      by (auto split: prod.split option.split)
    then show ?thesis using that by blast
  qed
  have "w = (if hits key r + 1 \<le> int m then (None, ?r2)
      else (case ?u of (Some (Some t), r) \<Rightarrow> (Some (if 0 < t then t else window), r)
            | (_, r) \<Rightarrow> (Some window, r)))"
    by (simp add: w_def fixed_window_def Let_def counted(1))
  then have "w = (if hits key r + 1 \<le> int m then (None, ?r2) else (Some v, snd ?u))"
    by (simp only: v)
  then show ?thesis
    using counted(1) r2 u by simp
qed


section \<open>One window\<close>

datatype traffic = Hit | Wait nat

text \<open>Per request: did it pass, and did the counter see it.\<close>

fun window_run :: "string \<Rightarrow> nat \<Rightarrow> nat \<Rightarrow> traffic list \<Rightarrow> redis \<Rightarrow> (bool \<times> bool) list" where
  "window_run key m window [] r = []"
| "window_run key m window (Wait d # xs) r = window_run key m window xs (pass d r)"
| "window_run key m window (Hit # xs) r =
     (case fixed_window key m window r of
        (v, r') \<Rightarrow> (v = None, fst (cache_incr key r) \<noteq> None) # window_run key m window xs r')"

fun waited :: "traffic list \<Rightarrow> nat" where
  "waited [] = 0"
| "waited (Wait d # xs) = d + waited xs"
| "waited (Hit # xs) = waited xs"

definition admitted :: "(bool \<times> bool) list \<Rightarrow> nat" where
  "admitted bs = length (filter (\<lambda>(p, c). p \<and> c) bs)"

lemma counter_pass:
  assumes "counter_ok key T r" "clock r + d < T"
  shows "counter_ok key T (pass d r) \<and> hits key (pass d r) = hits key r \<and> clock (pass d r) = clock r + d"
proof -
  have "live (pass d r) key = live r key"
    using assms by (cases "live r key")
      (auto simp: live_def pass_def counter_ok_def split: option.splits if_splits)
  then show ?thesis using assms by (simp add: counter_ok_def hits_def pass_def)
qed

lemma window_run_admitted:
  "counter_ok key T r \<Longrightarrow> clock r + waited xs < T \<Longrightarrow> T \<le> clock r + window \<Longrightarrow>
    int (admitted (window_run key m window xs r)) \<le> max 0 (int m - hits key r)"
proof (induction xs arbitrary: r)
  case (Cons x xs)
  show ?case
  proof (cases x)
    case (Wait d)
    then have p: "counter_ok key T (pass d r)" "hits key (pass d r) = hits key r"
      "clock (pass d r) = clock r + d"
      using counter_pass [of key T r d] Cons.prems by auto
    with Wait Cons.prems Cons.IH [of "pass d r"] show ?thesis by simp
  next
    case Hit
    let ?r = "snd (fixed_window key m window r)"
    have st: "counter_ok key T ?r" "clock ?r = clock r"
      "if fst (cache_incr key r) = None
       then hits key ?r = hits key r \<and> fst (fixed_window key m window r) = None
       else hits key ?r = hits key r + 1
         \<and> (fst (fixed_window key m window r) = None \<longleftrightarrow> hits key r + 1 \<le> int m)"
      using fixed_window_step [of key T r window m] Hit Cons.prems by auto
    have "int (admitted (window_run key m window xs ?r)) \<le> max 0 (int m - hits key ?r)"
      using Hit Cons.prems st by (intro Cons.IH) auto
    with Hit st(3) show ?thesis
      by (auto simp: admitted_def case_prod_beta split: if_splits)
  qed
qed (simp add: admitted_def)

text \<open>
  C21. However requests and pauses are spread over less than one window that starts on a key
  that is not there, and whichever cache commands fail, at most \<open>max\<close> of the requests that
  reached the counter are let through. (A request whose increment fails is let through
  uncounted: the limiter is open when the cache is not there.)
\<close>

theorem rate_limit_bound:
  assumes "live r key = None" and "waited xs < window"
  shows "admitted (window_run key m window xs r) \<le> m"
proof -
  have "counter_ok key (clock r + window) r" "hits key r = 0"
    using assms by (simp_all add: counter_ok_def hits_def)
  with assms window_run_admitted [of key "clock r + window" r xs window m] show ?thesis
    by simp
qed

theorem rate_limit_bound_witness:
  "window_run ''rl:auth:x'' 2 60 [Hit, Wait 20, Hit, Hit, Wait 30, Hit] up_redis =
     [(True, True), (True, True), (False, True), (False, True)]
   \<and> admitted (window_run ''rl:auth:x'' 2 60 [Hit, Wait 20, Hit, Hit, Wait 30, Hit] up_redis) \<le> 2"
proof -
  have "live up_redis ''rl:auth:x'' = None" by code_simp
  then have "admitted (window_run ''rl:auth:x'' 2 60 [Hit, Wait 20, Hit, Hit, Wait 30, Hit] up_redis) \<le> 2"
    by (rule rate_limit_bound) simp
  moreover have "window_run ''rl:auth:x'' 2 60 [Hit, Wait 20, Hit, Hit, Wait 30, Hit] up_redis =
     [(True, True), (True, True), (False, True), (False, True)]" by code_simp
  ultimately show ?thesis by blast
qed

text \<open>
  The window always closes: after any request all of whose commands got through, the
  counter has a deadline, even if an earlier EXPIRE was lost and the key had none; so no
  caller stays locked out by an immortal counter.
\<close>

theorem rate_limit_heals:
  assumes up: "\<And>n. link_up r n" and w: "0 < window"
    and old: "live r key = None \<or> (\<exists>n. parse_i64 (entry_value (the (live r key))) = Some n \<and> n < 2 ^ 63 - 1)"
  shows "\<exists>e t. live (snd (fixed_window key m window r)) key = Some e \<and> deadline e = Some t"
proof -
  obtain r1 n e1 where r1: "cache_incr key r = (Some n, r1)" "live r1 key = Some e1"
      "clock r1 = clock r" "\<And>n. link_up r1 n"
  proof (cases "live r key")
    case None
    then show ?thesis
      using up that [of 1 "put_entry key (Some \<lparr>entry_value = show_int 1, deadline = None\<rparr>) (r\<lparr>issued := issued r + 1\<rparr>)"]
      by (simp add: cache_incr_def command_def Let_def live_put_entry)
  next
    case (Some e)
    then obtain n where n: "parse_i64 (entry_value e) = Some n" "n \<noteq> 2 ^ 63 - 1"
      using old by auto
    let ?r1 = "put_entry key (Some (e\<lparr>entry_value := show_int (n + 1)\<rparr>)) (r\<lparr>issued := issued r + 1\<rparr>)"
    have "live ?r1 key = Some (e\<lparr>entry_value := show_int (n + 1)\<rparr>)"
      using live_deadline [OF Some] by (auto simp: live_put_entry split: option.split)
    then show ?thesis
      using up n Some that [of "n + 1" ?r1] by (simp add: cache_incr_def command_def Let_def)
  qed
  let ?r2 = "case cache_ttl key r1 of (Some None, r) \<Rightarrow> snd (cache_expire key window r) | (_, r) \<Rightarrow> r"
  have r2: "\<exists>e t. live ?r2 key = Some e \<and> deadline e = Some t"
    using r1 w by (auto simp: cache_ttl_def cache_expire_def command_def Let_def live_put_entry
        split: option.split)
  have "snd (fixed_window key m window r) \<in> {?r2, snd (cache_ttl key ?r2)}"
    by (auto simp: fixed_window_def Let_def r1(1) split: prod.split option.split)
  then show ?thesis
    using r2 ttl_frame(1) [of key ?r2 key] by auto
qed

theorem rate_limit_heals_witness:
  "let r = put_entry ''k'' (Some \<lparr>entry_value = ''500'', deadline = None\<rparr>) up_redis;
       r' = snd (fixed_window ''k'' 2 60 r)
   in fst (fixed_window ''k'' 2 60 r) \<noteq> None \<and> (\<exists>e t. live r' ''k'' = Some e \<and> deadline e = Some t)"
proof -
  let ?r = "put_entry ''k'' (Some \<lparr>entry_value = ''500'', deadline = None\<rparr>) up_redis"
  have "link_up ?r n" for n by (simp add: up_redis_def)
  moreover have "parse_i64 ''500'' = Some 500" by code_simp
  then have "\<exists>n. parse_i64 (entry_value (the (live ?r ''k''))) = Some n \<and> n < 2 ^ 63 - 1"
    by (simp add: live_put_entry)
  ultimately have "\<exists>e t. live (snd (fixed_window ''k'' 2 60 ?r)) ''k'' = Some e \<and> deadline e = Some t"
    by (intro rate_limit_heals) auto
  moreover have "fst (fixed_window ''k'' 2 60 ?r) = Some 60" by code_simp
  ultimately show ?thesis by (simp add: Let_def)
qed

text \<open>
  A request that authenticates by an API key carries no access token, so the tenant
  limiter passes it on uncounted, and what it leaves in the request is no actor: a mutating
  call to an audited path leaves no audit entry either, although the extractor will accept
  the key.
\<close>

theorem api_key_calls_unlimited_unaudited:
  assumes "authorization req = None" and "access_cookie req = None"
  shows "rate_limit jwt cfg req s = (Pass None, s) \<and> audit verb path None st = None"
  using assms by (simp add: rate_limit_def access_token_from_parts_def audit_def)

theorem api_key_calls_unlimited_unaudited_witness:
  "let req = plain_request\<lparr>x_api_key := Some ''sk''\<rparr>;
       s = start_state\<lparr>api_keys := [\<lparr>key_hash = ''sk'', key_id = 9, key_tenant = 1, key_role = ''admin'', key_revoked = False\<rparr>]\<rparr>
   in rate_limit plain_jwt example_cfg req s = (Pass None, s)
     \<and> (\<exists>u. require_admin (authed_user_from plain_jwt (\<lambda>x. x) example_cfg None req s) = Inr u)"
proof -
  let ?req = "plain_request\<lparr>x_api_key := Some ''sk''\<rparr>"
  let ?s = "start_state\<lparr>api_keys := [\<lparr>key_hash = ''sk'', key_id = 9, key_tenant = 1, key_role = ''admin'', key_revoked = False\<rparr>]\<rparr>"
  have "authorization ?req = None" "access_cookie ?req = None"
    by (simp_all add: plain_request_def)
  note api_key_calls_unlimited_unaudited [OF this, of plain_jwt example_cfg ?s]
  moreover have "trim ''sk'' = ''sk''" by code_simp
  then have "\<exists>u. require_admin (authed_user_from plain_jwt (\<lambda>x. x) example_cfg None ?req ?s) = Inr u"
    by (simp add: authed_user_from_def plain_request_def require_admin_def)
  ultimately show ?thesis by (simp add: Let_def)
qed

end
