(* ===== verification/Study.thy ===== *)
theory Study
  imports Json Tenancy
begin

text \<open>
  The study engine: \<open>insight-core/src/study.rs\<close> (the SM-2 scheduler, the review of a card,
  the creation of multiple-choice questions) and the handlers of
  \<open>insight-api/src/routes/study.rs\<close>. Stored schedules are JSON documents, as in the table.
  The model completion and the decoding of its JSON array are parameters. The theorems give
  the scheduler's bounds and monotonicity, and what becomes of them once the state goes
  through the stored document.
\<close>

section \<open>Scheduler\<close>

record sr_input =
  interval_days :: "f64 option"
  ease_factor :: "f64 option"
  repetitions :: "int option"
  lapses :: "int option"

record sr_state =
  next_interval :: f64
  next_ease :: f64
  next_repetitions :: int
  next_lapses :: int
  sr_phase :: string
  due_in_days :: int

definition default_input :: sr_input where
  "default_input = \<lparr>interval_days = None, ease_factor = None, repetitions = None, lapses = None\<rparr>"

definition or_else :: "'a option \<Rightarrow> 'a \<Rightarrow> 'a" where
  "or_else x d = (case x of None \<Rightarrow> d | Some v \<Rightarrow> v)"

text \<open>\<open>f64::round\<close>: half-way cases away from zero.\<close>

definition round_away :: "f64 \<Rightarrow> int" where
  "round_away x = (if 0 \<le> x then \<lfloor>x + 1 / 2\<rfloor> else - \<lfloor>1 / 2 - x\<rfloor>)"

definition schedule_sm2 :: "sr_input \<Rightarrow> nat \<Rightarrow> sr_state" where
  "schedule_sm2 prev grade =
     (let q = real grade + 1;
          ef = or_else (ease_factor prev) 2.5;
          reps = or_else (repetitions prev) 0;
          interval = or_else (interval_days prev) 0;
          lap = or_else (lapses prev) 0;
          (ef, reps, interval, lap, phase) =
            (if q < 3 then (ef, 0, 1, wrap_i64 (lap + 1), ''relearning'')
             else let ef = max 1.3 (ef + (0.1 - (5 - q) * (0.08 + (5 - q) * 0.02)));
                      reps = wrap_i64 (reps + 1);
                      interval = (if reps = 1 then 1
                                  else if reps = 2 then 6
                                  else real_of_int (round_away (interval * ef)))
                  in (ef, reps, interval, lap, if reps \<le> 1 then ''learning'' else ''review''))
      in \<lparr>next_interval = interval, next_ease = ef, next_repetitions = reps, next_lapses = lap,
          sr_phase = phase, due_in_days = max (sat_i64 (round_away interval)) 1\<rparr>)"

section \<open>Reviewing a card\<close>

text \<open>
  \<open>serde_json::from_value::<SrInput>\<close>: a missing or null field is \<open>None\<close>, a field of the wrong
  type is an error, other fields are ignored. A value that is not an object is an error.
\<close>

definition field_f64 :: "string \<Rightarrow> json_object \<Rightarrow> f64 option option" where
  "field_f64 k kvs = (case map_of kvs k of
       None \<Rightarrow> Some None
     | Some JNull \<Rightarrow> Some None
     | Some v \<Rightarrow> map_option Some (as_f64 v))"

definition field_i64 :: "string \<Rightarrow> json_object \<Rightarrow> int option option" where
  "field_i64 k kvs = (case map_of kvs k of
       None \<Rightarrow> Some None
     | Some JNull \<Rightarrow> Some None
     | Some v \<Rightarrow> map_option Some (as_i64 v))"

definition sr_input_from_value :: "json \<Rightarrow> sr_input option" where
  "sr_input_from_value v = (case v of
       JObj kvs \<Rightarrow>
         (case (field_f64 ''interval_days'' kvs, field_f64 ''ease_factor'' kvs,
                field_i64 ''repetitions'' kvs, field_i64 ''lapses'' kvs) of
            (Some i, Some e, Some r, Some l) \<Rightarrow>
              Some \<lparr>interval_days = i, ease_factor = e, repetitions = r, lapses = l\<rparr>
          | _ \<Rightarrow> None)
     | _ \<Rightarrow> None)"

definition state_json :: "sr_state \<Rightarrow> json" where
  "state_json st = JObj
     [(''intervalDays'', JFloat (next_interval st)), (''easeFactor'', JFloat (next_ease st)),
      (''repetitions'', JInt (next_repetitions st)), (''lapses'', JInt (next_lapses st)),
      (''state'', JStr (sr_phase st))]"

record schedule_row =
  fsrs_state_json :: "json option"
  due_at :: int

type_synonym schedules = "uuid \<times> uuid \<Rightarrow> schedule_row option"

definition load_prev :: "schedules \<Rightarrow> uuid \<Rightarrow> uuid \<Rightarrow> sr_input" where
  "load_prev tab card_id user =
     (case Option.bind (Option.bind (tab (card_id, user)) fsrs_state_json) sr_input_from_value of
        None \<Rightarrow> default_input | Some p \<Rightarrow> p)"

text \<open>Times are in days; a day count beyond the 32 bits of an SQL interval is an SQL error.\<close>

definition review_flashcard :: "int \<Rightarrow> uuid \<Rightarrow> uuid \<Rightarrow> nat \<Rightarrow> schedules \<Rightarrow> sr_state option \<times> schedules" where
  "review_flashcard now user card_id grade tab =
     (let prev = load_prev tab card_id user;
          nxt = schedule_sm2 prev (clamp grade 1 4)
      in if 2 ^ 31 \<le> due_in_days nxt then (None, tab)
         else (Some nxt, tab((card_id, user) \<mapsto>
           \<lparr>fsrs_state_json = Some (state_json nxt), due_at = now + due_in_days nxt\<rparr>)))"

text \<open>The handler refuses a grade outside 1..4 before it reads anything.\<close>

definition review_handler :: "int \<Rightarrow> uuid \<Rightarrow> uuid \<Rightarrow> nat \<Rightarrow> schedules \<Rightarrow> sr_state option option \<times> schedules" where
  "review_handler now user card_id grade tab =
     (if \<not> (1 \<le> grade \<and> grade \<le> 4) then (None, tab)
      else case review_flashcard now user card_id grade tab of (r, tab) \<Rightarrow> (Some r, tab))"

section \<open>Scheduler: facts\<close>

lemma round_away_ge: "0 \<le> x \<Longrightarrow> real_of_int (round_away x) > x - 1 / 2"
  unfolding round_away_def by (simp, linarith)

lemma round_away_int [simp]: "round_away (real_of_int n) = n"
proof -
  have "\<lfloor>real_of_int n + 1 / 2\<rfloor> = n" "\<lfloor>1 / 2 - real_of_int n\<rfloor> = - n"
    by (simp_all add: floor_eq_iff)
  then show ?thesis by (simp add: round_away_def)
qed

lemma round_away_mono: "0 \<le> x \<Longrightarrow> x \<le> y \<Longrightarrow> round_away x \<le> round_away y"
  unfolding round_away_def by (simp add: floor_mono)

lemma round_away_1 [simp]: "round_away 1 = 1" "round_away 6 = 6" "round_away 0 = 0"
  using round_away_int [of 1] round_away_int [of 6] round_away_int [of 0] by simp_all

definition ease_step :: "nat \<Rightarrow> f64 \<Rightarrow> f64" where
  "ease_step grade ef = max 1.3 (ef + (0.1 - (4 - real grade) * (0.08 + (4 - real grade) * 0.02)))"

lemma schedule_again:
  "schedule_sm2 prev 1 = \<lparr>next_interval = 1, next_ease = or_else (ease_factor prev) 2.5,
     next_repetitions = 0, next_lapses = wrap_i64 (or_else (lapses prev) 0 + 1),
     sr_phase = ''relearning'', due_in_days = 1\<rparr>"
  by (simp add: schedule_sm2_def Let_def sat_i64_def)

lemma schedule_pass:
  assumes "2 \<le> grade"
  shows "schedule_sm2 prev grade =
    (let ef = ease_step grade (or_else (ease_factor prev) 2.5);
         reps = wrap_i64 (or_else (repetitions prev) 0 + 1);
         interval = (if reps = 1 then 1 else if reps = 2 then 6
                     else real_of_int (round_away (or_else (interval_days prev) 0 * ef)))
     in \<lparr>next_interval = interval, next_ease = ef, next_repetitions = reps,
         next_lapses = or_else (lapses prev) 0,
         sr_phase = (if reps \<le> 1 then ''learning'' else ''review''),
         due_in_days = max (sat_i64 (round_away interval)) 1\<rparr>)"
proof -
  have "\<not> real grade + 1 < 3" "5 - (real grade + 1) = 4 - real grade"
    using assms by auto
  then show ?thesis
    unfolding schedule_sm2_def ease_step_def by (simp add: Let_def)
qed

lemma ease_step_mono: "2 \<le> g \<Longrightarrow> g \<le> g' \<Longrightarrow> g' \<le> 4 \<Longrightarrow> ease_step g ef \<le> ease_step g' ef"
proof -
  assume "2 \<le> g" "g \<le> g'" "g' \<le> 4"
  then have "g \<in> {2, 3, 4}" "g' \<in> {2, 3, 4}" "g \<le> g'" by auto
  then show ?thesis
    by (auto simp: ease_step_def)
qed

lemma ease_step_min: "1.3 \<le> ease_step g ef"
  by (simp add: ease_step_def)

lemma ease_step_nonneg: "0 \<le> ease_step g ef"
  by (rule order_trans [OF _ ease_step_min]) simp

definition next_interval_of :: "sr_input \<Rightarrow> f64 \<Rightarrow> f64" where
  "next_interval_of prev ef =
     (let reps = wrap_i64 (or_else (repetitions prev) 0 + 1)
      in if reps = 1 then 1 else if reps = 2 then 6
         else real_of_int (round_away (or_else (interval_days prev) 0 * ef)))"

lemma schedule_pass_sel:
  assumes "2 \<le> g"
  shows "next_ease (schedule_sm2 prev g) = ease_step g (or_else (ease_factor prev) 2.5)"
    and "next_repetitions (schedule_sm2 prev g) = wrap_i64 (or_else (repetitions prev) 0 + 1)"
    and "next_lapses (schedule_sm2 prev g) = or_else (lapses prev) 0"
    and "next_interval (schedule_sm2 prev g) = next_interval_of prev (ease_step g (or_else (ease_factor prev) 2.5))"
    and "due_in_days (schedule_sm2 prev g) = max (sat_i64 (round_away
           (next_interval_of prev (ease_step g (or_else (ease_factor prev) 2.5))))) 1"
  using assms by (simp_all add: schedule_pass Let_def next_interval_of_def)

text \<open>
  Every review leaves the card due in at least one day. A passing grade leaves the ease
  at 1.3 or more and counts one more repetition; a failing grade leaves the ease alone,
  restarts the repetitions and adds a lapse.
\<close>

theorem schedule_sm2_bounds:
  "1 \<le> due_in_days (schedule_sm2 prev grade)
    \<and> (2 \<le> grade \<longrightarrow> 1.3 \<le> next_ease (schedule_sm2 prev grade)
        \<and> next_repetitions (schedule_sm2 prev grade) = wrap_i64 (or_else (repetitions prev) 0 + 1)
        \<and> next_lapses (schedule_sm2 prev grade) = or_else (lapses prev) 0)
    \<and> (grade = 1 \<longrightarrow> next_ease (schedule_sm2 prev grade) = or_else (ease_factor prev) 2.5
        \<and> next_repetitions (schedule_sm2 prev grade) = 0
        \<and> next_lapses (schedule_sm2 prev grade) = wrap_i64 (or_else (lapses prev) 0 + 1))"
proof -
  have "1 \<le> due_in_days (schedule_sm2 prev grade)"
    by (auto simp: schedule_sm2_def Let_def)
  then show ?thesis
    using ease_step_min by (simp add: schedule_pass_sel schedule_again [simplified])
qed

theorem schedule_sm2_bounds_witness:
  "1.3 \<le> next_ease (schedule_sm2 (default_input\<lparr>ease_factor := Some 1.31\<rparr>) 2)"
  using schedule_sm2_bounds [of "default_input\<lparr>ease_factor := Some 1.31\<rparr>" 2] by simp

text \<open>
  A better grade never brings the card back sooner: for the same history, the ease
  (among passing grades) and the due date are monotone in the grade.
\<close>

theorem schedule_sm2_monotone:
  assumes "1 \<le> g" "g \<le> g'" "g' \<le> 4" and i: "0 \<le> or_else (interval_days prev) 0"
  shows "due_in_days (schedule_sm2 prev g) \<le> due_in_days (schedule_sm2 prev g')
    \<and> (2 \<le> g \<longrightarrow> next_ease (schedule_sm2 prev g) \<le> next_ease (schedule_sm2 prev g'))"
proof (cases "g = 1")
  case True
  then show ?thesis
    using schedule_sm2_bounds [of prev g'] by (simp add: schedule_again [simplified])
next
  case False
  then have g: "2 \<le> g" "2 \<le> g'" using assms by auto
  let ?e = "or_else (ease_factor prev) 2.5" and ?i = "or_else (interval_days prev) 0"
  have e: "ease_step g ?e \<le> ease_step g' ?e"
    using g assms by (intro ease_step_mono)
  have "round_away (?i * ease_step g ?e) \<le> round_away (?i * ease_step g' ?e)"
    using i e ease_step_nonneg by (intro round_away_mono mult_left_mono mult_nonneg_nonneg)
  then have "round_away (next_interval_of prev (ease_step g ?e)) \<le>
      round_away (next_interval_of prev (ease_step g' ?e))"
    by (simp add: next_interval_of_def Let_def)
  then have "sat_i64 (round_away (next_interval_of prev (ease_step g ?e))) \<le>
      sat_i64 (round_away (next_interval_of prev (ease_step g' ?e)))"
    by (simp add: sat_i64_def)
  then show ?thesis
    using e g by (simp add: schedule_pass_sel)
qed

theorem schedule_sm2_monotone_witness:
  "due_in_days (schedule_sm2 \<lparr>interval_days = Some 10, ease_factor = Some 2.5, repetitions = Some 3, lapses = Some 0\<rparr> 2)
    \<le> due_in_days (schedule_sm2 \<lparr>interval_days = Some 10, ease_factor = Some 2.5, repetitions = Some 3, lapses = Some 0\<rparr> 4)"
  using schedule_sm2_monotone [of 2 4 "\<lparr>interval_days = Some 10, ease_factor = Some 2.5, repetitions = Some 3, lapses = Some 0\<rparr>"]
  by (simp add: or_else_def)

text \<open>
  Intervals grow as long as the reviews pass: from the third repetition on, when the
  whole state is handed back to the scheduler, the next interval is at least the previous
  one, and strictly more once the previous one is two days or longer.
\<close>

theorem schedule_sm2_grows:
  assumes "2 \<le> g" and "repetitions prev = Some r" "2 \<le> r" "r < 2 ^ 63 - 1"
    and "interval_days prev = Some (real_of_int i)" "1 \<le> i"
  shows "i \<le> round_away (next_interval (schedule_sm2 prev g))
    \<and> (2 \<le> i \<longrightarrow> i < round_away (next_interval (schedule_sm2 prev g)))"
proof -
  let ?e = "ease_step g (or_else (ease_factor prev) 2.5)"
  have reps: "wrap_i64 (r + 1) = r + 1"
    using assms by (intro wrap_i64_id) auto
  have "next_interval (schedule_sm2 prev g) = real_of_int (round_away (real_of_int i * ?e))"
    using assms reps by (simp add: schedule_pass_sel next_interval_of_def Let_def or_else_def)
  moreover have a: "real_of_int i * 1.3 \<le> real_of_int i * ?e"
    using assms(6) ease_step_min by (intro mult_left_mono) auto
  have b: "real_of_int (round_away (real_of_int i * ?e)) > real_of_int i * ?e - 1 / 2"
    using assms(6) by (intro round_away_ge mult_nonneg_nonneg) (simp_all add: ease_step_nonneg)
  have "real_of_int i * 1.3 - 1 / 2 < real_of_int (round_away (real_of_int i * ?e))"
    using a b by linarith
  then have "i \<le> round_away (real_of_int i * ?e)" "2 \<le> i \<longrightarrow> i < round_away (real_of_int i * ?e)"
    using assms(6) by linarith+
  ultimately show ?thesis by simp
qed


theorem schedule_sm2_grows_witness:
  "6 < round_away (next_interval (schedule_sm2
      \<lparr>interval_days = Some 6, ease_factor = Some 2.5, repetitions = Some 2, lapses = Some 0\<rparr> 3))"
  using schedule_sm2_grows [of 3 "\<lparr>interval_days = Some 6, ease_factor = Some 2.5, repetitions = Some 2, lapses = Some 0\<rparr>" 2 6]
  by simp

section \<open>Reviewing: facts\<close>

lemma load_after_review:
  assumes "review_flashcard now user card_id grade tab = (Some nxt, tab')"
  shows "tab' (card_id, user) = Some \<lparr>fsrs_state_json = Some (state_json nxt), due_at = now + due_in_days nxt\<rparr>"
  using assms by (auto simp: review_flashcard_def Let_def split: if_splits)

lemma sr_input_of_state_json:
  "- (2 ^ 63) \<le> next_repetitions st \<Longrightarrow> next_repetitions st < 2 ^ 63 \<Longrightarrow>
   - (2 ^ 63) \<le> next_lapses st \<Longrightarrow> next_lapses st < 2 ^ 63 \<Longrightarrow>
   sr_input_from_value (state_json st) =
     Some \<lparr>interval_days = None, ease_factor = None,
           repetitions = Some (next_repetitions st), lapses = Some (next_lapses st)\<rparr>"
  by (simp add: sr_input_from_value_def state_json_def field_f64_def field_i64_def)

text \<open>
  The stored document does not carry the schedule. A review writes \<open>intervalDays\<close> and
  \<open>easeFactor\<close>, the next review reads \<open>interval_days\<close> and \<open>ease_factor\<close>, so interval and
  ease are lost: whatever interval the scheduler had reached, after at least two passed
  repetitions the next passing review computes an interval of zero days and the card is due
  again the next day.
\<close>

theorem review_loses_interval:
  assumes first: "review_flashcard now user card_id grade tab = (Some st, tab')"
    and reps: "2 \<le> next_repetitions st" "next_repetitions st < 2 ^ 63 - 1"
    and lap: "- (2 ^ 63) \<le> next_lapses st" "next_lapses st < 2 ^ 63"
    and pass: "2 \<le> grade'" "grade' \<le> 4"
  shows "\<exists>st' tab''. review_flashcard now' user card_id grade' tab' = (Some st', tab'')
    \<and> next_interval st' = 0 \<and> due_in_days st' = 1
    \<and> next_ease st' = ease_step grade' 2.5 \<and> next_repetitions st' = next_repetitions st + 1"
proof -
  let ?in = "\<lparr>interval_days = None, ease_factor = None,
           repetitions = Some (next_repetitions st), lapses = Some (next_lapses st)\<rparr>"
  have prev: "load_prev tab' card_id user = ?in"
    using load_after_review [OF first] sr_input_of_state_json [of st] reps lap
    by (simp add: load_prev_def)
  have w: "wrap_i64 (next_repetitions st + 1) = next_repetitions st + 1"
    using reps by (intro wrap_i64_id) auto
  have "next_interval_of ?in e = 0" for e
    using reps w by (simp add: next_interval_of_def or_else_def)
  then have st': "next_interval (schedule_sm2 ?in grade') = 0" "due_in_days (schedule_sm2 ?in grade') = 1"
    "next_ease (schedule_sm2 ?in grade') = ease_step grade' 2.5"
    "next_repetitions (schedule_sm2 ?in grade') = next_repetitions st + 1"
    using pass w by (simp_all add: schedule_pass_sel sat_i64_def or_else_def)
  have "clamp grade' 1 4 = grade'"
    using pass by simp
  then show ?thesis
    using st' by (simp add: review_flashcard_def prev Let_def)
qed

theorem review_loses_interval_witness:
  "\<exists>st2 tab2 st3 tab3.
     review_flashcard 1 7 8 3 (snd (review_flashcard 0 7 8 3 (\<lambda>_. None))) = (Some st2, tab2)
   \<and> next_interval st2 = 6
   \<and> review_flashcard 7 7 8 3 tab2 = (Some st3, tab3)
   \<and> next_interval st3 = 0 \<and> due_in_days st3 = 1"
proof -
  let ?s1 = "schedule_sm2 default_input 3"
  have s1: "next_repetitions ?s1 = 1" "next_lapses ?s1 = 0" "due_in_days ?s1 = 1"
    by (simp_all add: schedule_pass_sel next_interval_of_def default_input_def or_else_def
        wrap_i64_id sat_i64_def Let_def)
  have r1: "review_flashcard 0 7 8 3 (\<lambda>_. None) =
      (Some ?s1, (\<lambda>_. None)((8, 7) \<mapsto> \<lparr>fsrs_state_json = Some (state_json ?s1), due_at = 1\<rparr>))"
    using s1 by (simp add: review_flashcard_def load_prev_def Let_def)
  let ?in = "\<lparr>interval_days = None, ease_factor = None, repetitions = Some 1, lapses = Some 0\<rparr>"
  let ?s2 = "schedule_sm2 ?in 3"
  have p: "load_prev (snd (review_flashcard 0 7 8 3 (\<lambda>_. None))) 8 7 = ?in"
    unfolding r1 using sr_input_of_state_json [of ?s1] s1 by (simp add: load_prev_def)
  have s2: "next_repetitions ?s2 = 2" "next_lapses ?s2 = 0" "due_in_days ?s2 = 6" "next_interval ?s2 = 6"
    by (simp_all add: schedule_pass_sel next_interval_of_def or_else_def wrap_i64_id sat_i64_def Let_def)
  obtain tab2 where r2: "review_flashcard 1 7 8 3 (snd (review_flashcard 0 7 8 3 (\<lambda>_. None))) = (Some ?s2, tab2)"
    using s2 by (simp add: review_flashcard_def [of 1] p Let_def)
  have "\<exists>st' tab''. review_flashcard 7 7 8 3 tab2 = (Some st', tab'')
    \<and> next_interval st' = 0 \<and> due_in_days st' = 1
    \<and> next_ease st' = ease_step 3 2.5 \<and> next_repetitions st' = next_repetitions ?s2 + 1"
    by (rule review_loses_interval [OF r2]) (simp_all add: s2)
  with r2 s2 show ?thesis by blast
qed

end
