(* ===== verification/VectorStore.thy ===== *)
theory VectorStore
  imports Json Tenancy
begin

text \<open>
  The tenant-scoped library tables of the migrations (documents, pages, blocks, chunks) and
  \<open>insight-core/src/storage/vector_store.rs\<close> on them. As in \<open>Tenancy\<close>, a table is the list
  of its rows, a statement under \<open>set_tenant\<close> sees only the tenant's rows, and a failed
  transaction (\<open>None\<close>) leaves the tables alone; \<open>db_up\<close> says whether the database answers.
  pgvector's HNSW scan and distance and the text-search match are parameters: \<open>hnsw_scan\<close>
  lists the rows in the order the index yields them, \<open>ts_rank_of\<close> is the rank of a row that
  matches the query.
\<close>

record document_row =
  doc_key :: uuid
  doc_tenant :: uuid
  storage_key :: string
  sha256 :: string
  doc_title :: string
  source_type :: string
  doc_owner :: "string option"
  doc_course :: "string option"
  doc_folder :: "string option"
  doc_status :: string

record page_row =
  page_key :: uuid
  page_tenant :: uuid
  page_doc :: uuid
  page_number :: int
  page_width :: "f64 option"
  page_height :: "f64 option"
  thumb_key :: "string option"
  page_status :: string

record block_row =
  block_key :: uuid
  block_tenant :: uuid
  block_page :: uuid
  block_kind :: string
  bbox :: "json option"
  reading_order :: int
  block_text :: string
  table_json :: "json option"
  figure_key :: "string option"
  block_confidence :: f64
  block_status :: string

record chunk_row =
  chunk_key :: uuid
  chunk_tenant :: uuid
  vector :: "f64 list option"
  sparse :: "string option"
  body :: string
  contextual_prefix :: "string option"
  chunk_block :: "uuid option"
  topic :: "string option"
  system_tags :: "json option"
  chunk_source :: "string option"
  chunk_date :: "int option"
  embedded :: bool

record library_db =
  documents :: "document_row list"
  pages :: "page_row list"
  blocks :: "block_row list"
  chunks :: "chunk_row list"
  row_supply :: uuid
  db_up :: bool
  vector_version :: "string option"

definition CHUNK_DIM :: nat where "CHUNK_DIM = 768"

record new_chunk =
  nc_id :: "uuid option"
  nc_vector :: "f64 list"
  nc_text :: string
  nc_prefix :: "string option"
  nc_block :: "uuid option"
  nc_topic :: "string option"
  nc_tags :: "json option"
  nc_source :: "string option"
  nc_date :: "int option"

record chunk_filter =
  filter_source :: "string option"
  filter_topic :: "string option"

record chunk_hit =
  hit_id :: uuid
  hit_text :: string
  hit_prefix :: "string option"
  hit_block :: "uuid option"
  hit_topic :: "string option"
  hit_score :: f64

section \<open>Writing chunks\<close>

text \<open>The composite foreign key of \<open>chunks\<close>: a block id must name a block of the tenant.\<close>

definition block_known :: "library_db \<Rightarrow> uuid \<Rightarrow> uuid option \<Rightarrow> bool" where
  "block_known db tenant b = (case b of None \<Rightarrow> True
     | Some k \<Rightarrow> list_ex (\<lambda>r. block_key r = k \<and> block_tenant r = tenant) (blocks db))"

definition overwrite_chunk :: "new_chunk \<Rightarrow> chunk_row \<Rightarrow> chunk_row" where
  "overwrite_chunk c r =
     r\<lparr>vector := Some (nc_vector c), body := nc_text c, contextual_prefix := nc_prefix c,
       chunk_block := nc_block c, topic := nc_topic c, system_tags := nc_tags c,
       chunk_source := nc_source c, chunk_date := nc_date c\<rparr>"

definition fresh_chunk :: "uuid \<Rightarrow> uuid \<Rightarrow> new_chunk \<Rightarrow> chunk_row" where
  "fresh_chunk tenant key c =
     \<lparr>chunk_key = key, chunk_tenant = tenant, vector = Some (nc_vector c), sparse = None,
      body = nc_text c, contextual_prefix = nc_prefix c, chunk_block = nc_block c,
      topic = nc_topic c, system_tags = nc_tags c, chunk_source = nc_source c,
      chunk_date = nc_date c, embedded = False\<rparr>"

definition upsert_one :: "uuid \<Rightarrow> new_chunk \<Rightarrow> library_db \<Rightarrow> (uuid \<times> library_db) option" where
  "upsert_one tenant c db =
     (if length (nc_vector c) \<noteq> CHUNK_DIM then None
      else let key = (case nc_id c of Some k \<Rightarrow> k | None \<Rightarrow> row_supply db);
               db1 = (case nc_id c of Some k \<Rightarrow> db | None \<Rightarrow> db\<lparr>row_supply := row_supply db + 1\<rparr>)
           in if \<not> block_known db1 tenant (nc_block c) then None
              else case find (\<lambda>r. chunk_key r = key) (chunks db1) of
                  None \<Rightarrow> Some (key, db1\<lparr>chunks := chunks db1 @ [fresh_chunk tenant key c]\<rparr>)
                | Some r \<Rightarrow>
                    if chunk_tenant r \<noteq> tenant then None
                    else Some (key, db1\<lparr>chunks :=
                      update_where (\<lambda>r. chunk_key r = key) (overwrite_chunk c) (chunks db1)\<rparr>))"

fun upsert_loop :: "uuid \<Rightarrow> new_chunk list \<Rightarrow> library_db \<Rightarrow> (uuid list \<times> library_db) option" where
  "upsert_loop tenant [] db = Some ([], db)"
| "upsert_loop tenant (c # cs) db = (case upsert_one tenant c db of
       None \<Rightarrow> None
     | Some (key, db1) \<Rightarrow> (case upsert_loop tenant cs db1 of
           None \<Rightarrow> None
         | Some (ids, db2) \<Rightarrow> Some (key # ids, db2)))"

definition upsert_chunks ::
  "uuid \<Rightarrow> new_chunk list \<Rightarrow> library_db \<Rightarrow> uuid list option \<times> library_db" where
  "upsert_chunks tenant cs db =
     (if \<not> db_up db then (None, db)
      else case upsert_loop tenant cs db of
          None \<Rightarrow> (None, db)
        | Some (ids, db') \<Rightarrow> (Some ids, db'))"

definition delete_chunks_for_block :: "uuid \<Rightarrow> uuid \<Rightarrow> library_db \<Rightarrow> nat option \<times> library_db" where
  "delete_chunks_for_block tenant b db =
     (let gone = (\<lambda>r. chunk_tenant r = tenant \<and> chunk_block r = Some b)
      in if \<not> db_up db then (None, db)
         else (Some (length (filter gone (chunks db))),
               db\<lparr>chunks := filter (\<lambda>r. \<not> gone r) (chunks db)\<rparr>))"

section \<open>Searching chunks\<close>

definition parse_u32 :: "string \<Rightarrow> nat option" where
  "parse_u32 s = (if starts_with s ''-'' then None else case parse_i64 s of
       None \<Rightarrow> None
     | Some n \<Rightarrow> if n < 2 ^ 32 then Some (nat n) else None)"

text \<open>pgvector from 0.8 on can keep scanning until enough rows survive the filters.\<close>

definition iterative_scan_supported :: "library_db \<Rightarrow> bool" where
  "iterative_scan_supported db = (case vector_version db of
       None \<Rightarrow> False
     | Some v \<Rightarrow>
         let parts = map (\<lambda>p. case parse_u32 p of Some n \<Rightarrow> n | None \<Rightarrow> 0) (split_on CHR ''.'' v);
             major = (case parts of [] \<Rightarrow> 0 | n # _ \<Rightarrow> n);
             minor = (case parts of _ # n # _ \<Rightarrow> n | _ \<Rightarrow> 0)
         in 0 < major \<or> 8 \<le> minor)"

type_synonym hnsw_index = "bool \<Rightarrow> int \<Rightarrow> f64 list \<Rightarrow> chunk_row list \<Rightarrow> (chunk_row \<times> f64) list"
type_synonym ts_rank_fn = "string \<Rightarrow> chunk_row \<Rightarrow> f64 option"

text \<open>What the index promises: it lists rows of the table that have a vector.\<close>

definition hnsw_ok :: "hnsw_index \<Rightarrow> bool" where
  "hnsw_ok hnsw_scan = (\<forall>it ef q rows. fst ` set (hnsw_scan it ef q rows) \<subseteq> {r \<in> set rows. vector r \<noteq> None})"

definition filter_admits :: "chunk_filter option \<Rightarrow> chunk_row \<Rightarrow> bool" where
  "filter_admits f r = (case f of None \<Rightarrow> True
     | Some fl \<Rightarrow> (filter_source fl = None \<or> chunk_source r = filter_source fl)
         \<and> (filter_topic fl = None \<or> topic r = filter_topic fl))"

definition hit_of :: "chunk_row \<Rightarrow> f64 \<Rightarrow> chunk_hit" where
  "hit_of r sc = \<lparr>hit_id = chunk_key r, hit_text = body r, hit_prefix = contextual_prefix r,
     hit_block = chunk_block r, hit_topic = topic r, hit_score = sc\<rparr>"

definition knn_search ::
  "hnsw_index \<Rightarrow> library_db \<Rightarrow> uuid \<Rightarrow> f64 list \<Rightarrow> int \<Rightarrow> chunk_filter option \<Rightarrow> chunk_hit list option" where
  "knn_search hnsw_scan db tenant query_vec k f =
     (if length query_vec \<noteq> CHUNK_DIM \<or> \<not> db_up db then None
      else let ef_search = clamp (sat_i64 (k * 4)) 40 1000;
               scanned = hnsw_scan (iterative_scan_supported db) ef_search query_vec (chunks db);
               kept = filter (\<lambda>(r, d). chunk_tenant r = tenant \<and> vector r \<noteq> None \<and> filter_admits f r) scanned
           in Some (map (\<lambda>(r, d). hit_of r (1 - d)) (take (nat k) kept)))"

definition fts_search ::
  "ts_rank_fn \<Rightarrow> library_db \<Rightarrow> uuid \<Rightarrow> string \<Rightarrow> int \<Rightarrow> chunk_filter option \<Rightarrow> chunk_hit list option" where
  "fts_search ts_rank_of db tenant query k f =
     (if \<not> db_up db then None
      else let matching = filter (\<lambda>r. chunk_tenant r = tenant \<and> ts_rank_of query r \<noteq> None
                 \<and> filter_admits f r) (chunks db);
               ranked = sort_key (\<lambda>h. - hit_score h)
                 (map (\<lambda>r. hit_of r (the (ts_rank_of query r))) matching)
           in Some (take (nat k) ranked))"

definition tenant_chunks :: "library_db \<Rightarrow> uuid \<Rightarrow> uuid set" where
  "tenant_chunks db tenant = {chunk_key r |r. r \<in> set (chunks db) \<and> chunk_tenant r = tenant}"

lemma hit_of_id [simp]: "hit_id (hit_of r d) = chunk_key r"
  by (simp add: hit_of_def)

lemma knn_search_tenant:
  assumes "hnsw_ok hnsw_scan" "knn_search hnsw_scan db tenant q k f = Some hits" "h \<in> set hits"
  shows "hit_id h \<in> tenant_chunks db tenant"
proof -
  obtain r d where r: "(r, d) \<in> set (hnsw_scan (iterative_scan_supported db)
      (clamp (sat_i64 (k * 4)) 40 1000) q (chunks db))" "chunk_tenant r = tenant" "h = hit_of r (1 - d)"
    using assms(2,3) by (auto simp: knn_search_def Let_def split: if_splits dest!: in_set_takeD)
  then have "r \<in> set (chunks db)"
    using assms(1) unfolding hnsw_ok_def by (metis (no_types, lifting) fst_conv image_subset_iff mem_Collect_eq)
  with r show ?thesis by (auto simp: tenant_chunks_def)
qed

lemma fts_search_tenant:
  assumes "fts_search ts_rank_of db tenant q k f = Some hits" "h \<in> set hits"
  shows "hit_id h \<in> tenant_chunks db tenant"
  using assms by (fastforce simp: fts_search_def tenant_chunks_def Let_def split: if_splits dest!: in_set_takeD)

section \<open>An upsert stays inside its tenant\<close>

definition foreign_rows :: "uuid \<Rightarrow> library_db \<Rightarrow> chunk_row list" where
  "foreign_rows tenant db = filter (\<lambda>r. chunk_tenant r \<noteq> tenant) (chunks db)"

definition stored :: "uuid \<Rightarrow> library_db \<Rightarrow> uuid \<Rightarrow> bool" where
  "stored tenant db k = (\<exists>r \<in> set (chunks db). chunk_key r = k \<and> chunk_tenant r = tenant
     \<and> (\<exists>v. vector r = Some v \<and> length v = CHUNK_DIM))"

lemma overwrite_chunk_simps [simp]:
  "chunk_key (overwrite_chunk c r) = chunk_key r" "chunk_tenant (overwrite_chunk c r) = chunk_tenant r"
  "vector (overwrite_chunk c r) = Some (nc_vector c)" "body (overwrite_chunk c r) = nc_text c"
  by (simp_all add: overwrite_chunk_def)

lemma fresh_chunk_simps [simp]:
  "chunk_key (fresh_chunk t k c) = k" "chunk_tenant (fresh_chunk t k c) = t"
  "vector (fresh_chunk t k c) = Some (nc_vector c)" "body (fresh_chunk t k c) = nc_text c"
  by (simp_all add: fresh_chunk_def)

lemma filter_update_where_other:
  "(\<And>r. r \<in> set rows \<Longrightarrow> P r \<Longrightarrow> \<not> Q r \<and> \<not> Q (f r)) \<Longrightarrow> filter Q (update_where P f rows) = filter Q rows"
  by (induction rows) (auto simp: update_where_def)

lemma upsert_one_effect:
  assumes up: "upsert_one tenant c db = Some (key, db')" and d: "distinct (map chunk_key (chunks db))"
  shows "foreign_rows tenant db' = foreign_rows tenant db"
    and "distinct (map chunk_key (chunks db'))"
    and "stored tenant db' key"
    and "stored tenant db k \<Longrightarrow> stored tenant db' k"
    and "documents db' = documents db" "pages db' = pages db" "blocks db' = blocks db"
proof -
  have dim: "length (nc_vector c) = CHUNK_DIM"
    using up by (auto simp: upsert_one_def split: if_splits)
  define db1 where "db1 = (case nc_id c of Some k \<Rightarrow> db | None \<Rightarrow> db\<lparr>row_supply := row_supply db + 1\<rparr>)"
  have db1: "chunks db1 = chunks db" "documents db1 = documents db" "pages db1 = pages db" "blocks db1 = blocks db"
    by (auto simp: db1_def split: option.split)
  consider (ins) "find (\<lambda>r. chunk_key r = key) (chunks db) = None"
      "db' = db1\<lparr>chunks := chunks db @ [fresh_chunk tenant key c]\<rparr>"
    | (upd) r where "find (\<lambda>r. chunk_key r = key) (chunks db) = Some r" "chunk_tenant r = tenant"
      "db' = db1\<lparr>chunks := update_where (\<lambda>r. chunk_key r = key) (overwrite_chunk c) (chunks db)\<rparr>"
    using up db1 unfolding upsert_one_def Let_def db1_def
    by (auto split: if_splits option.splits)
  note two = this
  show "documents db' = documents db" "pages db' = pages db" "blocks db' = blocks db"
    using two db1 by (cases; simp)+
  show "foreign_rows tenant db' = foreign_rows tenant db"
    using two
  proof cases
    case (upd r)
    from upd(1) have r: "r \<in> set (chunks db)" "chunk_key r = key"
      by (auto simp: find_Some_iff)
    have "chunk_tenant r' = tenant" if "r' \<in> set (chunks db)" "chunk_key r' = key" for r'
      using d r that upd(2) by (metis distinct_map inj_onD)
    then show ?thesis
      by (simp add: foreign_rows_def upd(3)) (rule filter_update_where_other, auto)
  qed (simp add: foreign_rows_def)
  show "distinct (map chunk_key (chunks db'))"
    using two
  proof cases
    case ins
    with d show ?thesis by (auto simp: find_None_iff)
  next
    case (upd r)
    have "map chunk_key (update_where (\<lambda>r. chunk_key r = key) (overwrite_chunk c) (chunks db)) =
        map chunk_key (chunks db)"
      by (simp add: update_where_def)
    with d upd show ?thesis by simp
  qed
  show "stored tenant db' key"
    using two
  proof cases
    case ins
    with dim show ?thesis by (auto simp: stored_def)
  next
    case (upd r)
    from upd(1) have r: "r \<in> set (chunks db)" "chunk_key r = key"
      by (auto simp: find_Some_iff)
    then have "overwrite_chunk c r \<in> set (chunks db')"
      by (auto simp: upd(3) update_where_def)
    with dim r upd(2) show ?thesis
      unfolding stored_def by (intro bexI [of _ "overwrite_chunk c r"]) auto
  qed
  show "stored tenant db' k" if "stored tenant db k"
    using two
  proof cases
    case ins
    with that show ?thesis by (auto simp: stored_def)
  next
    case (upd r)
    from that obtain r' where r': "r' \<in> set (chunks db)" "chunk_key r' = k" "chunk_tenant r' = tenant"
      "\<exists>v. vector r' = Some v \<and> length v = CHUNK_DIM" by (auto simp: stored_def)
    let ?r = "if chunk_key r' = key then overwrite_chunk c r' else r'"
    have "?r \<in> set (chunks db')"
      using r' by (auto simp: upd(3) update_where_def)
    with r' dim show ?thesis
      unfolding stored_def by (intro bexI [of _ ?r]) auto
  qed
qed

lemma upsert_loop_effect:
  "upsert_loop tenant cs db = Some (ids, db') \<Longrightarrow> distinct (map chunk_key (chunks db)) \<Longrightarrow>
    foreign_rows tenant db' = foreign_rows tenant db \<and> length ids = length cs
    \<and> (\<forall>k \<in> set ids. stored tenant db' k) \<and> (\<forall>k. stored tenant db k \<longrightarrow> stored tenant db' k)
    \<and> distinct (map chunk_key (chunks db'))"
proof (induction cs arbitrary: db ids)
  case (Cons c cs)
  from Cons.prems(1) obtain key db1 ids' where one: "upsert_one tenant c db = Some (key, db1)"
    and rest: "upsert_loop tenant cs db1 = Some (ids', db')" and ids: "ids = key # ids'"
    by (auto split: option.splits)
  note e = upsert_one_effect [OF one Cons.prems(2)]
  have "foreign_rows tenant db' = foreign_rows tenant db1 \<and> length ids' = length cs
    \<and> (\<forall>k \<in> set ids'. stored tenant db' k) \<and> (\<forall>k. stored tenant db1 k \<longrightarrow> stored tenant db' k)
    \<and> distinct (map chunk_key (chunks db'))"
    by (rule Cons.IH [OF rest e(2)])
  with e ids show ?case by auto
qed simp

definition library_of :: "chunk_row list \<Rightarrow> library_db" where
  "library_of rows = \<lparr>documents = [], pages = [], blocks = [], chunks = rows, row_supply = 100,
     db_up = True, vector_version = Some ''0.8.0''\<rparr>"

definition plain_chunk :: "uuid option \<Rightarrow> string \<Rightarrow> new_chunk" where
  "plain_chunk k s = \<lparr>nc_id = k, nc_vector = replicate 768 1, nc_text = s, nc_prefix = None,
     nc_block = None, nc_topic = None, nc_tags = None, nc_source = None, nc_date = None\<rparr>"

text \<open>
  A chunk upsert never touches another tenant's rows, whatever ids the caller supplies:
  their list is the same before and after. A successful upsert returns one id per chunk and
  each of them is a row of the calling tenant with a vector of the right dimension; one bad
  chunk (wrong dimension, foreign id, unknown block) leaves every table as it was.
\<close>

theorem upsert_stays_in_tenant:
  assumes "distinct (map chunk_key (chunks db))"
    and "upsert_chunks tenant cs db = (res, db')"
  shows "foreign_rows tenant db' = foreign_rows tenant db
    \<and> (case res of None \<Rightarrow> db' = db
        | Some ids \<Rightarrow> length ids = length cs \<and> (\<forall>k \<in> set ids. stored tenant db' k))"
proof (cases "db_up db")
  case True
  show ?thesis
  proof (cases "upsert_loop tenant cs db")
    case (Some p)
    then obtain ids db1 where p: "upsert_loop tenant cs db = Some (ids, db1)" by (cases p) auto
    with assms(2) True have "res = Some ids" "db' = db1" by (auto simp: upsert_chunks_def)
    with upsert_loop_effect [OF p assms(1)] show ?thesis by auto
  next
    case None
    with assms(2) True show ?thesis by (auto simp: upsert_chunks_def)
  qed
next
  case False
  with assms(2) show ?thesis by (auto simp: upsert_chunks_def)
qed

theorem upsert_stays_in_tenant_witness:
  "let db = library_of [fresh_chunk 2 7 (plain_chunk None ''kept'')];
       (res, db') = upsert_chunks 1 [plain_chunk (Some 7) ''stolen''] db
   in foreign_rows 1 db' = foreign_rows 1 db \<and> res = None"
proof -
  let ?db = "library_of [fresh_chunk 2 7 (plain_chunk None ''kept'')]"
  obtain res db' where r: "upsert_chunks 1 [plain_chunk (Some 7) ''stolen''] ?db = (res, db')"
    by (meson surj_pair)
  have "foreign_rows 1 db' = foreign_rows 1 ?db"
    using upsert_stays_in_tenant [OF _ r] by (simp add: library_of_def)
  moreover have "res = None"
    using r by (simp add: upsert_chunks_def upsert_one_def library_of_def plain_chunk_def
        CHUNK_DIM_def block_known_def)
  ultimately show ?thesis using r by simp
qed

end
