(* ===== verification/Retrieve.thy ===== *)
theory Retrieve
  imports VectorStore Cache "HOL-Library.Countable"
begin

text \<open>
  \<open>insight-core/src/retrieve.rs\<close>: the hybrid search. The inference service, the vector
  index, the text-search rank, JSON serialisation and the ellipsis character are
  the fields of \<open>services\<close>; the state is the Redis server and the library tables. A Rust
  \<open>HashMap\<close> that is iterated takes the iteration order as an argument.
\<close>

definition CANDIDATES :: int where "CANDIDATES = 50"
definition RERANK_POOL :: nat where "RERANK_POOL = 20"
definition RRF_K :: f64 where "RRF_K = 60"
definition CACHE_TTL_SECS :: nat where "CACHE_TTL_SECS = 300"
definition EMBED_CACHE_TTL_SECS :: nat where "EMBED_CACHE_TTL_SECS = 3600"

record search_hit =
  sh_chunk :: uuid
  sh_block :: "uuid option"
  sh_document :: "uuid option"
  sh_text :: string
  snippet :: string
  score :: f64

text \<open>An HTTP exchange fails, or gives a status and a body that decodes or not.\<close>

type_synonym 'a http_reply = "(nat \<times> 'a option) option"

definition accept_json :: "'a http_reply \<Rightarrow> 'a option" where
  "accept_json reply = (case reply of None \<Rightarrow> None
     | Some (st, decoded) \<Rightarrow> if 200 \<le> st \<and> st < 300 then decoded else None)"

record services =
  dense_svc :: "string list \<Rightarrow> bool \<Rightarrow> f64 list list http_reply"
  sparse_svc :: "string list \<Rightarrow> (int list \<times> f64 list) list http_reply"
  rerank_svc :: "string \<Rightarrow> string list \<Rightarrow> (nat \<times> f64) list http_reply"
  hnsw :: hnsw_index
  ts_rank :: ts_rank_fn
  map_order :: "uuid list \<Rightarrow> uuid list"
  write_hits :: "search_hit list \<Rightarrow> string"
  read_hits :: "string \<Rightarrow> search_hit list option"
  to_f64 :: "f64 \<Rightarrow> f64"
  write_vec :: "f64 list \<Rightarrow> string"
  read_vec :: "string \<Rightarrow> f64 list option"
  ellipsis :: char

record stores =
  redis_of :: redis
  lib :: library_db

text \<open>
  The documented behaviour the search relies on: the index lists table rows, reading back
  what was written gives the same hits with their scores rounded to a float (\<open>to_f64\<close>, which
  keeps 0, 1 and the order), and a hash map yields each of its keys once.
\<close>

definition services_ok :: "services \<Rightarrow> bool" where
  "services_ok v = (hnsw_ok (hnsw v) \<and> (\<forall>hits. read_hits v (write_hits v hits) =
         Some (map (\<lambda>h. h\<lparr>score := to_f64 v (score h)\<rparr>) hits))
     \<and> (\<forall>x. 0 \<le> x \<and> x \<le> 1 \<longrightarrow> 0 \<le> to_f64 v x \<and> to_f64 v x \<le> 1)
     \<and> (\<forall>keys. distinct (map_order v keys) \<and> set (map_order v keys) = set keys))"

definition embed_dense :: "services \<Rightarrow> string list \<Rightarrow> bool \<Rightarrow> f64 list list option" where
  "embed_dense v texts is_query = (if texts = [] then Some [] else accept_json (dense_svc v texts is_query))"

definition embed_sparse :: "services \<Rightarrow> string list \<Rightarrow> (int list \<times> f64 list) list option" where
  "embed_sparse v texts = (if texts = [] then Some [] else accept_json (sparse_svc v texts))"

definition rerank :: "services \<Rightarrow> string \<Rightarrow> string list \<Rightarrow> (nat \<times> f64) list option" where
  "rerank v query docs = (if docs = [] then Some [] else accept_json (rerank_svc v query docs))"

section \<open>Cache keys\<close>

definition escape_char :: "char \<Rightarrow> string" where
  "escape_char ch = (if ch = CHR ''%'' then ''%25'' else if ch = CHR '':'' then ''%3A'' else [ch])"

definition query_key :: "string \<Rightarrow> string" where
  "query_key query = concat (map escape_char query)"

definition normalize_query :: "string \<Rightarrow> string" where
  "normalize_query query = lowercase (join_str '' '' (split_whitespace query))"

definition search_key :: "uuid \<Rightarrow> nat \<Rightarrow> string \<Rightarrow> string" where
  "search_key tenant top_k normalized =
     ''search:'' @ show_nat tenant @ '':'' @ show_nat top_k @ '':'' @ query_key normalized"

definition embed_key :: "string \<Rightarrow> string" where
  "embed_key normalized = ''qembed:'' @ query_key normalized"

text \<open>Reading through the cache: an error and an unreadable entry both count as a miss.\<close>

definition cached_read :: "(string \<Rightarrow> 'a option) \<Rightarrow> string \<Rightarrow> redis \<Rightarrow> 'a option \<times> redis" where
  "cached_read decode key r = (let (res, r') = cache_get key r
     in ((case res of Some (Some raw) \<Rightarrow> decode raw | _ \<Rightarrow> None), r'))"

definition embed_query_cached :: "services \<Rightarrow> string \<Rightarrow> redis \<Rightarrow> f64 list option \<times> redis" where
  "embed_query_cached v normalized r =
     (let key = embed_key normalized; (hit, r1) = cached_read (read_vec v) key r
      in case hit of Some vec \<Rightarrow> (Some vec, r1)
         | None \<Rightarrow> (case embed_dense v [normalized] True of
             None \<Rightarrow> (None, r1)
           | Some vectors \<Rightarrow>
               if vectors = [] \<or> last vectors = [] then (None, r1)
               else (Some (last vectors),
                     snd (cache_set_with_ttl key (write_vec v (last vectors)) EMBED_CACHE_TTL_SECS r1))))"

section \<open>Fusion\<close>

text \<open>The two hash maps of \<open>rrf_fuse\<close>: the accumulated scores and the first hit per id.\<close>

type_synonym fusion = "(uuid \<Rightarrow> f64 option) \<times> (uuid \<Rightarrow> chunk_hit option)"

definition rrf_step :: "nat \<times> chunk_hit \<Rightarrow> fusion \<Rightarrow> fusion" where
  "rrf_step rh acc = (case rh of (rank, hit) \<Rightarrow> case acc of (scores, hits) \<Rightarrow>
     (scores(hit_id hit \<mapsto> (case scores (hit_id hit) of None \<Rightarrow> 0 | Some x \<Rightarrow> x) + 1 / (RRF_K + of_nat rank)),
      (case hits (hit_id hit) of None \<Rightarrow> hits(hit_id hit \<mapsto> hit) | Some _ \<Rightarrow> hits)))"

definition rrf_maps :: "chunk_hit list list \<Rightarrow> fusion" where
  "rrf_maps legs =
     fold (\<lambda>l. fold rrf_step (zip [0..<length l] l)) legs (\<lambda>_. None, \<lambda>_. None)"

definition rrf_fuse :: "(uuid list \<Rightarrow> uuid list) \<Rightarrow> chunk_hit list list \<Rightarrow> (chunk_hit \<times> f64) list" where
  "rrf_fuse order legs =
     (let (scores, hits) = rrf_maps legs;
          ids = order (map hit_id (concat legs));
          fused = map (\<lambda>k. (the (hits k), case scores k of Some x \<Rightarrow> x | None \<Rightarrow> 0)) ids
      in sort_key (\<lambda>p. - snd p) fused)"

definition make_snippet :: "char \<Rightarrow> string \<Rightarrow> string" where
  "make_snippet ell text =
     (let collapsed = join_str '' '' (split_whitespace text)
      in if length collapsed \<le> 240 then collapsed
         else let out = take 240 collapsed
              in (case rfind_char CHR '' '' out of Some i \<Rightarrow> take i out | None \<Rightarrow> out) @ [ell])"

definition rerank_text :: "chunk_hit \<Rightarrow> string" where
  "rerank_text hit = (case hit_prefix hit of
       Some pfx \<Rightarrow>
         if trim pfx \<noteq> [] then pfx @ [char_of (10 :: nat), char_of (10 :: nat)] @ hit_text hit
         else hit_text hit
     | None \<Rightarrow> hit_text hit)"

definition logistic :: "f64 \<Rightarrow> f64" where
  "logistic x = 1 / (1 + exp (- x))"

definition resolve_document_ids ::
  "library_db \<Rightarrow> uuid \<Rightarrow> uuid list \<Rightarrow> (uuid \<Rightarrow> uuid option) option" where
  "resolve_document_ids db tenant block_ids =
     (if block_ids = [] then Some (\<lambda>_. None)
      else if \<not> db_up db then None
      else Some (map_of (rev
        [(block_key b, page_doc p). b \<leftarrow> blocks db, p \<leftarrow> pages db,
           page_key p = block_page b, block_tenant b = tenant, page_tenant p = tenant,
           block_key b \<in> set block_ids])))"

section \<open>The search\<close>

definition cache_hits :: "services \<Rightarrow> string \<Rightarrow> search_hit list \<Rightarrow> redis \<Rightarrow> redis" where
  "cache_hits v key hits r = snd (cache_set_with_ttl key (write_hits v hits) CACHE_TTL_SECS r)"

definition apply_rerank :: "services \<Rightarrow> string \<Rightarrow> (chunk_hit \<times> f64) list \<Rightarrow> (chunk_hit \<times> f64) list" where
  "apply_rerank v normalized pool =
     (case rerank v normalized (map (\<lambda>p. rerank_text (fst p)) pool) of
        Some ranked \<Rightarrow>
          if ranked \<noteq> [] then [(fst (pool ! i), sc). (i, sc) \<leftarrow> ranked, i < length pool] else pool
      | None \<Rightarrow> pool)"

definition render_hit :: "services \<Rightarrow> chunk_hit \<times> f64 \<Rightarrow> search_hit" where
  "render_hit v p = (case p of (hit, sc) \<Rightarrow>
     \<lparr>sh_chunk = hit_id hit, sh_block = hit_block hit, sh_document = None, sh_text = hit_text hit,
      snippet = make_snippet (ellipsis v) (hit_text hit), score = logistic sc\<rparr>)"

definition attach_document :: "(uuid \<Rightarrow> uuid option) \<Rightarrow> search_hit \<Rightarrow> search_hit" where
  "attach_document doc_map h =
     (case sh_block h of None \<Rightarrow> h | Some b \<Rightarrow> h\<lparr>sh_document := doc_map b\<rparr>)"

definition rank_and_render ::
  "services \<Rightarrow> library_db \<Rightarrow> uuid \<Rightarrow> string \<Rightarrow> nat \<Rightarrow> (chunk_hit \<times> f64) list \<Rightarrow> search_hit list" where
  "rank_and_render v db tenant normalized top_k fused =
     (let ordered = apply_rerank v normalized (take RERANK_POOL fused);
          hits = map (render_hit v) (take top_k ordered);
          doc_map = (case resolve_document_ids db tenant (List.map_filter sh_block hits) of
                       Some m \<Rightarrow> m | None \<Rightarrow> (\<lambda>_. None))
      in map (attach_document doc_map) hits)"

definition search_miss ::
  "services \<Rightarrow> library_db \<Rightarrow> uuid \<Rightarrow> string \<Rightarrow> nat \<Rightarrow> redis \<Rightarrow> search_hit list option \<times> redis" where
  "search_miss v db tenant normalized top_k r =
     (let (q, r1) = embed_query_cached v normalized r
      in case q of None \<Rightarrow> (None, r1)
         | Some query_vec \<Rightarrow>
           (case knn_search (hnsw v) db tenant query_vec CANDIDATES None of None \<Rightarrow> (None, r1)
            | Some dense \<Rightarrow>
              (case fts_search (ts_rank v) db tenant normalized CANDIDATES None of None \<Rightarrow> (None, r1)
               | Some fts \<Rightarrow>
                 let fused = rrf_fuse (map_order v) [dense, fts];
                     key = search_key tenant top_k normalized
                 in if fused = [] then (Some [], cache_hits v key [] r1)
                    else let hits = rank_and_render v db tenant normalized top_k fused
                         in (Some hits, cache_hits v key hits r1))))"

definition search ::
  "services \<Rightarrow> uuid \<Rightarrow> string \<Rightarrow> nat \<Rightarrow> stores \<Rightarrow> search_hit list option \<times> stores" where
  "search v tenant query top_k s =
     (let normalized = normalize_query query; k = clamp top_k 1 50
      in if normalized = [] then (Some [], s)
         else let (cached, r) = cached_read (read_hits v) (search_key tenant k normalized) (redis_of s)
              in case cached of Some hits \<Rightarrow> (Some hits, s\<lparr>redis_of := r\<rparr>)
                 | None \<Rightarrow> let (res, r') = search_miss v (lib s) tenant normalized k r
                           in (res, s\<lparr>redis_of := r'\<rparr>))"

section \<open>Reindexing\<close>

text \<open>The column type \<open>vector(768)\<close> refuses any other dimension, which aborts the transaction.\<close>

definition set_embedding :: "f64 list \<Rightarrow> chunk_row \<Rightarrow> chunk_row" where
  "set_embedding vec r = r\<lparr>vector := Some vec, embedded := True\<rparr>"

fun reindex_loop :: "uuid \<Rightarrow> (uuid \<times> f64 list) list \<Rightarrow> chunk_row list \<Rightarrow> chunk_row list option" where
  "reindex_loop tenant [] rows = Some rows"
| "reindex_loop tenant ((key, vec) # rest) rows =
     (if length vec \<noteq> CHUNK_DIM then None
      else reindex_loop tenant rest
        (update_where (\<lambda>r. chunk_key r = key \<and> chunk_tenant r = tenant) (set_embedding vec) rows))"

definition unembedded :: "uuid \<Rightarrow> library_db \<Rightarrow> chunk_row list" where
  "unembedded tenant db = filter (\<lambda>r. chunk_tenant r = tenant \<and> \<not> embedded r) (chunks db)"

definition reindex_unembedded ::
  "services \<Rightarrow> uuid \<Rightarrow> int \<Rightarrow> library_db \<Rightarrow> (nat \<times> bool) option \<times> library_db" where
  "reindex_unembedded v tenant limit db =
     (if \<not> db_up db \<or> limit < 0 then (None, db)
      else let rows = take (nat limit) (unembedded tenant db)
           in if rows = [] then (Some (0, False), db)
              else let full_batch = (int (length rows) = limit)
                   in case embed_dense v (map body rows) False of
                        None \<Rightarrow> (None, db)
                      | Some vectors \<Rightarrow>
                          if length vectors \<noteq> length rows then (None, db)
                          else case reindex_loop tenant (zip (map chunk_key rows) vectors) (chunks db) of
                              None \<Rightarrow> (None, db)
                            | Some rows' \<Rightarrow> (Some (length rows, full_batch), db\<lparr>chunks := rows'\<rparr>))"

section \<open>Keys are unambiguous\<close>

lemma escape_char_append: "escape_char x @ u = escape_char y @ w \<Longrightarrow> x = y \<and> u = w"
  by (auto simp: escape_char_def split: if_splits)

lemma query_key_inject: "query_key a = query_key b \<Longrightarrow> a = b"
  unfolding query_key_def
proof (induction a arbitrary: b)
  case Nil
  then show ?case by (cases b) (auto simp: escape_char_def split: if_splits)
next
  case (Cons x xs)
  then obtain y ys where b: "b = y # ys"
    by (cases b) (auto simp: escape_char_def split: if_splits)
  have "x = y \<and> concat (map escape_char xs) = concat (map escape_char ys)"
    using Cons.prems by (intro escape_char_append) (simp add: b)
  with Cons.IH b show ?case by auto
qed

lemma split_at_colon:
  assumes "CHR '':'' \<notin> set a" "CHR '':'' \<notin> set b" "a @ CHR '':'' # x = b @ CHR '':'' # y"
  shows "a = b \<and> x = y"
  using assms
proof (induction a arbitrary: b)
  case Nil
  then show ?case by (cases b) auto
next
  case (Cons c cs)
  then show ?case by (cases b) auto
qed

lemma show_nat_no_colon [simp]: "CHR '':'' \<notin> set (show_nat n)"
  using show_nat_digits [of "CHR '':''" n] by (auto simp: code_of_def)

lemma search_key_inject:
  "search_key t k q = search_key t' k' q' \<Longrightarrow> t = t' \<and> k = k' \<and> q = q'"
proof -
  assume "search_key t k q = search_key t' k' q'"
  then have "show_nat t @ CHR '':'' # (show_nat k @ CHR '':'' # query_key q) =
      show_nat t' @ CHR '':'' # (show_nat k' @ CHR '':'' # query_key q')"
    by (simp add: search_key_def)
  from split_at_colon [OF _ _ this] have t: "t = t'"
    and "show_nat k @ CHR '':'' # query_key q = show_nat k' @ CHR '':'' # query_key q'"
    by simp_all
  from split_at_colon [OF _ _ this(2)] have "k = k'" and "query_key q = query_key q'"
    by simp_all
  with t show ?thesis by (simp add: query_key_inject)
qed

lemma embed_key_not_search: "embed_key q \<noteq> search_key t k q'"
  by (simp add: embed_key_def search_key_def)

lemma split_normalize_query: "split_whitespace (normalize_query q) = map lowercase (split_whitespace q)"
  unfolding normalize_query_def split_whitespace_lowercase
  by (simp add: split_whitespace_join split_whitespace_word)

lemma normalize_query_idem: "normalize_query (normalize_query q) = normalize_query q"
  using split_normalize_query [of q]
  by (simp add: normalize_query_def [of "normalize_query q"] lowercase_join [symmetric])
     (simp add: normalize_query_def)

text \<open>
  Two searches share a cache entry exactly when they are the same search: same tenant,
  same result count and the same query up to case and spacing. Normalising twice changes
  nothing, and an embedding entry never has the key of a result entry. This is what the
  percent-escaping of the query in the key is for.
\<close>

theorem search_keys_unambiguous:
  "(search_key t k (normalize_query q) = search_key t' k' (normalize_query q')
      \<longleftrightarrow> t = t' \<and> k = k' \<and> map lowercase (split_whitespace q) = map lowercase (split_whitespace q'))
    \<and> normalize_query (normalize_query q) = normalize_query q
    \<and> embed_key q \<noteq> search_key t k q'"
proof -
  have "normalize_query q = normalize_query q' \<longleftrightarrow>
      map lowercase (split_whitespace q) = map lowercase (split_whitespace q')"
    by (metis split_normalize_query normalize_query_def lowercase_join)
  then show ?thesis
    using search_key_inject embed_key_not_search normalize_query_idem by metis
qed

section \<open>Fusion is the sum of reciprocal ranks\<close>

text \<open>The specification: an id's score sums \<open>1 / (60 + rank)\<close> over its occurrences.\<close>

definition leg_score :: "uuid \<Rightarrow> chunk_hit list \<Rightarrow> f64" where
  "leg_score k l = (\<Sum>i \<leftarrow> filter (\<lambda>i. hit_id (l ! i) = k) [0..<length l]. 1 / (60 + of_nat i))"

definition rrf_score :: "uuid \<Rightarrow> chunk_hit list list \<Rightarrow> f64" where
  "rrf_score k legs = sum_list (map (leg_score k) legs)"

definition or_zero :: "f64 option \<Rightarrow> f64" where
  "or_zero x = (case x of None \<Rightarrow> 0 | Some y \<Rightarrow> y)"

lemma or_zero_simps [simp]: "or_zero None = 0" "or_zero (Some y) = y"
  by (simp_all add: or_zero_def)

lemma rrf_step_unfold:
  "rrf_step (i, h) acc =
    ((fst acc)(hit_id h \<mapsto> or_zero (fst acc (hit_id h)) + 1 / (60 + of_nat i)),
     if snd acc (hit_id h) = None then (snd acc)(hit_id h \<mapsto> h) else snd acc)"
  by (cases acc) (auto simp: rrf_step_def RRF_K_def or_zero_def split: option.splits)

lemma fold_rrf_score:
  "or_zero (fst (fold rrf_step ps acc) k) =
    or_zero (fst acc k) + (\<Sum>(i, h) \<leftarrow> filter (\<lambda>p. hit_id (snd p) = k) ps. 1 / (60 + of_nat i))"
proof (induction ps arbitrary: acc)
  case (Cons p ps)
  obtain i h where p: "p = (i, h)" by (cases p)
  show ?case by (simp add: p Cons.IH rrf_step_unfold)
qed simp

lemma zip_upt_eq_map: "zip [0..<length l] l = map (\<lambda>i. (i, l ! i)) [0..<length l]"
  by (rule nth_equalityI) auto

lemma leg_score_zip:
  "(\<Sum>(i, h) \<leftarrow> filter (\<lambda>p. hit_id (snd p) = k) (zip [0..<length l] l). 1 / (60 + of_nat i)) = leg_score k l"
  by (simp add: leg_score_def zip_upt_eq_map filter_map o_def)

lemma fold_legs_score:
  "or_zero (fst (fold (\<lambda>l. fold rrf_step (zip [0..<length l] l)) legs acc) k) =
    or_zero (fst acc k) + rrf_score k legs"
  by (induction legs arbitrary: acc) (simp_all add: rrf_score_def fold_rrf_score leg_score_zip)

lemma rrf_maps_score: "or_zero (fst (rrf_maps legs) k) = rrf_score k legs"
  by (simp add: rrf_maps_def fold_legs_score)

definition hits_inv :: "chunk_hit set \<Rightarrow> fusion \<Rightarrow> bool" where
  "hits_inv H acc = (dom (snd acc) = hit_id ` H \<and> (\<forall>k h. snd acc k = Some h \<longrightarrow> h \<in> H \<and> hit_id h = k))"

lemma hits_inv_step: "hits_inv H acc \<Longrightarrow> hits_inv (insert (snd p) H) (rrf_step p acc)"
  by (cases p) (auto simp: hits_inv_def rrf_step_unfold split: if_splits)

lemma hits_inv_fold: "hits_inv H acc \<Longrightarrow> hits_inv (H \<union> snd ` set ps) (fold rrf_step ps acc)"
proof (induction ps arbitrary: H acc)
  case (Cons p ps)
  from Cons.IH [OF hits_inv_step [OF Cons.prems, of p]] show ?case by simp
qed simp

lemma hits_inv_legs:
  "hits_inv H acc \<Longrightarrow>
    hits_inv (H \<union> set (concat legs)) (fold (\<lambda>l. fold rrf_step (zip [0..<length l] l)) legs acc)"
proof (induction legs arbitrary: H acc)
  case (Cons l legs)
  have "snd ` set (zip [0..<length l] l) = set l"
    by (metis length_map map_nth map_snd_zip set_map)
  with Cons.IH [OF hits_inv_fold [OF Cons.prems, of "zip [0..<length l] l"]] show ?case
    by (simp add: Un_assoc)
qed simp

lemma rrf_maps_hits: "hits_inv (set (concat legs)) (rrf_maps legs)"
  unfolding rrf_maps_def using hits_inv_legs [of "{}" "(\<lambda>_. None, \<lambda>_. None)" legs]
  by (simp add: hits_inv_def)

definition map_order_ok :: "(uuid list \<Rightarrow> uuid list) \<Rightarrow> bool" where
  "map_order_ok order = (\<forall>keys. distinct (order keys) \<and> set (order keys) = set keys)"

lemma sorted_desc: "sorted_wrt (\<lambda>p q. snd q \<le> snd p) (sort_key (\<lambda>p. - snd p) (xs :: ('a \<times> f64) list))"
proof -
  have "sorted (map (\<lambda>p. - snd p) (sort_key (\<lambda>p. - snd p) xs))" by simp
  then show ?thesis by (simp add: sorted_wrt_map)
qed

lemma rrf_fuse_unfold:
  "rrf_fuse order legs = sort_key (\<lambda>p. - snd p)
    (map (\<lambda>k. (the (snd (rrf_maps legs) k), rrf_score k legs)) (order (map hit_id (concat legs))))"
  by (simp add: rrf_fuse_def Let_def case_prod_beta or_zero_def [symmetric] rrf_maps_score)

text \<open>
  C24. Reciprocal rank fusion computes its specification, whatever order the hash map is
  walked in: the result lists every id of the candidate lists exactly once, as one of the
  given hits, in descending order of score, and the score of an id is the sum over the lists
  of 1 / (60 + rank), the rank counted from 0.
\<close>

theorem rrf_fuse_spec:
  assumes "map_order_ok order"
  shows "sorted_wrt (\<lambda>p q. snd q \<le> snd p) (rrf_fuse order legs)
    \<and> distinct (map (hit_id \<circ> fst) (rrf_fuse order legs))
    \<and> hit_id ` fst ` set (rrf_fuse order legs) = hit_id ` set (concat legs)
    \<and> (\<forall>(h, x) \<in> set (rrf_fuse order legs). h \<in> set (concat legs) \<and> x = rrf_score (hit_id h) legs)"
proof -
  let ?hits = "snd (rrf_maps legs)"
  let ?f = "\<lambda>k. (the (?hits k), rrf_score k legs)"
  let ?ids = "order (map hit_id (concat legs))"
  have ids: "distinct ?ids" "set ?ids = hit_id ` set (concat legs)"
    using assms by (auto simp: map_order_ok_def)
  have hit: "the (?hits k) \<in> set (concat legs) \<and> hit_id (the (?hits k)) = k" if "k \<in> set ?ids" for k
    using that rrf_maps_hits [of legs] unfolding ids(2) hits_inv_def by force
  have set_f: "set (rrf_fuse order legs) = ?f ` set ?ids"
    by (simp add: rrf_fuse_unfold)
  have "distinct (map (hit_id \<circ> fst \<circ> ?f) ?ids)"
    using ids(1) hit by (auto simp: distinct_map inj_on_def)
  then have "distinct (map (hit_id \<circ> fst) (map ?f ?ids))" by (simp add: o_assoc)
  then have "distinct (map (hit_id \<circ> fst) (rrf_fuse order legs))"
    unfolding rrf_fuse_unfold
    by (metis (no_types, lifting) distinct_map distinct_sort set_sort)
  moreover have "hit_id ` fst ` set (rrf_fuse order legs) = hit_id ` set (concat legs)"
    unfolding set_f image_image ids(2) [symmetric] using hit by (force intro!: image_cong)
  moreover have "\<forall>(h, x) \<in> set (rrf_fuse order legs). h \<in> set (concat legs) \<and> x = rrf_score (hit_id h) legs"
    unfolding set_f using hit by auto
  moreover have "sorted_wrt (\<lambda>p q. snd q \<le> snd p) (rrf_fuse order legs)"
    by (simp add: rrf_fuse_unfold sorted_desc)
  ultimately show ?thesis by blast
qed

definition hit_named :: "uuid \<Rightarrow> chunk_hit" where
  "hit_named k = \<lparr>hit_id = k, hit_text = ''t'', hit_prefix = None, hit_block = None,
     hit_topic = None, hit_score = 0\<rparr>"

lemma remdups_order_ok: "map_order_ok remdups"
  by (simp add: map_order_ok_def)

theorem rrf_fuse_spec_witness:
  "let r = rrf_fuse remdups [[hit_named 4, hit_named 9], [hit_named 9]]
   in distinct (map (hit_id \<circ> fst) r) \<and> hit_id ` fst ` set r = {4, 9} \<and> rrf_score 9 [[hit_named 4, hit_named 9], [hit_named 9]] = 1 / 61 + 1 / 60"
  using rrf_fuse_spec [OF remdups_order_ok, of "[[hit_named 4, hit_named 9], [hit_named 9]]"]
  by (auto simp: hit_named_def rrf_score_def leg_score_def)

section \<open>Tenants never see each other's chunks\<close>

definition hits_ok :: "uuid set \<Rightarrow> nat \<Rightarrow> search_hit list \<Rightarrow> bool" where
  "hits_ok mine k hits = (length hits \<le> k
     \<and> (\<forall>h \<in> set hits. sh_chunk h \<in> mine \<and> 0 \<le> score h \<and> score h \<le> 1 \<and> length (snippet h) \<le> 241))"

definition cache_clean :: "services \<Rightarrow> (uuid \<Rightarrow> uuid set) \<Rightarrow> redis \<Rightarrow> bool" where
  "cache_clean v own r = (\<forall>t k q e hits. keyspace r (search_key t k q) = Some e \<longrightarrow>
     read_hits v (entry_value e) = Some hits \<longrightarrow> hits_ok (own t) k hits)"

lemma cache_cleanD: "cache_clean v own r \<Longrightarrow> keyspace r (search_key t k q) = Some e \<Longrightarrow>
    read_hits v (entry_value e) = Some hits \<Longrightarrow> hits_ok (own t) k hits"
  unfolding cache_clean_def by iprover

lemma logistic_range: "0 \<le> logistic x \<and> logistic x \<le> 1"
  by (simp add: logistic_def add_nonneg_nonneg add_pos_pos)

lemma make_snippet_le: "length (make_snippet ell text) \<le> 241"
  by (auto simp: make_snippet_def Let_def split: option.split)

lemma cache_get_keyspace [simp]: "keyspace (snd (cache_get key r)) = keyspace r"
  by (simp add: cache_get_def command_def Let_def)

lemma cached_read_keyspace: "cached_read d key r = (res, r') \<Longrightarrow> keyspace r' = keyspace r"
  by (metis (mono_tags, lifting) cache_get_keyspace cached_read_def case_prod_beta snd_conv)

lemma cached_read_hit:
  "cached_read d key r = (Some x, r') \<Longrightarrow> \<exists>e. keyspace r key = Some e \<and> d (entry_value e) = Some x"
  by (auto simp: cached_read_def cache_get_def command_def Let_def live_def
      split: if_splits option.splits)

lemma cache_set_cases:
  "keyspace (snd (cache_set_with_ttl key val ttl r)) = keyspace r
    \<or> (\<exists>t. keyspace (snd (cache_set_with_ttl key val ttl r)) =
        (keyspace r)(key \<mapsto> \<lparr>entry_value = val, deadline = t\<rparr>))"
  by (auto simp: cache_set_with_ttl_def command_def Let_def put_entry_def)

lemma cache_clean_keyspace: "keyspace r' = keyspace r \<Longrightarrow> cache_clean v own r' = cache_clean v own r"
  by (simp add: cache_clean_def)

lemma cache_clean_embed: "cache_clean v own r \<Longrightarrow>
    cache_clean v own (snd (cache_set_with_ttl (embed_key q) val ttl r))"
  using cache_set_cases [of "embed_key q" val ttl r]
  by (auto simp: cache_clean_def embed_key_not_search embed_key_not_search [symmetric])

lemma cache_clean_hits:
  assumes "services_ok v" "cache_clean v own r" "hits_ok (own t) k hits"
  shows "cache_clean v own (cache_hits v (search_key t k q) hits r)"
proof -
  let ?hits = "map (\<lambda>h. h\<lparr>score := to_f64 v (score h)\<rparr>) hits"
  have rd: "read_hits v (write_hits v hits) = Some ?hits"
    using assms(1) by (simp add: services_ok_def)
  have ok: "hits_ok (own t) k ?hits"
    using assms(1,3) by (auto simp: services_ok_def hits_ok_def)
  show ?thesis
    using cache_set_cases [of "search_key t k q" "write_hits v hits" CACHE_TTL_SECS r] assms(2) ok rd
    unfolding cache_hits_def cache_clean_def
    by (elim disjE exE; auto dest!: search_key_inject split: if_splits)
qed

lemma embed_query_clean:
  assumes "cache_clean v own r" "embed_query_cached v n r = (res, r')"
  shows "cache_clean v own r'"
proof -
  obtain hit r1 where rd: "cached_read (read_vec v) (embed_key n) r = (hit, r1)" by (meson surj_pair)
  then have "cache_clean v own r1"
    using assms(1) cached_read_keyspace cache_clean_keyspace by metis
  then show ?thesis
    using assms(2) rd
    by (auto simp: embed_query_cached_def Let_def intro: cache_clean_embed split: option.splits if_splits)
qed

lemma apply_rerank_subset: "fst ` set (apply_rerank v n pool) \<subseteq> fst ` set pool"
  unfolding apply_rerank_def
  by (auto split: option.splits if_splits)

lemma rank_and_render_ok:
  assumes "\<And>h. h \<in> fst ` set fused \<Longrightarrow> hit_id h \<in> mine"
  shows "hits_ok mine k (rank_and_render v db t n k fused)"
proof -
  have sub: "fst ` set (take k (apply_rerank v n (take RERANK_POOL fused))) \<subseteq> fst ` set fused"
    using apply_rerank_subset [of v n "take RERANK_POOL fused"] set_take_subset [of k] set_take_subset [of RERANK_POOL fused]
    by (meson image_mono subset_trans)
  have "sh_chunk h \<in> mine \<and> 0 \<le> score h \<and> score h \<le> 1 \<and> length (snippet h) \<le> 241"
    if "h = attach_document dm (render_hit v p)" "fst p \<in> fst ` set fused" for h dm p
    using that assms logistic_range make_snippet_le
    by (auto simp: attach_document_def render_hit_def case_prod_beta split: option.splits)
  with sub show ?thesis
    unfolding hits_ok_def rank_and_render_def Let_def by fastforce
qed

lemma search_miss_ok:
  assumes v: "services_ok v" and own: "tenant_chunks db t \<subseteq> own t" and c: "cache_clean v own r"
    and run: "search_miss v db t n k r = (res, r')"
  shows "cache_clean v own r' \<and> (\<forall>hits. res = Some hits \<longrightarrow> hits_ok (own t) k hits)"
proof -
  obtain q r1 where q: "embed_query_cached v n r = (q, r1)" by (meson surj_pair)
  have c1: "cache_clean v own r1" by (rule embed_query_clean [OF c q])
  show ?thesis
  proof (cases "\<exists>qv dense fts. q = Some qv \<and> knn_search (hnsw v) db t qv CANDIDATES None = Some dense
      \<and> fts_search (ts_rank v) db t n CANDIDATES None = Some fts")
    case False
    then have "res = None \<and> r' = r1"
      using run q by (auto simp: search_miss_def split: option.splits)
    with c1 show ?thesis by simp
  next
    case True
    then obtain qv dense fts where legs: "q = Some qv"
      "knn_search (hnsw v) db t qv CANDIDATES None = Some dense"
      "fts_search (ts_rank v) db t n CANDIDATES None = Some fts" by auto
    let ?fused = "rrf_fuse (map_order v) [dense, fts]"
    let ?hits = "if ?fused = [] then [] else rank_and_render v db t n k ?fused"
    have "hnsw_ok (hnsw v)" "map_order_ok (map_order v)"
      using v by (auto simp: services_ok_def map_order_ok_def)
    then have "hit_id h \<in> own t" if "h \<in> fst ` set ?fused" for h
      using that rrf_fuse_spec [of "map_order v" "[dense, fts]"] own
        knn_search_tenant [OF _ legs(2)] fts_search_tenant [OF legs(3)]
      by fastforce
    then have "hits_ok (own t) k (rank_and_render v db t n k ?fused)"
      by (rule rank_and_render_ok)
    then have ok: "hits_ok (own t) k ?hits"
      by (simp add: hits_ok_def)
    have "res = Some ?hits" "r' = cache_hits v (search_key t k n) ?hits r1"
      using run q legs by (auto simp: search_miss_def Let_def split: if_splits)
    with cache_clean_hits [OF v c1 ok] ok show ?thesis by simp
  qed
qed

lemma search_step:
  assumes v: "services_ok v" and own: "tenant_chunks (lib s) t \<subseteq> own t"
    and c: "cache_clean v own (redis_of s)" and run: "search v t query k s = (res, s')"
  shows "cache_clean v own (redis_of s') \<and> lib s' = lib s
    \<and> (\<forall>hits. res = Some hits \<longrightarrow> hits_ok (own t) (clamp k 1 50) hits)"
proof (cases "normalize_query query = []")
  case True
  with run c show ?thesis by (auto simp: search_def Let_def hits_ok_def)
next
  case False
  let ?key = "search_key t (clamp k 1 50) (normalize_query query)"
  obtain cached r where rd: "cached_read (read_hits v) ?key (redis_of s) = (cached, r)"
    by (meson surj_pair)
  have c1: "cache_clean v own r"
    using c cached_read_keyspace [OF rd] cache_clean_keyspace by metis
  show ?thesis
  proof (cases cached)
    case (Some hits)
    obtain e where "keyspace (redis_of s) ?key = Some e" "read_hits v (entry_value e) = Some hits"
      using cached_read_hit [OF rd [unfolded Some]] by (elim exE conjE)
    then have "hits_ok (own t) (clamp k 1 50) hits" by (rule cache_cleanD [OF c])
    moreover from run have "res = Some hits" "s' = s\<lparr>redis_of := r\<rparr>"
      unfolding search_def Let_def rd Some if_not_P [OF False] by simp_all
    ultimately show ?thesis using c1 by simp
  next
    case None
    obtain out r' where m: "search_miss v (lib s) t (normalize_query query) (clamp k 1 50) r = (out, r')"
      by (meson surj_pair)
    from run have "res = out" "s' = s\<lparr>redis_of := r'\<rparr>"
      unfolding search_def Let_def rd None if_not_P [OF False] prod.case option.case m by simp_all
    with search_miss_ok [OF v own c1 m] show ?thesis by simp
  qed
qed

text \<open>
  The searches, chunk writes and passing time of a running system. \<open>own t\<close> collects the ids
  of every chunk that has ever been a row of tenant \<open>t\<close> (a cached result may outlive its row).
\<close>

definition grow_own :: "(uuid \<Rightarrow> uuid set) \<Rightarrow> library_db \<Rightarrow> uuid \<Rightarrow> uuid set" where
  "grow_own own db = (\<lambda>t. own t \<union> tenant_chunks db t)"

inductive running :: "services \<Rightarrow> stores \<Rightarrow> (uuid \<Rightarrow> uuid set) \<Rightarrow> bool" for v where
  boot: "(\<forall>key. keyspace (redis_of s) key = None) \<Longrightarrow> running v s (tenant_chunks (lib s))"
| searched: "running v s own \<Longrightarrow> running v (snd (search v t query k s)) own"
| upserted: "running v s own \<Longrightarrow> db' = snd (upsert_chunks t cs (lib s)) \<Longrightarrow>
    running v (s\<lparr>lib := db'\<rparr>) (grow_own own db')"
| deleted: "running v s own \<Longrightarrow> db' = snd (delete_chunks_for_block t b (lib s)) \<Longrightarrow>
    running v (s\<lparr>lib := db'\<rparr>) (grow_own own db')"
| reindexed: "running v s own \<Longrightarrow> db' = snd (reindex_unembedded v t n (lib s)) \<Longrightarrow>
    running v (s\<lparr>lib := db'\<rparr>) (grow_own own db')"
| waited: "running v s own \<Longrightarrow> running v (s\<lparr>redis_of := pass d (redis_of s)\<rparr>) own"

lemma cache_clean_grow: "cache_clean v own r \<Longrightarrow> cache_clean v (grow_own own db) r"
  unfolding cache_clean_def grow_own_def hits_ok_def by blast

lemma running_inv:
  assumes v: "services_ok v"
  shows "running v s own \<Longrightarrow> cache_clean v own (redis_of s) \<and> (\<forall>t. tenant_chunks (lib s) t \<subseteq> own t)"
proof (induction rule: running.induct)
  case (boot s)
  then show ?case by (simp add: cache_clean_def)
next
  case (searched s own t query k)
  obtain res s' where r: "search v t query k s = (res, s')" by (meson surj_pair)
  from search_step [OF v _ _ r, of own] searched.IH r show ?case by simp
next
  case (waited s own d)
  then show ?case by (simp add: cache_clean_def pass_def)
qed (auto simp: grow_own_def cache_clean_grow [unfolded grow_own_def])


text \<open>A service set for the witnesses; the JSON text of a hit list is the number of its data.\<close>

definition hit_data :: "search_hit \<Rightarrow> (uuid \<times> uuid option \<times> uuid option) \<times> string \<times> string" where
  "hit_data h = ((sh_chunk h, sh_block h, sh_document h), sh_text h, snippet h)"

definition data_hit :: "(uuid \<times> uuid option \<times> uuid option) \<times> string \<times> string \<Rightarrow> search_hit" where
  "data_hit d = (case d of ((c, b, doc), txt, sn) \<Rightarrow>
     \<lparr>sh_chunk = c, sh_block = b, sh_document = doc, sh_text = txt, snippet = sn, score = 1 / 2\<rparr>)"

definition plain_services :: services where
  "plain_services =
    \<lparr>dense_svc = (\<lambda>_ _. Some (200, Some [replicate 768 1])), sparse_svc = (\<lambda>_. None), rerank_svc = (\<lambda>_ _. None),
     hnsw = (\<lambda>_ _ _ rows. map (\<lambda>r. (r, 0)) (filter (\<lambda>r. vector r \<noteq> None) rows)),
     ts_rank = (\<lambda>_ _. None), map_order = remdups,
     write_hits = (\<lambda>hits. show_nat (to_nat (map hit_data hits))),
     read_hits = (\<lambda>s. Some (map data_hit (from_nat (digits_value s)))),
     to_f64 = (\<lambda>_. 1 / 2), write_vec = (\<lambda>_. []), read_vec = (\<lambda>_. None), ellipsis = CHR ''~''\<rparr>"

lemma data_hit_hit_data: "data_hit (hit_data h) = h\<lparr>score := 1 / 2\<rparr>"
  by (cases h) (simp add: data_hit_def hit_data_def)

lemma plain_services_ok: "services_ok plain_services"
proof -
  have "map data_hit (map hit_data hits) = map (\<lambda>h. h\<lparr>score := 1 / 2\<rparr>) hits" for hits
    by (simp add: data_hit_hit_data)
  then show ?thesis
    by (auto simp: services_ok_def plain_services_def hnsw_ok_def)
qed

definition up_stores :: "chunk_row list \<Rightarrow> stores" where
  "up_stores rows = \<lparr>redis_of = \<lparr>keyspace = (\<lambda>_. None), clock = 0, link_up = (\<lambda>_. True), issued = 0\<rparr>,
     lib = library_of rows\<rparr>"


section \<open>Reindexing makes progress\<close>

lemma reindex_loop_effect:
  "reindex_loop tenant ps rows = Some rows' \<Longrightarrow>
    length rows' = length rows
    \<and> (\<forall>i < length rows. chunk_key (rows' ! i) = chunk_key (rows ! i)
        \<and> chunk_tenant (rows' ! i) = chunk_tenant (rows ! i)
        \<and> embedded (rows' ! i) = (embedded (rows ! i)
            \<or> chunk_tenant (rows ! i) = tenant \<and> chunk_key (rows ! i) \<in> fst ` set ps))"
proof (induction tenant ps rows rule: reindex_loop.induct)
  case (2 tenant key vec rest rows)
  let ?rows = "update_where (\<lambda>r. chunk_key r = key \<and> chunk_tenant r = tenant) (set_embedding vec) rows"
  from "2.prems" have "reindex_loop tenant rest ?rows = Some rows'" "length vec = CHUNK_DIM"
    by (auto split: if_splits)
  from "2.IH" [OF _ this(1)] this(2) show ?case
    by (auto simp: update_where_def set_embedding_def)
qed simp

lemma filter_nth_length:
  assumes "length ys = length xs" "\<And>i. i < length xs \<Longrightarrow> Q (ys ! i) \<longleftrightarrow> P (xs ! i)"
  shows "length (filter Q ys) = length (filter P xs)"
  using assms
proof (induction xs arbitrary: ys)
  case (Cons x xs)
  then obtain y ys' where ys: "ys = y # ys'" by (cases ys) auto
  have "length (filter Q ys') = length (filter P xs)"
    by (rule Cons.IH) (use Cons.prems ys in force)+
  with Cons.prems(2) [of 0] ys show ?case by simp
qed simp

lemma distinct_take_filter:
  assumes "distinct (map f xs)"
  shows "length (filter (\<lambda>x. f x \<notin> f ` set (take n xs)) xs) = length xs - n"
proof -
  have "filter (\<lambda>x. f x \<notin> f ` set (take n xs)) xs =
      filter (\<lambda>x. f x \<notin> f ` set (take n xs)) (take n xs) @ filter (\<lambda>x. f x \<notin> f ` set (take n xs)) (drop n xs)"
    by (metis append_take_drop_id filter_append)
  also have "filter (\<lambda>x. f x \<notin> f ` set (take n xs)) (take n xs) = []"
    by (auto simp: filter_empty_conv)
  also have "filter (\<lambda>x. f x \<notin> f ` set (take n xs)) (drop n xs) = drop n xs"
  proof (rule filter_True, intro ballI)
    fix x assume x: "x \<in> set (drop n xs)"
    have "distinct (map f (take n xs) @ map f (drop n xs))"
      using assms by (metis append_take_drop_id map_append)
    with x show "f x \<notin> f ` set (take n xs)" by auto
  qed
  finally show ?thesis by simp
qed

lemma reindex_cases:
  assumes "0 < limit" and "reindex_unembedded v tenant limit db = (res, db')"
  obtains (none) "res = None" "db' = db"
    | (empty) "unembedded tenant db = []" "res = Some (0, False)" "db' = db"
    | (batch) rows vectors rows' where "rows = take (nat limit) (unembedded tenant db)"
        "length vectors = length rows"
        "reindex_loop tenant (zip (map chunk_key rows) vectors) (chunks db) = Some rows'"
        "res = Some (length rows, int (length rows) = limit)" "db' = db\<lparr>chunks := rows'\<rparr>"
proof -
  define rows where "rows = take (nat limit) (unembedded tenant db)"
  note run = assms(2) [unfolded reindex_unembedded_def Let_def, folded rows_def]
  show ?thesis
  proof (cases "\<not> db_up db \<or> limit < 0")
    case True
    with run none show ?thesis by simp
  next
    case up: False
    show ?thesis
    proof (cases "rows = []")
      case True
      have "unembedded tenant db = []" using True assms(1) by (simp add: rows_def)
      moreover have "res = Some (0, False)" "db' = db"
        using run [unfolded if_not_P [OF up] if_P [OF True]] by simp_all
      ultimately show ?thesis by (rule empty)
    next
      case False
      note run = run [unfolded if_not_P [OF up] if_not_P [OF False]]
      show ?thesis
      proof (cases "embed_dense v (map body rows) False")
        case None
        with run none show ?thesis by simp
      next
        case (Some vectors)
        note run = run [unfolded Some option.case]
        show ?thesis
        proof (cases "length vectors = length rows")
          case True
          show ?thesis
          proof (cases "reindex_loop tenant (zip (map chunk_key rows) vectors) (chunks db)")
            case (Some rows')
            with run True have "res = Some (length rows, int (length rows) = limit)"
              "db' = db\<lparr>chunks := rows'\<rparr>" by simp_all
            with batch [OF rows_def True Some] show ?thesis .
          qed (use run True none in simp)
        qed (use run none in simp)
      qed
    qed
  qed
qed

text \<open>
  Each successful reindex call embeds exactly the number of chunks it reports, so the
  caller's loop "call again while more remains" ends: the tenant's unembedded chunks drop by
  that number, the number is the batch limit unless fewer were left, and the answer says
  there is nothing more only when that is so. The rows of other tenants keep their flags. A
  failed call changes nothing.
\<close>

theorem reindex_progress:
  assumes "distinct (map chunk_key (chunks db))" and "0 < limit"
    and "reindex_unembedded v tenant limit db = (res, db')"
  shows "case res of None \<Rightarrow> db' = db
    | Some (n, again) \<Rightarrow> n = min (nat limit) (length (unembedded tenant db))
        \<and> length (unembedded tenant db') = length (unembedded tenant db) - n
        \<and> (\<not> again \<longrightarrow> unembedded tenant db' = [])
        \<and> (\<forall>t. t \<noteq> tenant \<longrightarrow> length (unembedded t db') = length (unembedded t db))"
proof -
  let ?un = "unembedded tenant db" and ?rows = "take (nat limit) (unembedded tenant db)"
  have d: "distinct (map chunk_key ?un)"
    using assms(1) by (simp add: unembedded_def distinct_map_filter)
  show ?thesis
    using assms(2,3)
  proof (cases rule: reindex_cases)
    case none
    then show ?thesis by simp
  next
    case empty
    then show ?thesis by simp
  next
    case (batch rows vectors rows')
    note batch = batch(2-5) [unfolded batch(1)]
    note eff = reindex_loop_effect [OF batch(2)]
    define K where "K = chunk_key ` set ?rows"
    have keys: "fst ` set (zip (map chunk_key ?rows) vectors) = K"
      unfolding K_def using batch(1) by (metis length_map list.set_map map_fst_zip)
    have "length (filter (\<lambda>r. chunk_tenant r = tenant \<and> \<not> embedded r) rows') =
        length (filter (\<lambda>r. (chunk_tenant r = tenant \<and> \<not> embedded r) \<and> chunk_key r \<notin> K) (chunks db))"
      by (rule filter_nth_length) (use eff keys in auto)
    also have "filter (\<lambda>r. (chunk_tenant r = tenant \<and> \<not> embedded r) \<and> chunk_key r \<notin> K) (chunks db) =
        filter (\<lambda>r. chunk_key r \<notin> K) ?un"
      by (simp add: unembedded_def conj_ac)
    finally have mine: "length (unembedded tenant db') = length (filter (\<lambda>r. chunk_key r \<notin> K) ?un)"
      by (simp add: unembedded_def batch(4))
    have left: "length (unembedded tenant db') = length ?un - nat limit"
      using distinct_take_filter [OF d, of "nat limit"] mine by (simp add: K_def)
    have others: "length (unembedded t db') = length (unembedded t db)" if "t \<noteq> tenant" for t
      unfolding unembedded_def batch(4)
      by (simp, rule filter_nth_length) (use eff that in auto)
    have "unembedded tenant db' = []" if "int (length ?rows) \<noteq> limit"
      using left that assms(2) by (auto simp: min_def split: if_splits)
    with left others batch(3) assms(2) show ?thesis
      by (auto simp: min_def)
  qed
qed

theorem reindex_progress_witness:
  "let db = library_of [fresh_chunk 1 7 (plain_chunk None ''heart''), fresh_chunk 2 8 (plain_chunk None ''lung'')];
       (res, db') = reindex_unembedded plain_services 1 3 db
   in res = Some (1, False) \<and> unembedded 1 db' = [] \<and> length (unembedded 2 db') = 1"
proof -
  let ?db = "library_of [fresh_chunk 1 7 (plain_chunk None ''heart''), fresh_chunk 2 8 (plain_chunk None ''lung'')]"
  obtain res db' where r: "reindex_unembedded plain_services 1 3 ?db = (res, db')" by (meson surj_pair)
  have res: "res = Some (1, False)"
    using r by (auto simp: reindex_unembedded_def unembedded_def library_of_def plain_services_def
        embed_dense_def accept_json_def fresh_chunk_def CHUNK_DIM_def Let_def)
  have "distinct (map chunk_key (chunks ?db))" by (simp add: library_of_def)
  from reindex_progress [OF this _ r] res
  have "unembedded 1 db' = []" "length (unembedded 2 db') = length (unembedded 2 ?db)" by auto
  moreover have "length (unembedded 2 ?db) = 1"
    by (simp add: unembedded_def library_of_def fresh_chunk_def)
  ultimately show ?thesis using r res by simp
qed

end
