(* ===== verification/Queue.thy ===== *)
theory Queue
  imports Json Tenancy
begin

text \<open>
  \<open>insight-core/src/storage/queue.rs\<close>: the job queue, a \<open>jobs\<close> table in Postgres and a
  Redis stream with one consumer group. \<open>stream\<close> holds the entries in id order, \<open>cursor\<close> is
  the last id delivered to the group (\<open>None\<close> before the group exists), \<open>pending\<close> the entries
  delivered and not acknowledged, \<open>events\<close> the log of what was published. Every Redis
  command may fail (\<open>wire n\<close> says whether the n-th reaches the server), the database answers
  when \<open>pg_up\<close>. An operation returns its result, \<open>None\<close> for the source's \<open>Err\<close>, and the new
  state: what was done before a failing command stays done. A row identifier's text is its
  decimal form; JSON text is a parameter (\<open>codec\<close>).
\<close>

record job_row =
  job_key :: uuid
  job_tenant :: uuid
  job_kind :: string
  job_payload :: json
  job_status :: string
  job_progress :: int
  last_error :: "string option"
  job_updated :: nat

record queued_job =
  qj_id :: uuid
  qj_stream :: nat
  qj_tenant :: uuid
  qj_kind :: string
  qj_payload :: json

record stream_entry =
  entry_id :: nat
  entry_map :: "string \<Rightarrow> string option"

record pending_entry =
  pe_id :: nat
  pe_consumer :: string
  pe_delivered :: nat

record queue_state =
  jobs :: "job_row list"
  stream :: "stream_entry list"
  cursor :: "nat option"
  pending :: "pending_entry list"
  events :: "(string \<times> json) list"
  job_supply :: uuid
  entry_supply :: nat
  q_now :: nat
  pg_up :: bool
  wire :: "nat \<Rightarrow> bool"
  sent :: nat
  trim_by :: "nat \<Rightarrow> nat"

record codec =
  to_text :: "json \<Rightarrow> string"
  from_text :: "string \<Rightarrow> json option"

definition JOB_STREAM_MAXLEN :: nat where "JOB_STREAM_MAXLEN = 100000"

section \<open>Sequencing and commands\<close>

definition seq :: "('s \<Rightarrow> 'a option \<times> 's) \<Rightarrow> ('a \<Rightarrow> 's \<Rightarrow> 'b option \<times> 's) \<Rightarrow> 's \<Rightarrow> 'b option \<times> 's" where
  "seq m f s = (case m s of (None, s') \<Rightarrow> (None, s') | (Some x, s') \<Rightarrow> f x s')"

definition send :: "(queue_state \<Rightarrow> 'a \<times> queue_state) \<Rightarrow> queue_state \<Rightarrow> 'a option \<times> queue_state" where
  "send f s = (let s' = s\<lparr>sent := sent s + 1\<rparr>
     in if wire s (sent s) then (let (x, t) = f s' in (Some x, t)) else (None, s'))"

definition publish :: "string \<Rightarrow> json \<Rightarrow> queue_state \<Rightarrow> unit option \<times> queue_state" where
  "publish channel event = send (\<lambda>s. ((), s\<lparr>events := events s @ [(channel, event)]\<rparr>))"

definition user_channel :: "string \<Rightarrow> string" where
  "user_channel u = ''user:'' @ u"

definition tenant_channel :: "uuid \<Rightarrow> string" where
  "tenant_channel t = ''tenant:'' @ show_nat t @ '':jobs''"

definition job_event :: "uuid \<Rightarrow> string \<Rightarrow> int \<Rightarrow> string option \<Rightarrow> json" where
  "job_event key status' progress error =
     JObj [(''type'', JStr ''job''), (''id'', JStr (show_nat key)), (''status'', JStr status'),
       (''stage'', JStr status'), (''progress'', JInt progress),
       (''message'', case error of None \<Rightarrow> JNull | Some e \<Rightarrow> JStr e)]"

definition publish_to :: "string option \<Rightarrow> json \<Rightarrow> queue_state \<Rightarrow> unit option \<times> queue_state" where
  "publish_to user event s =
     (case user of None \<Rightarrow> (Some (), s) | Some u \<Rightarrow> publish (user_channel u) event s)"

section \<open>Operations\<close>

definition insert_job :: "string \<Rightarrow> uuid \<Rightarrow> json \<Rightarrow> queue_state \<Rightarrow> uuid option \<times> queue_state" where
  "insert_job kind tenant payload s =
     (if \<not> pg_up s then (None, s)
      else (Some (job_supply s),
        s\<lparr>jobs := jobs s @ [\<lparr>job_key = job_supply s, job_tenant = tenant, job_kind = kind,
             job_payload = payload, job_status = ''queued'', job_progress = 0, last_error = None,
             job_updated = q_now s\<rparr>],
          job_supply := job_supply s + 1\<rparr>))"

definition entry_fields :: "codec \<Rightarrow> uuid \<Rightarrow> uuid \<Rightarrow> string \<Rightarrow> json \<Rightarrow> string \<Rightarrow> string option" where
  "entry_fields c key tenant kind payload =
     [''job_id'' \<mapsto> show_nat key, ''tenant_id'' \<mapsto> show_nat tenant, ''kind'' \<mapsto> kind,
      ''payload'' \<mapsto> to_text c payload]"

text \<open>\<open>XADD\<close> appends under a fresh, larger id and trims approximately to the maximal length.\<close>

definition xadd :: "(string \<Rightarrow> string option) \<Rightarrow> queue_state \<Rightarrow> unit option \<times> queue_state" where
  "xadd fs = send (\<lambda>s. ((),
     (let es = stream s @ [\<lparr>entry_id = entry_supply s, entry_map = fs\<rparr>]
      in s\<lparr>stream := drop (trim_by s (length es)) es, entry_supply := entry_supply s + 1\<rparr>)))"

definition enqueue :: "codec \<Rightarrow> string \<Rightarrow> uuid \<Rightarrow> json \<Rightarrow> queue_state \<Rightarrow> uuid option \<times> queue_state" where
  "enqueue c kind tenant payload =
     seq (insert_job kind tenant payload) (\<lambda>key.
       let event = job_event key ''queued'' 0 None;
           user = (case get_key payload ''userId'' of None \<Rightarrow> None | Some v \<Rightarrow> as_str v)
       in seq (publish_to user event) (\<lambda>_.
          seq (publish (tenant_channel tenant) event) (\<lambda>_.
          seq (xadd (entry_fields c key tenant kind payload)) (\<lambda>_ s. (Some key, s)))))"

definition parse_uuid :: "string \<Rightarrow> uuid option" where
  "parse_uuid s = (if show_nat (digits_value s) = s then Some (digits_value s) else None)"

definition parse_job_entry :: "codec \<Rightarrow> stream_entry \<Rightarrow> queued_job option" where
  "parse_job_entry c e =
     (case entry_map e ''job_id'' of None \<Rightarrow> None | Some k \<Rightarrow>
     (case parse_uuid k of None \<Rightarrow> None | Some key \<Rightarrow>
     (case entry_map e ''tenant_id'' of None \<Rightarrow> None | Some t \<Rightarrow>
     (case parse_uuid t of None \<Rightarrow> None | Some tenant \<Rightarrow>
     (case entry_map e ''kind'' of None \<Rightarrow> None | Some kind \<Rightarrow>
     (case entry_map e ''payload'' of None \<Rightarrow> None | Some p \<Rightarrow>
     (case from_text c p of None \<Rightarrow> None | Some payload \<Rightarrow>
        Some \<lparr>qj_id = key, qj_stream = entry_id e, qj_tenant = tenant, qj_kind = kind,
              qj_payload = payload\<rparr>)))))))"

definition xgroup_create :: "queue_state \<Rightarrow> unit option \<times> queue_state" where
  "xgroup_create = send (\<lambda>s. ((), case cursor s of None \<Rightarrow> s\<lparr>cursor := Some 0\<rparr> | Some _ \<Rightarrow> s))"

definition undelivered :: "queue_state \<Rightarrow> stream_entry list" where
  "undelivered s = filter (\<lambda>e. case cursor s of None \<Rightarrow> True | Some n \<Rightarrow> n < entry_id e) (stream s)"

definition xreadgroup :: "string \<Rightarrow> queue_state \<Rightarrow> stream_entry option option \<times> queue_state" where
  "xreadgroup consumer = send (\<lambda>s. case undelivered s of
       [] \<Rightarrow> (None, s)
     | e # _ \<Rightarrow> (Some e, s\<lparr>cursor := Some (entry_id e),
          pending := pending s @ [\<lparr>pe_id = entry_id e, pe_consumer = consumer, pe_delivered = q_now s\<rparr>]\<rparr>))"

definition decode_entry :: "codec \<Rightarrow> stream_entry option \<Rightarrow> queued_job option option" where
  "decode_entry c e = (case e of None \<Rightarrow> Some None | Some x \<Rightarrow> map_option Some (parse_job_entry c x))"

definition next_job :: "codec \<Rightarrow> string \<Rightarrow> queue_state \<Rightarrow> queued_job option option \<times> queue_state" where
  "next_job c consumer =
     seq xgroup_create (\<lambda>_. seq (xreadgroup consumer) (\<lambda>e s. (decode_entry c e, s)))"

text \<open>
  \<open>XAUTOCLAIM\<close> walks the pending entries in id order: one whose stream entry is gone is
  dropped, the first that has been idle long enough changes hands.
\<close>

fun autoclaim :: "nat \<Rightarrow> nat \<Rightarrow> string \<Rightarrow> nat list \<Rightarrow> pending_entry list \<Rightarrow> nat option \<times> pending_entry list" where
  "autoclaim now min_idle consumer present [] = (None, [])"
| "autoclaim now min_idle consumer present (p # ps) =
     (if pe_id p \<notin> set present then autoclaim now min_idle consumer present ps
      else if pe_delivered p + min_idle \<le> now
      then (Some (pe_id p), p\<lparr>pe_consumer := consumer, pe_delivered := now\<rparr> # ps)
      else let (r, ps') = autoclaim now min_idle consumer present ps in (r, p # ps'))"

definition xautoclaim :: "string \<Rightarrow> nat \<Rightarrow> queue_state \<Rightarrow> stream_entry option option \<times> queue_state" where
  "xautoclaim consumer min_idle_ms = send (\<lambda>s.
     if cursor s = None then (None, s)
     else let (r, ps) = autoclaim (q_now s) min_idle_ms consumer (map entry_id (stream s)) (pending s)
          in ((case r of None \<Rightarrow> None | Some k \<Rightarrow> find (\<lambda>e. entry_id e = k) (stream s)),
              s\<lparr>pending := ps\<rparr>))"

definition claim_stale :: "codec \<Rightarrow> string \<Rightarrow> nat \<Rightarrow> queue_state \<Rightarrow> queued_job option option \<times> queue_state" where
  "claim_stale c consumer min_idle_ms =
     seq (xautoclaim consumer min_idle_ms) (\<lambda>e s. (decode_entry c e, s))"

definition ack :: "queued_job \<Rightarrow> queue_state \<Rightarrow> unit option \<times> queue_state" where
  "ack job = send (\<lambda>s. ((), s\<lparr>pending := filter (\<lambda>p. pe_id p \<noteq> qj_stream job) (pending s)\<rparr>))"

definition job_of :: "uuid \<Rightarrow> uuid \<Rightarrow> queue_state \<Rightarrow> job_row option" where
  "job_of tenant key s = find (\<lambda>j. job_key j = key \<and> job_tenant j = tenant) (jobs s)"

definition is_cancelled :: "uuid \<Rightarrow> uuid \<Rightarrow> queue_state \<Rightarrow> bool option" where
  "is_cancelled tenant key s =
     (if \<not> pg_up s then None
      else Some (map_option job_status (job_of tenant key s) = Some ''cancelled''))"

definition set_job :: "uuid \<Rightarrow> uuid \<Rightarrow> string \<Rightarrow> int \<Rightarrow> string option \<Rightarrow> queue_state \<Rightarrow> queue_state" where
  "set_job tenant key status' progress error s =
     s\<lparr>jobs := update_where (\<lambda>j. job_key j = key \<and> job_tenant j = tenant)
        (\<lambda>j. j\<lparr>job_status := status', job_progress := progress, last_error := error,
               job_updated := q_now s\<rparr>) (jobs s)\<rparr>"

definition publish_progress ::
  "uuid \<Rightarrow> uuid option \<Rightarrow> uuid \<Rightarrow> string \<Rightarrow> int \<Rightarrow> string option \<Rightarrow> queue_state \<Rightarrow> unit option \<times> queue_state" where
  "publish_progress tenant user key status' progress error s =
     (if \<not> pg_up s then (None, s)
      else let event = job_event key status' progress error
           in seq (publish_to (map_option show_nat user) event)
                  (\<lambda>_. publish (tenant_channel tenant) event)
                  (set_job tenant key status' progress error s))"

section \<open>What each operation does to the queue\<close>

lemma send_cases:
  "send f s = (r, s') \<Longrightarrow>
    (wire s (sent s) \<and> r = Some (fst (f (s\<lparr>sent := sent s + 1\<rparr>))) \<and> s' = snd (f (s\<lparr>sent := sent s + 1\<rparr>)))
    \<or> (\<not> wire s (sent s) \<and> r = None \<and> s' = s\<lparr>sent := sent s + 1\<rparr>)"
  by (auto simp: send_def Let_def split: if_splits prod.splits)

lemma seq_cases:
  "seq m f s = (r, s'') \<Longrightarrow>
    (\<exists>s'. m s = (None, s') \<and> r = None \<and> s'' = s') \<or> (\<exists>x s'. m s = (Some x, s') \<and> f x s' = (r, s''))"
  by (auto simp: seq_def split: prod.splits option.splits)

text \<open>\<open>same_queue\<close>: nothing but the event log and the command count differs.\<close>

definition same_stream :: "queue_state \<Rightarrow> queue_state \<Rightarrow> bool" where
  "same_stream s t = (stream t = stream s \<and> cursor t = cursor s \<and> pending t = pending s
     \<and> entry_supply t = entry_supply s \<and> q_now t = q_now s \<and> trim_by t = trim_by s
     \<and> pg_up t = pg_up s \<and> wire t = wire s)"

lemma same_stream_refl [simp]: "same_stream s s"
  by (simp add: same_stream_def)

lemma same_stream_trans: "same_stream s t \<Longrightarrow> same_stream t u \<Longrightarrow> same_stream s u"
  by (simp add: same_stream_def)

lemma publish_same: "publish ch e s = (r, s') \<Longrightarrow> same_stream s s' \<and> jobs s' = jobs s \<and> job_supply s' = job_supply s"
  unfolding publish_def by (drule send_cases) (auto simp: same_stream_def)

lemma publish_to_same: "publish_to u e s = (r, s') \<Longrightarrow> same_stream s s' \<and> jobs s' = jobs s \<and> job_supply s' = job_supply s"
  unfolding publish_to_def using publish_same by (auto split: option.splits)

definition queued_row :: "uuid \<Rightarrow> string \<Rightarrow> uuid \<Rightarrow> json \<Rightarrow> nat \<Rightarrow> job_row" where
  "queued_row key kind tenant payload t =
     \<lparr>job_key = key, job_tenant = tenant, job_kind = kind, job_payload = payload,
      job_status = ''queued'', job_progress = 0, last_error = None, job_updated = t\<rparr>"

lemma xadd_effect:
  assumes "xadd fs s = (r, s')"
  shows "(r = None \<and> s' = s\<lparr>sent := sent s + 1\<rparr>)
    \<or> (r = Some () \<and> s' = (let es = stream s @ [\<lparr>entry_id = entry_supply s, entry_map = fs\<rparr>]
        in s\<lparr>sent := sent s + 1, stream := drop (trim_by s (length es)) es, entry_supply := entry_supply s + 1\<rparr>))"
  using send_cases [OF assms [unfolded xadd_def]] by (auto simp: Let_def)

lemma enqueue_effect:
  assumes "enqueue c kind tenant payload s = (r, s')"
  shows "(r = None \<and> same_stream s s' \<and>
        (jobs s' = jobs s \<and> \<not> pg_up s \<or> jobs s' = jobs s @ [queued_row (job_supply s) kind tenant payload (q_now s)]))
      \<or> (r = Some (job_supply s) \<and> jobs s' = jobs s @ [queued_row (job_supply s) kind tenant payload (q_now s)]
        \<and> (let es = stream s @ [\<lparr>entry_id = entry_supply s, entry_map = entry_fields c (job_supply s) tenant kind payload\<rparr>]
           in stream s' = drop (trim_by s (length es)) es)
        \<and> entry_supply s' = entry_supply s + 1
        \<and> cursor s' = cursor s \<and> pending s' = pending s \<and> q_now s' = q_now s \<and> trim_by s' = trim_by s
        \<and> pg_up s' = pg_up s \<and> wire s' = wire s)"
proof -
  let ?row = "queued_row (job_supply s) kind tenant payload (q_now s)"
  note run = assms [unfolded enqueue_def Let_def]
  show ?thesis
    using seq_cases [OF run]
  proof (elim disjE exE conjE)
    fix s1 assume "insert_job kind tenant payload s = (None, s1)" "r = None" "s' = s1"
    then show ?thesis by (auto simp: insert_job_def split: if_splits)
  next
    fix key s1
    assume ins: "insert_job kind tenant payload s = (Some key, s1)"
      and rest: "seq (publish_to (case get_key payload ''userId'' of None \<Rightarrow> None | Some v \<Rightarrow> as_str v)
          (job_event key ''queued'' 0 None))
        (\<lambda>_. seq (publish (tenant_channel tenant) (job_event key ''queued'' 0 None)) (\<lambda>_.
            seq (xadd (entry_fields c key tenant kind payload)) (\<lambda>_ t. (Some key, t)))) s1 = (r, s')"
    from ins have s1: "key = job_supply s" "same_stream s s1" "jobs s1 = jobs s @ [?row]"
      by (auto simp: insert_job_def queued_row_def same_stream_def split: if_splits)
    show ?thesis
      using seq_cases [OF rest]
    proof (elim disjE exE conjE)
      fix s2 assume p: "publish_to (case get_key payload ''userId'' of None \<Rightarrow> None | Some v \<Rightarrow> as_str v)
          (job_event key ''queued'' 0 None) s1 = (None, s2)" "r = None" "s' = s2"
      then show ?thesis
        using publish_to_same [OF p(1)] same_stream_trans [OF s1(2), of s2] s1 by simp
    next
      fix u s2
      assume p1: "publish_to (case get_key payload ''userId'' of None \<Rightarrow> None | Some v \<Rightarrow> as_str v)
          (job_event key ''queued'' 0 None) s1 = (Some u, s2)"
        and rest2: "seq (publish (tenant_channel tenant) (job_event key ''queued'' 0 None)) (\<lambda>_.
            seq (xadd (entry_fields c key tenant kind payload)) (\<lambda>_ t. (Some key, t))) s2 = (r, s')"
      have s2: "same_stream s s2" "jobs s2 = jobs s @ [?row]"
        using publish_to_same [OF p1] s1 same_stream_trans by auto
      show ?thesis
        using seq_cases [OF rest2]
      proof (elim disjE exE conjE)
        fix s3 assume p: "publish (tenant_channel tenant) (job_event key ''queued'' 0 None) s2 = (None, s3)"
          "r = None" "s' = s3"
        then show ?thesis
          using publish_same [OF p(1)] same_stream_trans [OF s2(1), of s3] s2 by simp
      next
        fix u s3
        assume p2: "publish (tenant_channel tenant) (job_event key ''queued'' 0 None) s2 = (Some u, s3)"
          and rest3: "seq (xadd (entry_fields c key tenant kind payload)) (\<lambda>_ t. (Some key, t)) s3 = (r, s')"
        have s3: "same_stream s s3" "jobs s3 = jobs s @ [?row]"
          using publish_same [OF p2] s2 same_stream_trans by auto
        from seq_cases [OF rest3] show ?thesis
        proof (elim disjE exE conjE)
          fix s4 assume q: "xadd (entry_fields c key tenant kind payload) s3 = (None, s4)" "r = None" "s' = s4"
          have "s4 = s3\<lparr>sent := sent s3 + 1\<rparr>" using xadd_effect [OF q(1)] by simp
          then have "same_stream s s4" "jobs s4 = jobs s @ [?row]" using s3 by (simp_all add: same_stream_def)
          with q show ?thesis by simp
        next
          fix u s4 assume q: "xadd (entry_fields c key tenant kind payload) s3 = (Some u, s4)" "(Some key, s4) = (r, s')"
          let ?es = "stream s3 @ [\<lparr>entry_id = entry_supply s3, entry_map = entry_fields c key tenant kind payload\<rparr>]"
          have s4: "s4 = s3\<lparr>sent := sent s3 + 1, stream := drop (trim_by s3 (length ?es)) ?es,
              entry_supply := entry_supply s3 + 1\<rparr>"
            using xadd_effect [OF q(1)] by (simp add: Let_def)
          have "r = Some (job_supply s)" "s' = s4" using q(2) s1(1) by simp_all
          with s4 s3 s1(1) show ?thesis by (simp add: same_stream_def Let_def)
        qed
      qed
    qed
  qed
qed

text \<open>
  The well-formed queues: ids count up from 1, the cursor and the pending ids lie behind, and
  trimming leaves a stream alone until it has more than the maximal length.
\<close>

definition delivered :: "queue_state \<Rightarrow> nat" where
  "delivered s = (case cursor s of None \<Rightarrow> 0 | Some n \<Rightarrow> n)"

definition trim_ok :: "queue_state \<Rightarrow> bool" where
  "trim_ok s = (\<forall>n \<le> JOB_STREAM_MAXLEN. trim_by s n = 0)"

definition queue_ok :: "queue_state \<Rightarrow> bool" where
  "queue_ok s = (map entry_id (stream s) = [1..<entry_supply s] \<and> 1 \<le> entry_supply s
     \<and> delivered s < entry_supply s \<and> trim_ok s
     \<and> distinct (map pe_id (pending s)) \<and> pe_id ` set (pending s) \<subseteq> {1..delivered s})"

lemmas queue_ok_simps = queue_ok_def trim_ok_def

lemma undelivered_eq:
  assumes "queue_ok s"
  shows "undelivered s = drop (delivered s) (stream s)"
proof -
  have ids: "map entry_id (stream s) = [1..<entry_supply s]"
    using assms by (simp add: queue_ok_simps)
  have len: "length (stream s) = entry_supply s - 1"
    using arg_cong [OF ids, of length] by simp
  have nth: "entry_id (stream s ! i) = Suc i" if "i < length (stream s)" for i
    using arg_cong [OF ids, of "\<lambda>xs. xs ! i"] that len by simp
  have "filter (\<lambda>e. delivered s < entry_id e) (stream s) = drop (delivered s) (stream s)"
  proof -
    have "filter (\<lambda>e. delivered s < entry_id e) (take (delivered s) (stream s)) = []"
      using nth by (auto simp: filter_empty_conv in_set_conv_nth)
    moreover have "filter (\<lambda>e. delivered s < entry_id e) (drop (delivered s) (stream s)) = drop (delivered s) (stream s)"
      using nth by (auto simp: filter_id_conv in_set_conv_nth)
    ultimately show ?thesis
      by (metis append_Nil append_take_drop_id filter_append)
  qed
  moreover have "undelivered s = filter (\<lambda>e. delivered s < entry_id e) (stream s)"
  proof (cases "cursor s")
    case None
    have "\<forall>e \<in> set (stream s). 0 < entry_id e"
      using nth by (auto simp: in_set_conv_nth)
    with None show ?thesis by (simp add: undelivered_def delivered_def cong: filter_cong)
  qed (simp add: undelivered_def delivered_def)
  ultimately show ?thesis by simp
qed

lemma head_undelivered:
  assumes "queue_ok s" "undelivered s = e # es"
  shows "entry_id e = Suc (delivered s)" "e \<in> set (stream s)" "Suc (delivered s) < entry_supply s"
proof -
  have d: "drop (delivered s) (stream s) = e # es"
    using assms undelivered_eq by simp
  then have lt: "delivered s < length (stream s)"
    by (metis drop_all list.distinct(1) not_le)
  have ids: "map entry_id (stream s) = [1..<entry_supply s]"
    using assms(1) by (simp add: queue_ok_simps)
  have len: "length (stream s) = entry_supply s - 1"
    using arg_cong [OF ids, of length] by simp
  have e: "stream s ! delivered s = e"
    using d lt by (metis Cons_nth_drop_Suc list.inject)
  have "entry_id (stream s ! delivered s) = [1..<entry_supply s] ! delivered s"
    using ids lt by (metis nth_map)
  with lt len e show "entry_id e = Suc (delivered s)" by simp
  show "e \<in> set (stream s)" using e lt nth_mem by blast
  show "Suc (delivered s) < entry_supply s" using lt len by simp
qed

text \<open>\<open>XGROUP CREATE\<close> at 0 changes nothing that the queue's view can see.\<close>

lemma xgroup_create_effect:
  "xgroup_create s = (r, s') \<Longrightarrow> delivered s' = delivered s \<and> stream s' = stream s \<and> pending s' = pending s
    \<and> entry_supply s' = entry_supply s \<and> q_now s' = q_now s \<and> trim_by s' = trim_by s \<and> jobs s' = jobs s
    \<and> wire s' = wire s \<and> (r \<noteq> None \<longrightarrow> cursor s' \<noteq> None)"
  unfolding xgroup_create_def by (drule send_cases) (auto simp: delivered_def split: option.splits)

lemma queue_ok_view:
  "queue_ok s \<Longrightarrow> delivered t = delivered s \<Longrightarrow> stream t = stream s \<Longrightarrow> pending t = pending s \<Longrightarrow>
    entry_supply t = entry_supply s \<Longrightarrow> trim_by t = trim_by s \<Longrightarrow> queue_ok t"
  by (simp add: queue_ok_simps)

lemma undelivered_sent [simp]: "undelivered (s\<lparr>sent := n\<rparr>) = undelivered s"
  by (simp add: undelivered_def)

lemma xreadgroup_effect:
  assumes "xreadgroup w s = (r, s')"
  shows "((r = None \<or> (r = Some None \<and> undelivered s = [])) \<and> s' = s\<lparr>sent := sent s + 1\<rparr>)
    \<or> (\<exists>e es. undelivered s = e # es \<and> r = Some (Some e)
        \<and> s' = s\<lparr>sent := sent s + 1, cursor := Some (entry_id e),
            pending := pending s @ [\<lparr>pe_id = entry_id e, pe_consumer = w, pe_delivered = q_now s\<rparr>]\<rparr>)"
  using send_cases [OF assms [unfolded xreadgroup_def]]
  by (cases "undelivered s") auto

lemma next_job_effect:
  assumes "next_job c w s = (r, s')" and ok: "queue_ok s"
  shows "((r = None \<or> (r = Some None \<and> undelivered s = [])) \<and> delivered s' = delivered s \<and> pending s' = pending s
        \<and> stream s' = stream s \<and> entry_supply s' = entry_supply s \<and> trim_by s' = trim_by s)
    \<or> (\<exists>e es. undelivered s = e # es \<and> r = decode_entry c (Some e) \<and> delivered s' = entry_id e
        \<and> pending s' = pending s @ [\<lparr>pe_id = entry_id e, pe_consumer = w, pe_delivered = q_now s\<rparr>]
        \<and> stream s' = stream s \<and> entry_supply s' = entry_supply s \<and> trim_by s' = trim_by s)"
  using seq_cases [OF assms(1) [unfolded next_job_def]]
proof (elim disjE exE conjE)
  fix s1 assume "xgroup_create s = (None, s1)" "r = None" "s' = s1"
  then show ?thesis using xgroup_create_effect [of s None s1] by simp
next
  fix u s1
  assume g: "xgroup_create s = (Some u, s1)"
    and rest: "seq (xreadgroup w) (\<lambda>e t. (decode_entry c e, t)) s1 = (r, s')"
  note e1 = xgroup_create_effect [OF g]
  have ok1: "queue_ok s1" using ok e1 by (simp add: queue_ok_simps)
  have un: "undelivered s1 = undelivered s"
    using undelivered_eq [OF ok] undelivered_eq [OF ok1] e1 by simp
  have same: "undelivered (s1\<lparr>sent := n\<rparr>) = undelivered s1" for n
    by (simp add: undelivered_def)
  from seq_cases [OF rest] show ?thesis
  proof (elim disjE exE conjE)
    fix s2 assume p: "xreadgroup w s1 = (None, s2)" "r = None" "s' = s2"
    with xreadgroup_effect [OF p(1)] e1 show ?thesis by (auto simp: delivered_def)
  next
    fix x s2 assume p: "xreadgroup w s1 = (Some x, s2)" "(decode_entry c x, s2) = (r, s')"
    with xreadgroup_effect [OF p(1)] e1 un show ?thesis
      by (auto simp: delivered_def decode_entry_def)
  qed
qed

lemma autoclaim_effect:
  assumes "autoclaim now idle w present ps = (r, ps')" and "pe_id ` set ps \<subseteq> set present"
  shows "map pe_id ps' = map pe_id ps
    \<and> (case r of
        None \<Rightarrow> ps' = ps \<and> (\<forall>p \<in> set ps. now < pe_delivered p + idle)
      | Some k \<Rightarrow> \<exists>us p vs. ps = us @ p # vs \<and> pe_id p = k \<and> pe_delivered p + idle \<le> now
          \<and> (\<forall>u \<in> set us. now < pe_delivered u + idle)
          \<and> ps' = us @ p\<lparr>pe_consumer := w, pe_delivered := now\<rparr> # vs)"
  using assms
proof (induction ps arbitrary: r ps')
  case (Cons p ps)
  show ?case
  proof (cases "pe_delivered p + idle \<le> now")
    case True
    with Cons.prems show ?thesis by (auto intro!: exI [of _ "[]"])
  next
    case False
    obtain r1 ps1 where rec: "autoclaim now idle w present ps = (r1, ps1)" by (meson surj_pair)
    with False Cons.prems have rr: "r = r1" "ps' = p # ps1" by auto
    have IH: "map pe_id ps1 = map pe_id ps
      \<and> (case r1 of
        None \<Rightarrow> ps1 = ps \<and> (\<forall>p \<in> set ps. now < pe_delivered p + idle)
      | Some k \<Rightarrow> \<exists>us p vs. ps = us @ p # vs \<and> pe_id p = k \<and> pe_delivered p + idle \<le> now
          \<and> (\<forall>u \<in> set us. now < pe_delivered u + idle)
          \<and> ps1 = us @ p\<lparr>pe_consumer := w, pe_delivered := now\<rparr> # vs)"
      by (rule Cons.IH [OF rec]) (use Cons.prems in simp)
    show ?thesis
    proof (cases r1)
      case None
      with IH rr False show ?thesis by auto
    next
      case (Some k)
      with IH obtain us q vs where u: "ps = us @ q # vs" "pe_id q = k" "pe_delivered q + idle \<le> now"
        "\<forall>u \<in> set us. now < pe_delivered u + idle" "ps1 = us @ q\<lparr>pe_consumer := w, pe_delivered := now\<rparr> # vs"
        by auto
      have "map pe_id ps' = map pe_id (p # ps)" using IH rr by simp
      moreover have "p # ps = (p # us) @ q # vs \<and> pe_id q = k \<and> pe_delivered q + idle \<le> now
          \<and> (\<forall>u \<in> set (p # us). now < pe_delivered u + idle)
          \<and> ps' = (p # us) @ q\<lparr>pe_consumer := w, pe_delivered := now\<rparr> # vs"
        using u rr False by auto
      ultimately show ?thesis
        unfolding rr(1) Some option.case by (intro conjI exI [of _ "p # us"] exI [of _ q] exI [of _ vs]) auto
    qed
  qed
qed simp

definition stale :: "nat \<Rightarrow> queue_state \<Rightarrow> pending_entry list" where
  "stale idle s = filter (\<lambda>p. pe_delivered p + idle \<le> q_now s) (pending s)"

definition entry_of :: "queue_state \<Rightarrow> nat \<Rightarrow> stream_entry option" where
  "entry_of s k = find (\<lambda>e. entry_id e = k) (stream s)"

lemma entry_of_Some: "entry_of s k = Some e \<Longrightarrow> e \<in> set (stream s) \<and> entry_id e = k"
  by (auto simp: entry_of_def find_Some_iff)

lemma pending_present:
  assumes "queue_ok s"
  shows "pe_id ` set (pending s) \<subseteq> set (map entry_id (stream s))"
  using assms unfolding queue_ok_simps by fastforce

lemma entry_of_pending:
  assumes "queue_ok s" "p \<in> set (pending s)"
  shows "\<exists>e. entry_of s (pe_id p) = Some e"
  using pending_present [OF assms(1)] assms(2) unfolding entry_of_def
  by (fastforce simp: find_None_iff not_None_eq [symmetric])

text \<open>One sweep of the pending list hands over the first stale entry and resets its clock.\<close>

lemma claim_effect:
  assumes run: "claim_stale c w idle s = (r, s')" and ok: "queue_ok s" and idle: "0 < idle"
  shows "map pe_id (pending s') = map pe_id (pending s) \<and> stream s' = stream s \<and> cursor s' = cursor s
      \<and> entry_supply s' = entry_supply s \<and> trim_by s' = trim_by s \<and> q_now s' = q_now s
    \<and> (if \<not> wire s (sent s) then r = None \<and> pending s' = pending s
       else if stale idle s = [] then r = Some None \<and> pending s' = pending s
       else \<exists>e. entry_of s (pe_id (hd (stale idle s))) = Some e \<and> r = decode_entry c (Some e)
         \<and> stale idle s' = tl (stale idle s))"
proof -
  obtain k ps where au: "autoclaim (q_now s) idle w (map entry_id (stream s)) (pending s) = (k, ps)"
    by (meson surj_pair)
  note eff = autoclaim_effect [OF au pending_present [OF ok]]
  have none: "pending s = []" if "cursor s = None"
    using ok that by (auto simp: queue_ok_simps delivered_def)
  show ?thesis
  proof (cases "wire s (sent s)")
    case False
    with run show ?thesis by (auto simp: claim_stale_def xautoclaim_def send_def seq_def Let_def)
  next
    case w: True
    show ?thesis
    proof (cases "stale idle s = []")
      case True
      then have "k = None" "ps = pending s"
        using eff by (auto simp: stale_def filter_empty_conv split: option.splits)
      with run w au True show ?thesis
        by (auto simp: claim_stale_def xautoclaim_def send_def seq_def Let_def decode_entry_def split: if_splits)
    next
      case False
      then obtain us p vs where p: "k = Some (pe_id p)" "pending s = us @ p # vs"
        "pe_delivered p + idle \<le> q_now s" "\<forall>u \<in> set us. q_now s < pe_delivered u + idle"
        "ps = us @ p\<lparr>pe_consumer := w, pe_delivered := q_now s\<rparr> # vs" "map pe_id ps = map pe_id (pending s)"
        using eff by (auto simp: stale_def filter_empty_conv split: option.splits)
      have us: "filter (\<lambda>p. pe_delivered p + idle \<le> q_now s) us = []"
        using p(4) by (auto simp: filter_empty_conv)
      have st: "stale idle s = p # filter (\<lambda>p. pe_delivered p + idle \<le> q_now s) vs"
        using p(2,3) us by (simp add: stale_def)
      obtain e where e: "entry_of s (pe_id p) = Some e"
        using entry_of_pending [OF ok, of p] p(2) by auto
      have cur: "cursor s \<noteq> None" using none p(2) by auto
      have res: "r = decode_entry c (Some e)" "s' = s\<lparr>sent := sent s + 1, pending := ps\<rparr>"
        using run w au cur e p(1)
        by (auto simp: claim_stale_def xautoclaim_def send_def seq_def Let_def entry_of_def)
      have "stale idle s' = filter (\<lambda>p. pe_delivered p + idle \<le> q_now s) vs"
        using res(2) p(5) us idle by (simp add: stale_def)
      with res w False st e p(6) show ?thesis by simp
    qed
  qed
qed

lemma ack_effect:
  "ack job s = (r, s') \<Longrightarrow>
    (r = None \<and> s' = s\<lparr>sent := sent s + 1\<rparr>)
    \<or> (r = Some () \<and> s' = s\<lparr>sent := sent s + 1, pending := filter (\<lambda>p. pe_id p \<noteq> qj_stream job) (pending s)\<rparr>)"
  unfolding ack_def by (drule send_cases) auto

lemma publish_progress_same:
  "publish_progress t u k st pr er s = (r, s') \<Longrightarrow> same_stream s s'"
proof -
  assume run: "publish_progress t u k st pr er s = (r, s')"
  show ?thesis
  proof (cases "pg_up s")
    case False
    with run show ?thesis by (simp add: publish_progress_def)
  next
    case True
    let ?s = "set_job t k st pr er s"
    have s1: "same_stream s ?s" by (simp add: set_job_def same_stream_def)
    from run True have "seq (publish_to (map_option show_nat u) (job_event k st pr er))
        (\<lambda>_. publish (tenant_channel t) (job_event k st pr er)) ?s = (r, s')"
      by (simp add: publish_progress_def Let_def)
    from seq_cases [OF this] show ?thesis
    proof (elim disjE exE conjE)
      fix s2 assume q: "publish_to (map_option show_nat u) (job_event k st pr er) ?s = (None, s2)" "r = None" "s' = s2"
      then show ?thesis using publish_to_same [OF q(1)] s1 same_stream_trans by simp
    next
      fix x s2 assume q: "publish_to (map_option show_nat u) (job_event k st pr er) ?s = (Some x, s2)"
        "publish (tenant_channel t) (job_event k st pr er) s2 = (r, s')"
      show ?thesis
        using publish_to_same [OF q(1)] publish_same [OF q(2)] s1 same_stream_trans by meson
    qed
  qed
qed

section \<open>A cluster of workers\<close>

text \<open>
  Producers, workers and crashes in any interleaving. \<open>H\<close> is the set of jobs some worker holds
  in memory, \<open>A\<close> the ids whose acknowledgement the server has accepted. A worker acknowledges
  only a job it was handed; a crash loses held jobs.
\<close>

definition handed :: "queued_job option option \<Rightarrow> queued_job set" where
  "handed r = (case r of Some (Some job) \<Rightarrow> {job} | _ \<Rightarrow> {})"

inductive cluster :: "codec \<Rightarrow> queue_state \<Rightarrow> queued_job set \<Rightarrow> nat set \<Rightarrow> bool" for c where
  boot: "stream s = [] \<Longrightarrow> cursor s = None \<Longrightarrow> pending s = [] \<Longrightarrow> entry_supply s = 1 \<Longrightarrow>
    trim_ok s \<Longrightarrow> cluster c s {} {}"
| produced: "cluster c s H A \<Longrightarrow> entry_supply s \<le> JOB_STREAM_MAXLEN \<Longrightarrow> enqueue c kind t payload s = (r, s') \<Longrightarrow> cluster c s' H A"
| fetched: "cluster c s H A \<Longrightarrow> next_job c w s = (r, s') \<Longrightarrow> cluster c s' (H \<union> handed r) A"
| reclaimed: "cluster c s H A \<Longrightarrow> 0 < idle \<Longrightarrow> claim_stale c w idle s = (r, s') \<Longrightarrow>
    cluster c s' (H \<union> handed r) A"
| acked: "cluster c s H A \<Longrightarrow> job \<in> H \<Longrightarrow> ack job s = (r, s') \<Longrightarrow>
    cluster c s' H (if r = None then A else insert (qj_stream job) A)"
| crashed: "cluster c s H A \<Longrightarrow> H' \<subseteq> H \<Longrightarrow> cluster c s H' A"
| progressed: "cluster c s H A \<Longrightarrow> publish_progress t u k st pr er s = (r, s') \<Longrightarrow> cluster c s' H A"
| waited: "cluster c s H A \<Longrightarrow> cluster c (s\<lparr>q_now := q_now s + d\<rparr>) H A"

definition cluster_inv :: "codec \<Rightarrow> queue_state \<Rightarrow> queued_job set \<Rightarrow> nat set \<Rightarrow> bool" where
  "cluster_inv c s H A = (queue_ok s
     \<and> pe_id ` set (pending s) \<union> A = {1..delivered s} \<and> pe_id ` set (pending s) \<inter> A = {}
     \<and> (\<forall>job \<in> H. qj_stream job \<in> {1..delivered s} \<and> (\<exists>e \<in> set (stream s). parse_job_entry c e = Some job))
     \<and> (\<forall>k \<in> A. \<exists>e \<in> set (stream s). entry_id e = k \<and> parse_job_entry c e \<noteq> None))"

lemma parse_stream_id: "parse_job_entry c e = Some job \<Longrightarrow> qj_stream job = entry_id e"
  by (auto simp: parse_job_entry_def split: option.splits)

lemma handed_decode: "handed (decode_entry c (Some e)) = (case parse_job_entry c e of None \<Rightarrow> {} | Some job \<Rightarrow> {job})"
  by (simp add: handed_def decode_entry_def split: option.split)

lemma handed_none [simp]: "handed None = {}" "handed (Some None) = {}"
  by (simp_all add: handed_def)

lemma cluster_inv_view:
  "cluster_inv c s H A \<Longrightarrow> same_stream s t \<Longrightarrow> cluster_inv c t H A"
  by (simp add: cluster_inv_def queue_ok_simps same_stream_def delivered_def)

lemma cluster_inv_enqueue:
  assumes inv: "cluster_inv c s H A" and few: "entry_supply s \<le> JOB_STREAM_MAXLEN"
    and run: "enqueue c kind t payload s = (r, s')"
  shows "cluster_inv c s' H A"
proof (cases r)
  case None
  with enqueue_effect [OF run] cluster_inv_view [OF inv] show ?thesis by auto
next
  case (Some k)
  have "length (stream s) = entry_supply s - 1" "1 \<le> entry_supply s" "trim_ok s"
    using inv by (metis cluster_inv_def length_map length_upt queue_ok_simps)
      (use inv in \<open>simp_all add: cluster_inv_def queue_ok_simps\<close>)
  then have tr: "trim_by s (Suc (length (stream s))) = 0"
    using few by (simp add: trim_ok_def)
  from enqueue_effect [OF run] Some tr have e:
    "stream s' = stream s @ [\<lparr>entry_id = entry_supply s, entry_map = entry_fields c (job_supply s) t kind payload\<rparr>]"
    "entry_supply s' = entry_supply s + 1" "cursor s' = cursor s" "pending s' = pending s" "trim_by s' = trim_by s"
    by (auto simp: Let_def)
  with inv show ?thesis
    by (fastforce simp: cluster_inv_def queue_ok_simps delivered_def trim_ok_def)
qed

lemma cluster_inv_next:
  assumes inv: "cluster_inv c s H A" and run: "next_job c w s = (r, s')"
  shows "cluster_inv c s' (H \<union> handed r) A"
proof -
  have ok: "queue_ok s" using inv by (simp add: cluster_inv_def)
  from next_job_effect [OF run ok] show ?thesis
  proof (elim disjE exE conjE)
    fix e es
    assume e: "undelivered s = e # es" and r: "r = decode_entry c (Some e)" and d: "delivered s' = entry_id e"
      and p: "pending s' = pending s @ [\<lparr>pe_id = entry_id e, pe_consumer = w, pe_delivered = q_now s\<rparr>]"
      and st: "stream s' = stream s" "entry_supply s' = entry_supply s" "trim_by s' = trim_by s"
    note h = head_undelivered [OF ok e]
    have ids: "pe_id ` set (pending s') = insert (Suc (delivered s)) (pe_id ` set (pending s))"
      using p h by simp
    have "queue_ok s'"
      using ok p st d h unfolding queue_ok_simps by fastforce
    moreover have "pe_id ` set (pending s') \<union> A = {1..delivered s'}" "pe_id ` set (pending s') \<inter> A = {}"
    proof -
      have un: "pe_id ` set (pending s) \<union> A = {1..delivered s}" and dis: "pe_id ` set (pending s) \<inter> A = {}"
        using inv by (simp_all add: cluster_inv_def)
      have "{1..delivered s'} = insert (Suc (delivered s)) {1..delivered s}"
        using d h by auto
      with un show "pe_id ` set (pending s') \<union> A = {1..delivered s'}"
        unfolding ids by simp
      have "Suc (delivered s) \<notin> {1..delivered s}" by simp
      then have "Suc (delivered s) \<notin> A" unfolding un [symmetric] by blast
      with dis show "pe_id ` set (pending s') \<inter> A = {}"
        unfolding ids by simp
    qed
    moreover have "\<forall>job \<in> H \<union> handed r. qj_stream job \<in> {1..delivered s'} \<and>
        (\<exists>e \<in> set (stream s'). parse_job_entry c e = Some job)"
      using inv h d st r unfolding cluster_inv_def
      by (auto simp: handed_decode parse_stream_id split: option.splits)
    ultimately show ?thesis
      using inv st by (simp add: cluster_inv_def)
  qed (use inv in \<open>simp_all add: cluster_inv_def queue_ok_simps\<close>)
qed

lemma cluster_inv_claim:
  assumes inv: "cluster_inv c s H A" and run: "claim_stale c w idle s = (r, s')" and idle: "0 < idle"
  shows "cluster_inv c s' (H \<union> handed r) A"
proof -
  have ok: "queue_ok s" using inv by (simp add: cluster_inv_def)
  note eff = claim_effect [OF run ok idle]
  then have ids: "map pe_id (pending s') = map pe_id (pending s)" by simp
  then have ids': "pe_id ` set (pending s') = pe_id ` set (pending s)"
    by (metis list.set_map)
  have base: "cluster_inv c s' H A"
    using inv eff ids ids' by (simp add: cluster_inv_def queue_ok_simps delivered_def)
  have "qj_stream job \<in> {1..delivered s'} \<and> (\<exists>e \<in> set (stream s'). parse_job_entry c e = Some job)"
    if "job \<in> handed r" for job
  proof -
    have "wire s (sent s)" "stale idle s \<noteq> []" using that eff by (auto split: if_splits)
    with eff obtain e where e: "entry_of s (pe_id (hd (stale idle s))) = Some e" "r = decode_entry c (Some e)"
      by auto
    then have job: "parse_job_entry c e = Some job"
      using that by (auto simp: handed_decode split: option.splits)
    have "hd (stale idle s) \<in> set (pending s)"
      using \<open>stale idle s \<noteq> []\<close> hd_in_set unfolding stale_def by fastforce
    then have "entry_id e \<in> {1..delivered s}"
      using entry_of_Some [OF e(1)] ok unfolding queue_ok_simps by auto
    with job entry_of_Some [OF e(1)] eff parse_stream_id [OF job] show ?thesis
      by (auto simp: delivered_def)
  qed
  with base show ?thesis by (auto simp: cluster_inv_def)
qed

lemma cluster_inv_ack:
  assumes inv: "cluster_inv c s H A" and job: "job \<in> H" and run: "ack job s = (r, s')"
  shows "cluster_inv c s' H (if r = None then A else insert (qj_stream job) A)"
  using ack_effect [OF run]
proof (elim disjE conjE)
  assume "r = None" "s' = s\<lparr>sent := sent s + 1\<rparr>"
  with inv show ?thesis by (simp add: cluster_inv_def queue_ok_simps delivered_def)
next
  assume r: "r = Some ()"
    and s': "s' = s\<lparr>sent := sent s + 1, pending := filter (\<lambda>p. pe_id p \<noteq> qj_stream job) (pending s)\<rparr>"
  have j: "qj_stream job \<in> {1..delivered s}" "\<exists>e \<in> set (stream s). parse_job_entry c e = Some job"
    using inv job by (auto simp: cluster_inv_def)
  have ids: "pe_id ` set (pending s') = pe_id ` set (pending s) - {qj_stream job}"
    by (auto simp: s')
  have "queue_ok s'"
    using inv by (auto simp: cluster_inv_def queue_ok_simps s' delivered_def distinct_map_filter)
  moreover have "pe_id ` set (pending s') \<union> insert (qj_stream job) A = {1..delivered s'}"
    "pe_id ` set (pending s') \<inter> insert (qj_stream job) A = {}"
    using inv j(1) unfolding ids by (auto simp: cluster_inv_def s' delivered_def)
  moreover have "\<exists>e \<in> set (stream s'). entry_id e = qj_stream job \<and> parse_job_entry c e \<noteq> None"
    using j(2) parse_stream_id by (fastforce simp: s')
  ultimately show ?thesis
    using inv r by (simp add: cluster_inv_def s' delivered_def)
qed

lemma cluster_invariant: "cluster c s H A \<Longrightarrow> cluster_inv c s H A"
proof (induction rule: cluster.induct)
  case (boot s)
  then show ?case by (simp add: cluster_inv_def queue_ok_simps delivered_def)
next
  case (progressed s H A t u k st pr er r s')
  then show ?case using publish_progress_same cluster_inv_view by blast
next
  case (waited s H A d)
  then show ?case by (simp add: cluster_inv_def queue_ok_simps delivered_def)
next
  case (crashed s H A H')
  then show ?case by (auto simp: cluster_inv_def)
qed (simp_all add: cluster_inv_enqueue cluster_inv_next cluster_inv_claim cluster_inv_ack)


definition idle_queue :: queue_state where
  "idle_queue = \<lparr>jobs = [], stream = [], cursor = None, pending = [], events = [], job_supply = 1,
     entry_supply = 1, q_now = 0, pg_up = True, wire = (\<lambda>_. True), sent = 0, trim_by = (\<lambda>_. 0)\<rparr>"

text \<open>A codec that is right about the empty payload, the only one the witnesses use.\<close>

definition plain_codec :: codec where
  "plain_codec = \<lparr>to_text = (\<lambda>_. ''{}''), from_text = (\<lambda>s. if s = ''{}'' then Some (JObj []) else None)\<rparr>"

lemma idle_enqueue:
  "enqueue plain_codec ''correlate'' 5 (JObj []) idle_queue =
    (Some 1, idle_queue\<lparr>jobs := [queued_row 1 ''correlate'' 5 (JObj []) 0], job_supply := 2, sent := 2,
       events := [(tenant_channel 5, job_event 1 ''queued'' 0 None)], entry_supply := 2,
       stream := [\<lparr>entry_id = 1, entry_map = entry_fields plain_codec 1 5 ''correlate'' (JObj [])\<rparr>]\<rparr>)"
  by (simp add: enqueue_def idle_queue_def insert_job_def seq_def publish_to_def publish_def send_def
      xadd_def Let_def queued_row_def get_key_def)


section \<open>First in, first out\<close>

text \<open>
  C22. The stream is a queue of jobs. A successful enqueue puts one job behind the waiting
  ones and leaves them alone; a fetch takes the first waiting entry, and the entry of a job
  decodes to that job: the row's id, the tenant, the kind and the payload that were
  enqueued. A fetch that fails before the read takes nothing.
\<close>

theorem queue_refines_fifo:
  assumes ok: "queue_ok s" and few: "entry_supply s \<le> JOB_STREAM_MAXLEN" and codec: "from_text c (to_text c payload) = Some payload"
    and enq: "enqueue c kind tenant payload s = (Some key, s1)"
    and fetch: "next_job c w s1 = (r, s2)"
  shows "\<exists>e. undelivered s1 = undelivered s @ [e]
      \<and> parse_job_entry c e = Some \<lparr>qj_id = key, qj_stream = entry_id e, qj_tenant = tenant, qj_kind = kind,
            qj_payload = payload\<rparr>
      \<and> (r = None \<and> undelivered s2 = undelivered s1
         \<or> r = decode_entry c (Some (hd (undelivered s @ [e]))) \<and> undelivered s2 = tl (undelivered s @ [e]))"
proof -
  let ?e = "\<lparr>entry_id = entry_supply s, entry_map = entry_fields c (job_supply s) tenant kind payload\<rparr>"
  have len: "length (stream s) = entry_supply s - 1"
    using ok by (metis length_map length_upt queue_ok_simps)
  then have tr: "trim_by s (Suc (length (stream s))) = 0"
    using ok few by (simp add: queue_ok_simps)
  from enqueue_effect [OF enq] tr have e: "key = job_supply s" "stream s1 = stream s @ [?e]"
    "entry_supply s1 = entry_supply s + 1" "cursor s1 = cursor s" "pending s1 = pending s" "trim_by s1 = trim_by s"
    by (auto simp: Let_def)
  have d: "delivered s1 = delivered s" using e by (simp add: delivered_def)
  have ok1: "queue_ok s1" using ok e d by (simp add: queue_ok_simps)
  from len have "delivered s \<le> length (stream s)" using ok unfolding queue_ok_simps by linarith
  then have un: "undelivered s1 = undelivered s @ [?e]"
    using undelivered_eq [OF ok] undelivered_eq [OF ok1] e d by simp
  have parse: "parse_job_entry c ?e = Some \<lparr>qj_id = key, qj_stream = entry_id ?e, qj_tenant = tenant,
      qj_kind = kind, qj_payload = payload\<rparr>"
    using e codec by (simp add: parse_job_entry_def entry_fields_def parse_uuid_def)
  have "r = None \<and> undelivered s2 = undelivered s1
      \<or> r = decode_entry c (Some (hd (undelivered s1))) \<and> undelivered s2 = tl (undelivered s1)"
    using next_job_effect [OF fetch ok1]
  proof (elim disjE exE conjE)
    fix e' es
    assume e': "undelivered s1 = e' # es" and r: "r = decode_entry c (Some e')" and d2: "delivered s2 = entry_id e'"
      and st: "pending s2 = pending s1 @ [\<lparr>pe_id = entry_id e', pe_consumer = w, pe_delivered = q_now s1\<rparr>]"
        "stream s2 = stream s1" "entry_supply s2 = entry_supply s1" "trim_by s2 = trim_by s1"
    note h = head_undelivered [OF ok1 e']
    have "queue_ok s2" using ok1 st d2 h unfolding queue_ok_simps by fastforce
    then have "undelivered s2 = drop (Suc (delivered s1)) (stream s1)"
      using undelivered_eq st d2 h(1) by simp
    also have "\<dots> = tl (undelivered s1)"
      using undelivered_eq [OF ok1] by (simp add: drop_Suc tl_drop)
    finally show ?thesis using r e' by simp
  next
    assume same: "r = None" "delivered s2 = delivered s1" "pending s2 = pending s1" "stream s2 = stream s1"
      "entry_supply s2 = entry_supply s1" "trim_by s2 = trim_by s1"
    then have "queue_ok s2" using ok1 by (simp add: queue_ok_simps)
    then show ?thesis using undelivered_eq [OF ok1] undelivered_eq same by simp
  qed (use un in simp_all)
  with un parse show ?thesis by metis
qed

theorem queue_refines_fifo_witness:
  "let (k, s1) = enqueue plain_codec ''correlate'' 5 (JObj []) idle_queue;
       (r, s2) = next_job plain_codec ''w1'' s1
   in undelivered s1 \<noteq> [] \<and> (r = None \<or> undelivered s2 = [])"
proof -
  let ?s1 = "snd (enqueue plain_codec ''correlate'' 5 (JObj []) idle_queue)"
  obtain r s2 where f: "next_job plain_codec ''w1'' ?s1 = (r, s2)" by (meson surj_pair)
  have "enqueue plain_codec ''correlate'' 5 (JObj []) idle_queue = (Some 1, ?s1)"
    by (simp add: idle_enqueue)
  moreover have "queue_ok idle_queue" "undelivered idle_queue = []" "entry_supply idle_queue \<le> JOB_STREAM_MAXLEN"
    by (simp_all add: queue_ok_simps idle_queue_def delivered_def undelivered_def JOB_STREAM_MAXLEN_def)
  moreover have "from_text plain_codec (to_text plain_codec (JObj [])) = Some (JObj [])"
    by (simp add: plain_codec_def)
  ultimately have "\<exists>e. undelivered ?s1 = [e] \<and> (r = None \<or> undelivered s2 = [])"
    using queue_refines_fifo [OF _ _ _ _ f, of idle_queue "JObj []" "''correlate''" 5 1] by fastforce
  then show ?thesis using f by (auto simp: case_prod_beta)
qed



text \<open>
  The row is committed before the stream is told. When a Redis command of an enqueue
  fails, the caller gets an error but the job row stays behind, marked queued, and no stream
  entry names it: no worker will ever see it.
\<close>

theorem failed_enqueue_orphans_row:
  assumes "pg_up s" and "enqueue c kind tenant payload s = (None, s')"
  shows "jobs s' = jobs s @ [queued_row (job_supply s) kind tenant payload (q_now s)]
    \<and> stream s' = stream s \<and> pending s' = pending s"
  using enqueue_effect [OF assms(2)] assms(1) by (auto simp: same_stream_def)

theorem failed_enqueue_orphans_row_witness:
  "let s' = snd (enqueue plain_codec ''correlate'' 5 (JObj []) (idle_queue\<lparr>wire := (\<lambda>_. False)\<rparr>))
   in map job_status (jobs s') = [''queued''] \<and> stream s' = []"
proof -
  let ?s = "idle_queue\<lparr>wire := (\<lambda>_. False)\<rparr>"
  obtain s' where r: "enqueue plain_codec ''correlate'' 5 (JObj []) ?s = (None, s')"
    by (simp add: enqueue_def idle_queue_def insert_job_def seq_def publish_to_def publish_def send_def
        Let_def get_key_def)
  have "pg_up ?s" by (simp add: idle_queue_def)
  from failed_enqueue_orphans_row [OF this r] r show ?thesis
    by (simp add: idle_queue_def queued_row_def)
qed

end
