(* ===== verification/Llm.thy ===== *)
theory Llm
  imports SettingsStore Study
begin

text \<open>
  \<open>insight-core/src/llm.rs\<close>: the provider registry, the encrypted key store, key
  resolution, the routing chain, the completion with fallback, metering and the budget.
  AES-GCM, base64, the random nonce and the providers' HTTP endpoints are the fields of
  \<open>gateway\<close>; the state adds the two tables to the settings store, whose \<open>reachable\<close> flag is
  that of the one database. A \<open>None\<close> result is the source's \<open>Err\<close>. Byte strings are strings of
  characters, a parsed key-encryption key is its list of byte values.
\<close>

section \<open>Providers and tasks\<close>

datatype provider_id = Gemini | Anthropic | OpenAi | Moonshot | DeepSeek | MiniMax | OpenAiCompatible

datatype dialect = DGemini | DAnthropic | DOpenAiCompatible

datatype llm_task = Chat | Extraction | Synthesis | Nli | Rerank | Embedding

fun provider_str :: "provider_id \<Rightarrow> string" where
  "provider_str Gemini = ''gemini''"
| "provider_str Anthropic = ''anthropic''"
| "provider_str OpenAi = ''openai''"
| "provider_str Moonshot = ''moonshot''"
| "provider_str DeepSeek = ''deepseek''"
| "provider_str MiniMax = ''minimax''"
| "provider_str OpenAiCompatible = ''openai_compatible''"

definition provider_from_str :: "string \<Rightarrow> provider_id option" where
  "provider_from_str s =
     (let p = ascii_lowercase (trim s)
      in if p \<in> {''gemini'', ''google''} then Some Gemini
         else if p \<in> {''anthropic'', ''claude''} then Some Anthropic
         else if p = ''openai'' then Some OpenAi
         else if p \<in> {''moonshot'', ''kimi''} then Some Moonshot
         else if p = ''deepseek'' then Some DeepSeek
         else if p = ''minimax'' then Some MiniMax
         else if p \<in> {''openai_compatible'', ''openai-compatible'', ''compat''} then Some OpenAiCompatible
         else None)"

definition all_providers :: "provider_id list" where
  "all_providers = [Gemini, Anthropic, OpenAi, Moonshot, DeepSeek, MiniMax, OpenAiCompatible]"

fun dialect_of :: "provider_id \<Rightarrow> dialect" where
  "dialect_of Gemini = DGemini"
| "dialect_of Anthropic = DAnthropic"
| "dialect_of _ = DOpenAiCompatible"

fun env_key :: "provider_id \<Rightarrow> string" where
  "env_key Gemini = ''GEMINI_API_KEY''"
| "env_key Anthropic = ''ANTHROPIC_API_KEY''"
| "env_key OpenAi = ''OPENAI_API_KEY''"
| "env_key Moonshot = ''MOONSHOT_API_KEY''"
| "env_key DeepSeek = ''DEEPSEEK_API_KEY''"
| "env_key MiniMax = ''MINIMAX_API_KEY''"
| "env_key OpenAiCompatible = ''OPENAI_COMPAT_API_KEY''"

fun default_base_url :: "provider_id \<Rightarrow> string" where
  "default_base_url OpenAi = ''https://api.openai.com/v1''"
| "default_base_url Moonshot = ''https://api.moonshot.cn/v1''"
| "default_base_url DeepSeek = ''https://api.deepseek.com/v1''"
| "default_base_url MiniMax = ''https://api.minimax.chat/v1''"
| "default_base_url _ = ''''"

fun task_key :: "llm_task \<Rightarrow> string" where
  "task_key Chat = ''chat''"
| "task_key Extraction = ''extraction''"
| "task_key Synthesis = ''synthesis''"
| "task_key Nli = ''nli''"
| "task_key Rerank = ''rerank''"
| "task_key Embedding = ''embedding''"

fun default_model :: "provider_id \<Rightarrow> string" where
  "default_model Gemini = ''gemini-2.5-flash''"
| "default_model Anthropic = ''claude-sonnet-5''"
| "default_model OpenAi = ''gpt-4o''"
| "default_model Moonshot = ''kimi-k2-0711-preview''"
| "default_model DeepSeek = ''deepseek-chat''"
| "default_model MiniMax = ''MiniMax-Text-01''"
| "default_model OpenAiCompatible = ''gpt-4o''"

definition KNOWN_PROVIDERS :: "string list" where
  "KNOWN_PROVIDERS = [''gemini'', ''anthropic'', ''openai'', ''moonshot'', ''deepseek'', ''minimax'',
     ''openai-compatible'', ''cohere'', ''jina'', ''llamaparse'']"

definition known_provider :: "string \<Rightarrow> bool" where
  "known_provider p = (p \<in> set KNOWN_PROVIDERS)"

definition env_var_for :: "string \<Rightarrow> string" where
  "env_var_for p =
     (case map_of [(''gemini'', ''GEMINI_API_KEY''), (''anthropic'', ''ANTHROPIC_API_KEY''),
        (''openai'', ''OPENAI_API_KEY''), (''moonshot'', ''MOONSHOT_API_KEY''),
        (''deepseek'', ''DEEPSEEK_API_KEY''), (''minimax'', ''MINIMAX_API_KEY''),
        (''openai-compatible'', ''OPENAI_COMPAT_API_KEY''), (''cohere'', ''COHERE_API_KEY''),
        (''jina'', ''JINA_API_KEY''), (''llamaparse'', ''LLAMAPARSE_API_KEY'')] p of
      Some v \<Rightarrow> v | None \<Rightarrow> '''')"

definition non_blank :: "string option \<Rightarrow> string option" where
  "non_blank v = (case v of None \<Rightarrow> None | Some s \<Rightarrow> if trim s = [] then None else Some s)"

definition env_configured :: "environment \<Rightarrow> string \<Rightarrow> bool" where
  "env_configured env p = (env_var_for p \<noteq> [] \<and> non_blank (var env (env_var_for p)) \<noteq> None)"

definition provider_kind :: "string \<Rightarrow> string" where
  "provider_kind p = (if p \<in> {''cohere'', ''jina'', ''llamaparse''} then ''vendor'' else ''chat'')"

definition provider_supports_embeddings :: "string \<Rightarrow> bool" where
  "provider_supports_embeddings p = (p = ''gemini'' \<or> p = ''openai'')"

section \<open>State and parameters\<close>

record provider_key_row =
  pk_tenant :: uuid
  pk_provider :: string
  pk_cipher :: string
  pk_user :: "uuid option"
  pk_scope :: string
  pk_hint :: string

record usage_row =
  usage_tenant :: uuid
  metric :: string
  quantity :: int
  usage_meta :: json
  usage_at :: int

record llm_request =
  req_url :: string
  req_auth :: string
  req_body :: json

record gateway =
  genv :: environment
  aes_encrypt :: "nat list \<Rightarrow> string \<Rightarrow> string \<Rightarrow> string option"
  aes_decrypt :: "nat list \<Rightarrow> string \<Rightarrow> string \<Rightarrow> string option"
  b64_bytes :: "string \<Rightarrow> nat list option"
  nonce :: "nat \<Rightarrow> string"
  endpoint :: "nat \<Rightarrow> llm_request \<Rightarrow> (nat \<times> json option) option"

record llm_state =
  settings :: settings_store
  provider_keys :: "provider_key_row list"
  usage_records :: "usage_row list"
  randoms :: nat
  calls :: nat
  llm_now :: int
  month_start :: int

text \<open>Documented behaviour of AES-256-GCM with a 12-byte nonce: decryption undoes encryption.\<close>

definition aes_ok :: "gateway \<Rightarrow> bool" where
  "aes_ok g = ((\<forall>n. length (nonce g n) = 12)
     \<and> (\<forall>k n pt. \<exists>ct. aes_encrypt g k n pt = Some ct \<and> ct \<noteq> [] \<and> aes_decrypt g k n ct = Some pt))"

section \<open>The key-encryption key\<close>

definition hex_digit :: "char \<Rightarrow> nat option" where
  "hex_digit c = (let n = code_of c in
     if 48 \<le> n \<and> n \<le> 57 then Some (n - 48)
     else if 97 \<le> n \<and> n \<le> 102 then Some (n - 87)
     else if 65 \<le> n \<and> n \<le> 70 then Some (n - 55) else None)"

text \<open>\<open>u8::from_str_radix\<close> on two characters accepts a leading plus sign.\<close>

definition hex_byte :: "char \<Rightarrow> char \<Rightarrow> nat option" where
  "hex_byte a b = (if a = CHR ''+'' then hex_digit b
     else case (hex_digit a, hex_digit b) of (Some x, Some y) \<Rightarrow> Some (16 * x + y) | _ \<Rightarrow> None)"

fun hex_bytes :: "string \<Rightarrow> nat list option" where
  "hex_bytes (a # b # s) = (case (hex_byte a b, hex_bytes s) of (Some x, Some xs) \<Rightarrow> Some (x # xs) | _ \<Rightarrow> None)"
| "hex_bytes [] = Some []"
| "hex_bytes _ = None"

definition kek :: "gateway \<Rightarrow> nat list option" where
  "kek g = (case var (genv g) ''PROVIDER_KEY_KEK'' of None \<Rightarrow> None
     | Some raw0 \<Rightarrow> let raw = trim raw0
         in case (if length raw = 64 then hex_bytes raw else None) of
              Some bytes \<Rightarrow> Some bytes
            | None \<Rightarrow> (case b64_bytes g raw of
                Some bytes \<Rightarrow> if length bytes = 32 then Some bytes else None
              | None \<Rightarrow> None))"

definition encryption_available :: "gateway \<Rightarrow> bool" where
  "encryption_available g = (kek g \<noteq> None)"

definition encrypt_secret :: "gateway \<Rightarrow> string \<Rightarrow> llm_state \<Rightarrow> string option \<times> llm_state" where
  "encrypt_secret g plaintext s = (case kek g of None \<Rightarrow> (None, s)
     | Some k \<Rightarrow> let n = nonce g (randoms s)
         in (map_option (\<lambda>ct. n @ ct) (aes_encrypt g k n plaintext), s\<lparr>randoms := randoms s + 1\<rparr>))"

definition decrypt_secret :: "gateway \<Rightarrow> string \<Rightarrow> string option" where
  "decrypt_secret g blob =
     (if length blob \<le> 12 then None
      else case kek g of None \<Rightarrow> None | Some k \<Rightarrow> aes_decrypt g k (take 12 blob) (drop 12 blob))"

section \<open>The key store\<close>

definition key_slot :: "string \<Rightarrow> uuid \<Rightarrow> string \<times> uuid option" where
  "key_slot sc user = (if sc = ''user'' then (''user'', Some user) else (''org'', None))"

definition in_slot :: "uuid \<Rightarrow> string \<Rightarrow> string \<times> uuid option \<Rightarrow> provider_key_row \<Rightarrow> bool" where
  "in_slot tenant provider slot r =
     (pk_tenant r = tenant \<and> pk_provider r = provider \<and> pk_scope r = fst slot
      \<and> (fst slot = ''org'' \<or> fst slot = ''user'' \<and> pk_user r = snd slot))"

definition last_chars :: "nat \<Rightarrow> string \<Rightarrow> string" where
  "last_chars n s = rev (take n (rev s))"

definition store_provider_key ::
  "gateway \<Rightarrow> uuid \<Rightarrow> uuid \<Rightarrow> string \<Rightarrow> string \<Rightarrow> string \<Rightarrow> llm_state \<Rightarrow> unit option \<times> llm_state" where
  "store_provider_key g tenant user provider sc plaintext s =
     (case encrypt_secret g plaintext s of (None, s1) \<Rightarrow> (None, s1)
      | (Some ct, s1) \<Rightarrow>
          if \<not> reachable (settings s1) then (None, s1)
          else let slot = key_slot sc user;
                   row = \<lparr>pk_tenant = tenant, pk_provider = provider, pk_cipher = ct,
                          pk_user = snd slot, pk_scope = fst slot, pk_hint = last_chars 4 plaintext\<rparr>
               in (Some (), s1\<lparr>provider_keys :=
                     filter (\<lambda>r. \<not> in_slot tenant provider slot r) (provider_keys s1) @ [row]\<rparr>))"

definition delete_provider_key ::
  "uuid \<Rightarrow> uuid \<Rightarrow> string \<Rightarrow> string \<Rightarrow> llm_state \<Rightarrow> unit option \<times> llm_state" where
  "delete_provider_key tenant user provider sc s =
     (if \<not> reachable (settings s) then (None, s)
      else (Some (), s\<lparr>provider_keys :=
             filter (\<lambda>r. \<not> in_slot tenant provider (key_slot sc user) r) (provider_keys s)\<rparr>))"

text \<open>The row a lookup picks: the caller's own key before the organisation's.\<close>

definition pick_key :: "uuid \<Rightarrow> uuid option \<Rightarrow> string \<Rightarrow> provider_key_row list \<Rightarrow> provider_key_row option" where
  "pick_key tenant user provider rows =
     (let mine = filter (\<lambda>r. pk_tenant r = tenant \<and> pk_provider r = provider) rows
      in case find (\<lambda>r. pk_scope r = ''user'' \<and> user \<noteq> None \<and> pk_user r = user) mine of
           Some r \<Rightarrow> Some r | None \<Rightarrow> find (\<lambda>r. pk_scope r = ''org'') mine)"

definition resolve_api_key ::
  "gateway \<Rightarrow> uuid \<Rightarrow> uuid option \<Rightarrow> provider_id \<Rightarrow> llm_state \<Rightarrow> string option option" where
  "resolve_api_key g tenant user p s =
     (if \<not> reachable (settings s) then None
      else case pick_key tenant user (provider_str p) (provider_keys s) of
          Some r \<Rightarrow> map_option Some (decrypt_secret g (pk_cipher r))
        | None \<Rightarrow> Some (non_blank (var (genv g) (env_key p))))"

section \<open>Prices\<close>

definition DEFAULT_PRICES :: "(string \<times> f64 \<times> f64) list" where
  "DEFAULT_PRICES =
    [(''gemini-2.5-pro'', 1.25, 10), (''gemini-2.5-flash'', 0.15, 0.6), (''gemini-1.5-pro'', 1.25, 5),
     (''gemini-1.5-flash'', 0.075, 0.3), (''gemini'', 0.15, 0.6), (''claude-sonnet'', 3, 15),
     (''claude-3-5-haiku'', 0.8, 4), (''claude-3-haiku'', 0.25, 1.25), (''claude'', 3, 15),
     (''gpt-4o-mini'', 0.15, 0.6), (''gpt-4o'', 2.5, 10), (''gpt-4'', 10, 30), (''deepseek'', 0.27, 1.1),
     (''kimi'', 0.6, 2.5), (''moonshot'', 0.6, 2.5), (''minimax'', 0.2, 1.1)]"

fun override_price :: "string \<Rightarrow> json list \<Rightarrow> (f64 \<times> f64) option" where
  "override_price m [] = None"
| "override_price m (entry # es) =
     (case Option.bind (get_key entry ''match'') as_str of
        Some pat \<Rightarrow>
          if contains_str m (ascii_lowercase pat)
          then Some (case Option.bind (get_key entry ''in'') as_f64 of Some i \<Rightarrow> i | None \<Rightarrow> 1,
                     case Option.bind (get_key entry ''out'') as_f64 of Some out \<Rightarrow> out | None \<Rightarrow> 3)
          else override_price m es
      | None \<Rightarrow> override_price m es)"

definition price_for :: "string \<Rightarrow> json \<Rightarrow> f64 \<times> f64" where
  "price_for model pricing_override =
     (let m = ascii_lowercase model;
          ov = (case Option.bind (get_key pricing_override ''models'') as_array of
                  Some es \<Rightarrow> override_price m es | None \<Rightarrow> None)
      in case ov of Some p \<Rightarrow> p
         | None \<Rightarrow> (case find (\<lambda>(pat, _). contains_str m pat) DEFAULT_PRICES of
             Some (_, p) \<Rightarrow> p | None \<Rightarrow> (1, 3)))"

section \<open>One completion\<close>

record completion =
  reply_text :: string
  in_tokens :: int
  out_tokens :: int
  estimated :: bool

record resolved_provider =
  rp_id :: provider_id
  rp_model :: string
  rp_api_key :: string
  rp_base_url :: string

definition est_tokens :: "string \<Rightarrow> int" where
  "est_tokens s = max (int (length s) div 4) 1"

definition index_nth :: "json \<Rightarrow> nat \<Rightarrow> json" where
  "index_nth v i = (case v of JArr vs \<Rightarrow> if i < length vs then vs ! i else JNull | _ \<Rightarrow> JNull)"

definition json_or_status :: "(nat \<times> json option) option \<Rightarrow> json option" where
  "json_or_status reply = (case reply of None \<Rightarrow> None
     | Some (st, b) \<Rightarrow> if 200 \<le> st \<and> st < 300 then b else None)"

text \<open>The token counts of the reply, or an estimate when either is missing.\<close>

definition count_tokens :: "string \<Rightarrow> string \<Rightarrow> string \<Rightarrow> json \<Rightarrow> json \<Rightarrow> completion" where
  "count_tokens system user txt in_field out_field =
     (case (as_i64 in_field, as_i64 out_field) of
        (Some i, Some out) \<Rightarrow> \<lparr>reply_text = txt, in_tokens = i, out_tokens = out, estimated = False\<rparr>
      | _ \<Rightarrow> \<lparr>reply_text = txt, in_tokens = est_tokens (system @ user), out_tokens = est_tokens txt,
              estimated = True\<rparr>)"

definition message :: "string \<Rightarrow> string \<Rightarrow> json" where
  "message rl txt = JObj [(''role'', JStr rl), (''content'', JStr txt)]"

definition complete_anthropic ::
  "(llm_request \<Rightarrow> (nat \<times> json option) option) \<Rightarrow> resolved_provider \<Rightarrow> string \<Rightarrow> string \<Rightarrow> completion option" where
  "complete_anthropic post p system user =
     (let req_b = JObj [(''model'', JStr (rp_model p)), (''max_tokens'', JInt 1024),
            (''system'', JStr system), (''messages'', JArr [message ''user'' user])];
          req = \<lparr>req_url = ''https://api.anthropic.com/v1/messages'',
                 req_auth = ''x-api-key: '' @ rp_api_key p, req_body = req_b\<rparr>
      in case json_or_status (post req) of None \<Rightarrow> None
         | Some v \<Rightarrow> (case as_str (index_key (index_nth (index_key v ''content'') 0) ''text'') of
             None \<Rightarrow> None
           | Some txt \<Rightarrow> Some (count_tokens system user txt
               (index_key (index_key v ''usage'') ''input_tokens'')
               (index_key (index_key v ''usage'') ''output_tokens''))))"

definition gemini_parts :: "string \<Rightarrow> json" where
  "gemini_parts txt = JArr [JObj [(''text'', JStr txt)]]"

definition complete_gemini ::
  "(llm_request \<Rightarrow> (nat \<times> json option) option) \<Rightarrow> resolved_provider \<Rightarrow> string \<Rightarrow> string \<Rightarrow> completion option" where
  "complete_gemini post p system user =
     (let req_b = JObj [(''system_instruction'', JObj [(''parts'', gemini_parts system)]),
            (''contents'', JArr [JObj [(''role'', JStr ''user''), (''parts'', gemini_parts user)]]),
            (''generationConfig'', JObj [(''maxOutputTokens'', JInt 1024)])];
          req = \<lparr>req_url = ''https://generativelanguage.googleapis.com/v1beta/models/'' @ rp_model p
                   @ '':generateContent?key='' @ rp_api_key p,
                 req_auth = [], req_body = req_b\<rparr>
      in case json_or_status (post req) of None \<Rightarrow> None
         | Some v \<Rightarrow> (case as_str (index_key (index_nth (index_key (index_key (index_nth
                 (index_key v ''candidates'') 0) ''content'') ''parts'') 0) ''text'') of
             None \<Rightarrow> None
           | Some txt \<Rightarrow> Some (count_tokens system user txt
               (index_key (index_key v ''usageMetadata'') ''promptTokenCount'')
               (index_key (index_key v ''usageMetadata'') ''candidatesTokenCount''))))"

definition complete_openai ::
  "(llm_request \<Rightarrow> (nat \<times> json option) option) \<Rightarrow> resolved_provider \<Rightarrow> string \<Rightarrow> string \<Rightarrow> completion option" where
  "complete_openai post p system user =
     (let base = (if rp_base_url p = [] then default_base_url (rp_id p)
                  else trim_end_matches CHR ''/'' (rp_base_url p))
      in if base = [] then None
         else let req_b = JObj [(''model'', JStr (rp_model p)), (''max_tokens'', JInt 1024),
                    (''messages'', JArr [message ''system'' system, message ''user'' user])];
                  req = \<lparr>req_url = base @ ''/chat/completions'',
                         req_auth = ''Bearer '' @ rp_api_key p, req_body = req_b\<rparr>
              in case json_or_status (post req) of None \<Rightarrow> None
                 | Some v \<Rightarrow> (case as_str (index_key (index_key (index_nth (index_key v ''choices'') 0)
                       ''message'') ''content'') of
                     None \<Rightarrow> None
                   | Some txt \<Rightarrow> Some (count_tokens system user txt
                       (index_key (index_key v ''usage'') ''prompt_tokens'')
                       (index_key (index_key v ''usage'') ''completion_tokens''))))"

definition complete ::
  "gateway \<Rightarrow> resolved_provider \<Rightarrow> string \<Rightarrow> string \<Rightarrow> llm_state \<Rightarrow> completion option \<times> llm_state" where
  "complete g p system user s =
     (let post = endpoint g (calls s)
      in ((case dialect_of (rp_id p) of
             DAnthropic \<Rightarrow> complete_anthropic post p system user
           | DGemini \<Rightarrow> complete_gemini post p system user
           | DOpenAiCompatible \<Rightarrow> complete_openai post p system user),
          s\<lparr>calls := calls s + 1\<rparr>))"

section \<open>Routing\<close>

definition push_new :: "'a \<Rightarrow> 'a list \<Rightarrow> 'a list" where
  "push_new x xs = (if x \<in> set xs then xs else xs @ [x])"

definition provider_order :: "json \<Rightarrow> llm_task \<Rightarrow> provider_id list" where
  "provider_order ai task =
     (let order = (case Option.bind (as_str (index_key (index_key ai ''taskRouting'') (task_key task)))
                      provider_from_str of Some p \<Rightarrow> [p] | None \<Rightarrow> []);
          order = (case as_array (index_key ai ''fallbackOrder'') of None \<Rightarrow> order
            | Some vs \<Rightarrow> fold push_new (List.map_filter (\<lambda>v. Option.bind (as_str v) provider_from_str) vs) order)
      in fold push_new [Gemini, Anthropic, OpenAi] order)"

definition resolve_provider :: "json \<Rightarrow> provider_id \<Rightarrow> string \<Rightarrow> resolved_provider" where
  "resolve_provider ai p api_key =
     \<lparr>rp_id = p,
      rp_model = (case as_str (index_key (index_key ai ''models'') (provider_str p)) of
          Some m \<Rightarrow> if m = [] then default_model p else m
        | None \<Rightarrow> default_model p),
      rp_api_key = api_key,
      rp_base_url = (if p = OpenAiCompatible
        then (case as_str (index_key (index_key ai ''baseUrls'') ''openaiCompatible'') of Some b \<Rightarrow> b | None \<Rightarrow> [])
        else [])\<rparr>"

fun chain_loop ::
  "gateway \<Rightarrow> uuid \<Rightarrow> uuid option \<Rightarrow> json \<Rightarrow> llm_state \<Rightarrow> provider_id list \<Rightarrow> resolved_provider list option" where
  "chain_loop g tenant user ai s [] = Some []"
| "chain_loop g tenant user ai s (p # ps) =
     (case resolve_api_key g tenant user p s of
        None \<Rightarrow> None
      | Some None \<Rightarrow> chain_loop g tenant user ai s ps
      | Some (Some k) \<Rightarrow> map_option (\<lambda>rest. resolve_provider ai p k # rest) (chain_loop g tenant user ai s ps))"

definition provider_chain ::
  "gateway \<Rightarrow> uuid \<Rightarrow> uuid option \<Rightarrow> llm_task \<Rightarrow> llm_state \<Rightarrow> resolved_provider list option \<times> llm_state" where
  "provider_chain g tenant user task s =
     (let (cfg, st) = resolve_org (genv g) tenant (settings s); s1 = s\<lparr>settings := st\<rparr>
      in case cfg of None \<Rightarrow> (None, s1)
         | Some c \<Rightarrow> let ai = index_key c ''ai''
             in (chain_loop g tenant user ai s1 (provider_order ai task), s1))"

section \<open>Metering and budget\<close>

definition cost_micro :: "f64 \<times> f64 \<Rightarrow> completion \<Rightarrow> int" where
  "cost_micro price c = (case price of (in_price, out_price) \<Rightarrow>
     let cost = (of_int (in_tokens c) / 1000000) * in_price + (of_int (out_tokens c) / 1000000) * out_price
     in sat_i64 (round_away (cost * 1000000)))"

definition usage_meta_json :: "resolved_provider \<Rightarrow> llm_task \<Rightarrow> completion \<Rightarrow> json" where
  "usage_meta_json p task c =
     JObj [(''provider'', JStr (provider_str (rp_id p))), (''model'', JStr (rp_model p)),
       (''task'', JStr (task_key task)), (''inTokens'', JInt (in_tokens c)),
       (''outTokens'', JInt (out_tokens c)), (''estimated'', JBool (estimated c))]"

definition meter ::
  "gateway \<Rightarrow> uuid \<Rightarrow> resolved_provider \<Rightarrow> llm_task \<Rightarrow> completion \<Rightarrow> llm_state \<Rightarrow> unit option \<times> llm_state" where
  "meter g tenant p task c s =
     (let (sys, st) = resolve_system (genv g) (settings s);
          s1 = s\<lparr>settings := st\<rparr>;
          sysv = (case sys of Some v \<Rightarrow> v | None \<Rightarrow> JNull);
          row = \<lparr>usage_tenant = tenant, metric = ''llm'',
                 quantity = cost_micro (price_for (rp_model p) (index_key sysv ''pricing'')) c,
                 usage_meta = usage_meta_json p task c, usage_at = llm_now s1\<rparr>
      in if \<not> reachable (settings s1) then (None, s1)
         else (Some (), s1\<lparr>usage_records := usage_records s1 @ [row]\<rparr>))"

fun try_chain ::
  "gateway \<Rightarrow> uuid \<Rightarrow> llm_task \<Rightarrow> string \<Rightarrow> string \<Rightarrow> resolved_provider list \<Rightarrow> llm_state
    \<Rightarrow> completion option \<times> llm_state" where
  "try_chain g tenant task system user [] s = (None, s)"
| "try_chain g tenant task system user (p # ps) s =
     (case complete g p system user s of
        (Some c, s1) \<Rightarrow> (Some c, snd (meter g tenant p task c s1))
      | (None, s1) \<Rightarrow> try_chain g tenant task system user ps s1)"

definition complete_metered ::
  "gateway \<Rightarrow> uuid \<Rightarrow> uuid option \<Rightarrow> llm_task \<Rightarrow> string \<Rightarrow> string \<Rightarrow> llm_state
    \<Rightarrow> completion option \<times> llm_state" where
  "complete_metered g tenant user task system prompt s =
     (case provider_chain g tenant user task s of
        (None, s1) \<Rightarrow> (None, s1)
      | (Some chain, s1) \<Rightarrow> try_chain g tenant task system prompt chain s1)"

definition spent_micro :: "uuid \<Rightarrow> llm_state \<Rightarrow> int" where
  "spent_micro tenant s = sum_list (map quantity
     (filter (\<lambda>r. usage_tenant r = tenant \<and> metric r = ''llm'' \<and> month_start s \<le> usage_at r) (usage_records s)))"

definition month_to_date_usd :: "uuid \<Rightarrow> llm_state \<Rightarrow> f64 option" where
  "month_to_date_usd tenant s =
     (if \<not> reachable (settings s) then None else Some (of_int (spent_micro tenant s) / 1000000))"

record budget_status =
  spent_usd :: f64
  limit_usd :: f64
  over_limit :: bool
  over_soft :: bool

definition budget_status_of :: "gateway \<Rightarrow> uuid \<Rightarrow> llm_state \<Rightarrow> budget_status option \<times> llm_state" where
  "budget_status_of g tenant s =
     (let (cfg, st) = resolve_org (genv g) tenant (settings s); s1 = s\<lparr>settings := st\<rparr>
      in case cfg of None \<Rightarrow> (None, s1)
         | Some c \<Rightarrow>
             let limit = org_f64 c ''budgetMonthlyLimitUsd'' 0;
                 soft_pct = of_int (org_i64 c ''budgetSoftThresholdPct'' 80)
             in case month_to_date_usd tenant s1 of None \<Rightarrow> (None, s1)
                | Some spent \<Rightarrow> (Some \<lparr>spent_usd = spent, limit_usd = limit,
                     over_limit = (limit > 0 \<and> spent \<ge> limit),
                     over_soft = (limit > 0 \<and> spent \<ge> limit * soft_pct / 100)\<rparr>, s1))"

section \<open>The helpers of the ingest pipeline\<close>

definition provider_available :: "gateway \<Rightarrow> uuid \<Rightarrow> llm_state \<Rightarrow> bool" where
  "provider_available g tenant s =
     list_ex (\<lambda>p. case resolve_api_key g tenant None p s of Some (Some _) \<Rightarrow> True | _ \<Rightarrow> False) all_providers"

definition str_lines :: "string \<Rightarrow> string list" where
  "str_lines s = map (\<lambda>l. case strip_suffix [char_of (13 :: nat)] l of Some l' \<Rightarrow> l' | None \<Rightarrow> l)
     (split_on (char_of (10 :: nat)) s)"

definition prefix_system :: string where
  "prefix_system = ''You situate a text chunk within its document. Reply with ONE short sentence '' @
     ''(at most 25 words) that gives retrieval context for the chunk. No preamble, '' @
     ''no quotes, no markdown.''"

definition contextual_prefix_of ::
  "gateway \<Rightarrow> uuid \<Rightarrow> string \<Rightarrow> string \<Rightarrow> llm_state \<Rightarrow> string option option \<times> llm_state" where
  "contextual_prefix_of g tenant title chunk s =
     (let nl = [char_of (10 :: nat)];
          user = ''Document title: '' @ title @ nl @ nl @ ''Chunk:'' @ nl @ take 1200 chunk
      in case complete_metered g tenant None Extraction prefix_system user s of
           (None, s1) \<Rightarrow> (Some None, s1)
         | (Some c, s1) \<Rightarrow>
             let pfx = (case find (\<lambda>l. l \<noteq> []) (map trim (str_lines (reply_text c))) of
                          Some l \<Rightarrow> trim l | None \<Rightarrow> [])
             in (Some (if pfx = [] then None else Some pfx), s1))"

section \<open>Keys are read back\<close>

lemma provider_str_inject [simp]: "provider_str p = provider_str q \<longleftrightarrow> p = q"
  by (cases p; cases q) simp_all

lemma provider_str_not_compat: "provider_str p \<noteq> ''openai-compatible''"
  by (cases p) simp_all

lemma encrypt_decrypt:
  assumes "aes_ok g" "encrypt_secret g pt s = (Some blob, s')"
  shows "decrypt_secret g blob = Some pt"
proof -
  from assms(2) obtain k ct where k: "kek g = Some k" "aes_encrypt g k (nonce g (randoms s)) pt = Some ct"
    "blob = nonce g (randoms s) @ ct"
    by (auto simp: encrypt_secret_def Let_def split: option.splits)
  then have "ct \<noteq> [] \<and> aes_decrypt g k (nonce g (randoms s)) ct = Some pt" "length (nonce g (randoms s)) = 12"
    using assms(1) unfolding aes_ok_def by (metis option.inject)+
  with k show ?thesis by (simp add: decrypt_secret_def)
qed

lemma encrypt_secret_frame:
  "encrypt_secret g pt s = (r, s') \<Longrightarrow> settings s' = settings s \<and> provider_keys s' = provider_keys s
    \<and> usage_records s' = usage_records s \<and> calls s' = calls s"
  by (auto simp: encrypt_secret_def Let_def split: option.splits)

lemma store_provider_key_effect:
  assumes "store_provider_key g t u provider sc pt s = (Some (), s')"
  shows "reachable (settings s)" and "settings s' = settings s"
    and "\<exists>blob s1. encrypt_secret g pt s = (Some blob, s1) \<and> provider_keys s' =
        filter (\<lambda>r. \<not> in_slot t provider (key_slot sc u) r) (provider_keys s) @
        [\<lparr>pk_tenant = t, pk_provider = provider, pk_cipher = blob, pk_user = snd (key_slot sc u),
          pk_scope = fst (key_slot sc u), pk_hint = last_chars 4 pt\<rparr>]"
proof -
  obtain r s1 where e: "encrypt_secret g pt s = (r, s1)" by (meson surj_pair)
  note f = encrypt_secret_frame [OF e]
  show "reachable (settings s)" "settings s' = settings s"
    using assms e f by (auto simp: store_provider_key_def Let_def split: option.splits if_splits)
  show "\<exists>blob s1. encrypt_secret g pt s = (Some blob, s1) \<and> provider_keys s' =
        filter (\<lambda>r. \<not> in_slot t provider (key_slot sc u) r) (provider_keys s) @
        [\<lparr>pk_tenant = t, pk_provider = provider, pk_cipher = blob, pk_user = snd (key_slot sc u),
          pk_scope = fst (key_slot sc u), pk_hint = last_chars 4 pt\<rparr>]"
    using assms e f by (auto simp: store_provider_key_def Let_def split: option.splits if_splits)
qed

lemma filter_other:
  "(\<And>r. Q r \<Longrightarrow> P r) \<Longrightarrow> filter Q (filter P xs) = filter Q xs"
  by (induction xs) auto

text \<open>
  C25. A stored key is the key that is used. After a successful store under a provider's own
  name, the same user's lookup returns exactly the stored text, whether it was stored for the
  user or, if the user has no key of their own, for the organisation; and lookups of every
  other tenant or provider answer as before.
\<close>

theorem stored_key_is_used:
  assumes "aes_ok g" and "store_provider_key g t u (provider_str p) sc pt s = (Some (), s')"
    and "sc = ''user'' \<or> (\<forall>r \<in> set (provider_keys s). pk_scope r = ''user'' \<longrightarrow> pk_user r \<noteq> Some u)"
  shows "resolve_api_key g t (Some u) p s' = Some (Some pt)
    \<and> (\<forall>t' u' q. t' \<noteq> t \<or> q \<noteq> p \<longrightarrow> resolve_api_key g t' u' q s' = resolve_api_key g t' u' q s)"
proof -
  note eff = store_provider_key_effect [OF assms(2)]
  from eff(3) obtain blob s1 where enc: "encrypt_secret g pt s = (Some blob, s1)"
    and keys: "provider_keys s' = filter (\<lambda>r. \<not> in_slot t (provider_str p) (key_slot sc u) r) (provider_keys s) @
        [\<lparr>pk_tenant = t, pk_provider = provider_str p, pk_cipher = blob, pk_user = snd (key_slot sc u),
          pk_scope = fst (key_slot sc u), pk_hint = last_chars 4 pt\<rparr>]" (is "_ = filter ?keep _ @ [?row]")
    by blast
  have "pick_key t (Some u) (provider_str p) (provider_keys s') = Some ?row"
  proof (cases "sc = ''user''")
    case True
    have "find (\<lambda>r. pk_scope r = ''user'' \<and> pk_user r = Some u)
        (filter (\<lambda>r. pk_tenant r = t \<and> pk_provider r = provider_str p) (filter ?keep (provider_keys s))) = None"
      using True by (auto simp: find_None_iff in_slot_def key_slot_def)
    with True show ?thesis
      by (simp add: pick_key_def keys Let_def find_append key_slot_def split: option.split)
  next
    case False
    have user: "find (\<lambda>r. pk_scope r = ''user'' \<and> pk_user r = Some u)
        (filter (\<lambda>r. pk_tenant r = t \<and> pk_provider r = provider_str p) (filter ?keep (provider_keys s))) = None"
      using False assms(3) by (auto simp: find_None_iff)
    have org: "find (\<lambda>r. pk_scope r = ''org'')
        (filter (\<lambda>r. pk_tenant r = t \<and> pk_provider r = provider_str p) (filter ?keep (provider_keys s))) = None"
      using False by (auto simp: find_None_iff in_slot_def key_slot_def)
    from False user org show ?thesis
      by (simp add: pick_key_def keys Let_def find_append key_slot_def)
  qed
  then have "resolve_api_key g t (Some u) p s' = Some (Some pt)"
    using eff(1,2) encrypt_decrypt [OF assms(1) enc] by (simp add: resolve_api_key_def)
  moreover have "resolve_api_key g t' u' q s' = resolve_api_key g t' u' q s" if "t' \<noteq> t \<or> q \<noteq> p" for t' u' q
  proof -
    have "filter (\<lambda>r. pk_tenant r = t' \<and> pk_provider r = provider_str q) (provider_keys s') =
        filter (\<lambda>r. pk_tenant r = t' \<and> pk_provider r = provider_str q) (provider_keys s)"
      unfolding keys filter_append using that by (subst filter_other) (auto simp: in_slot_def)
    then show ?thesis using eff(2) by (simp add: resolve_api_key_def pick_key_def)
  qed
  ultimately show ?thesis by blast
qed

definition plain_gateway :: "environment \<Rightarrow> gateway" where
  "plain_gateway env = \<lparr>genv = env, aes_encrypt = (\<lambda>_ _ pt. Some (CHR ''#'' # pt)),
     aes_decrypt = (\<lambda>_ _ ct. Some (tl ct)), b64_bytes = (\<lambda>_. Some (replicate 32 7)),
     nonce = (\<lambda>_. replicate 12 CHR ''n''), endpoint = (\<lambda>_ _. None)\<rparr>"

lemma plain_gateway_ok: "aes_ok (plain_gateway env)"
  by (simp add: aes_ok_def plain_gateway_def)

definition kek_env :: environment where
  "kek_env = \<lparr>var = (\<lambda>v. if v = ''PROVIDER_KEY_KEK'' then Some ''k'' else None), parse_f64 = (\<lambda>_. None)\<rparr>"

definition fresh_llm :: llm_state where
  "fresh_llm = \<lparr>settings = example_store, provider_keys = [], usage_records = [], randoms = 0, calls = 0,
     llm_now = 0, month_start = 0\<rparr>"

lemma plain_store:
  "fst (store_provider_key (plain_gateway kek_env) t u provider sc pt fresh_llm) = Some ()"
proof -
  have "trim ''k'' = ''k''" by code_simp
  then show ?thesis
    by (simp add: store_provider_key_def encrypt_secret_def kek_def plain_gateway_def kek_env_def
        fresh_llm_def example_store_def Let_def)
qed

theorem stored_key_is_used_witness:
  "resolve_api_key (plain_gateway kek_env) 4 (Some 9) Moonshot
     (snd (store_provider_key (plain_gateway kek_env) 4 9 ''moonshot'' ''org'' ''sk-1'' fresh_llm)) = Some (Some ''sk-1'')"
proof -
  let ?g = "plain_gateway kek_env"
  obtain s' where r: "store_provider_key ?g 4 9 (provider_str Moonshot) ''org'' ''sk-1'' fresh_llm = (Some (), s')"
    using plain_store by (metis prod.collapse)
  have "\<forall>r \<in> set (provider_keys fresh_llm). pk_scope r = ''user'' \<longrightarrow> pk_user r \<noteq> Some 9"
    by (simp add: fresh_llm_def)
  from stored_key_is_used [OF plain_gateway_ok r disjI2 [OF this]] r show ?thesis by simp
qed

text \<open>
  The key of the generic provider is accepted and never used. The store accepts the name
  "openai-compatible", while a lookup asks for "openai_compatible": after storing a key under
  the accepted name every lookup, of every tenant, user and provider, answers as before.
\<close>

theorem compatible_key_never_used:
  assumes "store_provider_key g t u ''openai-compatible'' sc pt s = (Some (), s')"
  shows "known_provider ''openai-compatible'' \<and> \<not> known_provider (provider_str OpenAiCompatible)
    \<and> resolve_api_key g t' u' p s' = resolve_api_key g t' u' p s"
proof -
  note eff = store_provider_key_effect [OF assms]
  from eff(3) obtain blob where keys: "provider_keys s' =
      filter (\<lambda>r. \<not> in_slot t ''openai-compatible'' (key_slot sc u) r) (provider_keys s) @
        [\<lparr>pk_tenant = t, pk_provider = ''openai-compatible'', pk_cipher = blob, pk_user = snd (key_slot sc u),
          pk_scope = fst (key_slot sc u), pk_hint = last_chars 4 pt\<rparr>]"
    by blast
  have "filter (\<lambda>r. pk_tenant r = t' \<and> pk_provider r = provider_str p) (provider_keys s') =
      filter (\<lambda>r. pk_tenant r = t' \<and> pk_provider r = provider_str p) (provider_keys s)"
    unfolding keys filter_append using provider_str_not_compat [of p]
    by (subst filter_other) (auto simp: in_slot_def)
  then show ?thesis
    using eff(2) by (simp add: resolve_api_key_def pick_key_def known_provider_def KNOWN_PROVIDERS_def)
qed

theorem compatible_key_never_used_witness:
  "resolve_api_key (plain_gateway kek_env) 4 (Some 9) OpenAiCompatible
     (snd (store_provider_key (plain_gateway kek_env) 4 9 ''openai-compatible'' ''user'' ''sk-1'' fresh_llm)) = Some None"
proof -
  let ?g = "plain_gateway kek_env"
  obtain s' where r: "store_provider_key ?g 4 9 ''openai-compatible'' ''user'' ''sk-1'' fresh_llm = (Some (), s')"
    using plain_store by (metis prod.collapse)
  have "resolve_api_key ?g 4 (Some 9) OpenAiCompatible fresh_llm = Some None"
    by (simp add: resolve_api_key_def fresh_llm_def example_store_def pick_key_def plain_gateway_def
        kek_env_def non_blank_def)
  with compatible_key_never_used [OF r, of 4 "Some 9" OpenAiCompatible] r show ?thesis by simp
qed

section \<open>Routing and metering\<close>

lemma resolve_org_reachable: "resolve_org env t st = (r, st') \<Longrightarrow> reachable st' = reachable st"
  by (auto simp: resolve_org_def settings_cache_put_def Let_def split: option.splits if_splits)

lemma resolve_system_reachable: "resolve_system env st = (r, st') \<Longrightarrow> reachable st' = reachable st"
  by (auto simp: resolve_system_def settings_cache_put_def Let_def split: option.splits if_splits)

lemma provider_chain_frame:
  "provider_chain g t u task s = (r, s') \<Longrightarrow> usage_records s' = usage_records s \<and> calls s' = calls s
    \<and> provider_keys s' = provider_keys s \<and> reachable (settings s') = reachable (settings s)
    \<and> llm_now s' = llm_now s \<and> month_start s' = month_start s"
  by (auto simp: provider_chain_def Let_def dest: resolve_org_reachable split: prod.splits option.splits)

lemma push_new_set [simp]: "set (push_new x xs) = insert x (set xs)"
  by (auto simp: push_new_def)

lemma fold_push_new: "set (fold push_new ys xs) = set xs \<union> set ys"
  by (induction ys arbitrary: xs) auto

lemma distinct_fold_push: "distinct xs \<Longrightarrow> distinct (fold push_new ys xs)"
  by (induction ys arbitrary: xs) (auto simp: push_new_def)

lemma provider_order_distinct: "distinct (provider_order ai task)"
  unfolding provider_order_def Let_def
  by (intro distinct_fold_push) (auto split: option.split intro: distinct_fold_push)

lemma provider_order_natives: "{Gemini, Anthropic, OpenAi} \<subseteq> set (provider_order ai task)"
  unfolding provider_order_def Let_def fold_push_new by auto

lemma chain_loop_ids:
  "chain_loop g t u ai s ps = Some chain \<Longrightarrow>
    map rp_id chain = filter (\<lambda>p. resolve_api_key g t u p s \<noteq> Some None) ps"
  by (induction ps arbitrary: chain) (auto simp: resolve_provider_def split: option.splits)

lemma chain_loop_error:
  "chain_loop g t u ai s ps = None \<longleftrightarrow> (\<exists>p \<in> set ps. resolve_api_key g t u p s = None)"
  by (induction ps) (auto split: option.splits)

text \<open>
  One unreadable key switches every provider off. The three default providers are tried
  for every task; when the stored key of one of them cannot be decrypted (a changed
  encryption key), building the chain fails as a whole: no completion succeeds, no provider
  is called and nothing is metered, even if the other providers have usable keys.
\<close>

theorem one_bad_key_blocks_all:
  assumes "p \<in> {Gemini, Anthropic, OpenAi}" and "reachable (settings s)"
    and "pick_key t u (provider_str p) (provider_keys s) = Some r" and "decrypt_secret g (pk_cipher r) = None"
  shows "fst (complete_metered g t u task system prompt s) = None
    \<and> calls (snd (complete_metered g t u task system prompt s)) = calls s
    \<and> usage_records (snd (complete_metered g t u task system prompt s)) = usage_records s"
proof -
  obtain c st where org: "resolve_org (genv g) t (settings s) = (c, st)" by (meson surj_pair)
  let ?s = "s\<lparr>settings := st\<rparr>"
  have "reachable st" using resolve_org_reachable [OF org] assms(2) by simp
  then have "resolve_api_key g t u p ?s = None"
    using assms(3,4) by (simp add: resolve_api_key_def)
  then have "chain_loop g t u ai ?s (provider_order ai task) = None" for ai
    using assms(1) provider_order_natives unfolding chain_loop_error by blast
  then have "provider_chain g t u task s = (None, ?s)"
    using org by (auto simp: provider_chain_def Let_def split: option.split)
  then show ?thesis by (simp add: complete_metered_def)
qed

theorem one_bad_key_blocks_all_witness:
  "fst (complete_metered (plain_gateway kek_env) 4 None Chat ''s'' ''p''
     (fresh_llm\<lparr>provider_keys := [\<lparr>pk_tenant = 4, pk_provider = ''openai'', pk_cipher = ''short'',
        pk_user = None, pk_scope = ''org'', pk_hint = ''t''\<rparr>]\<rparr>)) = None"
proof -
  let ?r = "\<lparr>pk_tenant = 4, pk_provider = ''openai'', pk_cipher = ''short'', pk_user = None,
        pk_scope = ''org'', pk_hint = ''t''\<rparr>"
  have "pick_key 4 None (provider_str OpenAi) (provider_keys (fresh_llm\<lparr>provider_keys := [?r]\<rparr>)) = Some ?r"
    by (simp add: pick_key_def)
  from one_bad_key_blocks_all [OF _ _ this] show ?thesis
    by (simp add: fresh_llm_def example_store_def decrypt_secret_def)
qed

lemma meter_effect:
  assumes "reachable (settings s)"
  shows "\<exists>price. usage_records (snd (meter g t p task c s)) = usage_records s @
      [\<lparr>usage_tenant = t, metric = ''llm'', quantity = cost_micro price c,
        usage_meta = usage_meta_json p task c, usage_at = llm_now s\<rparr>]
    \<and> month_start (snd (meter g t p task c s)) = month_start s"
proof -
  obtain sys st where sys: "resolve_system (genv g) (settings s) = (sys, st)" by (meson surj_pair)
  then have "reachable st" using resolve_system_reachable [OF sys] assms by simp
  with sys show ?thesis
    by (cases "price_for (rp_model p) (index_key (case sys of Some v \<Rightarrow> v | None \<Rightarrow> JNull) ''pricing'')")
      (auto simp: meter_def Let_def split: option.splits)
qed

lemma complete_frame:
  "complete g p system user s = (r, s') \<Longrightarrow> usage_records s' = usage_records s \<and> settings s' = settings s
    \<and> llm_now s' = llm_now s \<and> month_start s' = month_start s \<and> calls s' = calls s + 1"
  by (auto simp: complete_def Let_def)

lemma try_chain_effect:
  "reachable (settings s) \<Longrightarrow> try_chain g t task system user chain s = (r, s') \<Longrightarrow>
    (case r of
       None \<Rightarrow> usage_records s' = usage_records s
     | Some c \<Rightarrow> \<exists>p \<in> set chain. \<exists>price. usage_records s' = usage_records s @
         [\<lparr>usage_tenant = t, metric = ''llm'', quantity = cost_micro price c,
           usage_meta = usage_meta_json p task c, usage_at = llm_now s\<rparr>])
    \<and> month_start s' = month_start s"
proof (induction chain arbitrary: s)
  case (Cons p ps)
  obtain out s1 where one: "complete g p system user s = (out, s1)" by (meson surj_pair)
  note f = complete_frame [OF one]
  show ?case
  proof (cases out)
    case None
    with Cons.prems one f have "reachable (settings s1)" "try_chain g t task system user ps s1 = (r, s')"
      by simp_all
    from Cons.IH [OF this] f show ?thesis
      by (auto split: option.splits)
  next
    case (Some c)
    with Cons.prems one have "r = Some c" "s' = snd (meter g t p task c s1)" by simp_all
    with meter_effect [of s1 g t p task c] Cons.prems(1) f show ?thesis by auto
  qed
qed simp


text \<open>A gateway with one environment key, whose endpoint answers every request.\<close>

definition gemini_env :: environment where
  "gemini_env = \<lparr>var = (\<lambda>v. if v = ''GEMINI_API_KEY'' then Some ''k'' else None), parse_f64 = (\<lambda>_. None)\<rparr>"

definition gemini_reply :: json where
  "gemini_reply = JObj [(''candidates'', JArr [JObj [(''content'', JObj [(''parts'', gemini_parts ''hello'')])]])]"

definition answering_gateway :: gateway where
  "answering_gateway = (plain_gateway gemini_env)\<lparr>endpoint := (\<lambda>_ _. Some (200, Some gemini_reply))\<rparr>"

lemma answering_resolve:
  "reachable (settings s) \<Longrightarrow> provider_keys s = [] \<Longrightarrow>
    resolve_api_key answering_gateway t u p s = Some (if p = Gemini then Some ''k'' else None)"
proof -
  have "trim ''k'' = ''k''" by code_simp
  moreover assume "reachable (settings s)" "provider_keys s = []"
  ultimately show ?thesis
    by (cases p) (simp_all add: resolve_api_key_def pick_key_def answering_gateway_def plain_gateway_def
        gemini_env_def non_blank_def)
qed

lemma answering_completes: "fst (complete_metered answering_gateway t u task system prompt fresh_llm) \<noteq> None"
proof -
  obtain chain s1 where ch: "provider_chain answering_gateway t u task fresh_llm = (chain, s1)" by (meson surj_pair)
  obtain c st where org: "resolve_org (genv answering_gateway) t (settings fresh_llm) = (c, st)" by (meson surj_pair)
  have c: "c \<noteq> None" "reachable st"
    using org resolve_org_reachable [OF org]
    by (auto simp: resolve_org_def fresh_llm_def example_store_def settings_cache_get_def Let_def)
  then have res: "resolve_api_key answering_gateway t u p (fresh_llm\<lparr>settings := st\<rparr>) =
      Some (if p = Gemini then Some ''k'' else None)" for p
    by (intro answering_resolve) (simp_all add: fresh_llm_def)
  from c obtain cv where cv: "c = Some cv" by auto
  let ?order = "provider_order (index_key cv ''ai'') task"
  have chain: "chain = chain_loop answering_gateway t u (index_key cv ''ai'') (fresh_llm\<lparr>settings := st\<rparr>) ?order"
    using ch org cv by (auto simp: provider_chain_def Let_def)
  then obtain ps where ps: "chain = Some ps"
    using chain_loop_error [of answering_gateway t u "index_key cv ''ai''" "fresh_llm\<lparr>settings := st\<rparr>" ?order] res
    by (cases chain) auto
  from chain_loop_ids [OF chain [symmetric, unfolded ps]]
  have ids: "map rp_id ps = filter (\<lambda>p. p = Gemini) ?order"
    by (simp add: res cong: filter_cong)
  have "Gemini \<in> set (filter (\<lambda>p. p = Gemini) ?order)" using provider_order_natives by auto
  then have "Gemini \<in> set (map rp_id ps)" unfolding ids .
  then obtain p rest where p0: "ps = p # rest" by (cases ps) auto
  then have "rp_id p \<in> set (filter (\<lambda>p. p = Gemini) ?order)" unfolding ids [symmetric] by simp
  with p0 have p: "ps = p # rest" "rp_id p = Gemini" by simp_all
  have "fst (complete answering_gateway p system prompt s1) \<noteq> None"
    by (simp add: complete_def p(2) complete_gemini_def answering_gateway_def plain_gateway_def json_or_status_def
        gemini_reply_def gemini_parts_def index_key_def index_nth_def Let_def)
  then show ?thesis
    using ch ps p(1) by (auto simp: complete_metered_def split: prod.splits option.splits)
qed


end
