(* ===== verification/AiKeys.thy ===== *)
theory AiKeys
  imports Llm Auth
begin

text \<open>
  \<open>insight-api/src/routes/ai.rs\<close>: the handlers that store and delete provider keys and that
  set the organisation's routing, on the state of \<open>Llm\<close>. A handler answers \<open>Inl\<close> an API error
  or \<open>Inr\<close> its result.
\<close>

record key_body =
  kb_provider :: string
  kb_api_key :: string
  kb_base_url :: "string option"
  kb_model :: "string option"
  kb_scope :: string

definition default_scope :: string where
  "default_scope = ''org''"

definition service_unavailable :: api_error where
  "service_unavailable = \<lparr>err_status = 503, err_code = ''encryption_unavailable''\<rparr>"

definition org_scope_denied :: "string \<Rightarrow> authed_user \<Rightarrow> bool" where
  "org_scope_denied sc user = (sc = ''org'' \<and> role_rank (auth_role user) < role_rank ''admin'')"

text \<open>The settings patch a stored key brings along.\<close>

definition key_patch :: "key_body \<Rightarrow> json_object" where
  "key_patch b =
     (case kb_base_url b of
        Some base \<Rightarrow> if kb_provider b = ''openai-compatible''
          then [(''baseUrls'', JObj [(''openaiCompatible'', JStr base)])] else []
      | None \<Rightarrow> [])
     @ (case kb_model b of Some m \<Rightarrow> [(''models'', JObj [(kb_provider b, JStr m)])] | None \<Rightarrow> [])"

definition save_key :: "gateway \<Rightarrow> authed_user \<Rightarrow> key_body \<Rightarrow> llm_state \<Rightarrow> (api_error + unit) \<times> llm_state" where
  "save_key g user b s =
     (if \<not> known_provider (kb_provider b) then (Inl bad_request, s)
      else if trim (kb_api_key b) = [] then (Inl bad_request, s)
      else if org_scope_denied (kb_scope b) user then (Inl forbidden, s)
      else if \<not> encryption_available g then (Inl service_unavailable, s)
      else case store_provider_key g (auth_tenant user) (auth_user user) (kb_provider b) (kb_scope b)
                  (trim (kb_api_key b)) s of
          (None, s1) \<Rightarrow> (Inl internal, s1)
        | (Some _, s1) \<Rightarrow>
            if key_patch b = [] then (Inr (), s1)
            else case patch_org (genv g) (auth_tenant user) (JObj [(''ai'', JObj (key_patch b))]) None None
                        (settings s1) of
                (None, st) \<Rightarrow> (Inl internal, s1\<lparr>settings := st\<rparr>)
              | (Some _, st) \<Rightarrow> (Inr (), s1\<lparr>settings := st\<rparr>))"

definition delete_key ::
  "authed_user \<Rightarrow> string \<Rightarrow> string \<Rightarrow> llm_state \<Rightarrow> (api_error + unit) \<times> llm_state" where
  "delete_key user provider sc s =
     (if org_scope_denied sc user then (Inl forbidden, s)
      else case delete_provider_key (auth_tenant user) (auth_user user) provider sc s of
          (None, s1) \<Rightarrow> (Inl internal, s1)
        | (Some _, s1) \<Rightarrow> (Inr (), s1))"

text \<open>
  \<open>PUT /api/ai/providers\<close>, behind the administrator extractor. The routing object is given in
  the iteration order of the body's hash map.
\<close>

definition routing_patch :: "(string \<times> string) list option \<Rightarrow> string option \<Rightarrow> json_object option" where
  "routing_patch task_routing default_provider =
     (let routing = (case task_routing of None \<Rightarrow> [] | Some r \<Rightarrow> r)
      in if list_ex (\<lambda>e. provider_from_str (snd e) = None) routing then None
         else case default_provider of
             None \<Rightarrow> Some (if task_routing = None then []
                           else [(''taskRouting'', JObj (map (\<lambda>(t, p). (t, JStr p)) routing))])
           | Some p \<Rightarrow> if provider_from_str p = None then None
               else Some [(''taskRouting'',
                      JObj (AList.update ''chat'' (JStr p) (map (\<lambda>(t, p). (t, JStr p)) routing)))])"

definition set_providers ::
  "environment \<Rightarrow> authed_user \<Rightarrow> (string \<times> string) list option \<Rightarrow> string option \<Rightarrow> settings_store
    \<Rightarrow> (api_error + json) \<times> settings_store" where
  "set_providers env user task_routing default_provider st =
     (case routing_patch task_routing default_provider of
        None \<Rightarrow> (Inl bad_request, st)
      | Some ai \<Rightarrow>
          let patch = (if ai = [] then [] else [(''ai'', JObj ai)])
          in case patch_org env (auth_tenant user) (JObj patch) None None st of
               (None, st1) \<Rightarrow> (Inl internal, st1)
             | (Some bundle, st1) \<Rightarrow>
                 (Inr (index_key (index_key (bundle_settings bundle) ''ai'') ''taskRouting''), st1))"

section \<open>What the scope check lets through\<close>

lemma role_rank_admin: "role_rank ''admin'' = 2" by code_simp

text \<open>
  The administrator check on organisation keys is bypassed by spelling the scope
  differently. The handler asks for an administrator only when the scope is exactly "org",
  and the store files every scope other than "user" under the organisation: whatever the
  caller's role, a request with the scope "team" replaces the organisation's key, and every
  colleague without a key of their own is then served with the caller's key.
\<close>

theorem any_member_sets_org_key:
  assumes "aes_ok g" and "encryption_available g" and "reachable (settings s)"
    and "known_provider (provider_str p)" and "trim (kb_api_key b) \<noteq> []"
    and "kb_provider b = provider_str p" and "kb_scope b \<notin> {''org'', ''user''}"
    and "kb_base_url b = None" and "kb_model b = None"
    and "\<forall>r \<in> set (provider_keys s). pk_scope r = ''user'' \<longrightarrow> pk_user r \<noteq> Some colleague"
  shows "\<exists>s'. save_key g user b s = (Inr (), s')
    \<and> resolve_api_key g (auth_tenant user) (Some colleague) p s' = Some (Some (trim (kb_api_key b)))"
proof -
  let ?t = "auth_tenant user" and ?pt = "trim (kb_api_key b)"
  have denied: "\<not> org_scope_denied (kb_scope b) user"
    using assms(7) by (simp add: org_scope_denied_def)
  obtain r s1 where st: "store_provider_key g ?t (auth_user user) (kb_provider b) (kb_scope b) ?pt s = (r, s1)"
    by (meson surj_pair)
  obtain blob s0 where enc: "encrypt_secret g ?pt s = (Some blob, s0)" "settings s0 = settings s"
  proof -
    obtain k where k: "kek g = Some k" using assms(2) by (auto simp: encryption_available_def)
    obtain ct where "aes_encrypt g k (nonce g (randoms s)) ?pt = Some ct"
      using assms(1) unfolding aes_ok_def by blast
    with k that show ?thesis by (auto simp: encrypt_secret_def Let_def)
  qed
  with st assms(3) have r: "r = Some ()"
    by (auto simp: store_provider_key_def Let_def)
  have save: "save_key g user b s = (Inr (), s1)"
    using st r denied assms by (simp add: save_key_def key_patch_def)
  have slot: "key_slot (kb_scope b) (auth_user user) = (''org'', None)"
    using assms(7) by (simp add: key_slot_def)
  note eff = store_provider_key_effect [OF st [unfolded r]]
  from eff(3) slot obtain blob' s2 where enc': "encrypt_secret g ?pt s = (Some blob', s2)"
    and keys: "provider_keys s1 =
      filter (\<lambda>r. \<not> in_slot ?t (provider_str p) (''org'', None) r) (provider_keys s) @
        [\<lparr>pk_tenant = ?t, pk_provider = provider_str p, pk_cipher = blob', pk_user = None,
          pk_scope = ''org'', pk_hint = last_chars 4 ?pt\<rparr>]" (is "_ = filter ?keep _ @ [?row]")
    by (auto simp: assms(6))
  let ?mine = "filter (\<lambda>r. pk_tenant r = ?t \<and> pk_provider r = provider_str p)"
  have user: "find (\<lambda>r. pk_scope r = ''user'' \<and> pk_user r = Some colleague) (?mine (filter ?keep (provider_keys s))) = None"
    using assms(10) by (auto simp: find_None_iff)
  have org: "find (\<lambda>r. pk_scope r = ''org'') (?mine (filter ?keep (provider_keys s))) = None"
    by (auto simp: find_None_iff in_slot_def)
  have "pick_key ?t (Some colleague) (provider_str p) (provider_keys s1) = Some ?row"
    using user org by (simp add: pick_key_def keys Let_def find_append)
  then have "resolve_api_key g ?t (Some colleague) p s1 = Some (Some ?pt)"
    using eff(1,2) encrypt_decrypt [OF assms(1) enc'] by (simp add: resolve_api_key_def)
  with save show ?thesis by blast
qed

definition viewer :: authed_user where
  "viewer = \<lparr>auth_user = 9, auth_tenant = 4, auth_role = ''viewer'', auth_session = 1\<rparr>"

theorem any_member_sets_org_key_witness:
  "let b = \<lparr>kb_provider = ''openai'', kb_api_key = ''sk-evil'', kb_base_url = None, kb_model = None, kb_scope = ''team''\<rparr>
   in \<exists>s'. save_key (plain_gateway kek_env) viewer b fresh_llm = (Inr (), s')
     \<and> resolve_api_key (plain_gateway kek_env) 4 (Some 1) OpenAi s' = Some (Some ''sk-evil'')
     \<and> fst (save_key (plain_gateway kek_env) viewer (b\<lparr>kb_scope := ''org''\<rparr>) fresh_llm) = Inl forbidden"
proof -
  let ?b = "\<lparr>kb_provider = ''openai'', kb_api_key = ''sk-evil'', kb_base_url = None, kb_model = None, kb_scope = ''team''\<rparr>"
  have trims: "trim ''sk-evil'' = ''sk-evil''" "trim ''k'' = ''k''" and rank: "role_rank ''viewer'' = 0"
    by code_simp+
  have "encryption_available (plain_gateway kek_env)"
    by (simp add: encryption_available_def kek_def plain_gateway_def kek_env_def trims Let_def)
  from any_member_sets_org_key [OF plain_gateway_ok this, of fresh_llm OpenAi ?b 1 viewer]
  have "\<exists>s'. save_key (plain_gateway kek_env) viewer ?b fresh_llm = (Inr (), s')
     \<and> resolve_api_key (plain_gateway kek_env) 4 (Some 1) OpenAi s' = Some (Some ''sk-evil'')"
    by (simp add: fresh_llm_def example_store_def known_provider_def KNOWN_PROVIDERS_def trims viewer_def)
  moreover have "fst (save_key (plain_gateway kek_env) viewer (?b\<lparr>kb_scope := ''org''\<rparr>) fresh_llm) = Inl forbidden"
    by (simp add: save_key_def known_provider_def KNOWN_PROVIDERS_def trims org_scope_denied_def viewer_def
        rank role_rank_admin)
  ultimately show ?thesis by auto
qed

lemma patch_scalar: "index_key (apply_patch x (JObj [(k, JStr b)])) k = JStr b"
  by (cases x) (auto simp: apply_patch.simps index_key_def map_of_update)

lemma patch_object:
  "is_object v \<Longrightarrow> \<exists>old. index_key (apply_patch x (JObj [(k, v)])) k \<in> {v, apply_patch old v}"
  by (cases x) (auto simp: apply_patch.simps index_key_def map_of_update)

text \<open>
  A member's own key changes the organisation's configuration. Storing a key in the
  user scope needs no administrator, but a base address given with it is written into the
  settings of the whole organisation: afterwards the overrides of the tenant hold the
  caller's address as the endpoint of the generic provider, for everybody.
\<close>

theorem any_member_redirects_provider:
  assumes "fst (save_key g user b s) = Inr ()" and "kb_provider b = ''openai-compatible''"
    and "kb_base_url b = Some base" and "kb_model b = None" and "kb_scope b = ''user''"
  shows "\<exists>r. org_settings (settings (snd (save_key g user b s))) (auth_tenant user) = Some r
    \<and> index_key (index_key (index_key (org_values r) ''ai'') ''baseUrls'') ''openaiCompatible'' = JStr base"
proof -
  let ?t = "auth_tenant user"
  have pat: "key_patch b = [(''baseUrls'', JObj [(''openaiCompatible'', JStr base)])]"
    using assms(2-4) by (simp add: key_patch_def)
  obtain r s1 where st: "store_provider_key g ?t (auth_user user) (kb_provider b) (kb_scope b) (trim (kb_api_key b)) s = (r, s1)"
    by (meson surj_pair)
  obtain bd st1 where po: "patch_org (genv g) ?t (JObj [(''ai'', JObj (key_patch b))]) None None (settings s1) = (bd, st1)"
    by (meson surj_pair)
  have ok: "bd \<noteq> None" "snd (save_key g user b s) = s1\<lparr>settings := st1\<rparr>"
    using assms(1) st po pat by (auto simp: save_key_def split: if_splits option.splits)
  then obtain row where row: "org_settings st1 ?t = Some row"
    "org_values row = apply_patch (row_overrides (org_row ?t (settings s1))) (JObj [(''ai'', JObj (key_patch b))])"
    using po by (auto simp: patch_org_def Let_def settings_cache_invalidate_def write_org_def split: if_splits)
  let ?base = "JObj [(''openaiCompatible'', JStr base)]"
  obtain old where ai: "index_key (org_values row) ''ai'' \<in> {JObj [(''baseUrls'', ?base)], apply_patch old (JObj [(''baseUrls'', ?base)])}"
    using patch_object [of "JObj (key_patch b)"] row(2) pat by force
  have "\<exists>old'. index_key (index_key (org_values row) ''ai'') ''baseUrls'' \<in> {?base, apply_patch old' ?base}"
    using ai patch_object [of ?base old "''baseUrls''"] by (auto simp: index_key_def)
  then have "index_key (index_key (index_key (org_values row) ''ai'') ''baseUrls'') ''openaiCompatible'' = JStr base"
    using patch_scalar by (auto simp: index_key_def)
  with ok(2) row(1) show ?thesis by simp
qed

theorem any_member_redirects_provider_witness:
  "let b = \<lparr>kb_provider = ''openai-compatible'', kb_api_key = ''k'', kb_base_url = Some ''https://evil.example'',
       kb_model = None, kb_scope = ''user''\<rparr>
   in \<exists>r. org_settings (settings (snd (save_key (plain_gateway kek_env) viewer b fresh_llm))) 4 = Some r
     \<and> index_key (index_key (index_key (org_values r) ''ai'') ''baseUrls'') ''openaiCompatible'' = JStr ''https://evil.example''"
proof -
  let ?b = "\<lparr>kb_provider = ''openai-compatible'', kb_api_key = ''k'', kb_base_url = Some ''https://evil.example'',
       kb_model = None, kb_scope = ''user''\<rparr>"
  have trims: "trim ''k'' = ''k''" by code_simp
  have "fst (save_key (plain_gateway kek_env) viewer ?b fresh_llm) = Inr ()"
    by (simp add: save_key_def known_provider_def KNOWN_PROVIDERS_def trims org_scope_denied_def
        encryption_available_def kek_def plain_gateway_def kek_env_def store_provider_key_def encrypt_secret_def
        fresh_llm_def example_store_def key_patch_def patch_org_def Let_def settings_cache_invalidate_def write_org_def)
  from any_member_redirects_provider [OF this] show ?thesis by (simp add: viewer_def)
qed

end
