(* ===== verification/Ingest.thy ===== *)
theory Ingest
  imports Chunking Retrieve Queue Llm
begin

text \<open>
  \<open>insight-core/src/ingest.rs\<close>: the ingest pipeline, on the composed state \<open>pipeline\<close> (job
  queue, library tables, LLM gateway, object store). The parser service's reply, base64, the
  object store's failures and the text of a float are the fields of \<open>ingest_env\<close>. A step
  answers \<open>Inl\<close> the error's outermost message or \<open>Inr\<close> its value, with the new state: what an
  earlier step committed stays. Identifiers drawn by \<open>Uuid::new_v4\<close> and by the database come
  from the supply \<open>row_supply\<close>, in the order they are drawn.
\<close>

section \<open>Data\<close>

definition EMBED_BATCH :: nat where "EMBED_BATCH = 32"
definition SPARSE_DIM :: nat where "SPARSE_DIM = 30522"
definition CONTEXTUAL_MAX_CHUNKS :: nat where "CONTEXTUAL_MAX_CHUNKS = 150"
definition DEFAULT_LOW_CONF_THRESHOLD :: f64 where "DEFAULT_LOW_CONF_THRESHOLD = 0.4"
definition FALLBACK_PAGE_NO :: int where "FALLBACK_PAGE_NO = 1"

record parsed_page =
  pp_no :: int
  pp_width :: "f64 option"
  pp_height :: "f64 option"

record parsed_block =
  pb_kind :: string
  pb_page :: int
  pb_order :: int
  pb_content :: string
  pb_bbox :: "f64 list option"
  pb_confidence :: "f64 option"
  pb_table :: "string option"
  pb_crop :: "string option"

record parsed_image =
  pi_page :: int
  pi_png :: string

record parsed_doc =
  pd_pages :: "parsed_page list"
  pd_blocks :: "parsed_block list"
  pd_images :: "parsed_image list"
  pd_total :: int

record ingest_env =
  gw :: gateway
  svc :: services
  codec_of :: codec
  b64_decode :: "string \<Rightarrow> string option"
  put_ok :: "string \<Rightarrow> string \<Rightarrow> bool"
  parser :: "string \<Rightarrow> string \<Rightarrow> nat \<Rightarrow> parsed_doc http_reply"
  show_f32 :: "f64 \<Rightarrow> string"
  bucket_documents :: string
  bucket_thumbs :: string
  bucket_figures :: string

record pipeline =
  queue :: queue_state
  tables :: library_db
  llm :: llm_state
  blobs :: "string \<times> string \<Rightarrow> string option"

record job_context =
  jc_document :: uuid
  jc_user :: "uuid option"

datatype stage_name = S_EXTRACT | S_PARSE | S_CHUNK | S_CONTEXTUALIZE | S_EMBED | S_INDEX | S_DONE

fun stage_status :: "stage_name \<Rightarrow> string" where
  "stage_status S_EXTRACT = ''extract''"
| "stage_status S_PARSE = ''parse''"
| "stage_status S_CHUNK = ''chunk''"
| "stage_status S_CONTEXTUALIZE = ''contextualize''"
| "stage_status S_EMBED = ''embed''"
| "stage_status S_INDEX = ''index''"
| "stage_status S_DONE = ''done''"

fun stage_progress :: "stage_name \<Rightarrow> int" where
  "stage_progress S_EXTRACT = 10"
| "stage_progress S_PARSE = 28"
| "stage_progress S_CHUNK = 40"
| "stage_progress S_CONTEXTUALIZE = 60"
| "stage_progress S_EMBED = 85"
| "stage_progress S_INDEX = 95"
| "stage_progress S_DONE = 100"

section \<open>Steps\<close>

type_synonym 'a step = "pipeline \<Rightarrow> (string + 'a) \<times> pipeline"

definition try_step :: "'a step \<Rightarrow> ('a \<Rightarrow> 'b step) \<Rightarrow> 'b step" where
  "try_step m f s = (case m s of (Inl e, s') \<Rightarrow> (Inl e, s') | (Inr x, s') \<Rightarrow> f x s')"

definition expect :: "string \<Rightarrow> 'a option \<Rightarrow> string + 'a" where
  "expect msg x = (case x of None \<Rightarrow> Inl msg | Some y \<Rightarrow> Inr y)"

definition on_queue :: "string \<Rightarrow> (queue_state \<Rightarrow> 'a option \<times> queue_state) \<Rightarrow> 'a step" where
  "on_queue msg f s = (let (r, q) = f (queue s) in (expect msg r, s\<lparr>queue := q\<rparr>))"

definition on_tables :: "string \<Rightarrow> (library_db \<Rightarrow> 'a option \<times> library_db) \<Rightarrow> 'a step" where
  "on_tables msg f s = (let (r, db) = f (tables s) in (expect msg r, s\<lparr>tables := db\<rparr>))"

definition stage :: "uuid \<Rightarrow> job_context \<Rightarrow> uuid \<Rightarrow> stage_name \<Rightarrow> unit step" where
  "stage tenant ctx job st s =
     (if is_cancelled tenant job (queue s) = Some True then (Inl ''ingest cancelled by user'', s)
      else on_queue ''publish progress''
        (publish_progress tenant (jc_user ctx) job (stage_status st) (stage_progress st) None) s)"

definition parse_job_context :: "queued_job \<Rightarrow> job_context option" where
  "parse_job_context job =
     (let field = (\<lambda>k. Option.bind (Option.bind (get_key (qj_payload job) k) as_str) parse_uuid)
      in case field ''documentId'' of None \<Rightarrow> None
         | Some doc \<Rightarrow> Some \<lparr>jc_document = doc, jc_user = field ''userId''\<rparr>)"

definition low_conf_threshold :: "environment \<Rightarrow> f64" where
  "low_conf_threshold env = (case Option.bind (var env ''LOW_CONF_THRESHOLD'') (parse_f64 env) of
       None \<Rightarrow> DEFAULT_LOW_CONF_THRESHOLD | Some x \<Rightarrow> x)"

definition parse_max_pages :: "environment \<Rightarrow> nat" where
  "parse_max_pages env = (case Option.bind (var env ''PARSE_MAX_PAGES'') parse_u32 of
       None \<Rightarrow> 40 | Some n \<Rightarrow> if n > 0 then n else 40)"

definition call_parser :: "ingest_env \<Rightarrow> string \<Rightarrow> string \<Rightarrow> parsed_doc option" where
  "call_parser e key bytes =
     accept_json (parser e (last (split_on CHR ''/'' key)) bytes (parse_max_pages (genv (gw e))))"

definition set_doc_status :: "uuid \<Rightarrow> uuid \<Rightarrow> string \<Rightarrow> library_db \<Rightarrow> unit option \<times> library_db" where
  "set_doc_status tenant doc st db =
     (if \<not> db_up db then (None, db)
      else (Some (), db\<lparr>documents := update_where (\<lambda>d. doc_key d = doc \<and> doc_tenant d = tenant)
             (\<lambda>d. d\<lparr>doc_status := st\<rparr>) (documents db)\<rparr>))"

definition mark_document_failed :: "uuid \<Rightarrow> uuid \<Rightarrow> unit step" where
  "mark_document_failed tenant doc = on_tables ''mark document failed'' (set_doc_status tenant doc ''failed'')"

section \<open>Persisting a parsed document\<close>

definition effective_page :: "int \<Rightarrow> int" where
  "effective_page p = (if p \<le> 0 then FALLBACK_PAGE_NO else p)"

definition page_numbers :: "parsed_doc \<Rightarrow> int list" where
  "page_numbers d = remdups_adj (sort
     (fold push_new (map (\<lambda>b. effective_page (pb_page b)) (pd_blocks d)) (map pp_no (pd_pages d))))"

definition blocks_on_page :: "parsed_doc \<Rightarrow> int \<Rightarrow> nat" where
  "blocks_on_page d p = length (filter (\<lambda>b. effective_page (pb_page b) = p) (pd_blocks d))"

definition page_dims :: "parsed_doc \<Rightarrow> int \<Rightarrow> f64 option \<times> f64 option" where
  "page_dims d p = (case map_of (rev (map (\<lambda>x. (pp_no x, (pp_width x, pp_height x))) (pd_pages d))) p of
       None \<Rightarrow> (None, None) | Some wh \<Rightarrow> wh)"

definition needs_review :: "parsed_doc \<Rightarrow> bool" where
  "needs_review d =
     (list_ex (\<lambda>b. pb_page b \<le> 0) (pd_blocks d)
      \<or> pd_total d > int (length (pd_pages d))
      \<or> page_numbers d = []
      \<or> list_ex (\<lambda>p. blocks_on_page d p = 0) (page_numbers d))"

record prepared_block =
  pr_id :: uuid
  pr_page :: int
  pr_kind :: string
  pr_bbox :: "json option"
  pr_order :: int
  pr_content :: string
  pr_table :: "json option"
  pr_confidence :: f64
  pr_status :: string
  pr_figure :: "string option"

record persist_outcome =
  po_pages :: nat
  po_blocks :: nat
  po_chunks :: nat
  po_review :: bool

definition put_object :: "ingest_env \<Rightarrow> string \<Rightarrow> string \<Rightarrow> string \<Rightarrow> pipeline \<Rightarrow> bool \<times> pipeline" where
  "put_object e bucket key bytes s =
     (if put_ok e bucket key then (True, s\<lparr>blobs := (blobs s)((bucket, key) \<mapsto> bytes)\<rparr>) else (False, s))"

definition draw_ids :: "nat \<Rightarrow> pipeline \<Rightarrow> uuid list \<times> pipeline" where
  "draw_ids n s = (let k = row_supply (tables s)
     in ([k..<k + n], s\<lparr>tables := (tables s)\<lparr>row_supply := k + n\<rparr>\<rparr>))"

text \<open>Thumbnails, best effort: a page the document has not, bad base64 or a failed upload is skipped.\<close>

fun upload_thumbs ::
  "ingest_env \<Rightarrow> uuid \<Rightarrow> (int \<Rightarrow> uuid option) \<Rightarrow> parsed_image list \<Rightarrow> (int \<Rightarrow> string option) \<Rightarrow> pipeline
    \<Rightarrow> (int \<Rightarrow> string option) \<times> pipeline" where
  "upload_thumbs e tenant page_ids [] acc s = (acc, s)"
| "upload_thumbs e tenant page_ids (img # imgs) acc s =
     (case page_ids (pi_page img) of
        None \<Rightarrow> upload_thumbs e tenant page_ids imgs acc s
      | Some page_id \<Rightarrow> (case b64_decode e (pi_png img) of
          None \<Rightarrow> upload_thumbs e tenant page_ids imgs acc s
        | Some bytes \<Rightarrow>
            let key = ''thumbs/'' @ show_nat tenant @ ''/'' @ show_nat page_id @ ''.png'';
                (ok, s) = put_object e (bucket_thumbs e) key bytes s
            in upload_thumbs e tenant page_ids imgs (if ok then acc(pi_page img \<mapsto> key) else acc) s))"

definition block_coverage :: "f64 \<Rightarrow> f64 \<Rightarrow> string \<Rightarrow> string" where
  "block_coverage threshold confidence content =
     (if confidence < threshold then ''low_confidence''
      else if trim content \<noteq> [] then ''parsed'' else ''skipped'')"

definition upload_figure ::
  "ingest_env \<Rightarrow> uuid \<Rightarrow> uuid \<Rightarrow> string option \<Rightarrow> pipeline \<Rightarrow> string option \<times> pipeline" where
  "upload_figure e tenant block_id crop s =
     (case Option.bind crop (b64_decode e) of
        None \<Rightarrow> (None, s)
      | Some bytes \<Rightarrow>
          let key = ''figures/'' @ show_nat tenant @ ''/'' @ show_nat block_id @ ''.png'';
              (ok, s) = put_object e (bucket_figures e) key bytes s
          in (if ok then Some key else None, s))"

definition prepare_block ::
  "f64 \<Rightarrow> parsed_block \<Rightarrow> uuid \<Rightarrow> string option \<Rightarrow> prepared_block" where
  "prepare_block threshold b k fig =
     (let confidence = (case pb_confidence b of None \<Rightarrow> 0.9 | Some c \<Rightarrow> c)
      in \<lparr>pr_id = k, pr_page = effective_page (pb_page b), pr_kind = pb_kind b,
          pr_bbox = map_option (\<lambda>xs. JArr (map JFloat xs)) (pb_bbox b), pr_order = pb_order b,
          pr_content = pb_content b,
          pr_table = map_option (\<lambda>md. JObj [(''markdown'', JStr md)]) (pb_table b),
          pr_confidence = confidence, pr_status = block_coverage threshold confidence (pb_content b),
          pr_figure = fig\<rparr>)"

fun prepare_blocks ::
  "ingest_env \<Rightarrow> uuid \<Rightarrow> f64 \<Rightarrow> (parsed_block \<times> uuid) list \<Rightarrow> pipeline \<Rightarrow> prepared_block list \<times> pipeline" where
  "prepare_blocks e tenant threshold [] s = ([], s)"
| "prepare_blocks e tenant threshold ((b, k) # bs) s =
     (let (fig, s) = upload_figure e tenant k (pb_crop b) s;
          (rest, s) = prepare_blocks e tenant threshold bs s
      in (prepare_block threshold b k fig # rest, s))"

text \<open>\<open>UNIQUE (document_id, page_no)\<close> and the foreign key to the document guard the insert.\<close>

definition insert_page :: "page_row \<Rightarrow> library_db \<Rightarrow> library_db option" where
  "insert_page r db =
     (if list_ex (\<lambda>p. page_doc p = page_doc r \<and> page_number p = page_number r) (pages db)
         \<or> \<not> list_ex (\<lambda>d. doc_key d = page_doc r \<and> doc_tenant d = page_tenant r) (documents db)
      then None else Some (db\<lparr>pages := pages db @ [r]\<rparr>))"

fun insert_pages :: "page_row list \<Rightarrow> library_db \<Rightarrow> library_db option" where
  "insert_pages [] db = Some db"
| "insert_pages (r # rs) db = (case insert_page r db of None \<Rightarrow> None | Some db \<Rightarrow> insert_pages rs db)"

definition block_of :: "uuid \<Rightarrow> (int \<Rightarrow> uuid option) \<Rightarrow> prepared_block \<Rightarrow> block_row option" where
  "block_of tenant page_ids b = (case page_ids (pr_page b) of None \<Rightarrow> None
     | Some pg \<Rightarrow> Some \<lparr>block_key = pr_id b, block_tenant = tenant, block_page = pg, block_kind = pr_kind b,
         bbox = pr_bbox b, reading_order = pr_order b, block_text = pr_content b, table_json = pr_table b,
         figure_key = pr_figure b, block_confidence = pr_confidence b, block_status = pr_status b\<rparr>)"

definition page_of ::
  "uuid \<Rightarrow> uuid \<Rightarrow> parsed_doc \<Rightarrow> (int \<Rightarrow> string option) \<Rightarrow> int \<times> uuid \<Rightarrow> page_row" where
  "page_of tenant doc d thumbs pk = (case pk of (p, k) \<Rightarrow>
     \<lparr>page_key = k, page_tenant = tenant, page_doc = doc, page_number = p,
      page_width = fst (page_dims d p), page_height = snd (page_dims d p), thumb_key = thumbs p,
      page_status = (if 0 < blocks_on_page d p then ''parsed'' else ''needs_review'')\<rparr>)"

definition chunk_texts :: "prepared_block \<Rightarrow> string list" where
  "chunk_texts b = (if pr_status b = ''parsed''
     then Chunking.chunk_text (pr_content b) CHUNK_TARGET_CHARS CHUNK_OVERLAP_CHARS else [])"

definition plain_chunk_row :: "uuid \<Rightarrow> string \<Rightarrow> uuid \<Rightarrow> uuid \<Rightarrow> string \<Rightarrow> chunk_row" where
  "plain_chunk_row tenant src k block txt =
     \<lparr>chunk_key = k, chunk_tenant = tenant, vector = None, sparse = None, body = txt,
      contextual_prefix = None, chunk_block = Some block, topic = None, system_tags = None,
      chunk_source = Some src, chunk_date = None, embedded = False\<rparr>"

text \<open>The chunk rows, one per chunk of each block still to be indexed, with database ids.\<close>

definition insert_chunks :: "uuid \<Rightarrow> string \<Rightarrow> prepared_block list \<Rightarrow> library_db \<Rightarrow> library_db" where
  "insert_chunks tenant src bs db =
     (let todo = [(pr_id b, txt). b \<leftarrow> bs, txt \<leftarrow> chunk_texts b]; k = row_supply db
      in db\<lparr>chunks := chunks db @
             map2 (\<lambda>i (b, txt). plain_chunk_row tenant src i b txt) [k..<k + length todo] todo,
            row_supply := k + length todo\<rparr>)"

definition finish_blocks :: "uuid \<Rightarrow> uuid \<Rightarrow> uuid set \<Rightarrow> library_db \<Rightarrow> library_db" where
  "finish_blocks tenant doc chunked db =
     (let mine = (\<lambda>r. block_tenant r = tenant);
          of_doc = (\<lambda>r. list_ex (\<lambda>p. page_key p = block_page r \<and> page_doc p = doc \<and> page_tenant p = tenant) (pages db));
          step1 = update_where (\<lambda>r. mine r \<and> block_key r \<in> chunked \<and> block_status r = ''parsed'')
                    (\<lambda>r. r\<lparr>block_status := ''indexed''\<rparr>) (blocks db)
      in db\<lparr>blocks := update_where (\<lambda>r. mine r \<and> of_doc r \<and> block_status r = ''parsed'')
                    (\<lambda>r. r\<lparr>block_status := ''skipped''\<rparr>) step1\<rparr>)"

definition persist_tx ::
  "uuid \<Rightarrow> uuid \<Rightarrow> string \<Rightarrow> page_row list \<Rightarrow> block_row list \<Rightarrow> prepared_block list
    \<Rightarrow> library_db \<Rightarrow> unit option \<times> library_db" where
  "persist_tx tenant doc src pgs rows bs db =
     (if \<not> db_up db then (None, db)
      else case insert_pages pgs db of None \<Rightarrow> (None, db)
         | Some db1 \<Rightarrow>
             let db2 = db1\<lparr>blocks := blocks db1 @ rows\<rparr>;
                 db3 = insert_chunks tenant src bs db2;
                 chunked = pr_id ` set (filter (\<lambda>b. chunk_texts b \<noteq> []) bs)
             in (Some (), finish_blocks tenant doc chunked db3))"

definition persist ::
  "ingest_env \<Rightarrow> uuid \<Rightarrow> uuid \<Rightarrow> string \<Rightarrow> parsed_doc \<Rightarrow> f64 \<Rightarrow> persist_outcome step" where
  "persist e tenant doc src d threshold s =
     (let nos = page_numbers d;
          (pids, s) = draw_ids (length nos) s;
          page_ids = map_of (zip nos pids);
          (thumbs, s) = upload_thumbs e tenant page_ids (pd_images d) (\<lambda>_. None) s;
          (bids, s) = draw_ids (length (pd_blocks d)) s;
          (bs, s) = prepare_blocks e tenant threshold (zip (pd_blocks d) bids) s;
          rows = List.map_filter (block_of tenant page_ids) bs;
          pgs = map (page_of tenant doc d thumbs) (zip nos pids)
      in try_step (on_tables ''insert page'' (persist_tx tenant doc src pgs rows bs))
           (\<lambda>_ s. (Inr \<lparr>po_pages = length nos,
               po_blocks = length (filter (\<lambda>b. trim (pr_content b) \<noteq> []) bs),
               po_chunks = length (concat (map chunk_texts bs)), po_review = needs_review d\<rparr>, s)) s)"

section \<open>Embedding\<close>

text \<open>
  The pgvector literal of a sparse vector: indices shifted by one, terms out of range or of
  zero weight dropped, sorted by index, one term per index.
\<close>

definition sparse_pairs :: "int list \<times> f64 list \<Rightarrow> nat \<Rightarrow> (nat \<times> f64) list" where
  "sparse_pairs sv dm = List.map_filter
     (\<lambda>(i, v). if i < 0 \<or> v = 0 then None else if nat i + 1 \<le> dm then Some (nat i + 1, v) else None)
     (zip (fst sv) (snd sv))"

fun dedup_by_key :: "(nat \<times> f64) list \<Rightarrow> (nat \<times> f64) list" where
  "dedup_by_key (p # q # ps) = (if fst p = fst q then dedup_by_key (p # ps) else p # dedup_by_key (q # ps))"
| "dedup_by_key ps = ps"

definition sparse_terms :: "int list \<times> f64 list \<Rightarrow> nat \<Rightarrow> (nat \<times> f64) list" where
  "sparse_terms sv dm = dedup_by_key (sort_key fst (sparse_pairs sv dm))"

definition sparsevec_literal :: "(f64 \<Rightarrow> string) \<Rightarrow> int list \<times> f64 list \<Rightarrow> nat \<Rightarrow> string option" where
  "sparsevec_literal show_v sv dm =
     (if sparse_pairs sv dm = [] then None
      else Some (''{'' @ join_str '','' (map (\<lambda>(i, v). show_nat i @ '':'' @ show_v v) (sparse_terms sv dm))
             @ ''}/'' @ show_nat dm))"

definition unembedded_of :: "uuid \<Rightarrow> uuid \<Rightarrow> library_db \<Rightarrow> chunk_row list" where
  "unembedded_of tenant doc db = filter (\<lambda>c. chunk_tenant c = tenant \<and> \<not> embedded c
     \<and> list_ex (\<lambda>b. block_tenant b = tenant \<and> Some (block_key b) = chunk_block c
         \<and> list_ex (\<lambda>p. page_tenant p = tenant \<and> page_key p = block_page b \<and> page_doc p = doc) (pages db))
       (blocks db)) (chunks db)"

function batches :: "nat \<Rightarrow> 'a list \<Rightarrow> 'a list list" where
  "batches n xs = (if n = 0 \<or> xs = [] then [] else take n xs # batches n (drop n xs))"
  by auto
termination by (relation "measure (\<lambda>(n, xs). length xs)") auto

declare batches.simps [simp del]

text \<open>
  One chunk: the contextual prefix while a provider is available and the document's cap is not
  reached, then the update, which the column type refuses for a vector of the wrong dimension.
  \<open>n\<close> is the number of prefixes generated so far.
\<close>

definition chunk_prefix ::
  "ingest_env \<Rightarrow> uuid \<Rightarrow> string \<Rightarrow> bool \<Rightarrow> nat \<Rightarrow> string \<Rightarrow> llm_state \<Rightarrow> (string option \<times> nat) \<times> llm_state" where
  "chunk_prefix e tenant title available n txt l =
     (if available \<and> n < CONTEXTUAL_MAX_CHUNKS
      then case contextual_prefix_of (gw e) tenant title txt l of
             (Some (Some p), l) \<Rightarrow> ((Some p, n + 1), l)
           | (_, l) \<Rightarrow> ((None, n), l)
      else ((None, n), l))"

definition embed_row :: "f64 list \<Rightarrow> string option \<Rightarrow> string option \<Rightarrow> chunk_row \<Rightarrow> chunk_row" where
  "embed_row vec sp pfx c = c\<lparr>vector := Some vec, sparse := sp,
     contextual_prefix := (case pfx of Some p \<Rightarrow> Some p | None \<Rightarrow> contextual_prefix c), embedded := True\<rparr>"

fun embed_rows ::
  "ingest_env \<Rightarrow> uuid \<Rightarrow> string \<Rightarrow> bool \<Rightarrow> nat \<Rightarrow> (chunk_row \<times> f64 list \<times> string option) list
    \<Rightarrow> chunk_row list \<Rightarrow> llm_state \<Rightarrow> (chunk_row list option \<times> nat) \<times> llm_state" where
  "embed_rows e tenant title available n [] rows l = ((Some rows, n), l)"
| "embed_rows e tenant title available n ((c, vec, sp) # rest) rows l =
     (let ((pfx, n), l) = chunk_prefix e tenant title available n (body c) l
      in if length vec \<noteq> CHUNK_DIM then ((None, n), l)
         else embed_rows e tenant title available n rest
           (update_where (\<lambda>r. chunk_key r = chunk_key c \<and> chunk_tenant r = tenant) (embed_row vec sp pfx) rows) l)"

definition sparse_literals :: "ingest_env \<Rightarrow> string list \<Rightarrow> string option list" where
  "sparse_literals e texts =
     (let sv = (case embed_sparse (svc e) texts of Some xs \<Rightarrow> xs | None \<Rightarrow> [])
      in map (\<lambda>i. if i < length sv then sparsevec_literal (show_f32 e) (sv ! i) SPARSE_DIM else None)
           [0..<length texts])"

definition embed_batch ::
  "ingest_env \<Rightarrow> uuid \<Rightarrow> string \<Rightarrow> bool \<Rightarrow> nat \<Rightarrow> chunk_row list \<Rightarrow> nat step" where
  "embed_batch e tenant title available n batch s =
     (let texts = map body batch
      in case embed_dense (svc e) texts False of
           None \<Rightarrow> (Inl ''dense embedding batch'', s)
         | Some dense \<Rightarrow>
             if length dense \<noteq> length batch then (Inl ''dense batch size mismatch'', s)
             else if \<not> db_up (tables s) then (Inl ''begin'', s)
             else case embed_rows e tenant title available n (zip batch (zip dense (sparse_literals e texts)))
                         (chunks (tables s)) (llm s) of
                 ((None, n), l) \<Rightarrow> (Inl ''update chunk embedding'', s\<lparr>llm := l\<rparr>)
               | ((Some rows, n), l) \<Rightarrow> (Inr n, s\<lparr>llm := l, tables := (tables s)\<lparr>chunks := rows\<rparr>\<rparr>))"

fun embed_batches ::
  "ingest_env \<Rightarrow> uuid \<Rightarrow> string \<Rightarrow> bool \<Rightarrow> nat \<Rightarrow> chunk_row list list \<Rightarrow> nat step" where
  "embed_batches e tenant title available n [] s = (Inr 0, s)"
| "embed_batches e tenant title available n (b # bs) s =
     try_step (embed_batch e tenant title available n b)
       (\<lambda>n. try_step (embed_batches e tenant title available n bs) (\<lambda>k s. (Inr (length b + k), s))) s"

definition embed_document :: "ingest_env \<Rightarrow> uuid \<Rightarrow> uuid \<Rightarrow> nat step" where
  "embed_document e tenant doc s =
     (if \<not> db_up (tables s) then (Inl ''begin'', s)
      else let title = (case find (\<lambda>d. doc_key d = doc \<and> doc_tenant d = tenant) (documents (tables s)) of
                          Some d \<Rightarrow> doc_title d | None \<Rightarrow> []);
               todo = unembedded_of tenant doc (tables s)
           in if todo = [] then (Inr 0, s)
              else embed_batches e tenant title (provider_available (gw e) tenant (llm s)) 0
                     (batches EMBED_BATCH todo) s)"

section \<open>The pipeline\<close>

definition load_document :: "uuid \<Rightarrow> uuid \<Rightarrow> (string \<times> string) step" where
  "load_document tenant doc s =
     (if \<not> db_up (tables s) then (Inl ''load document for ingest'', s)
      else (expect ''document not found'' (map_option (\<lambda>d. (storage_key d, source_type d))
              (find (\<lambda>d. doc_key d = doc \<and> doc_tenant d = tenant) (documents (tables s)))), s))"

definition fetch_bytes :: "ingest_env \<Rightarrow> string \<Rightarrow> string step" where
  "fetch_bytes e key s = (expect ''fetch document bytes'' (blobs s (bucket_documents e, key)), s)"

definition run_parser :: "ingest_env \<Rightarrow> string \<Rightarrow> string \<Rightarrow> parsed_doc step" where
  "run_parser e key bytes s =
     (case call_parser e key bytes of None \<Rightarrow> (Inl ''parser-svc'', s)
      | Some d \<Rightarrow> if pd_pages d = [] \<and> pd_blocks d = [] then (Inl ''parser returned no pages and no blocks'', s)
                  else (Inr d, s))"

text \<open>Embedding failures are swallowed into a flag.\<close>

definition embed_flag :: "ingest_env \<Rightarrow> uuid \<Rightarrow> uuid \<Rightarrow> bool step" where
  "embed_flag e tenant doc s = (case embed_document e tenant doc s of
       (Inr _, s) \<Rightarrow> (Inr True, s) | (Inl _, s) \<Rightarrow> (Inr False, s))"

definition auto_chain :: "ingest_env \<Rightarrow> uuid \<Rightarrow> job_context \<Rightarrow> unit step" where
  "auto_chain e tenant ctx s =
     (let (cfg, st) = resolve_org (genv (gw e)) tenant (settings (llm s));
          s = s\<lparr>llm := (llm s)\<lparr>settings := st\<rparr>\<rparr>;
          auto = (case cfg of Some c \<Rightarrow> org_bool c ''autoSsotTopics'' True | None \<Rightarrow> False);
          payload = JObj [(''documentId'', JStr (show_nat (jc_document ctx))),
             (''userId'', case jc_user ctx of Some u \<Rightarrow> JStr (show_nat u) | None \<Rightarrow> JNull)]
      in (Inr (), if auto then s\<lparr>queue := snd (enqueue (codec_of e) ''knowledge_build'' tenant payload (queue s))\<rparr>
                  else s))"

definition final_status :: "persist_outcome \<Rightarrow> bool \<Rightarrow> string" where
  "final_status out embed_ok = (if po_review out \<or> \<not> embed_ok then ''needs_review'' else ''indexed'')"

definition ingest_inner :: "ingest_env \<Rightarrow> uuid \<Rightarrow> uuid \<Rightarrow> job_context \<Rightarrow> unit step" where
  "ingest_inner e tenant job ctx =
     try_step (load_document tenant (jc_document ctx)) (\<lambda>(key, src).
     try_step (stage tenant ctx job S_EXTRACT) (\<lambda>_.
     try_step (fetch_bytes e key) (\<lambda>bytes.
     try_step (stage tenant ctx job S_PARSE) (\<lambda>_.
     try_step (run_parser e key bytes) (\<lambda>d.
     try_step (stage tenant ctx job S_CHUNK) (\<lambda>_.
     try_step (persist e tenant (jc_document ctx) src d (low_conf_threshold (genv (gw e)))) (\<lambda>out.
     try_step (stage tenant ctx job S_CONTEXTUALIZE) (\<lambda>_.
     try_step (embed_flag e tenant (jc_document ctx)) (\<lambda>embed_ok.
     try_step (stage tenant ctx job S_EMBED) (\<lambda>_.
     try_step (stage tenant ctx job S_INDEX) (\<lambda>_.
     try_step (on_tables ''update document final status''
        (set_doc_status tenant (jc_document ctx) (final_status out embed_ok))) (\<lambda>_.
     try_step (stage tenant ctx job S_DONE) (\<lambda>_.
       if final_status out embed_ok = ''indexed'' then auto_chain e tenant ctx
       else (\<lambda>s. (Inr (), s)))))))))))))))"

definition ingest_failed :: "uuid \<Rightarrow> uuid \<Rightarrow> job_context \<Rightarrow> string \<Rightarrow> pipeline \<Rightarrow> pipeline" where
  "ingest_failed tenant job ctx msg s =
     (let s = snd (mark_document_failed tenant (jc_document ctx) s)
      in snd (on_queue ''publish'' (publish_progress tenant (jc_user ctx) job ''failed'' 0 (Some msg)) s))"

definition run_ingest :: "ingest_env \<Rightarrow> queued_job \<Rightarrow> unit step" where
  "run_ingest e job s =
     (case parse_job_context job of
        None \<Rightarrow> (Inl ''ingest job payload missing/invalid documentId'', s)
      | Some ctx \<Rightarrow>
          (case ingest_inner e (qj_tenant job) (qj_id job) ctx s of
             (Inr _, s) \<Rightarrow> (Inr (), s)
           | (Inl msg, s) \<Rightarrow> (Inl msg, ingest_failed (qj_tenant job) (qj_id job) ctx msg s)))"

section \<open>Frames\<close>

lemma try_step_Inr:
  "try_step m f s = (Inr x, s'') \<Longrightarrow> \<exists>y s'. m s = (Inr y, s') \<and> f y s' = (Inr x, s'')"
  by (auto simp: try_step_def split: prod.splits sum.splits)

lemma upload_thumbs_frame:
  "upload_thumbs e t ids imgs acc s = (acc', s') \<Longrightarrow> tables s' = tables s \<and> queue s' = queue s \<and> llm s' = llm s"
proof (induction imgs arbitrary: acc s)
  case (Cons img imgs)
  consider (skip) "upload_thumbs e t ids imgs acc s = (acc', s')"
    | (put) acc1 s1 where "upload_thumbs e t ids imgs acc1 s1 = (acc', s')"
        "tables s1 = tables s \<and> queue s1 = queue s \<and> llm s1 = llm s"
  proof (cases "ids (pi_page img)")
    case None
    with Cons.prems skip show ?thesis by simp
  next
    case id: (Some page_id)
    show ?thesis
    proof (cases "b64_decode e (pi_png img)")
      case None
      with Cons.prems id skip show ?thesis by simp
    next
      case (Some bytes)
      obtain ok s1 where p: "put_object e (bucket_thumbs e)
          (''thumbs/'' @ show_nat t @ ''/'' @ show_nat page_id @ ''.png'') bytes s = (ok, s1)"
        by (meson surj_pair)
      then have "tables s1 = tables s \<and> queue s1 = queue s \<and> llm s1 = llm s"
        by (auto simp: put_object_def split: if_splits)
      with Cons.prems id Some p put show ?thesis by (simp add: Let_def)
    qed
  qed
  then show ?case using Cons.IH by cases simp_all
qed simp

lemma upload_figure_frame:
  "upload_figure e t k c s = (f, s') \<Longrightarrow> tables s' = tables s \<and> queue s' = queue s \<and> llm s' = llm s"
  by (auto simp: upload_figure_def put_object_def Let_def split: option.splits if_splits)

lemma prepare_blocks_effect:
  "prepare_blocks e t thr bks s = (bs, s') \<Longrightarrow>
    tables s' = tables s \<and> queue s' = queue s \<and> llm s' = llm s
    \<and> length bs = length bks
    \<and> (\<forall>i < length bks. \<exists>fig. bs ! i = prepare_block thr (fst (bks ! i)) (snd (bks ! i)) fig)"
proof (induction bks arbitrary: bs s s')
  case (Cons bk bks)
  obtain b k where bk: "bk = (b, k)" by (cases bk)
  obtain fig s1 where f: "upload_figure e t k (pb_crop b) s = (fig, s1)" by (meson surj_pair)
  obtain rest s2 where r: "prepare_blocks e t thr bks s1 = (rest, s2)" by (meson surj_pair)
  have res: "bs = prepare_block thr b k fig # rest" "s' = s2"
    using Cons.prems f r by (simp_all add: bk)
  from Cons.IH [OF r] upload_figure_frame [OF f] res show ?case
    by (auto simp: bk nth_Cons split: nat.splits)
qed simp

lemma prepare_block_simps [simp]:
  "pr_id (prepare_block thr b k fig) = k" "pr_page (prepare_block thr b k fig) = effective_page (pb_page b)"
  "pr_content (prepare_block thr b k fig) = pb_content b"
  "pr_status (prepare_block thr b k fig) =
     block_coverage thr (case pb_confidence b of None \<Rightarrow> 0.9 | Some c \<Rightarrow> c) (pb_content b)"
  by (simp_all add: prepare_block_def Let_def)

lemma insert_pages_effect:
  "insert_pages rs db = Some db' \<Longrightarrow> pages db' = pages db @ rs \<and> blocks db' = blocks db \<and> chunks db' = chunks db
    \<and> documents db' = documents db \<and> row_supply db' = row_supply db \<and> db_up db' = db_up db"
  by (induction rs arbitrary: db) (auto simp: insert_page_def split: option.splits if_splits)

lemma page_numbers_set:
  "set (page_numbers d) = pp_no ` set (pd_pages d) \<union> effective_page ` pb_page ` set (pd_blocks d)"
  by (auto simp: page_numbers_def fold_push_new)

lemma strict_remdups_adj: "sorted (xs :: int list) \<Longrightarrow> sorted_wrt (<) (remdups_adj xs)"
proof (induction xs rule: remdups_adj.induct)
  case (3 x y xs)
  then show ?case by (cases "x = y") (auto simp: order_le_less)
qed simp_all

lemma page_numbers_distinct: "sorted_wrt (<) (page_numbers d)"
  unfolding page_numbers_def by (rule strict_remdups_adj) simp

text \<open>The last state a block row reaches in the transaction.\<close>

definition finish_row :: "uuid \<Rightarrow> uuid \<Rightarrow> uuid set \<Rightarrow> page_row list \<Rightarrow> block_row \<Rightarrow> block_row" where
  "finish_row tenant doc chunked pgs r =
     (if block_tenant r = tenant \<and> block_status r = ''parsed''
      then if block_key r \<in> chunked then r\<lparr>block_status := ''indexed''\<rparr>
           else if list_ex (\<lambda>p. page_key p = block_page r \<and> page_doc p = doc \<and> page_tenant p = tenant) pgs
           then r\<lparr>block_status := ''skipped''\<rparr> else r
      else r)"

lemma finish_blocks_map:
  "finish_blocks tenant doc chunked db = db\<lparr>blocks := map (finish_row tenant doc chunked (pages db)) (blocks db)\<rparr>"
  by (auto simp: finish_blocks_def Let_def update_where_def finish_row_def)

lemma finish_row_simps [simp]:
  "block_key (finish_row t doc ch pgs r) = block_key r" "block_text (finish_row t doc ch pgs r) = block_text r"
  "block_tenant (finish_row t doc ch pgs r) = block_tenant r" "block_page (finish_row t doc ch pgs r) = block_page r"
  by (auto simp: finish_row_def)

section \<open>Every block is accounted for\<close>

text \<open>What becomes of a parsed block: its final status and the bodies of its chunks.\<close>

definition confidence_of :: "parsed_block \<Rightarrow> f64" where
  "confidence_of b = (case pb_confidence b of None \<Rightarrow> 0.9 | Some c \<Rightarrow> c)"

definition expected_chunks :: "f64 \<Rightarrow> parsed_block \<Rightarrow> string list" where
  "expected_chunks thr b = (if confidence_of b < thr \<or> trim (pb_content b) = [] then []
     else Chunking.chunk_text (pb_content b) CHUNK_TARGET_CHARS CHUNK_OVERLAP_CHARS)"

definition expected_status :: "f64 \<Rightarrow> parsed_block \<Rightarrow> string" where
  "expected_status thr b = (if confidence_of b < thr then ''low_confidence''
     else if expected_chunks thr b = [] then ''skipped'' else ''indexed'')"

lemma chunk_texts_prepare:
  "chunk_texts (prepare_block thr b k fig) = expected_chunks thr b"
  by (simp add: chunk_texts_def expected_chunks_def block_coverage_def confidence_of_def)

lemma filter_map2_chunks:
  "length ks = length todo \<Longrightarrow>
    map body (filter (\<lambda>c. chunk_block c = Some k) (map2 (\<lambda>i (b, txt). plain_chunk_row t src i b txt) ks todo)) =
      map snd (filter (\<lambda>p. fst p = k) todo)"
  by (induction ks todo rule: list_induct2) (auto simp: plain_chunk_row_def)

lemma filter_concat_id:
  "distinct (map f bs) \<Longrightarrow> b \<in> set bs \<Longrightarrow>
    map snd (filter (\<lambda>p. fst p = f b) [(f b, x). b \<leftarrow> bs, x \<leftarrow> g b]) = g b"
proof (induction bs)
  case (Cons c bs)
  have other: "filter (\<lambda>p. fst p = f b) [(f b, x). b \<leftarrow> bs, x \<leftarrow> g b] = []" if "f b \<notin> f ` set bs"
    using that by (induction bs) auto
  have one: "filter (\<lambda>p. fst p = f b) (map (\<lambda>x. (f c, x)) (g c)) =
      (if f c = f b then map (\<lambda>x. (f c, x)) (g c) else [])"
    by (induction "g c") auto
  show ?case
  proof (cases "b = c")
    case True
    with Cons.prems other one show ?thesis by (simp add: o_def)
  next
    case False
    with Cons.prems have "f c \<noteq> f b" "b \<in> set bs" by auto
    with Cons one show ?thesis by simp
  qed
qed simp

definition ids_below_supply :: "library_db \<Rightarrow> bool" where
  "ids_below_supply db =
     ((\<forall>c \<in> set (chunks db). \<forall>k. chunk_block c = Some k \<longrightarrow> k < row_supply db)
      \<and> (\<forall>p \<in> set (pages db). page_key p < row_supply db))"

lemma draw_ids_effect:
  "draw_ids n s = (ks, s') \<Longrightarrow> ks = [row_supply (tables s)..<row_supply (tables s) + n]
    \<and> tables s' = (tables s)\<lparr>row_supply := row_supply (tables s) + n\<rparr> \<and> queue s' = queue s \<and> llm s' = llm s"
  by (auto simp: draw_ids_def Let_def)

text \<open>The parts of a persist, named: the identifiers drawn, the prepared blocks, the transaction.\<close>

lemma persist_parts:
  assumes "persist e t doc src d thr s = (r, s')"
  obtains pids bids thumbs bs s1 where
    "pids = [row_supply (tables s)..<row_supply (tables s) + length (page_numbers d)]"
    "bids = [row_supply (tables s) + length (page_numbers d)..<
             row_supply (tables s) + length (page_numbers d) + length (pd_blocks d)]"
    "tables s1 = (tables s)\<lparr>row_supply := row_supply (tables s) + length (page_numbers d) + length (pd_blocks d)\<rparr>"
    "queue s1 = queue s" "llm s1 = llm s"
    "length bs = length (pd_blocks d)"
    "\<And>i. i < length bs \<Longrightarrow> \<exists>fig. bs ! i = prepare_block thr (pd_blocks d ! i) (bids ! i) fig"
    "try_step (on_tables ''insert page'' (persist_tx t doc src
        (map (page_of t doc d thumbs) (zip (page_numbers d) pids))
        (List.map_filter (block_of t (map_of (zip (page_numbers d) pids))) bs) bs))
      (\<lambda>_ s. (Inr \<lparr>po_pages = length (page_numbers d),
         po_blocks = length (filter (\<lambda>b. trim (pr_content b) \<noteq> []) bs),
         po_chunks = length (concat (map chunk_texts bs)), po_review = needs_review d\<rparr>, s)) s1 = (r, s')"
proof -
  obtain pids sa where a: "draw_ids (length (page_numbers d)) s = (pids, sa)" by (meson surj_pair)
  obtain thumbs sb where b: "upload_thumbs e t (map_of (zip (page_numbers d) pids)) (pd_images d) (\<lambda>_. None) sa = (thumbs, sb)"
    by (meson surj_pair)
  obtain bids sc where c: "draw_ids (length (pd_blocks d)) sb = (bids, sc)" by (meson surj_pair)
  obtain bs sd where dd: "prepare_blocks e t thr (zip (pd_blocks d) bids) sc = (bs, sd)" by (meson surj_pair)
  note ea = draw_ids_effect [OF a] and eb = upload_thumbs_frame [OF b] and ec = draw_ids_effect [OF c]
    and ed = prepare_blocks_effect [OF dd]
  have len: "length bids = length (pd_blocks d)" using ec by simp
  show thesis
  proof (rule that [of pids bids sd bs thumbs])
    show "\<exists>fig. bs ! i = prepare_block thr (pd_blocks d ! i) (bids ! i) fig" if "i < length bs" for i
      using ed that len by auto
  qed (use assms a b c dd ea eb ec ed len in \<open>simp_all add: persist_def Let_def\<close>)
qed

lemma block_of_Some:
  assumes "pr_page b \<in> set nos" "length pids = length nos"
  shows "\<exists>pg. map_of (zip nos pids) (pr_page b) = Some pg \<and> (pr_page b, pg) \<in> set (zip nos pids)
    \<and> block_of t (map_of (zip nos pids)) b = Some \<lparr>block_key = pr_id b, block_tenant = t, block_page = pg,
        block_kind = pr_kind b, bbox = pr_bbox b, reading_order = pr_order b, block_text = pr_content b,
        table_json = pr_table b, figure_key = pr_figure b, block_confidence = pr_confidence b, block_status = pr_status b\<rparr>"
proof -
  have "pr_page b \<in> set (map fst (zip nos pids))" using assms by simp
  then obtain pg where "map_of (zip nos pids) (pr_page b) = Some pg"
    by (metis map_of_eq_None_iff not_None_eq list.set_map)
  with map_of_SomeD show ?thesis by (fastforce simp: block_of_def)
qed

lemma map_filter_all: "(\<And>x. x \<in> set xs \<Longrightarrow> f x \<noteq> None) \<Longrightarrow> List.map_filter f xs = map (\<lambda>x. the (f x)) xs"
  by (induction xs) (auto simp: List.map_filter_def)

text \<open>What a successful persist has written, table by table.\<close>

lemma persist_writes:
  assumes "persist e t doc src d thr s = (Inr out, s')"
  obtains pids bids thumbs bs and n :: nat where
    "length pids = length (page_numbers d)"
    "bids = [row_supply (tables s) + length (page_numbers d)..<
             row_supply (tables s) + length (page_numbers d) + length (pd_blocks d)]"
    "length bs = length (pd_blocks d)"
    "\<forall>i < length bs. \<exists>fig. bs ! i = prepare_block thr (pd_blocks d ! i) (bids ! i) fig"
    "pages (tables s') = pages (tables s) @ map (page_of t doc d thumbs) (zip (page_numbers d) pids)"
    "blocks (tables s') = map (finish_row t doc (pr_id ` set (filter (\<lambda>b. chunk_texts b \<noteq> []) bs)) (pages (tables s')))
      (blocks (tables s) @ List.map_filter (block_of t (map_of (zip (page_numbers d) pids))) bs)"
    "chunks (tables s') = chunks (tables s) @ map2 (\<lambda>i (b, txt). plain_chunk_row t src i b txt)
        [n..<n + length [(pr_id b, txt). b \<leftarrow> bs, txt \<leftarrow> chunk_texts b]]
        [(pr_id b, txt). b \<leftarrow> bs, txt \<leftarrow> chunk_texts b]"
proof -
  obtain pids bids thumbs bs s1 where parts:
    "pids = [row_supply (tables s)..<row_supply (tables s) + length (page_numbers d)]"
    "bids = [row_supply (tables s) + length (page_numbers d)..<
             row_supply (tables s) + length (page_numbers d) + length (pd_blocks d)]"
    "tables s1 = (tables s)\<lparr>row_supply := row_supply (tables s) + length (page_numbers d) + length (pd_blocks d)\<rparr>"
    "length bs = length (pd_blocks d)"
    and prep: "\<And>i. i < length bs \<Longrightarrow> \<exists>fig. bs ! i = prepare_block thr (pd_blocks d ! i) (bids ! i) fig"
    and tx: "try_step (on_tables ''insert page'' (persist_tx t doc src
        (map (page_of t doc d thumbs) (zip (page_numbers d) pids))
        (List.map_filter (block_of t (map_of (zip (page_numbers d) pids))) bs) bs))
      (\<lambda>_ s. (Inr \<lparr>po_pages = length (page_numbers d),
         po_blocks = length (filter (\<lambda>b. trim (pr_content b) \<noteq> []) bs),
         po_chunks = length (concat (map chunk_texts bs)), po_review = needs_review d\<rparr>, s)) s1 = (Inr out, s')"
    by (rule persist_parts [OF assms]) (rule that; assumption)
  let ?pgs = "map (page_of t doc d thumbs) (zip (page_numbers d) pids)"
  let ?rows = "List.map_filter (block_of t (map_of (zip (page_numbers d) pids))) bs"
  let ?ch = "pr_id ` set (filter (\<lambda>b. chunk_texts b \<noteq> []) bs)"
  obtain db1 where ins: "insert_pages ?pgs (tables s1) = Some db1"
    and fin: "tables s' = finish_blocks t doc ?ch (insert_chunks t src bs (db1\<lparr>blocks := blocks db1 @ ?rows\<rparr>))"
    using tx by (auto simp: try_step_def on_tables_def persist_tx_def expect_def Let_def split: if_splits option.splits)
  note pg = insert_pages_effect [OF ins]
  have tabs: "pages (tables s') = pages db1" "blocks (tables s') = map (finish_row t doc ?ch (pages db1)) (blocks db1 @ ?rows)"
    "chunks (tables s') = chunks db1 @ map2 (\<lambda>i (b, txt). plain_chunk_row t src i b txt)
        [row_supply db1..<row_supply db1 + length [(pr_id b, txt). b \<leftarrow> bs, txt \<leftarrow> chunk_texts b]]
        [(pr_id b, txt). b \<leftarrow> bs, txt \<leftarrow> chunk_texts b]"
    unfolding fin finish_blocks_map insert_chunks_def by (simp_all add: Let_def)
  show ?thesis
    by (rule that [of pids bids bs thumbs "row_supply db1"]) (use parts prep tabs pg in simp_all)
qed

lemma block_page_listed:
  assumes "b = prepare_block thr (pd_blocks d ! j) k fig" "j < length (pd_blocks d)"
  shows "pr_page b \<in> set (page_numbers d)"
proof -
  have "pr_page b = effective_page (pb_page (pd_blocks d ! j))" by (simp add: assms(1))
  moreover have "pd_blocks d ! j \<in> set (pd_blocks d)" using assms(2) by simp
  ultimately show ?thesis unfolding page_numbers_set by blast
qed

lemma own_chunks:
  assumes "distinct (map pr_id bs)" "b \<in> set bs" "\<forall>c \<in> set old. chunk_block c \<noteq> Some (pr_id b)"
  shows "map body (filter (\<lambda>c. chunk_block c = Some (pr_id b)) (old @ map2 (\<lambda>i (b, txt). plain_chunk_row t src i b txt)
        [n..<n + length [(pr_id b, txt). b \<leftarrow> bs, txt \<leftarrow> chunk_texts b]] [(pr_id b, txt). b \<leftarrow> bs, txt \<leftarrow> chunk_texts b])) = chunk_texts b"
proof -
  have none: "filter (\<lambda>c. chunk_block c = Some (pr_id b)) old = []" using assms(3) by (auto simp: filter_empty_conv)
  show ?thesis unfolding filter_append none by (simp add: filter_map2_chunks filter_concat_id [OF assms(1,2)])
qed

lemma chunked_ids:
  assumes "distinct (map pr_id bs)" "b \<in> set bs"
  shows "pr_id b \<in> pr_id ` set (filter (\<lambda>b. chunk_texts b \<noteq> []) bs) \<longleftrightarrow> chunk_texts b \<noteq> []"
  using assms by (auto dest: inj_onD simp: distinct_map)

lemma finished_status:
  assumes "b = prepare_block thr x k fig" "k \<in> ch \<longleftrightarrow> expected_chunks thr x \<noteq> []" "block_of t m b = Some r"
    and "list_ex (\<lambda>q. page_key q = block_page r \<and> page_doc q = doc \<and> page_tenant q = t) pgs"
  shows "block_status (finish_row t doc ch pgs r) = expected_status thr x"
proof -
  have f: "block_key r = k" "block_tenant r = t" "block_status r = pr_status b"
    using assms(1,3) by (auto simp: block_of_def split: option.splits)
  have "pr_status b = (if confidence_of x < thr then ''low_confidence'' else if trim (pb_content x) \<noteq> [] then ''parsed'' else ''skipped'')"
    by (simp add: assms(1) block_coverage_def confidence_of_def)
  then show ?thesis
    using assms(2,4) f by (auto simp: finish_row_def expected_status_def expected_chunks_def)
qed


definition one_block :: parsed_doc where
  "one_block = \<lparr>pd_pages = [\<lparr>pp_no = 1, pp_width = None, pp_height = None\<rparr>],
     pd_blocks = [\<lparr>pb_kind = ''text'', pb_page = 0, pb_order = 0, pb_content = ''Heart.'', pb_bbox = None,
        pb_confidence = None, pb_table = None, pb_crop = None\<rparr>],
     pd_images = [], pd_total = 1\<rparr>"

definition plain_ingest :: ingest_env where
  "plain_ingest = \<lparr>gw = plain_gateway kek_env, svc = plain_services, codec_of = plain_codec,
     b64_decode = (\<lambda>_. None), put_ok = (\<lambda>_ _. True), parser = (\<lambda>_ _ _. Some (200, Some one_block)),
     show_f32 = (\<lambda>_. ''1''), bucket_documents = ''documents'', bucket_thumbs = ''thumbs'',
     bucket_figures = ''figures''\<rparr>"

definition uploaded :: document_row where
  "uploaded = \<lparr>doc_key = 3, doc_tenant = 5, storage_key = ''5/a.pdf'', sha256 = ''00'', doc_title = ''A'',
     source_type = ''upload'', doc_owner = None, doc_course = None, doc_folder = None, doc_status = ''pending''\<rparr>"

definition ingest_start :: pipeline where
  "ingest_start = \<lparr>queue = idle_queue\<lparr>jobs := [queued_row 1 ''ingest'' 5 JNull 0], job_supply := 2\<rparr>,
     tables = (library_of [])\<lparr>documents := [uploaded]\<rparr>, llm = fresh_llm,
     blobs = [(''documents'', ''5/a.pdf'') \<mapsto> ''bytes'']\<rparr>"

lemma one_block_pages: "page_numbers one_block = [1]"
  by (simp add: page_numbers_def one_block_def effective_page_def FALLBACK_PAGE_NO_def push_new_def)

lemma persist_one_block:
  "\<exists>out s'. persist plain_ingest 5 3 ''upload'' one_block (2 / 5) ingest_start = (Inr out, s')"
  unfolding persist_def one_block_pages
  by (simp add: draw_ids_def one_block_def upload_figure_def block_of_def page_of_def Let_def try_step_def
      on_tables_def persist_tx_def expect_def insert_page_def ingest_start_def library_of_def uploaded_def)


section \<open>A second ingest of the same document\<close>

text \<open>\<open>ensures P m Q\<close>: from a state in \<open>P\<close>, success leads to \<open>Q\<close> and failure to \<open>E\<close>.\<close>

definition ensures :: "(pipeline \<Rightarrow> bool) \<Rightarrow> (pipeline \<Rightarrow> bool) \<Rightarrow> 'a step \<Rightarrow> ('a \<Rightarrow> pipeline \<Rightarrow> bool) \<Rightarrow> bool" where
  "ensures E P m Q = (\<forall>s. P s \<longrightarrow> (case m s of (Inr x, s') \<Rightarrow> Q x s' | (Inl _, s') \<Rightarrow> E s'))"

lemma ensures_try:
  "ensures E P m Q \<Longrightarrow> (\<And>x. ensures E (Q x) (f x) R) \<Longrightarrow> ensures E P (try_step m f) R"
  unfolding ensures_def try_step_def by (fastforce split: prod.splits sum.splits)

lemma ensures_weaken:
  "ensures E P m Q \<Longrightarrow> (\<And>s. P' s \<Longrightarrow> P s) \<Longrightarrow> (\<And>x s. Q x s \<Longrightarrow> Q' x s) \<Longrightarrow> ensures E P' m Q'"
  unfolding ensures_def by (fastforce split: prod.splits sum.splits)

lemma ensuresD:
  "ensures E P m Q \<Longrightarrow> P s \<Longrightarrow> m s = (r, s') \<Longrightarrow> (case r of Inr x \<Rightarrow> Q x s' | Inl _ \<Rightarrow> E s')"
  unfolding ensures_def by (auto split: sum.splits)

lemma publish_progress_effect:
  assumes "publish_progress t u k st pr er q = (r, q')"
  shows "pg_up q' = pg_up q \<and> job_supply q' = job_supply q
    \<and> jobs q' = (if pg_up q then jobs (set_job t k st pr er q) else jobs q)"
proof (cases "pg_up q")
  case False
  with assms show ?thesis by (simp add: publish_progress_def)
next
  case True
  let ?q = "set_job t k st pr er q"
  from assms True have "seq (publish_to (map_option show_nat u) (job_event k st pr er))
      (\<lambda>_. publish (tenant_channel t) (job_event k st pr er)) ?q = (r, q')"
    by (simp add: publish_progress_def Let_def)
  moreover have "pg_up ?q = pg_up q" "job_supply ?q = job_supply q" by (simp_all add: set_job_def)
  ultimately show ?thesis
    using True by (auto dest!: seq_cases publish_to_same publish_same simp: same_stream_def)
qed

definition alive :: "uuid \<Rightarrow> pipeline \<Rightarrow> bool" where
  "alive k s = (db_up (tables s) \<and> pg_up (queue s) \<and> k < job_supply (queue s))"

lemma stage_tables: "stage t ctx k st s = (r, s') \<Longrightarrow> tables s' = tables s \<and> llm s' = llm s \<and> blobs s' = blobs s"
  by (auto simp: stage_def on_queue_def split: if_splits prod.splits)

lemma stage_alive: "stage t ctx k st s = (r, s') \<Longrightarrow> alive j s \<Longrightarrow> alive j s'"
  by (auto simp: stage_def on_queue_def alive_def dest!: publish_progress_effect split: if_splits prod.splits)

lemma persist_alive:
  assumes "persist e t doc src d thr s = (r, s')" "alive j s"
  shows "alive j s'"
proof -
  obtain pids bids thumbs bs s1 where parts:
    "tables s1 = (tables s)\<lparr>row_supply := row_supply (tables s) + length (page_numbers d) + length (pd_blocks d)\<rparr>"
    "queue s1 = queue s"
    and tx: "try_step (on_tables ''insert page'' (persist_tx t doc src
        (map (page_of t doc d thumbs) (zip (page_numbers d) pids))
        (List.map_filter (block_of t (map_of (zip (page_numbers d) pids))) bs) bs))
      (\<lambda>_ s. (Inr \<lparr>po_pages = length (page_numbers d),
         po_blocks = length (filter (\<lambda>b. trim (pr_content b) \<noteq> []) bs),
         po_chunks = length (concat (map chunk_texts bs)), po_review = needs_review d\<rparr>, s)) s1 = (r, s')"
    by (rule persist_parts [OF assms(1)]) (rule that; assumption)
  then show ?thesis
    using assms(2)
    by (auto simp: alive_def try_step_def on_tables_def persist_tx_def finish_blocks_map insert_chunks_def Let_def
        expect_def dest!: insert_pages_effect split: if_splits option.splits)
qed

lemma persist_again_fails:
  assumes "p \<in> set (pages (tables s))" "page_doc p = doc" "page_number p \<in> set (page_numbers d)"
    and "persist e t doc src d thr s = (r, s')"
  shows "\<exists>msg. r = Inl msg"
proof -
  obtain pids bids thumbs bs s1 where parts:
    "pids = [row_supply (tables s)..<row_supply (tables s) + length (page_numbers d)]"
    "tables s1 = (tables s)\<lparr>row_supply := row_supply (tables s) + length (page_numbers d) + length (pd_blocks d)\<rparr>"
    and tx: "try_step (on_tables ''insert page'' (persist_tx t doc src
        (map (page_of t doc d thumbs) (zip (page_numbers d) pids))
        (List.map_filter (block_of t (map_of (zip (page_numbers d) pids))) bs) bs))
      (\<lambda>_ s. (Inr \<lparr>po_pages = length (page_numbers d),
         po_blocks = length (filter (\<lambda>b. trim (pr_content b) \<noteq> []) bs),
         po_chunks = length (concat (map chunk_texts bs)), po_review = needs_review d\<rparr>, s)) s1 = (r, s')"
    by (rule persist_parts [OF assms(4)]) (rule that; assumption)
  have clash: "insert_pages rs db = None"
    if "r \<in> set rs" "page_doc r = page_doc p" "page_number r = page_number p" "p \<in> set (pages db)" for rs r db
    using that
  proof (induction rs arbitrary: db)
    case (Cons q qs)
    then show ?case
      by (auto simp: insert_page_def list_ex_iff split: option.splits if_splits)
  qed simp
  let ?nos = "page_numbers d"
  obtain i where i: "i < length ?nos" "?nos ! i = page_number p"
    using assms(3) by (metis in_set_conv_nth)
  have mem: "(page_number p, pids ! i) \<in> set (zip ?nos pids)"
    using i parts(1) by (auto simp: in_set_zip)
  let ?pg = "page_of t doc d thumbs (page_number p, pids ! i)"
  have "?pg \<in> set (map (page_of t doc d thumbs) (zip ?nos pids))"
    using mem by (metis image_eqI list.set_map)
  then have "insert_pages (map (page_of t doc d thumbs) (zip ?nos pids)) (tables s1) = None"
    by (rule clash) (use assms(1,2) parts(2) in \<open>simp_all add: page_of_def\<close>)
  with tx show ?thesis
    by (auto simp: try_step_def on_tables_def persist_tx_def expect_def Let_def split: if_splits)
qed

definition docs_are :: "uuid \<Rightarrow> uuid \<Rightarrow> string set \<Rightarrow> pipeline \<Rightarrow> bool" where
  "docs_are t doc S s = (\<forall>dr \<in> set (documents (tables s)). doc_key dr = doc \<and> doc_tenant dr = t \<longrightarrow> doc_status dr \<in> S)"

definition job_is :: "uuid \<Rightarrow> uuid \<Rightarrow> string \<Rightarrow> int \<Rightarrow> string option \<Rightarrow> pipeline \<Rightarrow> bool" where
  "job_is t k st pr er s = (\<forall>j \<in> set (jobs (queue s)). job_key j = k \<and> job_tenant j = t \<longrightarrow>
     job_status j = st \<and> job_progress j = pr \<and> last_error j = er)"

lemma set_doc_status_docs:
  assumes "set_doc_status t doc st db = (r, db')"
  shows "db_up db' = db_up db" "r = (if db_up db then Some () else None)"
    "db_up db \<Longrightarrow> dr \<in> set (documents db') \<Longrightarrow> doc_key dr = doc \<Longrightarrow> doc_tenant dr = t \<Longrightarrow> doc_status dr = st"
proof -
  show "db_up db' = db_up db" "r = (if db_up db then Some () else None)"
    using assms by (auto simp: set_doc_status_def split: if_splits)
  assume up: "db_up db" and dr: "dr \<in> set (documents db')" "doc_key dr = doc" "doc_tenant dr = t"
  have "documents db' = map (\<lambda>d. if doc_key d = doc \<and> doc_tenant d = t then d\<lparr>doc_status := st\<rparr> else d) (documents db)"
    using assms up by (auto simp: set_doc_status_def update_where_def)
  with dr(1) have "dr \<in> (\<lambda>d. if doc_key d = doc \<and> doc_tenant d = t then d\<lparr>doc_status := st\<rparr> else d) ` set (documents db)"
    by (simp only: list.set_map)
  then obtain d where "dr = (if doc_key d = doc \<and> doc_tenant d = t then d\<lparr>doc_status := st\<rparr> else d)"
    by (rule imageE)
  with dr(2,3) show "doc_status dr = st" by (simp split: if_splits)
qed

lemma set_job_is:
  assumes "jr \<in> set (jobs (set_job t k st pr er q))" "job_key jr = k" "job_tenant jr = t"
  shows "job_status jr = st \<and> job_progress jr = pr \<and> last_error jr = er"
proof -
  from assms(1) have "jr \<in> (\<lambda>j. if job_key j = k \<and> job_tenant j = t then j\<lparr>job_status := st,
      job_progress := pr, last_error := er, job_updated := q_now q\<rparr> else j) ` set (jobs q)"
    by (simp add: set_job_def update_where_def)
  then obtain j where "jr = (if job_key j = k \<and> job_tenant j = t then j\<lparr>job_status := st,
      job_progress := pr, last_error := er, job_updated := q_now q\<rparr> else j)"
    by (rule imageE)
  with assms(2,3) show ?thesis by (simp split: if_splits)
qed

lemma stage_sets_job:
  assumes "stage t ctx k st s = (Inr x, s')" "alive j s"
  shows "job_is t k (stage_status st) (stage_progress st) None s'"
proof -
  obtain y q where q: "publish_progress t (jc_user ctx) k (stage_status st) (stage_progress st) None (queue s) = (y, q)"
    by (meson surj_pair)
  have "queue s' = q" using assms(1) q by (auto simp: stage_def on_queue_def split: if_splits)
  moreover have "jobs q = jobs (set_job t k (stage_status st) (stage_progress st) None (queue s))"
    using publish_progress_effect [OF q] assms(2) by (simp add: alive_def)
  ultimately show ?thesis unfolding job_is_def using set_job_is by metis
qed

lemma embed_batches_frame:
  "embed_batches e t title av n bs s = (r, s') \<Longrightarrow> queue s' = queue s \<and> db_up (tables s') = db_up (tables s)
    \<and> documents (tables s') = documents (tables s)"
proof (induction bs arbitrary: n s r s')
  case (Cons b bs)
  have one: "queue s1 = queue s0 \<and> db_up (tables s1) = db_up (tables s0) \<and> documents (tables s1) = documents (tables s0)"
    if "embed_batch e t title av n b s0 = (x, s1)" for x s0 s1 n
    using that by (auto simp: embed_batch_def Let_def split: option.splits if_splits prod.splits)
  obtain x s1 where x: "embed_batch e t title av n b s = (x, s1)" by (meson surj_pair)
  show ?case
  proof (cases x)
    case (Inl m)
    with Cons.prems x one [OF x] show ?thesis by (simp add: try_step_def)
  next
    case (Inr n')
    obtain y s2 where y: "embed_batches e t title av n' bs s1 = (y, s2)" by (meson surj_pair)
    with Cons.prems x Inr have "s' = s2" by (auto simp: try_step_def split: sum.splits)
    with Cons.IH [OF y] one [OF x] show ?thesis by simp
  qed
qed simp

lemma embed_flag_frame:
  "embed_flag e t doc s = (r, s') \<Longrightarrow> queue s' = queue s \<and> db_up (tables s') = db_up (tables s)"
  unfolding embed_flag_def embed_document_def Let_def
  by (auto split: if_splits prod.splits sum.splits dest!: embed_batches_frame)

lemma enqueue_jobs: "j \<in> set (jobs (snd (enqueue c kind t p q))) \<Longrightarrow> j \<in> set (jobs q) \<or> job_key j = job_supply q"
proof -
  assume j: "j \<in> set (jobs (snd (enqueue c kind t p q)))"
  obtain x q' where q: "enqueue c kind t p q = (x, q')" by (meson surj_pair)
  have "jobs q' = jobs q \<or> jobs q' = jobs q @ [queued_row (job_supply q) kind t p (q_now q)]"
    using enqueue_effect [OF q] by blast
  with j q show ?thesis by (auto simp: queued_row_def)
qed

lemma auto_chain_frame:
  assumes "auto_chain e t ctx s = (r, s')"
  shows "r = Inr ()" "tables s' = tables s"
    "j \<in> set (jobs (queue s')) \<Longrightarrow> j \<in> set (jobs (queue s)) \<or> job_key j = job_supply (queue s)"
proof -
  obtain cfg st where "resolve_org (genv (gw e)) t (settings (llm s)) = (cfg, st)" by (meson surj_pair)
  note run = assms [unfolded auto_chain_def Let_def this prod.case]
  show "r = Inr ()" "tables s' = tables s" using run by (auto split: if_splits)
  have "queue s' = queue s \<or> (\<exists>p. queue s' = snd (enqueue (codec_of e) ''knowledge_build'' t p (queue s)))"
    using run by (auto split: if_splits)
  then show "j \<in> set (jobs (queue s')) \<Longrightarrow> j \<in> set (jobs (queue s)) \<or> job_key j = job_supply (queue s)"
    using enqueue_jobs by metis
qed

abbreviation settled :: "uuid \<Rightarrow> uuid \<Rightarrow> uuid \<Rightarrow> pipeline \<Rightarrow> bool" where
  "settled t doc k s \<equiv> docs_are t doc {''indexed'', ''needs_review''} s \<and> job_is t k ''done'' 100 None s"

lemma ensures_alive:
  "(\<And>s r s'. m s = (r, s') \<Longrightarrow> alive k s \<Longrightarrow> alive k s') \<Longrightarrow> ensures (alive k) (alive k) m (\<lambda>_. alive k)"
  unfolding ensures_def by (auto split: prod.splits sum.splits)

lemma final_status_ensures:
  "ensures (alive k) (alive k) (on_tables ''update document final status'' (set_doc_status t doc (final_status out ok)))
     (\<lambda>_ s. alive k s \<and> docs_are t doc {''indexed'', ''needs_review''} s)"
  unfolding ensures_def
proof (intro allI impI)
  fix s assume al: "alive k s"
  obtain r db where run: "set_doc_status t doc (final_status out ok) (tables s) = (r, db)" by (meson surj_pair)
  note eff = set_doc_status_docs [OF run]
  have "r = Some ()" using eff(2) al by (simp add: alive_def)
  moreover have "docs_are t doc {''indexed'', ''needs_review''} (s\<lparr>tables := db\<rparr>)"
    using eff(3) al by (simp add: docs_are_def alive_def final_status_def)
  ultimately show "case on_tables ''update document final status'' (set_doc_status t doc (final_status out ok)) s of
      (Inl x, s') \<Rightarrow> alive k s' | (Inr x, s') \<Rightarrow> alive k s' \<and> docs_are t doc {''indexed'', ''needs_review''} s'"
    using run eff(1) al by (simp add: on_tables_def expect_def alive_def)
qed

lemma done_ensures:
  "ensures (alive k) (\<lambda>s. alive k s \<and> docs_are t doc S s) (stage t ctx k S_DONE)
     (\<lambda>_ s. alive k s \<and> docs_are t doc S s \<and> job_is t k ''done'' 100 None s)"
  unfolding ensures_def
proof (intro allI impI)
  fix s assume al: "alive k s \<and> docs_are t doc S s"
  obtain r s' where run: "stage t ctx k S_DONE s = (r, s')" by (meson surj_pair)
  have "alive k s'" "docs_are t doc S s'"
    using stage_alive [OF run] stage_tables [OF run] al by (simp_all add: docs_are_def)
  moreover have "job_is t k ''done'' 100 None s'" if "r = Inr x" for x
    using stage_sets_job [of t ctx k S_DONE s x s' k] run al that by simp
  ultimately show "case stage t ctx k S_DONE s of (Inl x, s') \<Rightarrow> alive k s'
      | (Inr x, s') \<Rightarrow> alive k s' \<and> docs_are t doc S s' \<and> job_is t k ''done'' 100 None s'"
    using run by (simp split: sum.split)
qed

lemma auto_chain_ensures:
  "ensures (alive k) (\<lambda>s. alive k s \<and> settled t doc k s) (auto_chain e t ctx) (\<lambda>_. settled t doc k)"
  unfolding ensures_def
proof (intro allI impI)
  fix s assume al: "alive k s \<and> settled t doc k s"
  obtain r s' where run: "auto_chain e t ctx s = (r, s')" by (meson surj_pair)
  note eff = auto_chain_frame [OF run]
  have "docs_are t doc {''indexed'', ''needs_review''} s'" using eff(2) al by (simp add: docs_are_def)
  moreover have "job_is t k ''done'' 100 None s'"
    unfolding job_is_def
  proof (intro ballI impI)
    fix j assume "j \<in> set (jobs (queue s'))" "job_key j = k \<and> job_tenant j = t"
    with eff(3) [of j] al show "job_status j = ''done'' \<and> job_progress j = 100 \<and> last_error j = None"
      by (auto simp: alive_def job_is_def)
  qed
  ultimately show "case auto_chain e t ctx s of (Inl x, s') \<Rightarrow> alive k s' | (Inr x, s') \<Rightarrow> settled t doc k s'"
    using run eff(1) by simp
qed

lemma ensures_then:
  "ensures E P m (\<lambda>_. P) \<Longrightarrow> (\<And>x. ensures E P (f x) R) \<Longrightarrow> ensures E P (try_step m f) R"
  by (rule ensures_try)

lemma ingest_inner_outcome:
  "ensures (alive k) (alive k) (ingest_inner e t k ctx) (\<lambda>_. settled t (jc_document ctx) k)"
proof -
  let ?doc = "jc_document ctx"
  have stage: "ensures (alive k) (alive k) (stage t ctx k st) (\<lambda>_. alive k)" for st
    by (rule ensures_alive) (rule stage_alive)
  have load: "ensures (alive k) (alive k) (load_document t ?doc) (\<lambda>_. alive k)"
    by (rule ensures_alive) (auto simp: load_document_def split: if_splits)
  have fetch: "ensures (alive k) (alive k) (fetch_bytes e key) (\<lambda>_. alive k)" for key
    by (rule ensures_alive) (simp add: fetch_bytes_def)
  have parse: "ensures (alive k) (alive k) (run_parser e key bytes) (\<lambda>_. alive k)" for key bytes
    by (rule ensures_alive) (auto simp: run_parser_def split: option.splits if_splits)
  have persist: "ensures (alive k) (alive k) (persist e t ?doc src d thr) (\<lambda>_. alive k)" for src d thr
    by (rule ensures_alive) (rule persist_alive)
  have embed: "ensures (alive k) (alive k) (embed_flag e t ?doc) (\<lambda>_. alive k)"
    by (rule ensures_alive) (auto simp: alive_def dest!: embed_flag_frame)
  have chain: "ensures (alive k) (\<lambda>s. alive k s \<and> settled t ?doc k s)
      (if final_status out ok = ''indexed'' then auto_chain e t ctx else (\<lambda>s. (Inr (), s)))
      (\<lambda>_. settled t ?doc k)" for out ok
    using auto_chain_ensures by (simp add: ensures_def)
  have finish: "ensures (alive k) (alive k)
      (try_step (on_tables ''update document final status'' (set_doc_status t ?doc (final_status out ok))) (\<lambda>_.
       try_step (stage t ctx k S_DONE) (\<lambda>_.
       if final_status out ok = ''indexed'' then auto_chain e t ctx else (\<lambda>s. (Inr (), s)))))
      (\<lambda>_. settled t ?doc k)" for out ok
    by (rule ensures_try [OF final_status_ensures], rule ensures_try [OF done_ensures], rule chain)
  show ?thesis
    unfolding ingest_inner_def split_beta
    by (rule ensures_then [OF load],
        rule ensures_then [OF stage], rule ensures_then [OF fetch], rule ensures_then [OF stage],
        rule ensures_then [OF parse], rule ensures_then [OF stage], rule ensures_then [OF persist],
        rule ensures_then [OF stage], rule ensures_then [OF embed], rule ensures_then [OF stage],
        rule ensures_then [OF stage], rule finish)
qed

lemma ingest_failed_settles:
  assumes "alive j s"
  shows "docs_are t (jc_document ctx) {''failed''} (ingest_failed t k ctx msg s)"
    and "job_is t k ''failed'' 0 (Some msg) (ingest_failed t k ctx msg s)"
proof -
  obtain z db where db: "set_doc_status t (jc_document ctx) ''failed'' (tables s) = (z, db)" by (meson surj_pair)
  obtain y q where q: "publish_progress t (jc_user ctx) k ''failed'' 0 (Some msg) (queue s) = (y, q)"
    by (meson surj_pair)
  have s': "tables (ingest_failed t k ctx msg s) = db" "queue (ingest_failed t k ctx msg s) = q"
    using db q by (simp_all add: ingest_failed_def mark_document_failed_def on_tables_def on_queue_def Let_def)
  show "docs_are t (jc_document ctx) {''failed''} (ingest_failed t k ctx msg s)"
    using set_doc_status_docs(3) [OF db] assms s'(1) by (simp add: docs_are_def alive_def)
  have "jobs q = jobs (set_job t k ''failed'' 0 (Some msg) (queue s))"
    using publish_progress_effect [OF q] assms by (simp add: alive_def)
  then show "job_is t k ''failed'' 0 (Some msg) (ingest_failed t k ctx msg s)"
    unfolding job_is_def s' using set_job_is by metis
qed

text \<open>
  C28. Every ingest run settles its document and its job. With the database up and a payload
  that names a document, a run that succeeds leaves the document indexed or marked for
  review and the job done at 100 percent; a run that fails at any step leaves the document
  failed and the job failed at 0 percent with the error's text. Nothing stays in between.
\<close>

theorem ingest_settles:
  assumes "parse_job_context job = Some ctx" and "alive (qj_id job) s"
    and "run_ingest e job s = (r, s')"
  shows "case r of
       Inr _ \<Rightarrow> docs_are (qj_tenant job) (jc_document ctx) {''indexed'', ''needs_review''} s'
         \<and> job_is (qj_tenant job) (qj_id job) ''done'' 100 None s'
     | Inl msg \<Rightarrow> docs_are (qj_tenant job) (jc_document ctx) {''failed''} s'
         \<and> job_is (qj_tenant job) (qj_id job) ''failed'' 0 (Some msg) s'"
proof -
  let ?t = "qj_tenant job" and ?k = "qj_id job" and ?doc = "jc_document ctx"
  obtain x s1 where inner: "ingest_inner e ?t ?k ctx s = (x, s1)" by (meson surj_pair)
  note out = ensuresD [OF ingest_inner_outcome assms(2) inner]
  show ?thesis
  proof (cases x)
    case (Inr u)
    with assms(1,3) inner have "r = Inr ()" "s' = s1" by (simp_all add: run_ingest_def)
    with out Inr show ?thesis by simp
  next
    case (Inl msg)
    with out have al: "alive ?k s1" by simp
    from assms(1,3) inner Inl have "r = Inl msg" "s' = ingest_failed ?t ?k ctx msg s1"
      by (simp_all add: run_ingest_def)
    with ingest_failed_settles [OF al] show ?thesis by simp
  qed
qed

definition ingest_job :: queued_job where
  "ingest_job = \<lparr>qj_id = 1, qj_stream = 0, qj_tenant = 5, qj_kind = ''ingest'',
     qj_payload = JObj [(''documentId'', JStr ''3'')]\<rparr>"

lemma ingest_job_context: "parse_job_context ingest_job = Some \<lparr>jc_document = 3, jc_user = None\<rparr>"
  by code_simp

theorem ingest_settles_witness:
  "\<exists>s'. run_ingest plain_ingest ingest_job (ingest_start\<lparr>blobs := \<lambda>_. None\<rparr>) = (Inl ''fetch document bytes'', s')
    \<and> docs_are 5 3 {''failed''} s' \<and> job_is 5 1 ''failed'' 0 (Some ''fetch document bytes'') s'"
proof -
  let ?s = "ingest_start\<lparr>blobs := \<lambda>_. None\<rparr>"
  have up: "alive (qj_id ingest_job) ?s"
    by (simp add: alive_def ingest_start_def library_of_def idle_queue_def ingest_job_def)
  obtain r s' where run: "run_ingest plain_ingest ingest_job ?s = (r, s')" by (meson surj_pair)
  obtain x s1 where st: "stage 5 \<lparr>jc_document = 3, jc_user = None\<rparr> 1 S_EXTRACT ?s = (x, s1)" by (meson surj_pair)
  have "fst (stage 5 \<lparr>jc_document = 3, jc_user = None\<rparr> 1 S_EXTRACT ?s) = Inr ()"
    by (simp add: stage_def is_cancelled_def on_queue_def publish_progress_def idle_queue_def ingest_start_def
        Let_def seq_def publish_to_def publish_def send_def set_job_def job_of_def expect_def queued_row_def)
  with st stage_tables [OF st] have st': "x = Inr ()" "blobs s1 = (\<lambda>_. None)" by simp_all
  have "load_document 5 3 ?s = (Inr (''5/a.pdf'', ''upload''), ?s)"
    by (simp add: load_document_def ingest_start_def library_of_def uploaded_def expect_def)
  with run st st' have "r = Inl ''fetch document bytes''"
    unfolding run_ingest_def ingest_job_context option.case
    by (simp add: ingest_job_def ingest_inner_def try_step_def fetch_bytes_def expect_def)
  with ingest_settles [OF ingest_job_context up run] run show ?thesis
    by (simp add: ingest_job_def)
qed

text \<open>A document whose pages are in the database already cannot be ingested again.\<close>

lemma ensures_const: "(\<And>s r s'. m s = (r, s') \<Longrightarrow> P s \<Longrightarrow> P s') \<Longrightarrow> ensures (\<lambda>_. True) P m (\<lambda>_. P)"
  unfolding ensures_def by (auto split: prod.splits sum.splits)

lemma ensures_nowhere: "ensures E (\<lambda>_. False) m Q"
  by (simp add: ensures_def)

lemma ingest_inner_again:
  assumes "\<And>key bytes. call_parser e key bytes = Some d" "p \<in> set ps" "page_doc p = jc_document ctx"
    "page_number p \<in> set (page_numbers d)"
  shows "ensures (\<lambda>_. True) (\<lambda>s. pages (tables s) = ps) (ingest_inner e t k ctx) (\<lambda>_ _. False)"
proof -
  let ?doc = "jc_document ctx" and ?P = "\<lambda>s. pages (tables s) = ps"
  have stage: "ensures (\<lambda>_. True) ?P (stage t ctx k st) (\<lambda>_. ?P)" for st
    by (rule ensures_const) (simp add: stage_tables)
  have load: "ensures (\<lambda>_. True) ?P (load_document t ?doc) (\<lambda>_. ?P)"
    by (rule ensures_const) (auto simp: load_document_def split: if_splits)
  have fetch: "ensures (\<lambda>_. True) ?P (fetch_bytes e key) (\<lambda>_. ?P)" for key
    by (rule ensures_const) (simp add: fetch_bytes_def)
  have parse: "ensures (\<lambda>_. True) ?P (run_parser e key bytes) (\<lambda>x s. ?P s \<and> x = d)" for key bytes
    unfolding ensures_def by (auto simp: run_parser_def assms(1))
  have stage': "ensures (\<lambda>_. True) (\<lambda>s. ?P s \<and> x = d) (stage t ctx k st) (\<lambda>_ s. ?P s \<and> x = d)" for st x
    by (rule ensures_const) (simp add: stage_tables)
  have persist: "ensures (\<lambda>_. True) (\<lambda>s. ?P s \<and> x = d) (persist e t ?doc src x thr) (\<lambda>_ _. False)" for src thr x
    unfolding ensures_def
  proof (intro allI impI)
    fix s :: pipeline assume "?P s \<and> x = d"
    then have s: "p \<in> set (pages (tables s))" "x = d" using assms(2) by simp_all
    obtain r s' where run: "persist e t ?doc src d thr s = (r, s')" by (meson surj_pair)
    from persist_again_fails [OF s(1) assms(3,4) run] obtain msg where "r = Inl msg" by blast
    with run s(2) show "case persist e t ?doc src x thr s of (Inl x, s') \<Rightarrow> True | (Inr x, s') \<Rightarrow> False" by simp
  qed
  show ?thesis
    unfolding ingest_inner_def split_beta
    by (rule ensures_then [OF load], rule ensures_then [OF stage], rule ensures_then [OF fetch],
        rule ensures_then [OF stage], rule ensures_try [OF parse], rule ensures_then [OF stage'],
        rule ensures_try [OF persist], rule ensures_nowhere)
qed

lemma ingest_again_fails:
  assumes "parse_job_context job = Some ctx" and "alive (qj_id job) s"
    and "\<And>key bytes. call_parser e key bytes = Some d"
    and "p \<in> set (pages (tables s))" "page_doc p = jc_document ctx" "page_number p \<in> set (page_numbers d)"
    and "run_ingest e job s = (r, s')"
  shows "\<exists>msg. r = Inl msg \<and> docs_are (qj_tenant job) (jc_document ctx) {''failed''} s'
    \<and> job_is (qj_tenant job) (qj_id job) ''failed'' 0 (Some msg) s'"
proof -
  let ?t = "qj_tenant job" and ?k = "qj_id job"
  obtain x s1 where inner: "ingest_inner e ?t ?k ctx s = (x, s1)" by (meson surj_pair)
  from ensuresD [OF ingest_inner_again [OF assms(3-6)] refl inner] obtain msg where x: "x = Inl msg"
    by (cases x) simp_all
  from ensuresD [OF ingest_inner_outcome assms(2) inner] x have al: "alive ?k s1" by simp
  from assms(1,7) inner x have "r = Inl msg" "s' = ingest_failed ?t ?k ctx msg s1"
    by (simp_all add: run_ingest_def)
  with ingest_failed_settles [OF al] show ?thesis by simp
qed

text \<open>
  C40. An ingest job is not repeatable, although the queue delivers jobs at least once and the
  API offers a retry. Once a page of the document is in the database, a second run of a job
  over the same parser output breaks the unique index on the page number: the run fails, and
  a document that was indexed is left failed, its job failed at 0 percent.
\<close>

theorem ingest_again_unindexes:
  assumes "parse_job_context job = Some ctx" and "alive (qj_id job) s"
    and "\<And>key bytes. call_parser e key bytes = Some d"
    and "p \<in> set (pages (tables s))" "page_doc p = jc_document ctx" "page_number p \<in> set (page_numbers d)"
    and "run_ingest e job s = (r, s')"
  shows "\<exists>msg. r = Inl msg \<and> docs_are (qj_tenant job) (jc_document ctx) {''failed''} s'
    \<and> job_is (qj_tenant job) (qj_id job) ''failed'' 0 (Some msg) s'"
  by (rule ingest_again_fails [OF assms])

definition ingested :: pipeline where
  "ingested = ingest_start\<lparr>tables := (tables ingest_start)\<lparr>
     documents := [uploaded\<lparr>doc_status := ''indexed''\<rparr>], pages := [page_of 5 3 one_block (\<lambda>_. None) (1, 1)],
     row_supply := 2\<rparr>\<rparr>"

theorem ingest_again_unindexes_witness:
  "\<exists>s' msg. run_ingest plain_ingest ingest_job ingested = (Inl msg, s') \<and> docs_are 5 3 {''failed''} s'
    \<and> job_is 5 1 ''failed'' 0 (Some msg) s'"
proof -
  have up: "alive (qj_id ingest_job) ingested"
    by (simp add: alive_def ingested_def ingest_start_def library_of_def idle_queue_def ingest_job_def)
  have parser: "call_parser plain_ingest key bytes = Some one_block" for key bytes
    by (simp add: call_parser_def plain_ingest_def accept_json_def)
  let ?p = "page_of 5 3 one_block (\<lambda>_. None) (1, 1)"
  have p: "?p \<in> set (pages (tables ingested))" "page_doc ?p = jc_document \<lparr>jc_document = 3, jc_user = None\<rparr>"
    "page_number ?p \<in> set (page_numbers one_block)"
    by (simp_all add: ingested_def page_of_def one_block_pages)
  obtain r s' where run: "run_ingest plain_ingest ingest_job ingested = (r, s')" by (meson surj_pair)
  from ingest_again_unindexes [OF ingest_job_context up parser p run] run show ?thesis
    by (auto simp: ingest_job_def)
qed

end

