(* ===== verification/Ontology.thy ===== *)
theory Ontology
  imports Retrieve Settings
begin

text \<open>
  \<open>insight-core/src/ontology.rs\<close>: reading an OBO Graphs release, loading it into the shared
  tables \<open>concepts\<close> and \<open>concept_edges\<close>, the resumable pass that embeds concepts, and the
  linking of free-text mentions (an exact lexical match first, then the nearest embedding).

  The tables are lists of rows in the order a sequential scan returns them. The JSON reader of
  the release file and the download are parameters (the loaders start from the decoded
  document); so are the inference service (\<open>embed_dense\<close> of \<open>Retrieve\<close>) and the vector index
  (\<open>nearest\<close>). A synonyms column is the string array the loader writes.
\<close>

section \<open>Data\<close>

definition CONCEPT_EMBED_BATCH :: nat where "CONCEPT_EMBED_BATCH = 64"
definition DEFAULT_LINK_SIM :: f64 where "DEFAULT_LINK_SIM = 0.72"
definition CANDIDATE_LIMIT :: nat where "CANDIDATE_LIMIT = 200"
definition CONCEPT_DIM :: nat where "CONCEPT_DIM = 768"

definition link_sim_threshold :: "environment \<Rightarrow> f64" where
  "link_sim_threshold env = (case Option.bind (var env ''LINK_SIM_THRESHOLD'') (parse_f64 env) of
       None \<Rightarrow> DEFAULT_LINK_SIM | Some x \<Rightarrow> x)"

record obo_synonym =
  syn_val :: "string option"

record obo_meta =
  meta_synonyms :: "obo_synonym list"

record obo_node =
  node_id :: string
  lbl :: "string option"
  node_type :: "string option"
  meta :: "obo_meta option"

record obo_edge =
  e_sub :: string
  e_pred :: string
  e_obj :: string

record obo_graph =
  obo_nodes :: "obo_node list"
  obo_edges :: "obo_edge list"

record obo_doc =
  graphs :: "obo_graph list"

record parsed_concept =
  curie :: string
  pc_label :: string
  pc_synonyms :: "string list"

record load_report =
  concepts_upserted :: nat
  edges_upserted :: nat

record concept_row =
  con_id :: uuid
  con_ontology :: string
  con_code :: string
  con_label :: string
  con_synonyms :: "string list option"

record embedding_row =
  emb_vector :: "f64 list"
  emb_concept :: uuid
  emb_ontology :: string
  emb_label :: string

record ontology_db =
  concepts :: "concept_row list"
  concept_edges :: "(uuid \<times> uuid) list"
  embeddings :: "embedding_row list"
  concept_supply :: uuid
  onto_up :: bool

record concept_match =
  m_concept :: uuid
  m_ontology :: string
  m_code :: string
  m_label :: string
  m_score :: f64
  m_method :: string

section \<open>Identifiers and labels\<close>

definition to_curie :: "string \<Rightarrow> string option" where
  "to_curie raw =
     (let tl = last (split_on CHR ''/'' raw)
      in case (case split_once CHR ''_'' tl of Some pl \<Rightarrow> Some pl | None \<Rightarrow> split_once CHR '':'' tl) of
           None \<Rightarrow> None
         | Some (pre, loc) \<Rightarrow>
             if pre = [] \<or> loc = [] \<or> \<not> list_all is_ascii_alphanumeric pre then None
             else Some (ascii_uppercase pre @ '':'' @ loc))"

text \<open>The character loop; the flag says that the last character written is a space (or none).\<close>

fun label_loop :: "bool \<Rightarrow> string \<Rightarrow> string" where
  "label_loop prev_space [] = []"
| "label_loop prev_space (ch # s) =
     (if is_alphanumeric ch then to_lower ch # label_loop False s
      else if \<not> prev_space then CHR '' '' # label_loop True s
      else label_loop prev_space s)"

definition normalize_label :: "string \<Rightarrow> string" where
  "normalize_label s =
     join_str '' '' (filter (\<lambda>tok. tok \<noteq> ''s'') (split_on CHR '' '' (trim (label_loop True s))))"

section \<open>Reading a release\<close>

definition node_synonyms :: "obo_node \<Rightarrow> string list" where
  "node_synonyms n = (case meta n of None \<Rightarrow> []
     | Some m \<Rightarrow> filter (\<lambda>v. v \<noteq> []) (map trim (List.map_filter syn_val (meta_synonyms m))))"

definition parse_node :: "string \<Rightarrow> obo_node \<Rightarrow> parsed_concept option" where
  "parse_node prefix_up n =
     (if (case node_type n of None \<Rightarrow> False | Some t \<Rightarrow> ascii_lowercase t \<noteq> ''class'') then None
      else case to_curie (node_id n) of None \<Rightarrow> None
        | Some c \<Rightarrow>
            if \<not> starts_with c (prefix_up @ '':'') then None
            else (case lbl n of None \<Rightarrow> None
                  | Some l \<Rightarrow> if trim l = [] then None
                     else Some \<lparr>curie = c, pc_label = trim l, pc_synonyms = node_synonyms n\<rparr>))"

definition is_subclass :: "obo_edge \<Rightarrow> bool" where
  "is_subclass e = (ascii_lowercase (e_pred e) = ''is_a'' \<or> contains_str (e_pred e) ''subClassOf''
     \<or> ends_with (e_pred e) ''#is_a'')"

definition parse_edge :: "string list \<Rightarrow> obo_edge \<Rightarrow> (string \<times> string) option" where
  "parse_edge known e =
     (if \<not> is_subclass e then None
      else case (to_curie (e_sub e), to_curie (e_obj e)) of
          (Some child, Some parent) \<Rightarrow>
            if child \<in> set known \<and> parent \<in> set known then Some (child, parent) else None
        | _ \<Rightarrow> None)"

definition parse_obographs :: "obo_doc \<Rightarrow> string \<Rightarrow> parsed_concept list \<times> (string \<times> string) list" where
  "parse_obographs doc pre =
     (let cs = List.map_filter (parse_node (ascii_uppercase pre)) (concat (map obo_nodes (graphs doc)))
      in (cs, List.map_filter (parse_edge (map curie cs)) (concat (map obo_edges (graphs doc)))))"

section \<open>Loading\<close>

text \<open>\<open>INSERT ... ON CONFLICT (ontology, code) DO UPDATE ... RETURNING id\<close>.\<close>

definition same_code :: "string \<Rightarrow> string \<Rightarrow> concept_row \<Rightarrow> bool" where
  "same_code onto code r = (con_ontology r = onto \<and> con_code r = code)"

definition upsert_concept :: "string \<Rightarrow> parsed_concept \<Rightarrow> ontology_db \<Rightarrow> uuid \<times> ontology_db" where
  "upsert_concept onto c db =
     (case find (same_code onto (curie c)) (concepts db) of
        Some r \<Rightarrow> (con_id r, db\<lparr>concepts := update_where (same_code onto (curie c))
           (\<lambda>r. r\<lparr>con_label := pc_label c, con_synonyms := Some (pc_synonyms c)\<rparr>) (concepts db)\<rparr>)
      | None \<Rightarrow> (concept_supply db,
           db\<lparr>concepts := concepts db @ [\<lparr>con_id = concept_supply db, con_ontology = onto, con_code = curie c,
                con_label = pc_label c, con_synonyms = Some (pc_synonyms c)\<rparr>],
              concept_supply := concept_supply db + 1\<rparr>))"

fun upsert_concepts ::
  "string \<Rightarrow> parsed_concept list \<Rightarrow> (string \<rightharpoonup> uuid) \<Rightarrow> ontology_db \<Rightarrow> (string \<rightharpoonup> uuid) \<times> ontology_db" where
  "upsert_concepts onto [] ids db = (ids, db)"
| "upsert_concepts onto (c # cs) ids db =
     (let (k, db) = upsert_concept onto c db in upsert_concepts onto cs (ids(curie c \<mapsto> k)) db)"

fun upsert_edges ::
  "(string \<rightharpoonup> uuid) \<Rightarrow> (string \<times> string) list \<Rightarrow> nat \<Rightarrow> ontology_db \<Rightarrow> nat \<times> ontology_db" where
  "upsert_edges ids [] n db = (n, db)"
| "upsert_edges ids ((child, parent) # es) n db =
     (case (ids child, ids parent) of
        (Some ck, Some pk) \<Rightarrow> upsert_edges ids es (n + 1)
           (if (pk, ck) \<in> set (concept_edges db) then db
            else db\<lparr>concept_edges := concept_edges db @ [(pk, ck)]\<rparr>)
      | _ \<Rightarrow> upsert_edges ids es n db)"

definition persist_concepts ::
  "string \<Rightarrow> parsed_concept list \<Rightarrow> (string \<times> string) list \<Rightarrow> ontology_db \<Rightarrow> load_report option \<times> ontology_db" where
  "persist_concepts onto cs es db =
     (if \<not> onto_up db then (None, db)
      else let (ids, db) = upsert_concepts onto cs (\<lambda>_. None) db; (n, db) = upsert_edges ids es 0 db
           in (Some \<lparr>concepts_upserted = length cs, edges_upserted = n\<rparr>, db))"

text \<open>The loaders, from the decoded release (\<open>None\<close>: it could not be read or decoded).\<close>

definition load_obo :: "string \<Rightarrow> obo_doc option \<Rightarrow> ontology_db \<Rightarrow> load_report option \<times> ontology_db" where
  "load_obo pre source db =
     (case source of None \<Rightarrow> (None, db)
      | Some doc \<Rightarrow> let (cs, es) = parse_obographs doc pre
                    in if cs = [] then (None, db) else persist_concepts pre cs es db)"

definition load_mondo :: "obo_doc option \<Rightarrow> ontology_db \<Rightarrow> load_report option \<times> ontology_db" where
  "load_mondo = load_obo ''MONDO''"

definition load_hpo :: "obo_doc option \<Rightarrow> ontology_db \<Rightarrow> load_report option \<times> ontology_db" where
  "load_hpo = load_obo ''HP''"

definition load_mesh :: "ontology_db \<Rightarrow> load_report option \<times> ontology_db" where
  "load_mesh db = (None, db)"

definition load_rxnorm :: "ontology_db \<Rightarrow> load_report option \<times> ontology_db" where
  "load_rxnorm db = (None, db)"

section \<open>Embedding concepts\<close>

definition concept_embed_text :: "string \<Rightarrow> string list \<Rightarrow> string" where
  "concept_embed_text label syns = (if syns = [] then label else label @ ''. '' @ join_str ''; '' syns)"

definition synonyms_of :: "concept_row \<Rightarrow> string list" where
  "synonyms_of r = (case con_synonyms r of None \<Rightarrow> [] | Some syns \<Rightarrow> syns)"

definition lacks_embedding :: "string option \<Rightarrow> ontology_db \<Rightarrow> concept_row \<Rightarrow> bool" where
  "lacks_embedding onto db c =
     (con_id c \<notin> emb_concept ` set (embeddings db) \<and> (onto = None \<or> onto = Some (con_ontology c)))"

definition unembedded_concepts :: "string option \<Rightarrow> ontology_db \<Rightarrow> concept_row list" where
  "unembedded_concepts onto db = filter (lacks_embedding onto db) (concepts db)"

definition next_concepts :: "string option \<Rightarrow> ontology_db \<Rightarrow> concept_row list" where
  "next_concepts onto db = take CONCEPT_EMBED_BATCH (sort_key con_id (unembedded_concepts onto db))"

text \<open>The inserts of one batch are separate statements: a refused row keeps the earlier ones.\<close>

fun insert_embeddings :: "(concept_row \<times> f64 list) list \<Rightarrow> ontology_db \<Rightarrow> unit option \<times> ontology_db" where
  "insert_embeddings [] db = (Some (), db)"
| "insert_embeddings ((c, v) # rest) db =
     (if length v \<noteq> CONCEPT_DIM then (None, db)
      else insert_embeddings rest (db\<lparr>embeddings := embeddings db @
             [\<lparr>emb_vector = v, emb_concept = con_id c, emb_ontology = con_ontology c,
               emb_label = concept_embed_text (con_label c) (synonyms_of c)\<rparr>]\<rparr>))"

definition embed_round ::
  "services \<Rightarrow> string option \<Rightarrow> ontology_db \<Rightarrow> nat option \<times> ontology_db" where
  "embed_round v onto db =
     (if \<not> onto_up db then (None, db)
      else let batch = next_concepts onto db
           in if batch = [] then (Some 0, db)
              else case embed_dense v (map (\<lambda>c. concept_embed_text (con_label c) (synonyms_of c)) batch) False of
                  None \<Rightarrow> (None, db)
                | Some vectors \<Rightarrow>
                    if length vectors \<noteq> length batch then (None, db)
                    else (case insert_embeddings (zip batch vectors) db of
                        (None, db) \<Rightarrow> (None, db) | (Some _, db) \<Rightarrow> (Some (length batch), db)))"

lemma insert_embeddings_effect:
  "insert_embeddings cvs db = (r, db') \<Longrightarrow>
    concepts db' = concepts db \<and> onto_up db' = onto_up db \<and> concept_edges db' = concept_edges db
    \<and> concept_supply db' = concept_supply db
    \<and> set (embeddings db) \<subseteq> set (embeddings db')
    \<and> (r \<noteq> None \<longrightarrow> emb_concept ` set (embeddings db') =
         emb_concept ` set (embeddings db) \<union> con_id ` fst ` set cvs)"
proof (induction cvs db rule: insert_embeddings.induct)
  case (2 c v rest db)
  show ?case
  proof (cases "length v = CONCEPT_DIM")
    case True
    with 2 show ?thesis by auto
  qed (use 2 in auto)
qed simp

lemma embed_round_effect:
  assumes "embed_round v onto db = (Some n, db')"
  shows "n = length (next_concepts onto db)" "concepts db' = concepts db" "onto_up db' = onto_up db"
    "emb_concept ` set (embeddings db') = emb_concept ` set (embeddings db) \<union> con_id ` set (next_concepts onto db)"
proof -
  have "n = length (next_concepts onto db) \<and> concepts db' = concepts db \<and> onto_up db' = onto_up db \<and>
    emb_concept ` set (embeddings db') = emb_concept ` set (embeddings db) \<union> con_id ` set (next_concepts onto db)"
  proof (cases "next_concepts onto db = []")
    case True
    with assms show ?thesis by (auto simp: embed_round_def split: if_splits)
  next
    case False
    let ?batch = "next_concepts onto db"
    note run = assms [unfolded embed_round_def Let_def]
    from run False have up: "onto_up db" by (simp split: if_splits)
    obtain vs where vs: "length vs = length ?batch"
      "(case insert_embeddings (zip ?batch vs) db of (None, db) \<Rightarrow> (None, db) | (Some _, db) \<Rightarrow> (Some (length ?batch), db))
        = (Some n, db')"
      using run False up by (simp split: option.splits if_splits)
    obtain u where ins: "insert_embeddings (zip ?batch vs) db = (Some u, db')" and n: "n = length ?batch"
      using vs(2) by (cases "insert_embeddings (zip ?batch vs) db") (simp split: option.splits)
    have "fst ` set (zip ?batch vs) = set ?batch"
      by (metis list.set_map map_fst_zip vs(1))
    with insert_embeddings_effect [OF ins] n show ?thesis by simp
  qed
  then show "n = length (next_concepts onto db)" "concepts db' = concepts db" "onto_up db' = onto_up db"
    "emb_concept ` set (embeddings db') = emb_concept ` set (embeddings db) \<union> con_id ` set (next_concepts onto db)"
    by simp_all
qed

lemma set_next_concepts: "set (next_concepts onto db) \<subseteq> set (unembedded_concepts onto db)"
  unfolding next_concepts_def by (metis set_sort set_take_subset)

lemma next_concepts_Nil: "next_concepts onto db = [] \<longleftrightarrow> unembedded_concepts onto db = []"
  by (simp add: next_concepts_def CONCEPT_EMBED_BATCH_def) (metis length_0_conv length_sort)

lemma embed_round_decreases:
  assumes "embed_round v onto db = (Some n, db')" "n \<noteq> 0"
  shows "length (unembedded_concepts onto db') < length (unembedded_concepts onto db)"
proof -
  note eff = embed_round_effect [OF assms(1)]
  obtain c where c: "c \<in> set (next_concepts onto db)"
    using assms(2) eff(1) by (metis length_0_conv list.set_intros(1) neq_Nil_conv)
  then have old: "c \<in> set (concepts db)" "lacks_embedding onto db c"
    using set_next_concepts by (auto simp: unembedded_concepts_def)
  have "\<not> lacks_embedding onto db' c" using eff(4) c by (simp add: lacks_embedding_def)
  moreover have "unembedded_concepts onto db' = filter (lacks_embedding onto db') (unembedded_concepts onto db)"
    unfolding unembedded_concepts_def eff(2) filter_filter
    by (rule filter_cong) (auto simp: lacks_embedding_def eff(4))
  moreover have "c \<in> set (unembedded_concepts onto db)" using old by (simp add: unembedded_concepts_def)
  ultimately show ?thesis by (metis length_filter_less)
qed

function embed_concepts :: "services \<Rightarrow> string option \<Rightarrow> ontology_db \<Rightarrow> nat option \<times> ontology_db" where
  "embed_concepts v onto db =
     (case embed_round v onto db of
        (None, db') \<Rightarrow> (None, db')
      | (Some n, db') \<Rightarrow> if n = 0 then (Some 0, db')
          else (case embed_concepts v onto db' of (r, db'') \<Rightarrow> (map_option (\<lambda>k. n + k) r, db'')))"
  by pat_completeness auto
termination
  by (relation "measure (\<lambda>(v, onto, db). length (unembedded_concepts onto db))")
     (auto dest: embed_round_decreases [OF sym])

declare embed_concepts.simps [simp del]

section \<open>Linking mentions\<close>

text \<open>
  A synonyms column as Postgres prints it (\<open>synonyms_json::text\<close>), and the candidate query:
  the pattern is \<open>%tok%\<close> with an alphanumeric \<open>tok\<close>, so \<open>LIKE\<close> is a substring test.
\<close>

definition hex_char :: "nat \<Rightarrow> char" where
  "hex_char d = (if d < 10 then digit_char d else char_of (87 + d))"

definition json_escape :: "char \<Rightarrow> string" where
  "json_escape c = (if c = CHR 0x22 then [CHR 0x5C, CHR 0x22] else if c = CHR 0x5C then [CHR 0x5C, CHR 0x5C]
     else if code_of c = 8 then [CHR 0x5C, CHR ''b''] else if code_of c = 9 then [CHR 0x5C, CHR ''t'']
     else if code_of c = 10 then [CHR 0x5C, CHR ''n''] else if code_of c = 12 then [CHR 0x5C, CHR ''f'']
     else if code_of c = 13 then [CHR 0x5C, CHR ''r'']
     else if code_of c < 16 then CHR 0x5C # ''u000'' @ [hex_char (code_of c)]
     else if code_of c < 32 then CHR 0x5C # ''u001'' @ [hex_char (code_of c - 16)] else [c])"

definition json_quote :: "string \<Rightarrow> string" where
  "json_quote s = CHR 0x22 # concat (map json_escape s) @ [CHR 0x22]"

definition synonyms_text :: "string list \<Rightarrow> string" where
  "synonyms_text syns = ''['' @ join_str '', '' (map json_quote syns) @ '']''"

definition candidate :: "string \<Rightarrow> concept_row \<Rightarrow> bool" where
  "candidate tok r = (contains_str (lowercase (con_label r)) tok
     \<or> (case con_synonyms r of None \<Rightarrow> False
        | Some syns \<Rightarrow> contains_str (lowercase (synonyms_text syns)) (lowercase tok)))"

definition same_label :: "string \<Rightarrow> concept_row \<Rightarrow> bool" where
  "same_label nlab r = (normalize_label (con_label r) = nlab
     \<or> list_ex (\<lambda>s. normalize_label s = nlab) (synonyms_of r))"

definition match_of :: "concept_row \<Rightarrow> f64 \<Rightarrow> string \<Rightarrow> concept_match" where
  "match_of r sc meth = \<lparr>m_concept = con_id r, m_ontology = con_ontology r, m_code = con_code r,
     m_label = con_label r, m_score = sc, m_method = meth\<rparr>"

definition lexical_match :: "string \<Rightarrow> ontology_db \<Rightarrow> concept_match option option" where
  "lexical_match mention db =
     (let nlab = normalize_label mention
      in if nlab = [] then Some None
         else if \<not> onto_up db then None
         else let rows = take CANDIDATE_LIMIT (filter (candidate (hd (split_on CHR '' '' nlab))) (concepts db))
              in Some (map_option (\<lambda>r. match_of r 1 ''lexical'') (find (same_label nlab) rows)))"

text \<open>\<open>nearest\<close> is the index scan: a row of the joined table and its cosine distance.\<close>

type_synonym nearest_fn =
  "f64 list \<Rightarrow> (embedding_row \<times> concept_row) list \<Rightarrow> ((embedding_row \<times> concept_row) \<times> f64) option"

definition embedding_match ::
  "nearest_fn \<Rightarrow> f64 list \<Rightarrow> f64 \<Rightarrow> ontology_db \<Rightarrow> concept_match option option" where
  "embedding_match nearest vec threshold db =
     (let joined = [(e, c). e \<leftarrow> embeddings db, c \<leftarrow> concepts db, con_id c = emb_concept e]
      in if \<not> onto_up db \<or> (joined \<noteq> [] \<and> length vec \<noteq> CONCEPT_DIM) then None
         else case nearest vec joined of None \<Rightarrow> Some None
           | Some ((e, c), distance) \<Rightarrow>
               let sc = 1 - distance
               in Some (if sc < threshold then None else Some (match_of c sc ''embedding'')))"

fun lexical_all :: "string list \<Rightarrow> ontology_db \<Rightarrow> concept_match option list option" where
  "lexical_all [] db = Some []"
| "lexical_all (m # ms) db = (case lexical_match m db of None \<Rightarrow> None
     | Some hit \<Rightarrow> map_option ((#) hit) (lexical_all ms db))"

fun fill_slots ::
  "nearest_fn \<Rightarrow> f64 \<Rightarrow> ontology_db \<Rightarrow> (nat \<times> f64 list) list \<Rightarrow> concept_match option list
    \<Rightarrow> concept_match option list option" where
  "fill_slots nearest threshold db [] out = Some out"
| "fill_slots nearest threshold db ((slot, vec) # rest) out =
     (case embedding_match nearest vec threshold db of None \<Rightarrow> None
      | Some None \<Rightarrow> fill_slots nearest threshold db rest out
      | Some (Some m) \<Rightarrow> fill_slots nearest threshold db rest (out[slot := Some m]))"

definition link_mentions ::
  "services \<Rightarrow> nearest_fn \<Rightarrow> environment \<Rightarrow> string list \<Rightarrow> ontology_db \<Rightarrow> concept_match option list option" where
  "link_mentions v nearest env mentions db =
     (case lexical_all mentions db of None \<Rightarrow> None
      | Some out \<Rightarrow>
          let slots = filter (\<lambda>i. out ! i = None) [0..<length out]
          in if slots = [] then Some out
             else (case embed_dense v (map (\<lambda>i. mentions ! i) slots) True of
                 None \<Rightarrow> Some out
               | Some vectors \<Rightarrow> if length vectors \<noteq> length slots then Some out
                   else fill_slots nearest (link_sim_threshold env) db (zip slots vectors) out))"

section \<open>Normal forms of labels\<close>

text \<open>The maximal alphanumeric runs of a text, in lower case.\<close>

definition label_words :: "string \<Rightarrow> string list" where
  "label_words s = map lowercase (filter (\<lambda>w. w \<noteq> []) (split_by (\<lambda>c. \<not> is_alphanumeric c) s))"

definition alnum_word :: "string \<Rightarrow> bool" where
  "alnum_word w = (w \<noteq> [] \<and> (\<forall>c \<in> set w. is_alphanumeric c \<and> to_lower c = c))"

lemma label_words_alnum: "w \<in> set (label_words s) \<Longrightarrow> alnum_word w"
proof -
  assume "w \<in> set (label_words s)"
  then obtain u where "w = lowercase u" "u \<in> set (split_by (\<lambda>c. \<not> is_alphanumeric c) s)" "u \<noteq> []"
    by (auto simp: label_words_def)
  with split_by_pieces [of u "\<lambda>c. \<not> is_alphanumeric c" s] show ?thesis
    by (auto simp: alnum_word_def lowercase_def)
qed

lemma alnum_word_no_space: "alnum_word w \<Longrightarrow> CHR '' '' \<notin> set w"
  using space_not_alnum by (auto simp: alnum_word_def)

text \<open>
  The loop writes the words with one space between them, and one after the last word when the
  text goes on.
\<close>

definition glue :: "string list \<Rightarrow> string" where
  "glue ws = concat (map (\<lambda>w. CHR '' '' # w) ws)"

lemma glue_join: "ws \<noteq> [] \<Longrightarrow> glue ws = CHR '' '' # join_str '' '' ws"
proof (induction "'' ''" ws rule: join_str.induct)
  case (3 w v ws)
  then show ?case by (simp add: glue_def)
qed (simp_all add: glue_def)

lemma label_loop_glue:
  fixes s :: string
  defines "sp \<equiv> split_by (\<lambda>c. \<not> is_alphanumeric c) s"
  shows "(\<exists>tl' \<in> {[], '' ''}. CHR '' '' # label_loop True s = glue (map lowercase (filter (\<lambda>w. w \<noteq> []) sp)) @ tl')
    \<and> (\<exists>tl' \<in> {[], '' ''}. label_loop False s =
         lowercase (hd sp) @ glue (map lowercase (filter (\<lambda>w. w \<noteq> []) (tl sp))) @ tl')"
  unfolding sp_def
proof (induction s)
  case Nil
  then show ?case by (simp add: glue_def lowercase_def)
next
  case (Cons c s)
  obtain v vs where v: "split_by (\<lambda>c. \<not> is_alphanumeric c) s = v # vs"
    by (meson neq_Nil_conv split_by_nonempty)
  show ?case
  proof (cases "is_alphanumeric c")
    case True
    with Cons v show ?thesis by (simp add: glue_def lowercase_def)
  next
    case False
    with Cons v show ?thesis by (simp add: glue_def lowercase_def)
  qed
qed

lemma trim_tail:
  assumes "j \<noteq> []" "\<not> is_whitespace (hd j)" "\<not> is_whitespace (last j)" "tl' \<in> {[], '' ''}"
  shows "trim (j @ tl') = j"
proof -
  have "dropWhile is_whitespace (j @ tl') = j @ tl'"
    using assms(1,2) by (intro dropWhile_not_hd) simp
  moreover have "dropWhile is_whitespace (rev j) = rev j"
    using assms(1,3) by (intro dropWhile_not_hd) (simp add: hd_rev)
  ultimately show ?thesis
    using assms(4) by (auto simp: trim_def trim_start_def trim_end_def)
qed

lemma join_words_ends:
  assumes "ws \<noteq> []" "\<forall>w \<in> set ws. alnum_word w"
  shows "join_str '' '' ws \<noteq> []" "\<not> is_whitespace (hd (join_str '' '' ws))" "\<not> is_whitespace (last (join_str '' '' ws))"
proof -
  have "join_str '' '' ws \<noteq> [] \<and> is_alphanumeric (hd (join_str '' '' ws)) \<and> is_alphanumeric (last (join_str '' '' ws))"
    using assms
  proof (induction "'' ''" ws rule: join_str.induct)
    case (3 w v ws)
    then show ?case by (auto simp: alnum_word_def)
  qed (auto simp: alnum_word_def)
  then show "join_str '' '' ws \<noteq> []" "\<not> is_whitespace (hd (join_str '' '' ws))"
    "\<not> is_whitespace (last (join_str '' '' ws))"
    by (auto dest: alphanumeric_not_space)
qed

lemma normalize_label_eq: "normalize_label s = join_str '' '' (filter (\<lambda>w. w \<noteq> ''s'') (label_words s))"
proof -
  let ?ws = "label_words s"
  obtain tl' where t: "tl' \<in> {[], '' ''}" "CHR '' '' # label_loop True s = glue ?ws @ tl'"
    using label_loop_glue [of s] unfolding label_words_def by blast
  have al: "\<forall>w \<in> set ?ws. alnum_word w" using label_words_alnum by blast
  show ?thesis
  proof (cases "?ws = []")
    case True
    with t have "label_loop True s = []" by (auto simp: glue_def)
    with True show ?thesis by (simp add: normalize_label_def split_on_def)
  next
    case False
    with t(2) have "label_loop True s = join_str '' '' ?ws @ tl'" by (simp add: glue_join)
    then have "trim (label_loop True s) = join_str '' '' ?ws"
      using trim_tail [OF join_words_ends [OF False al] t(1)] by simp
    moreover have "split_on CHR '' '' (join_str '' '' ?ws) = ?ws"
      using split_on_join [OF False, of "CHR '' ''"] al alnum_word_no_space by simp
    ultimately show ?thesis by (simp add: normalize_label_def)
  qed
qed

text \<open>The words of a normal form are the words that made it.\<close>

lemma lowercase_alnum: "alnum_word w \<Longrightarrow> lowercase w = w"
  by (auto simp: alnum_word_def lowercase_def intro: map_idI)

lemma label_words_join:
  "\<forall>w \<in> set ws. alnum_word w \<Longrightarrow> label_words (join_str '' '' ws) = ws"
proof (induction "'' ''" ws rule: join_str.induct)
  case (2 w)
  then have "split_by (\<lambda>c. \<not> is_alphanumeric c) w = [w]"
    by (intro split_by_no_sep) (simp add: alnum_word_def)
  with 2 show ?case by (simp add: label_words_def lowercase_alnum) (simp add: alnum_word_def)
next
  case (3 w v ws)
  have "split_by (\<lambda>c. \<not> is_alphanumeric c) (w @ CHR '' '' # join_str '' '' (v # ws)) =
    w # split_by (\<lambda>c. \<not> is_alphanumeric c) (join_str '' '' (v # ws))"
    using 3 by (intro split_by_append) (simp_all add: alnum_word_def)
  with 3 show ?case by (simp add: label_words_def lowercase_alnum) (simp add: alnum_word_def)
qed (simp add: label_words_def)

text \<open>
  A normalized label is the text's alphanumeric runs in lower case, less every run that is
  a lone "s", with one space between them; normalizing again changes nothing, so both sides
  of a lexical comparison are normal forms. The possessive rule removes more than
  possessives, though: "Protein S deficiency" and "protein deficiency" have one normal form.
\<close>

theorem normalize_label_words:
  "normalize_label s = join_str '' '' (filter (\<lambda>w. w \<noteq> ''s'') (label_words s))
    \<and> normalize_label (normalize_label s) = normalize_label s
    \<and> normalize_label ''Protein S deficiency'' = normalize_label ''protein deficiency''"
proof (intro conjI)
  show eq: "normalize_label s = join_str '' '' (filter (\<lambda>w. w \<noteq> ''s'') (label_words s))"
    by (rule normalize_label_eq)
  have "label_words (normalize_label s) = filter (\<lambda>w. w \<noteq> ''s'') (label_words s)"
    unfolding eq by (rule label_words_join) (auto dest: label_words_alnum)
  then show "normalize_label (normalize_label s) = normalize_label s"
    unfolding normalize_label_eq [of "normalize_label s"] by (simp add: eq)
  show "normalize_label ''Protein S deficiency'' = normalize_label ''protein deficiency''" by code_simp
qed

section \<open>The candidate query finds every exact match\<close>

lemma contains_str_iff: "contains_str s p \<longleftrightarrow> (\<exists>u v. s = u @ p @ v)"
proof (induction s)
  case (Cons c cs)
  have "starts_with (c # cs) p \<longleftrightarrow> (\<exists>v. c # cs = p @ v)"
    by (metis append_eq_conv_conj append_take_drop_id starts_with_def)
  with Cons show ?case by (auto simp: Cons_eq_append_conv)
qed auto

lemma split_by_infix: "w \<in> set (split_by P s) \<Longrightarrow> \<exists>u v. s = u @ w @ v"
proof (induction s arbitrary: w)
  case (Cons c s)
  obtain x xs where x: "split_by P s = x # xs" by (meson neq_Nil_conv split_by_nonempty)
  have first: "\<exists>v. s = x @ v"
    using x
  proof (induction s arbitrary: x xs)
    case (Cons d s)
    obtain y ys where y: "split_by P s = y # ys" by (meson neq_Nil_conv split_by_nonempty)
    with Cons.IH [OF y] Cons.prems show ?case by (auto split: if_splits)
  qed simp
  consider "P c" "w = []" | "w \<in> set (split_by P s)" | "\<not> P c" "w = c # x"
    using Cons.prems x by (auto split: if_splits)
  then show ?case
  proof cases
    case 1
    then show ?thesis by (metis append_Nil)
  next
    case 2
    then show ?thesis using Cons.IH by (metis append_Cons)
  next
    case 3
    with first show ?thesis by (metis append_Cons append_Nil)
  qed
qed simp

lemma label_words_infix:
  assumes "w \<in> set (label_words s)"
  shows "contains_str (lowercase s) w"
proof -
  obtain u where u: "w = lowercase u" "u \<in> set (split_by (\<lambda>c. \<not> is_alphanumeric c) s)"
    using assms by (auto simp: label_words_def)
  obtain a b where "s = a @ u @ b" using split_by_infix [OF u(2)] by blast
  then have "lowercase s = lowercase a @ w @ lowercase b" by (simp add: u(1) lowercase_def)
  then show ?thesis unfolding contains_str_iff by blast
qed

lemma json_escape_alnum:
  assumes "is_alphanumeric c"
  shows "json_escape c = [c]"
proof -
  have "48 \<le> code_of c" "code_of c \<noteq> 92"
    using assms unfolding is_alphanumeric_def Let_def by linarith+
  moreover have "c \<noteq> CHR 0x22" "c \<noteq> CHR 0x5C"
    using calculation by (auto simp: code_of_def)
  ultimately show ?thesis by (simp add: json_escape_def)
qed

lemma json_quote_infix:
  assumes "w \<in> set (label_words s)"
  shows "contains_str (lowercase (json_quote s)) w"
proof -
  obtain u where u: "w = lowercase u" "u \<in> set (split_by (\<lambda>c. \<not> is_alphanumeric c) s)"
    using assms by (auto simp: label_words_def)
  obtain a b where s: "s = a @ u @ b" using split_by_infix [OF u(2)] by blast
  have "\<forall>c \<in> set u. is_alphanumeric c" using split_by_pieces [OF u(2)] by blast
  then have "concat (map json_escape u) = u"
    by (induction u) (simp_all add: json_escape_alnum)
  then have "lowercase (json_quote s) =
      lowercase (CHR 0x22 # concat (map json_escape a)) @ w @ lowercase (concat (map json_escape b) @ [CHR 0x22])"
    by (simp add: json_quote_def s u(1) lowercase_def)
  then show ?thesis unfolding contains_str_iff by blast
qed

lemma contains_str_trans: "contains_str s t \<Longrightarrow> contains_str t p \<Longrightarrow> contains_str s p"
  unfolding contains_str_iff by (metis append.assoc)

lemma join_str_infix: "w \<in> set ws \<Longrightarrow> contains_str (join_str sep ws) w"
proof (induction sep ws rule: join_str.induct)
  case (3 sep w' v ws)
  show ?case
  proof (cases "w = w'")
    case True
    then show ?thesis unfolding contains_str_iff by (metis append_Nil join_str.simps(3))
  next
    case False
    with 3 have "contains_str (join_str sep (v # ws)) w" by simp
    then show ?thesis unfolding contains_str_iff by (metis append.assoc join_str.simps(3))
  qed
qed (auto simp: contains_str_iff intro: exI [of _ "[]"])

lemma synonyms_text_infix:
  assumes "s \<in> set syns" "w \<in> set (label_words s)"
  shows "contains_str (lowercase (synonyms_text syns)) w"
proof -
  have "contains_str (join_str '', '' (map json_quote syns)) (json_quote s)"
    using assms(1) by (intro join_str_infix) simp
  then obtain a b where "synonyms_text syns = (''['' @ a) @ json_quote s @ (b @ '']'')"
    unfolding contains_str_iff synonyms_text_def by auto
  then have "lowercase (synonyms_text syns) = lowercase (''['' @ a) @ lowercase (json_quote s) @ lowercase (b @ '']'')"
    by (simp only: lowercase_def map_append)
  then have "contains_str (lowercase (synonyms_text syns)) (lowercase (json_quote s))"
    unfolding contains_str_iff by blast
  then show ?thesis using json_quote_infix [OF assms(2)] by (rule contains_str_trans)
qed

text \<open>The token the query is built from is a word of every text with that normal form.\<close>

lemma first_token:
  assumes "normalize_label x = nlab" "nlab \<noteq> []"
  shows "hd (split_on CHR '' '' nlab) \<in> set (label_words x)"
proof -
  let ?ws = "filter (\<lambda>w. w \<noteq> ''s'') (label_words x)"
  have eq: "nlab = join_str '' '' ?ws" using assms(1) normalize_label_eq by simp
  with assms(2) have ne: "?ws \<noteq> []" by auto
  then have "split_on CHR '' '' nlab = ?ws"
    unfolding eq using label_words_alnum alnum_word_no_space by (intro split_on_join) auto
  with ne show ?thesis by (metis filter_is_subset hd_in_set subsetD)
qed

lemma same_label_candidate:
  assumes "same_label nlab r" "nlab \<noteq> []"
  shows "candidate (hd (split_on CHR '' '' nlab)) r"
proof -
  let ?tok = "hd (split_on CHR '' '' nlab)"
  consider "normalize_label (con_label r) = nlab"
    | syns s where "con_synonyms r = Some syns" "s \<in> set syns" "normalize_label s = nlab"
    using assms(1) by (cases "con_synonyms r") (auto simp: same_label_def synonyms_of_def list_ex_iff)
  then show ?thesis
  proof cases
    case 1
    then show ?thesis
      using label_words_infix [OF first_token [OF _ assms(2)]] by (simp add: candidate_def)
  next
    case 2
    have w: "?tok \<in> set (label_words s)" by (rule first_token [OF 2(3) assms(2)])
    then have "lowercase ?tok = ?tok" by (intro lowercase_alnum) (rule label_words_alnum)
    with 2 synonyms_text_infix [OF 2(2) w] show ?thesis by (simp add: candidate_def)
  qed
qed

lemma find_filter: "(\<And>x. P x \<Longrightarrow> Q x) \<Longrightarrow> find P (filter Q xs) = find P xs"
  by (induction xs) auto

abbreviation candidates_of :: "string \<Rightarrow> ontology_db \<Rightarrow> concept_row list" where
  "candidates_of mention db \<equiv>
     filter (candidate (hd (split_on CHR '' '' (normalize_label mention)))) (concepts db)"

text \<open>
  C31. The lexical match is a scan of the whole table for the normal form, whatever prefilter the
  query uses, as long as no more than 200 concepts contain the mention's first word: then a
  concept whose label or synonym normalizes like the mention is never missed, and the first
  such row is the answer.
\<close>

theorem lexical_match_complete:
  assumes "onto_up db" "normalize_label mention \<noteq> []" "length (candidates_of mention db) \<le> CANDIDATE_LIMIT"
  shows "lexical_match mention db =
    Some (map_option (\<lambda>r. match_of r 1 ''lexical'') (find (same_label (normalize_label mention)) (concepts db)))"
proof -
  have "find (same_label (normalize_label mention)) (candidates_of mention db) =
      find (same_label (normalize_label mention)) (concepts db)"
    by (rule find_filter) (rule same_label_candidate [OF _ assms(2)])
  with assms show ?thesis by (simp add: lexical_match_def Let_def)
qed

text \<open>
  Past 200 candidates an exact match can be missed: the query has no order and a limit, so
  when 200 rows that contain the mention's first word come first and none of them matches,
  the answer is "no match", although a later row has exactly the mention as its label.
\<close>

theorem lexical_match_misses:
  assumes "onto_up db" "normalize_label mention \<noteq> []"
    and "concepts db = front @ rest" "r \<in> set rest" "con_label r = mention"
    and "length (filter (candidate (hd (split_on CHR '' '' (normalize_label mention)))) front) = CANDIDATE_LIMIT"
    and "\<forall>x \<in> set front. \<not> same_label (normalize_label mention) x"
  shows "lexical_match mention db = Some None
    \<and> (\<exists>x \<in> set (concepts db). same_label (normalize_label mention) x)"
proof -
  let ?c = "candidate (hd (split_on CHR '' '' (normalize_label mention)))"
  have "take CANDIDATE_LIMIT (candidates_of mention db) = filter ?c front"
    using assms(3,6) by simp
  moreover have "find (same_label (normalize_label mention)) (filter ?c front) = None"
    using assms(7) by (auto simp: find_None_iff)
  moreover have "same_label (normalize_label mention) r" using assms(5) by (simp add: same_label_def)
  ultimately show ?thesis using assms(1-4) by (auto simp: lexical_match_def Let_def)
qed

definition concept_named :: "uuid \<Rightarrow> string \<Rightarrow> concept_row" where
  "concept_named k l = \<lparr>con_id = k, con_ontology = ''MONDO'', con_code = show_nat k, con_label = l,
     con_synonyms = Some []\<rparr>"

definition onto_of :: "concept_row list \<Rightarrow> ontology_db" where
  "onto_of rows = \<lparr>concepts = rows, concept_edges = [], embeddings = [], concept_supply = 1000, onto_up = True\<rparr>"

theorem lexical_match_complete_witness:
  "lexical_match ''Addison's disease'' (onto_of [concept_named 1 ''Seizure'', concept_named 2 ''Addison disease'']) =
     Some (Some (match_of (concept_named 2 ''Addison disease'') 1 ''lexical''))"
proof -
  let ?db = "onto_of [concept_named 1 ''Seizure'', concept_named 2 ''Addison disease'']"
  have n: "normalize_label ''Addison's disease'' = ''addison disease''"
    "normalize_label ''Addison disease'' = ''addison disease''" "normalize_label ''Seizure'' = ''seizure''"
    by code_simp+
  have "length (candidates_of ''Addison's disease'' ?db) \<le> CANDIDATE_LIMIT"
    unfolding CANDIDATE_LIMIT_def by (rule order_trans [OF length_filter_le]) (simp add: onto_of_def)
  with lexical_match_complete [of ?db "''Addison's disease''"] n show ?thesis
    by (simp add: onto_of_def concept_named_def same_label_def synonyms_of_def)
qed

definition many_familial :: "concept_row list" where
  "many_familial = replicate 200 (concept_named 1 ''Familial gout'')"

theorem lexical_match_misses_witness:
  "lexical_match ''Familial tremor'' (onto_of (many_familial @ [concept_named 2 ''Familial tremor''])) = Some None"
proof -
  have n: "normalize_label ''Familial tremor'' = ''familial tremor''" "normalize_label ''Familial gout'' = ''familial gout''"
    and tok: "hd (split_on CHR '' '' ''familial tremor'') = ''familial''"
    and c: "candidate ''familial'' (concept_named 1 ''Familial gout'')"
    by code_simp+
  have f: "filter (candidate ''familial'') many_familial = many_familial"
    unfolding many_familial_def using c by (intro filter_True) simp
  have "lexical_match ''Familial tremor'' (onto_of (many_familial @ [concept_named 2 ''Familial tremor''])) = Some None
    \<and> (\<exists>x \<in> set (concepts (onto_of (many_familial @ [concept_named 2 ''Familial tremor'']))).
         same_label (normalize_label ''Familial tremor'') x)"
  proof (rule lexical_match_misses [where r = "concept_named 2 ''Familial tremor''"])
    show "concepts (onto_of (many_familial @ [concept_named 2 ''Familial tremor''])) =
        many_familial @ [concept_named 2 ''Familial tremor'']"
      by (simp add: onto_of_def)
    show "concept_named 2 ''Familial tremor'' \<in> set [concept_named 2 ''Familial tremor'']" by simp
    show "length (filter (candidate (hd (split_on CHR '' '' (normalize_label ''Familial tremor'')))) many_familial) = CANDIDATE_LIMIT"
      unfolding n tok f by (simp add: many_familial_def CANDIDATE_LIMIT_def)
    show "\<forall>x \<in> set many_familial. \<not> same_label (normalize_label ''Familial tremor'') x"
      by (simp add: many_familial_def same_label_def concept_named_def synonyms_of_def n)
  qed (simp_all add: onto_of_def concept_named_def n)
  then show ?thesis by blast
qed

section \<open>Loading twice\<close>

definition set_concept :: "parsed_concept \<Rightarrow> concept_row \<Rightarrow> concept_row" where
  "set_concept c r = r\<lparr>con_label := pc_label c, con_synonyms := Some (pc_synonyms c)\<rparr>"

definition last_named :: "parsed_concept list \<Rightarrow> string \<rightharpoonup> parsed_concept" where
  "last_named cs = map_of (map (\<lambda>c. (curie c, c)) (rev cs))"

definition refresh :: "string \<Rightarrow> parsed_concept list \<Rightarrow> concept_row \<Rightarrow> concept_row" where
  "refresh onto cs r = (if con_ontology r = onto
     then (case last_named cs (con_code r) of None \<Rightarrow> r | Some c \<Rightarrow> set_concept c r) else r)"

lemma last_named_snoc [simp]: "last_named (cs @ [c]) = (last_named cs)(curie c \<mapsto> c)"
  by (simp add: last_named_def)

lemma last_named_dom: "last_named cs k \<noteq> None \<longleftrightarrow> k \<in> curie ` set cs"
  by (auto simp: last_named_def map_of_eq_None_iff image_image)

lemma set_concept_simps [simp]:
  "con_ontology (set_concept c r) = con_ontology r" "con_code (set_concept c r) = con_code r"
  "con_id (set_concept c r) = con_id r" "con_label (set_concept c r) = pc_label c"
  "con_synonyms (set_concept c r) = Some (pc_synonyms c)"
  "set_concept c (set_concept d r) = set_concept c r"
  by (simp_all add: set_concept_def)

lemma refresh_simps [simp]:
  "con_ontology (refresh onto cs r) = con_ontology r" "con_code (refresh onto cs r) = con_code r"
  "con_id (refresh onto cs r) = con_id r" "same_code o' k (refresh onto cs r) = same_code o' k r"
  by (auto simp: refresh_def same_code_def split: option.split)

lemma upsert_concept_cases:
  assumes "upsert_concept onto c db = (k, db')"
  shows "(\<exists>r. find (same_code onto (curie c)) (concepts db) = Some r \<and> k = con_id r
      \<and> db' = db\<lparr>concepts := map (\<lambda>r. if same_code onto (curie c) r then set_concept c r else r) (concepts db)\<rparr>)
    \<or> (find (same_code onto (curie c)) (concepts db) = None \<and> k = concept_supply db
      \<and> db' = db\<lparr>concepts := concepts db @ [set_concept c \<lparr>con_id = k, con_ontology = onto, con_code = curie c,
           con_label = [], con_synonyms = None\<rparr>], concept_supply := concept_supply db + 1\<rparr>)"
  using assms by (auto simp: upsert_concept_def update_where_def set_concept_def split: option.splits)

lemma upsert_concepts_snoc:
  "upsert_concepts onto (cs @ [c]) ids db =
     (let (ids, db) = upsert_concepts onto cs ids db; (k, db) = upsert_concept onto c db in (ids(curie c \<mapsto> k), db))"
  by (induction cs arbitrary: ids db) (simp_all add: split_beta)

lemma find_map_same: "find (same_code o' k) (map (refresh onto cs) rows) =
    map_option (refresh onto cs) (find (same_code o' k) rows)"
  by (induction rows) auto

lemma find_same_set: "find (same_code o' k) (map (\<lambda>r. if P r then set_concept c r else r) rows) =
    map_option (\<lambda>r. if P r then set_concept c r else r) (find (same_code o' k) rows)"
  by (induction rows) (auto simp: same_code_def)

text \<open>What one load establishes.\<close>

definition loaded :: "string \<Rightarrow> parsed_concept list \<Rightarrow> (string \<rightharpoonup> uuid) \<Rightarrow> ontology_db \<Rightarrow> bool" where
  "loaded onto cs ids db =
     ((\<forall>r \<in> set (concepts db). refresh onto cs r = r)
      \<and> (\<forall>k. ids k = (if k \<in> curie ` set cs then map_option con_id (find (same_code onto k) (concepts db)) else None))
      \<and> (\<forall>k \<in> curie ` set cs. find (same_code onto k) (concepts db) \<noteq> None))"

lemma upsert_concepts_loaded:
  "upsert_concepts onto cs (\<lambda>_. None) db = (ids, db') \<Longrightarrow>
     loaded onto cs ids db' \<and> onto_up db' = onto_up db \<and> concept_edges db' = concept_edges db \<and> embeddings db' = embeddings db"
proof (induction cs arbitrary: ids db' rule: rev_induct)
  case Nil
  then show ?case by (auto simp: loaded_def refresh_def last_named_def)
next
  case (snoc c cs)
  obtain ids1 db1 where one: "upsert_concepts onto cs (\<lambda>_. None) db = (ids1, db1)" by (meson surj_pair)
  obtain k where two: "upsert_concept onto c db1 = (k, db')" and ids: "ids = ids1(curie c \<mapsto> k)"
    using snoc.prems one by (auto simp: upsert_concepts_snoc split: prod.splits)
  note IH = snoc.IH [OF one]
  then have L: "\<forall>r \<in> set (concepts db1). refresh onto cs r = r"
    "\<forall>k. ids1 k = (if k \<in> curie ` set cs then map_option con_id (find (same_code onto k) (concepts db1)) else None)"
    "\<forall>k \<in> curie ` set cs. find (same_code onto k) (concepts db1) \<noteq> None"
    by (simp_all add: loaded_def)
  let ?f = "\<lambda>r. if same_code onto (curie c) r then set_concept c r else r"
  have keep: "refresh onto (cs @ [c]) r = r" if "refresh onto cs r = r" "\<not> same_code onto (curie c) r" for r
    using that by (auto simp: refresh_def same_code_def)
  have now: "refresh onto (cs @ [c]) (set_concept c r) = set_concept c r" if "same_code onto (curie c) r" for r
    using that by (simp add: refresh_def same_code_def)
  from upsert_concept_cases [OF two] show ?case
  proof (elim disjE exE conjE)
    fix r assume r: "find (same_code onto (curie c)) (concepts db1) = Some r" "k = con_id r"
      and db': "db' = db1\<lparr>concepts := map ?f (concepts db1)\<rparr>"
    have "\<forall>r \<in> set (concepts db'). refresh onto (cs @ [c]) r = r"
      using L(1) keep now by (auto simp: db')
    moreover have "map_option con_id (find (same_code onto k') (concepts db')) =
        map_option con_id (find (same_code onto k') (concepts db1))" for k'
      by (cases "find (same_code onto k') (concepts db1)") (auto simp: db' find_same_set)
    ultimately show ?thesis
      using L(2,3) r IH by (auto simp: loaded_def ids db' find_same_set)
  next
    assume none: "find (same_code onto (curie c)) (concepts db1) = None" and k: "k = concept_supply db1"
      and db': "db' = db1\<lparr>concepts := concepts db1 @ [set_concept c \<lparr>con_id = k, con_ontology = onto, con_code = curie c,
           con_label = [], con_synonyms = None\<rparr>], concept_supply := concept_supply db1 + 1\<rparr>"
    have miss: "\<forall>r \<in> set (concepts db1). \<not> same_code onto (curie c) r" using none by (simp add: find_None_iff)
    have "\<forall>r \<in> set (concepts db'). refresh onto (cs @ [c]) r = r"
      using L(1) keep now miss by (auto simp: db' same_code_def)
    moreover have new: "find (same_code onto (curie c)) (concepts db') = Some (last (concepts db'))"
      by (simp add: db' find_append none same_code_def)
    moreover have old: "find (same_code onto k') (concepts db') = find (same_code onto k') (concepts db1)"
      if "k' \<noteq> curie c" for k'
      using that by (simp add: db' find_append same_code_def split: option.split)
    moreover have "\<forall>k' \<in> curie ` set (cs @ [c]). find (same_code onto k') (concepts db') \<noteq> None"
    proof
      fix k' assume "k' \<in> curie ` set (cs @ [c])"
      then show "find (same_code onto k') (concepts db') \<noteq> None"
        using L(3) new old by (cases "k' = curie c") auto
    qed
    moreover have "ids k' = (if k' \<in> curie ` set (cs @ [c])
        then map_option con_id (find (same_code onto k') (concepts db')) else None)" for k'
    proof (cases "k' = curie c")
      case True
      with new k show ?thesis by (simp add: ids db')
    next
      case False
      with old L(2) show ?thesis by (auto simp: ids)
    qed
    ultimately have "loaded onto (cs @ [c]) ids db'" unfolding loaded_def by blast
    with IH show ?thesis by (simp add: db')
  qed
qed

text \<open>A load over rows that are all there only refreshes them.\<close>

lemma upsert_concepts_again:
  assumes "\<forall>k \<in> curie ` set cs. find (same_code onto k) (concepts db) \<noteq> None"
  shows "upsert_concepts onto cs (\<lambda>_. None) db =
    (\<lambda>k. if k \<in> curie ` set cs then map_option con_id (find (same_code onto k) (concepts db)) else None,
     db\<lparr>concepts := map (refresh onto cs) (concepts db)\<rparr>)"
  using assms
proof (induction cs rule: rev_induct)
  case Nil
  have "refresh onto [] = (\<lambda>r. r)" by (auto simp: refresh_def last_named_def)
  then show ?case by simp
next
  case (snoc c cs)
  let ?rows = "concepts db"
  obtain r where r: "find (same_code onto (curie c)) ?rows = Some r" using snoc.prems by auto
  have comp: "(if same_code onto (curie c) x then set_concept c (refresh onto cs x) else refresh onto cs x) =
      refresh onto (cs @ [c]) x" for x
    by (auto simp: refresh_def same_code_def split: option.split)
  have "upsert_concept onto c (db\<lparr>concepts := map (refresh onto cs) ?rows\<rparr>) =
      (con_id r, db\<lparr>concepts := map (refresh onto (cs @ [c])) ?rows\<rparr>)"
    using r by (simp add: upsert_concept_def find_map_same update_where_def flip: set_concept_def)
      (simp add: comp)
  with snoc r show ?case by (auto simp: upsert_concepts_snoc)
qed

lemma upsert_edges_effect:
  "upsert_edges ids es n db = (k, db') \<Longrightarrow>
    concepts db' = concepts db \<and> embeddings db' = embeddings db \<and> onto_up db' = onto_up db
    \<and> concept_supply db' = concept_supply db
    \<and> k = n + length (filter (\<lambda>(c, p). ids c \<noteq> None \<and> ids p \<noteq> None) es)
    \<and> set (concept_edges db) \<subseteq> set (concept_edges db')
    \<and> (\<forall>(c, p) \<in> set es. \<forall>ck pk. ids c = Some ck \<longrightarrow> ids p = Some pk \<longrightarrow> (pk, ck) \<in> set (concept_edges db'))"
proof (induction es arbitrary: n db)
  case (Cons e es)
  obtain child parent where e: "e = (child, parent)" by (cases e)
  show ?case
  proof (cases "ids child = None \<or> ids parent = None")
    case True
    with Cons show ?thesis by (auto simp: e split: option.splits)
  next
    case False
    then obtain ck pk where ids: "ids child = Some ck" "ids parent = Some pk" by auto
    have "upsert_edges ids es (n + 1) (if (pk, ck) \<in> set (concept_edges db) then db
        else db\<lparr>concept_edges := concept_edges db @ [(pk, ck)]\<rparr>) = (k, db')"
      using Cons.prems by (simp add: e ids)
    from Cons.IH [OF this] show ?thesis by (auto simp: e ids split: if_splits)
  qed
qed simp

lemma upsert_edges_again:
  assumes "\<forall>(c, p) \<in> set es. \<forall>ck pk. ids c = Some ck \<longrightarrow> ids p = Some pk \<longrightarrow> (pk, ck) \<in> set (concept_edges db)"
  shows "upsert_edges ids es n db = (n + length (filter (\<lambda>(c, p). ids c \<noteq> None \<and> ids p \<noteq> None) es), db)"
  using assms by (induction ids es n db rule: upsert_edges.induct) (auto split: option.splits)

lemma persist_again:
  assumes "persist_concepts onto cs es db = (Some rep, db')"
  shows "persist_concepts onto cs es db' = (Some rep, db')"
    and "\<forall>r \<in> set (concepts db'). refresh onto cs r = r"
    and "\<forall>c \<in> set cs. \<exists>r \<in> set (concepts db'). same_code onto (curie c) r"
proof -
  obtain ids db1 where one: "upsert_concepts onto cs (\<lambda>_. None) db = (ids, db1)" by (meson surj_pair)
  obtain k db2 where two: "upsert_edges ids es 0 db1 = (k, db2)" by (meson surj_pair)
  have run: "onto_up db" "rep = \<lparr>concepts_upserted = length cs, edges_upserted = k\<rparr>" "db' = db2"
    using assms one two by (auto simp: persist_concepts_def split: if_splits)
  note L = upsert_concepts_loaded [OF one] and E = upsert_edges_effect [OF two]
  have same: "\<forall>r \<in> set (concepts db'). refresh onto cs r = r"
    and ids: "\<And>k. ids k = (if k \<in> curie ` set cs then map_option con_id (find (same_code onto k) (concepts db')) else None)"
    and all: "\<forall>k \<in> curie ` set cs. find (same_code onto k) (concepts db') \<noteq> None"
    using L E run(3) by (simp_all add: loaded_def)
  have "map (refresh onto cs) (concepts db') = concepts db'" using same by (simp add: map_idI)
  then have "upsert_concepts onto cs (\<lambda>_. None) db' = (ids, db')"
    unfolding upsert_concepts_again [OF all] using ids by auto
  moreover have "upsert_edges ids es 0 db' = (k, db')"
    unfolding run(3) using upsert_edges_again [of es ids db2 0] E by simp
  ultimately show "persist_concepts onto cs es db' = (Some rep, db')"
    using run L E by (simp add: persist_concepts_def)
  show "\<forall>r \<in> set (concepts db'). refresh onto cs r = r" by (rule same)
  show "\<forall>c \<in> set cs. \<exists>r \<in> set (concepts db'). same_code onto (curie c) r"
    using all by (metis find_None_iff image_eqI)
qed

text \<open>
  C32. Loading a release is idempotent: a second load of the same document gives the same report
  and leaves the database exactly as it was. After a load every concept the parser kept has a
  row under its code, and that row carries the label and synonyms of the code's last
  occurrence in the release.
\<close>

theorem load_mondo_idempotent:
  assumes "load_mondo source db = (Some rep, db')"
  shows "load_mondo source db' = (Some rep, db')
    \<and> (\<forall>doc c. source = Some doc \<longrightarrow> last_named (fst (parse_obographs doc ''MONDO'')) (curie c) = Some c \<longrightarrow>
        (\<exists>r \<in> set (concepts db'). same_code ''MONDO'' (curie c) r
           \<and> con_label r = pc_label c \<and> con_synonyms r = Some (pc_synonyms c)))"
proof -
  obtain doc where doc: "source = Some doc" using assms by (auto simp: load_mondo_def load_obo_def split: option.splits)
  obtain cs es where p: "parse_obographs doc ''MONDO'' = (cs, es)" by (meson surj_pair)
  have ne: "cs \<noteq> []" and run: "persist_concepts ''MONDO'' cs es db = (Some rep, db')"
    using assms doc p by (auto simp: load_mondo_def load_obo_def split: if_splits)
  have "load_mondo source db' = (Some rep, db')"
    using persist_again(1) [OF run] doc p ne by (simp add: load_mondo_def load_obo_def)
  moreover have "\<exists>r \<in> set (concepts db'). same_code ''MONDO'' (curie c) r
           \<and> con_label r = pc_label c \<and> con_synonyms r = Some (pc_synonyms c)"
    if c: "last_named cs (curie c) = Some c" for c
  proof -
    have "curie c \<in> curie ` set cs" using c last_named_dom by fastforce
    then obtain r where r: "r \<in> set (concepts db')" "same_code ''MONDO'' (curie c) r"
      using persist_again(3) [OF run] by fastforce
    with persist_again(2) [OF run] have "set_concept c r = r"
      using c by (auto simp: refresh_def same_code_def)
    with r show ?thesis by (metis set_concept_simps(4,5))
  qed
  ultimately show ?thesis using doc p by simp
qed

definition addison_doc :: obo_doc where
  "addison_doc = \<lparr>graphs = [\<lparr>obo_nodes =
      [\<lparr>node_id = ''http://purl.obolibrary.org/obo/MONDO_0008170'', lbl = Some ''Addison disease'',
         node_type = Some ''CLASS'', meta = Some \<lparr>meta_synonyms = [\<lparr>syn_val = Some ''Addison's disease''\<rparr>]\<rparr>\<rparr>,
       \<lparr>node_id = ''http://purl.obolibrary.org/obo/MONDO_0015917'', lbl = Some ''adrenal cortical hypofunction'',
         node_type = Some ''CLASS'', meta = None\<rparr>,
       \<lparr>node_id = ''http://purl.obolibrary.org/obo/HP_0001250'', lbl = Some ''seizure'',
         node_type = Some ''CLASS'', meta = None\<rparr>],
     obo_edges = [\<lparr>e_sub = ''http://purl.obolibrary.org/obo/MONDO_0008170'', e_pred = ''is_a'',
        e_obj = ''http://purl.obolibrary.org/obo/MONDO_0015917''\<rparr>]\<rparr>]\<rparr>"

lemma addison_loads: "fst (load_mondo (Some addison_doc) (onto_of [])) =
    Some \<lparr>concepts_upserted = 2, edges_upserted = 1\<rparr>"
  by code_simp

theorem load_mondo_idempotent_witness:
  "let db' = snd (load_mondo (Some addison_doc) (onto_of []))
   in load_mondo (Some addison_doc) db' = (Some \<lparr>concepts_upserted = 2, edges_upserted = 1\<rparr>, db')"
proof -
  obtain r db' where run: "load_mondo (Some addison_doc) (onto_of []) = (r, db')" by (meson surj_pair)
  with addison_loads have "load_mondo (Some addison_doc) (onto_of []) =
      (Some \<lparr>concepts_upserted = 2, edges_upserted = 1\<rparr>, db')" by simp
  from load_mondo_idempotent [OF this] run show ?thesis by simp
qed

text \<open>
  What the parser keeps: concepts whose code is in the ontology asked for and whose label is
  trimmed and not blank, and only edges between two concepts it kept.
\<close>

theorem parse_obographs_sound:
  assumes "parse_obographs doc pre = (cs, es)"
  shows "(\<forall>c \<in> set cs. starts_with (curie c) (ascii_uppercase pre @ '':'') \<and> pc_label c \<noteq> []
        \<and> trim (pc_label c) = pc_label c \<and> [] \<notin> set (pc_synonyms c))
    \<and> (\<forall>(child, parent) \<in> set es. child \<in> curie ` set cs \<and> parent \<in> curie ` set cs)"
proof
  have cs: "cs = List.map_filter (parse_node (ascii_uppercase pre)) (concat (map obo_nodes (graphs doc)))"
    and es: "es = List.map_filter (parse_edge (map curie cs)) (concat (map obo_edges (graphs doc)))"
    using assms unfolding parse_obographs_def Let_def by blast+
  show "\<forall>c \<in> set cs. starts_with (curie c) (ascii_uppercase pre @ '':'') \<and> pc_label c \<noteq> []
        \<and> trim (pc_label c) = pc_label c \<and> [] \<notin> set (pc_synonyms c)"
  proof
    fix c assume "c \<in> set cs"
    then obtain n where "parse_node (ascii_uppercase pre) n = Some c"
      unfolding cs List.map_filter_def by auto
    then show "starts_with (curie c) (ascii_uppercase pre @ '':'') \<and> pc_label c \<noteq> []
        \<and> trim (pc_label c) = pc_label c \<and> [] \<notin> set (pc_synonyms c)"
      by (auto simp: parse_node_def node_synonyms_def split: if_splits option.splits)
  qed
  show "\<forall>(child, parent) \<in> set es. child \<in> curie ` set cs \<and> parent \<in> curie ` set cs"
    unfolding es List.map_filter_def
    by (auto simp: parse_edge_def split: if_splits option.splits)
qed

theorem parse_obographs_sound_witness:
  "\<forall>(child, parent) \<in> set (snd (parse_obographs addison_doc ''mondo'')).
     child \<in> curie ` set (fst (parse_obographs addison_doc ''mondo''))"
  using parse_obographs_sound [of addison_doc "''mondo''"] by (auto simp: prod_eq_iff)

section \<open>The embedding pass\<close>

lemma embed_round_frame:
  "embed_round v onto db = (x, db') \<Longrightarrow> concepts db' = concepts db \<and> set (embeddings db) \<subseteq> set (embeddings db')"
  using insert_embeddings_effect
  by (fastforce simp: embed_round_def Let_def split: if_splits option.splits prod.splits)

lemma embed_round_counts:
  assumes "embed_round v onto db = (Some n, db')" "distinct (map con_id (concepts db))"
  shows "length (unembedded_concepts onto db) = n + length (unembedded_concepts onto db')"
proof -
  note eff = embed_round_effect [OF assms(1)]
  let ?U = "unembedded_concepts onto db" and ?N = "next_concepts onto db"
  have dU: "distinct (map con_id ?U)"
    unfolding unembedded_concepts_def using assms(2) by (rule distinct_map_filter)
  then have inj: "inj_on con_id (set ?U)" and d: "distinct ?U" by (simp_all add: distinct_map)
  have dN: "distinct ?N" unfolding next_concepts_def using d by (intro distinct_take) simp
  have NU: "set ?N \<subseteq> set ?U" by (rule set_next_concepts)
  have "unembedded_concepts onto db' = filter (\<lambda>c. c \<notin> set ?N) ?U"
    unfolding unembedded_concepts_def eff(2) filter_filter
  proof (rule filter_cong [OF refl])
    fix c assume c: "c \<in> set (concepts db)"
    have "con_id c \<in> con_id ` set ?N \<longleftrightarrow> c \<in> set ?N" if "lacks_embedding onto db c"
    proof -
      have "c \<in> set ?U" using c that by (simp add: unembedded_concepts_def)
      with inj NU show ?thesis by (auto dest: inj_onD)
    qed
    then show "lacks_embedding onto db' c = (lacks_embedding onto db c \<and> c \<notin> set ?N)"
      by (auto simp: lacks_embedding_def eff(4))
  qed
  then have "length (unembedded_concepts onto db') = card (set ?U - set ?N)"
    using d by (simp add: distinct_length_filter Int_commute set_diff_eq Collect_conj_eq flip: distinct_card)
  also have "\<dots> = length ?U - length ?N"
    using NU d dN by (simp add: card_Diff_subset distinct_card)
  finally show ?thesis
    using eff(1) NU d dN by (metis card_mono distinct_card finite_set le_add_diff_inverse)
qed

text \<open>
  C33. The embedding pass is resumable and complete. It ends, for every behaviour of the
  inference service; when it succeeds, every concept of the ontology asked for has an
  embedding and the count is the number of concepts that had none; when it fails, no
  embedding that was there is lost, so a later run goes on from there.
\<close>

theorem embed_concepts_complete:
  assumes "distinct (map con_id (concepts db))" and "embed_concepts v onto db = (r, db')"
  shows "concepts db' = concepts db \<and> set (embeddings db) \<subseteq> set (embeddings db')
    \<and> (\<forall>n. r = Some n \<longrightarrow> unembedded_concepts onto db' = [] \<and> n = length (unembedded_concepts onto db))"
  using assms
proof (induction v onto db arbitrary: r db' rule: embed_concepts.induct)
  case (1 v onto db)
  obtain x db1 where one: "embed_round v onto db = (x, db1)" by (meson surj_pair)
  note frame = embed_round_frame [OF one]
  show ?case
  proof (cases x)
    case None
    with 1(3) one frame show ?thesis by (simp add: embed_concepts.simps)
  next
    case (Some n)
    note eff = embed_round_effect [OF one [unfolded Some]]
    show ?thesis
    proof (cases "n = 0")
      case True
      then have "unembedded_concepts onto db = []" using eff(1) next_concepts_Nil by fastforce
      moreover from this have "unembedded_concepts onto db1 = []"
        using embed_round_counts [OF one [unfolded Some] 1(2)] True by simp
      ultimately show ?thesis
        using 1(3) one frame Some True by (auto simp: embed_concepts.simps [of v onto db])
    next
      case False
      obtain y db2 where two: "embed_concepts v onto db1 = (y, db2)" by (meson surj_pair)
      have res: "r = map_option ((+) n) y" "db' = db2"
        using 1(3) one two Some False by (simp_all add: embed_concepts.simps [of v onto db])
      have "distinct (map con_id (concepts db1))" using 1(2) frame by simp
      note IH = 1(1) [OF one [symmetric] Some False this two]
      have "length (unembedded_concepts onto db) = n + length (unembedded_concepts onto db1)"
        by (rule embed_round_counts [OF one [unfolded Some] 1(2)])
      with IH res frame show ?thesis by auto
    qed
  qed
qed

theorem embed_concepts_complete_witness:
  "\<exists>db'. embed_concepts plain_services None (onto_of [concept_named 1 ''Gout'']) = (Some 1, db')
    \<and> unembedded_concepts None db' = []"
proof -
  let ?db = "onto_of [concept_named 1 ''Gout'']"
  obtain r db' where run: "embed_concepts plain_services None ?db = (r, db')" by (meson surj_pair)
  have nxt: "next_concepts None ?db = [concept_named 1 ''Gout'']"
    by (simp add: next_concepts_def unembedded_concepts_def lacks_embedding_def onto_of_def CONCEPT_EMBED_BATCH_def)
  have reply: "embed_dense plain_services [t] False = Some [replicate 768 1]" for t
    by (simp add: embed_dense_def plain_services_def accept_json_def)
  obtain db1 where one: "embed_round plain_services None ?db = (Some 1, db1)" and
    up: "onto_up db1" and all: "unembedded_concepts None db1 = []"
    unfolding embed_round_def nxt using reply
    by (simp add: onto_of_def CONCEPT_DIM_def unembedded_concepts_def lacks_embedding_def concept_named_def)
  have "embed_round plain_services None db1 = (Some 0, db1)"
    using up all by (simp add: embed_round_def next_concepts_Nil)
  with one run have "r = Some 1" by (simp add: embed_concepts.simps)
  moreover have "distinct (map con_id (concepts ?db))" by (simp add: onto_of_def)
  ultimately show ?thesis
    using embed_concepts_complete [OF _ run] run by blast
qed

section \<open>Links\<close>

lemma lexical_all_nth:
  "lexical_all ms db = Some out \<Longrightarrow>
    length out = length ms \<and> (\<forall>i < length ms. lexical_match (ms ! i) db = Some (out ! i))"
proof (induction ms arbitrary: out)
  case (Cons m ms)
  then obtain hit rest where "lexical_match m db = Some hit" "lexical_all ms db = Some rest" "out = hit # rest"
    by (auto split: option.splits)
  with Cons.IH show ?case by (auto simp: nth_Cons split: nat.splits)
qed simp

lemma embedding_match_score:
  "embedding_match nearest vec threshold db = Some (Some m) \<Longrightarrow> threshold \<le> m_score m \<and> m_method m = ''embedding''"
  by (auto simp: embedding_match_def Let_def match_of_def split: if_splits option.splits)

lemma fill_slots_nth:
  "fill_slots nearest threshold db ps out = Some out' \<Longrightarrow>
    length out' = length out
    \<and> (\<forall>i < length out. out' ! i = out ! i \<or> i \<in> fst ` set ps
        \<and> (\<exists>m. out' ! i = Some m \<and> threshold \<le> m_score m \<and> m_method m = ''embedding''))"
proof (induction ps arbitrary: out)
  case (Cons p ps)
  obtain slot vec where p: "p = (slot, vec)" by (cases p)
  show ?case
  proof (cases "embedding_match nearest vec threshold db")
    case (Some hit)
    show ?thesis
    proof (cases hit)
      case None
      with Some Cons p show ?thesis by auto
    next
      case (Some m)
      with \<open>embedding_match nearest vec threshold db = Some hit\<close> Cons.prems p
      have "fill_slots nearest threshold db ps (out[slot := hit]) = Some out'" by simp
      note IH = Cons.IH [OF this]
      have m: "threshold \<le> m_score m \<and> m_method m = ''embedding''"
        using embedding_match_score \<open>embedding_match nearest vec threshold db = Some hit\<close> Some by blast
      have "out' ! i = out ! i \<or> i \<in> fst ` set (p # ps)
          \<and> (\<exists>m. out' ! i = Some m \<and> threshold \<le> m_score m \<and> m_method m = ''embedding'')"
        if i: "i < length out" for i
      proof (cases "i = slot")
        case True
        with IH i m Some p show ?thesis by auto
      next
        case False
        with IH i show ?thesis by auto
      qed
      with IH show ?thesis by simp
    qed
  qed (use Cons p in simp)
qed simp

text \<open>
  Linking answers every mention in its own slot. A mention with a lexical match gets that
  match, whatever the embeddings say; any other link comes from the nearest neighbour and its
  score clears the threshold; a failing inference service costs the embedding links only.
\<close>

theorem link_mentions_slots:
  assumes "link_mentions v nearest env mentions db = Some out"
  shows "length out = length mentions"
    and "\<forall>i < length mentions.
      (\<forall>m. lexical_match (mentions ! i) db = Some (Some m) \<longrightarrow> out ! i = Some m)
      \<and> (\<forall>m. out ! i = Some m \<longrightarrow> lexical_match (mentions ! i) db = Some (Some m)
           \<or> link_sim_threshold env \<le> m_score m \<and> m_method m = ''embedding'')"
proof -
  obtain lex where lex: "lexical_all mentions db = Some lex"
    using assms by (auto simp: link_mentions_def split: option.splits)
  note L = lexical_all_nth [OF lex]
  let ?slots = "filter (\<lambda>i. lex ! i = None) [0..<length lex]"
  consider "out = lex"
    | vectors where "fill_slots nearest (link_sim_threshold env) db (zip ?slots vectors) lex = Some out"
  proof -
    define sl where "sl = ?slots"
    note run = assms [unfolded link_mentions_def lex option.case Let_def, folded sl_def]
    show thesis
    proof (cases "sl = []")
      case True
      with run that(1) show thesis by simp
    next
      case False
      show thesis
      proof (cases "embed_dense v (map (\<lambda>i. mentions ! i) sl) True")
        case None
        with run False that(1) show thesis by simp
      next
        case (Some vectors)
        show thesis
        proof (cases "length vectors = length sl")
          case True
          with run False Some have "fill_slots nearest (link_sim_threshold env) db (zip sl vectors) lex = Some out"
            by simp
          then show thesis unfolding sl_def by (rule that(2))
        next
          case len: False
          with run False Some have "out = lex" by simp
          then show thesis by (rule that(1))
        qed
      qed
    qed
  qed
  then have "length out = length lex \<and> (\<forall>i < length lex. out ! i = lex ! i \<or> lex ! i = None
      \<and> (\<exists>m. out ! i = Some m \<and> link_sim_threshold env \<le> m_score m \<and> m_method m = ''embedding''))"
  proof cases
    case 2
    have none: "lex ! i = None" if "i \<in> fst ` set (zip ?slots vectors)" for i
    proof -
      from that obtain p where "p \<in> set (zip ?slots vectors)" "i = fst p" by blast
      then have "i \<in> set ?slots" by (metis prod.collapse set_zip_leftD)
      then show ?thesis by simp
    qed
    note F = fill_slots_nth [OF 2]
    have "out ! i = lex ! i \<or> lex ! i = None
        \<and> (\<exists>m. out ! i = Some m \<and> link_sim_threshold env \<le> m_score m \<and> m_method m = ''embedding'')"
      if "i < length lex" for i
      using conjunct2 [OF F, rule_format, OF that] none [of i] by metis
    with conjunct1 [OF F] show ?thesis by metis
  next
    case 1
    then show ?thesis by simp
  qed
  then have len: "length out = length lex"
    and alt: "\<And>i. i < length lex \<Longrightarrow> out ! i = lex ! i \<or> lex ! i = None
      \<and> (\<exists>m. out ! i = Some m \<and> link_sim_threshold env \<le> m_score m \<and> m_method m = ''embedding'')"
    by blast+
  show "length out = length mentions" using len L by simp
  show "\<forall>i < length mentions.
      (\<forall>m. lexical_match (mentions ! i) db = Some (Some m) \<longrightarrow> out ! i = Some m)
      \<and> (\<forall>m. out ! i = Some m \<longrightarrow> lexical_match (mentions ! i) db = Some (Some m)
           \<or> link_sim_threshold env \<le> m_score m \<and> m_method m = ''embedding'')"
  proof (intro allI impI)
    fix i assume i: "i < length mentions"
    then have lm: "lexical_match (mentions ! i) db = Some (lex ! i)" using L by simp
    show "(\<forall>m. lexical_match (mentions ! i) db = Some (Some m) \<longrightarrow> out ! i = Some m)
      \<and> (\<forall>m. out ! i = Some m \<longrightarrow> lexical_match (mentions ! i) db = Some (Some m)
           \<or> link_sim_threshold env \<le> m_score m \<and> m_method m = ''embedding'')"
      using alt [of i] i L unfolding lm by auto
  qed
qed

theorem link_mentions_slots_witness:
  "\<exists>out. link_mentions plain_services (\<lambda>_ _. None) \<lparr>var = (\<lambda>_. None), parse_f64 = (\<lambda>_. None)\<rparr>
       [''Addison's disease''] (onto_of [concept_named 2 ''Addison disease'']) = Some out
     \<and> out = [Some (match_of (concept_named 2 ''Addison disease'') 1 ''lexical'')]"
proof -
  let ?env = "\<lparr>var = (\<lambda>_. None), parse_f64 = (\<lambda>_. None)\<rparr>" and ?db = "onto_of [concept_named 2 ''Addison disease'']"
  have lex: "lexical_match ''Addison's disease'' ?db = Some (Some (match_of (concept_named 2 ''Addison disease'') 1 ''lexical''))"
  proof -
    have n: "normalize_label ''Addison's disease'' = ''addison disease''"
      "normalize_label ''Addison disease'' = ''addison disease''"
      and c: "candidate (hd (split_on CHR '' '' ''addison disease'')) (concept_named 2 ''Addison disease'')"
      by code_simp+
    show ?thesis using c
      by (simp add: lexical_match_def n onto_of_def CANDIDATE_LIMIT_def same_label_def)
        (simp add: concept_named_def n)
  qed
  then have run: "link_mentions plain_services (\<lambda>_ _. None) ?env [''Addison's disease''] ?db =
      Some [Some (match_of (concept_named 2 ''Addison disease'') 1 ''lexical'')]"
    by (simp add: link_mentions_def)
  show ?thesis using link_mentions_slots(2) [OF run] lex run by simp
qed

end
