(* ===== verification/Knowledge.thy ===== *)
theory Knowledge
  imports Ingest Ontology
begin

text \<open>
  The tables of the knowledge plane (migrations \<open>0003_knowledge.sql\<close>, \<open>0013_claims_grounding.sql\<close>,
  \<open>0004_study.sql\<close>) and the state the knowledge pipeline runs on: the ingest pipeline's state,
  the shared ontology tables and these tenant tables. A statement under \<open>set_tenant\<close> sees the
  tenant's rows; \<open>know_now\<close> is the transaction time, and one transaction's rows share it.
\<close>

record claim_row =
  cl_id :: uuid
  cl_tenant :: uuid
  cl_topic :: "string option"
  cl_concept :: "uuid option"
  cl_type :: string
  cl_text :: string
  cl_meaning :: "string option"
  cl_status :: string
  cl_created :: nat

record source_row =
  so_tenant :: uuid
  so_claim :: uuid
  so_document :: uuid
  so_block :: "uuid option"

record review_row =
  rv_id :: uuid
  rv_tenant :: uuid
  rv_kind :: string
  rv_ref :: uuid
  rv_reason :: string
  rv_status :: string

record topic_row =
  tp_id :: uuid
  tp_tenant :: uuid
  tp_concept :: "uuid option"
  tp_title :: string
  tp_version :: int
  tp_page :: "string option"
  tp_updated :: nat

record version_row =
  tv_topic :: uuid
  tv_tenant :: uuid
  tv_version :: int
  tv_page :: "string option"
  tv_changelog :: "string option"

record card_row =
  cd_id :: uuid
  cd_tenant :: uuid
  cd_topic :: "uuid option"
  cd_front :: string
  cd_back :: string

record node_row =
  nd_id :: uuid
  nd_tenant :: uuid
  nd_kind :: string
  nd_label :: string
  nd_concept :: "uuid option"
  nd_description :: "string option"

record edge_rec =
  ed_tenant :: uuid
  ed_src :: uuid
  ed_dst :: uuid
  ed_rel :: string
  ed_weight :: f64
  ed_claim :: "uuid option"

record knowledge_db =
  claims :: "claim_row list"
  claim_sources :: "source_row list"
  review_queue :: "review_row list"
  topics :: "topic_row list"
  topic_versions :: "version_row list"
  cards :: "card_row list"
  graph_nodes :: "node_row list"
  graph_edges :: "edge_rec list"
  know_supply :: uuid
  know_now :: nat
  know_up :: bool

record extracted_claim =
  ex_text :: string
  ex_subject :: "string option"
  ex_type :: "string option"

text \<open>
  What the pipeline is given: the ingest environment, the vector index over concepts, the JSON
  reader at the two types it is used at, and the one character of a prompt that is not Latin-1.
\<close>

record knowledge_env =
  ing :: ingest_env
  near :: nearest_fn
  read_claims :: "string \<Rightarrow> extracted_claim list option"
  read_claim :: "string \<Rightarrow> extracted_claim option"
  em_dash :: char

record world =
  pipe :: pipeline
  onto :: ontology_db
  know :: knowledge_db

type_synonym 'a job_step = "world \<Rightarrow> 'a option \<times> world"

definition step_then :: "'a job_step \<Rightarrow> ('a \<Rightarrow> 'b job_step) \<Rightarrow> 'b job_step" where
  "step_then m f s = (case m s of (None, s') \<Rightarrow> (None, s') | (Some x, s') \<Rightarrow> f x s')"

definition on_know :: "(knowledge_db \<Rightarrow> 'a option \<times> knowledge_db) \<Rightarrow> 'a job_step" where
  "on_know f s = (let (r, k) = f (know s) in (r, s\<lparr>know := k\<rparr>))"

definition on_llm :: "(llm_state \<Rightarrow> 'a \<times> llm_state) \<Rightarrow> world \<Rightarrow> 'a \<times> world" where
  "on_llm f s = (let (r, l) = f (llm (pipe s)) in (r, s\<lparr>pipe := (pipe s)\<lparr>llm := l\<rparr>\<rparr>))"

text \<open>The organisation's settings, through the settings store's cache.\<close>

definition org_config :: "knowledge_env \<Rightarrow> uuid \<Rightarrow> json job_step" where
  "org_config e tenant = on_llm (\<lambda>l. let (cfg, st) = resolve_org (genv (gw (ing e))) tenant (settings l)
     in (cfg, l\<lparr>settings := st\<rparr>))"

definition ask :: "knowledge_env \<Rightarrow> uuid \<Rightarrow> llm_task \<Rightarrow> string \<Rightarrow> string \<Rightarrow> world \<Rightarrow> completion option \<times> world" where
  "ask e tenant task system prompt = on_llm (complete_metered (gw (ing e)) tenant None task system prompt)"

lemma step_then_SomeE:
  assumes "step_then m f s = (Some r, s')"
  obtains x s1 where "m s = (Some x, s1)" "f x s1 = (Some r, s')"
  using assms by (auto simp: step_then_def split: prod.splits option.splits)

lemma on_know_frame [simp]: "on_know f s = (r, s') \<Longrightarrow> pipe s' = pipe s \<and> onto s' = onto s"
  by (auto simp: on_know_def split: prod.splits)

lemma on_llm_frame: "on_llm f s = (r, s') \<Longrightarrow> know s' = know s \<and> onto s' = onto s
    \<and> queue (pipe s') = queue (pipe s) \<and> tables (pipe s') = tables (pipe s) \<and> blobs (pipe s') = blobs (pipe s)"
  by (auto simp: on_llm_def split: prod.splits)

lemma org_config_frame: "org_config e t s = (r, s') \<Longrightarrow> know s' = know s \<and> onto s' = onto s
    \<and> queue (pipe s') = queue (pipe s) \<and> tables (pipe s') = tables (pipe s) \<and> blobs (pipe s') = blobs (pipe s)"
  unfolding org_config_def by (rule on_llm_frame)

lemma ask_frame: "ask e t k sy u s = (r, s') \<Longrightarrow> know s' = know s \<and> onto s' = onto s
    \<and> queue (pipe s') = queue (pipe s) \<and> tables (pipe s') = tables (pipe s) \<and> blobs (pipe s') = blobs (pipe s)"
  unfolding ask_def by (rule on_llm_frame)

section \<open>What a step may do\<close>

text \<open>
  The interface of the frame arguments: a relation between the states before and after a step
  that is reflexive and transitive holds of a whole pipeline once it holds of its steps. Each
  component that claims something of a pipeline interprets it with its own relation.
\<close>

definition keeps :: "(world \<Rightarrow> world \<Rightarrow> bool) \<Rightarrow> 'a job_step \<Rightarrow> bool" where
  "keeps R m = (\<forall>s r s'. m s = (r, s') \<longrightarrow> R s s')"

lemma keepsI: "(\<And>s r s'. m s = (r, s') \<Longrightarrow> R s s') \<Longrightarrow> keeps R m"
  by (simp add: keeps_def)

lemma keepsD: "keeps R m \<Longrightarrow> m s = (r, s') \<Longrightarrow> R s s'"
  by (simp add: keeps_def)

locale effect_order =
  fixes R :: "world \<Rightarrow> world \<Rightarrow> bool"
  assumes R_refl: "R s s" and R_trans: "R s s1 \<Longrightarrow> R s1 s2 \<Longrightarrow> R s s2"
begin

lemma keeps_return: "keeps R (\<lambda>s. (x, s))"
  by (simp add: keeps_def R_refl)

lemma keeps_then:
  assumes m: "keeps R m" and f: "\<And>x. keeps R (f x)"
  shows "keeps R (step_then m f)"
proof (rule keepsI)
  fix s r s' assume run: "step_then m f s = (r, s')"
  obtain x s1 where x: "m s = (x, s1)" by (meson surj_pair)
  show "R s s'"
  proof (cases x)
    case None
    with run x keepsD [OF m x] show ?thesis by (simp add: step_then_def)
  next
    case (Some y)
    with run x have "f y s1 = (r, s')" by (simp add: step_then_def)
    from R_trans [OF keepsD [OF m x] keepsD [OF f this]] show ?thesis .
  qed
qed

lemma keeps_run:
  assumes run: "m s = (x, s1)" "keeps R m" and rest: "g s1 = (r, s')" "keeps R g"
  shows "R s s'"
  using R_trans [OF keepsD [OF run(2,1)] keepsD [OF rest(2,1)]] .

end

end
