(* ===== verification/Claims.thy ===== *)
theory Claims
  imports Knowledge
begin

text \<open>
  \<open>insight-core/src/claims.rs\<close> (claim extraction from a document's chunks) and
  \<open>insight-core/src/correlate.rs\<close> (deduplication and contradiction flagging). The JSON reader
  is the environment's \<open>read_claims\<close>/\<open>read_claim\<close>; the cutting of the model's reply around
  it is modelled. A hash map's walk order is \<open>map_order\<close> of the services.
\<close>

section \<open>Reading the model's reply\<close>

definition parse_claims :: "knowledge_env \<Rightarrow> string \<Rightarrow> extracted_claim list" where
  "parse_claims e raw =
     (let trimmed = trim (trim_start_matches ''```'' (trim_start_matches ''```json'' (trim raw)))
      in case (find_char CHR ''['' trimmed, rfind_char CHR '']'' trimmed) of
           (Some a, Some b) \<Rightarrow>
             if b > a
             then let piece = drop a (take (b + 1) trimmed);
                      items = (case read_claims e piece of Some cs \<Rightarrow> cs
                               | None \<Rightarrow> (case read_claim e piece of Some c \<Rightarrow> [c] | None \<Rightarrow> []))
                  in filter (\<lambda>c. trim (ex_text c) \<noteq> []) items
             else []
         | _ \<Rightarrow> [])"

definition normalize :: "string \<Rightarrow> string" where
  "normalize s = join_str '' ''
     (split_whitespace (map (\<lambda>c. if is_alphanumeric c then c else CHR '' '') (lowercase s)))"

section \<open>Extraction\<close>

definition EXTRACT_SYSTEM :: string where
  "EXTRACT_SYSTEM = ''You extract atomic, self-contained factual claims from a text '' @
     ''excerpt. Return ONLY a JSON array (no prose, no markdown fences) of at most 8 objects, each '' @
     ''with: \"claim_text\" (one standalone declarative sentence), \"subject\" (the main entity or '' @
     ''concept the claim is about), and \"type\" (one of fact, definition, process, comparison). '' @
     ''Only include claims explicitly supported by the text. If none, return [].''"

definition document_chunks :: "uuid \<Rightarrow> uuid \<Rightarrow> library_db \<Rightarrow> (int \<times> chunk_row) list" where
  "document_chunks tenant doc db =
     [(page_number p, c). c \<leftarrow> chunks db, chunk_tenant c = tenant, b \<leftarrow> blocks db, block_tenant b = tenant,
        chunk_block c = Some (block_key b), p \<leftarrow> pages db, page_tenant p = tenant,
        page_key p = block_page b \<and> page_doc p = doc]"

definition load_chunks :: "uuid \<Rightarrow> uuid \<Rightarrow> nat \<Rightarrow> library_db \<Rightarrow> chunk_row list option" where
  "load_chunks tenant doc limit db =
     (if \<not> db_up db then None
      else Some (map snd (take limit (sort_key fst (document_chunks tenant doc db)))))"

definition claim_of :: "uuid \<Rightarrow> uuid \<Rightarrow> nat \<Rightarrow> extracted_claim \<Rightarrow> concept_match option \<Rightarrow> claim_row" where
  "claim_of tenant k now c m =
     \<lparr>cl_id = k, cl_tenant = tenant,
      cl_topic = (case m of Some cm \<Rightarrow> Some (m_label cm) | None \<Rightarrow> ex_subject c),
      cl_concept = map_option m_concept m,
      cl_type = (case ex_type c of None \<Rightarrow> ''fact'' | Some t \<Rightarrow> if t = [] then ''fact'' else t),
      cl_text = ex_text c, cl_meaning = Some (normalize (ex_text c)), cl_status = ''pending'',
      cl_created = now\<rparr>"

text \<open>One chunk's claims are one transaction; a claim's document and block must be the tenant's.\<close>

fun insert_claims ::
  "uuid \<Rightarrow> uuid \<Rightarrow> uuid option \<Rightarrow> (extracted_claim \<times> concept_match option) list \<Rightarrow> knowledge_db \<Rightarrow> knowledge_db" where
  "insert_claims tenant doc block [] db = db"
| "insert_claims tenant doc block ((c, m) # rest) db =
     insert_claims tenant doc block rest
       (db\<lparr>claims := claims db @ [claim_of tenant (know_supply db) (know_now db) c m],
           claim_sources := claim_sources db @
             [\<lparr>so_tenant = tenant, so_claim = know_supply db, so_document = doc, so_block = block\<rparr>],
           know_supply := know_supply db + 1\<rparr>)"

definition claims_tx ::
  "library_db \<Rightarrow> uuid \<Rightarrow> uuid \<Rightarrow> uuid option \<Rightarrow> (extracted_claim \<times> concept_match option) list
    \<Rightarrow> knowledge_db \<Rightarrow> nat option \<times> knowledge_db" where
  "claims_tx ldb tenant doc block cms db =
     (if \<not> know_up db \<or> \<not> list_ex (\<lambda>d. doc_key d = doc \<and> doc_tenant d = tenant) (documents ldb)
         \<or> \<not> block_known ldb tenant block
      then (None, db) else (Some (length cms), insert_claims tenant doc block cms db))"

definition mine_chunk :: "knowledge_env \<Rightarrow> uuid \<Rightarrow> uuid \<Rightarrow> chunk_row \<Rightarrow> nat job_step" where
  "mine_chunk e tenant doc chunk s =
     (case ask e tenant Extraction EXTRACT_SYSTEM (take 2000 (body chunk)) s of
        (None, s) \<Rightarrow> (Some 0, s)
      | (Some c, s) \<Rightarrow>
          let extracted = parse_claims e (reply_text c)
          in if extracted = [] then (Some 0, s)
             else let subjects = map (\<lambda>c. case ex_subject c of Some x \<Rightarrow> x | None \<Rightarrow> []) extracted;
                      matches = (case link_mentions (svc (ing e)) (near e) (genv (gw (ing e))) subjects (onto s) of
                                   Some ms \<Rightarrow> ms | None \<Rightarrow> replicate (length extracted) None)
                  in on_know (claims_tx (tables (pipe s)) tenant doc (chunk_block chunk) (zip extracted matches)) s)"

fun mine_chunks :: "knowledge_env \<Rightarrow> uuid \<Rightarrow> uuid \<Rightarrow> chunk_row list \<Rightarrow> nat job_step" where
  "mine_chunks e tenant doc [] s = (Some 0, s)"
| "mine_chunks e tenant doc (c # cs) s =
     step_then (mine_chunk e tenant doc c)
       (\<lambda>n. step_then (mine_chunks e tenant doc cs) (\<lambda>k s. (Some (n + k), s))) s"

definition extract_claims :: "knowledge_env \<Rightarrow> uuid \<Rightarrow> uuid \<Rightarrow> nat job_step" where
  "extract_claims e tenant doc = step_then (org_config e tenant) (\<lambda>cfg s.
     let max_chunks = nat (max (org_i64 cfg ''claimsMaxChunks'' 60) 0)
     in if max_chunks = 0 then (Some 0, s)
        else case load_chunks tenant doc max_chunks (tables (pipe s)) of
            None \<Rightarrow> (None, s)
          | Some cs \<Rightarrow> mine_chunks e tenant doc cs s)"

section \<open>Correlation\<close>

record correlate_report =
  examined :: nat
  duplicates :: nat
  conflicts :: nat

definition negations :: "string list" where
  "negations = [''not'', ''no'', ''never'', ''cannot'', ''without'', ''neither'']"

definition content_words :: "string \<Rightarrow> string list" where
  "content_words s = remdups (filter (\<lambda>w. w \<notin> set (negations @ [''is'', ''are'', ''the'', ''a'', ''an'', ''of'']))
     (split_whitespace s))"

definition negated :: "string \<Rightarrow> bool" where
  "negated s = list_ex (\<lambda>w. w \<in> set negations) (split_whitespace s)"

definition contradicts :: "string \<Rightarrow> string \<Rightarrow> bool" where
  "contradicts a b =
     (if a = [] \<or> b = [] then False
      else if negated a = negated b then False
      else let wa = content_words a; wb = content_words b
           in if wa = [] \<or> wb = [] then False
              else real (length (filter (\<lambda>w. w \<in> set wb) wa)) / real (min (length wa) (length wb)) \<ge> 0.6)"

definition meaning_of :: "claim_row \<Rightarrow> string" where
  "meaning_of c = (case cl_meaning c of None \<Rightarrow> [] | Some m \<Rightarrow> m)"

definition group_key :: "claim_row \<Rightarrow> string" where
  "group_key c = (case cl_concept c of Some k \<Rightarrow> show_nat k
      | None \<Rightarrow> (case cl_topic c of Some t \<Rightarrow> t | None \<Rightarrow> [])) @ ''::'' @ meaning_of c"

definition pending_claims :: "uuid \<Rightarrow> nat \<Rightarrow> knowledge_db \<Rightarrow> claim_row list" where
  "pending_claims tenant limit db = take limit (sort_key (\<lambda>c. - int (cl_created c))
     (filter (\<lambda>c. cl_tenant c = tenant \<and> cl_status c = ''pending'') (claims db)))"

fun duplicate_ids :: "string list \<Rightarrow> claim_row list \<Rightarrow> uuid list" where
  "duplicate_ids seen [] = []"
| "duplicate_ids seen (c # cs) =
     (let key = group_key c
      in if ends_with key ''::'' then duplicate_ids seen cs
         else if key \<in> set seen then cl_id c # duplicate_ids seen cs
         else duplicate_ids (key # seen) cs)"

fun conflict_pairs :: "claim_row list \<Rightarrow> uuid list" where
  "conflict_pairs [] = []"
| "conflict_pairs (c # cs) =
     map cl_id (filter (\<lambda>d. contradicts (meaning_of c) (meaning_of d)) cs) @ conflict_pairs cs"

definition conflict_ids :: "(uuid list \<Rightarrow> uuid list) \<Rightarrow> claim_row list \<Rightarrow> uuid list" where
  "conflict_ids order cs = concat (map (\<lambda>k. conflict_pairs (filter (\<lambda>c. cl_concept c = Some k) cs))
     (order (remdups (List.map_filter cl_concept cs))))"

definition set_claim_status :: "(claim_row \<Rightarrow> bool) \<Rightarrow> string \<Rightarrow> knowledge_db \<Rightarrow> knowledge_db" where
  "set_claim_status P st db = db\<lparr>claims := update_where P (\<lambda>c. c\<lparr>cl_status := st\<rparr>) (claims db)\<rparr>"

definition mark_duplicate :: "uuid \<Rightarrow> uuid \<Rightarrow> knowledge_db \<Rightarrow> knowledge_db" where
  "mark_duplicate tenant k =
     set_claim_status (\<lambda>c. cl_tenant c = tenant \<and> cl_id c = k \<and> cl_status c = ''pending'') ''duplicate''"

definition flag_conflict :: "uuid \<Rightarrow> uuid \<Rightarrow> knowledge_db \<Rightarrow> knowledge_db" where
  "flag_conflict tenant k db =
     set_claim_status (\<lambda>c. cl_tenant c = tenant \<and> cl_id c = k) ''needs_review''
       (db\<lparr>review_queue := review_queue db @ [\<lparr>rv_id = know_supply db, rv_tenant = tenant, rv_kind = ''claim'',
             rv_ref = k, rv_reason = ''contradiction'', rv_status = ''open''\<rparr>],
           know_supply := know_supply db + 1\<rparr>)"

definition correlate_db ::
  "(uuid list \<Rightarrow> uuid list) \<Rightarrow> uuid \<Rightarrow> nat \<Rightarrow> bool \<Rightarrow> bool \<Rightarrow> knowledge_db \<Rightarrow> correlate_report option \<times> knowledge_db" where
  "correlate_db order tenant limit require_review conflict_enabled db =
     (if \<not> know_up db then (None, db)
      else let cs = pending_claims tenant limit db;
               dups = duplicate_ids [] cs;
               confs = (if conflict_enabled then conflict_ids order cs else []);
               db1 = fold (mark_duplicate tenant) dups db;
               db2 = (if require_review then fold (flag_conflict tenant) confs db1 else db1)
           in if cs = [] then (Some \<lparr>examined = 0, duplicates = 0, conflicts = 0\<rparr>, db)
              else (Some \<lparr>examined = length cs, duplicates = length dups, conflicts = length confs\<rparr>, db2))"

definition correlate :: "knowledge_env \<Rightarrow> uuid \<Rightarrow> correlate_report job_step" where
  "correlate e tenant = step_then (org_config e tenant) (\<lambda>cfg.
     on_know (correlate_db (map_order (svc (ing e))) tenant
       (nat (clamp (org_i64 cfg ''maxCorrelateClaims'' 120) 1 5000))
       (org_bool cfg ''requireReview'' True) (org_bool cfg ''conflictEnabled'' True)))"

section \<open>The normal form of a claim\<close>

lemma split_by_blank:
  "split_by is_whitespace (map (\<lambda>c. if is_alphanumeric c then c else CHR '' '') (lowercase s)) =
    map lowercase (split_by (\<lambda>c. \<not> is_alphanumeric c) s)"
proof (induction s)
  case (Cons c s)
  then show ?case
    by (auto simp: lowercase_def alphanumeric_not_space split: list.splits)
qed (simp add: lowercase_def)

lemma normalize_words: "normalize s = join_str '' '' (label_words s)"
proof -
  have "split_whitespace (map (\<lambda>c. if is_alphanumeric c then c else CHR '' '') (lowercase s)) = label_words s"
    unfolding split_whitespace_def split_by_blank label_words_def by (simp add: filter_map o_def)
  then show ?thesis by (simp add: normalize_def)
qed

section \<open>Contradiction is symmetric\<close>

lemma common_count:
  assumes "distinct xs" "distinct ys"
  shows "length (filter (\<lambda>w. w \<in> set ys) xs) = length (filter (\<lambda>w. w \<in> set xs) ys)"
proof -
  have "length (filter (\<lambda>w. w \<in> set ys) xs) = card (set xs \<inter> set ys)"
    using assms(1) by (metis distinct_card distinct_filter inter_set_filter inf_commute)
  moreover have "length (filter (\<lambda>w. w \<in> set xs) ys) = card (set ys \<inter> set xs)"
    using assms(2) by (metis distinct_card distinct_filter inter_set_filter inf_commute)
  ultimately show ?thesis by (simp add: inf_commute)
qed

lemma contradicts_sym: "contradicts a b = contradicts b a"
proof -
  have "distinct (content_words x)" for x by (simp add: content_words_def)
  then show ?thesis
    using common_count [of "content_words a" "content_words b"]
    by (auto simp: contradicts_def Let_def min.commute)
qed

section \<open>A correlation pass settles the pending claims\<close>

lemma mark_duplicate_eq:
  "mark_duplicate t k db = db\<lparr>claims := map (\<lambda>c.
     if cl_tenant c = t \<and> cl_id c = k \<and> cl_status c = ''pending'' then c\<lparr>cl_status := ''duplicate''\<rparr> else c)
     (claims db)\<rparr>"
  by (simp add: mark_duplicate_def set_claim_status_def update_where_def)

lemma flag_conflict_eq:
  "claims (flag_conflict t k db) = map (\<lambda>c. if cl_tenant c = t \<and> cl_id c = k
      then c\<lparr>cl_status := ''needs_review''\<rparr> else c) (claims db)"
  "know_up (flag_conflict t k db) = know_up db"
  by (simp_all add: flag_conflict_def set_claim_status_def update_where_def)

lemma fold_mark_duplicate:
  "fold (mark_duplicate t) ks db = db\<lparr>claims := map (\<lambda>c.
     if cl_tenant c = t \<and> cl_id c \<in> set ks \<and> cl_status c = ''pending'' then c\<lparr>cl_status := ''duplicate''\<rparr> else c)
     (claims db)\<rparr>"
proof (induction ks arbitrary: db)
  case (Cons k ks)
  have "fold (mark_duplicate t) (k # ks) db = fold (mark_duplicate t) ks (mark_duplicate t k db)" by simp
  then show ?case unfolding Cons mark_duplicate_eq by (simp add: o_def)
qed simp

lemma fold_flag_conflict:
  "claims (fold (flag_conflict t) ks db) = map (\<lambda>c.
     if cl_tenant c = t \<and> cl_id c \<in> set ks then c\<lparr>cl_status := ''needs_review''\<rparr> else c) (claims db)
   \<and> know_up (fold (flag_conflict t) ks db) = know_up db"
proof (induction ks arbitrary: db)
  case (Cons k ks)
  have step: "fold (flag_conflict t) (k # ks) db = fold (flag_conflict t) ks (flag_conflict t k db)" by simp
  have eq: "(let d = (if cl_tenant c = t \<and> cl_id c = k then c\<lparr>cl_status := ''needs_review''\<rparr> else c)
      in if cl_tenant d = t \<and> cl_id d \<in> set ks then d\<lparr>cl_status := ''needs_review''\<rparr> else d)
    = (if cl_tenant c = t \<and> cl_id c \<in> set (k # ks) then c\<lparr>cl_status := ''needs_review''\<rparr> else c)" for c
    by (cases "cl_tenant c = t"; cases "cl_id c = k") (simp_all add: Let_def)
  show ?case by (simp only: step Cons flag_conflict_eq map_map o_def eq [unfolded Let_def] simp_thms)
qed simp

lemma duplicate_ids_rest:
  "set seen' \<subseteq> set seen \<Longrightarrow> set (duplicate_ids seen cs) \<subseteq> D \<Longrightarrow>
    duplicate_ids seen' (filter (\<lambda>c. cl_id c \<notin> D) cs) = []"
proof (induction seen cs arbitrary: seen' rule: duplicate_ids.induct)
  case (2 seen c cs)
  consider (blank) "ends_with (group_key c) ''::''" | (dup) "\<not> ends_with (group_key c) ''::''" "group_key c \<in> set seen"
    | (new) "\<not> ends_with (group_key c) ''::''" "group_key c \<notin> set seen" by blast
  then show ?case
  proof cases
    case blank
    with 2 show ?thesis by simp
  next
    case dup
    with 2 show ?thesis by simp
  next
    case new
    have "duplicate_ids s (filter (\<lambda>c. cl_id c \<notin> D) cs) = []" if "set s \<subseteq> set (group_key c # seen)" for s
      using 2(3) [OF refl new that] 2(5) new by simp
    from this [of seen'] this [of "group_key c # seen'"] new 2(4) show ?thesis by (auto simp: Let_def)
  qed
qed simp

lemma conflict_pairs_rest:
  "set (conflict_pairs cs) \<subseteq> D \<Longrightarrow> conflict_pairs (filter (\<lambda>c. cl_id c \<notin> D) cs) = []"
  by (induction cs) (auto simp: filter_empty_conv)

lemma conflict_ids_rest:
  assumes ord: "\<And>ks. set (order ks) = set ks" and D: "set (conflict_ids order cs) \<subseteq> D"
  shows "conflict_ids order (filter (\<lambda>c. cl_id c \<notin> D) cs) = []"
proof -
  have "conflict_pairs (filter (\<lambda>c. cl_concept c = Some k) (filter (\<lambda>c. cl_id c \<notin> D) cs)) = []" for k
  proof (cases "k \<in> set (List.map_filter cl_concept cs)")
    case True
    then have "set (conflict_pairs (filter (\<lambda>c. cl_concept c = Some k) cs)) \<subseteq> D"
      using D ord by (fastforce simp: conflict_ids_def)
    from conflict_pairs_rest [OF this] show ?thesis by (simp add: conj_commute)
  next
    case False
    then have "filter (\<lambda>c. cl_concept c = Some k) (filter (\<lambda>c. cl_id c \<notin> D) cs) = []"
      by (force simp: filter_empty_conv List.map_filter_def)
    then show ?thesis by simp
  qed
  then show ?thesis by (auto simp: conflict_ids_def)
qed

lemma distinct_keys:
  "duplicate_ids seen cs = [] \<Longrightarrow>
    distinct (map group_key (filter (\<lambda>c. \<not> ends_with (group_key c) ''::'') cs))
    \<and> group_key ` set (filter (\<lambda>c. \<not> ends_with (group_key c) ''::'') cs) \<inter> set seen = {}"
proof (induction seen cs rule: duplicate_ids.induct)
  case (2 seen c cs)
  then show ?case by (auto simp: Let_def split: if_splits)
qed simp

lemma no_conflict:
  assumes "conflict_pairs cs = []" "c \<in> set cs" "d \<in> set cs" "c \<noteq> d"
  shows "\<not> contradicts (meaning_of c) (meaning_of d)"
  using assms
proof (induction cs)
  case (Cons x cs)
  then have "\<forall>y \<in> set cs. \<not> contradicts (meaning_of x) (meaning_of y)" "conflict_pairs cs = []"
    by (auto simp: filter_empty_conv)
  with Cons show ?case using contradicts_sym by auto
qed simp

abbreviation pending_rows :: "uuid \<Rightarrow> knowledge_db \<Rightarrow> claim_row list" where
  "pending_rows t db \<equiv> filter (\<lambda>c. cl_tenant c = t \<and> cl_status c = ''pending'') (claims db)"

lemma filter_map_fixed:
  "(\<And>x. P (g x) \<Longrightarrow> g x = x) \<Longrightarrow> (\<And>x. P (g x) = (P x \<and> Q x)) \<Longrightarrow>
    filter P (map g xs) = filter Q (filter P xs)"
  by (induction xs) auto

lemma pending_after:
  assumes ord: "\<And>ks. set (order ks) = set ks" and "length (pending_rows t db) \<le> limit"
    and "correlate_db order t limit True True db = (Some rep, db')"
  defines "D \<equiv> set (duplicate_ids [] (pending_claims t limit db)) \<union> set (conflict_ids order (pending_claims t limit db))"
  shows "pending_claims t limit db' = filter (\<lambda>c. cl_id c \<notin> D) (pending_claims t limit db)"
    and "pending_rows t db' = filter (\<lambda>c. cl_id c \<notin> D) (pending_rows t db)" and "know_up db'"
proof -
  let ?cs = "pending_claims t limit db"
  have up: "know_up db" using assms(3) by (auto simp: correlate_db_def split: if_splits)
  have all: "?cs = sort_key (\<lambda>c. - int (cl_created c)) (pending_rows t db)"
    using assms(2) by (simp add: pending_claims_def)
  let ?db1 = "fold (mark_duplicate t) (duplicate_ids [] ?cs) db"
  let ?db2 = "fold (flag_conflict t) (conflict_ids order ?cs) ?db1"
  have "order [] = []" using ord [of "[]"] by simp
  then have none: "?db2 = db" if "?cs = []" using that by (simp add: conflict_ids_def List.map_filter_def)
  have db': "db' = ?db2"
    using assms(3) up none by (auto simp: correlate_db_def Let_def split: if_splits)
  let ?g1 = "\<lambda>c. if cl_tenant c = t \<and> cl_id c \<in> set (duplicate_ids [] ?cs) \<and> cl_status c = ''pending''
      then c\<lparr>cl_status := ''duplicate''\<rparr> else c"
  let ?g2 = "\<lambda>c. if cl_tenant c = t \<and> cl_id c \<in> set (conflict_ids order ?cs) then c\<lparr>cl_status := ''needs_review''\<rparr> else c"
  have "claims db' = map (\<lambda>c. ?g2 (?g1 c)) (claims db)"
    unfolding db' using fold_flag_conflict [of t "conflict_ids order ?cs" ?db1]
    by (simp add: fold_mark_duplicate)
  then show rows: "pending_rows t db' = filter (\<lambda>c. cl_id c \<notin> D) (pending_rows t db)"
    by (simp only:, intro filter_map_fixed) (auto simp: D_def)
  then have "length (pending_rows t db') \<le> limit"
    using assms(2) length_filter_le le_trans by (metis (no_types, lifting))
  then show "pending_claims t limit db' = filter (\<lambda>c. cl_id c \<notin> D) ?cs"
    unfolding all by (simp add: pending_claims_def rows filter_sort)
  show "know_up db'"
    unfolding db' using fold_flag_conflict [of t "conflict_ids order ?cs" ?db1] up by (simp add: fold_mark_duplicate)
qed

text \<open>
  C8. A correlation pass settles the tenant's pending claims. When they all fit the limit, review
  and conflict detection are on, and the pass succeeds, then no two claims still pending share
  a meaningful group key, no two of one concept contradict each other, and a second pass
  changes nothing and reports no duplicate and no conflict.
\<close>

theorem correlate_settles:
  assumes ord: "\<And>ks. set (order ks) = set ks" and fit: "length (pending_rows t db) \<le> limit"
    and run: "correlate_db order t limit True True db = (Some rep, db')"
  shows "distinct (map group_key (filter (\<lambda>c. \<not> ends_with (group_key c) ''::'') (pending_claims t limit db')))
    \<and> (\<forall>c \<in> set (pending_rows t db'). \<forall>d \<in> set (pending_rows t db').
         c \<noteq> d \<and> cl_concept c \<noteq> None \<and> cl_concept c = cl_concept d \<longrightarrow> \<not> contradicts (meaning_of c) (meaning_of d))
    \<and> correlate_db order t limit True True db' =
        (Some \<lparr>examined = length (pending_rows t db'), duplicates = 0, conflicts = 0\<rparr>, db')"
proof -
  let ?cs = "pending_claims t limit db" and ?cs' = "pending_claims t limit db'"
  let ?D = "set (duplicate_ids [] ?cs) \<union> set (conflict_ids order ?cs)"
  note after = pending_after [OF ord fit run]
  have nodup: "duplicate_ids [] ?cs' = []"
    unfolding after(1) by (rule duplicate_ids_rest) auto
  have noconf: "conflict_ids order ?cs' = []"
    unfolding after(1) by (rule conflict_ids_rest [OF ord]) auto
  have "length (pending_rows t db') \<le> length (pending_rows t db)"
    unfolding after(2) by (rule length_filter_le)
  then have cs': "?cs' = sort_key (\<lambda>c. - int (cl_created c)) (pending_rows t db')"
    using fit by (simp add: pending_claims_def)
  then have len: "length ?cs' = length (pending_rows t db')" by (simp only: length_sort)
  have "\<not> contradicts (meaning_of c) (meaning_of d)"
    if "c \<in> set (pending_rows t db')" "d \<in> set (pending_rows t db')" "c \<noteq> d"
      "cl_concept c = Some k" "cl_concept d = Some k" for c d k
  proof (rule no_conflict)
    have "k \<in> set (order (remdups (List.map_filter cl_concept ?cs')))"
      using that ord by (force simp: cs' List.map_filter_def)
    then show "conflict_pairs (filter (\<lambda>c. cl_concept c = Some k) ?cs') = []"
      using noconf by (auto simp: conflict_ids_def)
  qed (use that cs' in auto)
  moreover have "correlate_db order t limit True True db' =
        (Some \<lparr>examined = length (pending_rows t db'), duplicates = 0, conflicts = 0\<rparr>, db')"
  proof (cases "?cs' = []")
    case True
    then have "length (pending_rows t db') = 0" using len by simp
    then show ?thesis using after(3) unfolding correlate_db_def Let_def True by simp
  next
    case False
    then show ?thesis using len unfolding correlate_db_def Let_def nodup noconf using after(3) False by simp
  qed
  ultimately show ?thesis using distinct_keys [OF nodup] by fastforce
qed

definition empty_know :: knowledge_db where
  "empty_know = \<lparr>claims = [], claim_sources = [], review_queue = [], topics = [], topic_versions = [], cards = [],
     graph_nodes = [], graph_edges = [], know_supply = 100, know_now = 50, know_up = True\<rparr>"

definition claim_on :: "uuid \<Rightarrow> nat \<Rightarrow> string \<Rightarrow> claim_row" where
  "claim_on k now txt = \<lparr>cl_id = k, cl_tenant = 5, cl_topic = Some ''insulin'', cl_concept = Some 7,
     cl_type = ''fact'', cl_text = txt, cl_meaning = Some txt, cl_status = ''pending'', cl_created = now\<rparr>"

definition three_claims :: knowledge_db where
  "three_claims = empty_know\<lparr>claims := [claim_on 1 10 ''insulin does lower blood glucose'',
     claim_on 2 20 ''insulin does not lower blood glucose'', claim_on 3 30 ''insulin does lower blood glucose'']\<rparr>"

lemma three_claims_correlated:
  "correlate_db id 5 120 True True three_claims =
    (Some \<lparr>examined = 3, duplicates = 1, conflicts = 2\<rparr>,
     three_claims\<lparr>claims := [(claim_on 1 10 ''insulin does lower blood glucose'')\<lparr>cl_status := ''needs_review''\<rparr>,
        (claim_on 2 20 ''insulin does not lower blood glucose'')\<lparr>cl_status := ''needs_review''\<rparr>,
        claim_on 3 30 ''insulin does lower blood glucose''],
      review_queue := [\<lparr>rv_id = 100, rv_tenant = 5, rv_kind = ''claim'', rv_ref = 2, rv_reason = ''contradiction'', rv_status = ''open''\<rparr>,
        \<lparr>rv_id = 101, rv_tenant = 5, rv_kind = ''claim'', rv_ref = 1, rv_reason = ''contradiction'', rv_status = ''open''\<rparr>],
      know_supply := 102\<rparr>)"
  by code_simp

theorem correlate_settles_witness:
  "let db' = snd (correlate_db id 5 120 True True three_claims)
   in fst (correlate_db id 5 120 True True db') = Some \<lparr>examined = 1, duplicates = 0, conflicts = 0\<rparr>"
proof -
  obtain rep db' where run: "correlate_db id 5 120 True True three_claims = (Some rep, db')"
    using three_claims_correlated by blast
  have "length (pending_rows 5 three_claims) \<le> 120"
    by (simp add: three_claims_def empty_know_def claim_on_def)
  from correlate_settles [OF _ this run] have "correlate_db id 5 120 True True db' =
      (Some \<lparr>examined = length (pending_rows 5 db'), duplicates = 0, conflicts = 0\<rparr>, db')" by simp
  moreover have "length (pending_rows 5 db') = 1"
    using run three_claims_correlated by (auto simp: claim_on_def)
  ultimately show ?thesis using run by simp
qed

text \<open>
  A duplicate that is also in a contradiction loses its mark: of three claims, the oldest
  repeats the newest, so it is counted as a duplicate, and it contradicts the one between; the
  conflict step overwrites its status with "needs_review" and puts it, a claim that was to be
  dropped, in front of the reviewers.
\<close>

theorem conflict_overrides_duplicate:
  "duplicate_ids [] (pending_claims 5 120 three_claims) = [1]
    \<and> map (\<lambda>c. (cl_id c, cl_status c)) (claims (snd (correlate_db id 5 120 True True three_claims))) =
        [(1, ''needs_review''), (2, ''needs_review''), (3, ''pending'')]
    \<and> map rv_ref (review_queue (snd (correlate_db id 5 120 True True three_claims))) = [2, 1]"
proof
  show "duplicate_ids [] (pending_claims 5 120 three_claims) = [1]" by code_simp
qed (simp only: three_claims_correlated snd_conv, simp add: claim_on_def three_claims_def empty_know_def)

section \<open>Extraction only adds\<close>

definition sourced :: "uuid \<Rightarrow> uuid \<Rightarrow> claim_row list \<Rightarrow> source_row list \<Rightarrow> bool" where
  "sourced t doc cs ss = (map cl_id cs = map so_claim ss
     \<and> (\<forall>c \<in> set cs. cl_tenant c = t \<and> cl_status c = ''pending'' \<and> cl_meaning c = Some (normalize (cl_text c)))
     \<and> (\<forall>r \<in> set ss. so_tenant r = t \<and> so_document r = doc))"

definition adds_claims :: "uuid \<Rightarrow> uuid \<Rightarrow> nat \<Rightarrow> knowledge_db \<Rightarrow> knowledge_db \<Rightarrow> bool" where
  "adds_claims t doc n db db' = (\<exists>cs ss. claims db' = claims db @ cs \<and> claim_sources db' = claim_sources db @ ss
     \<and> length cs = n \<and> sourced t doc cs ss \<and> map cl_id cs = [know_supply db..<know_supply db + n]
     \<and> know_supply db' = know_supply db + n)"

lemma adds_claims_refl [simp]: "adds_claims t doc 0 db db"
  by (simp add: adds_claims_def sourced_def)

lemma adds_claims_trans:
  assumes "adds_claims t doc n db db1" "adds_claims t doc k db1 db2"
  shows "adds_claims t doc (n + k) db db2"
proof -
  obtain cs ss where one: "claims db1 = claims db @ cs" "claim_sources db1 = claim_sources db @ ss" "length cs = n"
    "sourced t doc cs ss" "map cl_id cs = [know_supply db..<know_supply db + n]" "know_supply db1 = know_supply db + n"
    using assms(1) unfolding adds_claims_def by (elim exE conjE) (rule that; assumption)
  obtain cs' ss' where two: "claims db2 = claims db1 @ cs'" "claim_sources db2 = claim_sources db1 @ ss'"
    "length cs' = k" "sourced t doc cs' ss'" "map cl_id cs' = [know_supply db1..<know_supply db1 + k]"
    "know_supply db2 = know_supply db1 + k"
    using assms(2) unfolding adds_claims_def by (elim exE conjE) (rule that; assumption)
  have "map cl_id (cs @ cs') = [know_supply db..<know_supply db + (n + k)]"
    using one(5) two(5) upt_add_eq_append [of "know_supply db" "know_supply db + n" k]
    by (simp add: one(6) add.assoc)
  moreover have "sourced t doc (cs @ cs') (ss @ ss')"
    using one(4) two(4) by (simp add: sourced_def ball_Un)
  ultimately show ?thesis
    unfolding adds_claims_def two one
    by (intro exI [of _ "cs @ cs'"] exI [of _ "ss @ ss'"]) (simp add: one(3) two(3))
qed

lemma insert_claims_adds:
  "adds_claims t doc (length cms) db (insert_claims t doc block cms db)"
proof (induction t doc block cms db rule: insert_claims.induct)
  case (2 t doc block c m rest db)
  have "adds_claims t doc 1 db (db\<lparr>claims := claims db @ [claim_of t (know_supply db) (know_now db) c m],
           claim_sources := claim_sources db @
             [\<lparr>so_tenant = t, so_claim = know_supply db, so_document = doc, so_block = block\<rparr>],
           know_supply := know_supply db + 1\<rparr>)"
    by (simp add: adds_claims_def sourced_def claim_of_def)
  from adds_claims_trans [OF this 2] show ?case by simp
qed simp

lemma mine_chunk_adds:
  assumes "mine_chunk e t doc ch s = (r, s')"
  shows "adds_claims t doc (case r of None \<Rightarrow> 0 | Some n \<Rightarrow> n) (know s) (know s')"
proof -
  obtain c s1 where c: "ask e t Extraction EXTRACT_SYSTEM (take 2000 (body ch)) s = (c, s1)" by (meson surj_pair)
  have k: "know s1 = know s" using ask_frame [OF c] by simp
  have tx: "adds_claims t doc (case r of None \<Rightarrow> 0 | Some n \<Rightarrow> n) (know s1) (know s')"
    if "on_know (claims_tx l t doc b cms) s1 = (r, s')" for l b cms
    using that insert_claims_adds [of t doc cms "know s1" b]
    by (auto simp: on_know_def claims_tx_def split: if_splits)
  show ?thesis
  proof (cases c)
    case None
    with assms c have "r = Some 0" "s' = s1" by (simp_all add: mine_chunk_def)
    with k show ?thesis by simp
  next
    case (Some comp)
    let ?ex = "parse_claims e (reply_text comp)"
    note run = assms [unfolded mine_chunk_def c Some prod.case option.case Let_def]
    show ?thesis
    proof (cases "?ex = []")
      case True
      with run have "r = Some 0" "s' = s1" by simp_all
      with k show ?thesis by simp
    next
      case False
      with run show ?thesis unfolding if_not_P [OF False] k [symmetric] by (intro tx)
    qed
  qed
qed

lemma mine_chunks_adds:
  "mine_chunks e t doc cs s = (r, s') \<Longrightarrow>
    \<exists>n. adds_claims t doc n (know s) (know s') \<and> (\<forall>k. r = Some k \<longrightarrow> k = n)"
proof (induction cs arbitrary: s r s')
  case Nil
  then show ?case by (intro exI [of _ 0]) auto
next
  case (Cons c cs)
  obtain x s1 where x: "mine_chunk e t doc c s = (x, s1)" by (meson surj_pair)
  note one = mine_chunk_adds [OF x]
  show ?case
  proof (cases x)
    case None
    with Cons.prems x one show ?thesis by (intro exI [of _ 0]) (simp add: step_then_def)
  next
    case (Some n)
    obtain y s2 where y: "mine_chunks e t doc cs s1 = (y, s2)" by (meson surj_pair)
    from Cons.prems x y Some have res: "s' = s2" "r = map_option ((+) n) y"
      by (auto simp: step_then_def split: option.splits)
    from Cons.IH [OF y] obtain k where k: "adds_claims t doc k (know s1) (know s2)" "\<forall>j. y = Some j \<longrightarrow> j = k" by blast
    have "adds_claims t doc (n + k) (know s) (know s')"
      using adds_claims_trans [OF _ k(1)] one Some res by simp
    with k(2) res show ?thesis by (intro exI [of _ "n + k"]) auto
  qed
qed

text \<open>
  Extraction only adds, and what it adds is sourced: every new claim is the tenant's, is
  pending, carries the normal form of its own text and has exactly one source row, which names
  the document; nothing that was there changes. The number returned is the number added, also
  when some chunks fail, and a run that stops on an error keeps the chunks done before it.
\<close>

theorem extract_claims_adds:
  assumes "extract_claims e t doc s = (r, s')"
  shows "\<exists>n. adds_claims t doc n (know s) (know s') \<and> (\<forall>k. r = Some k \<longrightarrow> k = n)"
proof -
  obtain cfg s1 where c: "org_config e t s = (cfg, s1)" by (meson surj_pair)
  have k: "know s1 = know s" using org_config_frame [OF c] by simp
  have same_db: "\<exists>n. adds_claims t doc n (know s) (know s1) \<and> (\<forall>k. x = Some k \<longrightarrow> k = n)"
    if "x = None \<or> x = Some 0" for x :: "nat option"
    using that k by (intro exI [of _ 0]) auto
  note run = assms [unfolded extract_claims_def step_then_def c prod.case Let_def]
  show ?thesis
  proof (cases cfg)
    case None
    with run have r: "r = None" "s' = s1" by simp_all
    show ?thesis unfolding r(2) using same_db [of r] r(1) by blast
  next
    case (Some cf)
    let ?max = "nat (max (org_i64 cf ''claimsMaxChunks'' 60) 0)"
    note run = run [unfolded Some option.case]
    show ?thesis
    proof (cases "?max = 0")
      case True
      with run have r: "r = Some 0" "s' = s1" by simp_all
      show ?thesis unfolding r(2) using same_db [of r] r(1) by blast
    next
      case False
      note run = run [unfolded if_not_P [OF False]]
      show ?thesis
      proof (cases "load_chunks t doc ?max (tables (pipe s1))")
        case None
        with run have r: "r = None" "s' = s1" by simp_all
        show ?thesis unfolding r(2) using same_db [of r] r(1) by blast
      next
        case (Some cs)
        with run mine_chunks_adds [of e t doc cs s1 r s'] k show ?thesis by simp
      qed
    qed
  qed
qed

definition plain_knowledge :: knowledge_env where
  "plain_knowledge = \<lparr>ing = plain_ingest, near = (\<lambda>_ _. None), read_claims = (\<lambda>_. None), read_claim = (\<lambda>_. None), em_dash = CHR ''-''\<rparr>"

definition quiet_world :: world where
  "quiet_world = \<lparr>pipe = ingest_start, onto = onto_of [], know = three_claims\<rparr>"

theorem extract_claims_adds_witness:
  "\<exists>n r s'. extract_claims plain_knowledge 5 3 quiet_world = (r, s') \<and> adds_claims 5 3 n three_claims (know s')
    \<and> (\<forall>k. r = Some k \<longrightarrow> k = n)"
proof -
  obtain r s' where run: "extract_claims plain_knowledge 5 3 quiet_world = (r, s')" by (meson surj_pair)
  from extract_claims_adds [OF run] run show ?thesis by (auto simp: quiet_world_def)
qed

end
