(* ===== verification/Synth.thy ===== *)
theory Synth
  imports Claims
begin

text \<open>
  \<open>insight-core/src/synth.rs\<close>: compiling topics from grounded claims, the versioned topic page
  (synthesis and restore), teaching cases and flashcards. A statement that fails ends its
  transaction with \<open>None\<close> and leaves the tables alone. The order of the groups of a
  \<open>GROUP BY\<close> is that of their first rows.
\<close>

record synth_result =
  sr_topic :: "uuid option"
  sr_claims :: nat
  sr_version :: int
  sr_faithfulness :: f64

definition MIN_CLAIMS_FOR_TOPIC :: nat where "MIN_CLAIMS_FOR_TOPIC = 2"
definition TOPIC_CLAIMS_LIMIT :: nat where "TOPIC_CLAIMS_LIMIT = 60"

definition SYNTH_SYSTEM :: "char \<Rightarrow> string" where
  "SYNTH_SYSTEM dash = ''You write a concise, well-structured markdown reference page '' @
     ''(a single source of truth) from a list of verified claims. Use short sections with '' @
     ''headings. Every statement MUST be supported by the provided claims '' @ [dash] @ '' do not add outside '' @
     ''facts. No preamble.''"

definition newline :: string where "newline = [char_of (10 :: nat)]"

section \<open>Topics and their claims\<close>

definition topic_label :: "claim_row \<Rightarrow> string" where
  "topic_label c = (case cl_topic c of None \<Rightarrow> ''(concept)'' | Some t \<Rightarrow> t)"

definition eligible_claims :: "uuid \<Rightarrow> knowledge_db \<Rightarrow> (uuid \<times> string) list" where
  "eligible_claims tenant db = [(k, topic_label c). c \<leftarrow> claims db, cl_tenant c = tenant,
     cl_status c \<in> {''pending'', ''active'', ''accepted''}, k \<leftarrow> (case cl_concept c of None \<Rightarrow> [] | Some k \<Rightarrow> [k])]"

definition eligible_concepts :: "uuid \<Rightarrow> knowledge_db \<Rightarrow> (uuid \<times> string) list option \<times> knowledge_db" where
  "eligible_concepts tenant db =
     (if \<not> know_up db then (None, db)
      else (Some (filter (\<lambda>g. MIN_CLAIMS_FOR_TOPIC \<le> count_list (eligible_claims tenant db) g)
                   (remdups (eligible_claims tenant db))), db))"

definition ensure_topic :: "uuid \<Rightarrow> uuid \<Rightarrow> string \<Rightarrow> knowledge_db \<Rightarrow> uuid option \<times> knowledge_db" where
  "ensure_topic tenant concept title db =
     (if \<not> know_up db then (None, db)
      else case find (\<lambda>t. tp_tenant t = tenant \<and> tp_concept t = Some concept) (topics db) of
          Some t \<Rightarrow> (Some (tp_id t), db)
        | None \<Rightarrow> (Some (know_supply db),
            db\<lparr>topics := topics db @ [\<lparr>tp_id = know_supply db, tp_tenant = tenant, tp_concept = Some concept,
                 tp_title = title, tp_version = 1, tp_page = None, tp_updated = know_now db\<rparr>],
               know_supply := know_supply db + 1\<rparr>))"

definition topic_row_of :: "uuid \<Rightarrow> uuid \<Rightarrow> knowledge_db \<Rightarrow> topic_row option" where
  "topic_row_of tenant tid db = find (\<lambda>t. tp_tenant t = tenant \<and> tp_id t = tid) (topics db)"

definition on_topic :: "uuid \<Rightarrow> uuid \<Rightarrow> knowledge_db \<Rightarrow> claim_row list" where
  "on_topic tenant tid db = (case topic_row_of tenant tid db of None \<Rightarrow> []
     | Some t \<Rightarrow> filter (\<lambda>c. cl_tenant c = tenant \<and> tp_concept t \<noteq> None \<and> cl_concept c = tp_concept t) (claims db))"

definition topic_claims :: "uuid \<Rightarrow> uuid \<Rightarrow> knowledge_db \<Rightarrow> string list option \<times> knowledge_db" where
  "topic_claims tenant tid db =
     (if \<not> know_up db then (None, db)
      else (Some (map cl_text (take TOPIC_CLAIMS_LIMIT (sort_key cl_created
              (filter (\<lambda>c. cl_status c \<noteq> ''duplicate'') (on_topic tenant tid db))))), db))"

section \<open>The versioned page\<close>

definition numbered_evidence :: "string list \<Rightarrow> string" where
  "numbered_evidence cs = join_str newline (map2 (\<lambda>i c. ''['' @ show_nat i @ ''] '' @ c) [1..<length cs + 1] cs)"

definition fallback_page :: "string list \<Rightarrow> string" where
  "fallback_page cs = ''## Summary'' @ newline @ newline @ join_str newline (map (\<lambda>c. ''- '' @ c) cs)"

definition covered :: "string \<Rightarrow> string \<Rightarrow> bool" where
  "covered lower c = (let key = join_str '' '' (take 4 (split_whitespace (lowercase c)))
     in key \<noteq> [] \<and> contains_str lower key)"

definition faithfulness_of :: "string \<Rightarrow> string list \<Rightarrow> f64" where
  "faithfulness_of page cs =
     real (length (filter (covered (lowercase page)) cs)) / real (length cs)"

text \<open>
  The page update and the version row, in one transaction. The version column is a 32-bit
  integer; the primary key of \<open>topic_versions\<close> is (topic, version), and \<open>overwrite\<close> says
  whether the insert has the conflict clause.
\<close>

definition write_version ::
  "uuid \<Rightarrow> uuid \<Rightarrow> string option \<Rightarrow> string \<Rightarrow> bool \<Rightarrow> knowledge_db \<Rightarrow> int option \<times> knowledge_db" where
  "write_version tenant tid page change overwrite db =
     (if \<not> know_up db then (None, db)
      else case topic_row_of tenant tid db of None \<Rightarrow> (None, db)
        | Some t \<Rightarrow>
            let v = tp_version t + 1;
                clash = list_ex (\<lambda>r. tv_topic r = tid \<and> tv_version r = v) (topic_versions db);
                bumped = update_where (\<lambda>t. tp_tenant t = tenant \<and> tp_id t = tid)
                   (\<lambda>t. t\<lparr>tp_page := page, tp_version := v, tp_updated := know_now db\<rparr>) (topics db);
                row = \<lparr>tv_topic = tid, tv_tenant = tenant, tv_version = v, tv_page = page, tv_changelog = Some change\<rparr>
            in if v \<ge> 2 ^ 31 \<or> (clash \<and> \<not> overwrite) then (None, db)
               else (Some v, db\<lparr>topics := bumped, topic_versions :=
                  (if clash then update_where (\<lambda>r. tv_topic r = tid \<and> tv_version r = v)
                                   (\<lambda>r. r\<lparr>tv_page := page, tv_changelog := Some change\<rparr>) (topic_versions db)
                   else topic_versions db @ [row])\<rparr>))"

definition synthesize :: "knowledge_env \<Rightarrow> uuid \<Rightarrow> uuid \<Rightarrow> synth_result job_step" where
  "synthesize e tenant tid = step_then (on_know (topic_claims tenant tid)) (\<lambda>cs s.
     if cs = [] then (None, s)
     else let (reply, s) = ask e tenant Synthesis (SYNTH_SYSTEM (em_dash e))
                (''Claims:'' @ newline @ numbered_evidence cs @ newline @ newline @ ''Write the reference page.'') s;
              page = (case reply of Some c \<Rightarrow> reply_text c | None \<Rightarrow> fallback_page cs)
          in step_then (on_know (write_version tenant tid (Some page) ''evidence recompose'' True))
               (\<lambda>v s. (Some \<lparr>sr_topic = Some tid, sr_claims = length cs, sr_version = v,
                  sr_faithfulness = faithfulness_of page cs\<rparr>, s)) s)"

definition restore_version_db :: "uuid \<Rightarrow> uuid \<Rightarrow> int \<Rightarrow> knowledge_db \<Rightarrow> synth_result option \<times> knowledge_db" where
  "restore_version_db tenant tid frm db =
     (if \<not> know_up db then (None, db)
      else case find (\<lambda>r. tv_tenant r = tenant \<and> tv_topic r = tid \<and> tv_version r = frm) (topic_versions db) of
          None \<Rightarrow> (None, db)
        | Some r \<Rightarrow> (case tv_page r of None \<Rightarrow> (None, db)
            | Some page \<Rightarrow>
                let (v, db) = write_version tenant tid (Some page) (''restored from v'' @ show_int frm) False db
                in (map_option (\<lambda>v. \<lparr>sr_topic = Some tid, sr_claims = 0, sr_version = v, sr_faithfulness = 1\<rparr>) v, db)))"

section \<open>Compiling, cases, flashcards\<close>

fun compile_loop :: "knowledge_env \<Rightarrow> uuid \<Rightarrow> (uuid \<times> string) list \<Rightarrow> nat job_step" where
  "compile_loop e tenant [] s = (Some 0, s)"
| "compile_loop e tenant ((concept, label) # rest) s =
     step_then (on_know (ensure_topic tenant concept label)) (\<lambda>tid s.
       let (r, s) = synthesize e tenant tid s
       in step_then (compile_loop e tenant rest) (\<lambda>n s. (Some ((if r = None then 0 else 1) + n), s)) s) s"

definition compile_topics :: "knowledge_env \<Rightarrow> uuid \<Rightarrow> nat job_step" where
  "compile_topics e tenant = step_then (on_know (eligible_concepts tenant)) (compile_loop e tenant)"

definition generate_case :: "knowledge_env \<Rightarrow> uuid \<Rightarrow> uuid \<Rightarrow> string job_step" where
  "generate_case e tenant tid = step_then (on_know (topic_claims tenant tid)) (\<lambda>cs s.
     if cs = [] then (None, s)
     else let (reply, s) = ask e tenant Synthesis
                (''You write a short clinical/teaching vignette that exercises the given facts. '' @
                 ''Ground it only in those facts. End with 2-3 study questions.'')
                (''Facts:'' @ newline @ ''- '' @ join_str (newline @ ''- '') cs @ newline @ newline @ ''Write the case.'') s
          in (map_option reply_text reply, s))"

definition first_words :: "string \<Rightarrow> nat \<Rightarrow> string" where
  "first_words s n = join_str '' '' (take n (split_whitespace s))"

fun insert_cards :: "uuid \<Rightarrow> uuid \<Rightarrow> string list \<Rightarrow> knowledge_db \<Rightarrow> knowledge_db" where
  "insert_cards tenant tid [] db = db"
| "insert_cards tenant tid (c # cs) db = insert_cards tenant tid cs
     (db\<lparr>cards := cards db @ [\<lparr>cd_id = know_supply db, cd_tenant = tenant, cd_topic = Some tid,
            cd_front = ''What is true regarding: '' @ first_words c 8 @ ''?'', cd_back = c\<rparr>],
         know_supply := know_supply db + 1\<rparr>)"

definition generate_flashcards :: "uuid \<Rightarrow> uuid \<Rightarrow> nat \<Rightarrow> knowledge_db \<Rightarrow> nat option \<times> knowledge_db" where
  "generate_flashcards tenant tid wanted db =
     (case topic_claims tenant tid db of
        (None, db) \<Rightarrow> (None, db)
      | (Some cs, db) \<Rightarrow>
          if cs = [] then (Some 0, db)
          else let n = min (clamp wanted 1 50) (length cs)
               in (Some n, insert_cards tenant tid (take n cs) db))"

section \<open>The page and its history\<close>

text \<open>
  The current page is the page of the newest version row, and no row is newer than the
  topic. A topic that was never written is at version 1 with no page and no row.
\<close>

definition history_ok :: "knowledge_db \<Rightarrow> bool" where
  "history_ok db =
     (distinct (map tp_id (topics db))
      \<and> distinct (map (\<lambda>r. (tv_topic r, tv_version r)) (topic_versions db))
      \<and> (\<forall>t \<in> set (topics db). tp_id t < know_supply db)
      \<and> (\<forall>r \<in> set (topic_versions db). \<exists>t \<in> set (topics db). tp_id t = tv_topic r \<and> tp_tenant t = tv_tenant r
           \<and> tv_version r \<le> tp_version t \<and> 1 < tv_version r)
      \<and> (\<forall>t \<in> set (topics db). 1 \<le> tp_version t \<and> (tp_version t = 1 \<longrightarrow> tp_page t = None)
           \<and> (1 < tp_version t \<longrightarrow> (\<exists>r \<in> set (topic_versions db). tv_topic r = tp_id t \<and> tv_tenant r = tp_tenant t
                \<and> tv_version r = tp_version t \<and> tv_page r = tp_page t))))"

definition newest_page :: "uuid \<Rightarrow> uuid \<Rightarrow> knowledge_db \<Rightarrow> string option" where
  "newest_page tenant tid db = Option.bind (topic_row_of tenant tid db) tp_page"

lemma topic_row_of_Some:
  "topic_row_of tenant tid db = Some t \<Longrightarrow> t \<in> set (topics db) \<and> tp_id t = tid \<and> tp_tenant t = tenant"
  by (auto simp: topic_row_of_def find_Some_iff)

lemma history_unique:
  "history_ok db \<Longrightarrow> t \<in> set (topics db) \<Longrightarrow> u \<in> set (topics db) \<Longrightarrow> tp_id t = tp_id u \<Longrightarrow> t = u"
  by (auto simp: history_ok_def distinct_map dest: inj_onD)

definition bumped_topic :: "topic_row \<Rightarrow> string option \<Rightarrow> nat \<Rightarrow> topic_row" where
  "bumped_topic t page now = t\<lparr>tp_page := page, tp_version := tp_version t + 1, tp_updated := now\<rparr>"

lemma bumped_topic_simps [simp]:
  "tp_id (bumped_topic t p n) = tp_id t" "tp_tenant (bumped_topic t p n) = tp_tenant t"
  "tp_version (bumped_topic t p n) = tp_version t + 1" "tp_page (bumped_topic t p n) = p"
  by (simp_all add: bumped_topic_def)

text \<open>With a sound history the insert never meets an old row, so the page update appends.\<close>

lemma history_fresh:
  assumes ok: "history_ok db" and t: "topic_row_of tenant tid db = Some t"
  shows "\<not> list_ex (\<lambda>r. tv_topic r = tid \<and> tv_version r = tp_version t + 1) (topic_versions db)"
proof
  note row = topic_row_of_Some [OF t]
  assume "list_ex (\<lambda>r. tv_topic r = tid \<and> tv_version r = tp_version t + 1) (topic_versions db)"
  then obtain r where r: "r \<in> set (topic_versions db)" "tv_topic r = tid" "tv_version r = tp_version t + 1"
    by (auto simp: list_ex_iff)
  then obtain u where "u \<in> set (topics db)" "tp_id u = tid" "tv_version r \<le> tp_version u"
    using ok by (auto simp: history_ok_def)
  with history_unique [OF ok, of u t] row r(3) show False by simp
qed

lemma write_version_succeeds:
  assumes "history_ok db" "know_up db" "topic_row_of tenant tid db = Some t" "tp_version t + 1 < 2 ^ 31"
  shows "\<exists>db'. write_version tenant tid page change ow db = (Some (tp_version t + 1), db')"
  using assms history_fresh [OF assms(1,3)] by (simp add: write_version_def Let_def)

lemma write_version_appends:
  assumes ok: "history_ok db" and run: "write_version tenant tid page change ow db = (Some v, db')"
  obtains t where "topic_row_of tenant tid db = Some t" "v = tp_version t + 1"
    "topics db' = map (\<lambda>x. if x = t then bumped_topic t page (know_now db) else x) (topics db)"
    "topic_versions db' = topic_versions db @ [\<lparr>tv_topic = tid, tv_tenant = tenant, tv_version = v,
       tv_page = page, tv_changelog = Some change\<rparr>]"
    "know_supply db' = know_supply db"
proof -
  from run obtain t where t: "topic_row_of tenant tid db = Some t"
    by (auto simp: write_version_def split: if_splits option.splits)
  note row = topic_row_of_Some [OF t]
  let ?v = "tp_version t + 1"
  have fresh: "\<not> list_ex (\<lambda>r. tv_topic r = tid \<and> tv_version r = ?v) (topic_versions db)"
    by (rule history_fresh [OF ok t])
  have only: "(tp_tenant x = tenant \<and> tp_id x = tid) = (x = t)" if "x \<in> set (topics db)" for x
    using that row history_unique [OF ok] by blast
  have bump: "update_where (\<lambda>t. tp_tenant t = tenant \<and> tp_id t = tid)
      (\<lambda>t. t\<lparr>tp_page := page, tp_version := ?v, tp_updated := know_now db\<rparr>) (topics db) =
    map (\<lambda>x. if x = t then bumped_topic t page (know_now db) else x) (topics db)"
    unfolding update_where_def using only by (auto simp: bumped_topic_def)
  from run t fresh have res: "v = ?v"
    "db' = db\<lparr>topics := map (\<lambda>x. if x = t then bumped_topic t page (know_now db) else x) (topics db),
       topic_versions := topic_versions db @ [\<lparr>tv_topic = tid, tv_tenant = tenant, tv_version = ?v,
         tv_page = page, tv_changelog = Some change\<rparr>]\<rparr>"
    unfolding write_version_def Let_def by (auto simp: bump split: if_splits)
  show ?thesis by (rule that [OF t res(1)]) (simp_all add: res)
qed

lemma write_version_failed: "write_version tenant tid page change ow db = (None, db') \<Longrightarrow> db' = db"
  by (auto simp: write_version_def Let_def split: if_splits option.splits)

lemma history_oldD:
  assumes "history_ok db" "r \<in> set (topic_versions db)"
  obtains u where "u \<in> set (topics db)" "tp_id u = tv_topic r" "tp_tenant u = tv_tenant r"
    "tv_version r \<le> tp_version u" "1 < tv_version r"
  using assms by (auto simp: history_ok_def)

lemma history_topicD:
  assumes "history_ok db" "u \<in> set (topics db)"
  shows "1 \<le> tp_version u" "tp_version u = 1 \<Longrightarrow> tp_page u = None"
    "1 < tp_version u \<Longrightarrow> \<exists>r \<in> set (topic_versions db). tv_topic r = tp_id u \<and> tv_tenant r = tp_tenant u
       \<and> tv_version r = tp_version u \<and> tv_page r = tp_page u"
  using assms by (auto simp: history_ok_def)

text \<open>The step of the history: the topic moves one version on, and its row is appended.\<close>

lemma history_bump:
  assumes ok: "history_ok db" and t: "t \<in> set (topics db)"
    and ts: "topics db' = map (\<lambda>x. if x = t then bumped_topic t page now else x) (topics db)"
    and vs: "topic_versions db' = topic_versions db @ [\<lparr>tv_topic = tp_id t, tv_tenant = tp_tenant t,
       tv_version = tp_version t + 1, tv_page = page, tv_changelog = change\<rparr>]"
    and su: "know_supply db' = know_supply db"
  shows "history_ok db'"
  unfolding history_ok_def
proof (intro conjI ballI)
  let ?b = "bumped_topic t page now"
  have mem: "x \<in> set (topics db') \<longleftrightarrow> x = ?b \<or> x \<in> set (topics db) \<and> x \<noteq> t" for x
    using t by (auto simp: ts image_iff)
  have one: "1 \<le> tp_version t" by (rule history_topicD [OF ok t])
  have ids: "map tp_id (topics db') = map tp_id (topics db)" by (simp add: ts)
  show "distinct (map tp_id (topics db'))" using ok ids by (simp add: history_ok_def)
  have "(tp_id t, tp_version t + 1) \<noteq> (tv_topic r, tv_version r)" if r: "r \<in> set (topic_versions db)" for r
  proof -
    obtain u where "u \<in> set (topics db)" "tp_id u = tv_topic r" "tv_version r \<le> tp_version u"
      by (rule history_oldD [OF ok r])
    with history_unique [OF ok, of u t] t show ?thesis by auto
  qed
  then show "distinct (map (\<lambda>r. (tv_topic r, tv_version r)) (topic_versions db'))"
    using ok by (auto simp: vs history_ok_def)
  show "tp_id u < know_supply db'" if "u \<in> set (topics db')" for u
    using that ok t by (auto simp: mem su history_ok_def)
  show "\<exists>u \<in> set (topics db'). tp_id u = tv_topic r \<and> tp_tenant u = tv_tenant r
     \<and> tv_version r \<le> tp_version u \<and> 1 < tv_version r" if "r \<in> set (topic_versions db')" for r
  proof (cases "r \<in> set (topic_versions db)")
    case True
    then obtain u where u: "u \<in> set (topics db)" "tp_id u = tv_topic r" "tp_tenant u = tv_tenant r"
      "tv_version r \<le> tp_version u" "1 < tv_version r" by (rule history_oldD [OF ok])
    then show ?thesis by (intro bexI [of _ "if u = t then ?b else u"]) (auto simp: mem)
  next
    case False
    with that one show ?thesis by (intro bexI [of _ ?b]) (auto simp: vs mem)
  qed
  show "1 \<le> tp_version u" if "u \<in> set (topics db')" for u
    using that one history_topicD(1) [OF ok, of u] by (auto simp: mem)
  show "tp_version u = 1 \<longrightarrow> tp_page u = None" if "u \<in> set (topics db')" for u
    using that one history_topicD(2) [OF ok, of u] by (auto simp: mem)
  show "1 < tp_version u \<longrightarrow> (\<exists>r \<in> set (topic_versions db'). tv_topic r = tp_id u \<and> tv_tenant r = tp_tenant u
     \<and> tv_version r = tp_version u \<and> tv_page r = tp_page u)" if "u \<in> set (topics db')" for u
    using that history_topicD(3) [OF ok, of u] by (auto simp: mem vs)
qed

lemma write_version_some:
  assumes ok: "history_ok db" and run: "write_version tenant tid page change ow db = (Some v, db')"
  shows "history_ok db' \<and> (\<exists>rows. topic_versions db' = topic_versions db @ rows)
    \<and> newest_page tenant tid db' = page"
proof -
  obtain t where t: "topic_row_of tenant tid db = Some t" "v = tp_version t + 1"
    and ts: "topics db' = map (\<lambda>x. if x = t then bumped_topic t page (know_now db) else x) (topics db)"
    and vs: "topic_versions db' = topic_versions db @ [\<lparr>tv_topic = tid, tv_tenant = tenant, tv_version = v,
       tv_page = page, tv_changelog = Some change\<rparr>]"
    and su: "know_supply db' = know_supply db"
    by (rule write_version_appends [OF ok run])
  note row = topic_row_of_Some [OF t(1)]
  let ?b = "bumped_topic t page (know_now db)"
  have ok': "history_ok db'"
    by (rule history_bump [OF ok _ ts _ su]) (use row t(2) vs in simp_all)
  have b: "?b \<in> set (topics db')" using row by (auto simp: ts image_iff)
  have "\<not> (\<forall>x \<in> set (topics db'). \<not> (tp_tenant x = tenant \<and> tp_id x = tid))"
    using b row by (metis bumped_topic_simps(1,2))
  then have "topic_row_of tenant tid db' \<noteq> None"
    by (auto simp: topic_row_of_def find_None_iff)
  then obtain u where u: "topic_row_of tenant tid db' = Some u" by blast
  from topic_row_of_Some [OF u] history_unique [OF ok' _ b, of u] row have "u = ?b" by simp
  with u ok' vs show ?thesis by (simp add: newest_page_def)
qed

lemma write_version_ok:
  assumes ok: "history_ok db" and run: "write_version tenant tid page change ow db = (r, db')"
  shows "history_ok db' \<and> (\<exists>rows. topic_versions db' = topic_versions db @ rows)
    \<and> (\<forall>v. r = Some v \<longrightarrow> newest_page tenant tid db' = page)"
proof (cases r)
  case None
  with run have "db' = db" by (intro write_version_failed) simp
  with ok None show ?thesis by simp
next
  case (Some v)
  with write_version_some [OF ok, of tenant tid page change ow v db'] run show ?thesis by simp
qed

lemma history_add_topic:
  assumes ok: "history_ok db" and fresh: "tp_id t = know_supply db" "tp_version t = 1" "tp_page t = None"
  shows "history_ok (db\<lparr>topics := topics db @ [t], know_supply := know_supply db + 1\<rparr>)"
proof -
  have small: "\<forall>u \<in> set (topics db). tp_id u < know_supply db" using ok by (simp add: history_ok_def)
  then have "\<forall>u \<in> set (topics db). tp_id u < Suc (know_supply db)" by (simp add: less_SucI)
  moreover have "tp_id t \<notin> tp_id ` set (topics db)" using small fresh by force
  ultimately show ?thesis using ok fresh unfolding history_ok_def by auto
qed

lemma ensure_topic_ok:
  assumes "history_ok db" "ensure_topic tenant concept title db = (r, db')"
  shows "history_ok db' \<and> topic_versions db' = topic_versions db"
proof (cases "know_up db \<and> find (\<lambda>t. tp_tenant t = tenant \<and> tp_concept t = Some concept) (topics db) = None")
  case True
  with assms(2) have "db' = db\<lparr>topics := topics db @ [\<lparr>tp_id = know_supply db, tp_tenant = tenant, tp_concept = Some concept,
      tp_title = title, tp_version = 1, tp_page = None, tp_updated = know_now db\<rparr>], know_supply := know_supply db + 1\<rparr>"
    by (simp add: ensure_topic_def)
  with history_add_topic [OF assms(1)] show ?thesis by simp
next
  case False
  with assms(2) have "db' = db" by (auto simp: ensure_topic_def split: if_splits)
  with assms(1) show ?thesis by simp
qed

lemma topic_claims_same: "topic_claims tenant tid db = (r, db') \<Longrightarrow> db' = db"
  by (auto simp: topic_claims_def split: if_splits)

text \<open>What an authoring step does to the history: it stays sound and old rows stay.\<close>

definition extends_history :: "world \<Rightarrow> world \<Rightarrow> bool" where
  "extends_history s s' = (history_ok (know s) \<longrightarrow>
     history_ok (know s') \<and> (\<exists>rows. topic_versions (know s') = topic_versions (know s) @ rows))"

lemma extends_refl [simp]: "extends_history s s"
  by (simp add: extends_history_def)

lemma extends_same: "know s' = know s \<Longrightarrow> extends_history s s'"
  by (simp add: extends_history_def)

lemma extends_trans [trans]: "extends_history s s1 \<Longrightarrow> extends_history s1 s2 \<Longrightarrow> extends_history s s2"
  unfolding extends_history_def by (metis append.assoc)

interpretation hist: effect_order extends_history
  by unfold_locales (simp, rule extends_trans)

context effect_order
begin

text \<open>A synthesis is its selection, one question to the model, and the write.\<close>

lemma synthesize_keeps:
  assumes claims: "keeps R (on_know (topic_claims tenant tid))"
    and ask: "\<And>sy pr. keeps R (ask e tenant Synthesis sy pr)"
    and wr: "\<And>page. keeps R (on_know (write_version tenant tid (Some page) ''evidence recompose'' True))"
  shows "keeps R (synthesize e tenant tid)"
  unfolding synthesize_def
proof (rule keeps_then [OF claims])
  fix cs
  let ?wr = "\<lambda>page. step_then (on_know (write_version tenant tid (Some page) ''evidence recompose'' True))
     (\<lambda>v s. (Some \<lparr>sr_topic = Some tid, sr_claims = length cs, sr_version = v, sr_faithfulness = faithfulness_of page cs\<rparr>, s))"
  let ?prompt = "''Claims:'' @ newline @ numbered_evidence cs @ newline @ newline @ ''Write the reference page.''"
  have w: "keeps R (?wr page)" for page by (rule keeps_then [OF wr], rule keeps_return)
  show "keeps R (\<lambda>s. if cs = [] then (None, s)
     else let (reply, s) = ask e tenant Synthesis (SYNTH_SYSTEM (em_dash e)) ?prompt s;
              page = (case reply of Some c \<Rightarrow> reply_text c | None \<Rightarrow> fallback_page cs)
          in ?wr page s)"
  proof (rule keepsI)
    fix s r s'
    assume run: "(if cs = [] then (None, s) else let (reply, s) = ask e tenant Synthesis (SYNTH_SYSTEM (em_dash e)) ?prompt s;
              page = (case reply of Some c \<Rightarrow> reply_text c | None \<Rightarrow> fallback_page cs)
          in ?wr page s) = (r, s')"
    show "R s s'"
    proof (cases "cs = []")
      case True
      with run R_refl show ?thesis by simp
    next
      case False
      obtain reply s1 where a: "ask e tenant Synthesis (SYNTH_SYSTEM (em_dash e)) ?prompt s = (reply, s1)" by (meson surj_pair)
      from run have "?wr (case reply of Some c \<Rightarrow> reply_text c | None \<Rightarrow> fallback_page cs) s1 = (r, s')"
        unfolding if_not_P [OF False] Let_def a prod.case .
      from keeps_run [OF a ask this w] show ?thesis .
    qed
  qed
qed

lemma compile_loop_keeps:
  assumes ensure: "\<And>k l. keeps R (on_know (ensure_topic tenant k l))" and syn: "\<And>tid. keeps R (synthesize e tenant tid)"
  shows "keeps R (compile_loop e tenant gs)"
proof (induction gs)
  case Nil
  then show ?case by (simp add: keeps_def R_refl)
next
  case (Cons g gs)
  obtain k l where g: "g = (k, l)" by (cases g)
  have rest: "keeps R (step_then (compile_loop e tenant gs) (\<lambda>n s. (Some ((if r = None then 0 else 1) + n), s)))"
    for r :: "synth_result option" by (rule keeps_then [OF Cons], rule keeps_return)
  have "keeps R (\<lambda>s. let (r, s) = synthesize e tenant tid s
       in step_then (compile_loop e tenant gs) (\<lambda>n s. (Some ((if r = None then 0 else 1) + n), s)) s)" for tid
  proof (rule keepsI)
    fix s r s' assume run: "(let (r, s) = synthesize e tenant tid s
       in step_then (compile_loop e tenant gs) (\<lambda>n s. (Some ((if r = None then 0 else 1) + n), s)) s) = (r, s')"
    obtain x s1 where x: "synthesize e tenant tid s = (x, s1)" by (meson surj_pair)
    from run have "step_then (compile_loop e tenant gs) (\<lambda>n s. (Some ((if x = None then 0 else 1) + n), s)) s1 = (r, s')"
      unfolding x Let_def prod.case .
    from keeps_run [OF x syn this rest] show "R s s'" .
  qed
  then have "keeps R (step_then (on_know (ensure_topic tenant k l)) (\<lambda>tid s. let (r, s) = synthesize e tenant tid s
       in step_then (compile_loop e tenant gs) (\<lambda>n s. (Some ((if r = None then 0 else 1) + n), s)) s))"
    by (rule keeps_then [OF ensure])
  moreover have "compile_loop e tenant (g # gs) = step_then (on_know (ensure_topic tenant k l)) (\<lambda>tid s.
       let (r, s) = synthesize e tenant tid s
       in step_then (compile_loop e tenant gs) (\<lambda>n s. (Some ((if r = None then 0 else 1) + n), s)) s)"
    by (rule ext) (simp add: g)
  ultimately show ?case by (simp only:)
qed

lemma compile_topics_keeps:
  assumes "keeps R (on_know (eligible_concepts tenant))" "\<And>k l. keeps R (on_know (ensure_topic tenant k l))"
    and "\<And>tid. keeps R (synthesize e tenant tid)"
  shows "keeps R (compile_topics e tenant)"
  unfolding compile_topics_def
  by (rule keeps_then [OF assms(1)], rule compile_loop_keeps [OF assms(2,3)])

end

lemma extends_on_know:
  assumes f: "\<And>db r db'. f db = (r, db') \<Longrightarrow> history_ok db \<Longrightarrow>
      history_ok db' \<and> (\<exists>rows. topic_versions db' = topic_versions db @ rows)"
  shows "keeps extends_history (on_know f)"
proof (rule keepsI)
  fix s r s' assume run: "on_know f s = (r, s')"
  obtain x db' where x: "f (know s) = (x, db')" by (meson surj_pair)
  with run have "know s' = db'" by (auto simp: on_know_def)
  with f [OF x] show "extends_history s s'" by (simp add: extends_history_def)
qed

lemma synthesize_extends: "keeps extends_history (synthesize e tenant tid)"
proof (rule hist.synthesize_keeps)
  show "keeps extends_history (on_know (topic_claims tenant tid))"
    by (rule extends_on_know) (use topic_claims_same in fastforce)
  show "keeps extends_history (ask e tenant Synthesis sy pr)" for sy pr
    by (rule keepsI) (simp add: extends_same ask_frame)
  show "keeps extends_history (on_know (write_version tenant tid (Some page) ''evidence recompose'' True))" for page
    by (rule extends_on_know) (use write_version_ok in blast)
qed

lemma compile_topics_extends: "keeps extends_history (compile_topics e tenant)"
proof (rule hist.compile_topics_keeps)
  show "keeps extends_history (on_know (eligible_concepts tenant))"
    by (rule extends_on_know) (auto simp: eligible_concepts_def split: if_splits)
  show "keeps extends_history (on_know (ensure_topic tenant k l))" for k l
    by (rule extends_on_know) (simp add: ensure_topic_ok)
qed (rule synthesize_extends)

lemma restore_ok:
  assumes ok: "history_ok db" and run: "restore_version_db tenant tid frm db = (r, db')"
  shows "history_ok db' \<and> (\<exists>rows. topic_versions db' = topic_versions db @ rows)"
    and "\<forall>x. r = Some x \<longrightarrow> (\<exists>row \<in> set (topic_versions db). tv_topic row = tid \<and> tv_tenant row = tenant
      \<and> tv_version row = frm \<and> tv_page row \<noteq> None \<and> newest_page tenant tid db' = tv_page row)"
proof -
  note defs = run [unfolded restore_version_db_def]
  have "(history_ok db' \<and> (\<exists>rows. topic_versions db' = topic_versions db @ rows))
    \<and> (\<forall>x. r = Some x \<longrightarrow> (\<exists>row \<in> set (topic_versions db). tv_topic row = tid \<and> tv_tenant row = tenant
      \<and> tv_version row = frm \<and> tv_page row \<noteq> None \<and> newest_page tenant tid db' = tv_page row))"
  proof (cases "\<exists>row page. know_up db \<and> find (\<lambda>r. tv_tenant r = tenant \<and> tv_topic r = tid \<and> tv_version r = frm)
      (topic_versions db) = Some row \<and> tv_page row = Some page")
    case False
    with defs ok show ?thesis by (auto split: if_splits option.splits)
  next
    case True
    then obtain row page where row: "know_up db"
      "find (\<lambda>r. tv_tenant r = tenant \<and> tv_topic r = tid \<and> tv_version r = frm) (topic_versions db) = Some row"
      "tv_page row = Some page" by blast
    obtain v db1 where w: "write_version tenant tid (Some page) (''restored from v'' @ show_int frm) False db = (v, db1)"
      by (meson surj_pair)
    have res: "db' = db1" "r = map_option (\<lambda>v. \<lparr>sr_topic = Some tid, sr_claims = 0, sr_version = v, sr_faithfulness = 1\<rparr>) v"
      using defs row w by (simp_all add: Let_def)
    have "row \<in> set (topic_versions db) \<and> tv_tenant row = tenant \<and> tv_topic row = tid \<and> tv_version row = frm"
      using row(2) by (auto simp: find_Some_iff)
    with write_version_ok [OF ok w] res row(3) show ?thesis by auto
  qed
  then show "history_ok db' \<and> (\<exists>rows. topic_versions db' = topic_versions db @ rows)"
    "\<forall>x. r = Some x \<longrightarrow> (\<exists>row \<in> set (topic_versions db). tv_topic row = tid \<and> tv_tenant row = tenant
      \<and> tv_version row = frm \<and> tv_page row \<noteq> None \<and> newest_page tenant tid db' = tv_page row)" by blast+
qed

section \<open>Authoring runs\<close>

inductive authored :: "knowledge_env \<Rightarrow> world \<Rightarrow> world \<Rightarrow> bool" for e where
  start: "authored e s s"
| synthesized: "authored e s s1 \<Longrightarrow> synthesize e tenant tid s1 = (r, s2) \<Longrightarrow> authored e s s2"
| compiled: "authored e s s1 \<Longrightarrow> compile_topics e tenant s1 = (r, s2) \<Longrightarrow> authored e s s2"
| restored: "authored e s s1 \<Longrightarrow> on_know (restore_version_db tenant tid frm) s1 = (x, s2) \<Longrightarrow> authored e s s2"

lemma authored_extends: "authored e s s' \<Longrightarrow> extends_history s s'"
proof (induction rule: authored.induct)
  case (restored s s1 tenant tid frm x s2)
  have "keeps extends_history (on_know (restore_version_db tenant tid frm))"
    by (rule extends_on_know) (rule restore_ok(1))
  from extends_trans [OF restored.IH keepsD [OF this restored(2)]] show ?case .
qed (auto intro: extends_trans keepsD [OF synthesize_extends] keepsD [OF compile_topics_extends])

section \<open>Properties\<close>

lemma find_version_row:
  assumes ok: "history_ok db" and row: "row \<in> set (topic_versions db)"
  shows "find (\<lambda>r. tv_tenant r = tv_tenant row \<and> tv_topic r = tv_topic row \<and> tv_version r = tv_version row)
    (topic_versions db) = Some row"
proof -
  have keys: "distinct (map (\<lambda>r. (tv_topic r, tv_version r)) (topic_versions db))"
    using ok by (simp add: history_ok_def)
  obtain x where x: "find (\<lambda>r. tv_tenant r = tv_tenant row \<and> tv_topic r = tv_topic row \<and> tv_version r = tv_version row)
    (topic_versions db) = Some x"
    using row by (cases "find (\<lambda>r. tv_tenant r = tv_tenant row \<and> tv_topic r = tv_topic row \<and> tv_version r = tv_version row)
      (topic_versions db)") (auto simp: find_None_iff)
  then have "x \<in> set (topic_versions db)" "tv_topic x = tv_topic row" "tv_version x = tv_version row"
    by (auto simp: find_Some_iff)
  with keys row have "x = row" by (auto simp: distinct_map dest: inj_onD)
  with x show ?thesis by simp
qed

lemma restore_succeeds:
  assumes ok: "history_ok db" and up: "know_up db" and row: "row \<in> set (topic_versions db)"
    and page: "tv_page row = Some page" and room: "\<forall>t \<in> set (topics db). tp_version t + 1 < 2 ^ 31"
  shows "\<exists>x db'. restore_version_db (tv_tenant row) (tv_topic row) (tv_version row) db = (Some x, db')
    \<and> newest_page (tv_tenant row) (tv_topic row) db' = Some page"
proof -
  obtain u where u: "u \<in> set (topics db)" "tp_id u = tv_topic row" "tp_tenant u = tv_tenant row"
    by (rule history_oldD [OF ok row])
  then obtain t where t: "topic_row_of (tv_tenant row) (tv_topic row) db = Some t"
    by (cases "topic_row_of (tv_tenant row) (tv_topic row) db") (auto simp: topic_row_of_def find_None_iff)
  have "tp_version t + 1 < 2 ^ 31" using topic_row_of_Some [OF t] room by blast
  from write_version_succeeds [OF ok up t this]
  obtain db' where w: "write_version (tv_tenant row) (tv_topic row) (Some page)
    (''restored from v'' @ show_int (tv_version row)) False db = (Some (tp_version t + 1), db')" by blast
  with write_version_ok [OF ok w] show ?thesis
    unfolding restore_version_db_def if_not_P [OF not_not [THEN iffD2, OF up]] find_version_row [OF ok row] option.case page Let_def
      w prod.case by simp
qed

text \<open>C9. Invariant: whatever syntheses, topic compilations and restores run, a sound page history
  stays sound (one row per topic and version, the newest row is the current page), and the
  version table only grows: no earlier version is changed or lost.\<close>

theorem page_history_append_only:
  assumes "authored e s s'" "history_ok (know s)"
  shows "history_ok (know s') \<and> (\<exists>rows. topic_versions (know s') = topic_versions (know s) @ rows)"
  using authored_extends [OF assms(1)] assms(2) by (simp add: extends_history_def)

text \<open>C10. Round trip: a page that was once written comes back. After any further authoring,
  restoring an old version succeeds (the tables being up and the 32-bit version column not
  exhausted) and makes the page of that version the current page.\<close>

theorem restore_brings_back:
  assumes "authored e s s'" "history_ok (know s)"
    and "row \<in> set (topic_versions (know s))" "tv_page row = Some page"
    and "know_up (know s')" "\<forall>t \<in> set (topics (know s')). tp_version t + 1 < 2 ^ 31"
  shows "\<exists>x db'. restore_version_db (tv_tenant row) (tv_topic row) (tv_version row) (know s') = (Some x, db')
    \<and> newest_page (tv_tenant row) (tv_topic row) db' = Some page"
proof -
  have "history_ok (know s')" "row \<in> set (topic_versions (know s'))"
    using authored_extends [OF assms(1)] assms(2,3) by (auto simp: extends_history_def)
  with assms(4-6) restore_succeeds show ?thesis by blast
qed

lemma topic_claims_few: "topic_claims tenant tid db = (Some cs, db') \<Longrightarrow> length cs \<le> 60"
  by (auto simp: topic_claims_def TOPIC_CLAIMS_LIMIT_def split: if_splits)

lemma faithfulness_range: "0 \<le> faithfulness_of page cs \<and> faithfulness_of page cs \<le> 1"
  by (simp add: faithfulness_of_def divide_le_eq_1)

text \<open>A synthesis that succeeds, from its claims to its version.\<close>

lemma synthesize_SomeE:
  assumes "synthesize e tenant tid s = (Some r, s')"
  obtains cs page s2 v where "topic_claims tenant tid (know s) = (Some cs, know s)" "cs \<noteq> []"
    "know s2 = know s" "on_know (write_version tenant tid (Some page) ''evidence recompose'' True) s2 = (Some v, s')"
    "r = \<lparr>sr_topic = Some tid, sr_claims = length cs, sr_version = v, sr_faithfulness = faithfulness_of page cs\<rparr>"
proof -
  let ?prompt = "\<lambda>cs. ''Claims:'' @ newline @ numbered_evidence cs @ newline @ newline @ ''Write the reference page.''"
  from assms obtain cs s1 where m: "on_know (topic_claims tenant tid) s = (Some cs, s1)"
    and run: "(if cs = [] then (None, s1)
     else let (reply, s) = ask e tenant Synthesis (SYNTH_SYSTEM (em_dash e)) (?prompt cs) s1;
              page = (case reply of Some c \<Rightarrow> reply_text c | None \<Rightarrow> fallback_page cs)
          in step_then (on_know (write_version tenant tid (Some page) ''evidence recompose'' True))
               (\<lambda>v s. (Some \<lparr>sr_topic = Some tid, sr_claims = length cs, sr_version = v,
                  sr_faithfulness = faithfulness_of page cs\<rparr>, s)) s) = (Some r, s')"
    unfolding synthesize_def by (rule step_then_SomeE)
  obtain x db' where x: "topic_claims tenant tid (know s) = (x, db')" by (meson surj_pair)
  with m topic_claims_same [OF x] have s1: "x = Some cs" "db' = know s" "know s1 = know s"
    by (auto simp: on_know_def)
  from run have ne: "cs \<noteq> []" by (cases "cs = []") simp_all
  obtain reply s2 where a: "ask e tenant Synthesis (SYNTH_SYSTEM (em_dash e)) (?prompt cs) s1 = (reply, s2)"
    by (meson surj_pair)
  let ?page = "case reply of Some c \<Rightarrow> reply_text c | None \<Rightarrow> fallback_page cs"
  from run obtain v s3 where "on_know (write_version tenant tid (Some ?page) ''evidence recompose'' True) s2 = (Some v, s3)"
    "(Some \<lparr>sr_topic = Some tid, sr_claims = length cs, sr_version = v, sr_faithfulness = faithfulness_of ?page cs\<rparr>, s3)
       = (Some r, s')"
    unfolding if_not_P [OF ne] Let_def a prod.case by (rule step_then_SomeE)
  with that [of cs s2 ?page v] x s1 ne ask_frame [OF a] show ?thesis by simp
qed

text \<open>Bounds: a synthesis that succeeds used between one and sixty claims, and the
  faithfulness it reports is a fraction between 0 and 1.\<close>

theorem faithfulness_is_a_fraction:
  assumes "synthesize e tenant tid s = (Some r, s')"
  shows "0 \<le> sr_faithfulness r \<and> sr_faithfulness r \<le> 1 \<and> 1 \<le> sr_claims r \<and> sr_claims r \<le> 60"
proof -
  from assms obtain cs page s2 v where "topic_claims tenant tid (know s) = (Some cs, know s)" "cs \<noteq> []"
    "r = \<lparr>sr_topic = Some tid, sr_claims = length cs, sr_version = v, sr_faithfulness = faithfulness_of page cs\<rparr>"
    by (rule synthesize_SomeE)
  with topic_claims_few [of tenant tid "know s" cs] faithfulness_range [of page cs] show ?thesis
    by (cases cs) auto
qed

lemma first_sorted_nonempty:
  assumes "xs \<noteq> []" "0 < n"
  shows "map f (take n (sort_key g xs)) \<noteq> []"
proof -
  have "length (map f (take n (sort_key g xs))) = min n (length xs)" by simp
  with assms show ?thesis by (metis length_0_conv length_greater_0_conv min_less_iff_conj)
qed

lemma synthesize_total:
  assumes ok: "history_ok (know s)" and up: "know_up (know s)"
    and t: "topic_row_of tenant tid (know s) = Some t" and room: "tp_version t + 1 < 2 ^ 31"
    and c: "c \<in> set (on_topic tenant tid (know s))" "cl_status c \<noteq> ''duplicate''"
  shows "\<exists>r s'. synthesize e tenant tid s = (Some r, s') \<and> sr_version r = tp_version t + 1
    \<and> newest_page tenant tid (know s') \<noteq> None"
proof -
  let ?cs = "map cl_text (take TOPIC_CLAIMS_LIMIT (sort_key cl_created
              (filter (\<lambda>c. cl_status c \<noteq> ''duplicate'') (on_topic tenant tid (know s)))))"
  have m: "on_know (topic_claims tenant tid) s = (Some ?cs, s)"
    using up by (simp add: on_know_def topic_claims_def)
  have "filter (\<lambda>c. cl_status c \<noteq> ''duplicate'') (on_topic tenant tid (know s)) \<noteq> []"
    using c by (auto simp: filter_empty_conv)
  then have ne: "?cs \<noteq> []" by (rule first_sorted_nonempty) (simp add: TOPIC_CLAIMS_LIMIT_def)
  let ?prompt = "''Claims:'' @ newline @ numbered_evidence ?cs @ newline @ newline @ ''Write the reference page.''"
  obtain reply s2 where a: "ask e tenant Synthesis (SYNTH_SYSTEM (em_dash e)) ?prompt s = (reply, s2)"
    by (meson surj_pair)
  have k: "know s2 = know s" using ask_frame [OF a] by simp
  let ?page = "case reply of Some c \<Rightarrow> reply_text c | None \<Rightarrow> fallback_page ?cs"
  obtain db' where w: "write_version tenant tid (Some ?page) ''evidence recompose'' True (know s) = (Some (tp_version t + 1), db')"
    using write_version_succeeds [OF ok up t room] by blast
  then have o: "on_know (write_version tenant tid (Some ?page) ''evidence recompose'' True) s2
      = (Some (tp_version t + 1), s2\<lparr>know := db'\<rparr>)"
    by (simp only: on_know_def k) simp
  have "synthesize e tenant tid s = (Some \<lparr>sr_topic = Some tid, sr_claims = length ?cs,
     sr_version = tp_version t + 1, sr_faithfulness = faithfulness_of ?page ?cs\<rparr>, s2\<lparr>know := db'\<rparr>)"
    unfolding synthesize_def step_then_def m prod.case option.case if_not_P [OF ne] Let_def a o ..
  with write_version_ok [OF ok w] show ?thesis by simp
qed

text \<open>Liveness: synthesis does not depend on the model. For any gateway and any model, a
  topic with at least one claim that is not a duplicate gets its next version, with a page.\<close>

theorem synthesis_needs_no_model:
  assumes "history_ok (know s)" "know_up (know s)"
    and "topic_row_of tenant tid (know s) = Some t" "tp_version t + 1 < 2 ^ 31"
    and "c \<in> set (on_topic tenant tid (know s))" "cl_status c \<noteq> ''duplicate''"
  shows "\<exists>r s'. synthesize e tenant tid s = (Some r, s') \<and> sr_version r = tp_version t + 1
    \<and> newest_page tenant tid (know s') \<noteq> None"
  using assms by (rule synthesize_total)

text \<open>Safety that the code does not have: the prompt calls the claims verified, but a page is
  written from every claim of the concept that is not a duplicate, whatever its status. With at
  most sixty such claims the texts given to the model are exactly theirs, so a claim that
  awaits review, or that a reviewer retired, is among them.\<close>

theorem unverified_claims_reach_the_page:
  assumes "topic_claims tenant tid db = (Some cs, db')"
    and "length (filter (\<lambda>c. cl_status c \<noteq> ''duplicate'') (on_topic tenant tid db)) \<le> 60"
  shows "mset cs = mset (map cl_text (filter (\<lambda>c. cl_status c \<noteq> ''duplicate'') (on_topic tenant tid db)))"
proof -
  let ?cs = "filter (\<lambda>c. cl_status c \<noteq> ''duplicate'') (on_topic tenant tid db)"
  have "cs = map cl_text (take TOPIC_CLAIMS_LIMIT (sort_key cl_created ?cs))"
    using assms(1) by (auto simp: topic_claims_def split: if_splits)
  moreover have "take TOPIC_CLAIMS_LIMIT (sort_key cl_created ?cs) = sort_key cl_created ?cs"
    using assms(2) by (simp add: TOPIC_CLAIMS_LIMIT_def)
  ultimately show ?thesis by simp
qed

section \<open>A topic that has a history\<close>

definition insulin_topic :: knowledge_db where
  "insulin_topic = three_claims\<lparr>
     claims := map (\<lambda>c. if cl_id c = 2 then c\<lparr>cl_status := ''retired''\<rparr> else c) (claims three_claims),
     topics := [\<lparr>tp_id = 60, tp_tenant = 5, tp_concept = Some 7, tp_title = ''insulin'', tp_version = 2,
       tp_page = Some ''first page'', tp_updated = 40\<rparr>],
     topic_versions := [\<lparr>tv_topic = 60, tv_tenant = 5, tv_version = 2, tv_page = Some ''first page'',
       tv_changelog = Some ''evidence recompose''\<rparr>]\<rparr>"

definition insulin_world :: world where
  "insulin_world = quiet_world\<lparr>know := insulin_topic\<rparr>"

lemmas insulin_defs = insulin_world_def insulin_topic_def three_claims_def empty_know_def claim_on_def

lemma insulin_history: "history_ok (know insulin_world)" "know_up (know insulin_world)"
  by (simp_all add: history_ok_def insulin_defs)

lemma insulin_row: "topic_row_of 5 60 (know insulin_world) = Some \<lparr>tp_id = 60, tp_tenant = 5, tp_concept = Some 7,
   tp_title = ''insulin'', tp_version = 2, tp_page = Some ''first page'', tp_updated = 40\<rparr>"
  by (simp add: topic_row_of_def insulin_defs)

lemma insulin_claims: "on_topic 5 60 (know insulin_world) = claims insulin_topic"
  unfolding on_topic_def insulin_row by (simp add: insulin_defs)

theorem synthesis_needs_no_model_witness:
  "\<exists>r s'. synthesize plain_knowledge 5 60 insulin_world = (Some r, s') \<and> sr_version r = 3
    \<and> newest_page 5 60 (know s') \<noteq> None"
proof -
  have "claim_on 1 10 ''insulin does lower blood glucose'' \<in> set (on_topic 5 60 (know insulin_world))"
    unfolding insulin_claims by (simp add: insulin_defs)
  from synthesis_needs_no_model [OF insulin_history insulin_row _ this, of plain_knowledge] show ?thesis
    by (simp add: claim_on_def)
qed

text \<open>A run of two syntheses and a restore.\<close>

lemma insulin_authored:
  obtains r s1 x s2 where "synthesize plain_knowledge 5 60 insulin_world = (r, s1)"
    "on_know (restore_version_db 5 60 2) s1 = (x, s2)" "authored plain_knowledge insulin_world s2"
proof -
  obtain r s1 x s2 where "synthesize plain_knowledge 5 60 insulin_world = (r, s1)"
    "on_know (restore_version_db 5 60 2) s1 = (x, s2)" by (metis surj_pair)
  with that authored.intros show ?thesis by metis
qed

theorem page_history_append_only_witness:
  "\<exists>s'. authored plain_knowledge insulin_world s' \<and> history_ok (know s')
    \<and> (\<exists>rows. topic_versions (know s') = topic_versions insulin_topic @ rows)"
proof -
  obtain s2 where a: "authored plain_knowledge insulin_world s2" by (rule insulin_authored)
  from page_history_append_only [OF a insulin_history(1)] a show ?thesis by (auto simp: insulin_world_def)
qed

theorem restore_brings_back_witness:
  "\<exists>x db'. restore_version_db 5 60 2 insulin_topic = (Some x, db') \<and> newest_page 5 60 db' = Some ''first page''"
  using restore_brings_back [OF authored.start insulin_history(1),
      of "\<lparr>tv_topic = 60, tv_tenant = 5, tv_version = 2, tv_page = Some ''first page'',
       tv_changelog = Some ''evidence recompose''\<rparr>" "''first page''"] insulin_history(2)
  by (simp add: insulin_defs)

theorem faithfulness_is_a_fraction_witness:
  "\<exists>r s'. synthesize plain_knowledge 5 60 insulin_world = (Some r, s') \<and> sr_faithfulness r \<le> 1 \<and> sr_claims r \<le> 60"
proof -
  have "claim_on 1 10 ''insulin does lower blood glucose'' \<in> set (on_topic 5 60 (know insulin_world))"
    unfolding insulin_claims by (simp add: insulin_defs)
  from synthesize_total [OF insulin_history insulin_row _ this, of plain_knowledge]
  obtain r s' where run: "synthesize plain_knowledge 5 60 insulin_world = (Some r, s')"
    by (auto simp: claim_on_def)
  with faithfulness_is_a_fraction [OF run] show ?thesis by blast
qed

theorem unverified_claims_reach_the_page_witness:
  "\<exists>cs db'. topic_claims 5 60 insulin_topic = (Some cs, db') \<and> ''insulin does not lower blood glucose'' \<in> set cs
    \<and> (\<exists>c \<in> set (claims insulin_topic). cl_text c = ''insulin does not lower blood glucose'' \<and> cl_status c = ''retired'')"
proof -
  obtain cs db' where run: "topic_claims 5 60 insulin_topic = (Some cs, db')"
    by (simp add: topic_claims_def insulin_defs)
  have all: "on_topic 5 60 insulin_topic = claims insulin_topic"
    using insulin_claims by (simp add: insulin_world_def)
  have "mset cs = mset (map cl_text (filter (\<lambda>c. cl_status c \<noteq> ''duplicate'') (claims insulin_topic)))"
    using unverified_claims_reach_the_page [OF run] unfolding all by (simp add: insulin_defs)
  then have "set cs = set (map cl_text (filter (\<lambda>c. cl_status c \<noteq> ''duplicate'') (claims insulin_topic)))"
    by (metis set_mset_mset)
  with run show ?thesis by (simp add: insulin_defs)
qed

end
