(* ===== verification/GraphStore.thy ===== *)
theory GraphStore
  imports Claims Graph
begin

text \<open>
  The graph tables: rebuilding, loading and counting in \<open>insight-core/src/graph.rs\<close>, the
  store of \<open>insight-core/src/storage/graph_store.rs\<close> and the read endpoints of
  \<open>insight-api/src/routes/graph.rs\<close> (each returns the fields it renders). A grouped or
  distinct selection lists its rows in the order of their first occurrence; \<open>as f32\<close> of a count
  is exact (it is far below $2^{24}$). The database's text order is the argument \<open>collate\<close>.
\<close>

record graph_stats =
  gs_nodes :: nat
  gs_edges :: nat
  gs_communities :: nat

record graph_node =
  gn_id :: uuid
  gn_label :: string
  gn_kind :: string

record graph_edge =
  ge_src :: uuid
  ge_dst :: uuid
  ge_rel :: string
  ge_weight :: f64

section \<open>Rebuilding\<close>

definition grounded_concepts :: "uuid \<Rightarrow> knowledge_db \<Rightarrow> (uuid \<times> string) list" where
  "grounded_concepts tenant db = remdups
     [(k, case cl_topic c of None \<Rightarrow> ''(concept)'' | Some t \<Rightarrow> t).
        c \<leftarrow> claims db, cl_tenant c = tenant, k \<leftarrow> (case cl_concept c of None \<Rightarrow> [] | Some k \<Rightarrow> [k])]"

fun insert_nodes :: "uuid \<Rightarrow> (uuid \<times> string) list \<Rightarrow> (uuid \<times> uuid) list \<Rightarrow> knowledge_db
    \<Rightarrow> (uuid \<times> uuid) list \<times> knowledge_db" where
  "insert_nodes tenant [] node_of db = (node_of, db)"
| "insert_nodes tenant ((concept, label) # rest) node_of db =
     insert_nodes tenant rest (AList.update concept (know_supply db) node_of)
       (db\<lparr>graph_nodes := graph_nodes db @ [\<lparr>nd_id = know_supply db, nd_tenant = tenant, nd_kind = ''concept'',
              nd_label = label, nd_concept = Some concept, nd_description = None\<rparr>],
           know_supply := know_supply db + 1\<rparr>)"

text \<open>The four-way join: claims of two concepts whose sources name one document.\<close>

definition co_occurring :: "uuid \<Rightarrow> knowledge_db \<Rightarrow> (uuid \<times> uuid) list" where
  "co_occurring tenant db =
     [(c1, c2). a \<leftarrow> claims db, cl_tenant a = tenant,
        sa \<leftarrow> claim_sources db, so_tenant sa = tenant \<and> so_claim sa = cl_id a,
        sb \<leftarrow> claim_sources db, so_tenant sb = tenant \<and> so_document sb = so_document sa,
        b \<leftarrow> claims db, cl_tenant b = tenant \<and> cl_id b = so_claim sb,
        (c1, c2) \<leftarrow> (case (cl_concept a, cl_concept b) of (Some c1, Some c2) \<Rightarrow> if c1 < c2 then [(c1, c2)] else [] | _ \<Rightarrow> [])]"

definition co_occurrence_pairs :: "uuid \<Rightarrow> knowledge_db \<Rightarrow> (uuid \<times> uuid \<times> nat) list" where
  "co_occurrence_pairs tenant db = map (\<lambda>(c1, c2). (c1, c2, count_list (co_occurring tenant db) (c1, c2)))
     (remdups (co_occurring tenant db))"

definition edge_key :: "uuid \<Rightarrow> uuid \<Rightarrow> uuid \<Rightarrow> string \<Rightarrow> edge_rec \<Rightarrow> bool" where
  "edge_key tenant src dst rel e = (ed_tenant e = tenant \<and> ed_src e = src \<and> ed_dst e = dst \<and> ed_rel e = rel)"

definition put_edge :: "edge_rec \<Rightarrow> (edge_rec \<Rightarrow> edge_rec) \<Rightarrow> edge_rec list \<Rightarrow> edge_rec list" where
  "put_edge new upd es =
     (let key = edge_key (ed_tenant new) (ed_src new) (ed_dst new) (ed_rel new)
      in if list_ex key es then update_where key upd es else es @ [new])"

fun insert_graph_edges :: "uuid \<Rightarrow> (uuid \<times> uuid) list \<Rightarrow> (uuid \<times> uuid \<times> nat) list \<Rightarrow> nat \<Rightarrow> edge_rec list
    \<Rightarrow> nat \<times> edge_rec list" where
  "insert_graph_edges tenant node_of [] k es = (k, es)"
| "insert_graph_edges tenant node_of ((c1, c2, n) # rest) k es =
     (case (map_of node_of c1, map_of node_of c2) of
        (Some src, Some dst) \<Rightarrow> insert_graph_edges tenant node_of rest (k + 1)
          (put_edge \<lparr>ed_tenant = tenant, ed_src = src, ed_dst = dst, ed_rel = ''co_occurs'', ed_weight = real n, ed_claim = None\<rparr>
             (\<lambda>e. e\<lparr>ed_weight := real n\<rparr>) es)
      | _ \<Rightarrow> insert_graph_edges tenant node_of rest k es)"

definition rebuild_tx :: "uuid \<Rightarrow> knowledge_db \<Rightarrow> (nat \<times> nat) option \<times> knowledge_db" where
  "rebuild_tx tenant db =
     (if \<not> know_up db then (None, db)
      else let db = db\<lparr>graph_edges := filter (\<lambda>e. ed_tenant e \<noteq> tenant) (graph_edges db),
                       graph_nodes := filter (\<lambda>n. nd_tenant n \<noteq> tenant) (graph_nodes db)\<rparr>;
               (node_of, db) = insert_nodes tenant (grounded_concepts tenant db) [] db;
               (k, es) = insert_graph_edges tenant node_of (co_occurrence_pairs tenant db) 0 (graph_edges db)
           in (Some (length node_of, k), db\<lparr>graph_edges := es\<rparr>))"

section \<open>Reading the graph\<close>

definition tenant_nodes :: "uuid \<Rightarrow> knowledge_db \<Rightarrow> node_row list" where
  "tenant_nodes tenant db = filter (\<lambda>n. nd_tenant n = tenant) (graph_nodes db)"

definition tenant_edges :: "uuid \<Rightarrow> knowledge_db \<Rightarrow> edge_rec list" where
  "tenant_edges tenant db = filter (\<lambda>e. ed_tenant e = tenant) (graph_edges db)"

definition tenant_communities :: "uuid list \<Rightarrow> uuid list \<Rightarrow> uuid \<Rightarrow> knowledge_db \<Rightarrow> ((uuid \<rightharpoonup> nat) \<times> nat) option" where
  "tenant_communities adj_order index_order tenant db =
     (if \<not> know_up db then None
      else community_labels adj_order index_order (map nd_id (tenant_nodes tenant db))
             (map (\<lambda>e. (ed_src e, ed_dst e)) (tenant_edges tenant db)))"

text \<open>
  The two iteration orders of the community pass are chosen by the hash map once the new nodes
  exist, so they are functions of the rebuilt tables.
\<close>

definition build_graph :: "(knowledge_db \<Rightarrow> uuid list) \<Rightarrow> (knowledge_db \<Rightarrow> uuid list) \<Rightarrow> uuid \<Rightarrow> knowledge_db
    \<Rightarrow> graph_stats option \<times> knowledge_db" where
  "build_graph adj_order index_order tenant db =
     (case rebuild_tx tenant db of
        (None, db) \<Rightarrow> (None, db)
      | (Some (n, e), db) \<Rightarrow>
          (map_option (\<lambda>(_, c). \<lparr>gs_nodes = n, gs_edges = e, gs_communities = c\<rparr>)
             (tenant_communities (adj_order db) (index_order db) tenant db), db))"

definition node_of_row :: "node_row \<Rightarrow> graph_node" where
  "node_of_row n = \<lparr>gn_id = nd_id n, gn_label = nd_label n, gn_kind = nd_kind n\<rparr>"

definition edge_of_row :: "edge_rec \<Rightarrow> graph_edge" where
  "edge_of_row e = \<lparr>ge_src = ed_src e, ge_dst = ed_dst e, ge_rel = ed_rel e, ge_weight = ed_weight e\<rparr>"

definition load_graph :: "(string \<Rightarrow> nat) \<Rightarrow> uuid \<Rightarrow> nat \<Rightarrow> knowledge_db \<Rightarrow> (graph_node list \<times> graph_edge list) option" where
  "load_graph collate tenant limit db =
     (if \<not> know_up db then None
      else Some (map node_of_row (take limit (sort_key (\<lambda>n. collate (nd_label n)) (tenant_nodes tenant db))),
                 map edge_of_row (take (limit * 4) (tenant_edges tenant db))))"

definition graph_stats_of :: "uuid list \<Rightarrow> uuid list \<Rightarrow> uuid \<Rightarrow> knowledge_db \<Rightarrow> graph_stats option" where
  "graph_stats_of adj_order index_order tenant db =
     (if \<not> know_up db then None
      else map_option (\<lambda>(_, c). \<lparr>gs_nodes = length (tenant_nodes tenant db),
                                gs_edges = length (tenant_edges tenant db), gs_communities = c\<rparr>)
             (tenant_communities adj_order index_order tenant db))"

section \<open>The graph store\<close>

record new_node =
  nn_id :: "uuid option"
  nn_kind :: string
  nn_label :: string
  nn_concept :: "uuid option"
  nn_description :: "string option"

text \<open>
  Identifiers are unique over all tenants (the primary key); an id of another tenant is met by
  the conflict clause, whose tenant guard leaves no row, and the transaction is dropped.
\<close>

definition upsert_node :: "uuid \<Rightarrow> new_node \<Rightarrow> knowledge_db \<Rightarrow> uuid option \<times> knowledge_db" where
  "upsert_node tenant node db =
     (let k = (case nn_id node of Some k \<Rightarrow> k | None \<Rightarrow> know_supply db);
          db' = (case nn_id node of Some k \<Rightarrow> db | None \<Rightarrow> db\<lparr>know_supply := know_supply db + 1\<rparr>);
          new = \<lparr>nd_id = k, nd_tenant = tenant, nd_kind = nn_kind node, nd_label = nn_label node,
                 nd_concept = nn_concept node, nd_description = nn_description node\<rparr>
      in if \<not> know_up db then (None, db)
         else (case find (\<lambda>n. nd_id n = k) (graph_nodes db) of
             None \<Rightarrow> (Some k, db'\<lparr>graph_nodes := graph_nodes db @ [new]\<rparr>)
           | Some old \<Rightarrow>
               if nd_tenant old \<noteq> tenant then (None, db)
               else (Some k, db'\<lparr>graph_nodes := update_where (\<lambda>n. nd_id n = k) (\<lambda>n. new) (graph_nodes db)\<rparr>)))"

text \<open>The foreign keys: both end points and the source claim are rows of the tenant.\<close>

definition upsert_edge :: "uuid \<Rightarrow> uuid \<Rightarrow> uuid \<Rightarrow> string \<Rightarrow> f64 \<Rightarrow> uuid option \<Rightarrow> knowledge_db
    \<Rightarrow> unit option \<times> knowledge_db" where
  "upsert_edge tenant src dst rel weight claim db =
     (let ids = map nd_id (tenant_nodes tenant db);
          claim_there = (case claim of None \<Rightarrow> True
             | Some c \<Rightarrow> list_ex (\<lambda>r. cl_tenant r = tenant \<and> cl_id r = c) (claims db))
      in if \<not> know_up db \<or> src \<notin> set ids \<or> dst \<notin> set ids \<or> \<not> claim_there then (None, db)
         else (Some (), db\<lparr>graph_edges := put_edge
                 \<lparr>ed_tenant = tenant, ed_src = src, ed_dst = dst, ed_rel = rel, ed_weight = weight, ed_claim = claim\<rparr>
                 (\<lambda>e. e\<lparr>ed_weight := weight, ed_claim := claim\<rparr>) (graph_edges db)\<rparr>))"

text \<open>
  The recursive query. Its rows are (node, hop); \<open>UNION\<close> drops repeated rows, and all rows
  of one hop come from one iteration, so an iteration maps the nodes of a hop to the nodes of
  the next. A depth of zero or less keeps the start only.
\<close>

definition hop_from :: "edge_rec list \<Rightarrow> uuid list \<Rightarrow> uuid list" where
  "hop_from es frontier = remdups
     [if ed_src e = w then ed_dst e else ed_src e. e \<leftarrow> es, w \<leftarrow> frontier, ed_src e = w \<or> ed_dst e = w]"

fun walk :: "edge_rec list \<Rightarrow> nat \<Rightarrow> uuid list \<Rightarrow> uuid list" where
  "walk es 0 frontier = frontier"
| "walk es (Suc hops) frontier = frontier @ walk es hops (hop_from es frontier)"

definition neighbors :: "(string \<Rightarrow> nat) \<Rightarrow> uuid \<Rightarrow> uuid \<Rightarrow> int \<Rightarrow> knowledge_db \<Rightarrow> node_row list option" where
  "neighbors collate tenant node depth db =
     (if \<not> know_up db then None
      else let reached = walk (tenant_edges tenant db) (nat depth) [node]
           in Some (sort_key (\<lambda>n. collate (nd_label n))
                (filter (\<lambda>n. nd_id n \<in> set reached \<and> nd_id n \<noteq> node) (tenant_nodes tenant db))))"

section \<open>The read endpoints\<close>

definition GRAPH_LIMIT :: nat where "GRAPH_LIMIT = 500"

definition node_labels :: "uuid \<Rightarrow> knowledge_db \<Rightarrow> (uuid \<rightharpoonup> string) option" where
  "node_labels tenant db =
     (if \<not> know_up db then None else Some (map_of (map (\<lambda>n. (nd_id n, nd_label n)) (tenant_nodes tenant db))))"

record community =
  cm_id :: nat
  cm_label :: string
  cm_nodes :: "uuid list"

definition group_members :: "uuid list \<Rightarrow> (uuid \<rightharpoonup> nat) \<Rightarrow> nat \<Rightarrow> uuid list" where
  "group_members label_order labels c = filter (\<lambda>v. labels v = Some c) label_order"

text \<open>\<open>label_order\<close> and \<open>group_order\<close> are the iteration orders of the two hash maps.\<close>

definition get_communities :: "uuid list \<Rightarrow> uuid list \<Rightarrow> uuid list \<Rightarrow> nat list \<Rightarrow> uuid \<Rightarrow> knowledge_db
    \<Rightarrow> community list option" where
  "get_communities adj_order index_order label_order group_order tenant db =
     (case tenant_communities adj_order index_order tenant db of None \<Rightarrow> None
      | Some (labels, _) \<Rightarrow> (case node_labels tenant db of None \<Rightarrow> None
         | Some names \<Rightarrow> Some (map (\<lambda>c.
             let ns = group_members label_order labels c
             in \<lparr>cm_id = c,
                 cm_label = (case Option.bind (case ns of [] \<Rightarrow> None | v # _ \<Rightarrow> Some v) names of
                     Some l \<Rightarrow> l | None \<Rightarrow> ''community '' @ show_nat c),
                 cm_nodes = ns\<rparr>) group_order)))"

definition get_community :: "(string \<Rightarrow> nat) \<Rightarrow> uuid list \<Rightarrow> uuid list \<Rightarrow> uuid list \<Rightarrow> uuid \<Rightarrow> uuid \<Rightarrow> knowledge_db
    \<Rightarrow> (string \<times> (uuid \<times> string) list \<times> graph_edge list) option" where
  "get_community collate adj_order index_order member_order tenant node db =
     (case tenant_communities adj_order index_order tenant db of None \<Rightarrow> None
      | Some (labels, _) \<Rightarrow> (case labels node of None \<Rightarrow> None
         | Some c \<Rightarrow> (case (node_labels tenant db, load_graph collate tenant GRAPH_LIMIT db) of
              (Some names, Some (_, es)) \<Rightarrow>
                let members = group_members member_order labels c;
                    name = (\<lambda>v. case names v of None \<Rightarrow> [] | Some l \<Rightarrow> l)
                in Some (name node, map (\<lambda>v. (v, name v)) members,
                     filter (\<lambda>e. ge_src e \<in> set members \<and> ge_dst e \<in> set members) es)
            | _ \<Rightarrow> None)))"

definition get_pagerank :: "uuid list \<Rightarrow> uuid \<Rightarrow> knowledge_db \<Rightarrow> (uuid \<times> string \<times> f64) list option" where
  "get_pagerank rank_order tenant db =
     (case node_labels tenant db of None \<Rightarrow> None
      | Some names \<Rightarrow> map_option (take 30) (pagerank rank_order (map nd_id (tenant_nodes tenant db))
          (map (\<lambda>e. (ed_src e, ed_dst e)) (tenant_edges tenant db)) names))"

definition kind_groups :: "(string \<Rightarrow> nat) \<Rightarrow> uuid \<Rightarrow> knowledge_db \<Rightarrow> (string \<times> nat) list" where
  "kind_groups ties tenant db = take 10 (sort_key (\<lambda>(k, n). - int n)
     (map (\<lambda>k. (k, length (filter (\<lambda>r. nd_kind r = k) (tenant_nodes tenant db))))
        (sort_key ties (remdups (map nd_kind (tenant_nodes tenant db))))))"

definition get_stats :: "(string \<Rightarrow> nat) \<Rightarrow> uuid list \<Rightarrow> uuid list \<Rightarrow> uuid \<Rightarrow> knowledge_db
    \<Rightarrow> (graph_stats \<times> (string \<times> nat) list) option" where
  "get_stats ties adj_order index_order tenant db =
     (case graph_stats_of adj_order index_order tenant db of None \<Rightarrow> None
      | Some st \<Rightarrow> Some (st, kind_groups ties tenant db))"

section \<open>Neighbourhoods\<close>

definition edge_rel :: "edge_rec list \<Rightarrow> (uuid \<times> uuid) set" where
  "edge_rel es = {(a, b). \<exists>e \<in> set es. (ed_src e = a \<and> ed_dst e = b) \<or> (ed_src e = b \<and> ed_dst e = a)}"

lemma hop_from_image: "set (hop_from es frontier) = edge_rel es `` set frontier"
proof (intro set_eqI iffI)
  fix v assume "v \<in> set (hop_from es frontier)"
  then obtain e w where "e \<in> set es" "w \<in> set frontier" "ed_src e = w \<or> ed_dst e = w"
    "v = (if ed_src e = w then ed_dst e else ed_src e)"
    unfolding hop_from_def by (auto split: if_splits)
  then show "v \<in> edge_rel es `` set frontier" unfolding edge_rel_def by (cases "ed_src e = w") auto
next
  fix v assume "v \<in> edge_rel es `` set frontier"
  then obtain w e where "w \<in> set frontier" "e \<in> set es"
    "(ed_src e = w \<and> ed_dst e = v) \<or> (ed_src e = v \<and> ed_dst e = w)"
    by (auto simp: edge_rel_def)
  then show "v \<in> set (hop_from es frontier)" unfolding hop_from_def by force
qed

lemma within_hops:
  "(\<exists>k \<le> Suc h. \<exists>w \<in> F. (w, v) \<in> R ^^ k) \<longleftrightarrow> v \<in> F \<or> (\<exists>k \<le> h. \<exists>w \<in> R `` F. (w, v) \<in> R ^^ k)"
proof (intro iffI; (elim exE bexE conjE disjE)?)
  fix k w assume k: "k \<le> Suc h" "w \<in> F" "(w, v) \<in> R ^^ k"
  show "v \<in> F \<or> (\<exists>k \<le> h. \<exists>w \<in> R `` F. (w, v) \<in> R ^^ k)"
  proof (cases k)
    case (Suc j)
    with k obtain u where "(w, u) \<in> R" "(u, v) \<in> R ^^ j" by (blast dest: relpow_Suc_D2)
    with k Suc show ?thesis by (intro disjI2 exI [of _ j]) auto
  qed (use k in simp)
next
  assume "v \<in> F"
  then show "\<exists>k \<le> Suc h. \<exists>w \<in> F. (w, v) \<in> R ^^ k" by (intro exI [of _ 0]) auto
next
  fix k u assume k: "k \<le> h" "u \<in> R `` F" "(u, v) \<in> R ^^ k"
  then obtain w where "w \<in> F" "(w, u) \<in> R" by blast
  with k show "\<exists>k \<le> Suc h. \<exists>w \<in> F. (w, v) \<in> R ^^ k"
    by (intro exI [of _ "Suc k"] conjI bexI [of _ w] relpow_Suc_I2) auto
qed

lemma walk_reaches: "v \<in> set (walk es h fs) \<longleftrightarrow> (\<exists>k \<le> h. \<exists>w \<in> set fs. (w, v) \<in> edge_rel es ^^ k)"
proof (induction h arbitrary: fs)
  case (Suc h)
  show ?case unfolding within_hops walk.simps set_append Un_iff Suc.IH hop_from_image ..
qed simp

text \<open>Equivalence: the recursive neighbourhood query returns exactly the tenant's nodes that an
  undirected path of at most \<open>depth\<close> edges joins to the start, the start left out. Cycles
  neither repeat a node nor keep the walk from ending.\<close>

theorem neighbors_within_depth:
  assumes "know_up db"
  shows "\<exists>ns. neighbors collate tenant node depth db = Some ns
    \<and> (\<forall>n. n \<in> set ns \<longleftrightarrow> n \<in> set (tenant_nodes tenant db) \<and> nd_id n \<noteq> node
         \<and> (\<exists>k \<le> nat depth. (node, nd_id n) \<in> edge_rel (tenant_edges tenant db) ^^ k))
    \<and> (distinct (tenant_nodes tenant db) \<longrightarrow> distinct ns)"
proof (intro exI conjI allI)
  let ?ns = "sort_key (\<lambda>n. collate (nd_label n))
    (filter (\<lambda>n. nd_id n \<in> set (walk (tenant_edges tenant db) (nat depth) [node]) \<and> nd_id n \<noteq> node) (tenant_nodes tenant db))"
  show "neighbors collate tenant node depth db = Some ?ns" using assms by (simp add: neighbors_def)
  show "n \<in> set ?ns \<longleftrightarrow> n \<in> set (tenant_nodes tenant db) \<and> nd_id n \<noteq> node
         \<and> (\<exists>k \<le> nat depth. (node, nd_id n) \<in> edge_rel (tenant_edges tenant db) ^^ k)" for n
    by (simp only: set_sort set_filter walk_reaches) auto
  show "distinct (tenant_nodes tenant db) \<longrightarrow> distinct ?ns" by simp
qed

section \<open>What a rebuild leaves\<close>

definition concept_node :: "uuid \<Rightarrow> uuid \<Rightarrow> uuid \<times> string \<Rightarrow> node_row" where
  "concept_node tenant k g = \<lparr>nd_id = k, nd_tenant = tenant, nd_kind = ''concept'', nd_label = snd g,
     nd_concept = Some (fst g), nd_description = None\<rparr>"

definition new_nodes :: "uuid \<Rightarrow> uuid \<Rightarrow> (uuid \<times> string) list \<Rightarrow> node_row list" where
  "new_nodes tenant k gs = map2 (concept_node tenant) [k..<k + length gs] gs"

lemma new_nodes_simps [simp]:
  "new_nodes tenant k [] = []"
  "new_nodes tenant k (g # gs) = concept_node tenant k g # new_nodes tenant (Suc k) gs"
  by (simp_all add: new_nodes_def upt_conv_Cons del: upt_Suc)

lemma insert_nodes_db: "snd (insert_nodes tenant gs m db) =
    db\<lparr>graph_nodes := graph_nodes db @ new_nodes tenant (know_supply db) gs, know_supply := know_supply db + length gs\<rparr>"
  by (induction tenant gs m db rule: insert_nodes.induct) (simp_all add: concept_node_def)

lemma insert_nodes_keys:
  "fst ` set (fst (insert_nodes tenant gs m db)) = fst ` set m \<union> fst ` set gs"
  "distinct (map fst m) \<Longrightarrow> distinct (map fst (fst (insert_nodes tenant gs m db)))"
  by (induction tenant gs m db rule: insert_nodes.induct) (auto simp: dom_update distinct_update)

lemma insert_nodes_value:
  assumes "map_of (fst (insert_nodes tenant gs m db)) c = Some v"
  shows "map_of m c = Some v \<or> (\<exists>n \<in> set (new_nodes tenant (know_supply db) gs). nd_id n = v \<and> nd_concept n = Some c)"
  using assms
proof (induction tenant gs m db rule: insert_nodes.induct)
  case (2 tenant c' l gs m db)
  from "2.IH" "2.prems"
  have "map_of (AList.update c' (know_supply db) m) c = Some v
    \<or> (\<exists>n \<in> set (new_nodes tenant (Suc (know_supply db)) gs). nd_id n = v \<and> nd_concept n = Some c)" by simp
  then show ?case
  proof
    assume "map_of (AList.update c' (know_supply db) m) c = Some v"
    then show ?thesis by (cases "c = c'") (simp_all add: update_conv' concept_node_def)
  qed auto
qed simp

lemma new_nodes_ids: "map nd_id (new_nodes tenant k gs) = [k..<k + length gs]"
  by (induction gs arbitrary: k) (simp_all add: concept_node_def upt_conv_Cons del: upt_Suc)

lemma new_nodes_rows:
  "n \<in> set (new_nodes tenant k gs) \<Longrightarrow> nd_tenant n = tenant \<and> nd_kind n = ''concept'' \<and> nd_description n = None
    \<and> (\<exists>c. nd_concept n = Some c \<and> (c, nd_label n) \<in> set gs)"
  by (induction gs arbitrary: k) (auto simp: concept_node_def)

lemma new_nodes_cover: "(c, l) \<in> set gs \<Longrightarrow> \<exists>n \<in> set (new_nodes tenant k gs). nd_concept n = Some c \<and> nd_label n = l"
  by (induction gs arbitrary: k) (auto simp: concept_node_def)

definition co_edge :: "uuid \<Rightarrow> (uuid \<times> uuid) list \<Rightarrow> uuid \<times> uuid \<times> nat \<Rightarrow> edge_rec" where
  "co_edge tenant m = (\<lambda>(c1, c2, n). \<lparr>ed_tenant = tenant, ed_src = the (map_of m c1), ed_dst = the (map_of m c2),
     ed_rel = ''co_occurs'', ed_weight = real n, ed_claim = None\<rparr>)"

lemma put_edge_new:
  "\<forall>e \<in> set es. \<not> edge_key (ed_tenant new) (ed_src new) (ed_dst new) (ed_rel new) e \<Longrightarrow> put_edge new upd es = es @ [new]"
  by (auto simp: put_edge_def Let_def list_ex_iff)

lemma insert_graph_edges_result:
  assumes "distinct (map (\<lambda>(c1, c2, n). (c1, c2)) ps)"
    and "\<forall>(c1, c2, n) \<in> set ps. c1 \<in> dom (map_of m) \<and> c2 \<in> dom (map_of m)"
    and "inj_on (\<lambda>c. the (map_of m c)) (dom (map_of m))"
    and "\<forall>e \<in> set es. ed_tenant e = tenant \<longrightarrow> (\<forall>p \<in> set ps. ed_src (co_edge tenant m p) \<noteq> ed_src e
       \<or> ed_dst (co_edge tenant m p) \<noteq> ed_dst e)"
  shows "insert_graph_edges tenant m ps k es = (k + length ps, es @ map (co_edge tenant m) ps)"
  using assms
proof (induction ps arbitrary: k es)
  case (Cons p ps)
  obtain c1 c2 n where p: "p = (c1, c2, n)" by (cases p)
  obtain s d where sd: "map_of m c1 = Some s" "map_of m c2 = Some d" using Cons.prems(2) p by auto
  have new: "put_edge (co_edge tenant m p) upd es = es @ [co_edge tenant m p]" for upd
    by (rule put_edge_new) (use Cons.prems(4) in \<open>auto simp: edge_key_def co_edge_def p\<close>)
  have "insert_graph_edges tenant m (p # ps) k es = insert_graph_edges tenant m ps (k + 1) (es @ [co_edge tenant m p])"
    using new sd by (simp add: p co_edge_def)
  also have "\<dots> = (k + 1 + length ps, (es @ [co_edge tenant m p]) @ map (co_edge tenant m) ps)"
  proof (rule Cons.IH)
    have "the (map_of m c1) \<noteq> the (map_of m a) \<or> the (map_of m c2) \<noteq> the (map_of m b)" if "(a, b, n') \<in> set ps" for a b n'
    proof -
      have "(a, b) \<noteq> (c1, c2)" using Cons.prems(1) that by (force simp: p)
      moreover have "a \<in> dom (map_of m)" "b \<in> dom (map_of m)" using Cons.prems(2) that by auto
      ultimately show ?thesis
        using inj_onD [OF Cons.prems(3), of c1 a] inj_onD [OF Cons.prems(3), of c2 b] sd by auto
    qed
    then show "\<forall>e \<in> set (es @ [co_edge tenant m p]). ed_tenant e = tenant \<longrightarrow>
       (\<forall>q \<in> set ps. ed_src (co_edge tenant m q) \<noteq> ed_src e \<or> ed_dst (co_edge tenant m q) \<noteq> ed_dst e)"
      using Cons.prems(4) by (auto simp: co_edge_def p) metis+
  qed (use Cons.prems in auto)
  finally show ?case by simp
qed simp

definition share_document :: "uuid \<Rightarrow> knowledge_db \<Rightarrow> uuid \<Rightarrow> uuid \<Rightarrow> bool" where
  "share_document tenant db c1 c2 = (\<exists>a \<in> set (claims db). \<exists>b \<in> set (claims db).
     \<exists>sa \<in> set (claim_sources db). \<exists>sb \<in> set (claim_sources db).
       cl_tenant a = tenant \<and> cl_tenant b = tenant \<and> so_tenant sa = tenant \<and> so_tenant sb = tenant
       \<and> cl_concept a = Some c1 \<and> cl_concept b = Some c2
       \<and> so_claim sa = cl_id a \<and> so_claim sb = cl_id b \<and> so_document sa = so_document sb)"

lemma in_concatI: "x \<in> set xs \<Longrightarrow> y \<in> set (f x) \<Longrightarrow> y \<in> set (concat (map f xs))"
  by auto

lemma co_occurring_iff: "(c1, c2) \<in> set (co_occurring tenant db) \<longleftrightarrow> c1 < c2 \<and> share_document tenant db c1 c2"
proof
  assume "(c1, c2) \<in> set (co_occurring tenant db)"
  then obtain a sa sb b where r: "a \<in> set (claims db)" "cl_tenant a = tenant"
    "sa \<in> set (claim_sources db)" "so_tenant sa = tenant" "so_claim sa = cl_id a"
    "sb \<in> set (claim_sources db)" "so_tenant sb = tenant" "so_document sb = so_document sa"
    "b \<in> set (claims db)" "cl_tenant b = tenant" "cl_id b = so_claim sb"
    and "(c1, c2) \<in> set (case (cl_concept a, cl_concept b) of (Some c1, Some c2) \<Rightarrow> if c1 < c2 then [(c1, c2)] else [] | _ \<Rightarrow> [])"
    unfolding co_occurring_def by (auto split: if_splits)
  then have "cl_concept a = Some c1" "cl_concept b = Some c2" "c1 < c2"
    by (cases "cl_concept a"; cases "cl_concept b"; auto split: if_splits)+
  with r show "c1 < c2 \<and> share_document tenant db c1 c2"
    unfolding share_document_def by (intro conjI bexI [of _ a] bexI [of _ b] bexI [of _ sa] bexI [of _ sb]) auto
next
  assume "c1 < c2 \<and> share_document tenant db c1 c2"
  then obtain a b sa sb where r: "a \<in> set (claims db)" "cl_tenant a = tenant"
    "sa \<in> set (claim_sources db)" "so_tenant sa = tenant \<and> so_claim sa = cl_id a"
    "sb \<in> set (claim_sources db)" "so_tenant sb = tenant \<and> so_document sb = so_document sa"
    "b \<in> set (claims db)" "cl_tenant b = tenant \<and> cl_id b = so_claim sb"
    and c: "cl_concept a = Some c1" "cl_concept b = Some c2" "c1 < c2"
    unfolding share_document_def by auto
  show "(c1, c2) \<in> set (co_occurring tenant db)"
    unfolding co_occurring_def
    by (rule in_concatI [OF r(1)], simp only: r(2) if_True simp_thms, rule in_concatI [OF r(3)],
      simp only: r(4) if_True simp_thms, rule in_concatI [OF r(5)], simp only: r(6) if_True simp_thms,
      rule in_concatI [OF r(7)], simp add: r(8) c)
qed

lemma grounded_concepts_iff: "c \<in> fst ` set (grounded_concepts tenant db)
    \<longleftrightarrow> (\<exists>a \<in> set (claims db). cl_tenant a = tenant \<and> cl_concept a = Some c)"
  by (force simp: grounded_concepts_def split: option.splits)

lemma new_nodes_id_unique:
  "x \<in> set (new_nodes tenant k gs) \<Longrightarrow> y \<in> set (new_nodes tenant k gs) \<Longrightarrow> nd_id x = nd_id y \<Longrightarrow> x = y"
proof -
  have "distinct (map nd_id (new_nodes tenant k gs))" by (simp add: new_nodes_ids)
  then show "x \<in> set (new_nodes tenant k gs) \<Longrightarrow> y \<in> set (new_nodes tenant k gs) \<Longrightarrow> nd_id x = nd_id y \<Longrightarrow> x = y"
    by (auto simp: distinct_map dest: inj_onD)
qed

lemma pairs_props:
  "distinct (map (\<lambda>(c1, c2, n). (c1, c2)) (co_occurrence_pairs tenant db))"
  "(c1, c2, n) \<in> set (co_occurrence_pairs tenant db) \<longleftrightarrow>
     c1 < c2 \<and> share_document tenant db c1 c2 \<and> n = count_list (co_occurring tenant db) (c1, c2)"
proof -
  have "map (\<lambda>(c1, c2, n). (c1, c2)) (co_occurrence_pairs tenant db) = remdups (co_occurring tenant db)"
    by (simp add: co_occurrence_pairs_def comp_def case_prod_beta)
  then show "distinct (map (\<lambda>(c1, c2, n). (c1, c2)) (co_occurrence_pairs tenant db))" by simp
  have "(c1, c2, n) \<in> set (co_occurrence_pairs tenant db) \<longleftrightarrow>
     (c1, c2) \<in> set (co_occurring tenant db) \<and> n = count_list (co_occurring tenant db) (c1, c2)"
    unfolding co_occurrence_pairs_def set_map set_remdups by (auto intro: image_eqI [of _ _ "(c1, c2)"])
  then show "(c1, c2, n) \<in> set (co_occurrence_pairs tenant db) \<longleftrightarrow>
     c1 < c2 \<and> share_document tenant db c1 c2 \<and> n = count_list (co_occurring tenant db) (c1, c2)"
    by (simp add: co_occurring_iff)
qed

lemma share_document_grounded:
  assumes "share_document tenant db c1 c2"
  shows "c1 \<in> fst ` set (grounded_concepts tenant db)" "c2 \<in> fst ` set (grounded_concepts tenant db)"
  using assms unfolding grounded_concepts_iff share_document_def by blast+

lemma pairs_frame:
  "claims db' = claims db \<Longrightarrow> claim_sources db' = claim_sources db \<Longrightarrow>
     co_occurrence_pairs tenant db' = co_occurrence_pairs tenant db"
  unfolding co_occurrence_pairs_def co_occurring_def by (simp only:)

lemma rebuild_result:
  assumes "rebuild_tx tenant db = (Some (n, k), db')"
  obtains m where
    "graph_nodes db' = filter (\<lambda>n. nd_tenant n \<noteq> tenant) (graph_nodes db)
       @ new_nodes tenant (know_supply db) (grounded_concepts tenant db)"
    "graph_edges db' = filter (\<lambda>e. ed_tenant e \<noteq> tenant) (graph_edges db)
       @ map (co_edge tenant m) (co_occurrence_pairs tenant db)"
    "distinct (map fst m)" "fst ` set m = fst ` set (grounded_concepts tenant db)"
    "n = length m" "k = length (co_occurrence_pairs tenant db)"
    "\<And>c v. map_of m c = Some v \<Longrightarrow>
       \<exists>x \<in> set (new_nodes tenant (know_supply db) (grounded_concepts tenant db)). nd_id x = v \<and> nd_concept x = Some c"
    "claims db' = claims db" "claim_sources db' = claim_sources db" "know_up db'"
proof -
  define d where "d = db\<lparr>graph_edges := filter (\<lambda>e. ed_tenant e \<noteq> tenant) (graph_edges db),
                       graph_nodes := filter (\<lambda>n. nd_tenant n \<noteq> tenant) (graph_nodes db)\<rparr>"
  let ?gs = "grounded_concepts tenant db" and ?ps = "co_occurrence_pairs tenant db"
  have up: "know_up db" using assms by (cases "know_up db") (simp_all add: rebuild_tx_def)
  have gs: "grounded_concepts tenant d = ?gs" by (simp add: d_def grounded_concepts_def)
  define m where "m = fst (insert_nodes tenant ?gs [] d)"
  define d1 where "d1 = snd (insert_nodes tenant ?gs [] d)"
  have ins: "insert_nodes tenant ?gs [] d = (m, d1)" by (simp add: m_def d1_def)
  have d1: "d1 = d\<lparr>graph_nodes := graph_nodes d @ new_nodes tenant (know_supply d) ?gs,
      know_supply := know_supply d + length ?gs\<rparr>" unfolding d1_def by (rule insert_nodes_db)
  have ps: "co_occurrence_pairs tenant d1 = ?ps"
    by (rule pairs_frame) (simp_all add: d1 d_def)
  have keys: "fst ` set m = fst ` set ?gs" "distinct (map fst m)"
    using insert_nodes_keys(1) [of tenant ?gs "[]" d] insert_nodes_keys(2) [of "[]" tenant ?gs d] by (simp_all add: m_def)
  have vals: "\<exists>x \<in> set (new_nodes tenant (know_supply db) ?gs). nd_id x = v \<and> nd_concept x = Some c"
    if "map_of m c = Some v" for c v
    using insert_nodes_value [of tenant ?gs "[]" d c v] that by (simp add: m_def d_def)
  have dom: "dom (map_of m) = fst ` set ?gs" by (simp add: dom_map_of_conv_image_fst keys)
  have inj: "inj_on (\<lambda>c. the (map_of m c)) (dom (map_of m))"
  proof (rule inj_onI)
    fix a b assume ab: "a \<in> dom (map_of m)" "b \<in> dom (map_of m)" "the (map_of m a) = the (map_of m b)"
    then obtain v where "map_of m a = Some v" "map_of m b = Some v" by auto
    from vals [OF this(1)] vals [OF this(2)] new_nodes_id_unique show "a = b" by (metis option.inject)
  qed
  have edges: "insert_graph_edges tenant m ?ps 0 (graph_edges d1) = (0 + length ?ps, graph_edges d1 @ map (co_edge tenant m) ?ps)"
  proof (rule insert_graph_edges_result [OF pairs_props(1) _ inj])
    show "\<forall>(c1, c2, n) \<in> set ?ps. c1 \<in> dom (map_of m) \<and> c2 \<in> dom (map_of m)"
      using share_document_grounded by (auto simp: pairs_props(2) dom)
  qed (simp add: d1 d_def)
  have run: "rebuild_tx tenant db = (Some (length m, length ?ps), d1\<lparr>graph_edges := graph_edges d1 @ map (co_edge tenant m) ?ps\<rparr>)"
    unfolding rebuild_tx_def Let_def d_def [symmetric] gs ins prod.case ps edges using up by simp
  with assms have res: "n = length m" "k = length ?ps"
    "db' = d1\<lparr>graph_edges := graph_edges d1 @ map (co_edge tenant m) ?ps\<rparr>" by simp_all
  show ?thesis
    by (rule that [of m]) (simp_all add: res d1 d_def keys up vals)
qed

text \<open>An edge of the rebuilt graph, told by the concepts of its end points.\<close>

definition concept_edge :: "uuid \<Rightarrow> knowledge_db \<Rightarrow> uuid \<Rightarrow> uuid \<Rightarrow> f64 \<Rightarrow> bool" where
  "concept_edge tenant db c1 c2 w = (\<exists>e \<in> set (tenant_edges tenant db).
     \<exists>s \<in> set (tenant_nodes tenant db). \<exists>d \<in> set (tenant_nodes tenant db).
       nd_id s = ed_src e \<and> nd_id d = ed_dst e \<and> nd_concept s = Some c1 \<and> nd_concept d = Some c2 \<and> ed_weight e = w)"

lemma rebuilt_edges:
  assumes "rebuild_tx tenant db = (Some (n, k), db')"
  shows "concept_edge tenant db' c1 c2 w \<longleftrightarrow>
    c1 < c2 \<and> share_document tenant db c1 c2 \<and> w = real (count_list (co_occurring tenant db) (c1, c2))"
proof -
  let ?new = "new_nodes tenant (know_supply db) (grounded_concepts tenant db)"
  let ?ps = "co_occurrence_pairs tenant db"
  obtain m where nodes: "graph_nodes db' = filter (\<lambda>n. nd_tenant n \<noteq> tenant) (graph_nodes db) @ ?new"
    and edges: "graph_edges db' = filter (\<lambda>e. ed_tenant e \<noteq> tenant) (graph_edges db) @ map (co_edge tenant m) ?ps"
    and keys: "fst ` set m = fst ` set (grounded_concepts tenant db)"
    and vals: "\<And>c v. map_of m c = Some v \<Longrightarrow> \<exists>x \<in> set ?new. nd_id x = v \<and> nd_concept x = Some c"
    by (rule rebuild_result [OF assms]) blast
  have tn: "tenant_nodes tenant db' = ?new"
    using new_nodes_rows by (fastforce simp: tenant_nodes_def nodes filter_id_conv)
  have te: "tenant_edges tenant db' = map (co_edge tenant m) ?ps"
    by (simp add: tenant_edges_def edges filter_id_conv co_edge_def case_prod_beta)
  have node: "\<exists>x \<in> set ?new. nd_id x = the (map_of m c) \<and> nd_concept x = Some c"
    if "c \<in> fst ` set (grounded_concepts tenant db)" for c
    using that vals unfolding keys [symmetric] by (metis map_of_eq_None_iff option.collapse)
  show ?thesis
  proof
    assume "concept_edge tenant db' c1 c2 w"
    then obtain a b i s d where p: "(a, b, i) \<in> set ?ps" and s: "s \<in> set ?new" "nd_id s = the (map_of m a)" "nd_concept s = Some c1"
      and d: "d \<in> set ?new" "nd_id d = the (map_of m b)" "nd_concept d = Some c2" and w: "w = real i"
      unfolding concept_edge_def tn te by (auto simp: co_edge_def)
    have sh: "a < b" "share_document tenant db a b" "i = count_list (co_occurring tenant db) (a, b)"
      using p by (simp_all add: pairs_props(2))
    have "a = c1" "b = c2"
      using node [OF share_document_grounded(1) [OF sh(2)]] node [OF share_document_grounded(2) [OF sh(2)]] s d
        new_nodes_id_unique by (metis option.inject)+
    with sh w show "c1 < c2 \<and> share_document tenant db c1 c2 \<and> w = real (count_list (co_occurring tenant db) (c1, c2))"
      by simp
  next
    assume r: "c1 < c2 \<and> share_document tenant db c1 c2 \<and> w = real (count_list (co_occurring tenant db) (c1, c2))"
    then have p: "(c1, c2, count_list (co_occurring tenant db) (c1, c2)) \<in> set ?ps" by (simp add: pairs_props(2))
    have sh: "share_document tenant db c1 c2" using r by blast
    obtain s where "s \<in> set ?new" "nd_id s = the (map_of m c1)" "nd_concept s = Some c1"
      using node [OF share_document_grounded(1) [OF sh]] by blast
    moreover obtain d where "d \<in> set ?new" "nd_id d = the (map_of m c2)" "nd_concept d = Some c2"
      using node [OF share_document_grounded(2) [OF sh]] by blast
    moreover have "co_edge tenant m (c1, c2, count_list (co_occurring tenant db) (c1, c2)) \<in> set (map (co_edge tenant m) ?ps)"
      using p by (auto simp only: set_map)
    ultimately show "concept_edge tenant db' c1 c2 w"
      unfolding concept_edge_def tn te using r
      by (intro bexI [of _ "co_edge tenant m (c1, c2, count_list (co_occurring tenant db) (c1, c2))"] bexI [of _ s] bexI [of _ d])
        (simp_all add: co_edge_def)
  qed
qed

lemma rebuilt_frame:
  assumes "rebuild_tx tenant db = (Some (n, k), db')"
  shows "other \<noteq> tenant \<Longrightarrow> tenant_nodes other db' = tenant_nodes other db \<and> tenant_edges other db' = tenant_edges other db"
    and "(\<exists>x \<in> set (tenant_nodes tenant db'). nd_concept x = Some c) \<longleftrightarrow>
      (\<exists>a \<in> set (claims db). cl_tenant a = tenant \<and> cl_concept a = Some c)"
    and "n = card {c. \<exists>a \<in> set (claims db). cl_tenant a = tenant \<and> cl_concept a = Some c}"
    and "k = length (tenant_edges tenant db')"
proof -
  let ?new = "new_nodes tenant (know_supply db) (grounded_concepts tenant db)"
  let ?ps = "co_occurrence_pairs tenant db"
  obtain m where nodes: "graph_nodes db' = filter (\<lambda>n. nd_tenant n \<noteq> tenant) (graph_nodes db) @ ?new"
    and edges: "graph_edges db' = filter (\<lambda>e. ed_tenant e \<noteq> tenant) (graph_edges db) @ map (co_edge tenant m) ?ps"
    and keys: "distinct (map fst m)" "fst ` set m = fst ` set (grounded_concepts tenant db)" and n: "n = length m" "k = length ?ps"
    by (rule rebuild_result [OF assms]) blast
  have mine: "\<forall>x \<in> set ?new. nd_tenant x = tenant" "\<forall>e \<in> set (map (co_edge tenant m) ?ps). ed_tenant e = tenant"
    using new_nodes_rows by (blast, auto simp: co_edge_def)
  show "tenant_nodes other db' = tenant_nodes other db \<and> tenant_edges other db' = tenant_edges other db" if "other \<noteq> tenant"
    using that mine unfolding tenant_nodes_def tenant_edges_def nodes edges
    by (auto simp: filter_empty_conv intro: filter_cong)
  have tn: "tenant_nodes tenant db' = ?new" and te: "tenant_edges tenant db' = map (co_edge tenant m) ?ps"
    unfolding tenant_nodes_def tenant_edges_def nodes edges using mine by (simp_all add: filter_id_conv)
  show "(\<exists>x \<in> set (tenant_nodes tenant db'). nd_concept x = Some c) \<longleftrightarrow>
      (\<exists>a \<in> set (claims db). cl_tenant a = tenant \<and> cl_concept a = Some c)"
    unfolding tn grounded_concepts_iff [symmetric]
  proof
    assume "\<exists>x \<in> set ?new. nd_concept x = Some c"
    then obtain x where "x \<in> set ?new" "nd_concept x = Some c" by blast
    with new_nodes_rows [OF this(1)] have "(c, nd_label x) \<in> set (grounded_concepts tenant db)" by auto
    then show "c \<in> fst ` set (grounded_concepts tenant db)" by (rule image_eqI [rotated]) simp
  next
    assume "c \<in> fst ` set (grounded_concepts tenant db)"
    then obtain l where "(c, l) \<in> set (grounded_concepts tenant db)" by auto
    from new_nodes_cover [OF this] show "\<exists>x \<in> set ?new. nd_concept x = Some c" by blast
  qed
  have "n = card (fst ` set m)" using n(1) keys(1) by (metis distinct_card length_map set_map)
  also have "fst ` set m = {c. \<exists>a \<in> set (claims db). cl_tenant a = tenant \<and> cl_concept a = Some c}"
    unfolding keys(2) using grounded_concepts_iff by blast
  finally show "n = card {c. \<exists>a \<in> set (claims db). cl_tenant a = tenant \<and> cl_concept a = Some c}" .
  show "k = length (tenant_edges tenant db')" by (simp add: te n)
qed


text \<open>
  A tenant with two documents: the first has claims on the concepts 7 and 8, the second on 8
  and, twice, under two labels, on 9.
\<close>

definition graph_claim :: "uuid \<Rightarrow> uuid \<Rightarrow> string \<Rightarrow> claim_row" where
  "graph_claim k concept label = \<lparr>cl_id = k, cl_tenant = 5, cl_topic = Some label, cl_concept = Some concept,
     cl_type = ''fact'', cl_text = ''a claim'', cl_meaning = None, cl_status = ''pending'', cl_created = 1\<rparr>"

definition source_of :: "uuid \<Rightarrow> uuid \<Rightarrow> source_row" where
  "source_of claim doc = \<lparr>so_tenant = 5, so_claim = claim, so_document = doc, so_block = None\<rparr>"

definition two_documents :: knowledge_db where
  "two_documents = empty_know\<lparr>
     claims := [graph_claim 1 7 ''liver'', graph_claim 2 8 ''spleen'', graph_claim 3 8 ''spleen'',
                graph_claim 4 9 ''kidney'', graph_claim 5 9 ''ren''],
     claim_sources := [source_of 1 30, source_of 2 30, source_of 3 31, source_of 4 31, source_of 5 31],
     graph_nodes := [\<lparr>nd_id = 1, nd_tenant = 6, nd_kind = ''concept'', nd_label = ''other'', nd_concept = None,
       nd_description = None\<rparr>]\<rparr>"

lemmas two_documents_defs = two_documents_def empty_know_def graph_claim_def source_of_def

lemma two_documents_rebuilt: "\<exists>db'. rebuild_tx 5 two_documents = (Some (3, 2), db')"
proof -
  have g: "grounded_concepts 5 d = [(7, ''liver''), (8, ''spleen''), (9, ''kidney''), (9, ''ren'')]"
    if "claims d = claims two_documents" for d
    unfolding grounded_concepts_def that by (simp add: two_documents_defs)
  have p: "co_occurring 5 two_documents = [(7, 8), (8, 9), (8, 9)]"
    by (simp add: co_occurring_def two_documents_defs)
  have "co_occurrence_pairs 5 d = [(7, 8, 1), (8, 9, 2)]"
    if "claims d = claims two_documents" "claim_sources d = claim_sources two_documents" for d
    using pairs_frame [OF that, of 5] by (simp add: co_occurrence_pairs_def p)
  note pairs = this
  define d where "d = two_documents\<lparr>graph_edges := filter (\<lambda>e. ed_tenant e \<noteq> 5) (graph_edges two_documents),
                       graph_nodes := filter (\<lambda>n. nd_tenant n \<noteq> 5) (graph_nodes two_documents)\<rparr>"
  have up: "know_up two_documents" by (simp add: two_documents_defs)
  have gd: "grounded_concepts 5 d = [(7, ''liver''), (8, ''spleen''), (9, ''kidney''), (9, ''ren'')]"
    by (rule g) (simp add: d_def)
  obtain m d1 where ins: "insert_nodes 5 [(7, ''liver''), (8, ''spleen''), (9, ''kidney''), (9, ''ren'')] [] d = (m, d1)"
    by (meson surj_pair)
  then have m: "m = [(7, 100), (8, 101), (9, 103)]" and d1: "claims d1 = claims two_documents"
    "claim_sources d1 = claim_sources two_documents"
    by (auto simp: d_def two_documents_defs)
  obtain es where "insert_graph_edges 5 m (co_occurrence_pairs 5 d1) 0 (graph_edges d1) = (2, es)"
    unfolding pairs [OF d1] m by simp
  then show ?thesis
    unfolding rebuild_tx_def Let_def d_def [symmetric] gd ins prod.case using up by (simp add: m)
qed


definition plain_node :: "uuid \<Rightarrow> node_row" where
  "plain_node k = \<lparr>nd_id = k, nd_tenant = 6, nd_kind = ''concept'', nd_label = ''n'', nd_concept = None, nd_description = None\<rparr>"

definition plain_edge :: "uuid \<Rightarrow> uuid \<Rightarrow> edge_rec" where
  "plain_edge a b = \<lparr>ed_tenant = 6, ed_src = a, ed_dst = b, ed_rel = ''r'', ed_weight = 1, ed_claim = None\<rparr>"

definition square_db :: knowledge_db where
  "square_db = empty_know\<lparr>graph_nodes := map plain_node [1, 2, 3, 4], graph_edges := [plain_edge 1 2, plain_edge 3 2, plain_edge 3 4]\<rparr>"

lemmas square_defs = square_db_def empty_know_def plain_node_def plain_edge_def tenant_nodes_def tenant_edges_def

theorem neighbors_within_depth_witness:
  "\<exists>ns. neighbors (\<lambda>_. 0) 6 1 2 square_db = Some ns \<and> map nd_id ns = [2, 3]
    \<and> (\<exists>k \<le> 2. (1, 3) \<in> edge_rel (tenant_edges 6 square_db) ^^ k)
    \<and> \<not> (\<exists>k \<le> 2. (1, 4) \<in> edge_rel (tenant_edges 6 square_db) ^^ k)"
proof -
  have up: "know_up square_db" by (simp add: square_defs)
  obtain ns where ns: "neighbors (\<lambda>_. 0) 6 1 2 square_db = Some ns"
    and mem: "\<And>n. n \<in> set ns \<longleftrightarrow> n \<in> set (tenant_nodes 6 square_db) \<and> nd_id n \<noteq> 1
         \<and> (\<exists>k \<le> 2. (1, nd_id n) \<in> edge_rel (tenant_edges 6 square_db) ^^ k)"
    using neighbors_within_depth [OF up, of "\<lambda>_. 0" 6 1 2] by auto
  have val: "neighbors (\<lambda>_. 0) 6 1 2 square_db = Some [plain_node 2, plain_node 3]"
    by (simp add: neighbors_def hop_from_def square_defs numeral_2_eq_2)
  have "plain_node 3 \<in> set ns" "plain_node 4 \<notin> set ns" using ns val by (auto simp: plain_node_def)
  with mem [of "plain_node 3"] mem [of "plain_node 4"] ns val show ?thesis
    by (auto simp: square_defs)
qed

end
