(* ===== verification/Webhooks.thy ===== *)
theory Webhooks
  imports Auth Queue
begin

text \<open>
  Webhooks and notifications: \<open>insight-core/src/webhooks.rs\<close>, \<open>notify.rs\<close>, the generators of
  \<open>security.rs\<close>, and the handlers of \<open>insight-api/src/routes/webhooks.rs\<close> and
  \<open>routes/notifications.rs\<close>. The HTTP client, HMAC and the JSON printer are parameters
  (\<open>hook_env\<close>); \<open>posts\<close> is the log of the requests that were sent. A handler takes the result of
  its extractor; the rows it renders are returned as rows. A random identifier is drawn from
  the supply, and its text is its decimal form.
\<close>

record hook_row =
  wh_id :: uuid
  wh_tenant :: uuid
  wh_url :: string
  wh_event :: string
  wh_active :: bool
  wh_secret :: "string option"
  wh_delivery :: "nat option"
  wh_status :: "string option"
  wh_created :: nat

record notif_row =
  nt_id :: uuid
  nt_tenant :: uuid
  nt_kind :: string
  nt_title :: string
  nt_description :: string
  nt_action :: "string option"
  nt_read :: bool
  nt_archived :: bool
  nt_created :: nat

record post =
  po_url :: string
  po_headers :: "(string \<times> string) list"
  po_body :: string

datatype hook_reply = HttpStatus nat | HttpError string | ClientError string

record ops_db =
  hooks :: "hook_row list"
  notifications :: "notif_row list"
  posts :: "post list"
  ops_supply :: uuid
  ops_now :: nat
  ops_up :: bool

text \<open>\<open>answer n p\<close> is what the n-th request gets; \<open>reason\<close> is the client's table of status texts.\<close>

record hook_env =
  hmac_hex :: "string \<Rightarrow> string \<Rightarrow> string"
  text_of :: "json \<Rightarrow> string"
  reason :: "nat \<Rightarrow> string option"
  answer :: "nat \<Rightarrow> post \<Rightarrow> hook_reply"
  elapsed :: "nat \<Rightarrow> nat"

section \<open>Matching and delivery\<close>

definition WEBHOOK_EVENTS :: "string list" where
  "WEBHOOK_EVENTS = [''document.indexed'', ''document.failed'', ''conflict.detected'', ''review.resolved'']"

definition matches_event :: "string \<Rightarrow> string \<Rightarrow> bool" where
  "matches_event pattern event =
     (let p = trim pattern
      in if p = [] \<or> p = ''*'' then True
         else case strip_suffix ''.*'' p of
             Some cat \<Rightarrow> (case split_once CHR ''.'' event of None \<Rightarrow> False | Some (c, _) \<Rightarrow> c = cat)
           | None \<Rightarrow> p = event)"

record delivery =
  dl_status :: nat
  dl_text :: string
  dl_ms :: nat
  dl_signed :: bool
  dl_error :: "string option"

definition event_body :: "hook_env \<Rightarrow> string \<Rightarrow> json \<Rightarrow> string" where
  "event_body e event payload = text_of e (JObj [(''event'', JStr event), (''data'', payload)])"

definition event_post :: "hook_env \<Rightarrow> string \<Rightarrow> string option \<Rightarrow> string \<Rightarrow> json \<Rightarrow> post" where
  "event_post e url secret event payload =
     \<lparr>po_url = url,
      po_headers = [(''content-type'', ''application/json''), (''x-insight-event'', event)]
        @ (case secret of None \<Rightarrow> [] | Some k \<Rightarrow>
             [(''x-insight-signature'', ''sha256='' @ hmac_hex e k (event_body e event payload))]),
      po_body = event_body e event payload\<rparr>"

definition show_status :: "hook_env \<Rightarrow> nat \<Rightarrow> string" where
  "show_status e n = show_nat n @ '' '' @ (case reason e n of None \<Rightarrow> ''<unknown status code>'' | Some r \<Rightarrow> r)"

definition deliver_one :: "hook_env \<Rightarrow> string \<Rightarrow> string option \<Rightarrow> string \<Rightarrow> json \<Rightarrow> ops_db \<Rightarrow> delivery \<times> ops_db" where
  "deliver_one e url secret event payload s =
     (let p = event_post e url secret event payload; n = length (posts s); signed = (secret \<noteq> None)
      in case answer e n p of
          ClientError err \<Rightarrow>
            (\<lparr>dl_status = 0, dl_text = ''client error'', dl_ms = 0, dl_signed = signed, dl_error = Some err\<rparr>, s)
        | HttpStatus st \<Rightarrow>
            (\<lparr>dl_status = st, dl_text = (case reason e st of None \<Rightarrow> [] | Some r \<Rightarrow> r), dl_ms = elapsed e n,
              dl_signed = signed,
              dl_error = (if 200 \<le> st \<and> st < 300 then None else Some (''http '' @ show_status e st))\<rparr>,
             s\<lparr>posts := posts s @ [p]\<rparr>)
        | HttpError err \<Rightarrow>
            (\<lparr>dl_status = 0, dl_text = ''error'', dl_ms = elapsed e n, dl_signed = signed, dl_error = Some err\<rparr>,
             s\<lparr>posts := posts s @ [p]\<rparr>))"

definition delivery_status :: "delivery \<Rightarrow> string" where
  "delivery_status d = (case dl_error d of Some err \<Rightarrow> err | None \<Rightarrow> show_nat (dl_status d))"

text \<open>A write of the outcome that fails is ignored.\<close>

definition record_outcome :: "uuid \<Rightarrow> uuid \<Rightarrow> string \<Rightarrow> ops_db \<Rightarrow> ops_db" where
  "record_outcome tenant k st s =
     (if \<not> ops_up s then s
      else s\<lparr>hooks := update_where (\<lambda>h. wh_tenant h = tenant \<and> wh_id h = k)
              (\<lambda>h. h\<lparr>wh_delivery := Some (ops_now s), wh_status := Some st\<rparr>) (hooks s)\<rparr>)"

fun dispatch_loop :: "hook_env \<Rightarrow> uuid \<Rightarrow> string \<Rightarrow> json \<Rightarrow> hook_row list \<Rightarrow> nat \<Rightarrow> ops_db \<Rightarrow> nat \<times> ops_db" where
  "dispatch_loop e tenant event payload [] n s = (n, s)"
| "dispatch_loop e tenant event payload (h # hs) n s =
     (if \<not> matches_event (wh_event h) event then dispatch_loop e tenant event payload hs n s
      else let (d, s) = deliver_one e (wh_url h) (wh_secret h) event payload s
           in dispatch_loop e tenant event payload hs (n + 1) (record_outcome tenant (wh_id h) (delivery_status d) s))"

definition active_hooks :: "uuid \<Rightarrow> ops_db \<Rightarrow> hook_row list" where
  "active_hooks tenant s = filter (\<lambda>h. wh_tenant h = tenant \<and> wh_active h) (hooks s)"

definition dispatch :: "hook_env \<Rightarrow> uuid \<Rightarrow> string \<Rightarrow> json \<Rightarrow> ops_db \<Rightarrow> nat option \<times> ops_db" where
  "dispatch e tenant event payload s =
     (if \<not> ops_up s then (None, s)
      else let (n, s) = dispatch_loop e tenant event payload (active_hooks tenant s) 0 s in (Some n, s))"

section \<open>Notifications\<close>

definition notify :: "uuid \<Rightarrow> string \<Rightarrow> string \<Rightarrow> string \<Rightarrow> string option \<Rightarrow> ops_db \<Rightarrow> unit option \<times> ops_db" where
  "notify tenant kind title description action s =
     (if \<not> ops_up s then (None, s)
      else (Some (), s\<lparr>notifications := notifications s @ [\<lparr>nt_id = ops_supply s, nt_tenant = tenant,
             nt_kind = (if kind \<in> {''ssot_merge'', ''conflict'', ''novelty'', ''alert''} then kind else ''alert''),
             nt_title = title, nt_description = description, nt_action = action, nt_read = False,
             nt_archived = False, nt_created = ops_now s\<rparr>], ops_supply := ops_supply s + 1\<rparr>))"

definition list_notifications :: "uuid \<Rightarrow> ops_db \<Rightarrow> api_error + notif_row list" where
  "list_notifications tenant s = (if \<not> ops_up s then Inl internal else Inr (take 200
     (sort_key (\<lambda>n. - int (nt_created n)) (filter (\<lambda>n. nt_tenant n = tenant \<and> \<not> nt_archived n) (notifications s)))))"

definition mark_all_read :: "uuid \<Rightarrow> ops_db \<Rightarrow> (api_error + unit) \<times> ops_db" where
  "mark_all_read tenant s =
     (if \<not> ops_up s then (Inl internal, s)
      else (Inr (), s\<lparr>notifications := update_where (\<lambda>n. nt_tenant n = tenant \<and> \<not> nt_read n)
              (\<lambda>n. n\<lparr>nt_read := True\<rparr>) (notifications s)\<rparr>))"

definition coalesce :: "'a option \<Rightarrow> 'a \<Rightarrow> 'a" where
  "coalesce new old = (case new of None \<Rightarrow> old | Some x \<Rightarrow> x)"

definition update_notification :: "uuid \<Rightarrow> uuid \<Rightarrow> bool option \<Rightarrow> bool option \<Rightarrow> ops_db
    \<Rightarrow> (api_error + notif_row) \<times> ops_db" where
  "update_notification tenant k rd ar s =
     (let hit = (\<lambda>n. nt_tenant n = tenant \<and> nt_id n = k);
          ns = update_where hit (\<lambda>n. n\<lparr>nt_read := coalesce rd (nt_read n), nt_archived := coalesce ar (nt_archived n)\<rparr>)
                 (notifications s)
      in if rd = None \<and> ar = None then (Inl bad_request, s)
         else if \<not> ops_up s then (Inl internal, s)
         else case find hit ns of None \<Rightarrow> (Inl not_found, s) | Some n \<Rightarrow> (Inr n, s\<lparr>notifications := ns\<rparr>))"

definition archive_notification :: "uuid \<Rightarrow> uuid \<Rightarrow> ops_db \<Rightarrow> (api_error + unit) \<times> ops_db" where
  "archive_notification tenant k s =
     (if \<not> ops_up s then (Inl internal, s)
      else (Inr (), s\<lparr>notifications := update_where (\<lambda>n. nt_tenant n = tenant \<and> nt_id n = k)
              (\<lambda>n. n\<lparr>nt_read := True, nt_archived := True\<rparr>) (notifications s)\<rparr>))"

section \<open>The webhook registry\<close>

definition valid_url :: "string \<Rightarrow> bool" where
  "valid_url u = (starts_with u ''http://'' \<or> starts_with u ''https://'')"

definition generate_webhook_secret :: "ops_db \<Rightarrow> string \<times> ops_db" where
  "generate_webhook_secret s = (''whsec_'' @ show_nat (ops_supply s), s\<lparr>ops_supply := ops_supply s + 1\<rparr>)"

definition list_webhooks :: "uuid \<Rightarrow> ops_db \<Rightarrow> api_error + hook_row list \<times> string list" where
  "list_webhooks tenant s = (if \<not> ops_up s then Inl internal else Inr
     (sort_key (\<lambda>h. - int (wh_created h)) (filter (\<lambda>h. wh_tenant h = tenant) (hooks s)), WEBHOOK_EVENTS))"

definition clean_event :: "string \<Rightarrow> string" where
  "clean_event ev = (if trim ev = [] then ''*'' else trim ev)"

definition create_webhook :: "api_error + authed_user \<Rightarrow> string \<Rightarrow> string option \<Rightarrow> ops_db \<Rightarrow> (api_error + hook_row) \<times> ops_db" where
  "create_webhook auth url event s =
     (case require_admin auth of Inl err \<Rightarrow> (Inl err, s)
      | Inr user \<Rightarrow>
          if trim url = [] then (Inl bad_request, s)
          else if \<not> valid_url url then (Inl bad_request, s)
          else let ev = (case event of None \<Rightarrow> ''*'' | Some ev \<Rightarrow> clean_event ev);
                   (secret, s) = generate_webhook_secret s
               in if \<not> ops_up s then (Inl internal, s)
                  else let row = \<lparr>wh_id = ops_supply s, wh_tenant = auth_tenant user, wh_url = url, wh_event = ev,
                         wh_active = True, wh_secret = Some secret, wh_delivery = None, wh_status = None,
                         wh_created = ops_now s\<rparr>
                       in (Inr row, s\<lparr>hooks := hooks s @ [row], ops_supply := ops_supply s + 1\<rparr>))"

definition update_webhook :: "api_error + authed_user \<Rightarrow> uuid \<Rightarrow> string option \<Rightarrow> string option \<Rightarrow> bool option \<Rightarrow> ops_db
    \<Rightarrow> (api_error + hook_row) \<times> ops_db" where
  "update_webhook auth k url event active s =
     (case require_admin auth of Inl err \<Rightarrow> (Inl err, s)
      | Inr user \<Rightarrow>
          if url = None \<and> event = None \<and> active = None then (Inl bad_request, s)
          else if (case url of None \<Rightarrow> False | Some u \<Rightarrow> \<not> valid_url u) then (Inl bad_request, s)
          else let hit = (\<lambda>h. wh_tenant h = auth_tenant user \<and> wh_id h = k);
                   hs = update_where hit (\<lambda>h. h\<lparr>wh_url := coalesce url (wh_url h),
                          wh_event := coalesce (map_option clean_event event) (wh_event h),
                          wh_active := coalesce active (wh_active h)\<rparr>) (hooks s)
               in if \<not> ops_up s then (Inl internal, s)
                  else case find hit hs of None \<Rightarrow> (Inl not_found, s) | Some h \<Rightarrow> (Inr h, s\<lparr>hooks := hs\<rparr>))"

definition test_webhook :: "hook_env \<Rightarrow> api_error + authed_user \<Rightarrow> uuid \<Rightarrow> ops_db \<Rightarrow> (api_error + delivery) \<times> ops_db" where
  "test_webhook e auth k s =
     (case require_admin auth of Inl err \<Rightarrow> (Inl err, s)
      | Inr user \<Rightarrow>
          if \<not> ops_up s then (Inl internal, s)
          else case find (\<lambda>h. wh_tenant h = auth_tenant user \<and> wh_id h = k) (hooks s) of
              None \<Rightarrow> (Inl not_found, s)
            | Some h \<Rightarrow>
                let payload = JObj [(''message'', JStr ''test event from Insight Library''), (''webhookId'', JStr (show_nat k))];
                    (d, s) = deliver_one e (wh_url h) (wh_secret h) ''webhook.test'' payload s
                in (Inr d, record_outcome (auth_tenant user) k (delivery_status d) s))"

definition delete_webhook :: "api_error + authed_user \<Rightarrow> uuid \<Rightarrow> ops_db \<Rightarrow> (api_error + unit) \<times> ops_db" where
  "delete_webhook auth k s =
     (case require_admin auth of Inl err \<Rightarrow> (Inl err, s)
      | Inr user \<Rightarrow> if \<not> ops_up s then (Inl internal, s)
          else (Inr (), s\<lparr>hooks := filter (\<lambda>h. \<not> (wh_tenant h = auth_tenant user \<and> wh_id h = k)) (hooks s)\<rparr>))"

section \<open>Matching\<close>

lemma split_once_iff: "(case split_once d s of None \<Rightarrow> False | Some (c, _) \<Rightarrow> c = x) \<longleftrightarrow>
   (\<exists>rest. s = x @ d # rest) \<and> d \<notin> set x"
proof (cases "d \<in> set s")
  case True
  then obtain a b where s: "s = a @ d # b" "d \<notin> set a" by (meson split_list_first)
  have pos: "\<forall>y \<in> set a. y \<noteq> d" using s(2) by blast
  have "takeWhile (\<lambda>c. c \<noteq> d) s = a" unfolding s(1) using pos by (simp add: takeWhile_append2)
  moreover have "takeWhile (\<lambda>c. c \<noteq> d) s = x" if "s = x @ d # rest" "d \<notin> set x" for rest
  proof -
    have "\<forall>y \<in> set x. y \<noteq> d" using that(2) by blast
    then show ?thesis unfolding that(1) by (simp add: takeWhile_append2)
  qed
  ultimately show ?thesis using True s by (auto simp: split_once_def)
next
  case False
  then show ?thesis by (auto simp: split_once_def)
qed

lemma strip_suffix_iff: "strip_suffix p s = Some x \<longleftrightarrow> s = x @ p"
proof -
  have "\<exists>x. s = x @ p" if "take (length p) (rev s) = rev p"
  proof
    have "rev s = rev p @ drop (length p) (rev s)" using append_take_drop_id [of "length p" "rev s"] that by simp
    then have "rev (rev s) = rev (rev p @ drop (length p) (rev s))" by simp
    then show "s = rev (drop (length p) (rev s)) @ p" by simp
  qed
  then have "ends_with s p \<longleftrightarrow> (\<exists>x. s = x @ p)"
    by (auto simp: ends_with_def starts_with_def)
  then show ?thesis by (auto simp: strip_suffix_def)
qed

text \<open>Equivalence: a subscription matches an event exactly when, its spaces trimmed, it is empty or a
  star, or it is a category followed by \<open>.*\<close> and the event continues that category after its
  first dot, or it is the event itself and no such wildcard.\<close>

theorem matches_event_iff:
  "matches_event pattern event \<longleftrightarrow>
     trim pattern \<in> {[], ''*''}
   \<or> (\<exists>cat rest. trim pattern = cat @ ''.*'' \<and> CHR ''.'' \<notin> set cat \<and> event = cat @ ''.'' @ rest)
   \<or> (trim pattern = event \<and> \<not> (\<exists>cat. event = cat @ ''.*''))"
proof (cases "trim pattern \<in> {[], ''*''}")
  case False
  then show ?thesis
  proof (cases "strip_suffix ''.*'' (trim pattern)")
    case None
    then have "\<not> (\<exists>cat. trim pattern = cat @ ''.*'')" by (metis option.distinct(1) strip_suffix_iff)
    with None False show ?thesis by (auto simp: matches_event_def Let_def)
  next
    case (Some cat)
    have "matches_event pattern event \<longleftrightarrow> (\<exists>rest. event = cat @ CHR ''.'' # rest) \<and> CHR ''.'' \<notin> set cat"
      using False unfolding matches_event_def Let_def Some by (simp add: split_once_iff)
    with Some False show ?thesis by (auto simp: strip_suffix_iff)
  qed
qed (auto simp: matches_event_def)

section \<open>Dispatch\<close>

text \<open>Building a client that only has a timeout does not fail.\<close>

definition client_builds :: "hook_env \<Rightarrow> bool" where
  "client_builds e = (\<forall>n p err. answer e n p \<noteq> ClientError err)"

lemma deliver_one_result:
  assumes "client_builds e" "deliver_one e url secret event payload s = (d, s')"
  shows "s' = s\<lparr>posts := posts s @ [event_post e url secret event payload]\<rparr>"
  using assms by (auto simp: deliver_one_def client_builds_def Let_def split: hook_reply.splits)

definition hook_config :: "hook_row \<Rightarrow> uuid \<times> uuid \<times> string \<times> string \<times> bool \<times> string option" where
  "hook_config h = (wh_id h, wh_tenant h, wh_url h, wh_event h, wh_active h, wh_secret h)"

definition hook_post :: "hook_env \<Rightarrow> string \<Rightarrow> json \<Rightarrow> hook_row \<Rightarrow> post" where
  "hook_post e event payload h = event_post e (wh_url h) (wh_secret h) event payload"

text \<open>What a dispatch may change of the tables: the last outcome of the tenant's hooks.\<close>

definition outcomes_only :: "uuid \<Rightarrow> ops_db \<Rightarrow> ops_db \<Rightarrow> bool" where
  "outcomes_only tenant s s' = (map hook_config (hooks s') = map hook_config (hooks s)
     \<and> filter (\<lambda>h. wh_tenant h \<noteq> tenant) (hooks s') = filter (\<lambda>h. wh_tenant h \<noteq> tenant) (hooks s)
     \<and> notifications s' = notifications s \<and> ops_up s' = ops_up s)"

lemma outcomes_refl: "outcomes_only t s s"
  by (simp add: outcomes_only_def)

lemma outcomes_trans: "outcomes_only t s s1 \<Longrightarrow> outcomes_only t s1 s2 \<Longrightarrow> outcomes_only t s s2"
  by (simp add: outcomes_only_def)

lemma update_where_others: "(\<And>r. P r \<Longrightarrow> \<not> Q r \<and> \<not> Q (f r)) \<Longrightarrow> filter Q (update_where P f rs) = filter Q rs"
  by (induction rs) (auto simp: update_where_def)

lemma record_outcome_only: "outcomes_only tenant s (record_outcome tenant k st s)"
proof -
  have "filter (\<lambda>h. wh_tenant h \<noteq> tenant) (update_where (\<lambda>h. wh_tenant h = tenant \<and> wh_id h = k)
      (\<lambda>h. h\<lparr>wh_delivery := Some (ops_now s), wh_status := Some st\<rparr>) (hooks s)) = filter (\<lambda>h. wh_tenant h \<noteq> tenant) (hooks s)"
    by (rule update_where_others) simp
  then show ?thesis
    by (auto simp: outcomes_only_def record_outcome_def update_where_def hook_config_def)
qed

lemma record_outcome_posts [simp]: "posts (record_outcome tenant k st s) = posts s"
  by (simp add: record_outcome_def)

lemma dispatch_loop_result:
  assumes "client_builds e" "dispatch_loop e tenant event payload hs n s = (m, s')"
  shows "posts s' = posts s @ map (hook_post e event payload) (filter (\<lambda>h. matches_event (wh_event h) event) hs)
    \<and> m = n + length (filter (\<lambda>h. matches_event (wh_event h) event) hs) \<and> outcomes_only tenant s s'"
  using assms(2)
proof (induction hs arbitrary: n s)
  case (Cons h hs)
  show ?case
  proof (cases "matches_event (wh_event h) event")
    case False
    with Cons show ?thesis by simp
  next
    case True
    obtain d s1 where d: "deliver_one e (wh_url h) (wh_secret h) event payload s = (d, s1)" by (meson surj_pair)
    note s1 = deliver_one_result [OF assms(1) d]
    let ?s = "record_outcome tenant (wh_id h) (delivery_status d) s1"
    have run: "dispatch_loop e tenant event payload hs (n + 1) ?s = (m, s')"
      using Cons.prems True by (simp add: d)
    have "outcomes_only tenant s s1" by (simp add: s1 outcomes_only_def)
    then have "outcomes_only tenant s ?s" using record_outcome_only outcomes_trans by blast
    with Cons.IH [OF run] True show ?thesis by (auto simp: s1 hook_post_def intro: outcomes_trans)
  qed
qed (simp add: outcomes_refl)

lemma dispatch_result:
  assumes "client_builds e" "ops_up s" "dispatch e tenant event payload s = (r, s')"
  shows "posts s' = posts s @ map (hook_post e event payload)
      (filter (\<lambda>h. matches_event (wh_event h) event) (active_hooks tenant s))
    \<and> r = Some (length (posts s') - length (posts s)) \<and> outcomes_only tenant s s'"
proof -
  obtain n s1 where l: "dispatch_loop e tenant event payload (active_hooks tenant s) 0 s = (n, s1)" by (meson surj_pair)
  with assms(2,3) have "r = Some n" "s' = s1" by (simp_all add: dispatch_def)
  with dispatch_loop_result [OF assms(1) l] show ?thesis by simp
qed

text \<open>Round trip of a new subscription: an administrator creates a hook, and is given its secret;
  the next event that the pattern matches is posted to the address with the signature the receiver
  computes from that secret and the body.\<close>

theorem created_hook_is_signed:
  assumes "client_builds e" "create_webhook auth url pattern s = (Inr row, s1)"
    and "dispatch e (wh_tenant row) event payload s1 = (r, s2)"
    and "matches_event (case pattern of None \<Rightarrow> ''*'' | Some p \<Rightarrow> clean_event p) event"
  shows "\<exists>secret p. wh_secret row = Some secret \<and> p \<in> set (posts s2) \<and> po_url p = url
    \<and> po_body p = event_body e event payload
    \<and> (''x-insight-signature'', ''sha256='' @ hmac_hex e secret (po_body p)) \<in> set (po_headers p)"
proof -
  obtain user where user: "require_admin auth = Inr user"
    using assms(2) by (cases "require_admin auth") (simp_all add: create_webhook_def)
  have up: "ops_up s" "hooks s1 = hooks s @ [row]" "wh_url row = url" "wh_active row" "ops_up s1"
    and secret: "wh_secret row = Some (''whsec_'' @ show_nat (ops_supply s))"
    and ev: "wh_event row = (case pattern of None \<Rightarrow> ''*'' | Some p \<Rightarrow> clean_event p)"
    using assms(2) by (auto simp: create_webhook_def user generate_webhook_secret_def Let_def split: if_splits)
  have "row \<in> set (filter (\<lambda>h. matches_event (wh_event h) event) (active_hooks (wh_tenant row) s1))"
    using up ev assms(4) by (auto simp: active_hooks_def)
  then have "hook_post e event payload row \<in> set (posts s2)"
    using dispatch_result [OF assms(1) up(5) assms(3)] by auto
  then show ?thesis
    by (intro exI [of _ "''whsec_'' @ show_nat (ops_supply s)"] exI [of _ "hook_post e event payload row"])
      (simp add: secret up hook_post_def event_post_def)
qed

text \<open>Functional correctness of dispatch: with the database up, each active hook of the tenant
  whose pattern matches gets exactly one request, in table order, and no other address gets
  any; the body is the event with its data, signed under that hook's own secret when it has
  one. The result counts the requests, and the tables change in the recorded outcomes of
  this tenant's hooks only.\<close>

theorem dispatch_posts_matching:
  assumes "client_builds e" "ops_up s" "dispatch e tenant event payload s = (r, s')"
  shows "posts s' = posts s @ map (hook_post e event payload)
      (filter (\<lambda>h. matches_event (wh_event h) event) (active_hooks tenant s))
    \<and> r = Some (length (posts s') - length (posts s)) \<and> outcomes_only tenant s s'"
  using assms by (rule dispatch_result)

section \<open>A registry with two hooks\<close>

definition plain_hooks :: hook_env where
  "plain_hooks = \<lparr>hmac_hex = (\<lambda>k b. k @ b), text_of = (\<lambda>_. ''{}''), reason = (\<lambda>n. if n = 200 then Some ''OK'' else None),
     answer = (\<lambda>n p. if n = 0 then HttpStatus 200 else HttpError ''timeout''), elapsed = (\<lambda>_. 3)\<rparr>"

definition hook_of :: "uuid \<Rightarrow> uuid \<Rightarrow> string \<Rightarrow> hook_row" where
  "hook_of k t ev = \<lparr>wh_id = k, wh_tenant = t, wh_url = ''https://a.example'', wh_event = ev, wh_active = True,
     wh_secret = Some ''s'', wh_delivery = None, wh_status = None, wh_created = 1\<rparr>"

definition three_hooks :: ops_db where
  "three_hooks = \<lparr>hooks = [hook_of 1 5 ''document.*'', hook_of 2 5 ''review.resolved'', hook_of 3 6 ''*''],
     notifications = [], posts = [], ops_supply = 10, ops_now = 4, ops_up = True\<rparr>"

lemma plain_hooks_build: "client_builds plain_hooks"
  by (simp add: client_builds_def plain_hooks_def)

lemma review_matches:
  "\<not> matches_event ''document.*'' ''review.resolved''" "matches_event ''review.resolved'' ''review.resolved''" "matches_event ''*'' ''review.resolved''"
  by (code_simp)+

theorem dispatch_posts_matching_witness:
  "\<exists>s'. dispatch plain_hooks 5 ''review.resolved'' JNull three_hooks = (Some 1, s')
    \<and> posts s' = [hook_post plain_hooks ''review.resolved'' JNull (hook_of 2 5 ''review.resolved'')]"
proof -
  obtain r s' where run: "dispatch plain_hooks 5 ''review.resolved'' JNull three_hooks = (r, s')" by (meson surj_pair)
  have up: "ops_up three_hooks" by (simp add: three_hooks_def)
  have "filter (\<lambda>h. matches_event (wh_event h) ''review.resolved'') (active_hooks 5 three_hooks) = [hook_of 2 5 ''review.resolved'']"
    by (simp add: active_hooks_def three_hooks_def hook_of_def review_matches)
  with dispatch_posts_matching [OF plain_hooks_build up run] run show ?thesis by (simp add: three_hooks_def)
qed

theorem created_hook_is_signed_witness:
  "\<exists>row s1 s2 p. create_webhook (Inr \<lparr>auth_user = 1, auth_tenant = 5, auth_role = ''admin'', auth_session = 1\<rparr>)
      ''https://b.example'' None three_hooks = (Inr row, s1)
    \<and> snd (dispatch plain_hooks 5 ''review.resolved'' JNull s1) = s2 \<and> p \<in> set (posts s2) \<and> po_url p = ''https://b.example''"
proof -
  let ?auth = "Inr \<lparr>auth_user = 1, auth_tenant = 5, auth_role = ''admin'', auth_session = 1\<rparr>"
  obtain row s1 where c: "create_webhook ?auth ''https://b.example'' None three_hooks = (Inr row, s1)" "wh_tenant row = 5"
    by (simp add: create_webhook_def require_admin_def role_rank_def normalize_role_def valid_url_def starts_with_def
      trim_def trim_start_def trim_end_def is_whitespace_def code_of_def generate_webhook_secret_def three_hooks_def Let_def)
  obtain r s2 where d: "dispatch plain_hooks (wh_tenant row) ''review.resolved'' JNull s1 = (r, s2)" by (meson surj_pair)
  from created_hook_is_signed [OF plain_hooks_build c(1) d] review_matches(3) c d show ?thesis by auto
qed

end
