(* ===== verification/Worker.thy ===== *)
theory Worker
  imports Synth GraphStore Webhooks
begin

text \<open>
  \<open>insight-worker/src/main.rs\<close>: the dispatch of a job to the pipelines, the acknowledgement
  that follows whatever happened, and the two loops of the main function (the stale sweep and
  the poll). Signals, logging and the back-off sleep are left out; time passes between
  iterations. \<open>backend\<close> is what worker and API share. \<open>ao\<close> and \<open>io\<close> are the hash map orders of the community pass.
\<close>

record backend =
  wd :: world
  ops :: ops_db

record worker_env =
  kenv :: knowledge_env
  henv :: hook_env
  ao :: "knowledge_db \<Rightarrow> uuid list"
  io :: "knowledge_db \<Rightarrow> uuid list"
  consumer_name :: string

definition CLAIM_MIN_IDLE_MS :: nat where "CLAIM_MIN_IDLE_MS = 300000"

definition jobs_queue :: "backend \<Rightarrow> queue_state" where
  "jobs_queue s = queue (pipe (wd s))"

definition with_queue :: "queue_state \<Rightarrow> backend \<Rightarrow> backend" where
  "with_queue q s = s\<lparr>wd := (wd s)\<lparr>pipe := (pipe (wd s))\<lparr>queue := q\<rparr>\<rparr>\<rparr>"

lemma jobs_queue_with [simp]: "jobs_queue (with_queue q s) = q"
  by (simp add: jobs_queue_def with_queue_def)

section \<open>The knowledge pipeline\<close>

definition job_document :: "queued_job \<Rightarrow> uuid option" where
  "job_document job = Option.bind (Option.bind (get_key (qj_payload job) ''documentId'') as_str) parse_uuid"

definition discard :: "'a job_step \<Rightarrow> unit job_step" where
  "discard m = step_then m (\<lambda>_ s. (Some (), s))"

definition run_knowledge :: "worker_env \<Rightarrow> queued_job \<Rightarrow> unit job_step" where
  "run_knowledge e job =
     step_then (case job_document job of None \<Rightarrow> (\<lambda>s. (Some (), s))
                | Some doc \<Rightarrow> discard (extract_claims (kenv e) (qj_tenant job) doc)) (\<lambda>_.
     step_then (correlate (kenv e) (qj_tenant job)) (\<lambda>_.
     step_then (on_know (build_graph (ao e) (io e) (qj_tenant job))) (\<lambda>_.
       discard (compile_topics (kenv e) (qj_tenant job)))))"

definition on_world :: "unit job_step \<Rightarrow> backend \<Rightarrow> unit option \<times> backend" where
  "on_world m s = (let (r, w) = m (wd s) in (r, s\<lparr>wd := w\<rparr>))"

definition ingest_work :: "worker_env \<Rightarrow> queued_job \<Rightarrow> unit job_step" where
  "ingest_work e job w = (let (r, p) = run_ingest (ing (kenv e)) job (pipe w)
     in (case r of Inl _ \<Rightarrow> None | Inr _ \<Rightarrow> Some (), w\<lparr>pipe := p\<rparr>))"

definition deliver_event :: "worker_env \<Rightarrow> queued_job \<Rightarrow> backend \<Rightarrow> unit option \<times> backend" where
  "deliver_event e job s =
     (let event = (case Option.bind (get_key (qj_payload job) ''event'') as_str of None \<Rightarrow> [] | Some ev \<Rightarrow> ev);
          data = (case get_key (qj_payload job) ''data'' of None \<Rightarrow> JObj [] | Some d \<Rightarrow> d);
          (n, o') = dispatch (henv e) (qj_tenant job) event data (ops s)
      in (map_option (\<lambda>_. ()) n, s\<lparr>ops := o'\<rparr>))"

definition run_job :: "worker_env \<Rightarrow> queued_job \<Rightarrow> backend \<Rightarrow> unit option \<times> backend" where
  "run_job e job s =
     (if qj_kind job = ''ingest'' then on_world (ingest_work e job) s
      else if qj_kind job = ''knowledge_build'' then on_world (run_knowledge e job) s
      else if qj_kind job = ''topic_compile'' then on_world (discard (compile_topics (kenv e) (qj_tenant job))) s
      else if qj_kind job = ''graph_build''
        then on_world (discard (on_know (build_graph (ao e) (io e) (qj_tenant job)))) s
      else if qj_kind job = ''correlate'' then on_world (discard (correlate (kenv e) (qj_tenant job))) s
      else if qj_kind job = ''webhook_deliver'' then deliver_event e job s
      else (None, s))"

definition process :: "worker_env \<Rightarrow> queued_job \<Rightarrow> backend \<Rightarrow> backend" where
  "process e job s = (let (_, s) = run_job e job s in with_queue (snd (ack job (jobs_queue s))) s)"

section \<open>The main loop\<close>

text \<open>One pass of the stale sweep, and one poll; each says whether it processed a job.\<close>

definition handle :: "worker_env \<Rightarrow> queued_job option option \<Rightarrow> backend \<Rightarrow> bool \<times> backend" where
  "handle e r s = (case r of Some (Some job) \<Rightarrow> (True, process e job s) | _ \<Rightarrow> (False, s))"

definition sweep_once :: "worker_env \<Rightarrow> backend \<Rightarrow> bool \<times> backend" where
  "sweep_once e s = (let (r, q) = claim_stale (codec_of (ing (kenv e))) (consumer_name e) CLAIM_MIN_IDLE_MS (jobs_queue s)
     in handle e r (with_queue q s))"

definition poll_once :: "worker_env \<Rightarrow> backend \<Rightarrow> bool \<times> backend" where
  "poll_once e s = (let (r, q) = next_job (codec_of (ing (kenv e))) (consumer_name e) (jobs_queue s)
     in handle e r (with_queue q s))"

inductive worker_run :: "worker_env \<Rightarrow> backend \<Rightarrow> backend \<Rightarrow> bool" for e where
  idle: "worker_run e s s"
| swept: "worker_run e s s1 \<Longrightarrow> sweep_once e s1 = (b, s2) \<Longrightarrow> worker_run e s s2"
| polled: "worker_run e s s1 \<Longrightarrow> poll_once e s1 = (b, s2) \<Longrightarrow> worker_run e s s2"
| slept: "worker_run e s s1 \<Longrightarrow>
    worker_run e s (with_queue ((jobs_queue s1)\<lparr>q_now := q_now (jobs_queue s1) + d\<rparr>) s1)"
| requested: "worker_run e s s1 \<Longrightarrow> enqueue (codec_of (ing (kenv e))) kind t payload (jobs_queue s1) = (r, q) \<Longrightarrow>
    worker_run e s (with_queue q s1)"

section \<open>Running a job is a series of queue operations\<close>

text \<open>
  \<open>grows c q q'\<close>: what led from \<open>q\<close> to \<open>q'\<close> is a series of enqueues and progress reports, as
  seen by the cluster of producers and workers.
\<close>

definition grows :: "codec \<Rightarrow> queue_state \<Rightarrow> queue_state \<Rightarrow> bool" where
  "grows c q q' = (entry_supply q \<le> entry_supply q'
     \<and> (\<forall>H A. cluster c q H A \<longrightarrow> entry_supply q' \<le> JOB_STREAM_MAXLEN \<longrightarrow> cluster c q' H A))"

lemma grows_refl [simp]: "grows c q q"
  by (simp add: grows_def)

lemma grows_trans [trans]: "grows c q q1 \<Longrightarrow> grows c q1 q2 \<Longrightarrow> grows c q q2"
  unfolding grows_def by (meson le_trans)

lemma grows_progress: "publish_progress t u k st pr er q = (r, q') \<Longrightarrow> grows c q q'"
  using publish_progress_same [of t u k st pr er q r q'] cluster.progressed
  by (auto simp: grows_def same_stream_def)

lemma grows_enqueue:
  assumes "enqueue c kind t p q = (r, q')"
  shows "grows c q q'"
proof -
  have "entry_supply q \<le> entry_supply q'"
    using enqueue_effect [OF assms] by (auto simp: same_stream_def Let_def)
  then show ?thesis unfolding grows_def using cluster.produced [OF _ _ assms] le_trans by blast
qed

definition step_grows :: "codec \<Rightarrow> 'a step \<Rightarrow> bool" where
  "step_grows c m = (\<forall>s r s'. m s = (r, s') \<longrightarrow> grows c (queue s) (queue s'))"

lemma step_grows_try:
  assumes "step_grows c m" "\<And>x. step_grows c (f x)"
  shows "step_grows c (try_step m f)"
  unfolding step_grows_def
proof (intro allI impI)
  fix s r s' assume run: "try_step m f s = (r, s')"
  obtain x s1 where m: "m s = (x, s1)" by (meson surj_pair)
  then have g: "grows c (queue s) (queue s1)" using assms(1) by (simp add: step_grows_def)
  show "grows c (queue s) (queue s')"
  proof (cases x)
    case (Inl msg)
    with run m have "s' = s1" by (simp add: try_step_def)
    with g show ?thesis by simp
  next
    case (Inr y)
    with run m have "f y s1 = (r, s')" by (simp add: try_step_def)
    with assms(2) have "grows c (queue s1) (queue s')" unfolding step_grows_def by blast
    with g show ?thesis by (rule grows_trans)
  qed
qed

lemma step_grows_same: "(\<And>s r s'. m s = (r, s') \<Longrightarrow> queue s' = queue s) \<Longrightarrow> step_grows c m"
  by (simp add: step_grows_def)

lemma step_grows_tables: "step_grows c (on_tables msg f)"
  by (rule step_grows_same) (auto simp: on_tables_def split: prod.splits)

lemma step_grows_stage: "step_grows c (stage t ctx k st)"
  unfolding step_grows_def stage_def on_queue_def
  by (auto split: if_splits prod.splits dest: grows_progress)

lemma step_grows_persist: "step_grows c (persist e t doc src d thr)"
proof (rule step_grows_same)
  fix s r s' assume "persist e t doc src d thr s = (r, s')"
  then obtain rows blocks bs res s1 where "queue s1 = queue s"
    and "try_step (on_tables ''insert page'' (persist_tx t doc src rows blocks bs)) (\<lambda>_ s. (Inr res, s)) s1 = (r, s')"
    by (rule persist_parts) (rule that; assumption)
  then show "queue s' = queue s" by (auto simp: try_step_def on_tables_def split: prod.splits sum.splits)
qed

lemma step_grows_embed: "step_grows c (embed_flag e t doc)"
  by (rule step_grows_same) (use embed_flag_frame in blast)

lemma step_grows_chain: "step_grows (codec_of e) (auto_chain e t ctx)"
  unfolding step_grows_def
proof (intro allI impI)
  fix s r s' assume run: "auto_chain e t ctx s = (r, s')"
  obtain cfg st where r: "resolve_org (genv (gw e)) t (settings (llm s)) = (cfg, st)" by (meson surj_pair)
  have "queue s' = queue s \<or> (\<exists>p. queue s' = snd (enqueue (codec_of e) ''knowledge_build'' t p (queue s)))"
    using run [unfolded auto_chain_def Let_def r prod.case] by (auto split: if_splits)
  then show "grows (codec_of e) (queue s) (queue s')"
    by (metis grows_enqueue grows_refl prod.collapse)
qed

lemma ingest_inner_grows: "step_grows (codec_of e) (ingest_inner e t k ctx)"
proof -
  have pure: "step_grows c (load_document t doc)" "step_grows c (fetch_bytes e key)" "step_grows c (run_parser e key bytes)"
    "step_grows c (\<lambda>s. (Inr (), s))" for c doc key bytes
    by (auto intro!: step_grows_same simp: load_document_def fetch_bytes_def run_parser_def split: if_splits option.splits)
  show ?thesis
    unfolding ingest_inner_def
    by (intro step_grows_try pure step_grows_stage step_grows_tables step_grows_embed step_grows_persist step_grows_chain
      | (rule step_grows_try, simp_all split: prod.split if_split)
      | simp split: prod.split if_split
      | intro conjI impI allI)+
qed

lemma run_ingest_grows:
  assumes "run_ingest e job s = (r, s')"
  shows "grows (codec_of e) (queue s) (queue s')"
proof (cases "parse_job_context job")
  case None
  with assms show ?thesis by (simp add: run_ingest_def)
next
  case (Some ctx)
  obtain x s1 where x: "ingest_inner e (qj_tenant job) (qj_id job) ctx s = (x, s1)" by (meson surj_pair)
  then have g: "grows (codec_of e) (queue s) (queue s1)"
    using ingest_inner_grows by (auto simp: step_grows_def)
  show ?thesis
  proof (cases x)
    case (Inr u)
    with assms Some x g show ?thesis by (simp add: run_ingest_def)
  next
    case (Inl msg)
    with assms Some x have s': "s' = ingest_failed (qj_tenant job) (qj_id job) ctx msg s1" by (simp add: run_ingest_def)
    obtain y s2 where y: "mark_document_failed (qj_tenant job) (jc_document ctx) s1 = (y, s2)" by (meson surj_pair)
    have q: "queue s2 = queue s1"
      using y by (auto simp: mark_document_failed_def on_tables_def split: prod.splits)
    obtain z q' where z: "publish_progress (qj_tenant job) (jc_user ctx) (qj_id job) ''failed'' 0 (Some msg) (queue s2) = (z, q')"
      by (meson surj_pair)
    have "queue s' = q'" unfolding s' ingest_failed_def by (simp add: y on_queue_def z)
    with grows_progress [OF z] g q show ?thesis by (metis grows_trans)
  qed
qed

text \<open>The knowledge pipeline never touches the queue.\<close>

definition same_jobs :: "world \<Rightarrow> world \<Rightarrow> bool" where
  "same_jobs s s' = (queue (pipe s') = queue (pipe s))"

abbreviation spares_queue :: "'a job_step \<Rightarrow> bool" where
  "spares_queue \<equiv> keeps same_jobs"

interpretation qf: effect_order same_jobs
  by unfold_locales (simp_all add: same_jobs_def)

lemma spares_know: "spares_queue (on_know f)"
  by (simp add: keeps_def same_jobs_def on_know_frame)

lemma spares_config: "spares_queue (org_config e t)"
  using org_config_frame by (auto simp: keeps_def same_jobs_def)

lemma spares_ask: "spares_queue (ask e t k sy pr)"
  using ask_frame by (auto simp: keeps_def same_jobs_def)

lemma spares_discard: "spares_queue m \<Longrightarrow> spares_queue (discard m)"
  unfolding discard_def by (intro qf.keeps_then qf.keeps_return)

lemma spares_mine_chunk: "spares_queue (mine_chunk e t doc c)"
proof (rule keepsI)
  fix s r s' assume run: "mine_chunk e t doc c s = (r, s')"
  obtain reply s1 where a: "ask e t Extraction EXTRACT_SYSTEM (take 2000 (body c)) s = (reply, s1)" by (meson surj_pair)
  from run [unfolded mine_chunk_def a prod.case Let_def] have "pipe s' = pipe s1"
    by (cases reply) (auto split: if_splits dest: on_know_frame)
  with keepsD [OF spares_ask a] show "same_jobs s s'" by (simp add: same_jobs_def)
qed

lemma spares_mine_chunks: "spares_queue (mine_chunks e t doc cs)"
proof (induction cs)
  case Nil
  then show ?case by (simp add: keeps_def same_jobs_def)
next
  case (Cons c cs)
  have "mine_chunks e t doc (c # cs) = step_then (mine_chunk e t doc c)
      (\<lambda>n. step_then (mine_chunks e t doc cs) (\<lambda>k s. (Some (n + k), s)))" by (rule ext) simp
  then show ?case using Cons by (simp only:) (intro qf.keeps_then spares_mine_chunk qf.keeps_return)
qed

lemma spares_extract: "spares_queue (extract_claims e t doc)"
  unfolding extract_claims_def
proof (rule qf.keeps_then [OF spares_config])
  fix cfg
  show "spares_queue (\<lambda>s. let max_chunks = nat (max (org_i64 cfg ''claimsMaxChunks'' 60) 0)
     in if max_chunks = 0 then (Some 0, s)
        else case load_chunks t doc max_chunks (tables (pipe s)) of
            None \<Rightarrow> (None, s) | Some cs \<Rightarrow> mine_chunks e t doc cs s)"
    using spares_mine_chunks by (auto simp: keeps_def qf.R_refl Let_def split: if_splits option.splits)
qed

lemma spares_correlate: "spares_queue (correlate e t)"
  unfolding correlate_def by (intro qf.keeps_then spares_config spares_know)

lemma spares_compile: "spares_queue (compile_topics e t)"
  by (intro qf.compile_topics_keeps qf.synthesize_keeps spares_know spares_ask)

lemma spares_knowledge: "spares_queue (run_knowledge e job)"
proof -
  have "spares_queue (case job_document job of None \<Rightarrow> (\<lambda>s. (Some (), s))
                | Some doc \<Rightarrow> discard (extract_claims (kenv e) (qj_tenant job) doc))"
    by (cases "job_document job") (simp_all add: qf.keeps_return spares_discard spares_extract)
  then show ?thesis
    unfolding run_knowledge_def by (intro qf.keeps_then spares_discard spares_correlate spares_know spares_compile)
qed

lemma on_world_queue:
  assumes "on_world m s = (r, s')" "spares_queue m"
  shows "jobs_queue s' = jobs_queue s"
  using assms by (auto simp: on_world_def jobs_queue_def split: prod.splits dest!: keepsD simp: same_jobs_def)

lemma run_job_other:
  assumes "run_job e job s = (r, s')" "qj_kind job \<noteq> ''ingest''"
  shows "jobs_queue s' = jobs_queue s"
proof -
  have d: "jobs_queue s' = jobs_queue s" if "deliver_event e job s = (r, s')" for r s'
    using that by (auto simp: deliver_event_def Let_def jobs_queue_def split: prod.splits)
  show ?thesis
    using assms(1) unfolding run_job_def if_not_P [OF assms(2)]
    by (auto split: if_splits dest: d on_world_queue [OF _ spares_knowledge]
      on_world_queue [OF _ spares_discard [OF spares_compile]] on_world_queue [OF _ spares_discard [OF spares_know]]
      on_world_queue [OF _ spares_discard [OF spares_correlate]])
qed

lemma run_job_grows:
  assumes "run_job e job s = (r, s')"
  shows "grows (codec_of (ing (kenv e))) (jobs_queue s) (jobs_queue s')"
proof (cases "qj_kind job = ''ingest''")
  case True
  obtain x p where x: "run_ingest (ing (kenv e)) job (pipe (wd s)) = (x, p)" by (meson surj_pair)
  with assms True have "jobs_queue s' = queue p"
    by (auto simp: run_job_def on_world_def ingest_work_def jobs_queue_def)
  with run_ingest_grows [OF x] show ?thesis by (simp add: jobs_queue_def)
next
  case False
  from run_job_other [OF assms False] show ?thesis by simp
qed

section \<open>The worker as a member of the cluster\<close>

lemma process_supply: "entry_supply (jobs_queue s) \<le> entry_supply (jobs_queue (process e job s))"
proof -
  obtain r s1 where r: "run_job e job s = (r, s1)" by (meson surj_pair)
  obtain x q where x: "ack job (jobs_queue s1) = (x, q)" by (meson surj_pair)
  have "entry_supply q = entry_supply (jobs_queue s1)" using ack_effect [OF x] by auto
  with run_job_grows [OF r] show ?thesis by (simp add: process_def r x grows_def)
qed

lemma process_cluster:
  assumes c: "cluster (codec_of (ing (kenv e))) (jobs_queue s) H A" and job: "job \<in> H"
    and few: "entry_supply (jobs_queue (process e job s)) \<le> JOB_STREAM_MAXLEN"
  shows "\<exists>A'. A \<subseteq> A' \<and> cluster (codec_of (ing (kenv e))) (jobs_queue (process e job s)) H A'"
proof -
  obtain r s1 where r: "run_job e job s = (r, s1)" by (meson surj_pair)
  obtain x q where x: "ack job (jobs_queue s1) = (x, q)" by (meson surj_pair)
  have p: "jobs_queue (process e job s) = q" by (simp add: process_def r x)
  have q: "entry_supply q = entry_supply (jobs_queue s1)" using ack_effect [OF x] by auto
  have "cluster (codec_of (ing (kenv e))) (jobs_queue s1) H A"
    using run_job_grows [OF r] c few by (simp add: grows_def p q)
  from cluster.acked [OF this job x] show ?thesis
    unfolding p by (intro exI [of _ "if x = None then A else insert (qj_stream job) A"]) auto
qed

lemma handle_supply: "handle e r s = (b, s') \<Longrightarrow> entry_supply (jobs_queue s) \<le> entry_supply (jobs_queue s')"
  using process_supply by (auto simp: handle_def split: option.splits)

lemma handle_cluster:
  assumes c: "cluster (codec_of (ing (kenv e))) (jobs_queue s) (H \<union> handed r) A" and run: "handle e r s = (b, s')"
    and few: "entry_supply (jobs_queue s') \<le> JOB_STREAM_MAXLEN"
  shows "\<exists>H' A'. A \<subseteq> A' \<and> cluster (codec_of (ing (kenv e))) (jobs_queue s') H' A'"
proof (cases "\<exists>job. r = Some (Some job)")
  case True
  then obtain job where job: "r = Some (Some job)" by blast
  then have s': "s' = process e job s" using run by (simp add: handle_def)
  have "job \<in> H \<union> handed r" by (simp add: job handed_def)
  from process_cluster [OF c this] few show ?thesis unfolding s' by blast
next
  case False
  then have "s' = s" using run by (auto simp: handle_def split: option.splits)
  with c show ?thesis by blast
qed

lemma next_job_supply: "next_job c w q = (r, q') \<Longrightarrow> entry_supply q' = entry_supply q"
  by (auto simp: next_job_def xgroup_create_def dest!: seq_cases send_cases xreadgroup_effect split: option.splits)

lemma claim_stale_supply: "claim_stale c w idle q = (r, q') \<Longrightarrow> entry_supply q' = entry_supply q"
  by (auto simp: claim_stale_def xautoclaim_def dest!: seq_cases send_cases split: option.splits if_splits prod.splits)

text \<open>\<open>joins_cluster\<close>: a loop iteration is a series of moves of one member of the cluster.\<close>

definition joins_cluster :: "worker_env \<Rightarrow> backend \<Rightarrow> backend \<Rightarrow> bool" where
  "joins_cluster e s s' = (entry_supply (jobs_queue s) \<le> entry_supply (jobs_queue s')
     \<and> (\<forall>H A. cluster (codec_of (ing (kenv e))) (jobs_queue s) H A \<longrightarrow> entry_supply (jobs_queue s') \<le> JOB_STREAM_MAXLEN
          \<longrightarrow> (\<exists>H' A'. A \<subseteq> A' \<and> cluster (codec_of (ing (kenv e))) (jobs_queue s') H' A')))"

lemma joins_trans: "joins_cluster e s s1 \<Longrightarrow> joins_cluster e s1 s2 \<Longrightarrow> joins_cluster e s s2"
  unfolding joins_cluster_def by (meson le_trans subset_trans)

lemma poll_joins:
  assumes "poll_once e s = (b, s')"
  shows "joins_cluster e s s'"
proof -
  obtain r q where n: "next_job (codec_of (ing (kenv e))) (consumer_name e) (jobs_queue s) = (r, q)" by (meson surj_pair)
  then have h: "handle e r (with_queue q s) = (b, s')" using assms by (simp add: poll_once_def)
  show ?thesis
    unfolding joins_cluster_def
  proof (intro conjI allI impI)
    show "entry_supply (jobs_queue s) \<le> entry_supply (jobs_queue s')"
      using handle_supply [OF h] next_job_supply [OF n] by simp
    fix H A assume "cluster (codec_of (ing (kenv e))) (jobs_queue s) H A" "entry_supply (jobs_queue s') \<le> JOB_STREAM_MAXLEN"
    then show "\<exists>H' A'. A \<subseteq> A' \<and> cluster (codec_of (ing (kenv e))) (jobs_queue s') H' A'"
      using cluster.fetched [OF _ n] handle_cluster [OF _ h, of H A] by simp
  qed
qed

lemma sweep_joins:
  assumes "sweep_once e s = (b, s')"
  shows "joins_cluster e s s'"
proof -
  obtain r q where n: "claim_stale (codec_of (ing (kenv e))) (consumer_name e) CLAIM_MIN_IDLE_MS (jobs_queue s) = (r, q)"
    by (meson surj_pair)
  then have h: "handle e r (with_queue q s) = (b, s')" using assms by (simp add: sweep_once_def)
  have idle: "0 < CLAIM_MIN_IDLE_MS" by (simp add: CLAIM_MIN_IDLE_MS_def)
  show ?thesis
    unfolding joins_cluster_def
  proof (intro conjI allI impI)
    show "entry_supply (jobs_queue s) \<le> entry_supply (jobs_queue s')"
      using handle_supply [OF h] claim_stale_supply [OF n] by simp
    fix H A assume "cluster (codec_of (ing (kenv e))) (jobs_queue s) H A" "entry_supply (jobs_queue s') \<le> JOB_STREAM_MAXLEN"
    then show "\<exists>H' A'. A \<subseteq> A' \<and> cluster (codec_of (ing (kenv e))) (jobs_queue s') H' A'"
      using cluster.reclaimed [OF _ idle n] handle_cluster [OF _ h, of H A] by simp
  qed
qed

lemma worker_run_joins: "worker_run e s s' \<Longrightarrow> joins_cluster e s s'"
proof (induction rule: worker_run.induct)
  case (idle s)
  then show ?case by (auto simp: joins_cluster_def)
next
  case (swept s s1 b s2)
  then show ?case using sweep_joins joins_trans by blast
next
  case (polled s s1 b s2)
  then show ?case using poll_joins joins_trans by blast
next
  case (slept s s1 d)
  have "joins_cluster e s1 (with_queue ((jobs_queue s1)\<lparr>q_now := q_now (jobs_queue s1) + d\<rparr>) s1)"
    using cluster.waited by (fastforce simp: joins_cluster_def)
  with slept.IH show ?case by (rule joins_trans)
next
  case (requested s s1 kind t payload r q)
  have "grows (codec_of (ing (kenv e))) (jobs_queue s1) q" by (rule grows_enqueue [OF requested(2)])
  then have "joins_cluster e s1 (with_queue q s1)" by (auto simp: joins_cluster_def grows_def)
  with requested.IH show ?case by (rule joins_trans)
qed

text \<open>C6. Refinement: the worker's main loop, whatever mixture of sweeps, polls, pipelines and
  requests it runs, is a member of the abstract cluster of the job queue, as long as the stream
  stays within its length. So each stream entry is waiting, or held for the sweep, or
  acknowledged, and what was acknowledged before the run stays so.\<close>

theorem worker_refines_cluster:
  assumes "worker_run e s s'" "cluster (codec_of (ing (kenv e))) (jobs_queue s) H A"
    and "entry_supply (jobs_queue s') \<le> JOB_STREAM_MAXLEN"
  shows "\<exists>H' A'. A \<subseteq> A' \<and> cluster (codec_of (ing (kenv e))) (jobs_queue s') H' A'
    \<and> pe_id ` set (pending (jobs_queue s')) \<union> A' = {1..delivered (jobs_queue s')}"
proof -
  obtain H' A' where "A \<subseteq> A'" "cluster (codec_of (ing (kenv e))) (jobs_queue s') H' A'"
    using worker_run_joins [OF assms(1)] assms(2,3) unfolding joins_cluster_def by blast
  with cluster_invariant show ?thesis by (metis cluster_inv_def)
qed

text \<open>Errors are final: whatever its pipeline returned, a processed job is acknowledged, so a job that
  failed is never delivered again; and for every kind but ingest the rows of the jobs table are
  left as they were, so the row of a finished or failed knowledge job still says queued.\<close>

theorem failed_jobs_are_dropped:
  assumes "run_job e job s = (r, s1)" "wire (jobs_queue s1) (sent (jobs_queue s1))"
  shows "qj_stream job \<notin> pe_id ` set (pending (jobs_queue (process e job s)))
    \<and> (qj_kind job \<noteq> ''ingest'' \<longrightarrow> jobs (jobs_queue (process e job s)) = jobs (jobs_queue s))"
proof -
  obtain x q where x: "ack job (jobs_queue s1) = (x, q)" by (meson surj_pair)
  have q: "q = (jobs_queue s1)\<lparr>sent := sent (jobs_queue s1) + 1,
      pending := filter (\<lambda>p. pe_id p \<noteq> qj_stream job) (pending (jobs_queue s1))\<rparr>"
    using x assms(2) by (auto simp: ack_def send_def Let_def)
  have "jobs_queue (process e job s) = q" by (simp add: process_def assms(1) x)
  with run_job_other [OF assms(1)] show ?thesis by (auto simp: q)
qed

section \<open>A job of an unknown kind\<close>

definition plain_worker :: worker_env where
  "plain_worker = \<lparr>kenv = plain_knowledge, henv = plain_hooks, ao = (\<lambda>_. []), io = (\<lambda>_. []), consumer_name = ''w''\<rparr>"

definition worker_start :: backend where
  "worker_start = with_queue idle_queue \<lparr>wd = quiet_world, ops = three_hooks\<rparr>"

lemma worker_codec: "codec_of (ing (kenv plain_worker)) = plain_codec"
  by (simp add: plain_worker_def plain_knowledge_def plain_ingest_def)

definition odd_job :: queued_job where
  "odd_job = \<lparr>qj_id = 1, qj_stream = 1, qj_tenant = 5, qj_kind = ''other'', qj_payload = JObj []\<rparr>"

lemma odd_run: "run_job plain_worker odd_job s = (None, s)"
  by (simp add: run_job_def odd_job_def)

theorem failed_jobs_are_dropped_witness:
  "qj_stream odd_job \<notin> pe_id ` set (pending (jobs_queue (process plain_worker odd_job worker_start)))
    \<and> jobs (jobs_queue (process plain_worker odd_job worker_start)) = jobs idle_queue"
proof -
  have "wire (jobs_queue worker_start) (sent (jobs_queue worker_start))"
    by (simp add: worker_start_def idle_queue_def)
  from failed_jobs_are_dropped [OF odd_run this] show ?thesis
    by (simp add: worker_start_def odd_job_def)
qed

definition odd_entry :: stream_entry where
  "odd_entry = \<lparr>entry_id = 1, entry_map = entry_fields plain_codec 1 5 ''other'' (JObj [])\<rparr>"

definition odd_queue :: queue_state where
  "odd_queue = \<lparr>jobs = [queued_row 1 ''other'' 5 (JObj []) 0], stream = [odd_entry], cursor = None, pending = [],
     events = [(tenant_channel 5, job_event 1 ''queued'' 0 None)], job_supply = 2, entry_supply = 2, q_now = 0, pg_up = True,
     wire = (\<lambda>_. True), sent = 2, trim_by = (\<lambda>_. 0)\<rparr>"

lemma odd_enqueued: "enqueue plain_codec ''other'' 5 (JObj []) idle_queue = (Some 1, odd_queue)"
  by (simp add: enqueue_def idle_queue_def insert_job_def seq_def publish_to_def publish_def send_def
      xadd_def Let_def queued_row_def get_key_def odd_entry_def odd_queue_def)

lemma odd_parsed: "parse_job_entry plain_codec odd_entry = Some odd_job"
  by (simp add: parse_job_entry_def odd_entry_def odd_job_def entry_fields_def plain_codec_def parse_uuid_def
      digits_value_show_nat)

lemma odd_next: "next_job plain_codec w odd_queue = (Some (Some odd_job), odd_queue\<lparr>sent := 4, cursor := Some 1,
     pending := [\<lparr>pe_id = 1, pe_consumer = w, pe_delivered = 0\<rparr>]\<rparr>)"
proof -
  have k: "entry_id odd_entry = 1" by (simp add: odd_entry_def)
  show ?thesis
    by (simp add: next_job_def seq_def xgroup_create_def xreadgroup_def send_def undelivered_def Let_def odd_queue_def
      decode_entry_def odd_parsed k)
qed

theorem worker_refines_cluster_witness:
  "\<exists>s' A'. worker_run plain_worker worker_start s' \<and> pending (jobs_queue s') = [] \<and> delivered (jobs_queue s') = 1
    \<and> pe_id ` set (pending (jobs_queue s')) \<union> A' = {1..delivered (jobs_queue s')}"
proof -
  have q: "enqueue (codec_of (ing (kenv plain_worker))) ''other'' 5 (JObj []) (jobs_queue worker_start) = (Some 1, odd_queue)"
    by (simp add: worker_codec worker_start_def odd_enqueued)
  have one: "worker_run plain_worker worker_start (with_queue odd_queue worker_start)"
    by (rule worker_run.requested [OF worker_run.idle q])
  obtain b s' where p: "poll_once plain_worker (with_queue odd_queue worker_start) = (b, s')" by (meson surj_pair)
  have run: "worker_run plain_worker worker_start s'" by (rule worker_run.polled [OF one p])
  have "jobs_queue s' = odd_queue\<lparr>sent := 5, cursor := Some 1, pending := []\<rparr>"
    using p by (simp add: poll_once_def worker_codec odd_next handle_def process_def odd_run ack_def send_def Let_def)
      (auto simp: odd_queue_def odd_job_def)
  then have e: "entry_supply (jobs_queue s') \<le> JOB_STREAM_MAXLEN" "pending (jobs_queue s') = []" "delivered (jobs_queue s') = 1"
    by (simp_all add: odd_queue_def JOB_STREAM_MAXLEN_def delivered_def)
  have boot: "cluster (codec_of (ing (kenv plain_worker))) (jobs_queue worker_start) {} {}"
    unfolding worker_start_def jobs_queue_with by (rule cluster.boot) (simp_all add: idle_queue_def trim_ok_def)
  from worker_refines_cluster [OF run boot e(1)] e(2,3) run show ?thesis by blast
qed

end
