(* ===== verification/Topics.thy ===== *)
theory Topics
  imports Worker "HOL-Library.List_Lexorder"
begin

text \<open>
  The topic pages and the review queue: \<open>insight-api/src/routes/topics.rs\<close> and
  \<open>routes/review.rs\<close>. A handler takes the authenticated user and returns an error or the fields it
  renders. Time stamps are rendered as they are; the constant fields of the answers are left out.
\<close>

section \<open>Topics\<close>

definition claim_status :: "string \<Rightarrow> string" where
  "claim_status s = (if s \<in> {''accepted'', ''active''} then ''active''
     else if s = ''duplicate'' then ''superseded''
     else if s = ''needs_review'' then ''conflicted''
     else if s = ''retired'' then ''retired'' else ''draft'')"

definition list_topics :: "uuid \<Rightarrow> knowledge_db \<Rightarrow> api_error + topic_row list" where
  "list_topics tenant db = (if \<not> know_up db then Inl internal else Inr (take 500
     (sort_key (\<lambda>t. - int (tp_updated t)) (filter (\<lambda>t. tp_tenant t = tenant) (topics db)))))"

definition load_topic_claims :: "uuid \<Rightarrow> uuid \<Rightarrow> knowledge_db \<Rightarrow> api_error + claim_row list" where
  "load_topic_claims tenant tid db =
     (if \<not> know_up db then Inl internal else Inr (take 500 (sort_key cl_created (on_topic tenant tid db))))"

record page_section =
  ps_id :: string
  ps_title :: string
  ps_claims :: "(uuid \<times> string) list"

text \<open>A \<open>BTreeMap\<close> over strings: the keys in the order of their characters.\<close>

definition btree_keys :: "string list \<Rightarrow> string list" where
  "btree_keys ks = sort_key (map code_of) (remdups ks)"

definition topic_sections :: "claim_row list \<Rightarrow> page_section list" where
  "topic_sections cs = map2 (\<lambda>i k. \<lparr>ps_id = ''s'' @ show_nat i, ps_title = k,
       ps_claims = map (\<lambda>c. (cl_id c, cl_text c)) (filter (\<lambda>c. cl_type c = k) cs)\<rparr>)
     [0..<length (btree_keys (map cl_type cs))] (btree_keys (map cl_type cs))"

definition get_topic :: "uuid \<Rightarrow> uuid \<Rightarrow> knowledge_db \<Rightarrow> api_error + (topic_row \<times> page_section list)" where
  "get_topic tenant tid db =
     (if \<not> know_up db then Inl internal
      else case topic_row_of tenant tid db of None \<Rightarrow> Inl not_found
        | Some t \<Rightarrow> (case load_topic_claims tenant tid db of Inl err \<Rightarrow> Inl err
            | Inr cs \<Rightarrow> Inr (t, topic_sections cs)))"

definition get_topic_claims :: "uuid \<Rightarrow> uuid \<Rightarrow> string option \<Rightarrow> knowledge_db \<Rightarrow> api_error + claim_row list" where
  "get_topic_claims tenant tid wanted db = map_sum id
     (filter (\<lambda>c. case wanted of None \<Rightarrow> True | Some st \<Rightarrow> claim_status (cl_status c) = st)) (load_topic_claims tenant tid db)"

definition add_claim :: "uuid \<Rightarrow> uuid \<Rightarrow> string \<Rightarrow> knowledge_db \<Rightarrow> (api_error + uuid) \<times> knowledge_db" where
  "add_claim tenant tid content db =
     (if trim content = [] then (Inl bad_request, db)
      else if \<not> know_up db then (Inl internal, db)
      else let concept = Option.bind (topic_row_of tenant tid db) tp_concept
           in (Inr (know_supply db), db\<lparr>claims := claims db @ [\<lparr>cl_id = know_supply db, cl_tenant = tenant,
                 cl_topic = None, cl_concept = concept, cl_type = ''fact'', cl_text = trim content,
                 cl_meaning = None, cl_status = ''active'', cl_created = know_now db\<rparr>],
               know_supply := know_supply db + 1\<rparr>))"

record verification =
  vf_faithfulness :: f64
  vf_total :: nat
  vf_supported :: nat

definition verify_topic :: "uuid \<Rightarrow> uuid \<Rightarrow> knowledge_db \<Rightarrow> api_error + verification" where
  "verify_topic tenant tid db =
     (case load_topic_claims tenant tid db of Inl err \<Rightarrow> Inl err
      | Inr cs \<Rightarrow>
          let total = length cs; supported = length (filter (\<lambda>c. cl_concept c \<noteq> None) cs)
          in Inr \<lparr>vf_faithfulness = (if total > 0 then real supported / real total else 1),
                  vf_total = total, vf_supported = supported\<rparr>)"

text \<open>A synthesis that fails is an answer too (\<open>ok: false\<close>), so the handler has no error.\<close>

definition regenerate_topic :: "knowledge_env \<Rightarrow> uuid \<Rightarrow> uuid \<Rightarrow> synth_result job_step" where
  "regenerate_topic = synthesize"

definition list_versions :: "uuid \<Rightarrow> uuid \<Rightarrow> knowledge_db \<Rightarrow> api_error + (string \<times> version_row) list" where
  "list_versions tenant tid db = (if \<not> know_up db then Inl internal else Inr
     (map (\<lambda>v. (show_nat tid @ '':'' @ show_int (tv_version v), v))
        (sort_key (\<lambda>v. - tv_version v) (filter (\<lambda>v. tv_tenant v = tenant \<and> tv_topic v = tid) (topic_versions db)))))"

definition restore_version :: "authed_user \<Rightarrow> uuid \<Rightarrow> int \<Rightarrow> knowledge_db \<Rightarrow> (api_error + synth_result) \<times> knowledge_db" where
  "restore_version user tid v db =
     (if role_rank (auth_role user) < role_rank ''editor'' then (Inl forbidden, db)
      else if v < 1 then (Inl bad_request, db)
      else case restore_version_db (auth_tenant user) tid v db of
          (None, db) \<Rightarrow> (Inl not_found, db) | (Some r, db) \<Rightarrow> (Inr r, db))"

definition no_evidence :: api_error where
  "no_evidence = \<lparr>err_status = 422, err_code = ''no_evidence''\<rparr>"

definition case_of_topic :: "knowledge_env \<Rightarrow> uuid \<Rightarrow> uuid \<Rightarrow> world \<Rightarrow> (api_error + string) \<times> world" where
  "case_of_topic e tenant tid s = (case generate_case e tenant tid s of
       (None, s) \<Rightarrow> (Inl no_evidence, s) | (Some c, s) \<Rightarrow> (Inr c, s))"

definition flashcards_of_topic :: "uuid \<Rightarrow> uuid \<Rightarrow> nat option \<Rightarrow> knowledge_db \<Rightarrow> (api_error + nat) \<times> knowledge_db" where
  "flashcards_of_topic tenant tid wanted db =
     (case generate_flashcards tenant tid (case wanted of None \<Rightarrow> 8 | Some n \<Rightarrow> n) db of
        (None, db) \<Rightarrow> (Inl internal, db) | (Some n, db) \<Rightarrow> (Inr n, db))"

section \<open>The review queue\<close>

definition review_type :: "string option \<Rightarrow> string" where
  "review_type why = (if why \<in> {Some ''contradiction'', Some ''conflict''} then ''conflict'' else ''new'')"

definition review_status :: "string \<Rightarrow> string" where
  "review_status s = (if s \<in> {''accepted'', ''resolved''} then ''accepted''
     else if s = ''rejected'' then ''rejected'' else ''pending'')"

record review_item =
  ri_id :: uuid
  ri_reason :: string
  ri_status :: string
  ri_claim :: "claim_row option"

definition item_of :: "bool \<Rightarrow> knowledge_db \<Rightarrow> review_row \<Rightarrow> review_item" where
  "item_of only_claims db r = \<lparr>ri_id = rv_id r, ri_reason = rv_reason r, ri_status = rv_status r,
     ri_claim = (if only_claims \<and> rv_kind r \<noteq> ''claim'' then None
       else find (\<lambda>c. cl_tenant c = rv_tenant r \<and> cl_id c = rv_ref r) (claims db))\<rparr>"

definition list_review :: "uuid \<Rightarrow> knowledge_db \<Rightarrow> api_error + review_item list" where
  "list_review tenant db = (if \<not> know_up db then Inl internal else Inr (map (item_of True db) (take 200
     (sort_key (\<lambda>r. - int (rv_id r)) (filter (\<lambda>r. rv_tenant r = tenant \<and> rv_status r = ''open'') (review_queue db))))))"

definition open_item :: "uuid \<Rightarrow> uuid \<Rightarrow> review_row \<Rightarrow> bool" where
  "open_item tenant k r = (rv_tenant r = tenant \<and> rv_id r = k \<and> rv_status r = ''open'')"

definition settle :: "uuid \<Rightarrow> uuid \<Rightarrow> string \<Rightarrow> knowledge_db \<Rightarrow> (api_error + review_item) \<times> knowledge_db" where
  "settle tenant k decision db =
     (if \<not> know_up db then (Inl internal, db)
      else case find (open_item tenant k) (review_queue db) of None \<Rightarrow> (Inl not_found, db)
        | Some r \<Rightarrow>
            let db1 = db\<lparr>review_queue := update_where (open_item tenant k) (\<lambda>r. r\<lparr>rv_status := decision\<rparr>) (review_queue db)\<rparr>
            in (Inr (item_of False db (r\<lparr>rv_status := decision\<rparr>)),
                set_claim_status (\<lambda>c. cl_tenant c = tenant \<and> cl_id c = rv_ref r)
                  (if decision = ''accepted'' then ''active'' else ''retired'') db1))"

definition with_know :: "knowledge_db \<Rightarrow> backend \<Rightarrow> backend" where
  "with_know k s = s\<lparr>wd := (wd s)\<lparr>know := k\<rparr>\<rparr>"

definition resolve_review :: "codec \<Rightarrow> authed_user \<Rightarrow> uuid \<Rightarrow> string \<Rightarrow> backend \<Rightarrow> (api_error + review_item) \<times> backend" where
  "resolve_review c user k decision s =
     (if decision \<noteq> ''accepted'' \<and> decision \<noteq> ''rejected'' then (Inl bad_request, s)
      else case settle (auth_tenant user) k decision (know (wd s)) of
          (Inl err, db) \<Rightarrow> (Inl err, with_know db s)
        | (Inr item, db) \<Rightarrow>
            let s = with_know db s;
                s = s\<lparr>ops := snd (notify (auth_tenant user) ''ssot_merge'' ''Review resolved''
                        (''A conflict was '' @ decision @ ''.'') None (ops s))\<rparr>;
                event = JObj [(''event'', JStr ''review.resolved''),
                  (''data'', JObj [(''reviewId'', JStr (show_nat k)), (''decision'', JStr decision)])]
            in (Inr item, with_queue (snd (enqueue c ''webhook_deliver'' (auth_tenant user) event (jobs_queue s))) s))"

lemma filter_map_same: "(\<And>x. P (f x) = P x) \<Longrightarrow> filter P (map f xs) = map f (filter P xs)"
  by (simp add: filter_map comp_def)

section \<open>Verification always succeeds\<close>

lemma on_topic_grounded: "c \<in> set (on_topic tenant tid db) \<Longrightarrow> cl_concept c \<noteq> None"
  by (auto simp: on_topic_def split: option.splits)

text \<open>The faithfulness of a topic that the verification reports is 1, and every claim counts as
  supported, whatever the claims say: the claims are selected by their concept, and having a concept is
  what the endpoint takes as support.\<close>

theorem verification_is_vacuous:
  assumes "verify_topic tenant tid db = Inr v"
  shows "vf_faithfulness v = 1 \<and> vf_supported v = vf_total v"
proof -
  let ?cs = "take 500 (sort_key cl_created (on_topic tenant tid db))"
  have "filter (\<lambda>c. cl_concept c \<noteq> None) ?cs = ?cs"
    using on_topic_grounded by (auto simp: filter_id_conv dest: in_set_takeD)
  then show ?thesis
    using assms by (auto simp: verify_topic_def load_topic_claims_def Let_def min_def split: if_splits)
qed

section \<open>Review decisions\<close>

lemma settle_Inr:
  assumes "settle tenant k decision db = (Inr item, db')"
  obtains r where "find (open_item tenant k) (review_queue db) = Some r" "know_up db"
    "item = item_of False db (r\<lparr>rv_status := decision\<rparr>)"
    "review_queue db' = update_where (open_item tenant k) (\<lambda>r. r\<lparr>rv_status := decision\<rparr>) (review_queue db)"
    "claims db' = update_where (\<lambda>c. cl_tenant c = tenant \<and> cl_id c = rv_ref r)
       (\<lambda>c. c\<lparr>cl_status := if decision = ''accepted'' then ''active'' else ''retired''\<rparr>) (claims db)"
    "know_up db'" "topics db' = topics db"
  using assms by (auto simp: settle_def set_claim_status_def Let_def split: if_splits option.splits)

lemma settle_found:
  "know_up db \<Longrightarrow> find (open_item tenant k) (review_queue db) \<noteq> None \<Longrightarrow> \<exists>item. fst (settle tenant k decision db) = Inr item"
  by (cases "find (open_item tenant k) (review_queue db)") (simp_all add: settle_def Let_def)

lemma resolve_review_know:
  assumes "resolve_review c user k decision s = (r, s')" "decision = ''accepted'' \<or> decision = ''rejected''"
  shows "settle (auth_tenant user) k decision (know (wd s)) = (r, know (wd s'))"
proof -
  obtain x db where x: "settle (auth_tenant user) k decision (know (wd s)) = (x, db)" by (meson surj_pair)
  have ok: "\<not> (decision \<noteq> ''accepted'' \<and> decision \<noteq> ''rejected'')" using assms(2) by blast
  note run = assms(1) [unfolded resolve_review_def if_not_P [OF ok] x prod.case Let_def]
  show ?thesis
  proof (cases x)
    case (Inl err)
    with run x show ?thesis by (auto simp: with_know_def)
  next
    case (Inr item)
    with run x show ?thesis by (auto simp: with_know_def with_queue_def)
  qed
qed

lemma resolve_Inr:
  assumes "resolve_review c user k decision s = (Inr item, s')"
  shows "settle (auth_tenant user) k decision (know (wd s)) = (Inr item, know (wd s'))"
    and "decision = ''accepted'' \<or> decision = ''rejected''"
proof -
  show d: "decision = ''accepted'' \<or> decision = ''rejected''"
  proof (rule ccontr)
    assume "\<not> (decision = ''accepted'' \<or> decision = ''rejected'')"
    then have "decision \<noteq> ''accepted'' \<and> decision \<noteq> ''rejected''" by blast
    from assms [unfolded resolve_review_def if_P [OF this]] show False by simp
  qed
  from resolve_review_know [OF assms d]
  show "settle (auth_tenant user) k decision (know (wd s)) = (Inr item, know (wd s'))" .
qed

lemma no_open_left:
  assumes "decision \<noteq> ''open''" "review_queue db' = update_where (open_item tenant k) (\<lambda>r. r\<lparr>rv_status := decision\<rparr>) (review_queue db)"
  shows "find (open_item tenant k) (review_queue db') = None"
proof -
  have "\<not> open_item tenant k (if open_item tenant k r then r\<lparr>rv_status := decision\<rparr> else r)" for r
    using assms(1) by (cases "open_item tenant k r") (simp_all add: open_item_def)
  then show ?thesis unfolding find_None_iff assms(2) update_where_def by (simp only: set_map) blast
qed


text \<open>What a rejection does not do: the text of a claim that a reviewer rejected is still
  among the evidence that the next synthesis of its topic's page gets (with at most sixty claims
  on the topic), since only duplicates are left out.\<close>

theorem rejected_claim_stays_on_page:
  assumes res: "resolve_review c user k ''rejected'' s = (Inr item, s')"
    and row: "row \<in> set (review_queue (know (wd s)))" "open_item (auth_tenant user) k row"
    and x: "x \<in> set (on_topic (auth_tenant user) tid (know (wd s)))" "cl_id x = rv_ref row" "cl_status x \<noteq> ''duplicate''"
    and few: "length (on_topic (auth_tenant user) tid (know (wd s))) \<le> 60"
    and keys: "distinct (map rv_id (review_queue (know (wd s))))"
  shows "\<exists>cs. topic_claims (auth_tenant user) tid (know (wd s')) = (Some cs, know (wd s')) \<and> cl_text x \<in> set cs
    \<and> (\<exists>y \<in> set (claims (know (wd s'))). cl_id y = cl_id x \<and> cl_status y = ''retired'')"
proof -
  let ?t = "auth_tenant user" and ?db = "know (wd s)" and ?db' = "know (wd s')"
  obtain r where r: "find (open_item ?t k) (review_queue ?db) = Some r"
    and cs: "claims ?db' = update_where (\<lambda>c. cl_tenant c = ?t \<and> cl_id c = rv_ref r) (\<lambda>c. c\<lparr>cl_status := ''retired''\<rparr>) (claims ?db)"
    and up: "know_up ?db'" and tp: "topics ?db' = topics ?db"
    by (rule settle_Inr [OF resolve_Inr(1) [OF res]]) simp
  have "r \<in> set (review_queue ?db)" "rv_id r = rv_id row" using r row(2) by (auto simp: find_Some_iff open_item_def)
  then have rr: "r = row" using keys row(1) by (auto simp: distinct_map dest: inj_onD)
  let ?f = "\<lambda>c. if cl_tenant c = ?t \<and> cl_id c = rv_ref row then c\<lparr>cl_status := ''retired''\<rparr> else c"
  have on: "on_topic ?t tid ?db' = map ?f (on_topic ?t tid ?db)"
    unfolding on_topic_def topic_row_of_def tp cs rr update_where_def
    by (cases "find (\<lambda>t. tp_tenant t = ?t \<and> tp_id t = tid) (topics ?db)")
      (simp_all only: option.case list.map, rule filter_map_same, simp)
  let ?y = "x\<lparr>cl_status := ''retired''\<rparr>"
  have tx: "cl_tenant x = ?t" "x \<in> set (claims ?db)" using x(1) by (auto simp: on_topic_def split: option.splits)
  then have y: "?f x = ?y" using x(2) by simp
  have "?y \<in> set (map ?f (on_topic ?t tid ?db))" unfolding set_map by (rule image_eqI [of _ ?f, OF y [symmetric] x(1)])
  then have mem: "?y \<in> set (filter (\<lambda>c. cl_status c \<noteq> ''duplicate'') (on_topic ?t tid ?db'))" by (simp add: on)
  let ?cs = "filter (\<lambda>c. cl_status c \<noteq> ''duplicate'') (on_topic ?t tid ?db')"
  have "length (on_topic ?t tid ?db') = length (on_topic ?t tid ?db)" unfolding on by (rule length_map)
  then have "length ?cs \<le> 60" using few length_filter_le [of "\<lambda>c. cl_status c \<noteq> ''duplicate''" "on_topic ?t tid ?db'"] by linarith
  then have "topic_claims ?t tid ?db' = (Some (map cl_text (sort_key cl_created ?cs)), ?db')"
    using up by (simp add: topic_claims_def TOPIC_CLAIMS_LIMIT_def)
  moreover have "cl_text ?y \<in> set (map cl_text (sort_key cl_created ?cs))"
    using mem by (simp only: set_map set_sort) (rule imageI)
  moreover have "?y \<in> set (claims ?db')" unfolding cs rr update_where_def set_map by (rule image_eqI [of _ ?f, OF y [symmetric] tx(2)])
  ultimately show ?thesis
    by (intro exI [of _ "map cl_text (sort_key cl_created ?cs)"] conjI bexI [of _ ?y]) simp_all
qed


section \<open>Concrete states\<close>

definition reviewed_topic :: knowledge_db where
  "reviewed_topic = insulin_topic\<lparr>review_queue := [\<lparr>rv_id = 90, rv_tenant = 5, rv_kind = ''claim'', rv_ref = 1,
     rv_reason = ''contradiction'', rv_status = ''open''\<rparr>]\<rparr>"

definition review_start :: backend where
  "review_start = with_know reviewed_topic worker_start"

definition reviewer :: authed_user where
  "reviewer = \<lparr>auth_user = 8, auth_tenant = 5, auth_role = ''editor'', auth_session = 3\<rparr>"

lemma reviewed_row: "topic_row_of 5 60 reviewed_topic = topic_row_of 5 60 (know insulin_world)"
  by (simp add: topic_row_of_def reviewed_topic_def insulin_world_def)

lemma reviewed_claims: "on_topic 5 60 reviewed_topic = claims insulin_topic"
  using insulin_claims unfolding on_topic_def reviewed_row by (simp add: reviewed_topic_def insulin_world_def split: option.splits)

lemma reviewed_resolves:
  assumes "decision = ''accepted'' \<or> decision = ''rejected''"
  obtains item s' where "resolve_review plain_codec reviewer 90 decision review_start = (Inr item, s')"
proof -
  obtain r s' where run: "resolve_review plain_codec reviewer 90 decision review_start = (r, s')" by (meson surj_pair)
  from resolve_review_know [OF this assms] have "settle 5 90 decision reviewed_topic = (r, know (wd s'))"
    by (simp add: reviewer_def review_start_def with_know_def)
  moreover have "find (open_item 5 90) (review_queue reviewed_topic) \<noteq> None" "know_up reviewed_topic"
    by (simp_all add: reviewed_topic_def open_item_def insulin_defs)
  ultimately have "\<exists>item. r = Inr item" using settle_found [of reviewed_topic 5 90 decision] by (metis fst_conv)
  with run that show thesis by blast
qed

theorem verification_is_vacuous_witness:
  "\<exists>v. verify_topic 5 60 reviewed_topic = Inr v \<and> vf_total v = 3 \<and> vf_supported v = 3 \<and> vf_faithfulness v = 1"
proof -
  have up: "know_up reviewed_topic" by (simp add: reviewed_topic_def insulin_defs)
  have "length (take 500 (sort_key cl_created (on_topic 5 60 reviewed_topic))) = 3"
    unfolding reviewed_claims by (simp add: insulin_topic_def three_claims_def)
  with up obtain v where v: "verify_topic 5 60 reviewed_topic = Inr v" "vf_total v = 3"
    unfolding verify_topic_def load_topic_claims_def Let_def by simp
  with verification_is_vacuous [OF v(1)] show ?thesis by simp
qed


theorem rejected_claim_stays_on_page_witness:
  "\<exists>item s' cs. resolve_review plain_codec reviewer 90 ''rejected'' review_start = (Inr item, s')
    \<and> topic_claims 5 60 (know (wd s')) = (Some cs, know (wd s')) \<and> ''insulin does lower blood glucose'' \<in> set cs"
proof -
  let ?row = "\<lparr>rv_id = 90, rv_tenant = 5, rv_kind = ''claim'', rv_ref = 1, rv_reason = ''contradiction'', rv_status = ''open''\<rparr>"
  let ?x = "claim_on 1 10 ''insulin does lower blood glucose''"
  obtain item s' where run: "resolve_review plain_codec reviewer 90 ''rejected'' review_start = (Inr item, s')"
    using reviewed_resolves [of "''rejected''"] by blast
  have k: "know (wd review_start) = reviewed_topic" "auth_tenant reviewer = 5"
    by (simp_all add: review_start_def with_know_def reviewer_def)
  have q: "review_queue reviewed_topic = [?row]" by (simp add: reviewed_topic_def)
  have cs: "claims insulin_topic = [?x, (claim_on 2 20 ''insulin does not lower blood glucose'')\<lparr>cl_status := ''retired''\<rparr>,
      claim_on 3 30 ''insulin does lower blood glucose'']" by (simp add: insulin_topic_def three_claims_def claim_on_def)
  note app = rejected_claim_stays_on_page [OF run, of ?row ?x 60, unfolded k q reviewed_claims cs]
  have "\<exists>cs. topic_claims 5 60 (know (wd s')) = (Some cs, know (wd s')) \<and> cl_text ?x \<in> set cs
    \<and> (\<exists>y \<in> set (claims (know (wd s'))). cl_id y = cl_id ?x \<and> cl_status y = ''retired'')"
    by (rule app) (simp_all add: open_item_def claim_on_def)
  then have "\<exists>cs. topic_claims 5 60 (know (wd s')) = (Some cs, know (wd s')) \<and> ''insulin does lower blood glucose'' \<in> set cs"
    by (auto simp: claim_on_def)
  with run show ?thesis by blast
qed

end
