(* ===== verification/Orgs.thy ===== *)
theory Orgs
  imports Auth Settings VectorStore Queue
begin

text \<open>
  Plans, quotas and billing: \<open>insight-core/src/billing.rs\<close>, \<open>insight-api/src/routes/billing.rs\<close> and
  the super-administrator's console \<open>routes/admin_orgs.rs\<close>. The state \<open>console\<close> joins the tables of
  the authentication API with the catalogue of plans, the billing columns of the tenants (functions
  of the tenant, with the columns' defaults in the initial state) and the listing of API keys. Stripe's
  replies, HMAC-SHA-256 and the JSON reader are parameters (\<open>billing_env\<close>). \<open>con_up\<close> says whether
  the database answers.
\<close>

record plan_row =
  pl_id :: string
  pl_name :: string
  pl_seats :: int
  pl_document_cap :: int
  pl_budget :: f64
  pl_price :: "string option"
  pl_features :: json
  pl_active :: bool

record key_row =
  kr_id :: uuid
  kr_tenant :: uuid
  kr_hash :: string
  kr_name :: string
  kr_hint :: string
  kr_revoked :: bool

record console =
  api :: api_state
  key_rows :: "key_row list"
  plans :: "plan_row list"
  plan_status :: "uuid \<Rightarrow> string"
  stripe_customer :: "uuid \<Rightarrow> string option"
  con_up :: bool

record billing_env =
  bill_vars :: environment
  stripe_post :: "string \<Rightarrow> string \<Rightarrow> (string \<times> string) list \<Rightarrow> json option"
  stripe_invoices :: "string \<Rightarrow> string \<Rightarrow> json option"
  hmac_sha256_hex :: "string \<Rightarrow> string \<Rightarrow> string"
  read_json :: "string \<Rightarrow> json option"

abbreviation tenants_of :: "console \<Rightarrow> tenant list" where
  "tenants_of s \<equiv> tenants (tdb (api s))"

definition with_tenants :: "tenant list \<Rightarrow> console \<Rightarrow> console" where
  "with_tenants ts s = s\<lparr>api := (api s)\<lparr>tdb := (tdb (api s))\<lparr>tenants := ts\<rparr>\<rparr>\<rparr>"

section \<open>Plans and quotas\<close>

definition plan_json :: "plan_row \<Rightarrow> json" where
  "plan_json p = JObj [(''id'', JStr (pl_id p)), (''name'', JStr (pl_name p)), (''seats'', JInt (pl_seats p)),
     (''documentCap'', JInt (pl_document_cap p)), (''aiBudgetUsd'', JFloat (pl_budget p)),
     (''stripePriceId'', case pl_price p of None \<Rightarrow> JNull | Some x \<Rightarrow> JStr x),
     (''features'', pl_features p), (''active'', JBool (pl_active p))]"

definition free_plan :: plan_row where
  "free_plan = \<lparr>pl_id = ''free'', pl_name = ''Free'', pl_seats = 3, pl_document_cap = 100, pl_budget = 10,
     pl_price = None, pl_features = JArr [], pl_active = True\<rparr>"

definition list_plans :: "console \<Rightarrow> plan_row list option" where
  "list_plans s = (if \<not> con_up s then None else Some (sort_key pl_budget (plans s)))"

definition get_plan :: "string \<Rightarrow> console \<Rightarrow> plan_row option option" where
  "get_plan k s = (if \<not> con_up s then None else Some (find (\<lambda>p. pl_id p = k) (plans s)))"

definition tenant_plan :: "uuid \<Rightarrow> console \<Rightarrow> plan_row option" where
  "tenant_plan t s = (if \<not> con_up s then None
     else case get_tenant t (tdb (api s)) of None \<Rightarrow> Some free_plan
       | Some row \<Rightarrow> map_option (\<lambda>p. case p of None \<Rightarrow> free_plan | Some p \<Rightarrow> p) (get_plan (plan row) s))"

definition member_count :: "uuid \<Rightarrow> console \<Rightarrow> nat option" where
  "member_count t s = (if \<not> con_up s then None else
     Some (length (filter (\<lambda>u. user_tenant u = t \<and> status u \<noteq> ''suspended'') (users (tdb (api s))))))"

definition document_count :: "uuid \<Rightarrow> library_db \<Rightarrow> nat option" where
  "document_count t lib = (if \<not> db_up lib then None else Some (length (filter (\<lambda>d. doc_tenant d = t) (documents lib))))"

definition check_seat :: "uuid \<Rightarrow> console \<Rightarrow> string option option" where
  "check_seat t s = Option.bind (tenant_plan t s) (\<lambda>p.
     if pl_seats p \<le> 0 then Some None
     else map_option (\<lambda>used. if pl_seats p \<le> int used
         then Some (''seat limit reached ('' @ show_nat used @ '' of '' @ show_int (pl_seats p) @ '')'') else None)
       (member_count t s))"

definition check_document_cap :: "uuid \<Rightarrow> console \<Rightarrow> library_db \<Rightarrow> string option option" where
  "check_document_cap t s lib = Option.bind (tenant_plan t s) (\<lambda>p.
     if pl_document_cap p \<le> 0 then Some None
     else map_option (\<lambda>used. if pl_document_cap p \<le> int used
         then Some (''document limit reached ('' @ show_nat used @ '' of '' @ show_int (pl_document_cap p) @ '')'') else None)
       (document_count t lib))"

text \<open>\<open>ORDER BY created_at DESC\<close>: the rows are in the order of their creation.\<close>

definition list_orgs :: "console \<Rightarrow> tenant list option" where
  "list_orgs s = (if \<not> con_up s then None else Some (take 500 (rev (tenants_of s))))"

section \<open>The super-administrator's console\<close>

definition require_super :: "console \<Rightarrow> api_error + authed_user \<Rightarrow> api_error + authed_user" where
  "require_super s = require_super_admin (tdb (api s))"

definition list_orgs_handler :: "api_error + authed_user \<Rightarrow> console \<Rightarrow> api_error + tenant list" where
  "list_orgs_handler auth s = (case require_super s auth of Inl e \<Rightarrow> Inl e
     | Inr _ \<Rightarrow> (case list_orgs s of None \<Rightarrow> Inl internal | Some ts \<Rightarrow> Inr ts))"

definition set_tenant :: "string option \<Rightarrow> bool option \<Rightarrow> string option \<Rightarrow> tenant \<Rightarrow> tenant" where
  "set_tenant p sus nm t = t\<lparr>plan := case p of None \<Rightarrow> plan t | Some x \<Rightarrow> x,
     suspended := case sus of None \<Rightarrow> suspended t | Some x \<Rightarrow> x,
     tenant_name := case nm of None \<Rightarrow> tenant_name t | Some x \<Rightarrow> x\<rparr>"

definition update_org :: "api_error + authed_user \<Rightarrow> uuid \<Rightarrow> string option \<Rightarrow> bool option \<Rightarrow> string option \<Rightarrow> console
    \<Rightarrow> (api_error + tenant) \<times> console" where
  "update_org auth k p sus nm s =
     (case require_super s auth of Inl e \<Rightarrow> (Inl e, s) | Inr _ \<Rightarrow>
      if p = None \<and> sus = None \<and> nm = None then (Inl bad_request, s)
      else case (case p of None \<Rightarrow> Some (Some free_plan) | Some x \<Rightarrow> get_plan x s) of
          None \<Rightarrow> (Inl internal, s)
        | Some None \<Rightarrow> (Inl bad_request, s)
        | Some (Some _) \<Rightarrow>
           if \<not> con_up s then (Inl internal, s)
           else case get_tenant k (tdb (api s)) of None \<Rightarrow> (Inl not_found, s)
             | Some t \<Rightarrow> (Inr (set_tenant p sus nm t),
                 with_tenants (update_where (\<lambda>t. tenant_key t = k) (set_tenant p sus nm) (tenants_of s)) s))"

definition list_plans_handler :: "api_error + authed_user \<Rightarrow> console \<Rightarrow> api_error + json list" where
  "list_plans_handler auth s = (case require_super s auth of Inl e \<Rightarrow> Inl e
     | Inr _ \<Rightarrow> (case list_plans s of None \<Rightarrow> Inl internal | Some ps \<Rightarrow> Inr (map plan_json ps)))"

record plan_body =
  pb_id :: string
  pb_name :: string
  pb_seats :: "int option"
  pb_document_cap :: "int option"
  pb_budget :: "f64 option"
  pb_price :: "string option"
  pb_features :: "json option"
  pb_active :: "bool option"

definition plan_of_body :: "plan_body \<Rightarrow> plan_row" where
  "plan_of_body b = \<lparr>pl_id = pb_id b, pl_name = pb_name b,
     pl_seats = (case pb_seats b of None \<Rightarrow> 0 | Some x \<Rightarrow> x),
     pl_document_cap = (case pb_document_cap b of None \<Rightarrow> 0 | Some x \<Rightarrow> x),
     pl_budget = (case pb_budget b of None \<Rightarrow> 0 | Some x \<Rightarrow> x), pl_price = pb_price b,
     pl_features = (case pb_features b of None \<Rightarrow> JArr [] | Some x \<Rightarrow> x),
     pl_active = (case pb_active b of None \<Rightarrow> True | Some x \<Rightarrow> x)\<rparr>"

definition put_plan :: "plan_row \<Rightarrow> plan_row list \<Rightarrow> plan_row list" where
  "put_plan p ps = (if list_ex (\<lambda>q. pl_id q = pl_id p) ps
     then update_where (\<lambda>q. pl_id q = pl_id p) (\<lambda>_. p) ps else ps @ [p])"

definition upsert_plan :: "api_error + authed_user \<Rightarrow> plan_body \<Rightarrow> console \<Rightarrow> (api_error + json) \<times> console" where
  "upsert_plan auth b s =
     (case require_super s auth of Inl e \<Rightarrow> (Inl e, s) | Inr _ \<Rightarrow>
      if trim (pb_id b) = [] then (Inl bad_request, s)
      else if \<not> con_up s then (Inl internal, s)
      else let s = s\<lparr>plans := put_plan (plan_of_body b) (plans s)\<rparr>
        in case get_plan (pb_id b) s of None \<Rightarrow> (Inl internal, s) | Some None \<Rightarrow> (Inl internal, s)
          | Some (Some p) \<Rightarrow> (Inr (plan_json p), s))"

text \<open>\<open>arrange\<close> is the order in which the database lists the groups.\<close>

definition overview :: "(string list \<Rightarrow> string list) \<Rightarrow> api_error + authed_user \<Rightarrow> console
    \<Rightarrow> api_error + (nat \<times> nat \<times> (string \<times> nat) list)" where
  "overview arrange auth s = (case require_super s auth of Inl e \<Rightarrow> Inl e | Inr _ \<Rightarrow>
     if \<not> con_up s then Inl internal
     else Inr (length (tenants_of s), length (filter suspended (tenants_of s)),
       map (\<lambda>p. (p, length (filter (\<lambda>t. plan t = p) (tenants_of s)))) (arrange (remdups (map plan (tenants_of s))))))"

section \<open>Stripe\<close>

definition stripe_key :: "environment \<Rightarrow> string option" where
  "stripe_key env = (case var env ''STRIPE_SECRET_KEY'' of None \<Rightarrow> None | Some k \<Rightarrow> if trim k = [] then None else Some k)"

definition web_origin_billing :: "environment \<Rightarrow> string" where
  "web_origin_billing env = env_str env ''WEB_ORIGIN'' ''https://insight-app.polytronx.com''"

definition unconfigured :: api_error where
  "unconfigured = \<lparr>err_status = 503, err_code = ''billing_unconfigured''\<rparr>"

record billing_status =
  bs_configured :: bool
  bs_plan :: string
  bs_status :: string
  bs_customer :: bool

definition billing_status_of :: "billing_env \<Rightarrow> uuid \<Rightarrow> console \<Rightarrow> api_error + billing_status" where
  "billing_status_of e t s = (case tenant_plan t s of None \<Rightarrow> Inl internal
     | Some p \<Rightarrow> let (st, customer) = (case get_tenant t (tdb (api s)) of
              None \<Rightarrow> (''active'', None) | Some _ \<Rightarrow> (plan_status s t, stripe_customer s t))
         in Inr \<lparr>bs_configured = (stripe_key (bill_vars e) \<noteq> None), bs_plan = pl_id p, bs_status = st,
                 bs_customer = (customer \<noteq> None)\<rparr>)"

definition checkout :: "billing_env \<Rightarrow> api_error + authed_user \<Rightarrow> console \<Rightarrow> api_error + json" where
  "checkout e auth s = (case require_admin auth of Inl err \<Rightarrow> Inl err | Inr user \<Rightarrow>
     case stripe_key (bill_vars e) of None \<Rightarrow> Inl unconfigured | Some key \<Rightarrow>
     case get_plan ''pro'' s of None \<Rightarrow> Inl internal | Some found \<Rightarrow>
     case Option.bind found pl_price of None \<Rightarrow> Inl bad_request | Some price \<Rightarrow>
     let base = web_origin_billing (bill_vars e)
     in case stripe_post e key ''checkout/sessions''
          [(''mode'', ''subscription''), (''line_items[0][price]'', price), (''line_items[0][quantity]'', ''1''),
           (''success_url'', base @ ''/admin/settings/billing?ok=1''), (''cancel_url'', base @ ''/admin/settings/billing''),
           (''client_reference_id'', show_nat (auth_tenant user))] of
          None \<Rightarrow> Inl internal | Some session \<Rightarrow> Inr (index_key session ''url''))"

definition customer_of :: "uuid \<Rightarrow> console \<Rightarrow> string option" where
  "customer_of t s = Option.bind (get_tenant t (tdb (api s))) (\<lambda>_. stripe_customer s t)"

definition portal :: "billing_env \<Rightarrow> api_error + authed_user \<Rightarrow> console \<Rightarrow> api_error + json" where
  "portal e auth s = (case require_admin auth of Inl err \<Rightarrow> Inl err | Inr user \<Rightarrow>
     case stripe_key (bill_vars e) of None \<Rightarrow> Inl unconfigured | Some key \<Rightarrow>
     if \<not> con_up s then Inl internal
     else case customer_of (auth_tenant user) s of None \<Rightarrow> Inl bad_request | Some customer \<Rightarrow>
     case stripe_post e key ''billing_portal/sessions''
          [(''customer'', customer), (''return_url'', web_origin_billing (bill_vars e) @ ''/admin/settings/billing'')] of
          None \<Rightarrow> Inl internal | Some session \<Rightarrow> Inr (index_key session ''url''))"

definition invoice_json :: "json \<Rightarrow> json" where
  "invoice_json i = JObj [(''id'', index_key i ''id''), (''number'', index_key i ''number''),
     (''created'', index_key i ''created''), (''total'', index_key i ''total''), (''currency'', index_key i ''currency''),
     (''status'', index_key i ''status''), (''hostedInvoiceUrl'', index_key i ''hosted_invoice_url''),
     (''invoicePdf'', index_key i ''invoice_pdf'')]"

definition invoices :: "billing_env \<Rightarrow> api_error + authed_user \<Rightarrow> console \<Rightarrow> api_error + (bool \<times> json list)" where
  "invoices e auth s = (case require_admin auth of Inl err \<Rightarrow> Inl err | Inr user \<Rightarrow>
     case stripe_key (bill_vars e) of None \<Rightarrow> Inr (False, []) | Some key \<Rightarrow>
     if \<not> con_up s then Inl internal
     else case customer_of (auth_tenant user) s of None \<Rightarrow> Inr (True, []) | Some customer \<Rightarrow>
     case stripe_invoices e key customer of None \<Rightarrow> Inl internal
     | Some reply \<Rightarrow> Inr (True, case as_array (index_key reply ''data'') of None \<Rightarrow> [] | Some is \<Rightarrow> map invoice_json is))"

definition header_part :: "string \<Rightarrow> string \<Rightarrow> string" where
  "header_part p header = (case List.map_filter (strip_prefix p) (split_on CHR '','' header) of [] \<Rightarrow> [] | x # _ \<Rightarrow> x)"

definition signature_ok :: "billing_env \<Rightarrow> string option \<Rightarrow> string \<Rightarrow> bool" where
  "signature_ok e header raw = (case var (bill_vars e) ''STRIPE_WEBHOOK_SECRET'' of None \<Rightarrow> True
     | Some secret \<Rightarrow> if secret = [] then True else
         let sig = (case header of None \<Rightarrow> [] | Some h \<Rightarrow> h);
             ts = header_part ''t='' sig; v1 = header_part ''v1='' sig
         in v1 \<noteq> [] \<and> v1 = hmac_sha256_hex e secret (ts @ ''.'' @ raw))"

definition set_plan :: "uuid \<Rightarrow> string \<Rightarrow> string \<Rightarrow> console \<Rightarrow> console" where
  "set_plan t p st s =
     (if \<not> con_up s \<or> get_tenant t (tdb (api s)) = None then s
      else (with_tenants (update_where (\<lambda>r. tenant_key r = t) (\<lambda>r. r\<lparr>plan := p\<rparr>) (tenants_of s)) s)
        \<lparr>plan_status := (plan_status s)(t := st)\<rparr>)"

definition subscription_of :: "json \<Rightarrow> (uuid \<times> string) option" where
  "subscription_of event =
     (let kind = (case as_str (index_key event ''type'') of None \<Rightarrow> [] | Some k \<Rightarrow> k);
          obj = index_key (index_key event ''data'') ''object'';
          tenant = (case as_str (index_key (index_key obj ''metadata'') ''tenantId'') of
              Some t \<Rightarrow> Some t | None \<Rightarrow> as_str (index_key obj ''client_reference_id''))
      in if starts_with kind ''customer.subscription''
         then map_option (\<lambda>t. (t, case as_str (index_key obj ''status'') of None \<Rightarrow> ''active'' | Some st \<Rightarrow> st))
           (Option.bind tenant parse_uuid)
         else None)"

definition stripe_webhook :: "billing_env \<Rightarrow> string option \<Rightarrow> string \<Rightarrow> console \<Rightarrow> (api_error + unit) \<times> console" where
  "stripe_webhook e header raw s =
     (if \<not> signature_ok e header raw then (Inl bad_request, s)
      else let event = (case read_json e raw of None \<Rightarrow> JObj [] | Some v \<Rightarrow> v)
        in (Inr (), case subscription_of event of None \<Rightarrow> s
             | Some (t, st) \<Rightarrow> set_plan t (if st \<in> {''active'', ''trialing''} then ''pro'' else ''free'') st s))"


section \<open>Facts\<close>

lemma with_tenants_simps [simp]:
  "con_up (with_tenants ts s) = con_up s" "plans (with_tenants ts s) = plans s"
  "stripe_customer (with_tenants ts s) = stripe_customer s" "key_rows (with_tenants ts s) = key_rows s"
  "plan_status (with_tenants ts s) = plan_status s" "tdb (api (with_tenants ts s)) = (tdb (api s))\<lparr>tenants := ts\<rparr>"
  "api_keys (api (with_tenants ts s)) = api_keys (api s)" "cache_srv (api (with_tenants ts s)) = cache_srv (api s)"
  by (simp_all add: with_tenants_def)

lemma find_update_where_same:
  assumes "\<And>r. Q r \<Longrightarrow> P r" "\<And>r. Q r \<Longrightarrow> Q (f r)" "\<And>r. P r \<Longrightarrow> Q (f r) \<Longrightarrow> Q r"
  shows "find Q (update_where P f rows) = map_option f (find Q rows)"
proof (induction rows)
  case (Cons r rows)
  show ?case
  proof (cases "Q r")
    case True
    with assms(1,2) have "P r" "Q (f r)" by blast+
    with True show ?thesis by simp
  next
    case False
    then have "\<not> Q (if P r then f r else r)" using assms(3) by auto
    with False Cons show ?thesis by simp
  qed
qed simp

lemma find_update_where_other:
  assumes "\<And>r. P r \<Longrightarrow> \<not> Q r \<and> \<not> Q (f r)"
  shows "find Q (update_where P f rows) = find Q rows"
proof (induction rows)
  case (Cons r rows)
  then show ?case using assms [of r] by (cases "P r") simp_all
qed simp

lemma set_plan_get_tenant:
  assumes "con_up s"
  shows "get_tenant k (tdb (api (set_plan t p st s))) =
    (if k = t then map_option (\<lambda>r. r\<lparr>plan := p\<rparr>) (get_tenant t (tdb (api s))) else get_tenant k (tdb (api s)))"
proof (cases "get_tenant t (tdb (api s)) = None")
  case True
  then show ?thesis by (auto simp: set_plan_def)
next
  case False
  have f: "find (\<lambda>r. tenant_key r = k) (update_where (\<lambda>r. tenant_key r = t) (\<lambda>r. r\<lparr>plan := p\<rparr>) rows) =
    (if k = t then map_option (\<lambda>r. r\<lparr>plan := p\<rparr>) (find (\<lambda>r. tenant_key r = t) rows) else find (\<lambda>r. tenant_key r = k) rows)" for rows
    by (cases "k = t") (simp_all add: find_update_where_same, rule find_update_where_other, simp)
  show ?thesis using False assms f [of "tenants_of s"] by (cases "k = t") (simp_all add: set_plan_def get_tenant_def)
qed

lemma set_plan_frame [simp]:
  "con_up (set_plan t p st s) = con_up s" "plans (set_plan t p st s) = plans s"
  "stripe_customer (set_plan t p st s) = stripe_customer s"
  by (simp_all add: set_plan_def)

section \<open>The catalogue of plans\<close>

definition catalogue_ok :: "console \<Rightarrow> bool" where
  "catalogue_ok s = distinct (map pl_id (plans s))"

lemma put_plan_ids: "map pl_id (put_plan p ps) =
    (if pl_id p \<in> set (map pl_id ps) then map pl_id ps else map pl_id ps @ [pl_id p])"
proof -
  have "map pl_id (update_where (\<lambda>q. pl_id q = pl_id p) (\<lambda>_. p) ps) = map pl_id ps" by (induction ps) auto
  then show ?thesis unfolding put_plan_def list_ex_iff by (simp add: image_iff) metis
qed

lemma find_put_plan: "find (\<lambda>q. pl_id q = k) (put_plan p ps) =
    (if k = pl_id p then Some p else find (\<lambda>q. pl_id q = k) ps)"
proof (cases "k = pl_id p")
  case True
  have "list_ex (\<lambda>q. pl_id q = pl_id p) ps \<Longrightarrow> find (\<lambda>q. pl_id q = pl_id p) (update_where (\<lambda>q. pl_id q = pl_id p) (\<lambda>_. p) ps) = Some p"
    by (induction ps) auto
  moreover have "\<not> list_ex (\<lambda>q. pl_id q = pl_id p) ps \<Longrightarrow> find (\<lambda>q. pl_id q = pl_id p) ps = None"
    by (auto simp: find_None_iff list_ex_iff)
  ultimately show ?thesis using True by (simp add: put_plan_def find_append)
next
  case False
  have "find (\<lambda>q. pl_id q = k) (update_where (\<lambda>q. pl_id q = pl_id p) (\<lambda>_. p) ps) = find (\<lambda>q. pl_id q = k) ps"
    by (rule find_update_where_other) (use False in auto)
  with False show ?thesis by (simp add: put_plan_def find_append split: option.splits)
qed

text \<open>Saving a plan is the only change it makes to the catalogue: identifiers stay unique, the plan
  saved is the one the catalogue now has under its identifier, with the missing numbers read as zero
  (unlimited), every other plan is as before, and a tenant on that plan has the new limits at once.\<close>

theorem upsert_plan_effective:
  assumes "catalogue_ok s" "upsert_plan auth b s = (Inr shown, s')"
  shows "catalogue_ok s' \<and> shown = plan_json (plan_of_body b)
    \<and> (\<forall>k. get_plan k s' = (if k = pb_id b then Some (Some (plan_of_body b)) else get_plan k s))
    \<and> (\<forall>t row. get_tenant t (tdb (api s)) = Some row \<and> plan row = pb_id b \<longrightarrow> tenant_plan t s' = Some (plan_of_body b))"
proof (intro conjI allI impI)
  have up: "con_up s" and s': "s' = s\<lparr>plans := put_plan (plan_of_body b) (plans s)\<rparr>"
    and v: "shown = plan_json (plan_of_body b)"
    using assms(2) by (auto simp: upsert_plan_def get_plan_def find_put_plan Let_def plan_of_body_def split: sum.splits if_splits)
  have id: "pl_id (plan_of_body b) = pb_id b" by (simp add: plan_of_body_def)
  show "catalogue_ok s'" using assms(1) by (auto simp: catalogue_ok_def s' put_plan_ids)
  show "shown = plan_json (plan_of_body b)" by (rule v)
  show g: "get_plan k s' = (if k = pb_id b then Some (Some (plan_of_body b)) else get_plan k s)" for k
    using up by (simp add: get_plan_def s' find_put_plan id)
  show "tenant_plan t s' = Some (plan_of_body b)" if "get_tenant t (tdb (api s)) = Some row \<and> plan row = pb_id b" for t row
    using that up g [of "plan row"] by (simp add: tenant_plan_def s')
qed


section \<open>The Stripe webhook\<close>

lemma no_subscription: "subscription_of (JObj []) = None"
proof -
  have "index_key (JObj []) k = JNull" for k by (simp add: index_key_def get_key_def)
  then show ?thesis by (simp add: subscription_of_def starts_with_def Let_def)
qed

lemma webhook_names_subscription:
  assumes "stripe_webhook e header raw s = (r, s')" "s' \<noteq> s" "signature_ok e header raw"
  obtains ev t st where "read_json e raw = Some ev" "subscription_of ev = Some (t, st)"
    "s' = set_plan t (if st \<in> {''active'', ''trialing''} then ''pro'' else ''free'') st s"
proof (cases "read_json e raw")
  case None
  with assms show ?thesis by (simp add: stripe_webhook_def no_subscription)
next
  case (Some ev)
  show ?thesis
  proof (cases "subscription_of ev")
    case None
    with Some assms show ?thesis by (simp add: stripe_webhook_def)
  next
    case named: (Some p)
    with Some assms that [of ev "fst p" "snd p"] show ?thesis by (cases p) (simp add: stripe_webhook_def)
  qed
qed


text \<open>Without a configured secret there is no check at all: a request with no signature that names
  a tenant and calls its subscription active puts that tenant on the paid plan.\<close>

theorem unsigned_webhook_upgrades:
  assumes "var (bill_vars e) ''STRIPE_WEBHOOK_SECRET'' \<in> {None, Some []}" "con_up s"
    and "read_json e raw = Some ev" "subscription_of ev = Some (t, ''active'')"
    and "get_tenant t (tdb (api s)) = Some row" "find (\<lambda>p. pl_id p = ''pro'') (plans s) = Some paid"
  shows "fst (stripe_webhook e None raw s) = Inr () \<and> tenant_plan t (snd (stripe_webhook e None raw s)) = Some paid"
proof (rule conjI)
  have run: "stripe_webhook e None raw s = (Inr (), set_plan t ''pro'' ''active'' s)"
    using assms(1,3,4) by (auto simp: stripe_webhook_def signature_ok_def)
  show "fst (stripe_webhook e None raw s) = Inr ()" by (simp add: run)
  show "tenant_plan t (snd (stripe_webhook e None raw s)) = Some paid"
    using assms(2,5,6) by (simp add: run tenant_plan_def set_plan_get_tenant get_plan_def)
qed


section \<open>Concrete states\<close>

definition pro_plan :: plan_row where
  "pro_plan = \<lparr>pl_id = ''pro'', pl_name = ''Pro'', pl_seats = 25, pl_document_cap = 5000, pl_budget = 500,
     pl_price = None, pl_features = JArr [], pl_active = True\<rparr>"

definition root_user :: user where
  "root_user = \<lparr>user_key = 2, user_tenant = 5, email = ''root@x.io'', user_name = None, role = ''owner'',
     password_hash = Some ''secret123'', status = ''active'', platform_role = ''super_admin''\<rparr>"

definition root_auth :: "api_error + authed_user" where
  "root_auth = Inr \<lparr>auth_user = 2, auth_tenant = 5, auth_role = ''owner'', auth_session = 4\<rparr>"

definition console_start :: console where
  "console_start = \<lparr>api = start_state\<lparr>tdb := empty_db\<lparr>tenants := [\<lparr>tenant_key = 5, tenant_kind = ''org'',
       tenant_name = ''Lab'', plan = ''free'', suspended = False\<rparr>], users := [root_user], fresh := 6\<rparr>, uuids := 10\<rparr>,
     key_rows = [], plans = [free_plan, pro_plan], plan_status = (\<lambda>_. ''active''), stripe_customer = (\<lambda>_. None), con_up = True\<rparr>"

definition paid_event :: json where
  "paid_event = JObj [(''type'', JStr ''customer.subscription.updated''), (''data'', JObj [(''object'',
     JObj [(''metadata'', JObj [(''tenantId'', JStr ''5'')]), (''status'', JStr ''active'')])])]"

definition plain_billing :: billing_env where
  "plain_billing = \<lparr>bill_vars = \<lparr>var = (\<lambda>_. None), parse_f64 = (\<lambda>_. None)\<rparr>, stripe_post = (\<lambda>_ _ _. None), stripe_invoices = (\<lambda>_ _. None),
     hmac_sha256_hex = (\<lambda>k m. k @ m), read_json = (\<lambda>_. Some paid_event)\<rparr>"

definition signed_billing :: billing_env where
  "signed_billing = plain_billing\<lparr>bill_vars := \<lparr>var = (\<lambda>k. if k = ''STRIPE_WEBHOOK_SECRET'' then Some ''w'' else None), parse_f64 = (\<lambda>_. None)\<rparr>\<rparr>"

lemma paid_subscription: "subscription_of paid_event = Some (5, ''active'')"
  by code_simp

lemma console_tenant: "get_tenant 5 (tdb (api console_start)) = Some \<lparr>tenant_key = 5, tenant_kind = ''org'',
       tenant_name = ''Lab'', plan = ''free'', suspended = False\<rparr>"
  by (simp add: console_start_def get_tenant_def)

theorem unsigned_webhook_upgrades_witness:
  "tenant_plan 5 console_start = Some free_plan
    \<and> tenant_plan 5 (snd (stripe_webhook plain_billing None ''{}'' console_start)) = Some pro_plan"
proof -
  have a: "var (bill_vars plain_billing) ''STRIPE_WEBHOOK_SECRET'' \<in> {None, Some []}" "con_up console_start"
    "read_json plain_billing ''{}'' = Some paid_event"
    "find (\<lambda>p. pl_id p = ''pro'') (plans console_start) = Some pro_plan"
    by (simp_all add: plain_billing_def console_start_def free_plan_def pro_plan_def)
  have "tenant_plan 5 console_start = Some free_plan"
    using a(2) console_tenant by (simp add: tenant_plan_def get_plan_def) (simp add: console_start_def free_plan_def)
  with unsigned_webhook_upgrades [OF a(1-3) paid_subscription console_tenant a(4)] show ?thesis by blast
qed


theorem upsert_plan_effective_witness:
  "\<exists>shown s'. upsert_plan root_auth \<lparr>pb_id = ''free'', pb_name = ''Free'', pb_seats = Some 5, pb_document_cap = None,
      pb_budget = None, pb_price = None, pb_features = None, pb_active = None\<rparr> console_start = (Inr shown, s')
    \<and> map_option pl_seats (tenant_plan 5 s') = Some 5 \<and> map_option pl_document_cap (tenant_plan 5 s') = Some 0 \<and> catalogue_ok s'"
proof -
  let ?b = "\<lparr>pb_id = ''free'', pb_name = ''Free'', pb_seats = Some 5, pb_document_cap = None,
      pb_budget = None, pb_price = None, pb_features = None, pb_active = None\<rparr>"
  have ok: "catalogue_ok console_start" by (simp add: catalogue_ok_def console_start_def free_plan_def pro_plan_def)
  have "require_super console_start root_auth = root_auth"
    by (simp add: require_super_def require_super_admin_def root_auth_def get_platform_role_def get_user_def console_start_def root_user_def)
  moreover have "trim ''free'' \<noteq> []" by code_simp
  ultimately obtain shown s' where run: "upsert_plan root_auth ?b console_start = (Inr shown, s')"
    by (simp add: upsert_plan_def root_auth_def get_plan_def find_put_plan plan_of_body_def console_start_def Let_def)
  show ?thesis
    using run upsert_plan_effective [OF ok run] console_tenant by (auto simp: plan_of_body_def)
qed

end
