(* ===== verification/Members.thy ===== *)
theory Members
  imports Orgs
begin

text \<open>
  Users and API keys of a workspace: \<open>insight-api/src/routes/users.rs\<close>, \<open>routes/api_keys.rs\<close>, the
  directory listing of \<open>insight-core/src/tenancy.rs\<close> and the generators of \<open>security.rs\<close>. SHA-256 is
  a parameter from strings to bytes. A handler takes the result of its extractor. A random identifier is
  drawn from the supply \<open>uuids\<close>; its \<open>simple\<close> form is its 32 hexadecimal digits.
\<close>

section \<open>Generators\<close>

definition hex_digit :: "nat \<Rightarrow> char" where
  "hex_digit d = (if d < 10 then char_of (48 + d) else char_of (87 + d))"

definition hex :: "nat list \<Rightarrow> string" where
  "hex bytes = concat (map (\<lambda>b. [hex_digit (b div 16), hex_digit (b mod 16)]) bytes)"

definition sha256_hex :: "(string \<Rightarrow> nat list) \<Rightarrow> string \<Rightarrow> string" where
  "sha256_hex digest input = hex (digest input)"

definition uuid_bytes :: "uuid \<Rightarrow> nat list" where
  "uuid_bytes k = map (\<lambda>i. k div 256 ^ (15 - i) mod 256) [0..<16]"

definition simple_uuid :: "uuid \<Rightarrow> string" where
  "simple_uuid k = hex (uuid_bytes k)"

record new_api_key =
  nk_plaintext :: string
  nk_hash :: string
  nk_hint :: string

definition last_chars :: "nat \<Rightarrow> string \<Rightarrow> string" where
  "last_chars n s = rev (take n (rev s))"

definition generate_api_key :: "(string \<Rightarrow> nat list) \<Rightarrow> api_state \<Rightarrow> new_api_key \<times> api_state" where
  "generate_api_key digest s =
     (let (a, s) = new_uuid s; (b, s) = new_uuid s;
          plaintext = ''sk_live_'' @ simple_uuid a @ simple_uuid b
      in (\<lparr>nk_plaintext = plaintext, nk_hash = sha256_hex digest plaintext, nk_hint = last_chars 4 plaintext\<rparr>, s))"

definition temp_password :: "api_state \<Rightarrow> string \<times> api_state" where
  "temp_password s =
     (let (a, s) = new_uuid s; (b, s) = new_uuid s
      in (''Il-'' @ take 10 (simple_uuid a) @ take 6 (simple_uuid b), s))"

section \<open>API keys\<close>

definition list_api_keys :: "uuid \<Rightarrow> console \<Rightarrow> api_error + key_row list" where
  "list_api_keys t s = (if \<not> con_up s then Inl internal
     else Inr (rev (filter (\<lambda>k. kr_tenant k = t \<and> \<not> kr_revoked k) (key_rows s))))"

record created_key =
  ck_id :: uuid
  ck_name :: string
  ck_token :: string
  ck_hint :: string

text \<open>Both tables have a unique index on the hash; the transaction fails when either is hit.\<close>

definition insert_key :: "uuid \<Rightarrow> string \<Rightarrow> new_api_key \<Rightarrow> console \<Rightarrow> uuid option \<times> console" where
  "insert_key t nm k s =
     (if \<not> con_up s \<or> list_ex (\<lambda>r. kr_hash r = nk_hash k) (key_rows s)
         \<or> list_ex (\<lambda>r. key_hash r = nk_hash k) (api_keys (api s)) then (None, s)
      else let (n, a) = new_uuid (api s)
        in (Some n, s\<lparr>key_rows := key_rows s @ [\<lparr>kr_id = n, kr_tenant = t, kr_hash = nk_hash k, kr_name = nm,
                  kr_hint = nk_hint k, kr_revoked = False\<rparr>],
              api := a\<lparr>api_keys := api_keys a @ [\<lparr>key_hash = nk_hash k, key_id = n, key_tenant = t,
                  key_role = ''editor'', key_revoked = False\<rparr>]\<rparr>\<rparr>))"

definition create_api_key :: "(string \<Rightarrow> nat list) \<Rightarrow> api_error + authed_user \<Rightarrow> string option \<Rightarrow> console
    \<Rightarrow> (api_error + created_key) \<times> console" where
  "create_api_key digest auth nm s =
     (case require_admin auth of Inl e \<Rightarrow> (Inl e, s) | Inr user \<Rightarrow>
       let nm = take 60 (case nm of None \<Rightarrow> ''API Key'' | Some x \<Rightarrow> x);
           (k, a) = generate_api_key digest (api s)
       in case insert_key (auth_tenant user) nm k (s\<lparr>api := a\<rparr>) of
            (None, s) \<Rightarrow> (Inl internal, s)
          | (Some n, s) \<Rightarrow> (Inr \<lparr>ck_id = n, ck_name = nm, ck_token = nk_plaintext k, ck_hint = nk_hint k\<rparr>, s))"

definition delete_api_key :: "api_error + authed_user \<Rightarrow> uuid \<Rightarrow> console \<Rightarrow> (api_error + unit) \<times> console" where
  "delete_api_key auth k s =
     (case require_admin auth of Inl e \<Rightarrow> (Inl e, s) | Inr user \<Rightarrow>
       if \<not> con_up s then (Inl internal, s)
       else (Inr (), s\<lparr>key_rows := filter (\<lambda>r. \<not> (kr_id r = k \<and> kr_tenant r = auth_tenant user)) (key_rows s),
              api := (api s)\<lparr>api_keys := filter (\<lambda>r. \<not> (key_id r = k \<and> key_tenant r = auth_tenant user))
                 (api_keys (api s))\<rparr>\<rparr>))"

section \<open>The directory\<close>

definition to_upper :: "char \<Rightarrow> string" where
  "to_upper c = (let n = code_of c in if n = 223 then ''SS''
     else if (97 \<le> n \<and> n \<le> 122) \<or> (224 \<le> n \<and> n \<le> 254 \<and> n \<noteq> 247) then [char_of (n - 32)] else [c])"

definition initials :: "string option \<Rightarrow> string \<Rightarrow> string" where
  "initials nm mail =
     (let source = (case nm of None \<Rightarrow> mail | Some n \<Rightarrow> if trim n = [] then mail else n);
          parts = split_whitespace source;
          letters = (if 2 \<le> length parts then take 1 (parts ! 0) @ take 1 (parts ! 1) else take 2 source)
      in concat (map to_upper letters))"

definition utf8 :: "char \<Rightarrow> nat list" where
  "utf8 c = (let n = code_of c in if n < 128 then [n] else [192 + n div 64, 128 + n mod 64])"

definition upper_hex :: "nat \<Rightarrow> char" where
  "upper_hex d = (if d < 10 then char_of (48 + d) else char_of (55 + d))"

definition encode_byte :: "nat \<Rightarrow> string" where
  "encode_byte b = (if (65 \<le> b \<and> b \<le> 90) \<or> (97 \<le> b \<and> b \<le> 122) \<or> (48 \<le> b \<and> b \<le> 57) \<or> b \<in> {45, 95, 46, 126}
     then [char_of b] else [CHR ''%'', upper_hex (b div 16), upper_hex (b mod 16)])"

definition urlencode :: "string \<Rightarrow> string" where
  "urlencode s = concat (map encode_byte (concat (map utf8 s)))"

definition web_origin :: "environment \<Rightarrow> string list \<Rightarrow> string" where
  "web_origin env cors = (case var env ''WEB_ORIGIN'' of Some v \<Rightarrow> v
     | None \<Rightarrow> (case find (\<lambda>origin. starts_with origin ''https://'') cors of Some v \<Rightarrow> v
        | None \<Rightarrow> (case cors of [] \<Rightarrow> [] | v # _ \<Rightarrow> v)))"

definition invite_url :: "string \<Rightarrow> string \<Rightarrow> string" where
  "invite_url base mail = base @ ''/login?email='' @ urlencode mail"

record directory_user =
  du_id :: uuid
  du_name :: "string option"
  du_email :: string
  du_role :: string
  du_status :: string
  du_login :: bool
  du_active :: "int option"

definition last_active :: "uuid \<Rightarrow> uuid \<Rightarrow> tenancy_db \<Rightarrow> int option" where
  "last_active t u db =
     (case map last_seen_at (filter (\<lambda>r. session_tenant r = t \<and> session_user r = u \<and> revoked_at r = None) (sessions db)) of
        [] \<Rightarrow> None | x # xs \<Rightarrow> Some (fold max xs x))"

text \<open>\<open>collate\<close> is the database's rank of strings; rows without a name come last.\<close>

definition list_directory :: "(string \<Rightarrow> nat) \<Rightarrow> uuid \<Rightarrow> tenancy_db \<Rightarrow> directory_user list" where
  "list_directory collate t db = map (\<lambda>u. \<lparr>du_id = user_key u, du_name = user_name u, du_email = email u,
       du_role = normalize_role (role u), du_status = status u, du_login = (password_hash u \<noteq> None),
       du_active = last_active t (user_key u) db\<rparr>)
     (sort_key (\<lambda>u. case user_name u of Some _ \<Rightarrow> 0 | None \<Rightarrow> (1::nat))
       (sort_key (\<lambda>u. case user_name u of Some n \<Rightarrow> collate n | None \<Rightarrow> 0)
         (sort_key (\<lambda>u. collate (email u)) (filter (\<lambda>u. user_tenant u = t) (users db)))))"

record invitation_item =
  ii_row :: invitation
  ii_status :: string
  ii_url :: string

definition invitation_item_of :: "string \<Rightarrow> int \<Rightarrow> invitation \<Rightarrow> invitation_item" where
  "invitation_item_of base now i = \<lparr>ii_row = i, ii_status = (if invite_expires i < now then ''expired'' else ''pending''),
     ii_url = invite_url base (invite_email i)\<rparr>"

definition list_users :: "(string \<Rightarrow> nat) \<Rightarrow> string \<Rightarrow> api_error + authed_user \<Rightarrow> console
    \<Rightarrow> api_error + (directory_user list \<times> string list \<times> invitation_item list)" where
  "list_users collate base auth s = (case require_admin auth of Inl e \<Rightarrow> Inl e | Inr user \<Rightarrow>
     if \<not> con_up s then Inl internal
     else let db = tdb (api s); items = list_directory collate (auth_tenant user) db
       in Inr (items, map (\<lambda>u. initials (du_name u) (du_email u)) items,
            map (invitation_item_of base (db_now db)) (list_invitations (auth_tenant user) db)))"

section \<open>Invitations and administration\<close>

definition INVITE_TTL_SECS :: int where "INVITE_TTL_SECS = 72 * 60 * 60"

datatype users_action = Invite string "string option" | RevokeInvite uuid

definition on_api :: "(api_state \<Rightarrow> 'a \<times> api_state) \<Rightarrow> console \<Rightarrow> 'a \<times> console" where
  "on_api f s = (case f (api s) of (x, a) \<Rightarrow> (x, s\<lparr>api := a\<rparr>))"

definition invite_handler :: "string \<Rightarrow> authed_user \<Rightarrow> string \<Rightarrow> string option \<Rightarrow> console
    \<Rightarrow> (api_error + invitation_item) \<times> console" where
  "invite_handler base user mail rl s =
     (let mail = lowercase (trim mail)
      in if CHR ''@'' \<notin> set mail then (Inl bad_request, s)
         else case check_seat (auth_tenant user) s of
             None \<Rightarrow> (Inl internal, s)
           | Some (Some _) \<Rightarrow> (Inl payment_required, s)
           | Some None \<Rightarrow>
              (case on_api (on_db (create_invitation (auth_tenant user) mail (case rl of None \<Rightarrow> ''viewer'' | Some r \<Rightarrow> r)
                      (auth_user user) INVITE_TTL_SECS)) s of
                 (i, s) \<Rightarrow> (Inr \<lparr>ii_row = i, ii_status = ''pending'', ii_url = invite_url base (invite_email i)\<rparr>, s)))"

definition users_action_handler :: "string \<Rightarrow> api_error + authed_user \<Rightarrow> users_action \<Rightarrow> console
    \<Rightarrow> (api_error + invitation_item option) \<times> console" where
  "users_action_handler base auth act s =
     (case require_admin auth of Inl e \<Rightarrow> (Inl e, s) | Inr user \<Rightarrow>
       case act of
         Invite mail rl \<Rightarrow> (case invite_handler base user mail rl s of (r, s) \<Rightarrow> (map_sum id Some r, s))
       | RevokeInvite k \<Rightarrow>
           if \<not> con_up s then (Inl internal, s)
           else (case on_api (on_db (cancel_invitation (auth_tenant user) k)) s of
               (found, s) \<Rightarrow> if \<not> found then (Inl not_found, s) else (Inr None, s)))"

definition kill_sessions :: "uuid \<Rightarrow> uuid \<Rightarrow> api_state \<Rightarrow> nat \<times> api_state" where
  "kill_sessions t u s = (case on_db (revoke_other_sessions t u None) s of (js, s) \<Rightarrow> (length js, revoke_all js s))"

definition update_user_handler :: "api_error + authed_user \<Rightarrow> uuid \<Rightarrow> string option \<Rightarrow> string option \<Rightarrow> console
    \<Rightarrow> (api_error + string \<times> string) \<times> console" where
  "update_user_handler auth k rl st s =
     (case require_admin auth of Inl e \<Rightarrow> (Inl e, s) | Inr admin \<Rightarrow>
       if rl = None \<and> st = None then (Inl bad_request, s)
       else if st \<notin> {None, Some ''active'', Some ''suspended''} then (Inl bad_request, s)
       else if \<not> con_up s then (Inl internal, s)
       else case on_api (on_db (update_user (auth_tenant admin) k rl st)) s of
           (None, s) \<Rightarrow> (Inl not_found, s)
         | (Some r, s) \<Rightarrow> (Inr r, if st = Some ''suspended''
              then snd (on_api (kill_sessions (auth_tenant admin) k) s) else s))"

datatype user_action = ResetPassword | RevokeSessions

datatype user_reply = TempPassword string | Revoked nat

definition user_id_action :: "hash_fn \<Rightarrow> nat \<Rightarrow> api_error + authed_user \<Rightarrow> uuid \<Rightarrow> user_action \<Rightarrow> console
    \<Rightarrow> (api_error + user_reply) \<times> console" where
  "user_id_action hash_pw salt auth k act s =
     (case require_admin auth of Inl e \<Rightarrow> (Inl e, s) | Inr admin \<Rightarrow>
       case act of
         ResetPassword \<Rightarrow>
           (case on_api temp_password s of (temp, s) \<Rightarrow>
             if \<not> con_up s then (Inl internal, s)
             else case on_api (on_db (set_user_password hash_pw salt (auth_tenant admin) k temp)) s of
                 (None, s) \<Rightarrow> (Inl internal, s)
               | (Some False, s) \<Rightarrow> (Inl not_found, s)
               | (Some True, s) \<Rightarrow> (Inr (TempPassword temp), snd (on_api (kill_sessions (auth_tenant admin) k) s)))
       | RevokeSessions \<Rightarrow>
           if \<not> con_up s then (Inl internal, s)
           else (case on_api (kill_sessions (auth_tenant admin) k) s of (n, s) \<Rightarrow> (Inr (Revoked n), s)))"


section \<open>API keys: facts\<close>

lemma hex_digit_black: "d < 16 \<Longrightarrow> \<not> is_whitespace (hex_digit d)"
  by (simp add: hex_digit_def is_whitespace_def code_of_char_of Let_def)

lemma hex_black: "\<forall>b \<in> set bytes. b < 256 \<Longrightarrow> \<forall>c \<in> set (hex bytes). \<not> is_whitespace c"
  using hex_digit_black by (auto simp: hex_def less_mult_imp_div_less)

lemma simple_uuid_black: "c \<in> set (simple_uuid k) \<Longrightarrow> \<not> is_whitespace c"
  using hex_black [of "uuid_bytes k"] by (simp add: simple_uuid_def uuid_bytes_def)

lemma hex_length: "length (hex bytes) = 2 * length bytes"
  by (induction bytes) (simp_all add: hex_def)

lemma trim_black: "\<forall>c \<in> set s. \<not> is_whitespace c \<Longrightarrow> trim s = s"
proof -
  assume "\<forall>c \<in> set s. \<not> is_whitespace c"
  then have "dropWhile is_whitespace s = s" "dropWhile is_whitespace (rev s) = rev s"
    unfolding dropWhile_eq_self_iff by (metis hd_in_set, metis hd_in_set set_rev)
  then show ?thesis by (simp add: trim_def trim_start_def trim_end_def)
qed

lemma create_api_key_Inr:
  assumes "create_api_key digest auth nm s = (Inr ck, s')"
  obtains user where "require_admin auth = Inr user" "trim (ck_token ck) = ck_token ck" "con_up s'"
    "\<forall>r \<in> set (api_keys (api s)). key_hash r \<noteq> sha256_hex digest (ck_token ck)"
    "api_keys (api s') = api_keys (api s) @ [\<lparr>key_hash = sha256_hex digest (ck_token ck), key_id = ck_id ck,
       key_tenant = auth_tenant user, key_role = ''editor'', key_revoked = False\<rparr>]"
proof -
  obtain user where user: "require_admin auth = Inr user"
    using assms by (auto simp: create_api_key_def split: sum.splits)
  let ?t = "''sk_live_'' @ simple_uuid (uuids (api s)) @ simple_uuid (uuids (api s) + 1)"
  have "\<forall>c \<in> set ?t. \<not> is_whitespace c"
    using simple_uuid_black by (auto simp: is_whitespace_def code_of_def)
  then have "trim ?t = ?t" by (rule trim_black)
  moreover have "ck_token ck = ?t"
    using assms user by (auto simp: create_api_key_def generate_api_key_def new_uuid_def insert_key_def Let_def split: if_splits)
  ultimately have "trim (ck_token ck) = ck_token ck" by simp
  moreover have "con_up s'" "\<forall>r \<in> set (api_keys (api s)). key_hash r \<noteq> sha256_hex digest (ck_token ck)"
    "api_keys (api s') = api_keys (api s) @ [\<lparr>key_hash = sha256_hex digest (ck_token ck), key_id = ck_id ck,
       key_tenant = auth_tenant user, key_role = ''editor'', key_revoked = False\<rparr>]"
    using assms user by (auto simp: create_api_key_def generate_api_key_def new_uuid_def insert_key_def Let_def list_ex_iff split: if_splits)
  ultimately show ?thesis using that user by blast
qed

definition caller :: "jwt_library \<Rightarrow> (string \<Rightarrow> nat list) \<Rightarrow> api_config \<Rightarrow> request \<Rightarrow> console \<Rightarrow> api_error + authed_user" where
  "caller jwt digest cfg req s = authed_user_from jwt (sha256_hex digest) cfg None req (api s)"

text \<open>C35. Round trip of an API key: the token that its creation shows once authenticates as an editor
  of the administrator's workspace (never as one who may manage keys); deleting the key by the identifier shown
  with it refuses the token from then on; and neither step changes what any other token authenticates as.\<close>

theorem api_key_round_trip:
  assumes "create_api_key digest auth nm s = (Inr ck, s1)" "require_admin auth = Inr admin"
    and "delete_api_key auth (ck_id ck) s1 = (r, s2)" "\<forall>k \<in> set (api_keys (api s)). key_id k < uuids (api s)"
    and "x_api_key req = Some token"
  shows "(token = ck_token ck \<longrightarrow> caller jwt digest cfg req s1 = Inr \<lparr>auth_user = 0, auth_tenant = auth_tenant admin, auth_role = ''editor'', auth_session = 0\<rparr>
        \<and> require_admin (caller jwt digest cfg req s1) = Inl forbidden \<and> caller jwt digest cfg req s2 = Inl unauthorized)
    \<and> (sha256_hex digest (trim token) \<noteq> sha256_hex digest (ck_token ck) \<longrightarrow> caller jwt digest cfg req s1 = caller jwt digest cfg req s \<and> caller jwt digest cfg req s2 = caller jwt digest cfg req s)"
proof -
  obtain user where user: "require_admin auth = Inr user" and t: "trim (ck_token ck) = ck_token ck" and up: "con_up s1"
    and new: "\<forall>k \<in> set (api_keys (api s)). key_hash k \<noteq> sha256_hex digest (ck_token ck)"
    and one: "api_keys (api s1) = api_keys (api s) @ [\<lparr>key_hash = sha256_hex digest (ck_token ck), key_id = ck_id ck,
       key_tenant = auth_tenant user, key_role = ''editor'', key_revoked = False\<rparr>]"
    by (rule create_api_key_Inr [OF assms(1)])
  have id: "uuids (api s) \<le> ck_id ck"
    using assms(1) user by (auto simp: create_api_key_def generate_api_key_def new_uuid_def insert_key_def Let_def split: if_splits)
  then have "filter (\<lambda>k. \<not> (key_id k = ck_id ck \<and> key_tenant k = auth_tenant user)) (api_keys (api s)) = api_keys (api s)"
    using assms(4) by (auto simp: filter_id_conv)
  then have two: "api_keys (api s2) = api_keys (api s)"
    using assms(3) user up by (auto simp: delete_api_key_def one)
  have u: "user = admin" using assms(2) user by simp
  have none: "find (\<lambda>k. key_hash k = sha256_hex digest (ck_token ck) \<and> \<not> key_revoked k) (api_keys (api s)) = None"
    using new by (auto simp: find_None_iff)
  have rank: "role_rank ''editor'' < role_rank ''admin''" by code_simp
  show ?thesis
    using assms(5) none rank by (auto simp: caller_def authed_user_from_def one two u t find_append require_admin_def split: option.splits)
qed


section \<open>Sessions of a suspended user\<close>

lemma not_allowlisted_revoke:
  assumes "\<forall>n. link_up (cache_srv s) n"
  shows "\<not> allowlisted (snd (revoke_refresh j s)) j" "\<forall>n. link_up (cache_srv (snd (revoke_refresh j s))) n"
  using assms by (simp_all add: allowlisted_def revoke_refresh_def on_cache_def cache_del_def command_def put_entry_def live_def Let_def)

lemma revoke_all_mono: "allowlisted (revoke_all js s) j \<Longrightarrow> allowlisted s j"
  by (induction js arbitrary: s) (auto dest: allowlisted_revoke)

lemma revoke_all_revokes:
  "\<forall>n. link_up (cache_srv s) n \<Longrightarrow> j \<in> set js \<Longrightarrow> \<not> allowlisted (revoke_all js s) j"
proof (induction js arbitrary: s)
  case (Cons k js)
  note up = not_allowlisted_revoke [OF Cons.prems(1)]
  show ?case
  proof (cases "j = k")
    case True
    then show ?thesis using up(1) revoke_all_mono by auto
  next
    case False
    then show ?thesis using Cons.IH [OF up(2)] Cons.prems(2) by simp
  qed
qed simp

lemma revoke_all_tdb [simp]: "tdb (revoke_all js s) = tdb s" "api_keys (revoke_all js s) = api_keys s"
  by (induction js arbitrary: s) (auto simp: revoke_refresh_def on_cache_def case_prod_beta)

definition no_live_session :: "uuid \<Rightarrow> uuid \<Rightarrow> api_state \<Rightarrow> bool" where
  "no_live_session t u s = (\<forall>x \<in> set (sessions (tdb s)). session_tenant x = t \<and> session_user x = u \<longrightarrow> revoked_at x \<noteq> None)"

lemma kill_sessions_kills:
  assumes "kill_sessions t u s = (n, s')"
  shows "no_live_session t u s'" "users (tdb s') = users (tdb s)" "tenants (tdb s') = tenants (tdb s)"
    and "\<lbrakk>\<forall>n. link_up (cache_srv s) n; x \<in> set (sessions (tdb s)); session_tenant x = t; session_user x = u; revoked_at x = None\<rbrakk>
      \<Longrightarrow> \<not> allowlisted s' (current_jti x)"
proof -
  obtain js s1 where on: "on_db (revoke_other_sessions t u None) s = (js, s1)" by (meson surj_pair)
  then have s': "s' = revoke_all js s1" using assms by (simp add: kill_sessions_def)
  let ?hit = "\<lambda>r. session_tenant r = t \<and> session_user r = u \<and> revoked_at r = None"
  have se: "sessions (tdb s') = update_where ?hit (\<lambda>r. r\<lparr>revoked_at := Some (db_now (tdb s))\<rparr>) (sessions (tdb s))"
    using on by (auto simp: s' on_db_def revoke_other_sessions_def Let_def)
  show "no_live_session t u s'"
    unfolding no_live_session_def se
  proof (intro ballI impI)
    fix x assume x: "x \<in> set (update_where ?hit (\<lambda>r. r\<lparr>revoked_at := Some (db_now (tdb s))\<rparr>) (sessions (tdb s)))"
      and mine: "session_tenant x = t \<and> session_user x = u"
    obtain r where r: "x = (if ?hit r then r\<lparr>revoked_at := Some (db_now (tdb s))\<rparr> else r)"
      using iffD1 [OF set_update_where x] by blast
    show "revoked_at x \<noteq> None"
    proof (cases "?hit r")
      case True
      then have "x = r\<lparr>revoked_at := Some (db_now (tdb s))\<rparr>" unfolding r by (rule if_P)
      then show ?thesis by simp
    next
      case False
      then have "x = r" unfolding r by (rule if_not_P)
      then show ?thesis using False mine by auto
    qed
  qed
  show "users (tdb s') = users (tdb s)" "tenants (tdb s') = tenants (tdb s)"
    using on by (auto simp: s' on_db_def revoke_other_sessions_def Let_def)
  show "\<not> allowlisted s' (current_jti x)"
    if "\<forall>n. link_up (cache_srv s) n" "x \<in> set (sessions (tdb s))" "session_tenant x = t" "session_user x = u" "revoked_at x = None"
    unfolding s' by (rule revoke_all_revokes) (use on that in \<open>auto simp: on_db_def revoke_other_sessions_def Let_def\<close>)
qed

lemma update_user_suspends:
  assumes "update_user t k rl (Some ''suspended'') db = (Some r, db')"
  shows "map_option status (get_user t k db') = Some ''suspended''" "snd r = ''suspended''" "sessions db' = sessions db"
proof -
  let ?hit = "\<lambda>u. user_tenant u = t \<and> user_key u = k"
  have f: "find ?hit (update_where ?hit (\<lambda>u. u\<lparr>status := ''suspended''\<rparr>) us) = map_option (\<lambda>u. u\<lparr>status := ''suspended''\<rparr>) (find ?hit us)" for us
    by (rule find_update_where_same) simp_all
  define us where "us = (case rl of None \<Rightarrow> users db | Some x \<Rightarrow> update_where ?hit (\<lambda>u. u\<lparr>role := normalize_role x\<rparr>) (users db))"
  have "update_user t k rl (Some ''suspended'') db = (map_option (\<lambda>u. (role u, ''suspended'')) (find ?hit us),
      db\<lparr>users := update_where ?hit (\<lambda>u. u\<lparr>status := ''suspended''\<rparr>) us\<rparr>)"
    unfolding update_user_def us_def [symmetric] Let_def option.case f by (simp add: option.map_comp comp_def)
  with assms have r: "map_option (\<lambda>u. (role u, ''suspended'')) (find ?hit us) = Some r"
    and db': "db' = db\<lparr>users := update_where ?hit (\<lambda>u. u\<lparr>status := ''suspended''\<rparr>) us\<rparr>" by simp_all
  then show "map_option status (get_user t k db') = Some ''suspended''" "snd r = ''suspended''" "sessions db' = sessions db"
    by (auto simp: get_user_def f)
qed

lemma update_user_handler_suspends:
  assumes "update_user_handler auth k rl (Some ''suspended'') s = (Inr r, s')" "require_admin auth = Inr admin"
  obtains db n where "update_user (auth_tenant admin) k rl (Some ''suspended'') (tdb (api s)) = (Some r, db)"
    "kill_sessions (auth_tenant admin) k ((api s)\<lparr>tdb := db\<rparr>) = (n, api s')"
proof -
  obtain x db where x: "update_user (auth_tenant admin) k rl (Some ''suspended'') (tdb (api s)) = (x, db)" by (meson surj_pair)
  obtain n a where n: "kill_sessions (auth_tenant admin) k ((api s)\<lparr>tdb := db\<rparr>) = (n, a)" by (meson surj_pair)
  have st: "Some ''suspended'' \<in> {None, Some ''active'', Some ''suspended''}" by simp
  have on: "on_api (on_db (update_user (auth_tenant admin) k rl (Some ''suspended''))) s = (x, s\<lparr>api := (api s)\<lparr>tdb := db\<rparr>\<rparr>)"
    by (simp add: on_api_def on_db_def x)
  have ks: "snd (on_api (kill_sessions (auth_tenant admin) k) (s\<lparr>api := (api s)\<lparr>tdb := db\<rparr>\<rparr>)) = s\<lparr>api := a\<rparr>"
    by (simp add: on_api_def n)
  from assms(1) have "x = Some r \<and> api s' = a"
    by (cases x) (auto simp: update_user_handler_def assms(2) on ks split: if_splits)
  with x n that show ?thesis by simp
qed

text \<open>Suspending a user takes effect at once on what the user already holds (with a reachable
  cache): the account is marked, no device session of the user stays live, and none of the refresh tokens
  that the live sessions had is on the allowlist.\<close>

theorem suspension_kills_sessions:
  assumes "update_user_handler auth k rl (Some ''suspended'') s = (Inr r, s')" "require_admin auth = Inr admin"
    and "\<forall>n. link_up (cache_srv (api s)) n"
  shows "snd r = ''suspended'' \<and> map_option status (get_user (auth_tenant admin) k (tdb (api s'))) = Some ''suspended''
    \<and> no_live_session (auth_tenant admin) k (api s')
    \<and> (\<forall>x \<in> set (sessions (tdb (api s))). session_tenant x = auth_tenant admin \<and> session_user x = k \<and> revoked_at x = None
        \<longrightarrow> \<not> allowlisted (api s') (current_jti x))"
proof -
  obtain db n where upd: "update_user (auth_tenant admin) k rl (Some ''suspended'') (tdb (api s)) = (Some r, db)"
    and kill: "kill_sessions (auth_tenant admin) k ((api s)\<lparr>tdb := db\<rparr>) = (n, api s')"
    by (rule update_user_handler_suspends [OF assms(1,2)])
  note marked = update_user_suspends [OF upd]
  from kill_sessions_kills [OF kill] assms(3) marked show ?thesis by (simp add: get_user_def)
qed


section \<open>Resetting a password\<close>

lemma find_unique: "x \<in> set xs \<Longrightarrow> P x \<Longrightarrow> (\<And>y. y \<in> set xs \<Longrightarrow> P y \<Longrightarrow> y = x) \<Longrightarrow> find P xs = Some x"
proof (cases "find P xs")
  case None
  assume "x \<in> set xs" "P x"
  with None show ?thesis by (auto simp: find_None_iff)
next
  case (Some y)
  assume only: "\<And>y. y \<in> set xs \<Longrightarrow> P y \<Longrightarrow> y = x"
  from Some have "y \<in> set xs" "P y" by (auto simp: find_Some_iff)
  with only Some show ?thesis by blast
qed

lemma set_user_password_fetch:
  assumes "set_user_password hash_pw salt t k pw db = (Some True, db')" "get_user t k db = Some u"
    and "distinct (map user_key (users db))" "email u = lowercase (email u)"
  shows "fetch_user_for_auth (email u) db' = Some (u\<lparr>password_hash := Some (hash_pw salt pw)\<rparr>, Some (hash_pw salt pw))"
    and "tenants db' = tenants db" "sessions db' = sessions db"
proof -
  let ?hit = "\<lambda>u. user_tenant u = t \<and> user_key u = k" and ?f = "\<lambda>u. u\<lparr>password_hash := Some (hash_pw salt pw)\<rparr>"
  have db': "db' = db\<lparr>users := update_where ?hit ?f (users db)\<rparr>"
    and free: "\<not> list_ex (\<lambda>u. ?hit u \<and> list_ex (\<lambda>v. user_key v \<noteq> k \<and> password_hash v \<noteq> None \<and> lowercase (email v) = lowercase (email u)) (users db)) (users db)"
    using assms(1) by (auto simp: set_user_password_def Let_def split: if_splits)
  have u: "u \<in> set (users db)" "?hit u" using assms(2) by (auto simp: get_user_def find_Some_iff)
  have in': "?f u \<in> set (update_where ?hit ?f (users db))" unfolding set_update_where
    by (rule bexI [OF _ u(1)]) (rule if_P [symmetric], rule u(2))
  have one: "y = ?f u" if y: "y \<in> set (update_where ?hit ?f (users db))" "email y = email u \<and> password_hash y \<noteq> None" for y
  proof -
    obtain v where v: "v \<in> set (users db)" "y = (if ?hit v then ?f v else v)" using iffD1 [OF set_update_where y(1)] by blast
    show ?thesis
    proof (cases "user_key v = k")
      case True
      then have "v = u" using assms(3) u v(1) by (auto simp: distinct_map dest: inj_onD)
      with u v(2) show ?thesis by simp
    next
      case False
      then have "y = v" using v(2) by simp
      have "\<not> (user_key v \<noteq> k \<and> password_hash v \<noteq> None \<and> lowercase (email v) = lowercase (email u))"
        using free u v(1) unfolding list_ex_iff by blast
      with \<open>y = v\<close> False y(2) show ?thesis by simp
    qed
  qed
  have "find (\<lambda>w. email w = email u \<and> password_hash w \<noteq> None) (update_where ?hit ?f (users db)) = Some (?f u)"
    by (rule find_unique [OF in' _ one]) simp_all
  then show "fetch_user_for_auth (email u) db' = Some (?f u, Some (hash_pw salt pw))" by (simp add: fetch_user_for_auth_def db')
  show "tenants db' = tenants db" "sessions db' = sessions db" by (simp_all add: db')
qed

text \<open>Resetting a password works and ends the old access: the temporary password that the
  administrator is shown signs the user in, no other password does (the old one included), and no device
  session of the user stays live.\<close>

theorem reset_password_signs_in:
  assumes "argon2_ok hash_pw verify_pw" "tenancy_inv (tdb (api s))" "require_admin auth = Inr admin"
    and "user_id_action hash_pw salt auth k ResetPassword s = (Inr (TempPassword temp), s')"
    and "get_user (auth_tenant admin) k (tdb (api s)) = Some u" "clean_email (email u) = email u"
  shows "no_live_session (auth_tenant admin) k (api s')
    \<and> (\<exists>tn. get_tenant (auth_tenant admin) (tdb (api s)) = Some tn \<and> (\<forall>pw. verify_credentials verify_pw (email u) pw (tdb (api s')) =
        Some (if pw = temp then Some \<lparr>id_user = u\<lparr>password_hash := Some (hash_pw salt temp)\<rparr>, id_tenant = tn\<rparr> else None)))"
proof -
  obtain tmp a where tmp: "temp_password (api s) = (tmp, a)" by (meson surj_pair)
  have a: "tdb a = tdb (api s)" using tmp by (auto simp: temp_password_def new_uuid_def Let_def)
  obtain x db where x: "set_user_password hash_pw salt (auth_tenant admin) k tmp (tdb (api s)) = (x, db)" by (meson surj_pair)
  obtain n b where n: "kill_sessions (auth_tenant admin) k (a\<lparr>tdb := db\<rparr>) = (n, b)" by (meson surj_pair)
  have on1: "on_api temp_password s = (tmp, s\<lparr>api := a\<rparr>)" by (simp add: on_api_def tmp)
  have on2: "on_api (on_db (set_user_password hash_pw salt (auth_tenant admin) k tmp)) (s\<lparr>api := a\<rparr>) = (x, s\<lparr>api := a\<lparr>tdb := db\<rparr>\<rparr>)"
    by (simp add: on_api_def on_db_def a x)
  have on3: "snd (on_api (kill_sessions (auth_tenant admin) k) (s\<lparr>api := a\<lparr>tdb := db\<rparr>\<rparr>)) = s\<lparr>api := b\<rparr>" by (simp add: on_api_def n)
  have "x = Some True \<and> tmp = temp \<and> api s' = b"
    using assms(4) by (cases x; cases "the x") (auto simp: user_id_action_def assms(3) on1 on2 on3 split: if_splits)
  then have r: "x = Some True" "tmp = temp" "api s' = b" by simp_all
  have uk: "distinct (map user_key (users (tdb (api s))))" "user_tenant u = auth_tenant admin" "u \<in> set (users (tdb (api s)))"
    using assms(2,5) by (auto simp: tenancy_inv_def users_ok_def get_user_def find_Some_iff)
  have "lowercase (email u) = email u" using assms(6) by (metis clean_email_def lowercase_idem)
  note fetch = set_user_password_fetch [OF x [unfolded r] assms(5) uk(1) this [symmetric]]
  have "auth_tenant admin \<in> tenant_keys (tdb (api s))" using assms(2) uk(2,3) by (auto simp: tenancy_inv_def users_ok_def)
  then obtain tn where tn: "get_tenant (auth_tenant admin) (tdb (api s)) = Some tn"
    by (cases "get_tenant (auth_tenant admin) (tdb (api s))") (auto simp: tenant_keys_def get_tenant_def find_None_iff)
  have same: "users (tdb b) = users db" "tenants (tdb b) = tenants db" using kill_sessions_kills(2,3) [OF n] by simp_all
  have "fetch_user_for_auth (email u) (tdb b) = fetch_user_for_auth (email u) db" "get_tenant (auth_tenant admin) (tdb b) = Some tn"
    using tn fetch(2) by (simp_all add: fetch_user_for_auth_def get_tenant_def same)
  then have "verify_credentials verify_pw (email u) pw (tdb (api s')) =
      Some (if pw = temp then Some \<lparr>id_user = u\<lparr>password_hash := Some (hash_pw salt temp)\<rparr>, id_tenant = tn\<rparr> else None)" for pw
    using assms(1) uk(2) by (simp add: verify_credentials_def assms(6) fetch(1) r(3) argon2_ok_def)
  with kill_sessions_kills(1) [OF n] tn r(3) show ?thesis by blast
qed


section \<open>Seats\<close>

text \<open>One administrator inviting a list of addresses.\<close>

fun invite_all :: "string \<Rightarrow> api_error + authed_user \<Rightarrow> string list \<Rightarrow> console \<Rightarrow> console" where
  "invite_all base auth [] s = s"
| "invite_all base auth (m # ms) s = invite_all base auth ms (snd (users_action_handler base auth (Invite m None) s))"

lemma create_invitation_pending:
  assumes "create_invitation t m rl by_user ttl db = (i, db')"
  shows "list_ex (pending_for t (clean_email m)) (invitations db')"
    and "list_ex (pending_for t' x) (invitations db) \<Longrightarrow> list_ex (pending_for t' x) (invitations db')"
    and "users db' = users db" "tenants db' = tenants db"
proof -
  have upd: "list_ex (pending_for t' x) (update_where (pending_for t y) (\<lambda>r. r\<lparr>invite_role := a, invite_expires := b, invited_by := c\<rparr>) rows)
      = list_ex (pending_for t' x) rows" for t' x y a b c rows
    by (induction rows) (simp_all add: pending_for_def)
  have c: "(\<exists>a b. db' = db\<lparr>invitations := update_where (pending_for t (clean_email m))
        (\<lambda>i. i\<lparr>invite_role := a, invite_expires := b, invited_by := by_user\<rparr>) (invitations db)\<rparr>
        \<and> list_ex (pending_for t (clean_email m)) (invitations db))
    \<or> (\<exists>j. invitations db' = invitations db @ [j] \<and> pending_for t (clean_email m) j \<and> users db' = users db \<and> tenants db' = tenants db)"
  proof (cases "find (pending_for t (clean_email m)) (invitations db)")
    case None
    have "\<exists>j. invitations db' = invitations db @ [j] \<and> pending_for t (clean_email m) j \<and> users db' = users db \<and> tenants db' = tenants db"
      using assms None by (auto simp: create_invitation_def Let_def pending_for_def)
    then show ?thesis by blast
  next
    case (Some j)
    then have "list_ex (pending_for t (clean_email m)) (invitations db)" by (auto simp: find_Some_iff list_ex_iff)
    moreover have "\<exists>a b. db' = db\<lparr>invitations := update_where (pending_for t (clean_email m))
        (\<lambda>i. i\<lparr>invite_role := a, invite_expires := b, invited_by := by_user\<rparr>) (invitations db)\<rparr>"
      using assms Some unfolding create_invitation_def Let_def by simp blast
    ultimately show ?thesis by blast
  qed
  then show "list_ex (pending_for t (clean_email m)) (invitations db')" by (elim disjE exE conjE) (simp_all add: upd)
  show "users db' = users db" "tenants db' = tenants db" using c by (elim disjE exE conjE; simp)+
  show "list_ex (pending_for t' x) (invitations db')" if "list_ex (pending_for t' x) (invitations db)"
    using c that by (elim disjE exE conjE) (simp_all add: upd)
qed

lemma invite_handler_free:
  assumes "check_seat (auth_tenant user) s = Some None" "CHR ''@'' \<in> set (lowercase (trim m))"
    and "invite_handler base user m None s = (r, s')"
  shows "\<exists>i. r = Inr i" "list_ex (pending_for (auth_tenant user) (clean_email m)) (invitations (tdb (api s')))"
    and "list_ex (pending_for t x) (invitations (tdb (api s))) \<Longrightarrow> list_ex (pending_for t x) (invitations (tdb (api s')))"
    and "users (tdb (api s')) = users (tdb (api s))" "tenants (tdb (api s')) = tenants (tdb (api s))"
    and "plans s' = plans s" "con_up s' = con_up s" "api_keys (api s') = api_keys (api s)" "cache_srv (api s') = cache_srv (api s)"
proof -
  obtain i db where i: "create_invitation (auth_tenant user) (lowercase (trim m)) ''viewer'' (auth_user user) INVITE_TTL_SECS (tdb (api s)) = (i, db)"
    by (meson surj_pair)
  have run: "s' = s\<lparr>api := (api s)\<lparr>tdb := db\<rparr>\<rparr>" "\<exists>i. r = Inr i"
    using assms by (auto simp: invite_handler_def Let_def on_api_def on_db_def i)
  have c: "clean_email (lowercase (trim m)) = clean_email m" by (metis clean_email_def clean_email_idem)
  show "\<exists>i. r = Inr i" by (rule run)
  show "list_ex (pending_for (auth_tenant user) (clean_email m)) (invitations (tdb (api s')))"
    using create_invitation_pending(1) [OF i] by (simp add: run c)
  show "list_ex (pending_for t x) (invitations (tdb (api s')))" if "list_ex (pending_for t x) (invitations (tdb (api s)))"
    using create_invitation_pending(2) [OF i that] by (simp add: run)
  show "users (tdb (api s')) = users (tdb (api s))" "tenants (tdb (api s')) = tenants (tdb (api s))"
    using create_invitation_pending(3,4) [OF i] by (simp_all add: run)
  show "plans s' = plans s" "con_up s' = con_up s" "api_keys (api s') = api_keys (api s)" "cache_srv (api s') = cache_srv (api s)"
    by (simp_all add: run)
qed

lemma check_seat_cong:
  assumes "users (tdb (api s')) = users (tdb (api s))" "tenants (tdb (api s')) = tenants (tdb (api s))" "plans s' = plans s" "con_up s' = con_up s"
  shows "check_seat t s' = check_seat t s"
proof -
  have "get_plan k s' = get_plan k s" for k by (simp add: get_plan_def assms)
  moreover have "member_count t s' = member_count t s" "get_tenant t (tdb (api s')) = get_tenant t (tdb (api s))"
    by (simp_all add: member_count_def get_tenant_def assms)
  ultimately show ?thesis unfolding check_seat_def tenant_plan_def assms(4) by (simp only:)
qed

lemma invite_all_pending:
  assumes "require_admin auth = Inr user"
  shows "check_seat (auth_tenant user) s = Some None \<Longrightarrow> \<forall>m \<in> set ms. CHR ''@'' \<in> set (lowercase (trim m)) \<Longrightarrow>
    (\<forall>t x. list_ex (pending_for t x) (invitations (tdb (api s))) \<longrightarrow> list_ex (pending_for t x) (invitations (tdb (api (invite_all base auth ms s)))))
    \<and> (\<forall>m \<in> set ms. list_ex (pending_for (auth_tenant user) (clean_email m)) (invitations (tdb (api (invite_all base auth ms s)))))
    \<and> check_seat (auth_tenant user) (invite_all base auth ms s) = Some None"
proof (induction ms arbitrary: s)
  case (Cons n ms)
  obtain r s1 where h: "invite_handler base user n None s = (r, s1)" by (meson surj_pair)
  then have one: "snd (users_action_handler base auth (Invite n None) s) = s1" by (simp add: users_action_handler_def assms(1))
  have at: "CHR ''@'' \<in> set (lowercase (trim n))" "\<forall>m \<in> set ms. CHR ''@'' \<in> set (lowercase (trim m))" using Cons.prems by auto
  note f = invite_handler_free [OF Cons.prems(1) at(1) h]
  have "check_seat (auth_tenant user) s1 = Some None" using check_seat_cong [OF f(4-7)] Cons.prems(1) by simp
  from Cons.IH [OF this at(2)] f(2,3) show ?case by (simp add: one)
qed simp

text \<open>The seat cap counts accounts and not invitations. At the cap an invitation is refused with
  payment required and changes nothing; but a workspace with one seat left can invite any number of
  addresses: every one of them gets a pending invitation, and the check still passes.\<close>

theorem seat_cap_ignores_invitations:
  assumes "require_admin auth = Inr user" "\<forall>m \<in> set ms. CHR ''@'' \<in> set (lowercase (trim m))" "con_up s"
  shows "if (\<exists>p n. tenant_plan (auth_tenant user) s = Some p \<and> member_count (auth_tenant user) s = Some n
        \<and> 0 < pl_seats p \<and> pl_seats p \<le> int n)
    then \<forall>m \<in> set ms. users_action_handler base auth (Invite m None) s = (Inl payment_required, s)
    else (\<forall>m \<in> set ms. list_ex (pending_for (auth_tenant user) (clean_email m)) (invitations (tdb (api (invite_all base auth ms s)))))
      \<and> check_seat (auth_tenant user) (invite_all base auth ms s) = Some None"
proof -
  let ?t = "auth_tenant user"
  obtain p where p: "tenant_plan ?t s = Some p"
    using assms(3) by (cases "get_tenant ?t (tdb (api s))") (simp_all add: tenant_plan_def get_plan_def)
  obtain n where n: "member_count ?t s = Some n" using assms(3) by (auto simp: member_count_def)
  show ?thesis
  proof (cases "0 < pl_seats p \<and> pl_seats p \<le> int n")
    case True
    then obtain msg where "check_seat ?t s = Some (Some msg)" by (auto simp: check_seat_def p n)
    then have "\<forall>m \<in> set ms. users_action_handler base auth (Invite m None) s = (Inl payment_required, s)"
      using assms(1,2) by (auto simp: users_action_handler_def invite_handler_def Let_def)
    with True p n show ?thesis by auto
  next
    case False
    then have "check_seat ?t s = Some None" by (auto simp: check_seat_def p n)
    from invite_all_pending [OF assms(1) this assms(2), of base] False p n show ?thesis by auto
  qed
qed

section \<open>Suspended workspaces\<close>

text \<open>Suspending a workspace stops its sign-ins, and only those: right credentials are refused, but
  every access token and every API key of the workspace authenticates as before.\<close>

theorem suspended_org_keeps_access:
  assumes "update_org auth k None (Some True) None s = (Inr t, s')"
  shows "(verify_credentials verify_pw mail pw (tdb (api s')) = Some (Some idt) \<and> tenant_key (id_tenant idt) = k
        \<longrightarrow> sign_in_handler jwt verify_pw cfg req mail pw (api s') = (Inl forbidden, api s'))
    \<and> caller jwt digest cfg req s' = caller jwt digest cfg req s"
proof -
  have s': "s' = with_tenants (update_where (\<lambda>t. tenant_key t = k) (set_tenant None (Some True) None) (tenants_of s)) s"
    and found: "get_tenant k (tdb (api s)) \<noteq> None"
    using assms by (auto simp: update_org_def split: sum.splits if_splits option.splits)
  have "find (\<lambda>t. tenant_key t = k) (update_where (\<lambda>t. tenant_key t = k) (set_tenant None (Some True) None) (tenants_of s))
      = map_option (set_tenant None (Some True) None) (find (\<lambda>t. tenant_key t = k) (tenants_of s))"
    by (rule find_update_where_same) (simp_all add: set_tenant_def)
  with found have "map_option suspended (get_tenant k (tdb (api s'))) = Some True"
    by (auto simp: s' get_tenant_def set_tenant_def)
  moreover have "caller jwt digest cfg req s' = caller jwt digest cfg req s"
    by (simp add: caller_def authed_user_from_def verify_def s' split: option.splits)
  ultimately show ?thesis by (auto simp: sign_in_handler_def)
qed


section \<open>The billing portal\<close>

text \<open>What any request to these handlers, or to the authentication API, may do to the console.\<close>

inductive console_step :: "billing_env \<Rightarrow> (string \<Rightarrow> nat list) \<Rightarrow> hash_fn \<Rightarrow> console \<Rightarrow> console \<Rightarrow> bool"
  for e digest hash_pw where
  org: "console_step e digest hash_pw s (snd (update_org auth k p sus nm s))"
| catalogue: "console_step e digest hash_pw s (snd (upsert_plan auth b s))"
| webhook: "console_step e digest hash_pw s (snd (stripe_webhook e header raw s))"
| new_key: "console_step e digest hash_pw s (snd (create_api_key digest auth nm s))"
| drop_key: "console_step e digest hash_pw s (snd (delete_api_key auth k s))"
| users: "console_step e digest hash_pw s (snd (users_action_handler base auth act s))"
| user: "console_step e digest hash_pw s (snd (update_user_handler auth k rl st s))"
| user_action: "console_step e digest hash_pw s (snd (user_id_action hash_pw salt auth k what s))"
| requests: "console_step e digest hash_pw s (s\<lparr>api := a\<rparr>)"
| outage: "console_step e digest hash_pw s (s\<lparr>con_up := b\<rparr>)"

inductive console_run :: "billing_env \<Rightarrow> (string \<Rightarrow> nat list) \<Rightarrow> hash_fn \<Rightarrow> console \<Rightarrow> console \<Rightarrow> bool"
  for e digest hash_pw where
  nothing_yet: "console_run e digest hash_pw s s"
| step: "console_run e digest hash_pw s s' \<Longrightarrow> console_step e digest hash_pw s' s'' \<Longrightarrow> console_run e digest hash_pw s s''"

lemma on_api_customer [simp]: "stripe_customer (snd (on_api f s)) = stripe_customer s"
  by (simp add: on_api_def case_prod_beta)

lemma insert_key_customer [simp]: "stripe_customer (snd (insert_key t nm k s)) = stripe_customer s"
  by (simp add: insert_key_def case_prod_beta Let_def)

lemma handlers_keep_customer:
  "stripe_customer (snd (update_org auth k p sus nm s)) = stripe_customer s"
  "stripe_customer (snd (upsert_plan auth b s)) = stripe_customer s"
  "stripe_customer (snd (stripe_webhook e header raw s)) = stripe_customer s"
  "stripe_customer (snd (create_api_key digest auth nm s)) = stripe_customer s"
  "stripe_customer (snd (delete_api_key auth k s)) = stripe_customer s"
  subgoal by (simp add: update_org_def split: sum.split option.split)
  subgoal by (simp add: upsert_plan_def Let_def split: sum.split option.split)
  subgoal by (simp add: stripe_webhook_def Let_def split: option.split)
  subgoal by (simp add: create_api_key_def Let_def case_prod_beta split: sum.split option.split)
  subgoal by (simp add: delete_api_key_def split: sum.split)
  done

lemma invite_handler_customer [simp]: "stripe_customer (snd (invite_handler base u m rl s)) = stripe_customer s"
  by (simp add: invite_handler_def Let_def case_prod_beta split: option.split)

lemma user_handlers_keep_customer:
  "stripe_customer (snd (users_action_handler base auth act s)) = stripe_customer s"
  "stripe_customer (snd (update_user_handler auth k rl st s)) = stripe_customer s"
  "stripe_customer (snd (user_id_action hash_pw salt auth k what s)) = stripe_customer s"
  subgoal by (simp add: users_action_handler_def case_prod_beta split: sum.split users_action.split)
  subgoal by (simp add: update_user_handler_def case_prod_beta split: sum.split option.split)
  subgoal by (simp add: user_id_action_def case_prod_beta split: sum.split user_action.split option.split bool.split)
  done

lemma console_run_customer: "console_run e digest hash_pw s s' \<Longrightarrow> stripe_customer s' = stripe_customer s"
proof (induction rule: console_run.induct)
  case (step s s' s'')
  from step.hyps(2) have "stripe_customer s'' = stripe_customer s'"
    by cases (simp_all add: handlers_keep_customer user_handlers_keep_customer)
  with step.IH show ?case by simp
qed simp

text \<open>No handler stores the customer that Stripe creates at a checkout: from a state without customers,
  whatever events Stripe sends and whatever is administered, the billing portal only ever answers with an error,
  and the list of invoices is empty.\<close>

theorem portal_never_opens:
  assumes "console_run e digest hash_pw s s'" "stripe_customer s = (\<lambda>_. None)"
  shows "(\<exists>err. portal e auth s' = Inl err) \<and> (\<forall>x. invoices e auth s' = Inr x \<longrightarrow> snd x = [])"
proof -
  have "customer_of t s' = None" for t using console_run_customer [OF assms(1)] assms(2) by (simp add: customer_of_def bind_eq_None_conv)
  then show ?thesis
    by (auto simp: portal_def invoices_def split: sum.splits option.splits if_splits)
qed

section \<open>Concrete runs\<close>

definition busy_console :: console where
  "busy_console = console_start\<lparr>api := (api console_start)\<lparr>tdb := insert_session 5 9 2 7 None None 100 (tdb (api console_start))\<rparr>\<rparr>"

lemma root_admin: "require_admin root_auth = Inr \<lparr>auth_user = 2, auth_tenant = 5, auth_role = ''owner'', auth_session = 4\<rparr>"
proof -
  have "\<not> role_rank ''owner'' < role_rank ''admin''" by code_simp
  then show ?thesis by (simp add: root_auth_def require_admin_def)
qed

lemma root_super: "require_super console_start root_auth = root_auth"
  by (simp add: require_super_def require_super_admin_def root_auth_def get_platform_role_def get_user_def console_start_def root_user_def)

lemma busy_user: "users (tdb (api busy_console)) = [root_user]" "con_up busy_console" "link_up (cache_srv (api busy_console)) n"
  "sessions (tdb (api busy_console)) = [\<lparr>sid = 9, session_tenant = 5, session_user = 2, current_jti = 7, user_agent = None,
     ip_address = None, last_seen_at = 0, expires_at = 100, revoked_at = None\<rparr>]"
  "tenants (tdb (api busy_console)) = [\<lparr>tenant_key = 5, tenant_kind = ''org'', tenant_name = ''Lab'', plan = ''free'', suspended = False\<rparr>]"
  by (simp_all add: busy_console_def console_start_def insert_session_def start_state_def up_redis_def empty_db_def)

lemma busy_tenant: "get_tenant 5 (tdb (api busy_console)) = Some \<lparr>tenant_key = 5, tenant_kind = ''org'', tenant_name = ''Lab'', plan = ''free'', suspended = False\<rparr>"
  unfolding get_tenant_def busy_user by simp

lemma busy_get_user: "get_user 5 2 (tdb (api busy_console)) = Some root_user"
  unfolding get_user_def busy_user by (simp add: root_user_def)

theorem api_key_round_trip_witness:
  "\<exists>ck s1 s2. create_api_key (\<lambda>_. [7]) root_auth None console_start = (Inr ck, s1)
    \<and> delete_api_key root_auth (ck_id ck) s1 = (Inr (), s2)
    \<and> caller plain_jwt (\<lambda>_. [7]) example_cfg (plain_request\<lparr>x_api_key := Some (ck_token ck)\<rparr>) s1
        = Inr \<lparr>auth_user = 0, auth_tenant = 5, auth_role = ''editor'', auth_session = 0\<rparr>
    \<and> caller plain_jwt (\<lambda>_. [7]) example_cfg (plain_request\<lparr>x_api_key := Some (ck_token ck)\<rparr>) s2 = Inl unauthorized"
proof -
  have none: "api_keys (api console_start) = []" "key_rows console_start = []" "con_up console_start"
    by (simp_all add: console_start_def start_state_def)
  obtain k a where k: "generate_api_key (\<lambda>_. [7]) (api console_start) = (k, a)" by (meson surj_pair)
  then have a: "api_keys a = []" by (auto simp: generate_api_key_def new_uuid_def none Let_def)
  obtain ck s1 where one: "create_api_key (\<lambda>_. [7]) root_auth None console_start = (Inr ck, s1)" and up: "con_up s1"
    unfolding create_api_key_def root_admin sum.case k prod.case Let_def
    by (simp add: insert_key_def none a new_uuid_def Let_def)
  obtain s2 where two: "delete_api_key root_auth (ck_id ck) s1 = (Inr (), s2)"
    using up by (simp add: delete_api_key_def root_admin)
  have keys: "\<forall>k \<in> set (api_keys (api console_start)). key_id k < uuids (api console_start)" by (simp add: none)
  have hd: "x_api_key (plain_request\<lparr>x_api_key := Some (ck_token ck)\<rparr>) = Some (ck_token ck)" by simp
  note app = api_key_round_trip [OF one root_admin two keys hd, of plain_jwt example_cfg]
  from app one two show ?thesis by auto
qed

theorem suspension_kills_sessions_witness:
  "\<exists>r s'. update_user_handler root_auth 2 None (Some ''suspended'') busy_console = (Inr r, s')
    \<and> no_live_session 5 2 (api s') \<and> \<not> allowlisted (api s') 7"
proof -
  obtain r s' where run: "update_user_handler root_auth 2 None (Some ''suspended'') busy_console = (Inr r, s')"
    by (simp add: update_user_handler_def root_admin busy_user on_api_def on_db_def update_user_def root_user_def Let_def)
  have up: "\<forall>n. link_up (cache_srv (api busy_console)) n" by (simp add: busy_user)
  from suspension_kills_sessions [OF run root_admin up] run show ?thesis by (auto simp: busy_user)
qed

theorem reset_password_signs_in_witness:
  "\<exists>temp s'. user_id_action plain_hash 0 root_auth 2 ResetPassword busy_console = (Inr (TempPassword temp), s')
    \<and> (\<exists>idt. verify_credentials plain_verify ''root@x.io'' temp (tdb (api s')) = Some (Some idt))"
proof -
  obtain temp a where t: "temp_password (api busy_console) = (temp, a)" by (meson surj_pair)
  then have a: "tdb a = tdb (api busy_console)" by (auto simp: temp_password_def new_uuid_def Let_def)
  obtain s' where run: "user_id_action plain_hash 0 root_auth 2 ResetPassword busy_console = (Inr (TempPassword temp), s')"
    by (simp add: user_id_action_def root_admin busy_user on_api_def on_db_def t a set_user_password_def root_user_def Let_def)
  have inv: "tenancy_inv (tdb (api busy_console))"
    unfolding tenancy_inv_def tenant_keys_def busy_user
    by (simp add: busy_console_def console_start_def insert_session_def empty_db_def users_ok_def invites_ok_def password_emails_def pending_keys_def root_user_def)
  have e: "clean_email (email root_user) = email root_user" "email root_user = ''root@x.io''" by code_simp+
  have who: "get_user (auth_tenant \<lparr>auth_user = 2, auth_tenant = 5, auth_role = ''owner'', auth_session = 4\<rparr>) 2 (tdb (api busy_console)) = Some root_user"
    by (simp add: busy_get_user)
  note app = reset_password_signs_in [OF plain_argon2 inv root_admin run who e(1)]
  from app run e(2) show ?thesis by auto
qed

theorem seat_cap_ignores_invitations_witness:
  "length (filter (\<lambda>m. list_ex (pending_for 5 (clean_email m))
      (invitations (tdb (api (invite_all [] root_auth [''a@x'', ''b@x'', ''c@x'', ''d@x''] console_start)))))
      [''a@x'', ''b@x'', ''c@x'', ''d@x'']) = 4
    \<and> map_option pl_seats (tenant_plan 5 console_start) = Some 3"
proof -
  let ?ms = "[''a@x'', ''b@x'', ''c@x'', ''d@x'']"
  have at: "\<forall>m \<in> set ?ms. CHR ''@'' \<in> set (lowercase (trim m))" by code_simp
  have up: "con_up console_start" by (simp add: console_start_def)
  have p: "tenant_plan 5 console_start = Some free_plan"
    using up console_tenant by (simp add: tenant_plan_def get_plan_def) (simp add: console_start_def free_plan_def)
  have "member_count 5 console_start = Some (Suc 0)"
    by (simp add: member_count_def console_start_def root_user_def)
  with p have "\<not> (\<exists>p n. tenant_plan 5 console_start = Some p \<and> member_count 5 console_start = Some n \<and> 0 < pl_seats p \<and> pl_seats p \<le> int n)"
    by (simp add: free_plan_def)
  with seat_cap_ignores_invitations [OF root_admin at up, of "[]"]
  have "\<forall>m \<in> set ?ms. list_ex (pending_for 5 (clean_email m)) (invitations (tdb (api (invite_all [] root_auth ?ms console_start))))"
    by (simp only: authed_user.select_convs if_False) blast
  then have "filter (\<lambda>m. list_ex (pending_for 5 (clean_email m)) (invitations (tdb (api (invite_all [] root_auth ?ms console_start))))) ?ms = ?ms"
    unfolding filter_id_conv .
  with p show ?thesis by (simp add: free_plan_def)
qed

theorem suspended_org_keeps_access_witness:
  "\<exists>t s'. update_org root_auth 5 None (Some True) None busy_console = (Inr t, s')
    \<and> sign_in_handler plain_jwt plain_verify example_cfg plain_request ''root@x.io'' ''secret123'' (api s') = (Inl forbidden, api s')"
proof -
  have su: "require_super busy_console root_auth = root_auth"
    using busy_get_user by (simp add: require_super_def require_super_admin_def root_auth_def get_platform_role_def root_user_def)
  obtain t s' where run: "update_org root_auth 5 None (Some True) None busy_console = (Inr t, s')"
    unfolding update_org_def su using busy_tenant by (simp add: root_auth_def busy_user)
  have "\<exists>idt. verify_credentials plain_verify ''root@x.io'' ''secret123'' (tdb (api s')) = Some (Some idt) \<and> tenant_key (id_tenant idt) = 5"
  proof -
    have s': "s' = with_tenants [set_tenant None (Some True) None \<lparr>tenant_key = 5, tenant_kind = ''org'', tenant_name = ''Lab'', plan = ''free'', suspended = False\<rparr>] busy_console"
      using run unfolding update_org_def su using busy_tenant by (auto simp: root_auth_def busy_user)
    have e: "clean_email ''root@x.io'' = email root_user" "password_hash root_user = Some ''secret123''" by code_simp+
    show ?thesis
      by (simp add: s' verify_credentials_def fetch_user_for_auth_def get_tenant_def busy_user e plain_verify_def)
        (simp add: root_user_def set_tenant_def)
  qed
  with run suspended_org_keeps_access [OF run, of plain_verify "''root@x.io''" "''secret123''" _ plain_jwt example_cfg plain_request "\<lambda>_. []"]
  show ?thesis by blast
qed

theorem portal_never_opens_witness:
  "\<exists>err. portal signed_billing root_auth (snd (stripe_webhook signed_billing (Some ''t=7,v1=w7.{}'') ''{}'' console_start)) = Inl err"
proof -
  have "console_run signed_billing (\<lambda>_. []) plain_hash console_start (snd (stripe_webhook signed_billing (Some ''t=7,v1=w7.{}'') ''{}'' console_start))"
    by (rule console_run.step [OF console_run.nothing_yet console_step.webhook])
  moreover have "stripe_customer console_start = (\<lambda>_. None)" by (simp add: console_start_def)
  ultimately show ?thesis using portal_never_opens by blast
qed

end
