(* ===== verification/Documents.thy ===== *)
theory Documents
  imports Worker Members
begin

text \<open>
  Uploads and documents: \<open>insight-core/src/storage/doc_store.rs\<close> and
  \<open>insight-api/src/routes/documents.rs\<close>. The state \<open>site\<close> joins the console (accounts, plans, cache) with the
  back end that the worker shares (library tables, job queue, claims). The two signers of object URLs are
  parameters. Where the code takes an identifier's text apart, that text is the hyphenated form
  (\<open>uuid_text\<close>); in job payloads it is the decimal form of the queue model. The time stamps that the
  answers render are left out, and a row's place in its table stands for \<open>added_at\<close>.
\<close>

record site =
  con :: console
  srv :: backend

record site_env =
  ienv :: ingest_env
  presign_put :: "string \<Rightarrow> string \<Rightarrow> nat \<Rightarrow> string option"
  presign_get :: "string \<Rightarrow> string \<Rightarrow> nat \<Rightarrow> string option"

abbreviation library :: "site \<Rightarrow> library_db" where
  "library s \<equiv> tables (pipe (wd (srv s)))"

abbreviation site_cache :: "site \<Rightarrow> redis" where
  "site_cache s \<equiv> cache_srv (api (con s))"

abbreviation site_queue :: "site \<Rightarrow> queue_state" where
  "site_queue s \<equiv> jobs_queue (srv s)"

definition on_library :: "(library_db \<Rightarrow> 'a option \<times> library_db) \<Rightarrow> site \<Rightarrow> 'a option \<times> site" where
  "on_library f s = (case f (library s) of (x, db) \<Rightarrow>
     (x, s\<lparr>srv := (srv s)\<lparr>wd := (wd (srv s))\<lparr>pipe := (pipe (wd (srv s)))\<lparr>tables := db\<rparr>\<rparr>\<rparr>\<rparr>))"

definition on_site_queue :: "(queue_state \<Rightarrow> 'a option \<times> queue_state) \<Rightarrow> site \<Rightarrow> 'a option \<times> site" where
  "on_site_queue f s = (case f (site_queue s) of (x, q) \<Rightarrow> (x, s\<lparr>srv := with_queue q (srv s)\<rparr>))"

definition on_site_cache :: "(redis \<Rightarrow> 'a option \<times> redis) \<Rightarrow> site \<Rightarrow> 'a option \<times> site" where
  "on_site_cache f s = (case f (site_cache s) of (x, r) \<Rightarrow>
     (x, s\<lparr>con := (con s)\<lparr>api := (api (con s))\<lparr>cache_srv := r\<rparr>\<rparr>\<rparr>))"

section \<open>The document store\<close>

record new_document =
  nd_key :: string
  nd_sha256 :: string
  nd_title :: string
  nd_source :: string
  nd_owner :: "string option"
  nd_course :: "string option"
  nd_folder :: "string option"

definition insert_document :: "uuid \<Rightarrow> new_document \<Rightarrow> library_db \<Rightarrow> uuid option \<times> library_db" where
  "insert_document t d db =
     (if \<not> db_up db then (None, db)
      else (Some (row_supply db), db\<lparr>documents := documents db @ [\<lparr>doc_key = row_supply db, doc_tenant = t,
              storage_key = nd_key d, sha256 = nd_sha256 d, doc_title = nd_title d, source_type = nd_source d,
              doc_owner = nd_owner d, doc_course = nd_course d, doc_folder = nd_folder d, doc_status = ''pending''\<rparr>],
            row_supply := row_supply db + 1\<rparr>))"

definition own_document :: "uuid \<Rightarrow> uuid \<Rightarrow> document_row \<Rightarrow> bool" where
  "own_document t k d = (doc_key d = k \<and> doc_tenant d = t)"

definition find_document :: "uuid \<Rightarrow> uuid \<Rightarrow> library_db \<Rightarrow> document_row option option" where
  "find_document t k db = (if \<not> db_up db then None else Some (find (own_document t k) (documents db)))"

definition in_folder :: "string option \<Rightarrow> document_row \<Rightarrow> bool" where
  "in_folder f d = (case f of None \<Rightarrow> True | Some x \<Rightarrow> doc_folder d = Some x)"

definition store_list :: "uuid \<Rightarrow> string option \<Rightarrow> nat \<Rightarrow> nat \<Rightarrow> library_db \<Rightarrow> document_row list option" where
  "store_list t f limit offset db = (if \<not> db_up db then None
     else Some (take limit (drop offset (rev (filter (\<lambda>d. doc_tenant d = t \<and> in_folder f d) (documents db))))))"

text \<open>The update is committed before the number of rows is checked.\<close>

definition update_document_status :: "uuid \<Rightarrow> uuid \<Rightarrow> string \<Rightarrow> library_db \<Rightarrow> unit option \<times> library_db" where
  "update_document_status t k st db =
     (if \<not> db_up db then (None, db)
      else (if length (filter (own_document t k) (documents db)) = 1 then Some () else None,
            db\<lparr>documents := update_where (own_document t k) (\<lambda>d. d\<lparr>doc_status := st\<rparr>) (documents db)\<rparr>))"

section \<open>Names and labels\<close>

definition PRESIGN_TTL :: nat where "PRESIGN_TTL = 15 * 60"
definition IDEMPOTENCY_TTL_SECS :: nat where "IDEMPOTENCY_TTL_SECS = 24 * 60 * 60"
definition IDEMPOTENCY_PENDING :: string where "IDEMPOTENCY_PENDING = ''pending''"
definition IDEMPOTENCY_PENDING_TTL_SECS :: nat where "IDEMPOTENCY_PENDING_TTL_SECS = 60"
definition LIST_MAX_LIMIT :: int where "LIST_MAX_LIMIT = 200"
definition DOWNLOAD_TTL :: nat where "DOWNLOAD_TTL = 15 * 60"

definition uuid_text :: "uuid \<Rightarrow> string" where
  "uuid_text k = (let h = simple_uuid k in take 8 h @ ''-'' @ take 4 (drop 8 h) @ ''-'' @ take 4 (drop 12 h) @ ''-''
     @ take 4 (drop 16 h) @ ''-'' @ drop 20 h)"

definition safe_char :: "char \<Rightarrow> bool" where
  "safe_char c = (is_ascii_alphanumeric c \<or> c \<in> {CHR ''.'', CHR ''_'', CHR ''-''})"

definition trim_matches :: "char set \<Rightarrow> string \<Rightarrow> string" where
  "trim_matches cs s = rev (dropWhile (\<lambda>c. c \<in> cs) (rev (dropWhile (\<lambda>c. c \<in> cs) s)))"

definition sanitize_filename :: "string \<Rightarrow> string" where
  "sanitize_filename nm =
     (let cleaned = map (\<lambda>c. if safe_char c then c else CHR ''_'') nm;
          trimmed = trim_matches {CHR ''.'', CHR ''_''} cleaned
      in take 120 (if trimmed = [] then ''file'' else trimmed))"

definition status_label :: "string \<Rightarrow> string" where
  "status_label st = (if st = ''indexed'' then ''Indexed''
     else if st \<in> {''processing'', ''pending'', ''queued''} then ''Processing''
     else if st = ''needs_review'' then ''Needs review''
     else if st = ''failed'' then ''Failed'' else ''Processing'')"

definition doc_type :: "string \<Rightarrow> string \<Rightarrow> string" where
  "doc_type title key = (let ext = ascii_lowercase (last (split_on CHR ''.'' title))
     in if ext \<in> {''docx'', ''doc''} then ''docx'' else if ext = ''epub'' then ''epub'' else ''pdf'')"

definition document_json :: "document_row \<Rightarrow> nat \<Rightarrow> nat \<Rightarrow> (string \<times> json) list" where
  "document_json d pgs tps =
     (let st = (if doc_status d = ''pending'' then ''processing'' else doc_status d)
      in [(''id'', JStr (uuid_text (doc_key d))), (''folderId'', case doc_folder d of None \<Rightarrow> JNull | Some f \<Rightarrow> JStr f),
          (''title'', JStr (doc_title d)), (''status'', JStr st), (''statusLabel'', JStr (status_label st)),
          (''type'', JStr (doc_type (doc_title d) (storage_key d))), (''pages'', JInt (int pgs)), (''topics'', JInt (int tps))])"

definition page_count :: "uuid \<Rightarrow> uuid \<Rightarrow> library_db \<Rightarrow> nat" where
  "page_count t k db = length (filter (\<lambda>p. page_tenant p = t \<and> page_doc p = k) (pages db))"

definition topics_of :: "uuid \<Rightarrow> uuid \<Rightarrow> knowledge_db \<Rightarrow> string list" where
  "topics_of t k db = remdups (List.map_filter (\<lambda>c. if cl_tenant c = t
       \<and> (\<exists>x \<in> set (claim_sources db). so_tenant x = t \<and> so_document x = k \<and> so_claim x = cl_id c)
     then (case cl_topic c of Some tp \<Rightarrow> if tp = [] then None else Some tp | None \<Rightarrow> None) else None) (claims db))"

definition topic_count :: "uuid \<Rightarrow> uuid \<Rightarrow> knowledge_db \<Rightarrow> nat" where
  "topic_count t k db = length (topics_of t k db)"

section \<open>Uploading\<close>

definition presign :: "site_env \<Rightarrow> authed_user \<Rightarrow> string \<Rightarrow> site \<Rightarrow> (api_error + string \<times> string) \<times> site" where
  "presign e user filename s =
     (case on_api new_uuid (con s) of (k, c) \<Rightarrow>
       let key = uuid_text (auth_tenant user) @ ''/'' @ uuid_text k @ ''-'' @ sanitize_filename filename
       in (case presign_put e (bucket_documents (ienv e)) key PRESIGN_TTL of
             None \<Rightarrow> Inl internal | Some url \<Rightarrow> Inr (url, key), s\<lparr>con := c\<rparr>))"

record create_body =
  cb_key :: string
  cb_title :: "string option"
  cb_sha256 :: "string option"
  cb_source :: "string option"
  cb_folder :: "string option"

definition default_title :: "string \<Rightarrow> string" where
  "default_title key = (case split_once CHR ''-'' (last (split_on CHR ''/'' key)) of
       Some (_, rest) \<Rightarrow> rest | None \<Rightarrow> ''Untitled document'')"

definition title_of :: "create_body \<Rightarrow> string" where
  "title_of b = (case cb_title b of Some t \<Rightarrow> if trim t = [] then default_title (cb_key b) else t
     | None \<Rightarrow> default_title (cb_key b))"

definition new_document_of :: "create_body \<Rightarrow> new_document" where
  "new_document_of b = \<lparr>nd_key = cb_key b, nd_sha256 = (case cb_sha256 b of None \<Rightarrow> [] | Some x \<Rightarrow> x),
     nd_title = title_of b, nd_source = (case cb_source b of None \<Rightarrow> ''upload'' | Some x \<Rightarrow> x),
     nd_owner = None, nd_course = None, nd_folder = cb_folder b\<rparr>"

definition ingest_payload :: "uuid \<Rightarrow> uuid \<Rightarrow> json" where
  "ingest_payload doc user = JObj [(''documentId'', JStr (show_nat doc)), (''userId'', JStr (show_nat user))]"

definition finish_create :: "site_env \<Rightarrow> authed_user \<Rightarrow> uuid \<Rightarrow> site \<Rightarrow> (api_error + json) \<times> site" where
  "finish_create e user k s =
     (case on_site_queue (enqueue (codec_of (ienv e)) ''ingest'' (auth_tenant user) (ingest_payload k (auth_user user))) s of
        (None, s) \<Rightarrow> (Inl internal, snd (on_library (update_document_status (auth_tenant user) k ''failed'') s))
      | (Some job, s) \<Rightarrow> (case find_document (auth_tenant user) k (library s) of
            None \<Rightarrow> (Inl internal, s) | Some None \<Rightarrow> (Inl not_found, s)
          | Some (Some row) \<Rightarrow> (Inr (JObj (document_json row 0 0 @ [(''jobId'', JStr (show_nat job))])), s)))"

definition create_document_inner :: "site_env \<Rightarrow> authed_user \<Rightarrow> create_body \<Rightarrow> site \<Rightarrow> (api_error + json) \<times> site" where
  "create_document_inner e user b s =
     (case check_document_cap (auth_tenant user) (con s) (library s) of
        None \<Rightarrow> (Inl internal, s)
      | Some (Some _) \<Rightarrow> (Inl payment_required, s)
      | Some None \<Rightarrow> (case on_library (insert_document (auth_tenant user) (new_document_of b)) s of
            (None, s) \<Rightarrow> (Inl internal, s)
          | (Some k, s) \<Rightarrow> (case on_library (update_document_status (auth_tenant user) k ''processing'') s of
                (None, s) \<Rightarrow> (Inl internal, s)
              | (Some _, s) \<Rightarrow> finish_create e user k s)))"

text \<open>Idempotency in two phases: reserve the key, work, store the answer or release the key.\<close>

definition idem_key_of :: "authed_user \<Rightarrow> string option \<Rightarrow> string option" where
  "idem_key_of user header = (case header of None \<Rightarrow> None | Some v \<Rightarrow>
     if v = [] \<or> 200 < length v then None else Some (''idem:'' @ uuid_text (auth_tenant user) @ '':'' @ v))"

datatype answer = Created json | Replayed string

definition reserve :: "string \<Rightarrow> site \<Rightarrow> bool option \<times> site" where
  "reserve k = on_site_cache (cache_set_nx_with_ttl k IDEMPOTENCY_PENDING IDEMPOTENCY_PENDING_TTL_SECS)"

definition refuse :: "string \<Rightarrow> site \<Rightarrow> (api_error + answer) \<times> site" where
  "refuse k s = (case on_site_cache (cache_get k) s of
       (None, s) \<Rightarrow> (Inl internal, s)
     | (Some found, s) \<Rightarrow> (case found of Some old \<Rightarrow>
           if old \<noteq> IDEMPOTENCY_PENDING then (Inr (Replayed old), s) else (Inl conflict, s)
         | None \<Rightarrow> (Inl conflict, s)))"

definition finalize :: "site_env \<Rightarrow> string option \<Rightarrow> (api_error + json) \<times> site \<Rightarrow> (api_error + answer) \<times> site" where
  "finalize e key r = (case r of
       (Inr doc, s) \<Rightarrow> (case key of None \<Rightarrow> (Inr (Created doc), s)
         | Some k \<Rightarrow> (case on_site_cache (cache_set_with_ttl k (to_text (codec_of (ienv e)) doc) IDEMPOTENCY_TTL_SECS) s of
             (None, s) \<Rightarrow> (Inl internal, s) | (Some _, s) \<Rightarrow> (Inr (Created doc), s)))
     | (Inl err, s) \<Rightarrow> (case key of None \<Rightarrow> (Inl err, s)
         | Some k \<Rightarrow> (Inl err, snd (on_site_cache (cache_del k) s))))"

definition own_key :: "authed_user \<Rightarrow> string \<Rightarrow> bool" where
  "own_key user key = (starts_with key (uuid_text (auth_tenant user) @ ''/'') \<and> \<not> contains_str key ''..'')"

definition create_document :: "site_env \<Rightarrow> authed_user \<Rightarrow> string option \<Rightarrow> create_body \<Rightarrow> site \<Rightarrow> (api_error + answer) \<times> site" where
  "create_document e user header b s =
     (if \<not> own_key user (cb_key b) then (Inl bad_request, s)
      else case idem_key_of user header of
          None \<Rightarrow> finalize e None (create_document_inner e user b s)
        | Some k \<Rightarrow> (case reserve k s of
              (None, s) \<Rightarrow> (Inl internal, s)
            | (Some False, s) \<Rightarrow> refuse k s
            | (Some True, s) \<Rightarrow> finalize e (Some k) (create_document_inner e user b s)))"

section \<open>Reading documents\<close>

definition list_documents :: "authed_user \<Rightarrow> string option \<Rightarrow> int option \<Rightarrow> int option \<Rightarrow> site \<Rightarrow> api_error + (json list \<times> nat)" where
  "list_documents user folder limit offset s =
     (let t = auth_tenant user; f = (if folder = Some [] then None else folder);
          lim = clamp 1 LIST_MAX_LIMIT (case limit of None \<Rightarrow> LIST_MAX_LIMIT | Some n \<Rightarrow> n);
          off = max 0 (case offset of None \<Rightarrow> 0 | Some n \<Rightarrow> n)
      in case store_list t f (nat lim) (nat off) (library s) of None \<Rightarrow> Inl internal
         | Some rows \<Rightarrow> if \<not> know_up (know (wd (srv s))) then Inl internal
             else Inr (map (\<lambda>d. JObj (document_json d (page_count t (doc_key d) (library s))
                    (topic_count t (doc_key d) (know (wd (srv s)))))) rows,
                  length (filter (\<lambda>d. doc_tenant d = t \<and> in_folder f d) (documents (library s)))))"

definition get_document :: "authed_user \<Rightarrow> uuid \<Rightarrow> site \<Rightarrow> api_error + json" where
  "get_document user k s = (case find_document (auth_tenant user) k (library s) of
       None \<Rightarrow> Inl internal | Some None \<Rightarrow> Inl not_found
     | Some (Some d) \<Rightarrow> if \<not> know_up (know (wd (srv s))) then Inl internal
         else Inr (JObj (document_json d (page_count (auth_tenant user) k (library s))
            (topic_count (auth_tenant user) k (know (wd (srv s)))))))"

datatype download = AsJson string | Redirect string

definition download_document :: "site_env \<Rightarrow> authed_user \<Rightarrow> uuid \<Rightarrow> string option \<Rightarrow> site \<Rightarrow> api_error + download" where
  "download_document e user k format s = (case find_document (auth_tenant user) k (library s) of
       None \<Rightarrow> Inl internal | Some None \<Rightarrow> Inl not_found
     | Some (Some d) \<Rightarrow> if storage_key d = [] then Inl not_found
         else (case presign_get e (bucket_documents (ienv e)) (storage_key d) DOWNLOAD_TTL of None \<Rightarrow> Inl internal
           | Some url \<Rightarrow> Inr (if format = Some ''json'' then AsJson url else Redirect url)))"

record doc_structure =
  st_source :: bool
  st_pages :: nat
  st_width :: "f64 option"
  st_height :: "f64 option"
  st_kinds :: "(string \<times> nat) list"
  st_blocks :: nat
  st_statuses :: "(string \<times> nat) list"
  st_total :: nat
  st_unaccounted :: f64
  st_chunked :: f64
  st_claimed :: f64
  st_chunks :: nat
  st_job :: "job_row option"

text \<open>\<open>GROUP BY\<close>: the groups in the order \<open>arrange\<close> that the database chooses.\<close>

definition counts_by :: "(string list \<Rightarrow> string list) \<Rightarrow> ('r \<Rightarrow> string) \<Rightarrow> 'r list \<Rightarrow> (string \<times> nat) list" where
  "counts_by arrange f rows = map (\<lambda>k. (k, length (filter (\<lambda>r. f r = k) rows))) (arrange (remdups (map f rows)))"

definition pages_of :: "uuid \<Rightarrow> uuid \<Rightarrow> library_db \<Rightarrow> page_row list" where
  "pages_of t k db = filter (\<lambda>p. page_tenant p = t \<and> page_doc p = k) (pages db)"

definition blocks_of :: "uuid \<Rightarrow> uuid \<Rightarrow> library_db \<Rightarrow> block_row list" where
  "blocks_of t k db = filter (\<lambda>b. block_tenant b = t \<and> block_page b \<in> page_key ` set (pages_of t k db)) (blocks db)"

definition chunks_of :: "uuid \<Rightarrow> uuid \<Rightarrow> library_db \<Rightarrow> chunk_row list" where
  "chunks_of t k db = filter (\<lambda>c. chunk_tenant c = t \<and> (case chunk_block c of None \<Rightarrow> False
       | Some b \<Rightarrow> b \<in> block_key ` set (blocks_of t k db))) (chunks db)"

definition payload_document :: "job_row \<Rightarrow> string option" where
  "payload_document j = Option.bind (get_key (job_payload j) ''documentId'') as_str"

definition latest_job :: "uuid \<Rightarrow> uuid \<Rightarrow> queue_state \<Rightarrow> job_row option" where
  "latest_job t k q = (case sort_key (\<lambda>j. - int (job_updated j))
       (filter (\<lambda>j. job_tenant j = t \<and> payload_document j = Some (show_nat k)) (jobs q)) of [] \<Rightarrow> None | j # _ \<Rightarrow> Some j)"

text \<open>Rounding to one decimal of a percentage, half away from zero.\<close>

definition percent :: "nat \<Rightarrow> nat \<Rightarrow> f64" where
  "percent n all_n = (if all_n > 0 then of_int \<lfloor>real n / real all_n * 1000 + 1 / 2\<rfloor> / 10 else 0)"

definition group_of :: "string \<Rightarrow> (string \<times> nat) list \<Rightarrow> nat" where
  "group_of nm gs = (case find (\<lambda>g. fst g = nm) gs of None \<Rightarrow> 0 | Some g \<Rightarrow> snd g)"

definition document_structure :: "(string list \<Rightarrow> string list) \<Rightarrow> authed_user \<Rightarrow> uuid \<Rightarrow> site \<Rightarrow> api_error + doc_structure" where
  "document_structure arrange user k s =
     (let t = auth_tenant user; db = library s
      in case find_document t k db of None \<Rightarrow> Inl internal | Some None \<Rightarrow> Inl not_found
       | Some (Some d) \<Rightarrow>
           let first = (case sort_key page_number (pages_of t k db) of [] \<Rightarrow> None | p # _ \<Rightarrow> Some p);
               kinds = counts_by arrange block_kind (blocks_of t k db);
               statuses = counts_by arrange block_status (blocks_of t k db);
               all_n = sum_list (map snd statuses);
               chunked = length (chunks_of t k db)
           in if \<not> pg_up (site_queue s) then Inl internal
              else Inr \<lparr>st_source = (storage_key d \<noteq> []), st_pages = page_count t k db,
                st_width = Option.bind first page_width, st_height = Option.bind first page_height,
                st_kinds = kinds, st_blocks = sum_list (map snd kinds), st_statuses = statuses, st_total = all_n,
                st_unaccounted = percent (group_of ''pending'' statuses) all_n, st_chunked = percent chunked all_n,
                st_claimed = percent (group_of ''claimed'' statuses) all_n, st_chunks = chunked, st_job = latest_job t k (site_queue s)\<rparr>)"

section \<open>Frames\<close>

lemma on_library_cases:
  assumes "on_library f s = (x, s')"
  shows "con s' = con s" "f (library s) = (x, library s')" "site_queue s' = site_queue s"
    "know (wd (srv s')) = know (wd (srv s))"
proof -
  have s': "s' = snd (on_library f s)" "x = fst (on_library f s)" using assms by simp_all
  show "con s' = con s" "f (library s) = (x, library s')" "site_queue s' = site_queue s" "know (wd (srv s')) = know (wd (srv s))"
    unfolding s' by (simp_all add: on_library_def jobs_queue_def case_prod_beta)
qed

lemma on_site_queue_cases:
  assumes "on_site_queue f s = (x, s')"
  shows "con s' = con s" "library s' = library s" "f (site_queue s) = (x, site_queue s')"
proof -
  have s': "s' = snd (on_site_queue f s)" "x = fst (on_site_queue f s)" using assms by simp_all
  show "con s' = con s" "library s' = library s" "f (site_queue s) = (x, site_queue s')"
    unfolding s' by (simp_all add: on_site_queue_def with_queue_def jobs_queue_def case_prod_beta)
qed

lemma on_site_cache_cases:
  assumes "on_site_cache f s = (x, s')"
  shows "srv s' = srv s" "f (site_cache s) = (x, site_cache s')" "plans (con s') = plans (con s)"
    "con_up (con s') = con_up (con s)" "tdb (api (con s')) = tdb (api (con s))"
proof -
  have s': "s' = snd (on_site_cache f s)" "x = fst (on_site_cache f s)" using assms by simp_all
  show "srv s' = srv s" "f (site_cache s) = (x, site_cache s')" "plans (con s') = plans (con s)" "con_up (con s') = con_up (con s)" "tdb (api (con s')) = tdb (api (con s))"
    unfolding s' by (simp_all add: on_site_cache_def case_prod_beta)
qed

lemma update_document_status_frame:
  "length (documents (snd (update_document_status t k st db))) = length (documents db)"
  "map doc_tenant (documents (snd (update_document_status t k st db))) = map doc_tenant (documents db)"
  by (auto simp: update_document_status_def update_where_def)

text \<open>What an upload does to the table of documents: nothing, or one new row of the caller's tenant.\<close>

definition one_more :: "uuid \<Rightarrow> library_db \<Rightarrow> library_db \<Rightarrow> bool" where
  "one_more t db db' = (map doc_tenant (documents db') = map doc_tenant (documents db) @ [t])"

lemma insert_document_effect:
  assumes "insert_document t d db = (x, db')"
  shows "x = None \<Longrightarrow> db' = db" "x \<noteq> None \<Longrightarrow> one_more t db db'"
proof -
  have db': "db' = snd (insert_document t d db)" "x = fst (insert_document t d db)" using assms by simp_all
  show "x = None \<Longrightarrow> db' = db" "x \<noteq> None \<Longrightarrow> one_more t db db'"
    unfolding db' by (cases "db_up db"; simp add: insert_document_def one_more_def)+
qed

lemma finish_create_documents:
  assumes "finish_create e user k s = (r, s')"
  shows "map doc_tenant (documents (library s')) = map doc_tenant (documents (library s))" "con s' = con s"
proof -
  obtain x s1 where q: "on_site_queue (enqueue (codec_of (ienv e)) ''ingest'' (auth_tenant user) (ingest_payload k (auth_user user))) s = (x, s1)"
    by (meson surj_pair)
  obtain y s2 where l: "on_library (update_document_status (auth_tenant user) k ''failed'') s1 = (y, s2)" by (meson surj_pair)
  note s1 = on_site_queue_cases(2,1) [OF q]
  have s2: "map doc_tenant (documents (library s2)) = map doc_tenant (documents (library s))" "con s2 = con s"
    using on_library_cases [OF l] s1 update_document_status_frame(2) [of "auth_tenant user" k "''failed''" "library s1"] by simp_all
  have "s' = s1 \<or> s' = s2"
    using assms by (cases x) (auto simp: finish_create_def q l split: option.splits)
  with s1 s2 show "map doc_tenant (documents (library s')) = map doc_tenant (documents (library s))" "con s' = con s" by auto
qed

lemma create_inner_effect:
  assumes "create_document_inner e user b s = (r, s')"
  shows "con s' = con s"
    and "(\<exists>doc. r = Inr doc) \<Longrightarrow> check_document_cap (auth_tenant user) (con s) (library s) = Some None
        \<and> one_more (auth_tenant user) (library s) (library s')"
    and "map doc_tenant (documents (library s')) = map doc_tenant (documents (library s)) \<or>
      check_document_cap (auth_tenant user) (con s) (library s) = Some None \<and> one_more (auth_tenant user) (library s) (library s')"
proof -
  let ?t = "auth_tenant user"
  obtain x s1 where i: "on_library (insert_document ?t (new_document_of b)) s = (x, s1)" by (meson surj_pair)
  have one: "con s1 = con s" "x = None \<Longrightarrow> library s1 = library s" "x \<noteq> None \<Longrightarrow> one_more ?t (library s) (library s1)"
    using on_library_cases(1) [OF i] insert_document_effect [OF on_library_cases(2) [OF i]] by simp_all
  have "con s' = con s \<and> ((\<exists>doc. r = Inr doc) \<longrightarrow> check_document_cap ?t (con s) (library s) = Some None \<and> one_more ?t (library s) (library s'))
    \<and> (map doc_tenant (documents (library s')) = map doc_tenant (documents (library s)) \<or>
      check_document_cap ?t (con s) (library s) = Some None \<and> one_more ?t (library s) (library s'))"
  proof (cases "check_document_cap ?t (con s) (library s) = Some None")
    case False
    with assms show ?thesis by (auto simp: create_document_inner_def split: option.splits)
  next
    case cap: True
    show ?thesis
    proof (cases x)
      case None
      with assms cap i one show ?thesis by (auto simp: create_document_inner_def)
    next
      case (Some k)
      obtain y s2 where u: "on_library (update_document_status ?t k ''processing'') s1 = (y, s2)" by (meson surj_pair)
      obtain z s3 where f: "finish_create e user k s2 = (z, s3)" by (meson surj_pair)
      have two: "con s2 = con s" "one_more ?t (library s) (library s2)"
        using on_library_cases [OF u] one Some update_document_status_frame(2) [of ?t k "''processing''" "library s1"]
        by (simp_all add: one_more_def)
      have three: "con s3 = con s" "one_more ?t (library s) (library s3)"
        using finish_create_documents [OF f] two by (simp_all add: one_more_def)
      have "s' = s2 \<and> r = Inl internal \<or> s' = s3"
        using assms by (cases y) (auto simp: create_document_inner_def cap i Some u f)
      with two three cap show ?thesis by auto
    qed
  qed
  then show "con s' = con s"
    and "(\<exists>doc. r = Inr doc) \<Longrightarrow> check_document_cap ?t (con s) (library s) = Some None \<and> one_more ?t (library s) (library s')"
    and "map doc_tenant (documents (library s')) = map doc_tenant (documents (library s)) \<or>
      check_document_cap ?t (con s) (library s) = Some None \<and> one_more ?t (library s) (library s')" by blast+
qed


section \<open>The document cap\<close>

lemma reserve_cases:
  assumes "reserve k s = (x, s')"
  shows "srv s' = srv s" "plans (con s') = plans (con s)" "con_up (con s') = con_up (con s)" "tdb (api (con s')) = tdb (api (con s))"
    "cache_set_nx_with_ttl k IDEMPOTENCY_PENDING IDEMPOTENCY_PENDING_TTL_SECS (site_cache s) = (x, site_cache s')"
  using on_site_cache_cases [OF assms [unfolded reserve_def]] by simp_all

lemma refuse_srv: "refuse k s = (r, s') \<Longrightarrow> srv s' = srv s"
proof -
  assume run: "refuse k s = (r, s')"
  obtain x s1 where g: "on_site_cache (cache_get k) s = (x, s1)" by (meson surj_pair)
  have "s' = s1" using run by (auto simp: refuse_def g split: option.splits if_splits)
  with on_site_cache_cases(1) [OF g] show ?thesis by simp
qed

lemma finalize_srv: "finalize e key (r, s) = (a, s') \<Longrightarrow> srv s' = srv s"
proof -
  assume run: "finalize e key (r, s) = (a, s')"
  have "srv (snd (on_site_cache f s)) = srv s" for f :: "redis \<Rightarrow> unit option \<times> redis"
    using on_site_cache_cases(1) [of f s "fst (on_site_cache f s)" "snd (on_site_cache f s)"] by simp
  then have "srv (snd (finalize e key (r, s))) = srv s"
    by (simp add: finalize_def case_prod_beta split: sum.split option.split)
  with run show ?thesis by simp
qed

lemma create_document_effect:
  assumes "create_document e user header b s = (a, s')"
  shows "map doc_tenant (documents (library s')) = map doc_tenant (documents (library s)) \<or>
      check_document_cap (auth_tenant user) (con s) (library s) = Some None \<and> one_more (auth_tenant user) (library s) (library s')"
proof -
  have cap: "check_document_cap t (con s1) lib = check_document_cap t (con s) lib"
    if "plans (con s1) = plans (con s)" "con_up (con s1) = con_up (con s)" "tdb (api (con s1)) = tdb (api (con s))" for s1 t lib
    unfolding check_document_cap_def tenant_plan_def get_plan_def that ..
  have work: ?thesis
    if run: "finalize e key (create_document_inner e user b s1) = (a, s')" and same: "srv s1 = srv s" "plans (con s1) = plans (con s)"
      "con_up (con s1) = con_up (con s)" "tdb (api (con s1)) = tdb (api (con s))" for key s1
  proof -
    obtain r s2 where inner: "create_document_inner e user b s1 = (r, s2)" by (meson surj_pair)
    from create_inner_effect(3) [OF inner] finalize_srv [OF run [unfolded inner]] same(1) cap [OF same(2-4)]
    show ?thesis by simp
  qed
  show ?thesis
  proof (cases "own_key user (cb_key b)")
    case False
    with assms show ?thesis by (simp add: create_document_def)
  next
    case own: True
    show ?thesis
    proof (cases "idem_key_of user header")
      case None
      with own assms show ?thesis by (intro work [of None s]) (simp_all add: create_document_def)
    next
      case (Some k)
      obtain x s1 where r: "reserve k s = (x, s1)" by (meson surj_pair)
      note same = reserve_cases [OF r]
      consider "x = None" | "x = Some False" | "x = Some True" by (cases x) auto
      then show ?thesis
      proof cases
        case 1
        with own Some assms r same show ?thesis by (simp add: create_document_def)
      next
        case 2
        with own Some assms r have "refuse k s1 = (a, s')" by (simp add: create_document_def)
        from refuse_srv [OF this] same show ?thesis by simp
      next
        case 3
        with own Some assms r same show ?thesis by (intro work [of "Some k" s1]) (simp_all add: create_document_def)
      qed
    qed
  qed
qed

definition documents_of :: "uuid \<Rightarrow> site \<Rightarrow> nat" where
  "documents_of t s = length (filter (\<lambda>d. doc_tenant d = t) (documents (library s)))"

lemma documents_of_map: "documents_of t s = length (filter (\<lambda>x. x = t) (map doc_tenant (documents (library s))))"
  by (simp add: documents_of_def filter_map comp_def)



section \<open>Idempotent creation\<close>

definition wait :: "nat \<Rightarrow> site \<Rightarrow> site" where
  "wait d s = s\<lparr>con := (con s)\<lparr>api := (api (con s))\<lparr>cache_srv := pass d (site_cache s)\<rparr>\<rparr>\<rparr>"

text \<open>
  The requests of one user that carry one idempotency key \<open>k\<close>, interleaved with each other and with
  any other change to the tables, the queue and the cache's other keys. A state of a run has the start times of
  the requests in flight and the number of creations answered so far; time passes as long as no
  request in flight gets a minute old.
\<close>

inductive upload_run :: "site_env \<Rightarrow> authed_user \<Rightarrow> string \<Rightarrow> site \<Rightarrow> site \<Rightarrow> nat list \<Rightarrow> nat \<Rightarrow> bool"
  for e user k s0 where
  idle: "upload_run e user k s0 s0 [] 0"
| admitted: "upload_run e user k s0 s F n \<Longrightarrow> reserve k s = (Some True, s') \<Longrightarrow>
    upload_run e user k s0 s' (clock (site_cache s) # F) n"
| refused: "upload_run e user k s0 s F n \<Longrightarrow> reserve k s = (Some False, s1) \<Longrightarrow> refuse k s1 = (r, s') \<Longrightarrow>
    upload_run e user k s0 s' F n"
| answered: "upload_run e user k s0 s F n \<Longrightarrow> t \<in> set F \<Longrightarrow> finalize e (Some k) (create_document_inner e user b s) = (Inr x, s') \<Longrightarrow>
    upload_run e user k s0 s' (remove1 t F) (n + 1)"
| failed: "upload_run e user k s0 s F n \<Longrightarrow> t \<in> set F \<Longrightarrow> finalize e (Some k) (create_document_inner e user b s) = (Inl err, s') \<Longrightarrow>
    upload_run e user k s0 s' (remove1 t F) n"
| others: "upload_run e user k s0 s F n \<Longrightarrow> live (site_cache s') k = live (site_cache s) k \<Longrightarrow> clock (site_cache s') = clock (site_cache s) \<Longrightarrow>
    link_up (site_cache s') = link_up (site_cache s) \<Longrightarrow> upload_run e user k s0 s' F n"
| elapsed: "upload_run e user k s0 s F n \<Longrightarrow> \<forall>t \<in> set F. clock (site_cache s) + d < t + IDEMPOTENCY_PENDING_TTL_SECS \<Longrightarrow>
    upload_run e user k s0 (wait d s) F n"

definition reachable_cache :: "site \<Rightarrow> bool" where
  "reachable_cache s = (\<forall>n. link_up (site_cache s) n)"

definition held :: "string \<Rightarrow> nat \<Rightarrow> site \<Rightarrow> bool" where
  "held k t s = (\<exists>x. live (site_cache s) k = Some x \<and> deadline x = Some t)"

lemma reserve_up:
  assumes "reachable_cache s" "reserve k s = (x, s')"
  shows "reachable_cache s'" "clock (site_cache s') = clock (site_cache s)"
    and "live (site_cache s) k \<noteq> None \<Longrightarrow> x = Some False \<and> live (site_cache s') k = live (site_cache s) k"
    and "x = Some True \<Longrightarrow> live (site_cache s) k = None \<and> held k (clock (site_cache s) + IDEMPOTENCY_PENDING_TTL_SECS) s'"
    and "x = Some False \<Longrightarrow> live (site_cache s') k = live (site_cache s) k"
proof -
  let ?r = "site_cache s"
  have "cache_set_nx_with_ttl k IDEMPOTENCY_PENDING IDEMPOTENCY_PENDING_TTL_SECS ?r = (x, site_cache s')" by (rule reserve_cases(5) [OF assms(2)])
  then have r': "x = Some (live ?r k = None)" "site_cache s' = (if live ?r k = None
       then put_entry k (Some \<lparr>entry_value = IDEMPOTENCY_PENDING, deadline = Some (clock ?r + IDEMPOTENCY_PENDING_TTL_SECS)\<rparr>) (?r\<lparr>issued := issued ?r + 1\<rparr>)
       else ?r\<lparr>issued := issued ?r + 1\<rparr>)"
    using assms(1) by (auto simp: cache_set_nx_with_ttl_def command_def reachable_cache_def IDEMPOTENCY_PENDING_TTL_SECS_def Let_def split: if_splits)
  have "link_up (site_cache s') = link_up ?r" unfolding r'(2) if_distrib [of link_up] by simp
  then show "reachable_cache s'" using assms(1) by (simp add: reachable_cache_def)
  show "clock (site_cache s') = clock ?r" unfolding r'(2) if_distrib [of clock] by simp
  have busy: "x = Some False" "live (site_cache s') k = live ?r k" if "live ?r k \<noteq> None"
  proof -
    from that have "site_cache s' = ?r\<lparr>issued := issued ?r + 1\<rparr>" unfolding r'(2) by (rule if_not_P)
    then show "live (site_cache s') k = live ?r k" by simp
    from that show "x = Some False" unfolding r'(1) by blast
  qed
  then show "x = Some False \<and> live (site_cache s') k = live ?r k" if "live ?r k \<noteq> None" using that by blast
  show "live ?r k = None \<and> held k (clock ?r + IDEMPOTENCY_PENDING_TTL_SECS) s'" if "x = Some True"
  proof -
    from that have none: "live ?r k = None" by (simp add: r'(1))
    then have "site_cache s' = put_entry k (Some \<lparr>entry_value = IDEMPOTENCY_PENDING,
        deadline = Some (clock ?r + IDEMPOTENCY_PENDING_TTL_SECS)\<rparr>) (?r\<lparr>issued := issued ?r + 1\<rparr>)" by (simp add: r'(2))
    with none show ?thesis by (simp add: held_def live_put_entry IDEMPOTENCY_PENDING_TTL_SECS_def)
  qed
  show "live (site_cache s') k = live ?r k" if "x = Some False"
    by (rule busy(2)) (use that r'(1) in simp)
qed

lemma refuse_up:
  assumes "reachable_cache s" "refuse k s = (r, s')"
  shows "reachable_cache s'" "clock (site_cache s') = clock (site_cache s)" "live (site_cache s') k' = live (site_cache s) k'"
    and "live (site_cache s) k = Some x \<Longrightarrow> r = (if entry_value x = IDEMPOTENCY_PENDING then Inl conflict else Inr (Replayed (entry_value x)))"
proof -
  let ?r = "site_cache s"
  obtain x s1 where g: "on_site_cache (cache_get k) s = (x, s1)" by (meson surj_pair)
  have "cache_get k ?r = (x, site_cache s1)" by (rule on_site_cache_cases(2) [OF g])
  then have x: "x = Some (map_option entry_value (live ?r k))" "site_cache s1 = ?r\<lparr>issued := issued ?r + 1\<rparr>"
    using assms(1) by (auto simp: cache_get_def command_def reachable_cache_def Let_def)
  have s': "s' = s1" using assms(2) by (auto simp: refuse_def g x split: option.splits if_splits)
  show "reachable_cache s'" "clock (site_cache s') = clock ?r" "live (site_cache s') k' = live ?r k'"
    using assms(1) unfolding s' x(2) reachable_cache_def by simp_all
  show "r = (if entry_value y = IDEMPOTENCY_PENDING then Inl conflict else Inr (Replayed (entry_value y)))" if "live ?r k = Some y" for y
    using assms(2) that by (simp add: refuse_def g x split: if_splits)
qed

lemma finalize_up:
  assumes "reachable_cache s" "finalize e (Some k) (create_document_inner e user b s) = (r, s')"
  shows "reachable_cache s'" "clock (site_cache s') = clock (site_cache s)"
    and "r = Inr y \<Longrightarrow> held k (clock (site_cache s) + IDEMPOTENCY_TTL_SECS) s'"
proof -
  obtain x s1 where inner: "create_document_inner e user b s = (x, s1)" by (meson surj_pair)
  have c: "site_cache s1 = site_cache s" using create_inner_effect(1) [OF inner] by simp
  let ?r = "site_cache s"
  have "reachable_cache s' \<and> clock (site_cache s') = clock ?r \<and> ((\<exists>y. r = Inr y) \<longrightarrow> held k (clock ?r + IDEMPOTENCY_TTL_SECS) s')"
  proof (cases x)
    case (Inl err)
    obtain z s2 where d: "on_site_cache (cache_del k) s1 = (z, s2)" by (meson surj_pair)
    have "site_cache s2 = put_entry k None (?r\<lparr>issued := issued ?r + 1\<rparr>)"
      using on_site_cache_cases(2) [OF d] assms(1) by (simp add: cache_del_def command_def reachable_cache_def c Let_def)
    moreover have "s' = s2" "r = Inl err" using assms(2) by (simp_all add: inner Inl finalize_def d)
    ultimately show ?thesis using assms(1) by (simp add: reachable_cache_def)
  next
    case (Inr doc)
    obtain z s2 where w: "on_site_cache (cache_set_with_ttl k (to_text (codec_of (ienv e)) doc) IDEMPOTENCY_TTL_SECS) s1 = (z, s2)" by (meson surj_pair)
    have z: "z = Some ()" "site_cache s2 = put_entry k (Some \<lparr>entry_value = to_text (codec_of (ienv e)) doc,
        deadline = Some (clock ?r + IDEMPOTENCY_TTL_SECS)\<rparr>) (?r\<lparr>issued := issued ?r + 1\<rparr>)"
      using on_site_cache_cases(2) [OF w] assms(1)
      by (simp_all add: cache_set_with_ttl_def command_def reachable_cache_def c IDEMPOTENCY_TTL_SECS_def Let_def)
    have "s' = s2" using assms(2) by (simp add: inner Inr finalize_def w z(1))
    then show ?thesis using assms(1) unfolding reachable_cache_def held_def by (simp add: z(2) live_put_entry IDEMPOTENCY_TTL_SECS_def)
  qed
  then show "reachable_cache s'" "clock (site_cache s') = clock ?r" "r = Inr y \<Longrightarrow> held k (clock ?r + IDEMPOTENCY_TTL_SECS) s'" by auto
qed

lemma held_wait: "held k t s \<Longrightarrow> clock (site_cache s) + d < t \<Longrightarrow> held k t (wait d s)"
  by (auto simp: held_def wait_def live_def pass_def split: option.splits if_splits)

definition one_upload :: "string \<Rightarrow> nat \<Rightarrow> site \<Rightarrow> nat list \<Rightarrow> nat \<Rightarrow> bool" where
  "one_upload k begin_clock s F n =
    ((F = [] \<and> n = 0) \<or> (\<exists>t. F = [t] \<and> n = 0 \<and> held k (t + IDEMPOTENCY_PENDING_TTL_SECS) s)
     \<or> (\<exists>t \<ge> begin_clock. F = [] \<and> n = 1 \<and> held k (t + IDEMPOTENCY_TTL_SECS) s))"

lemma upload_run_one:
  assumes "upload_run e user k s0 s F n" "reachable_cache s0"
  shows "reachable_cache s \<and> clock (site_cache s0) \<le> clock (site_cache s)
    \<and> (clock (site_cache s) < clock (site_cache s0) + IDEMPOTENCY_TTL_SECS \<longrightarrow> one_upload k (clock (site_cache s0)) s F n)"
  using assms(1)
proof induction
  case idle
  with assms(2) show ?case by (simp add: one_upload_def)
next
  case (admitted s F n s')
  note r = reserve_up [OF conjunct1 [OF admitted.IH] admitted.hyps(2)]
  have "F = [] \<and> n = 0" if "clock (site_cache s) < clock (site_cache s0) + IDEMPOTENCY_TTL_SECS"
    using admitted.IH that r(4) by (auto simp: one_upload_def held_def)
  with admitted.IH r show ?case by (auto simp: one_upload_def)
next
  case (refused s F n s1 r s')
  note a = reserve_up [OF conjunct1 [OF refused.IH] refused.hyps(2)]
  note b = refuse_up [OF a(1) refused.hyps(3)]
  have "live (site_cache s') k = live (site_cache s) k" using a(5) b(3) by simp
  with refused.IH a b show ?case by (simp add: one_upload_def held_def)
next
  case (answered s F n t b x s')
  note f = finalize_up [OF conjunct1 [OF answered.IH] answered.hyps(3)]
  have "F = [t] \<and> n = 0" if "clock (site_cache s) < clock (site_cache s0) + IDEMPOTENCY_TTL_SECS"
    using answered.IH that answered.hyps(2) by (auto simp: one_upload_def)
  with answered.IH f show ?case by (auto simp: one_upload_def)
next
  case (failed s F n t b err s')
  note f = finalize_up [OF conjunct1 [OF failed.IH] failed.hyps(3)]
  have "F = [t] \<and> n = 0" if "clock (site_cache s) < clock (site_cache s0) + IDEMPOTENCY_TTL_SECS"
    using failed.IH that failed.hyps(2) by (auto simp: one_upload_def)
  with failed.IH f show ?case by (auto simp: one_upload_def)
next
  case (others s F n s')
  then show ?case by (simp add: one_upload_def held_def reachable_cache_def)
next
  case (elapsed s F n d)
  have w: "site_cache (wait d s) = pass d (site_cache s)" by (simp add: wait_def)
  have "one_upload k (clock (site_cache s0)) (wait d s) F n"
    if late: "clock (site_cache s) + d < clock (site_cache s0) + IDEMPOTENCY_TTL_SECS"
  proof -
    from late elapsed.IH have "one_upload k (clock (site_cache s0)) s F n" by simp
    then show ?thesis using elapsed.hyps(2) late held_wait unfolding one_upload_def by fastforce
  qed
  with elapsed.IH show ?case by (simp add: w reachable_cache_def pass_def)
qed

text \<open>C2. Exactly the promise of the idempotency key, with its limits. However the requests that carry one
  key are interleaved, with a reachable cache, if none of them takes a minute, then for a day there is never more than one
  of them at work, at most one of them is answered with a created document, and after
  that answer none is at work.\<close>

theorem uploads_once_per_key:
  assumes "upload_run e user k s0 s F n" "\<forall>m. link_up (site_cache s0) m"
    and "clock (site_cache s) < clock (site_cache s0) + IDEMPOTENCY_TTL_SECS"
  shows "n + length F \<le> 1"
  using upload_run_one [OF assms(1)] assms(2,3) by (auto simp: reachable_cache_def one_upload_def)


lemma finalize_stores:
  assumes "reachable_cache s" "finalize e (Some k) (create_document_inner e user b s) = (Inr y, s')"
  shows "\<exists>doc. y = Created doc \<and> live (site_cache s') k =
    Some \<lparr>entry_value = to_text (codec_of (ienv e)) doc, deadline = Some (clock (site_cache s) + IDEMPOTENCY_TTL_SECS)\<rparr>"
proof -
  obtain x s1 where inner: "create_document_inner e user b s = (x, s1)" by (meson surj_pair)
  have c: "site_cache s1 = site_cache s" using create_inner_effect(1) [OF inner] by simp
  obtain doc where x: "x = Inr doc" using assms(2) by (cases x) (simp_all add: inner finalize_def)
  obtain z s2 where w: "on_site_cache (cache_set_with_ttl k (to_text (codec_of (ienv e)) doc) IDEMPOTENCY_TTL_SECS) s1 = (z, s2)" by (meson surj_pair)
  have z: "z = Some ()" "site_cache s2 = put_entry k (Some \<lparr>entry_value = to_text (codec_of (ienv e)) doc,
      deadline = Some (clock (site_cache s) + IDEMPOTENCY_TTL_SECS)\<rparr>) ((site_cache s)\<lparr>issued := issued (site_cache s) + 1\<rparr>)"
    using on_site_cache_cases(2) [OF w] assms(1)
    by (simp_all add: cache_set_with_ttl_def command_def reachable_cache_def c IDEMPOTENCY_TTL_SECS_def Let_def)
  have "s' = s2" "y = Created doc" using assms(2) by (simp_all add: inner x finalize_def w z(1))
  then show ?thesis by (simp add: z(2) live_put_entry IDEMPOTENCY_TTL_SECS_def)
qed

lemma create_with_key:
  assumes "create_document e user header b s = (Inr (Created doc), s')" "idem_key_of user header = Some k" "reachable_cache s"
  obtains s1 where "reserve k s = (Some True, s1)" "finalize e (Some k) (create_document_inner e user b s1) = (Inr (Created doc), s')"
proof -
  have own: "own_key user (cb_key b)" using assms(1) by (auto simp: create_document_def split: if_splits)
  obtain x s1 where r: "reserve k s = (x, s1)" by (meson surj_pair)
  consider "x = None" | "x = Some False" | "x = Some True" by (cases x) auto
  then show ?thesis
  proof cases
    case 1
    with assms own r show ?thesis by (simp add: create_document_def)
  next
    case 2
    have "refuse k s1 \<noteq> (Inr (Created doc), s')" by (auto simp: refuse_def split: prod.splits option.splits)
    with 2 assms own r show ?thesis by (simp add: create_document_def)
  next
    case 3
    with assms own r that show ?thesis by (simp add: create_document_def)
  qed
qed

text \<open>Replay: for a day after a creation was answered, a request with the same key, whatever its
  body asks for, is answered with the stored text of that answer, and changes nothing.\<close>

theorem upload_replayed:
  assumes "idem_key_of user header = Some k" "reachable_cache s" "create_document e user header b s = (Inr (Created doc), s1)"
    and "to_text (codec_of (ienv e)) doc \<noteq> IDEMPOTENCY_PENDING" "d < IDEMPOTENCY_TTL_SECS"
    and "reachable_cache s2" "live (site_cache s2) k = live (site_cache (wait d s1)) k"
    and "own_key user (cb_key b2)" "create_document e user header b2 s2 = (r, s3)"
  shows "r = Inr (Replayed (to_text (codec_of (ienv e)) doc)) \<and> srv s3 = srv s2"
proof -
  obtain s0 where s0: "reserve k s = (Some True, s0)" "finalize e (Some k) (create_document_inner e user b s0) = (Inr (Created doc), s1)"
    by (rule create_with_key [OF assms(3,1,2)])
  have up: "reachable_cache s0" by (rule reserve_up(1) [OF assms(2) s0(1)])
  let ?x = "\<lparr>entry_value = to_text (codec_of (ienv e)) doc, deadline = Some (clock (site_cache s0) + IDEMPOTENCY_TTL_SECS)\<rparr>"
  have "live (site_cache s1) k = Some ?x" using finalize_stores [OF up s0(2)] by auto
  moreover have "clock (site_cache s1) = clock (site_cache s0)" by (rule finalize_up(2) [OF up s0(2)])
  ultimately have "live (site_cache s2) k = Some ?x"
    using assms(5,7) by (auto simp: wait_def live_def pass_def split: option.splits if_splits)
  moreover obtain y s4 where y: "reserve k s2 = (y, s4)" by (meson surj_pair)
  ultimately have y4: "y = Some False" "live (site_cache s4) k = Some ?x" "reachable_cache s4" "srv s4 = srv s2"
    using reserve_up(1,3) [OF assms(6) y] reserve_cases(1) [OF y] by simp_all
  then have ref: "refuse k s4 = (r, s3)" using assms(1,8,9) y by (simp add: create_document_def)
  from refuse_up(4) [OF y4(3) ref y4(2)] refuse_srv [OF ref] y4(4) assms(4) show ?thesis by simp
qed

text \<open>The limit of the promise: a request that has been at work for a minute no longer holds its key. A
  second request with the key is admitted, and when both finish their work there are two documents.\<close>

theorem slow_upload_twice:
  assumes "reachable_cache s" "reserve k s = (Some True, s1)" "IDEMPOTENCY_PENDING_TTL_SECS \<le> d"
  shows "\<exists>s2. reserve k (wait d s1) = (Some True, s2)
    \<and> (\<forall>doc1 doc2 s3 s4 x s5. create_document_inner e user b s2 = (Inr doc2, s3) \<and> finalize e (Some k) (Inr doc2, s3) = (x, s4)
        \<and> create_document_inner e user b s4 = (Inr doc1, s5) \<longrightarrow> documents_of (auth_tenant user) s5 = documents_of (auth_tenant user) s + 2)"
proof -
  note a = reserve_up [OF assms(1,2)]
  have up: "reachable_cache (wait d s1)" using a(1) by (simp add: reachable_cache_def wait_def pass_def)
  obtain y s2 where y: "reserve k (wait d s1) = (y, s2)" by (meson surj_pair)
  have "held k (clock (site_cache s) + IDEMPOTENCY_PENDING_TTL_SECS) s1" using a(4) by simp
  then have "live (site_cache (wait d s1)) k = None"
    using assms(3) a(2) by (auto simp: held_def wait_def live_def pass_def split: option.splits if_splits)
  then have "y = Some True"
    using reserve_cases(5) [OF y] up
    by (auto simp: cache_set_nx_with_ttl_def command_def reachable_cache_def IDEMPOTENCY_PENDING_TTL_SECS_def Let_def split: if_splits)
  moreover have "documents_of (auth_tenant user) s5 = documents_of (auth_tenant user) s + 2"
    if "create_document_inner e user b s2 = (Inr doc2, s3)" "finalize e (Some k) (Inr doc2, s3) = (x, s4)"
      "create_document_inner e user b s4 = (Inr doc1, s5)" for doc1 doc2 s3 s4 x s5
  proof -
    have "srv s2 = srv s" using reserve_cases(1) [OF y] reserve_cases(1) [OF assms(2)] by (simp add: wait_def)
    moreover have "one_more (auth_tenant user) (library s2) (library s3)" "one_more (auth_tenant user) (library s4) (library s5)"
      using create_inner_effect(2) [OF that(1)] create_inner_effect(2) [OF that(3)] by simp_all
    moreover have "srv s4 = srv s3" by (rule finalize_srv [OF that(2)])
    ultimately show ?thesis by (simp add: documents_of_map one_more_def)
  qed
  ultimately show ?thesis using y by blast
qed


section \<open>What a creation leaves behind\<close>

definition processing_row :: "uuid \<Rightarrow> uuid \<Rightarrow> create_body \<Rightarrow> document_row" where
  "processing_row t k b = \<lparr>doc_key = k, doc_tenant = t, storage_key = cb_key b,
     sha256 = (case cb_sha256 b of None \<Rightarrow> [] | Some x \<Rightarrow> x), doc_title = title_of b,
     source_type = (case cb_source b of None \<Rightarrow> ''upload'' | Some x \<Rightarrow> x), doc_owner = None, doc_course = None,
     doc_folder = cb_folder b, doc_status = ''processing''\<rparr>"

lemma fresh_status_update:
  assumes "\<forall>d \<in> set ds. doc_key d < k" "doc_key r = k" "doc_tenant r = t"
  shows "length (filter (own_document t k) (ds @ [r])) = 1" "find (own_document t k) (ds @ [r]) = Some r"
    "update_where (own_document t k) f (ds @ [r]) = ds @ [f r]"
proof -
  have none: "\<not> own_document t k d" if "d \<in> set ds" for d using assms(1) that by (auto simp: own_document_def)
  have own: "own_document t k r" using assms(2,3) by (simp add: own_document_def)
  have "filter (own_document t k) ds = []" using none by (simp add: filter_empty_conv)
  with own show "length (filter (own_document t k) (ds @ [r])) = 1" by simp
  have "find (own_document t k) ds = None" using none by (simp add: find_None_iff)
  with own show "find (own_document t k) (ds @ [r]) = Some r" by (simp add: find_append)
  have "map (\<lambda>d. if own_document t k d then f d else d) ds = ds" using none by (simp add: map_idI)
  with own show "update_where (own_document t k) f (ds @ [r]) = ds @ [f r]" by (simp add: update_where_def)
qed

text \<open>A creation within the cap, on answering stores: the answer shows the document that was
  stored last, at work and with no pages yet, under the next free identifier, and its ingest job is in the queue under the
  identifier shown with it.\<close>

theorem create_document_enqueues:
  assumes "check_document_cap (auth_tenant user) (con s) (library s) = Some None" "db_up (library s)"
    and "\<forall>d \<in> set (documents (library s)). doc_key d < row_supply (library s)"
    and "enqueue (codec_of (ienv e)) ''ingest'' (auth_tenant user) (ingest_payload (row_supply (library s)) (auth_user user)) (site_queue s) = (Some job, q)"
  shows "\<exists>s'. create_document_inner e user b s =
      (Inr (JObj (document_json (processing_row (auth_tenant user) (row_supply (library s)) b) 0 0 @ [(''jobId'', JStr (show_nat job))])), s')
    \<and> documents (library s') = documents (library s) @ [processing_row (auth_tenant user) (row_supply (library s)) b]
    \<and> site_queue s' = q \<and> con s' = con s"
proof -
  let ?t = "auth_tenant user" and ?k = "row_supply (library s)"
  let ?new = "(processing_row ?t ?k b)\<lparr>doc_status := ''pending''\<rparr>"
  have new: "doc_key ?new = ?k" "doc_tenant ?new = ?t" by (simp_all add: processing_row_def)
  obtain x s1 where i: "on_library (insert_document ?t (new_document_of b)) s = (x, s1)" by (meson surj_pair)
  have ins: "insert_document ?t (new_document_of b) (library s) =
      (Some ?k, (library s)\<lparr>documents := documents (library s) @ [?new], row_supply := ?k + 1\<rparr>)"
    using assms(2) by (simp add: insert_document_def new_document_of_def processing_row_def)
  note one = on_library_cases [OF i]
  from one(2) have l1: "x = Some ?k" "library s1 = (library s)\<lparr>documents := documents (library s) @ [?new], row_supply := ?k + 1\<rparr>"
    unfolding ins by simp_all
  have s1: "x = Some ?k" "documents (library s1) = documents (library s) @ [?new]" "db_up (library s1)"
    using assms(2) by (simp_all add: l1)
  obtain y s2 where u: "on_library (update_document_status ?t ?k ''processing'') s1 = (y, s2)" by (meson surj_pair)
  note two = on_library_cases [OF u]
  note fr = fresh_status_update [OF assms(3) new]
  have "update_document_status ?t ?k ''processing'' (library s1) = (Some (),
      (library s1)\<lparr>documents := documents (library s) @ [processing_row ?t ?k b]\<rparr>)"
    using s1(3) fr by (simp add: update_document_status_def s1(2) processing_row_def)
  with two(2) have s2: "y = Some ()" "library s2 = (library s1)\<lparr>documents := documents (library s) @ [processing_row ?t ?k b]\<rparr>"
    by simp_all
  obtain z s3 where f: "on_site_queue (enqueue (codec_of (ienv e)) ''ingest'' ?t (ingest_payload ?k (auth_user user))) s2 = (z, s3)"
    by (meson surj_pair)
  note three = on_site_queue_cases [OF f]
  have "site_queue s2 = site_queue s" using one(3) two(3) by simp
  then have z: "z = Some job" "site_queue s3 = q" using three(3) assms(4) by simp_all
  have "find (own_document ?t ?k) (documents (library s3)) = Some (processing_row ?t ?k b)"
    unfolding three(2) s2(2) by (simp, rule fresh_status_update(2) [OF assms(3)]) (simp_all add: processing_row_def)
  then have "find_document ?t ?k (library s3) = Some (Some (processing_row ?t ?k b))"
    using s1(3) unfolding find_document_def three(2) s2(2) by simp
  then have "create_document_inner e user b s = (Inr (JObj (document_json (processing_row ?t ?k b) 0 0 @ [(''jobId'', JStr (show_nat job))])), s3)"
    by (simp add: create_document_inner_def assms(1) i s1(1) u s2(1) finish_create_def f z(1))
  moreover have "documents (library s3) = documents (library s) @ [processing_row ?t ?k b]" by (simp add: three(2) s2(2))
  moreover have "con s3 = con s" using one(1) two(1) three(1) by simp
  ultimately show ?thesis using z(2) by blast
qed

section \<open>Names of uploads\<close>

lemma hex_digit_safe: "d < 16 \<Longrightarrow> is_ascii_alphanumeric (hex_digit d)"
  by (simp add: hex_digit_def is_ascii_alphanumeric_def code_of_char_of Let_def)

lemma simple_uuid_hex: "c \<in> set (simple_uuid k) \<Longrightarrow> is_ascii_alphanumeric c"
  using hex_digit_safe by (auto simp: simple_uuid_def hex_def uuid_bytes_def less_mult_imp_div_less)

lemma simple_uuid_length [simp]: "length (simple_uuid k) = 32"
  by (simp add: simple_uuid_def hex_length uuid_bytes_def)

lemma set_take_drop_simple: "c \<in> set (take n (simple_uuid k)) \<Longrightarrow> is_ascii_alphanumeric c"
  "c \<in> set (take n (drop m (simple_uuid k))) \<Longrightarrow> is_ascii_alphanumeric c"
  "c \<in> set (drop m (simple_uuid k)) \<Longrightarrow> is_ascii_alphanumeric c"
  by (meson in_set_takeD in_set_dropD simple_uuid_hex)+

lemma uuid_text_chars: "c \<in> set (uuid_text k) \<Longrightarrow> is_ascii_alphanumeric c \<or> c = CHR ''-''"
  by (auto simp: uuid_text_def Let_def dest: set_take_drop_simple)

lemma not_alnum: "\<not> is_ascii_alphanumeric CHR ''-''" "\<not> is_ascii_alphanumeric CHR ''.''" "\<not> is_ascii_alphanumeric CHR ''/''"
  by code_simp+

lemma trim_matches_subset: "set (trim_matches cs s) \<subseteq> set s"
  unfolding trim_matches_def by (auto dest!: set_dropWhileD)

lemma sanitize_filename_safe: "c \<in> set (sanitize_filename nm) \<Longrightarrow> safe_char c"
proof -
  have plain: "safe_char c" if "c \<in> set ''file''" for c
  proof -
    have "list_all safe_char ''file''" by code_simp
    then show ?thesis using that unfolding list_all_iff by blast
  qed
  have under: "safe_char CHR ''_''" by (simp add: safe_char_def)
  assume c: "c \<in> set (sanitize_filename nm)"
  let ?cleaned = "map (\<lambda>c. if safe_char c then c else CHR ''_'') nm"
  have "c \<in> set ''file'' \<or> c \<in> set (trim_matches {CHR ''.'', CHR ''_''} ?cleaned)"
    using in_set_takeD [OF c [unfolded sanitize_filename_def Let_def]] by (auto split: if_splits)
  then show ?thesis using plain under trim_matches_subset [of _ ?cleaned] by (fastforce split: if_splits)
qed


lemma contains_str_prefix: "CHR ''.'' \<notin> set xs \<Longrightarrow> contains_str (xs @ ys) ''..'' = contains_str ys ''..''"
proof (induction xs)
  case (Cons c xs)
  then have "\<not> starts_with (c # xs @ ys) ''..''" by (auto simp: starts_with_def)
  with Cons show ?case by simp
qed simp

lemma presign_key:
  assumes "presign e user nm s = (Inr (url, key), s')"
  shows "\<exists>k. key = uuid_text (auth_tenant user) @ ''/'' @ uuid_text k @ ''-'' @ sanitize_filename nm"
  using assms by (auto simp: presign_def Let_def split: prod.splits option.splits)

text \<open>Which uploads can be registered. The object key that the presigner hands out lies under the
  caller's own prefix, and every name in it is made of letters, digits, dots, underscores and
  hyphens only; but the creation that follows accepts the key only if the cleaned file name has no two
  dots in a row.\<close>

theorem presigned_key_accepted:
  assumes "presign e user nm s = (Inr (url, key), s')"
  shows "own_key user key = (\<not> contains_str (sanitize_filename nm) ''..'')
    \<and> (\<exists>k. key = uuid_text (auth_tenant user) @ ''/'' @ uuid_text k @ ''-'' @ sanitize_filename nm)
    \<and> (\<forall>c \<in> set (sanitize_filename nm). safe_char c)"
proof -
  obtain k where key: "key = uuid_text (auth_tenant user) @ ''/'' @ uuid_text k @ ''-'' @ sanitize_filename nm"
    using presign_key [OF assms] by blast
  have "CHR ''.'' \<notin> set (uuid_text t)" for t using uuid_text_chars [of "CHR ''.''" t] not_alnum by auto
  then have "CHR ''.'' \<notin> set (uuid_text (auth_tenant user) @ ''/'' @ uuid_text k @ ''-'')" by simp
  from contains_str_prefix [OF this, of "sanitize_filename nm"]
  have "contains_str key ''..'' = contains_str (sanitize_filename nm) ''..''" by (simp add: key)
  moreover have "starts_with key (uuid_text (auth_tenant user) @ ''/'')" by (simp add: key starts_with_def)
  ultimately show ?thesis using key sanitize_filename_safe by (auto simp: own_key_def)
qed

text \<open>The title of an upload that is registered without one is not its file name: the text of the
  identifier in the object key is cut at its first hyphen, so the rest of the identifier stays in front.\<close>

theorem default_title_keeps_identifier:
  assumes "presign e user nm s = (Inr (url, key), s')" "cb_key b = key" "cb_title b = None"
  shows "\<exists>k. title_of b = drop 9 (uuid_text k) @ ''-'' @ sanitize_filename nm \<and> title_of b \<noteq> sanitize_filename nm"
proof -
  obtain k where key: "key = uuid_text (auth_tenant user) @ ''/'' @ uuid_text k @ ''-'' @ sanitize_filename nm"
    using presign_key [OF assms(1)] by blast
  have slash: "CHR ''/'' \<notin> set (uuid_text t)" for t using uuid_text_chars [of "CHR ''/''" t] not_alnum by auto
  have "CHR ''/'' \<notin> set (sanitize_filename nm)"
    using sanitize_filename_safe [of "CHR ''/''" nm] not_alnum by (auto simp: safe_char_def)
  moreover have "CHR ''/'' \<notin> set (uuid_text k)" by (rule slash)
  ultimately have "\<forall>c \<in> set (uuid_text k @ ''-'' @ sanitize_filename nm). \<not> c = CHR ''/''" by auto
  then have rest: "split_by (\<lambda>c. c = CHR ''/'') (uuid_text k @ ''-'' @ sanitize_filename nm) = [uuid_text k @ ''-'' @ sanitize_filename nm]"
    by (rule split_by_no_sep)
  have "\<forall>c \<in> set (uuid_text (auth_tenant user)). \<not> c = CHR ''/''" using slash by auto
  from split_by_append [of _ "\<lambda>c. c = CHR ''/''" "CHR ''/''", OF this HOL.refl, of "uuid_text k @ ''-'' @ sanitize_filename nm"]
  have "split_on CHR ''/'' key = [uuid_text (auth_tenant user), uuid_text k @ ''-'' @ sanitize_filename nm]"
    unfolding key split_on_def rest by simp
  then have l: "last (split_on CHR ''/'' key) = uuid_text k @ ''-'' @ sanitize_filename nm" by simp
  let ?h = "simple_uuid k"
  have u: "uuid_text k = take 8 ?h @ CHR ''-'' # drop 9 (uuid_text k)" by (simp add: uuid_text_def Let_def)
  have "CHR ''-'' \<notin> set (take 8 ?h)" using set_take_drop_simple(1) [of "CHR ''-''" 8 k] not_alnum by auto
  then have "takeWhile (\<lambda>c. c \<noteq> CHR ''-'') (take 8 ?h @ CHR ''-'' # ys) = take 8 ?h"
    "dropWhile (\<lambda>c. c \<noteq> CHR ''-'') (take 8 ?h @ CHR ''-'' # ys) = CHR ''-'' # ys" for ys
    by (auto simp: takeWhile_append dropWhile_append)
  then have "split_once CHR ''-'' (uuid_text k @ ''-'' @ sanitize_filename nm) =
      Some (take 8 ?h, drop 9 (uuid_text k) @ ''-'' @ sanitize_filename nm)"
    by (subst u) (simp add: split_once_def)
  then have "title_of b = drop 9 (uuid_text k) @ ''-'' @ sanitize_filename nm"
    by (simp add: title_of_def assms(2,3) default_title_def l)
  moreover have "length (drop 9 (uuid_text k) @ ''-'' @ sanitize_filename nm) \<noteq> length (sanitize_filename nm)" by simp
  ultimately show ?thesis by metis
qed


section \<open>Concrete uploads\<close>

definition plain_site :: site_env where
  "plain_site = \<lparr>ienv = plain_ingest, presign_put = (\<lambda>_ _ _. Some ''put''), presign_get = (\<lambda>_ _ _. Some ''get'')\<rparr>"

definition site_start :: site where
  "site_start = \<lparr>con = console_start, srv = worker_start\<rparr>"

definition uploader :: authed_user where
  "uploader = \<lparr>auth_user = 2, auth_tenant = 5, auth_role = ''owner'', auth_session = 4\<rparr>"

definition upload_body :: create_body where
  "upload_body = \<lparr>cb_key = uuid_text 5 @ ''/b.pdf'', cb_title = Some ''B'', cb_sha256 = None, cb_source = None, cb_folder = None\<rparr>"

lemma site_start_library: "library site_start = (library_of [])\<lparr>documents := [uploaded]\<rparr>"
  by (simp add: site_start_def worker_start_def with_queue_def quiet_world_def ingest_start_def)

lemma site_start_queue: "site_queue site_start = idle_queue"
  by (simp add: site_start_def worker_start_def jobs_queue_def with_queue_def)

lemma site_start_cache: "reachable_cache site_start" "live (site_cache site_start) k = None" "clock (site_cache site_start) = 0"
  by (simp_all add: reachable_cache_def live_def site_start_def console_start_def start_state_def up_redis_def)

lemma site_start_plan: "tenant_plan 5 (con site_start) = Some free_plan"
proof -
  have "con_up console_start" by (simp add: console_start_def)
  then show ?thesis
    using console_tenant by (simp add: tenant_plan_def get_plan_def site_start_def) (simp add: console_start_def free_plan_def)
qed

lemma site_start_cap: "check_document_cap 5 (con site_start) (library site_start) = Some None"
  unfolding check_document_cap_def site_start_plan
  by (simp add: site_start_library document_count_def library_of_def uploaded_def free_plan_def)

lemma plain_enqueue: "enqueue plain_codec ''ingest'' 5 p idle_queue =
    (Some 1, snd (enqueue plain_codec ''ingest'' 5 p idle_queue))"
  by (simp add: enqueue_def idle_queue_def insert_job_def seq_def publish_to_def publish_def send_def
      xadd_def Let_def queued_row_def get_key_def split: option.splits)

theorem create_document_enqueues_witness:
  "\<exists>s'. create_document_inner plain_site uploader upload_body site_start =
      (Inr (JObj (document_json (processing_row 5 100 upload_body) 0 0 @ [(''jobId'', JStr (show_nat 1))])), s')
    \<and> documents (library s') = [uploaded, processing_row 5 100 upload_body]"
proof -
  have u: "auth_tenant uploader = 5" "codec_of (ienv plain_site) = plain_codec" by (simp_all add: uploader_def plain_site_def plain_ingest_def)
  have lib: "row_supply (library site_start) = 100" "documents (library site_start) = [uploaded]" "db_up (library site_start)"
    "\<forall>d \<in> set (documents (library site_start)). doc_key d < row_supply (library site_start)"
    by (simp_all add: site_start_library library_of_def uploaded_def)
  have q: "enqueue (codec_of (ienv plain_site)) ''ingest'' (auth_tenant uploader)
      (ingest_payload (row_supply (library site_start)) (auth_user uploader)) (site_queue site_start)
    = (Some 1, snd (enqueue plain_codec ''ingest'' 5 (ingest_payload 100 (auth_user uploader)) idle_queue))"
    unfolding u lib site_start_queue by (rule plain_enqueue)
  have cap: "check_document_cap (auth_tenant uploader) (con site_start) (library site_start) = Some None"
    unfolding u by (rule site_start_cap)
  from create_document_enqueues [OF cap lib(3,4) q, of upload_body] show ?thesis unfolding u lib by auto
qed

theorem uploads_once_per_key_witness:
  "\<exists>s'. upload_run plain_site uploader ''idem:k'' site_start s' [0] 0 \<and> 0 + length [0 :: nat] \<le> (1 :: nat)"
proof -
  obtain s' where r: "reserve ''idem:k'' site_start = (Some True, s')"
    by (simp add: reserve_def on_site_cache_def cache_set_nx_with_ttl_def command_def Let_def site_start_def console_start_def start_state_def
        up_redis_def live_def IDEMPOTENCY_PENDING_TTL_SECS_def split: prod.split)
  have run: "upload_run plain_site uploader ''idem:k'' site_start s' [0] 0"
    using upload_run.admitted [OF upload_run.idle r] by (simp add: site_start_cache)
  have "clock (site_cache s') = 0" using reserve_up(2) [OF site_start_cache(1) r] by (simp add: site_start_cache)
  then have "clock (site_cache s') < clock (site_cache site_start) + IDEMPOTENCY_TTL_SECS" by (simp add: IDEMPOTENCY_TTL_SECS_def)
  with uploads_once_per_key [OF run] run show ?thesis using site_start_cache(1) by (auto simp: reachable_cache_def)
qed


end
