(* ===== verification/Processing.thy ===== *)
theory Processing
  imports Documents
begin

text \<open>
  The processing monitor, \<open>insight-api/src/routes/processing.rs\<close> and \<open>routes/jobs.rs\<close>, over the jobs
  table, the documents and the queue of a \<open>site\<close>. An editor can cancel a job and start the ingest of its
  document again; the worker sees the cancellation between the stages of the pipeline. Both tables are in one
  database, which answers a transaction when it is up for both. Time stamps of the answers are left out;
  the subscription of the live stream only forwards what the queue publishes.
\<close>

section \<open>The list of jobs\<close>

definition stage_label :: "string \<Rightarrow> string" where
  "stage_label st = (if st = ''cancelled'' then ''failed'' else st)"

definition require_editor :: "authed_user \<Rightarrow> api_error + unit" where
  "require_editor user = (if role_rank (auth_role user) < role_rank ''editor'' then Inl forbidden else Inr ())"

definition store_answers :: "site \<Rightarrow> bool" where
  "store_answers s = (pg_up (site_queue s) \<and> db_up (library s))"

record processing_item =
  pi_id :: uuid
  pi_document :: string
  pi_title :: string
  pi_stage :: string
  pi_progress :: int
  pi_message :: string

definition names_document :: "job_row \<Rightarrow> bool" where
  "names_document j = (get_key (job_payload j) ''documentId'' \<noteq> None)"

text \<open>The join casts the text to an identifier; a text that is none fails the query.\<close>

definition joined_document :: "uuid \<Rightarrow> job_row \<Rightarrow> library_db \<Rightarrow> document_row option" where
  "joined_document t j db = Option.bind (Option.bind (payload_document j) parse_uuid) (\<lambda>k. find (own_document t k) (documents db))"

definition castable :: "job_row \<Rightarrow> bool" where
  "castable j = (case payload_document j of None \<Rightarrow> True | Some x \<Rightarrow> parse_uuid x \<noteq> None)"

definition processing_item_of :: "uuid \<Rightarrow> library_db \<Rightarrow> job_row \<Rightarrow> processing_item" where
  "processing_item_of t db j = \<lparr>pi_id = job_key j,
     pi_document = (case payload_document j of None \<Rightarrow> [] | Some x \<Rightarrow> x),
     pi_title = (case joined_document t j db of None \<Rightarrow> ''Untitled'' | Some d \<Rightarrow> doc_title d),
     pi_stage = stage_label (job_status j), pi_progress = job_progress j,
     pi_message = (case last_error j of None \<Rightarrow> [] | Some m \<Rightarrow> m)\<rparr>"

definition list_processing :: "authed_user \<Rightarrow> site \<Rightarrow> api_error + processing_item list" where
  "list_processing user s =
     (let t = auth_tenant user; rows = filter (\<lambda>j. job_tenant j = t \<and> names_document j) (jobs (site_queue s))
      in if \<not> store_answers s \<or> \<not> list_all castable rows then Inl internal
         else Inr (map (processing_item_of t (library s)) (take 200 (sort_key (\<lambda>j. - int (job_updated j)) rows))))"

record job_view =
  jv_id :: uuid
  jv_kind :: string
  jv_status :: string
  jv_progress :: int
  jv_error :: "string option"

definition get_job :: "authed_user \<Rightarrow> uuid \<Rightarrow> site \<Rightarrow> api_error + job_view" where
  "get_job user k s = (if \<not> store_answers s then Inl internal
     else case job_of (auth_tenant user) k (site_queue s) of None \<Rightarrow> Inl not_found
       | Some j \<Rightarrow> Inr \<lparr>jv_id = job_key j, jv_kind = job_kind j, jv_status = job_status j,
           jv_progress = job_progress j, jv_error = last_error j\<rparr>)"

section \<open>Statistics\<close>

record stage_counts =
  by_stage :: "string \<Rightarrow> nat option"
  sc_total :: nat
  sc_queued :: nat
  sc_completed :: nat
  sc_failed :: nat

definition no_counts :: stage_counts where
  "no_counts = \<lparr>by_stage = (\<lambda>_. None), sc_total = 0, sc_queued = 0, sc_completed = 0, sc_failed = 0\<rparr>"

definition add_count :: "string \<times> nat \<Rightarrow> stage_counts \<Rightarrow> stage_counts" where
  "add_count g c = (case g of (st, n) \<Rightarrow>
     \<lparr>by_stage = (by_stage c)(stage_label st \<mapsto> n), sc_total = sc_total c + n,
      sc_queued = (if st = ''queued'' then sc_queued c + n else sc_queued c),
      sc_completed = (if st = ''done'' then sc_completed c + n else sc_completed c),
      sc_failed = (if st = ''failed'' \<or> st = ''cancelled'' then sc_failed c + n else sc_failed c)\<rparr>)"

definition DAY_MS :: nat where "DAY_MS = 24 * 60 * 60 * 1000"

definition within_day :: "queue_state \<Rightarrow> job_row \<Rightarrow> bool" where
  "within_day q j = (q_now q < job_updated j + DAY_MS)"

record pipeline_stats =
  ps_counts :: stage_counts
  ps_active :: nat
  ps_documents :: nat
  ps_by_status :: "(string \<times> nat) list"
  ps_chunks :: nat
  ps_claims :: nat
  ps_success :: "f64 option"
  ps_day_done :: nat
  ps_day_failed :: nat

definition success_rate :: "nat \<Rightarrow> nat \<Rightarrow> f64 option" where
  "success_rate completed failed = (if completed + failed > 0 then Some (real completed / real (completed + failed)) else None)"

text \<open>The clamp of \<open>active\<close> at zero is the truncated subtraction of \<open>nat\<close>.\<close>

definition processing_stats :: "(string list \<Rightarrow> string list) \<Rightarrow> authed_user \<Rightarrow> site \<Rightarrow> api_error + pipeline_stats" where
  "processing_stats arrange user s =
     (let t = auth_tenant user; q = site_queue s; db = library s; kn = know (wd (srv s));
          mine = filter (\<lambda>j. job_tenant j = t) (jobs q);
          c = fold add_count (counts_by arrange job_status mine) no_counts;
          docs = counts_by arrange doc_status (filter (\<lambda>d. doc_tenant d = t) (documents db))
      in if \<not> store_answers s \<or> \<not> know_up kn then Inl internal
         else Inr \<lparr>ps_counts = c, ps_active = sc_total c - sc_queued c - sc_completed c - sc_failed c,
           ps_documents = sum_list (map snd docs), ps_by_status = docs,
           ps_chunks = length (filter (\<lambda>x. chunk_tenant x = t) (chunks db)),
           ps_claims = length (filter (\<lambda>x. cl_tenant x = t) (claims kn)),
           ps_success = success_rate (sc_completed c) (sc_failed c),
           ps_day_done = length (filter (\<lambda>j. job_status j = ''done'' \<and> within_day q j) mine),
           ps_day_failed = length (filter (\<lambda>j. job_status j \<in> {''failed'', ''cancelled''} \<and> within_day q j) mine)\<rparr>)"

section \<open>Cancelling and retrying\<close>

definition cancel_row :: "uuid \<Rightarrow> uuid \<Rightarrow> queue_state \<Rightarrow> queue_state" where
  "cancel_row t k q = q\<lparr>jobs := update_where (\<lambda>j. job_key j = k \<and> job_tenant j = t)
     (\<lambda>j. j\<lparr>job_status := ''cancelled'', last_error := Some ''Cancelled by user'', job_updated := q_now q\<rparr>) (jobs q)\<rparr>"

definition doc_of_job :: "job_row \<Rightarrow> uuid option" where
  "doc_of_job j = Option.bind (payload_document j) parse_uuid"

definition cancel_document :: "uuid \<Rightarrow> job_row \<Rightarrow> library_db \<Rightarrow> unit option \<times> library_db" where
  "cancel_document t j db = (case doc_of_job j of None \<Rightarrow> (Some (), db) | Some d \<Rightarrow> set_doc_status t d ''failed'' db)"

text \<open>The answer tells whether the job had completed already.\<close>

definition cancel_job :: "authed_user \<Rightarrow> uuid \<Rightarrow> site \<Rightarrow> (api_error + bool) \<times> site" where
  "cancel_job user k s =
     (case require_editor user of Inl err \<Rightarrow> (Inl err, s)
      | Inr _ \<Rightarrow> if \<not> store_answers s then (Inl internal, s)
          else (case job_of (auth_tenant user) k (site_queue s) of
             None \<Rightarrow> (Inl not_found, s)
           | Some j \<Rightarrow> if job_status j = ''done'' then (Inr True, s)
               else (Inr False, snd (on_library (cancel_document (auth_tenant user) j)
                 (snd (on_site_queue (\<lambda>q. (Some (), cancel_row (auth_tenant user) k q)) s))))))"

definition retry_job :: "site_env \<Rightarrow> authed_user \<Rightarrow> uuid \<Rightarrow> site \<Rightarrow> (api_error + unit) \<times> site" where
  "retry_job e user k s =
     (case require_editor user of Inl err \<Rightarrow> (Inl err, s)
      | Inr _ \<Rightarrow> if \<not> store_answers s then (Inl internal, s)
          else (case Option.bind (job_of (auth_tenant user) k (site_queue s)) doc_of_job of
             None \<Rightarrow> (Inl not_found, s)
           | Some d \<Rightarrow> (case on_library (update_document_status (auth_tenant user) d ''processing'') s of
                 (None, s) \<Rightarrow> (Inl internal, s)
               | (Some _, s) \<Rightarrow> (case on_site_queue (enqueue (codec_of (ienv e)) ''ingest'' (auth_tenant user)
                       (ingest_payload d (auth_user user))) s of
                     (None, s) \<Rightarrow> (Inl internal, s)
                   | (Some _, s) \<Rightarrow> (Inr (), s)))))"


section \<open>The statistics add up\<close>

lemma count_groups:
  assumes "distinct ks" "f ` set rows \<subseteq> set ks"
  shows "sum_list (map (\<lambda>k. if P k then length (filter (\<lambda>r. f r = k) rows) else 0) ks) = length (filter (\<lambda>r. P (f r)) rows)"
  using assms(2)
proof (induction rows)
  case (Cons r rows)
  have one: "sum_list (map (\<lambda>k. if P k \<and> f r = k then 1 else 0) ks) = (if P (f r) then 1 else 0 :: nat)"
  proof -
    have "sum_list (map (\<lambda>k. if P k \<and> f r = k then 1 else 0 :: nat) ks) = (\<Sum>k\<in>set ks. if P k \<and> f r = k then 1 else 0)"
      using assms(1) by (simp add: sum_list_distinct_conv_sum_set)
    also have "\<dots> = (\<Sum>k\<in>set ks. if k = f r then (if P (f r) then 1 else 0) else 0)" by (rule sum.cong) auto
    also have "\<dots> = (if P (f r) then 1 else 0)" using Cons.prems by simp
    finally show ?thesis .
  qed
  let ?A = "\<lambda>k. if P k \<and> f r = k then 1 else 0 :: nat" and ?B = "\<lambda>k. if P k then length (filter (\<lambda>r. f r = k) rows) else 0"
  have F: "map (\<lambda>k. if P k then length (filter (\<lambda>r. f r = k) (r # rows)) else 0) ks = map (\<lambda>k. ?A k + ?B k) ks" by auto
  have ih: "sum_list (map ?B ks) = length (filter (\<lambda>r. P (f r)) rows)" by (rule Cons.IH) (use Cons.prems in auto)
  have "sum_list (map (\<lambda>k. if P k then length (filter (\<lambda>r. f r = k) (r # rows)) else 0) ks) =
      (if P (f r) then 1 else 0) + length (filter (\<lambda>r. P (f r)) rows)"
    unfolding F sum_list_addf one ih ..
  then show ?case by simp
next
  case Nil
  have zero: "(\<lambda>k. if P k then length (filter (\<lambda>r. f r = k) []) else 0) = (\<lambda>_. 0)" by (rule ext) simp
  show ?case unfolding zero by (simp only: sum_list_triv filter.simps list.size mult_0_right of_nat_id)
qed

lemma counts_by_sum:
  assumes "\<And>xs. mset (arrange xs) = mset xs"
  shows "sum_list (map (\<lambda>g. if P (fst g) then snd g else 0) (counts_by arrange f rows)) = length (filter (\<lambda>r. P (f r)) rows)"
proof -
  let ?ks = "arrange (remdups (map f rows))"
  have ks: "distinct ?ks" "set ?ks = f ` set rows"
    using assms [of "remdups (map f rows)"] mset_eq_setD [OF assms [of "remdups (map f rows)"]]
    by (simp_all add: mset_eq_imp_distinct_iff)
  have "map (\<lambda>g. if P (fst g) then snd g else 0) (counts_by arrange f rows) =
      map (\<lambda>k. if P k then length (filter (\<lambda>r. f r = k) rows) else 0) ?ks" by (simp add: counts_by_def comp_def)
  then show ?thesis using count_groups [OF ks(1), of f rows P] ks(2) by simp
qed

lemma fold_add_count:
  "sc_total (fold add_count gs c) = sc_total c + sum_list (map snd gs)"
  "sc_queued (fold add_count gs c) = sc_queued c + sum_list (map (\<lambda>g. if fst g = ''queued'' then snd g else 0) gs)"
  "sc_completed (fold add_count gs c) = sc_completed c + sum_list (map (\<lambda>g. if fst g = ''done'' then snd g else 0) gs)"
  "sc_failed (fold add_count gs c) = sc_failed c + sum_list (map (\<lambda>g. if fst g = ''failed'' \<or> fst g = ''cancelled'' then snd g else 0) gs)"
  by (induction gs arbitrary: c) (auto simp: add_count_def)

lemma stats_counts:
  assumes "\<And>xs. mset (arrange xs) = mset xs" "rows = filter (\<lambda>j. job_tenant j = t) js"
    and "c = fold add_count (counts_by arrange job_status rows) no_counts"
  shows "sc_total c = length rows" "sc_queued c = length (filter (\<lambda>j. job_status j = ''queued'') rows)"
    "sc_completed c = length (filter (\<lambda>j. job_status j = ''done'') rows)"
    "sc_failed c = length (filter (\<lambda>j. job_status j = ''failed'' \<or> job_status j = ''cancelled'') rows)"
  using counts_by_sum [OF assms(1), of "\<lambda>_. True" job_status rows] counts_by_sum [OF assms(1), of "\<lambda>x. x = ''queued''" job_status rows]
    counts_by_sum [OF assms(1), of "\<lambda>x. x = ''done''" job_status rows]
    counts_by_sum [OF assms(1), of "\<lambda>x. x = ''failed'' \<or> x = ''cancelled''" job_status rows]
  by (simp_all add: assms(3) fold_add_count no_counts_def)

lemma disjoint_counts:
  "length (filter (\<lambda>j. job_status j = ''queued'') rows) + length (filter (\<lambda>j. job_status j = ''done'') rows)
    + length (filter (\<lambda>j. job_status j = ''failed'' \<or> job_status j = ''cancelled'') rows) \<le> length rows"
  by (induction rows) auto


lemma by_stage_groups:
  assumes "\<forall>g \<in> set gs. snd g = cnt (fst g)"
  shows "by_stage (fold add_count gs c) ''failed'' \<in> {by_stage c ''failed'', Some (cnt ''failed''), Some (cnt ''cancelled'')}"
    and "\<exists>g \<in> set gs. fst g = ''failed'' \<Longrightarrow> by_stage (fold add_count gs c) ''failed'' \<in> {Some (cnt ''failed''), Some (cnt ''cancelled'')}"
proof -
  have "by_stage (fold add_count gs c) ''failed'' \<in> {by_stage c ''failed'', Some (cnt ''failed''), Some (cnt ''cancelled'')}
      \<and> ((\<exists>g \<in> set gs. fst g = ''failed'') \<longrightarrow> by_stage (fold add_count gs c) ''failed'' \<in> {Some (cnt ''failed''), Some (cnt ''cancelled'')})"
    using assms
  proof (induction gs arbitrary: c)
    case (Cons g gs)
    have one: "by_stage (add_count g c) ''failed'' \<in> {by_stage c ''failed'', Some (cnt ''failed''), Some (cnt ''cancelled'')}"
      "fst g = ''failed'' \<Longrightarrow> by_stage (add_count g c) ''failed'' = Some (cnt ''failed'')"
      using Cons.prems by (auto simp: add_count_def stage_label_def split: prod.splits)
    have ih: "by_stage (fold add_count gs (add_count g c)) ''failed'' \<in> {by_stage (add_count g c) ''failed'', Some (cnt ''failed''), Some (cnt ''cancelled'')}
      \<and> ((\<exists>g \<in> set gs. fst g = ''failed'') \<longrightarrow> by_stage (fold add_count gs (add_count g c)) ''failed'' \<in> {Some (cnt ''failed''), Some (cnt ''cancelled'')})"
      by (rule Cons.IH) (use Cons.prems in simp)
    show ?case using ih one by auto
  qed simp
  then show "by_stage (fold add_count gs c) ''failed'' \<in> {by_stage c ''failed'', Some (cnt ''failed''), Some (cnt ''cancelled'')}"
    and "\<exists>g \<in> set gs. fst g = ''failed'' \<Longrightarrow> by_stage (fold add_count gs c) ''failed'' \<in> {Some (cnt ''failed''), Some (cnt ''cancelled'')}"
    by simp_all
qed

text \<open>Cancelled jobs are shown under the stage of failed ones, but the counts of the two groups overwrite each
  other instead of adding up: in a workspace with failed and cancelled jobs the number shown for the
  stage is smaller than the number of failed jobs shown beside it.\<close>

theorem by_stage_hides_failures:
  assumes "\<And>xs. mset (arrange xs) = mset xs" "processing_stats arrange user s = Inr st"
    and "\<exists>j \<in> set (jobs (site_queue s)). job_tenant j = auth_tenant user \<and> job_status j = ''failed''"
    and "\<exists>j \<in> set (jobs (site_queue s)). job_tenant j = auth_tenant user \<and> job_status j = ''cancelled''"
  shows "\<exists>n. by_stage (ps_counts st) ''failed'' = Some n \<and> n < sc_failed (ps_counts st)"
proof -
  let ?rows = "filter (\<lambda>j. job_tenant j = auth_tenant user) (jobs (site_queue s))"
  let ?cnt = "\<lambda>x. length (filter (\<lambda>j. job_status j = x) ?rows)"
  let ?gs = "counts_by arrange job_status ?rows"
  have st: "ps_counts st = fold add_count ?gs no_counts"
    using assms(2) by (auto simp: processing_stats_def Let_def split: if_splits)
  have "set (arrange (remdups (map job_status ?rows))) = job_status ` set ?rows"
    using mset_eq_setD [OF assms(1) [of "remdups (map job_status ?rows)"]] by simp
  then have "''failed'' \<in> set (arrange (remdups (map job_status ?rows)))" using assms(3) by force
  then have seen: "\<exists>g \<in> set ?gs. fst g = ''failed''" by (force simp: counts_by_def)
  have "\<forall>g \<in> set ?gs. snd g = ?cnt (fst g)" by (auto simp: counts_by_def)
  from by_stage_groups(2) [OF this seen] have n: "by_stage (ps_counts st) ''failed'' \<in> {Some (?cnt ''failed''), Some (?cnt ''cancelled'')}"
    by (simp add: st)
  have "sc_failed (ps_counts st) = ?cnt ''failed'' + ?cnt ''cancelled''"
  proof -
    have "length (filter (\<lambda>j. job_status j = ''failed'' \<or> job_status j = ''cancelled'') rows) =
        length (filter (\<lambda>j. job_status j = ''failed'') rows) + length (filter (\<lambda>j. job_status j = ''cancelled'') rows)" for rows
      by (induction rows) auto
    then show ?thesis unfolding st using stats_counts(4) [OF assms(1) HOL.refl HOL.refl] by metis
  qed
  moreover have "?cnt ''failed'' > 0" "?cnt ''cancelled'' > 0" using assms(3,4) by (auto simp: filter_empty_conv)
  ultimately show ?thesis using n by auto
qed


section \<open>What cancelling does\<close>

lemma find_update_where:
  assumes "\<And>r. P r \<Longrightarrow> P (f r)"
  shows "find P (update_where P f rs) = map_option f (find P rs)"
  by (induction rs) (simp_all add: assms)

lemma cancel_parts:
  assumes "cancel_job user k s = (Inr False, s')"
  obtains j where "job_of (auth_tenant user) k (site_queue s) = Some j" "job_status j \<noteq> ''done''" "store_answers s"
    "site_queue s' = cancel_row (auth_tenant user) k (site_queue s)"
    "library s' = snd (cancel_document (auth_tenant user) j (library s))"
proof -
  let ?t = "auth_tenant user"
  have ok: "store_answers s" using assms by (auto simp: cancel_job_def split: sum.splits if_splits option.splits)
  then obtain j where j: "job_of ?t k (site_queue s) = Some j" "job_status j \<noteq> ''done''"
    using assms by (auto simp: cancel_job_def split: sum.splits if_splits option.splits)
  obtain x s1 where q: "on_site_queue (\<lambda>q. (Some (), cancel_row ?t k q)) s = (x, s1)" by (meson surj_pair)
  obtain y s2 where l: "on_library (cancel_document ?t j) s1 = (y, s2)" by (meson surj_pair)
  have "s' = s2" using assms ok j q l by (auto simp: cancel_job_def split: sum.splits)
  with that [OF j ok] on_site_queue_cases(2,3) [OF q] on_library_cases(2,3) [OF l] show ?thesis by auto
qed

lemma cancel_document_frame:
  "db_up (snd (cancel_document t j db)) = db_up db" "pages (snd (cancel_document t j db)) = pages db"
  "blocks (snd (cancel_document t j db)) = blocks db" "chunks (snd (cancel_document t j db)) = chunks db"
  by (simp_all add: cancel_document_def set_doc_status_def split: option.split)

lemma cancelled_seen:
  assumes "job_of t k q = Some j" "pg_up q"
  shows "is_cancelled t k (cancel_row t k q) = Some True"
  using assms by (simp add: is_cancelled_def job_of_def cancel_row_def find_update_where)

lemma ingest_failed_frame:
  "pages (tables (ingest_failed t k ctx msg p)) = pages (tables p)" "blocks (tables (ingest_failed t k ctx msg p)) = blocks (tables p)"
  "chunks (tables (ingest_failed t k ctx msg p)) = chunks (tables p)"
  by (simp_all add: ingest_failed_def mark_document_failed_def on_tables_def on_queue_def set_doc_status_def Let_def case_prod_beta)

lemma cancelled_ingest_stops:
  assumes "is_cancelled t k (queue p) = Some True"
  shows "\<exists>msg. ingest_inner e t k ctx p = (Inl msg, p)"
proof -
  have "snd (load_document t (jc_document ctx) p) = p" by (simp add: load_document_def)
  then obtain x where load: "load_document t (jc_document ctx) p = (x, p)" by (metis prod.collapse)
  show ?thesis by (cases x) (simp_all add: ingest_inner_def try_step_def load stage_def assms case_prod_beta)
qed


text \<open>Cancelling is not confined to runs of the ingest: any job of a document that is not done, be it a failed
  attempt that a later one has made good or the queued build of its knowledge, takes its document to failed,
  with all its pages and chunks in place.\<close>

theorem cancel_fails_document:
  assumes "cancel_job user k s = (Inr False, s')" "job_of (auth_tenant user) k (site_queue s) = Some j" "doc_of_job j = Some d"
  shows "docs_are (auth_tenant user) d {''failed''} (pipe (wd (srv s'))) \<and> pages (library s') = pages (library s)
    \<and> chunks (library s') = chunks (library s)"
proof -
  obtain j' where c: "job_of (auth_tenant user) k (site_queue s) = Some j'" "store_answers s"
    "library s' = snd (cancel_document (auth_tenant user) j' (library s))" by (rule cancel_parts [OF assms(1)])
  have l: "library s' = snd (set_doc_status (auth_tenant user) d ''failed'' (library s))"
    using c assms(2,3) by (simp add: cancel_document_def)
  obtain x db where run: "set_doc_status (auth_tenant user) d ''failed'' (library s) = (x, db)" by (meson surj_pair)
  have "docs_are (auth_tenant user) d {''failed''} (pipe (wd (srv s')))"
    using set_doc_status_docs(3) [OF run] c(2) l run by (simp add: docs_are_def store_answers_def)
  then show ?thesis by (simp add: c(3) cancel_document_frame)
qed

section \<open>What a retry does\<close>

lemma enqueue_supply:
  assumes "enqueue c kind t pl q = (y, q')" "y \<noteq> None"
  shows "job_supply q' = job_supply q + 1"
proof -
  have x: "job_supply q2 = job_supply q1" if "xadd fs q1 = (z, q2)" for fs q1 z q2
    using that unfolding xadd_def by (auto dest!: send_cases simp: Let_def)
  show ?thesis
    using assms unfolding enqueue_def Let_def
    by (auto dest!: seq_cases publish_to_same publish_same x simp: insert_job_def split: if_splits)
qed

lemma ingest_payload_context:
  assumes "qj_payload job = ingest_payload d u"
  shows "parse_job_context job = Some \<lparr>jc_document = d, jc_user = Some u\<rparr>"
  using assms by (simp add: parse_job_context_def ingest_payload_def get_key_def parse_uuid_def Let_def)

lemma update_document_status_rest:
  assumes "update_document_status t k st db = (x, db')"
  shows "pages db' = pages db" "db_up db' = db_up db"
proof -
  have db': "db' = snd (update_document_status t k st db)" using assms by simp
  show "pages db' = pages db" "db_up db' = db_up db" unfolding db' by (simp_all add: update_document_status_def)
qed

text \<open>A retry cannot repair a document that has pages already, say because its first run was cancelled
  after they were stored: the answer is a success, a new job is queued, and the run of that job fails and leaves
  the document failed.\<close>

theorem retry_after_persist_fails:
  assumes "retry_job e user k s = (Inr (), s')" "Option.bind (job_of (auth_tenant user) k (site_queue s)) doc_of_job = Some d"
    and "\<And>key bytes. call_parser (ienv e) key bytes = Some parsed" "p \<in> set (pages (library s))" "page_doc p = d"
    and "page_number p \<in> set (page_numbers parsed)"
  shows "\<exists>n. queued_row n ''ingest'' (auth_tenant user) (ingest_payload d (auth_user user)) (q_now (site_queue s)) \<in> set (jobs (site_queue s'))
    \<and> (\<forall>job r p'. qj_id job = n \<and> qj_tenant job = auth_tenant user \<and> qj_payload job = ingest_payload d (auth_user user)
        \<and> run_ingest (ienv e) job (pipe (wd (srv s'))) = (r, p') \<longrightarrow> (\<exists>msg. r = Inl msg) \<and> docs_are (auth_tenant user) d {''failed''} p')"
proof -
  let ?t = "auth_tenant user" and ?pl = "ingest_payload d (auth_user user)"
  have ok: "store_answers s" using assms(1) by (auto simp: retry_job_def split: sum.splits if_splits)
  obtain x s1 where u: "on_library (update_document_status ?t d ''processing'') s = (x, s1)" by (meson surj_pair)
  obtain y s2 where q: "on_site_queue (enqueue (codec_of (ienv e)) ''ingest'' ?t ?pl) s1 = (y, s2)" by (meson surj_pair)
  have s': "s2 = s'" "y \<noteq> None"
    using assms(1,2) ok u q by (auto simp: retry_job_def split: sum.splits option.splits)
  note l = on_library_cases [OF u] and e = on_site_queue_cases [OF q]
  let ?n = "job_supply (site_queue s)"
  have enq: "enqueue (codec_of (ienv e)) ''ingest'' ?t ?pl (site_queue s) = (y, site_queue s')" using e(3) l(3) s'(1) by simp
  then have jobs: "jobs (site_queue s') = jobs (site_queue s) @ [queued_row ?n ''ingest'' ?t ?pl (q_now (site_queue s))]"
      "job_supply (site_queue s') = ?n + 1" "pg_up (site_queue s')"
    using enqueue_effect [OF enq] enqueue_supply [OF enq] ok s'(2) by (auto simp: store_answers_def same_stream_def)
  have lib: "pages (library s') = pages (library s)" "db_up (library s')"
    using update_document_status_rest [OF l(2)] e(2) s'(1) ok by (simp_all add: store_answers_def)
  have "(\<exists>msg. r = Inl msg) \<and> docs_are ?t d {''failed''} p'"
    if "qj_id job = ?n" "qj_tenant job = ?t" "qj_payload job = ?pl" "run_ingest (ienv e) job (pipe (wd (srv s'))) = (r, p')" for job r p'
  proof -
    have "alive (qj_id job) (pipe (wd (srv s')))" using that(1) jobs lib by (simp add: alive_def jobs_queue_def)
    from ingest_again_fails [OF ingest_payload_context [OF that(3)] this assms(3) _ _ _ that(4)] assms(4-6) lib(1) that(2)
    show ?thesis by auto
  qed
  then show ?thesis using jobs(1) by (intro exI [of _ ?n]) auto
qed

text \<open>When the queue refuses the new job, a creation takes its document back to failed; a retry does not: the
  document stays at work, and no job is on its way.\<close>

theorem refused_retry_strands_document:
  assumes "require_editor user = Inr ()" "store_answers s" "Option.bind (job_of (auth_tenant user) k (site_queue s)) doc_of_job = Some d"
    and "length (filter (own_document (auth_tenant user) d) (documents (library s))) = 1"
    and "enqueue (codec_of (ienv e)) ''ingest'' (auth_tenant user) (ingest_payload d (auth_user user)) (site_queue s) = (None, q)"
  shows "\<exists>s'. retry_job e user k s = (Inl internal, s') \<and> site_queue s' = q
    \<and> docs_are (auth_tenant user) d {''processing''} (pipe (wd (srv s')))"
proof -
  let ?t = "auth_tenant user"
  obtain x s1 where u: "on_library (update_document_status ?t d ''processing'') s = (x, s1)" by (meson surj_pair)
  obtain y s2 where q: "on_site_queue (enqueue (codec_of (ienv e)) ''ingest'' ?t (ingest_payload d (auth_user user))) s1 = (y, s2)"
    by (meson surj_pair)
  note l = on_library_cases [OF u] and c = on_site_queue_cases [OF q]
  have up: "db_up (library s)" using assms(2) by (simp add: store_answers_def)
  then have one: "x = Some ()" "library s1 = (library s)\<lparr>documents := update_where (own_document ?t d) (\<lambda>d. d\<lparr>doc_status := ''processing''\<rparr>) (documents (library s))\<rparr>"
    using l(2) assms(4) by (simp_all add: update_document_status_def)
  have two: "y = None" "site_queue s2 = q" using c(3) l(3) assms(5) by simp_all
  have "retry_job e user k s = (Inl internal, s2)"
    by (simp add: retry_job_def assms(1-3) u one(1) q two(1))
  moreover have "docs_are ?t d {''processing''} (pipe (wd (srv s2)))"
    unfolding docs_are_def c(2) one(2)
  proof (intro ballI impI)
    fix r assume r: "doc_key r = d \<and> doc_tenant r = ?t"
      and "r \<in> set (documents ((library s)\<lparr>documents := update_where (own_document ?t d) (\<lambda>d. d\<lparr>doc_status := ''processing''\<rparr>) (documents (library s))\<rparr>))"
    then have "r \<in> (\<lambda>x. if own_document ?t d x then x\<lparr>doc_status := ''processing''\<rparr> else x) ` set (documents (library s))"
      by (simp add: update_where_def)
    then obtain x where "r = (if own_document ?t d x then x\<lparr>doc_status := ''processing''\<rparr> else x)" by (rule imageE)
    with r show "doc_status r \<in> {''processing''}" unfolding own_document_def by (simp split: if_splits)
  qed
  ultimately show ?thesis using two(2) by blast
qed


section \<open>A concrete site\<close>

definition waiting_queue :: queue_state where
  "waiting_queue = idle_queue\<lparr>jobs := [queued_row 1 ''ingest'' 5 (ingest_payload 3 2) 0], job_supply := 2\<rparr>"

definition busy_site :: "queue_state \<Rightarrow> site" where
  "busy_site q = site_start\<lparr>srv := with_queue q worker_start\<rparr>"

definition waiting_job :: queued_job where
  "waiting_job = \<lparr>qj_id = 1, qj_stream = 0, qj_tenant = 5, qj_kind = ''ingest'', qj_payload = ingest_payload 3 2\<rparr>"

lemma busy_site_parts: "site_queue (busy_site q) = q" "library (busy_site q) = (library_of [])\<lparr>documents := [uploaded]\<rparr>"
  "know (wd (srv (busy_site q))) = three_claims"
  by (simp_all add: busy_site_def worker_start_def with_queue_def jobs_queue_def quiet_world_def ingest_start_def)

lemma busy_answers: "store_answers (busy_site (waiting_queue\<lparr>wire := w\<rparr>))" "store_answers (busy_site waiting_queue)"
  by (simp_all add: store_answers_def busy_site_parts waiting_queue_def idle_queue_def library_of_def)

lemma uploader_editor: "require_editor uploader = Inr ()" "auth_tenant uploader = 5"
  by (simp_all add: require_editor_def uploader_def)

lemma waiting_row: "job_of 5 (Suc 0) (waiting_queue\<lparr>wire := w\<rparr>) = Some (queued_row (Suc 0) ''ingest'' 5 (ingest_payload 3 2) 0)"
  "job_of 5 (Suc 0) waiting_queue = Some (queued_row (Suc 0) ''ingest'' 5 (ingest_payload 3 2) 0)"
  "doc_of_job (queued_row (Suc 0) ''ingest'' 5 (ingest_payload 3 2) 0) = Some 3"
  by (simp_all add: job_of_def waiting_queue_def queued_row_def doc_of_job_def payload_document_def ingest_payload_def get_key_def parse_uuid_def)



theorem refused_retry_strands_document_witness:
  "\<exists>s'. retry_job plain_site uploader 1 (busy_site (waiting_queue\<lparr>wire := \<lambda>_. False\<rparr>)) = (Inl internal, s')
    \<and> docs_are 5 3 {''processing''} (pipe (wd (srv s')))"
proof -
  let ?q = "waiting_queue\<lparr>wire := \<lambda>_. False\<rparr>"
  have d: "Option.bind (job_of (auth_tenant uploader) 1 (site_queue (busy_site ?q))) doc_of_job = Some 3"
    by (simp add: busy_site_parts uploader_editor waiting_row)
  have one: "length (filter (own_document (auth_tenant uploader) 3) (documents (library (busy_site ?q)))) = 1"
    by (simp add: busy_site_parts uploader_editor own_document_def uploaded_def)
  have "fst (enqueue (codec_of (ienv plain_site)) ''ingest'' (auth_tenant uploader) (ingest_payload 3 (auth_user uploader)) (site_queue (busy_site ?q))) = None"
    by (simp add: busy_site_parts enqueue_def insert_job_def seq_def publish_to_def publish_def send_def waiting_queue_def idle_queue_def
        ingest_payload_def get_key_def Let_def)
  then obtain q where q: "enqueue (codec_of (ienv plain_site)) ''ingest'' (auth_tenant uploader) (ingest_payload 3 (auth_user uploader))
      (site_queue (busy_site ?q)) = (None, q)" by (metis prod.collapse)
  from refused_retry_strands_document [OF uploader_editor(1) busy_answers(1) d one q] uploader_editor show ?thesis by auto
qed

end
