(* ===== verification/Quiz.thy ===== *)
theory Quiz
  imports Topics Study
begin

text \<open>
  The study plane behind \<open>insight-api/src/routes/study.rs\<close> and \<open>study::generate_mcqs\<close>: cards with their
  schedules, multiple-choice questions and the attempts at them. The state adds the study tables
  (\<open>0004_study.sql\<close>) to the knowledge pipeline's world; the JSON reader of the model's reply is a parameter.
  The database is the one of the knowledge tables. Time stamps are rendered as they are.
\<close>

record mcq_row =
  mq_id :: uuid
  mq_tenant :: uuid
  mq_topic :: "uuid option"
  mq_claim :: "uuid option"
  mq_stem :: string
  mq_options :: json
  mq_answer :: string
  mq_rationale :: "string option"
  mq_difficulty :: "string option"
  mq_status :: string

record attempt_row =
  att_tenant :: uuid
  att_user :: uuid
  att_mcq :: uuid
  att_chosen :: string
  att_correct :: bool

record classroom =
  school :: world
  schedules_of :: schedules
  mcqs :: "mcq_row list"
  attempts :: "attempt_row list"
  mcq_supply :: uuid

abbreviation class_db :: "classroom \<Rightarrow> knowledge_db" where
  "class_db s \<equiv> know (school s)"

definition is_editor :: "authed_user \<Rightarrow> bool" where
  "is_editor user = (role_rank (auth_role user) \<ge> role_rank ''editor'')"

section \<open>Flashcards\<close>

record card_view =
  cv_card :: card_row
  cv_topic :: string
  cv_due :: "int option"
  cv_state :: "string \<Rightarrow> json option"

text \<open>Which fields the stored schedule shows; without a schedule there are none.\<close>

definition schedule_field :: "schedule_row option \<Rightarrow> string \<Rightarrow> json option" where
  "schedule_field sc k = (if k \<in> {''intervalDays'', ''easeFactor'', ''repetitions'', ''lapses'', ''state''}
     then Option.bind (Option.bind sc fsrs_state_json) (\<lambda>v. get_key v k) else None)"

definition card_view_of :: "authed_user \<Rightarrow> classroom \<Rightarrow> card_row \<Rightarrow> card_view" where
  "card_view_of user s c = (let sc = schedules_of s (cd_id c, auth_user user)
     in \<lparr>cv_card = c,
         cv_topic = (case Option.bind (cd_topic c) (\<lambda>k. topic_row_of (auth_tenant user) k (class_db s)) of None \<Rightarrow> [] | Some t \<Rightarrow> tp_title t),
         cv_due = map_option due_at sc, cv_state = schedule_field sc\<rparr>)"

definition on_topic_filter :: "uuid option \<Rightarrow> uuid option \<Rightarrow> bool" where
  "on_topic_filter wanted k = (case wanted of None \<Rightarrow> True | Some w \<Rightarrow> k = Some w)"

definition list_flashcards :: "authed_user \<Rightarrow> string option \<Rightarrow> classroom \<Rightarrow> api_error + card_view list" where
  "list_flashcards user tp s =
     (let wanted = Option.bind tp parse_uuid
      in if \<not> know_up (class_db s) then Inl internal
         else Inr (map (card_view_of user s) (take 500 (sort_key cd_id
            (filter (\<lambda>c. cd_tenant c = auth_tenant user \<and> on_topic_filter wanted (cd_topic c)) (cards (class_db s)))))))"

text \<open>A schedule refers to a card of the tenant; the foreign key refuses any other.\<close>

definition review_card :: "int \<Rightarrow> authed_user \<Rightarrow> uuid \<Rightarrow> nat \<Rightarrow> classroom \<Rightarrow> (api_error + sr_state) \<times> classroom" where
  "review_card now user card_id grade s =
     (if \<not> (1 \<le> grade \<and> grade \<le> 4) then (Inl bad_request, s)
      else if \<not> know_up (class_db s)
        \<or> \<not> list_ex (\<lambda>c. cd_id c = card_id \<and> cd_tenant c = auth_tenant user) (cards (class_db s)) then (Inl internal, s)
      else (case review_flashcard now (auth_user user) card_id grade (schedules_of s) of
          (None, _) \<Rightarrow> (Inl internal, s)
        | (Some nxt, tab) \<Rightarrow> (Inr nxt, s\<lparr>schedules_of := tab\<rparr>)))"

section \<open>Questions\<close>

definition options_of :: "mcq_row \<Rightarrow> string list" where
  "options_of m = (case mq_options m of JArr xs \<Rightarrow> List.map_filter as_str xs | _ \<Rightarrow> [])"

fun position :: "'a \<Rightarrow> 'a list \<Rightarrow> nat option" where
  "position x [] = None"
| "position x (y # ys) = (if y = x then Some 0 else map_option Suc (position x ys))"

definition option_name :: "nat \<Rightarrow> string" where
  "option_name i = ''o'' @ show_nat i"

definition mcq_json :: "mcq_row \<Rightarrow> bool \<Rightarrow> (string \<times> json) list" where
  "mcq_json m editor =
     (let opts = options_of m
      in [(''id'', JStr (show_nat (mq_id m))), (''topicId'', JStr (case mq_topic m of None \<Rightarrow> [] | Some t \<Rightarrow> show_nat t)),
          (''claimId'', case mq_claim m of None \<Rightarrow> JNull | Some c \<Rightarrow> JStr (show_nat c)), (''stem'', JStr (mq_stem m)),
          (''options'', JArr (map2 (\<lambda>i t. JObj [(''id'', JStr (option_name i)), (''text'', JStr t)]) [0..<length opts] opts)),
          (''difficulty'', JStr (case mq_difficulty m of None \<Rightarrow> ''medium'' | Some d \<Rightarrow> d)), (''examTags'', JArr []),
          (''status'', JStr (mq_status m))]
        @ (if editor then
            [(''correctOptionId'', case position (mq_answer m) opts of None \<Rightarrow> JNull | Some i \<Rightarrow> JStr (option_name i)),
             (''explanation'', case mq_rationale m of None \<Rightarrow> JNull | Some r \<Rightarrow> JStr r)] else []))"

record quiz_stats =
  qs_attempts :: nat
  qs_correct :: nat
  qs_accuracy :: f64

definition attempts_on :: "uuid \<Rightarrow> uuid \<Rightarrow> uuid \<Rightarrow> classroom \<Rightarrow> attempt_row list" where
  "attempts_on t u tp s = filter (\<lambda>a. att_tenant a = t \<and> att_user a = u
     \<and> list_ex (\<lambda>m. mq_id m = att_mcq a \<and> mq_tenant m = t \<and> mq_topic m = Some tp) (mcqs s)) (attempts s)"

definition topic_stats :: "uuid \<Rightarrow> uuid \<Rightarrow> uuid \<Rightarrow> classroom \<Rightarrow> quiz_stats option" where
  "topic_stats t u tp s =
     (if \<not> know_up (class_db s) then None
      else let n = length (attempts_on t u tp s); k = length (filter att_correct (attempts_on t u tp s))
           in Some \<lparr>qs_attempts = n, qs_correct = k, qs_accuracy = (if n > 0 then real k / real n else 0)\<rparr>)"

text \<open>Who is no editor only ever sees what is published.\<close>

definition status_filter :: "authed_user \<Rightarrow> string option \<Rightarrow> string option" where
  "status_filter user wanted = (if is_editor user
     then (case wanted of None \<Rightarrow> None | Some st \<Rightarrow> if st = ''all'' then None else Some st) else Some ''published'')"

definition shown_mcqs :: "authed_user \<Rightarrow> string option \<Rightarrow> string option \<Rightarrow> classroom \<Rightarrow> mcq_row list" where
  "shown_mcqs user tp wanted s = take 500 (sort_key mq_id (filter (\<lambda>m. mq_tenant m = auth_tenant user
     \<and> on_topic_filter (Option.bind tp parse_uuid) (mq_topic m)
     \<and> (case status_filter user wanted of None \<Rightarrow> True | Some st \<Rightarrow> mq_status m = st)) (mcqs s)))"

definition list_mcqs :: "authed_user \<Rightarrow> string option \<Rightarrow> string option \<Rightarrow> classroom \<Rightarrow> api_error + (json list \<times> quiz_stats option)" where
  "list_mcqs user tp wanted s =
     (if \<not> know_up (class_db s) then Inl internal
      else Inr (map (\<lambda>m. JObj (mcq_json m (is_editor user))) (shown_mcqs user tp wanted s),
        Option.bind (Option.bind tp parse_uuid) (\<lambda>k. topic_stats (auth_tenant user) (auth_user user) k s)))"

section \<open>Answering and publishing\<close>

definition own_mcq :: "uuid \<Rightarrow> uuid \<Rightarrow> mcq_row \<Rightarrow> bool" where
  "own_mcq t k m = (mq_id m = k \<and> mq_tenant m = t)"

text \<open>A place in a list, \<open>str::parse::<usize>\<close>; what exceeds 63 bits is beyond every list.\<close>

definition parse_place :: "string \<Rightarrow> nat option" where
  "parse_place x = (if starts_with x ''-'' then None else map_option nat (parse_i64 x))"

definition chosen_place :: "string \<Rightarrow> nat option" where
  "chosen_place choice = Option.bind (strip_prefix ''o'' choice) parse_place"

record verdict =
  vd_correct :: bool
  vd_option :: string
  vd_explanation :: string
  vd_stats :: "quiz_stats option"

definition attempt_mcq :: "authed_user \<Rightarrow> uuid \<Rightarrow> string \<Rightarrow> classroom \<Rightarrow> (api_error + verdict) \<times> classroom" where
  "attempt_mcq user k choice s =
     (if \<not> know_up (class_db s) then (Inl internal, s)
      else case find (own_mcq (auth_tenant user) k) (mcqs s) of
          None \<Rightarrow> (Inl not_found, s)
        | Some m \<Rightarrow>
            if mq_status m = ''draft'' \<and> \<not> is_editor user then (Inl not_found, s)
            else let right = position (mq_answer m) (options_of m); chosen = chosen_place choice
                 in if (case chosen of None \<Rightarrow> True | Some i \<Rightarrow> length (options_of m) \<le> i) then (Inl bad_request, s)
                    else let correct = (chosen = right);
                             s' = s\<lparr>attempts := attempts s @ [\<lparr>att_tenant = auth_tenant user, att_user = auth_user user,
                                    att_mcq = k, att_chosen = choice, att_correct = correct\<rparr>]\<rparr>
                         in (Inr \<lparr>vd_correct = correct, vd_option = (case right of None \<Rightarrow> [] | Some i \<Rightarrow> option_name i),
                               vd_explanation = (case mq_rationale m of None \<Rightarrow> [] | Some r \<Rightarrow> r),
                               vd_stats = Option.bind (mq_topic m) (\<lambda>tp. topic_stats (auth_tenant user) (auth_user user) tp s')\<rparr>, s'))"

definition set_mcq_status :: "authed_user \<Rightarrow> uuid \<Rightarrow> string \<Rightarrow> classroom \<Rightarrow> (api_error + json) \<times> classroom" where
  "set_mcq_status user k st s =
     (if \<not> is_editor user then (Inl forbidden, s)
      else if st \<noteq> ''draft'' \<and> st \<noteq> ''published'' then (Inl bad_request, s)
      else if \<not> know_up (class_db s) then (Inl internal, s)
      else let ms = update_where (own_mcq (auth_tenant user) k) (\<lambda>m. m\<lparr>mq_status := st\<rparr>) (mcqs s)
           in (case find (own_mcq (auth_tenant user) k) ms of None \<Rightarrow> Inl not_found
                | Some m \<Rightarrow> Inr (JObj (mcq_json m True)), s\<lparr>mcqs := ms\<rparr>))"

section \<open>Generating questions\<close>

record gen_mcq =
  gm_stem :: string
  gm_options :: "string list"
  gm_answer :: string
  gm_rationale :: "string option"

type_synonym mcq_reader = "string \<Rightarrow> gen_mcq list option"

definition parse_mcqs :: "mcq_reader \<Rightarrow> string \<Rightarrow> gen_mcq list" where
  "parse_mcqs rd raw =
     (let trimmed = trim (trim_start_matches ''```'' (trim_start_matches ''```json'' (trim raw)))
      in case (find_char CHR ''['' trimmed, rfind_char CHR '']'' trimmed) of
           (Some a, Some b) \<Rightarrow> if b > a then (case rd (drop a (take (b + 1) trimmed)) of None \<Rightarrow> [] | Some ms \<Rightarrow> ms) else []
         | _ \<Rightarrow> [])"

definition usable :: "gen_mcq \<Rightarrow> bool" where
  "usable g = (2 \<le> length (gm_options g) \<and> trim (gm_stem g) \<noteq> [])"

definition mcq_of :: "uuid \<Rightarrow> uuid \<Rightarrow> uuid \<Rightarrow> gen_mcq \<Rightarrow> mcq_row" where
  "mcq_of t tp k g = \<lparr>mq_id = k, mq_tenant = t, mq_topic = Some tp, mq_claim = None, mq_stem = gm_stem g,
     mq_options = JArr (map JStr (gm_options g)), mq_answer = gm_answer g, mq_rationale = gm_rationale g,
     mq_difficulty = None, mq_status = ''draft''\<rparr>"

definition mcq_claims :: "uuid \<Rightarrow> uuid \<Rightarrow> knowledge_db \<Rightarrow> string list" where
  "mcq_claims t tp db = map cl_text (take 40 (sort_key cl_created
     (filter (\<lambda>c. cl_status c \<noteq> ''duplicate'') (on_topic t tp db))))"

definition mcq_system :: "nat \<Rightarrow> string" where
  "mcq_system n = ''Write '' @ show_nat n @ '' single-best-answer multiple choice questions from the given facts. Return ONLY '' @
     ''a JSON array of objects: {\"stem\": string, \"options\": [4 strings], \"answer\": the '' @
     ''correct option string, \"rationale\": string}. Ground everything in the facts.''"

text \<open>The insertion is one transaction; the topic must be the tenant's, which the claims have shown.\<close>

definition insert_mcqs :: "uuid \<Rightarrow> uuid \<Rightarrow> gen_mcq list \<Rightarrow> classroom \<Rightarrow> nat \<times> classroom" where
  "insert_mcqs t tp gs s = (let ok = filter usable gs; k = mcq_supply s
     in (length ok, s\<lparr>mcqs := mcqs s @ map2 (mcq_of t tp) [k..<k + length ok] ok, mcq_supply := k + length ok\<rparr>))"

definition generate_mcqs :: "knowledge_env \<Rightarrow> mcq_reader \<Rightarrow> uuid \<Rightarrow> uuid \<Rightarrow> nat \<Rightarrow> classroom \<Rightarrow> nat option \<times> classroom" where
  "generate_mcqs e rd t tp wanted s =
     (case org_config e t (school s) of
        (None, w) \<Rightarrow> (None, s\<lparr>school := w\<rparr>)
      | (Some _, w) \<Rightarrow>
          if \<not> know_up (know w) then (None, s\<lparr>school := w\<rparr>)
          else let cs = mcq_claims t tp (know w); n = clamp wanted 1 20
               in if cs = [] then (Some 0, s\<lparr>school := w\<rparr>)
                  else (case ask e t Synthesis (mcq_system n) (''Facts:'' @ newline @ ''- '' @ join_str (newline @ ''- '') cs) w of
                      (None, w) \<Rightarrow> (None, s\<lparr>school := w\<rparr>)
                    | (Some reply, w) \<Rightarrow> (case insert_mcqs t tp (take n (parse_mcqs rd (reply_text reply))) (s\<lparr>school := w\<rparr>) of
                        (k, s) \<Rightarrow> (Some k, s))))"

definition generate_mcqs_handler :: "knowledge_env \<Rightarrow> mcq_reader \<Rightarrow> authed_user \<Rightarrow> string \<Rightarrow> nat option \<Rightarrow> classroom \<Rightarrow> (api_error + nat) \<times> classroom" where
  "generate_mcqs_handler e rd user tp wanted s =
     (case parse_uuid tp of None \<Rightarrow> (Inl bad_request, s)
      | Some k \<Rightarrow> (case generate_mcqs e rd (auth_tenant user) k (case wanted of None \<Rightarrow> 5 | Some n \<Rightarrow> n) s of
            (None, s) \<Rightarrow> (Inl internal, s) | (Some n, s) \<Rightarrow> (Inr n, s)))"


section \<open>What a viewer sees\<close>

lemma hidden_key: "get_key (JObj (mcq_json m False)) ''correctOptionId'' = None"
  "get_key (JObj (mcq_json m False)) ''explanation'' = None"
  by (simp_all add: mcq_json_def get_key_def Let_def)

text \<open>C38. Who is no editor gets no draft and no answer key from the list of questions, whatever the filters in
  the request ask for: every item is a published question of the caller's workspace, rendered
  without the identifier of the right option and without the explanation.\<close>

theorem answer_key_hidden:
  assumes "list_mcqs user tp wanted s = Inr (items, st)" "\<not> is_editor user"
  shows "\<forall>it \<in> set items. get_key it ''correctOptionId'' = None \<and> get_key it ''explanation'' = None
    \<and> (\<exists>m \<in> set (mcqs s). mq_tenant m = auth_tenant user \<and> mq_status m = ''published'' \<and> it = JObj (mcq_json m False))"
proof
  fix it assume "it \<in> set items"
  moreover have "items = map (\<lambda>m. JObj (mcq_json m False)) (shown_mcqs user tp wanted s)"
    using assms by (auto simp: list_mcqs_def split: if_splits)
  ultimately obtain m where m: "it = JObj (mcq_json m False)" "m \<in> set (shown_mcqs user tp wanted s)" by auto
  have "m \<in> set (mcqs s) \<and> mq_tenant m = auth_tenant user \<and> mq_status m = ''published''"
    using in_set_takeD [OF m(2) [unfolded shown_mcqs_def]] assms(2) by (auto simp: status_filter_def)
  then show "get_key it ''correctOptionId'' = None \<and> get_key it ''explanation'' = None
      \<and> (\<exists>m \<in> set (mcqs s). mq_tenant m = auth_tenant user \<and> mq_status m = ''published'' \<and> it = JObj (mcq_json m False))"
    unfolding m(1) hidden_key by blast
qed

section \<open>Grading\<close>

lemma position_Some: "position x ys = Some i \<longleftrightarrow> i < length ys \<and> ys ! i = x \<and> (\<forall>j < i. ys ! j \<noteq> x)"
proof (induction ys arbitrary: i)
  case (Cons y ys)
  show ?case
  proof (cases i)
    case 0
    then show ?thesis by auto
  next
    case (Suc k)
    have "(\<forall>j < Suc k. (y # ys) ! j \<noteq> x) \<longleftrightarrow> y \<noteq> x \<and> (\<forall>j < k. ys ! j \<noteq> x)" by (simp add: All_less_Suc2)
    with Suc Cons [of k] show ?thesis by auto
  qed
qed simp

lemma position_None: "position x ys = None \<longleftrightarrow> x \<notin> set ys"
  by (induction ys) auto

lemma attempt_parts:
  assumes "attempt_mcq user k choice s = (Inr v, s')"
  obtains m i where "find (own_mcq (auth_tenant user) k) (mcqs s) = Some m" "chosen_place choice = Some i" "i < length (options_of m)"
    "vd_correct v = (position (mq_answer m) (options_of m) = Some i)"
    "vd_option v = (case position (mq_answer m) (options_of m) of None \<Rightarrow> [] | Some i \<Rightarrow> option_name i)"
    "s' = s\<lparr>attempts := attempts s @ [\<lparr>att_tenant = auth_tenant user, att_user = auth_user user, att_mcq = k, att_chosen = choice,
       att_correct = vd_correct v\<rparr>]\<rparr>"
    "vd_stats v = Option.bind (mq_topic m) (\<lambda>tp. topic_stats (auth_tenant user) (auth_user user) tp s')" "know_up (class_db s)"
proof -
  have up: "know_up (class_db s)" using assms by (auto simp: attempt_mcq_def split: if_splits)
  then obtain m where m: "find (own_mcq (auth_tenant user) k) (mcqs s) = Some m" "\<not> (mq_status m = ''draft'' \<and> \<not> is_editor user)"
    using assms by (auto simp: attempt_mcq_def split: option.splits if_splits)
  obtain i where i: "chosen_place choice = Some i" "i < length (options_of m)"
    using assms up m by (auto simp: attempt_mcq_def Let_def not_le split: option.splits if_splits)
  from assms have run: "v = \<lparr>vd_correct = (Some i = position (mq_answer m) (options_of m)),
      vd_option = (case position (mq_answer m) (options_of m) of None \<Rightarrow> [] | Some i \<Rightarrow> option_name i),
      vd_explanation = (case mq_rationale m of None \<Rightarrow> [] | Some r \<Rightarrow> r),
      vd_stats = Option.bind (mq_topic m) (\<lambda>tp. topic_stats (auth_tenant user) (auth_user user) tp s')\<rparr>"
    "s' = s\<lparr>attempts := attempts s @ [\<lparr>att_tenant = auth_tenant user, att_user = auth_user user, att_mcq = k, att_chosen = choice,
       att_correct = (Some i = position (mq_answer m) (options_of m))\<rparr>]\<rparr>"
    using up m i unfolding attempt_mcq_def Let_def by (auto split: if_splits)
  show ?thesis by (rule that [OF m(1) i]) (use run up in auto)
qed

lemma attempts_on_snoc:
  "attempts_on t u tp (s\<lparr>attempts := attempts s @ [a]\<rparr>) = attempts_on t u tp s @ (if att_tenant a = t \<and> att_user a = u
     \<and> list_ex (\<lambda>m. mq_id m = att_mcq a \<and> mq_tenant m = t \<and> mq_topic m = Some tp) (mcqs s) then [a] else [])"
  by (simp add: attempts_on_def)

text \<open>Grading. An answer is right exactly if the option it names is the first whose text is the stored answer; it
  is recorded as one more attempt of the user at the question's topic, right or wrong, and the accuracy shown with
  the verdict is a fraction.\<close>

theorem attempt_graded:
  assumes "attempt_mcq user k choice s = (Inr v, s')" "find (own_mcq (auth_tenant user) k) (mcqs s) = Some m" "mq_topic m = Some tp"
    and "topic_stats (auth_tenant user) (auth_user user) tp s = Some old"
  shows "\<exists>i now. chosen_place choice = Some i \<and> i < length (options_of m)
    \<and> (vd_correct v \<longleftrightarrow> options_of m ! i = mq_answer m \<and> (\<forall>j < i. options_of m ! j \<noteq> mq_answer m))
    \<and> vd_stats v = Some now \<and> qs_attempts now = qs_attempts old + 1
    \<and> qs_correct now = qs_correct old + (if vd_correct v then 1 else 0) \<and> 0 \<le> qs_accuracy now \<and> qs_accuracy now \<le> 1"
proof -
  obtain m' i where p: "find (own_mcq (auth_tenant user) k) (mcqs s) = Some m'" "chosen_place choice = Some i" "i < length (options_of m')"
    "vd_correct v = (position (mq_answer m') (options_of m') = Some i)"
    "s' = s\<lparr>attempts := attempts s @ [\<lparr>att_tenant = auth_tenant user, att_user = auth_user user, att_mcq = k, att_chosen = choice,
       att_correct = vd_correct v\<rparr>]\<rparr>"
    "vd_stats v = Option.bind (mq_topic m') (\<lambda>tp. topic_stats (auth_tenant user) (auth_user user) tp s')" "know_up (class_db s)"
    by (rule attempt_parts [OF assms(1)])
  have m: "m' = m" using p(1) assms(2) by simp
  let ?on = "attempts_on (auth_tenant user) (auth_user user) tp" and ?a = "\<lparr>att_tenant = auth_tenant user,
    att_user = auth_user user, att_mcq = k, att_chosen = choice, att_correct = vd_correct v\<rparr>"
  have "m \<in> set (mcqs s)" "own_mcq (auth_tenant user) k m" using assms(2) by (auto simp: find_Some_iff)
  then have on: "?on s' = ?on s @ [?a]"
    using assms(3) by (auto simp: p(5) attempts_on_snoc list_ex_iff own_mcq_def)
  have le: "length (filter att_correct (?on s')) \<le> length (?on s')" by simp
  have old: "qs_attempts old = length (?on s)" "qs_correct old = length (filter att_correct (?on s))"
    using assms(4) p(7) by (auto simp: topic_stats_def Let_def)
  have st: "vd_stats v = Some \<lparr>qs_attempts = length (?on s'), qs_correct = length (filter att_correct (?on s')),
      qs_accuracy = real (length (filter att_correct (?on s'))) / real (length (?on s'))\<rparr>"
    using p(6,7) assms(3) on by (simp add: m topic_stats_def p(5))
  show ?thesis
    using p(2-4) le old on unfolding st m
    by (intro exI [of _ i] exI conjI) (auto simp: position_Some divide_le_eq_1)
qed

lemma as_str_options: "List.map_filter as_str (map JStr xs) = xs"
  by (induction xs) (simp_all add: List.map_filter_simps)

text \<open>A question whose stored answer is none of its options has no right answer: no attempt at it is ever graded
  right, and the verdict names no option. The generator stores such questions, since it never compares the
  model's answer with its options.\<close>

theorem unanswerable_question:
  assumes "mcq_of t tp k g = m" "gm_answer g \<notin> set (gm_options g)" "find (own_mcq (auth_tenant user) k) (mcqs s) = Some m"
    and "attempt_mcq user k choice s = (Inr v, s')"
  shows "\<not> vd_correct v \<and> vd_option v = []"
proof -
  have o: "options_of m = gm_options g" "mq_answer m = gm_answer g"
    using assms(1) by (auto simp: mcq_of_def options_of_def as_str_options)
  obtain m' i where p: "find (own_mcq (auth_tenant user) k) (mcqs s) = Some m'"
    "vd_correct v = (position (mq_answer m') (options_of m') = Some i)"
    "vd_option v = (case position (mq_answer m') (options_of m') of None \<Rightarrow> [] | Some i \<Rightarrow> option_name i)"
    by (rule attempt_parts [OF assms(4)])
  moreover have "position (gm_answer g) (gm_options g) = None" using assms(2) by (simp add: position_None)
  ultimately show ?thesis using assms(3) o by auto
qed


lemma chosen_place_name: "int i < 2 ^ 63 \<Longrightarrow> chosen_place (option_name i) = Some i"
proof -
  assume i: "int i < 2 ^ 63"
  have "\<not> starts_with (show_nat i) ''-''"
    using show_nat_digits [of "CHR ''-''" i] by (cases "show_nat i") (auto simp: starts_with_def code_of_def)
  with i show ?thesis by (simp add: chosen_place_def option_name_def strip_prefix_def starts_with_def parse_place_def parse_i64_show_nat)
qed

text \<open>The identifier that an editor is shown as the right option, sent back as an answer to the question, is
  graded right, and comes back in the verdict.\<close>

theorem shown_answer_is_right:
  assumes "know_up (class_db s)" "is_editor user" "find (own_mcq (auth_tenant user) k) (mcqs s) = Some m"
    and "get_key (JObj (mcq_json m True)) ''correctOptionId'' = Some (JStr shown)" "int (length (options_of m)) < 2 ^ 63"
  shows "\<exists>v s'. attempt_mcq user k shown s = (Inr v, s') \<and> vd_correct v \<and> vd_option v = shown"
proof -
  obtain i where i: "position (mq_answer m) (options_of m) = Some i" "shown = option_name i"
    using assms(4) by (auto simp: mcq_json_def get_key_def Let_def split: option.splits)
  then have len: "i < length (options_of m)" by (simp add: position_Some)
  then have c: "chosen_place shown = Some i" using assms(5) i(2) chosen_place_name by simp
  from assms(1-3) i len show ?thesis unfolding attempt_mcq_def by (simp add: c [unfolded i(2)] not_le Let_def)
qed

section \<open>Generated questions\<close>

lemma insert_mcqs_rows:
  assumes "insert_mcqs t tp gs s = (n, s')"
  shows "\<exists>new. mcqs s' = mcqs s @ new \<and> length new = n \<and> n \<le> length gs
    \<and> (\<forall>m \<in> set new. mq_tenant m = t \<and> mq_status m = ''draft'' \<and> mq_topic m = Some tp \<and> 2 \<le> length (options_of m))"
    and "attempts s' = attempts s"
proof -
  let ?ok = "filter usable gs" and ?k = "mcq_supply s"
  let ?new = "map2 (mcq_of t tp) [?k..<?k + length ?ok] ?ok"
  have s': "mcqs s' = mcqs s @ ?new" "n = length ?ok" "attempts s' = attempts s" using assms by (auto simp: insert_mcqs_def Let_def)
  have "mq_tenant m = t \<and> mq_status m = ''draft'' \<and> mq_topic m = Some tp \<and> 2 \<le> length (options_of m)" if "m \<in> set ?new" for m
  proof -
    from that have "m \<in> (\<lambda>(j, g). mcq_of t tp j g) ` set (zip [?k..<?k + length ?ok] ?ok)" by (simp only: set_map)
    then obtain z where "m = mcq_of t tp (fst z) (snd z)" "z \<in> set (zip [?k..<?k + length ?ok] ?ok)" by (elim imageE) (simp add: case_prod_beta)
    moreover from this(2) have "snd z \<in> set ?ok" by (metis prod.collapse set_zip_rightD)
    ultimately show ?thesis by (auto simp: mcq_of_def options_of_def as_str_options usable_def)
  qed
  then show "\<exists>new. mcqs s' = mcqs s @ new \<and> length new = n \<and> n \<le> length gs
    \<and> (\<forall>m \<in> set new. mq_tenant m = t \<and> mq_status m = ''draft'' \<and> mq_topic m = Some tp \<and> 2 \<le> length (options_of m))"
    unfolding s'(1,2) by (intro exI [of _ ?new]) auto
  show "attempts s' = attempts s" by (rule s'(3))
qed

text \<open>Generation only adds drafts: at most the number asked for, never more than twenty, each with at least two options and on
  the topic, after the questions that were there; so what a viewer is shown does not change.\<close>

theorem generation_adds_drafts:
  assumes "generate_mcqs e rd t tp wanted s = (Some n, s')"
  shows "(\<exists>new. mcqs s' = mcqs s @ new \<and> length new = n
      \<and> (\<forall>m \<in> set new. mq_tenant m = t \<and> mq_status m = ''draft'' \<and> mq_topic m = Some tp \<and> 2 \<le> length (options_of m)))
    \<and> n \<le> min (max wanted 1) 20 \<and> (\<forall>user f st. \<not> is_editor user \<longrightarrow> shown_mcqs user f st s' = shown_mcqs user f st s)"
proof -
  obtain c w where cfg: "org_config e t (school s) = (c, w)" by (meson surj_pair)
  obtain r w2 where a: "ask e t Synthesis (mcq_system (clamp wanted 1 20)) (''Facts:'' @ newline @ ''- '' @ join_str (newline @ ''- '') (mcq_claims t tp (know w))) w = (r, w2)"
    by (meson surj_pair)
  have up: "c \<noteq> None" "know_up (know w)" using assms cfg by (auto simp: generate_mcqs_def split: if_splits option.splits)
  have new: "\<exists>new. mcqs s' = mcqs s @ new \<and> length new = n \<and> n \<le> clamp wanted 1 20
      \<and> (\<forall>m \<in> set new. mq_tenant m = t \<and> mq_status m = ''draft'' \<and> mq_topic m = Some tp \<and> 2 \<le> length (options_of m))"
  proof (cases "mcq_claims t tp (know w) = []")
    case True
    with assms cfg up have "n = 0" "s' = s\<lparr>school := w\<rparr>" by (auto simp: generate_mcqs_def Let_def)
    then show ?thesis by simp
  next
    case False
    with assms cfg up a obtain reply where reply: "r = Some reply" by (cases r) (auto simp: generate_mcqs_def Let_def)
    let ?gs = "take (clamp wanted 1 20) (parse_mcqs rd (reply_text reply))"
    have ins: "insert_mcqs t tp ?gs (s\<lparr>school := w2\<rparr>) = (n, s')"
      using assms cfg up a False reply by (auto simp: generate_mcqs_def Let_def split: prod.splits)
    from insert_mcqs_rows(1) [OF ins] show ?thesis by auto
  qed
  then obtain new where n: "mcqs s' = mcqs s @ new" "\<forall>m \<in> set new. mq_status m = ''draft''" by blast
  have "shown_mcqs user f st s' = shown_mcqs user f st s" if "\<not> is_editor user" for user f st
  proof -
    have "filter (\<lambda>m. mq_tenant m = auth_tenant user \<and> on_topic_filter (Option.bind f parse_uuid) (mq_topic m)
        \<and> mq_status m = ''published'') new = []" using n(2) by (auto simp: filter_empty_conv)
    then show ?thesis using that by (simp add: shown_mcqs_def status_filter_def n(1))
  qed
  moreover have "clamp wanted 1 20 \<le> min (max wanted 1) 20" by (auto simp: clamp_def)
  ultimately show ?thesis using new by fastforce
qed


section \<open>A concrete class\<close>

definition heart_question :: "string \<Rightarrow> mcq_row" where
  "heart_question st = \<lparr>mq_id = 8, mq_tenant = 5, mq_topic = Some 60, mq_claim = None, mq_stem = ''Which organ?'',
     mq_options = JArr [JStr ''Liver'', JStr ''Heart''], mq_answer = ''Heart'', mq_rationale = None, mq_difficulty = None, mq_status = st\<rparr>"

definition small_class :: classroom where
  "small_class = \<lparr>school = insulin_world, schedules_of = (\<lambda>_. None), mcqs = [heart_question ''published'', (heart_question ''draft'')\<lparr>mq_id := 9\<rparr>],
     attempts = [], mcq_supply = 10\<rparr>"

definition viewer :: authed_user where
  "viewer = \<lparr>auth_user = 3, auth_tenant = 5, auth_role = ''viewer'', auth_session = 4\<rparr>"

lemma viewer_facts: "\<not> is_editor viewer" "auth_tenant viewer = 5" "auth_user viewer = 3"
  by (simp_all add: is_editor_def viewer_def)

lemma small_class_facts: "know_up (class_db small_class)" "mcqs small_class = [heart_question ''published'', (heart_question ''draft'')\<lparr>mq_id := 9\<rparr>]"
  "find (own_mcq 5 8) (mcqs small_class) = Some (heart_question ''published'')" "attempts small_class = []"
  using insulin_history(2) by (simp_all add: small_class_def own_mcq_def heart_question_def)

lemma heart_options: "options_of (heart_question st) = [''Liver'', ''Heart'']" "mq_answer (heart_question st) = ''Heart''"
  "mq_topic (heart_question st) = Some 60" "mq_rationale (heart_question st) = None" "mq_status (heart_question st) = st"
  by (simp_all add: heart_question_def options_of_def List.map_filter_simps)

lemma first_place: "chosen_place ''o1'' = Some 1"
  by code_simp

theorem answer_key_hidden_witness:
  "\<exists>items st. list_mcqs viewer None (Some ''all'') small_class = Inr (items, st) \<and> length items = 1
    \<and> (\<forall>it \<in> set items. get_key it ''correctOptionId'' = None)"
proof -
  have "shown_mcqs viewer None (Some ''all'') small_class = [heart_question ''published'']"
    by (simp add: shown_mcqs_def status_filter_def viewer_facts small_class_facts on_topic_filter_def heart_options)
      (simp add: heart_question_def)
  then obtain items st where run: "list_mcqs viewer None (Some ''all'') small_class = Inr (items, st)" "length items = 1"
    by (simp add: list_mcqs_def small_class_facts)
  from answer_key_hidden [OF run(1) viewer_facts(1)] run show ?thesis by blast
qed

theorem attempt_graded_witness:
  "\<exists>v s' now. attempt_mcq viewer 8 ''o1'' small_class = (Inr v, s') \<and> vd_correct v \<and> vd_stats v = Some now \<and> qs_attempts now = 1"
proof -
  have find: "find (own_mcq (auth_tenant viewer) 8) (mcqs small_class) = Some (heart_question ''published'')"
    unfolding viewer_facts by (rule small_class_facts(3))
  obtain v s' where run: "attempt_mcq viewer 8 ''o1'' small_class = (Inr v, s')"
    unfolding attempt_mcq_def by (simp add: find small_class_facts(1) heart_options first_place Let_def)
  have old: "topic_stats (auth_tenant viewer) (auth_user viewer) 60 small_class = Some \<lparr>qs_attempts = 0, qs_correct = 0, qs_accuracy = 0\<rparr>"
    by (simp add: topic_stats_def attempts_on_def small_class_facts Let_def)
  from attempt_graded [OF run find heart_options(3) old] run show ?thesis
    by (auto simp: first_place heart_options)
qed

definition class_editor :: authed_user where
  "class_editor = viewer\<lparr>auth_role := ''editor''\<rparr>"

theorem shown_answer_is_right_witness:
  "\<exists>v s'. attempt_mcq class_editor 8 ''o1'' small_class = (Inr v, s') \<and> vd_correct v \<and> vd_option v = ''o1''"
proof -
  have ed: "is_editor class_editor" "auth_tenant class_editor = 5" by (simp_all add: class_editor_def is_editor_def viewer_def)
  have "get_key (JObj (mcq_json (heart_question ''published'') True)) ''correctOptionId'' = Some (JStr ''o1'')" by code_simp
  then show ?thesis
    using shown_answer_is_right [OF small_class_facts(1) ed(1), of 8 "heart_question ''published''" "''o1''"] small_class_facts(3)
    by (auto simp: heart_options ed)
qed

end
