(* ===== verification/Catalogue.thy ===== *)
theory Catalogue
  imports Documents Study
begin

text \<open>
  The ontology registry, \<open>insight-api/src/routes/ontology.rs\<close>: a tenant's rows of \<open>ontologies\<close> beside the concept
  table that all tenants share. The JSON reader of an upload, the Unicode upper-case map (it leaves Latin-1),
  the database's text order, the embedding service and the vector index are parameters. A query with
  \<open>LIMIT 1\<close> and no order takes the first row in table order. Time stamps are left out.
\<close>

record onto_entry =
  oe_id :: uuid
  oe_tenant :: uuid
  oe_name :: string
  oe_description :: "string option"
  oe_prefix :: "string option"
  oe_status :: string
  oe_schema :: json

record catalogue =
  entries :: "onto_entry list"
  shared :: ontology_db
  cat_supply :: uuid
  cat_up :: bool

definition RESERVED :: "string list" where
  "RESERVED = [''mesh'', ''mondo'', ''hpo'', ''rxnorm'', ''umls'', ''snomed'']"

definition MAX_SYNC_CONCEPTS :: nat where "MAX_SYNC_CONCEPTS = 2000"

definition too_large :: api_error where
  "too_large = \<lparr>err_status = 413, err_code = ''too_large''\<rparr>"

definition slugify :: "string \<Rightarrow> string" where
  "slugify s = join_str ''-'' (filter (\<lambda>p. p \<noteq> []) (split_on CHR ''-'' (trim_matches {CHR ''-''}
     (map (\<lambda>c. if is_alphanumeric c then c else CHR ''-'') (lowercase (trim s))))))"

definition concept_counts :: "(string \<Rightarrow> string) \<Rightarrow> string \<Rightarrow> ontology_db \<Rightarrow> nat \<times> nat" where
  "concept_counts upper pre db =
     (if pre = [] \<or> \<not> onto_up db then (0, 0)
      else let cs = filter (\<lambda>c. con_ontology c = upper pre) (concepts db)
           in (length cs, sum_list (map (\<lambda>c. length (synonyms_of c)) cs)))"

definition prefix_of :: "onto_entry \<Rightarrow> string" where
  "prefix_of r = (case oe_prefix r of None \<Rightarrow> [] | Some p \<Rightarrow> p)"

definition own_entry :: "uuid \<Rightarrow> uuid \<Rightarrow> onto_entry \<Rightarrow> bool" where
  "own_entry t k r = (oe_id r = k \<and> oe_tenant r = t)"

record entry_view =
  ev_id :: uuid
  ev_name :: string
  ev_entities :: nat
  ev_relations :: nat
  ev_status :: string

definition list_ontologies :: "(string \<Rightarrow> nat) \<Rightarrow> (string \<Rightarrow> string) \<Rightarrow> authed_user \<Rightarrow> catalogue \<Rightarrow> api_error + entry_view list" where
  "list_ontologies collate upper user s = (if \<not> cat_up s then Inl internal
     else Inr (map (\<lambda>r. let (n, k) = concept_counts upper (prefix_of r) (shared s)
         in \<lparr>ev_id = oe_id r, ev_name = oe_name r, ev_entities = n, ev_relations = k, ev_status = oe_status r\<rparr>)
       (sort_key (\<lambda>r. collate (oe_name r)) (filter (\<lambda>r. oe_tenant r = auth_tenant user) (entries s)))))"

definition new_entry :: "uuid \<Rightarrow> string \<Rightarrow> string option \<Rightarrow> string \<Rightarrow> string \<Rightarrow> catalogue \<Rightarrow> uuid \<times> catalogue" where
  "new_entry t nm descr slug st s = (cat_supply s, s\<lparr>entries := entries s @ [\<lparr>oe_id = cat_supply s, oe_tenant = t, oe_name = nm,
     oe_description = descr, oe_prefix = Some slug, oe_status = st, oe_schema = JObj []\<rparr>], cat_supply := cat_supply s + 1\<rparr>)"

definition create_ontology ::
  "api_error + authed_user \<Rightarrow> string \<Rightarrow> string option \<Rightarrow> string option \<Rightarrow> catalogue \<Rightarrow> (api_error + uuid \<times> string) \<times> catalogue" where
  "create_ontology auth body_name body_slug descr s =
     (case require_admin auth of Inl err \<Rightarrow> (Inl err, s)
      | Inr user \<Rightarrow>
          let nm = trim body_name; slug = slugify (case body_slug of None \<Rightarrow> nm | Some x \<Rightarrow> x)
          in if nm = [] then (Inl bad_request, s)
             else if slug \<in> set RESERVED then (Inl conflict, s)
             else if \<not> cat_up s then (Inl internal, s)
             else (case new_entry (auth_tenant user) nm descr slug ''draft'' s of (k, s) \<Rightarrow> (Inr (k, slug), s)))"

definition delete_ontology ::
  "(string \<Rightarrow> string) \<Rightarrow> api_error + authed_user \<Rightarrow> uuid \<Rightarrow> catalogue \<Rightarrow> (api_error + string \<times> nat \<times> nat) \<times> catalogue" where
  "delete_ontology upper auth k s =
     (case require_admin auth of Inl err \<Rightarrow> (Inl err, s)
      | Inr user \<Rightarrow>
          if \<not> cat_up s then (Inl internal, s)
          else (case find (own_entry (auth_tenant user) k) (entries s) of None \<Rightarrow> (Inl not_found, s)
            | Some r \<Rightarrow> (Inr (prefix_of r, concept_counts upper (prefix_of r) (shared s)),
                s\<lparr>entries := filter (\<lambda>r. \<not> own_entry (auth_tenant user) k r) (entries s)\<rparr>)))"

record schema_info =
  si_entry :: onto_entry
  si_concepts :: nat
  si_synonyms :: nat

definition schema_view :: "(string \<Rightarrow> string) \<Rightarrow> uuid \<Rightarrow> uuid \<Rightarrow> catalogue \<Rightarrow> api_error + schema_info" where
  "schema_view upper t k s = (if \<not> cat_up s then Inl internal
     else case find (own_entry t k) (entries s) of None \<Rightarrow> Inl not_found
       | Some r \<Rightarrow> let (n, m) = concept_counts upper (prefix_of r) (shared s)
                   in Inr \<lparr>si_entry = r, si_concepts = n, si_synonyms = m\<rparr>)"

definition get_schema :: "(string \<Rightarrow> string) \<Rightarrow> authed_user \<Rightarrow> uuid \<Rightarrow> catalogue \<Rightarrow> api_error + schema_info" where
  "get_schema upper user k s = schema_view upper (auth_tenant user) k s"

definition coalesce :: "'a option \<Rightarrow> 'a \<Rightarrow> 'a" where
  "coalesce x y = (case x of None \<Rightarrow> y | Some z \<Rightarrow> z)"

definition set_entry :: "string option \<Rightarrow> string option \<Rightarrow> json option \<Rightarrow> onto_entry \<Rightarrow> onto_entry" where
  "set_entry nm st sch r = r\<lparr>oe_name := coalesce (map_option trim nm) (oe_name r), oe_status := coalesce st (oe_status r),
     oe_schema := coalesce sch (oe_schema r)\<rparr>"

definition put_schema ::
  "(string \<Rightarrow> string) \<Rightarrow> api_error + authed_user \<Rightarrow> uuid \<Rightarrow> string option \<Rightarrow> string option \<Rightarrow> json option \<Rightarrow> catalogue
    \<Rightarrow> (api_error + schema_info) \<times> catalogue" where
  "put_schema upper auth k nm st sch s =
     (case require_admin auth of Inl err \<Rightarrow> (Inl err, s)
      | Inr user \<Rightarrow>
          if (case st of None \<Rightarrow> False | Some x \<Rightarrow> x \<noteq> ''active'' \<and> x \<noteq> ''draft'') then (Inl bad_request, s)
          else if \<not> cat_up s then (Inl internal, s)
          else let s' = s\<lparr>entries := update_where (own_entry (auth_tenant user) k) (set_entry nm st sch) (entries s)\<rparr>
               in if \<not> list_ex (own_entry (auth_tenant user) k) (entries s) then (Inl not_found, s')
                  else (schema_view upper (auth_tenant user) k s', s'))"

record import_body =
  ib_content :: string
  ib_ontology :: "string option"
  ib_name :: "string option"
  ib_format :: "string option"

record import_result =
  ir_slug :: string
  ir_id :: uuid
  ir_concepts :: nat
  ir_edges :: nat

text \<open>The concepts are committed before their number is looked at.\<close>

definition import_ontology ::
  "(string \<Rightarrow> obo_doc option) \<Rightarrow> api_error + authed_user \<Rightarrow> import_body \<Rightarrow> catalogue \<Rightarrow> (api_error + import_result) \<times> catalogue" where
  "import_ontology read_obo auth b s =
     (case require_admin auth of Inl err \<Rightarrow> (Inl err, s)
      | Inr user \<Rightarrow>
          let fmt = (case ib_format b of None \<Rightarrow> ''json'' | Some f \<Rightarrow> f);
              slug = slugify (case ib_ontology b of None \<Rightarrow> ''custom'' | Some x \<Rightarrow> x)
          in if trim (ib_content b) = [] then (Inl bad_request, s)
             else if fmt \<noteq> ''json'' \<and> fmt \<noteq> ''obo'' then (Inl bad_request, s)
             else if slug \<in> set RESERVED then (Inl conflict, s)
             else (case load_mondo (read_obo (ib_content b)) (shared s) of
                 (None, db) \<Rightarrow> (Inl bad_request, s\<lparr>shared := db\<rparr>)
               | (Some rpt, db) \<Rightarrow>
                   if concepts_upserted rpt > MAX_SYNC_CONCEPTS then (Inl too_large, s\<lparr>shared := db\<rparr>)
                   else if \<not> cat_up s then (Inl internal, s\<lparr>shared := db\<rparr>)
                   else (case new_entry (auth_tenant user) (case ib_name b of None \<Rightarrow> slug | Some n \<Rightarrow> n) None slug ''active'' (s\<lparr>shared := db\<rparr>) of
                       (k, s) \<Rightarrow> (Inr \<lparr>ir_slug = slug, ir_id = k, ir_concepts = concepts_upserted rpt, ir_edges = edges_upserted rpt\<rparr>, s))))"

section \<open>Expansion and the linking test\<close>

definition expand :: "string option \<Rightarrow> catalogue \<Rightarrow> api_error + string list" where
  "expand q s = (let query = (case q of None \<Rightarrow> [] | Some x \<Rightarrow> x)
     in if trim query = [] then Inl bad_request
        else if \<not> onto_up (shared s) then Inl internal
        else case find (\<lambda>c. lowercase (con_label c) = normalize_label query) (concepts (shared s)) of
            None \<Rightarrow> Inr [] | Some c \<Rightarrow> Inr (synonyms_of c))"

definition utf8_length :: "string \<Rightarrow> nat" where
  "utf8_length s = sum_list (map (\<lambda>c. if code_of c < 128 then 1 else 2) s)"

text \<open>The loop over the words: what has been found, at most 25, and the spellings seen.\<close>

fun mention_loop :: "string list \<Rightarrow> string list \<Rightarrow> string list \<Rightarrow> string list" where
  "mention_loop [] seen out = out"
| "mention_loop (w # ws) seen out =
     (let v = trim w
      in if utf8_length v < 6 then mention_loop ws seen out
         else if lowercase v \<in> set seen then mention_loop ws seen out
         else if length out + 1 \<ge> 25 then out @ [v]
         else mention_loop ws (lowercase v # seen) (out @ [v]))"

definition candidate_mentions :: "string \<Rightarrow> string list" where
  "candidate_mentions x = mention_loop (split_by (\<lambda>c. \<not> is_alphanumeric c \<and> c \<noteq> CHR ''-'') x) [] []"

record link_report =
  lr_tested :: nat
  lr_linked :: "(string \<times> concept_match) list"
  lr_unmatched :: "string list"

definition rounded_score :: "concept_match \<Rightarrow> f64" where
  "rounded_score m = real_of_int (round_away (m_score m * 10000)) / 10000"

definition match_label :: "concept_match \<Rightarrow> string" where
  "match_label m = (if m_score m \<ge> 1 then ''exact'' else ''semantic'')"

definition test_links ::
  "services \<Rightarrow> nearest_fn \<Rightarrow> environment \<Rightarrow> string \<Rightarrow> string list option \<Rightarrow> catalogue \<Rightarrow> api_error + link_report" where
  "test_links v nearest env txt_in mentions s =
     (if trim txt_in = [] then Inl bad_request
      else let ms = (case mentions of None \<Rightarrow> candidate_mentions txt_in | Some xs \<Rightarrow> if xs \<noteq> [] then xs else candidate_mentions txt_in)
           in case link_mentions v nearest env ms (shared s) of None \<Rightarrow> Inl internal
              | Some out \<Rightarrow> Inr \<lparr>lr_tested = length ms,
                  lr_linked = List.map_filter (\<lambda>(x, m). map_option (\<lambda>cm. (x, cm)) m) (zip ms out),
                  lr_unmatched = map fst (filter (\<lambda>(x, m). m = None) (zip ms out))\<rparr>)"

section \<open>The shared table and the registry\<close>

text \<open>An import answered with 413 has nevertheless been carried out: the concepts of the upload are in the
  shared table, in full, and only the registry entry is missing.\<close>

theorem refused_import_is_kept:
  assumes "import_ontology read_obo auth b s = (Inl too_large, s')" "require_admin auth = Inr user"
  shows "\<exists>rpt. load_mondo (read_obo (ib_content b)) (shared s) = (Some rpt, shared s')
    \<and> MAX_SYNC_CONCEPTS < concepts_upserted rpt \<and> entries s' = entries s"
  using assms(1) unfolding import_ontology_def assms(2) sum.case Let_def
  by (auto simp: new_entry_def too_large_def bad_request_def conflict_def internal_def split: if_splits option.splits prod.splits)

lemma upsert_edges_concepts: "upsert_edges ids es n db = (k, db') \<Longrightarrow> concepts db' = concepts db"
  by (induction ids es n db arbitrary: k rule: upsert_edges.induct) (auto split: option.splits if_splits)

lemma load_mondo_refreshes:
  assumes "load_mondo source db = (Some rpt, db')"
  shows "\<exists>doc. source = Some doc \<and> (\<forall>r \<in> set (concepts db'). refresh ''MONDO'' (fst (parse_obographs doc ''MONDO'')) r = r)"
proof -
  obtain doc where doc: "source = Some doc" using assms by (cases source) (simp_all add: load_mondo_def load_obo_def)
  obtain cs es where p: "parse_obographs doc ''MONDO'' = (cs, es)" by (meson surj_pair)
  obtain ids db1 where u: "upsert_concepts ''MONDO'' cs (\<lambda>_. None) db = (ids, db1)" by (meson surj_pair)
  obtain n db2 where e: "upsert_edges ids es 0 db1 = (n, db2)" by (meson surj_pair)
  have "db' = db2" using assms by (simp add: load_mondo_def load_obo_def doc p persist_concepts_def u e split: if_splits)
  moreover have "concepts db2 = concepts db1" by (rule upsert_edges_concepts [OF e])
  moreover have "\<forall>r \<in> set (concepts db1). refresh ''MONDO'' cs r = r" using upsert_concepts_loaded [OF u] by (simp add: loaded_def)
  ultimately show ?thesis by (simp add: doc p)
qed


lemma other_ontology_kept:
  assumes "X \<noteq> ns" "upsert_concepts ns cs ids db = (ids', db')"
  shows "filter (\<lambda>c. con_ontology c = X) (concepts db') = filter (\<lambda>c. con_ontology c = X) (concepts db)"
  using assms(2)
proof (induction cs arbitrary: ids db)
  case (Cons c cs)
  have one: "filter (\<lambda>c. con_ontology c = X) (concepts db1) = filter (\<lambda>c. con_ontology c = X) (concepts db)"
    if "upsert_concept ns c db = (k, db1)" for k db1
  proof -
    have "filter (\<lambda>c. con_ontology c = X) (update_where (same_code ns (curie c)) f rs) = filter (\<lambda>c. con_ontology c = X) rs"
      if "\<And>r. con_ontology (f r) = con_ontology r" for f rs
      using assms(1) that by (induction rs) (auto simp: same_code_def)
    then show ?thesis
      using that assms(1) by (auto simp: upsert_concept_def split: option.splits)
  qed
  obtain k db1 where u: "upsert_concept ns c db = (k, db1)" by (meson surj_pair)
  with Cons.prems have "upsert_concepts ns cs (ids(curie c \<mapsto> k)) db1 = (ids', db')" by simp
  from Cons.IH [OF this] one [OF u] show ?case by simp
qed simp

lemma load_mondo_others:
  assumes "load_mondo source db = (Some rpt, db')" "X \<noteq> ''MONDO''"
  shows "filter (\<lambda>c. con_ontology c = X) (concepts db') = filter (\<lambda>c. con_ontology c = X) (concepts db)" "onto_up db"
proof -
  obtain doc where doc: "source = Some doc" using assms(1) by (cases source) (simp_all add: load_mondo_def load_obo_def)
  obtain cs es where p: "parse_obographs doc ''MONDO'' = (cs, es)" by (meson surj_pair)
  obtain ids db1 where u: "upsert_concepts ''MONDO'' cs (\<lambda>_. None) db = (ids, db1)" by (meson surj_pair)
  obtain n db2 where e: "upsert_edges ids es 0 db1 = (n, db2)" by (meson surj_pair)
  have "db' = db2" "onto_up db"
    using assms(1) by (simp_all add: load_mondo_def load_obo_def doc p persist_concepts_def u e split: if_splits)
  with upsert_edges_concepts [OF e] other_ontology_kept [OF assms(2) u]
  show "filter (\<lambda>c. con_ontology c = X) (concepts db') = filter (\<lambda>c. con_ontology c = X) (concepts db)" "onto_up db" by simp_all
qed

lemma concept_counts_cong:
  assumes "filter (\<lambda>c. con_ontology c = upper p) (concepts db') = filter (\<lambda>c. con_ontology c = upper p) (concepts db)"
    "onto_up db' = onto_up db"
  shows "concept_counts upper p db' = concept_counts upper p db"
  using assms by (simp add: concept_counts_def Let_def)

lemma import_parts:
  assumes "import_ontology read_obo auth b s = (Inr res, s')"
  obtains rpt where "load_mondo (read_obo (ib_content b)) (shared s) = (Some rpt, shared s')" "ir_slug res \<notin> set RESERVED"
  using assms unfolding import_ontology_def Let_def
  by (auto simp: new_entry_def split: sum.splits if_splits option.splits prod.splits)

text \<open>What an import under a name of one's own does: the concepts go into the shared Mondo rows, so an
  administrator of any workspace sets the labels and synonyms of the concepts that all workspaces link to,
  although the name Mondo itself is reserved; and the counts shown for the new registry entry do not change,
  because they look for concepts filed under the entry's name.\<close>

theorem import_rewrites_shared_concepts:
  assumes "import_ontology read_obo auth b s = (Inr res, s')" "read_obo (ib_content b) = Some doc"
    and "upper (ir_slug res) \<noteq> ''MONDO''" "onto_up (shared s')"
  shows "(\<forall>r \<in> set (concepts (shared s')). \<forall>c. con_ontology r = ''MONDO''
        \<and> last_named (fst (parse_obographs doc ''MONDO'')) (con_code r) = Some c
        \<longrightarrow> con_label r = pc_label c \<and> con_synonyms r = Some (pc_synonyms c))
    \<and> concept_counts upper (ir_slug res) (shared s') = concept_counts upper (ir_slug res) (shared s)"
proof -
  obtain rpt where load: "load_mondo (read_obo (ib_content b)) (shared s) = (Some rpt, shared s')" by (rule import_parts [OF assms(1)])
  have fixed: "refresh ''MONDO'' (fst (parse_obographs doc ''MONDO'')) r = r" if "r \<in> set (concepts (shared s'))" for r
    using load_mondo_refreshes [OF load] assms(2) that by auto
  have "con_label r = pc_label c \<and> con_synonyms r = Some (pc_synonyms c)"
    if "r \<in> set (concepts (shared s'))" "con_ontology r = ''MONDO''" "last_named (fst (parse_obographs doc ''MONDO'')) (con_code r) = Some c" for r c
  proof -
    have "set_concept c r = r" using fixed [OF that(1)] that(2,3) by (simp add: refresh_def)
    then show ?thesis by (metis set_concept_simps(4,5))
  qed
  moreover have "concept_counts upper (ir_slug res) (shared s') = concept_counts upper (ir_slug res) (shared s)"
    using load_mondo_others [OF load assms(3)] assms(4) by (intro concept_counts_cong) simp_all
  ultimately show ?thesis by blast
qed

text \<open>Deleting a registry entry deletes no concept: the shared table is untouched, and the numbers that the answer
  calls deleted are those of the concepts that are still there.\<close>

theorem deletion_keeps_concepts:
  assumes "delete_ontology upper auth k s = (Inr (p, n, m), s')"
  shows "shared s' = shared s \<and> (n, m) = concept_counts upper p (shared s')
    \<and> (\<exists>user. auth = Inr user \<and> (\<forall>r \<in> set (entries s'). \<not> own_entry (auth_tenant user) k r))"
proof -
  obtain user where auth: "require_admin auth = Inr user" using assms by (auto simp: delete_ontology_def split: sum.splits)
  then have a: "auth = Inr user" by (auto simp: require_admin_def split: sum.splits if_splits)
  from assms show ?thesis unfolding delete_ontology_def auth sum.case
    by (auto simp: a split: if_splits option.splits)
qed

section \<open>Mentions and expansion\<close>

lemma mention_loop_ok:
  assumes "length out < 25" "distinct (map lowercase out)" "set seen = lowercase ` set out" "\<forall>v \<in> set out. 6 \<le> utf8_length v"
  shows "length (mention_loop ws seen out) \<le> 25 \<and> distinct (map lowercase (mention_loop ws seen out))
    \<and> (\<forall>v \<in> set (mention_loop ws seen out). 6 \<le> utf8_length v)"
  using assms
proof (induction ws seen out rule: mention_loop.induct)
  case (2 w ws seen out)
  let ?v = "trim w"
  consider "utf8_length ?v < 6" | "\<not> utf8_length ?v < 6" "lowercase ?v \<in> set seen"
    | "\<not> utf8_length ?v < 6" "lowercase ?v \<notin> set seen" "length out + 1 \<ge> 25"
    | "\<not> utf8_length ?v < 6" "lowercase ?v \<notin> set seen" "\<not> length out + 1 \<ge> 25" by blast
  then show ?case
  proof cases
    case 1
    then show ?thesis using "2.IH"(1) [OF HOL.refl 1] "2.prems" by simp
  next
    case 2
    then show ?thesis using "2.IH"(2) [OF HOL.refl 2] "2.prems" by simp
  next
    case 3
    then show ?thesis using "2.prems" by (auto simp: image_iff)
  next
    case 4
    have "length (out @ [?v]) < 25" "distinct (map lowercase (out @ [?v]))" "set (lowercase ?v # seen) = lowercase ` set (out @ [?v])"
      "\<forall>v \<in> set (out @ [?v]). 6 \<le> utf8_length v" using "2.prems" 4 by auto
    from "2.IH"(3) [OF HOL.refl 4 this] show ?thesis using 4 by (simp add: Let_def)
  qed
qed simp

text \<open>The mentions guessed from a text: at most 25, no two alike up to case, and each of at least
  six bytes, so no abbreviation such as TNF is ever tested, although the comment promises capitalized words too.\<close>

theorem candidate_mentions_bounds:
  "length (candidate_mentions x) \<le> 25 \<and> distinct (map lowercase (candidate_mentions x))
    \<and> (\<forall>v \<in> set (candidate_mentions x). 6 \<le> utf8_length v)"
  unfolding candidate_mentions_def by (rule mention_loop_ok) simp_all

text \<open>The expansion of a query compares a normal form with a label that is only put in lower case: a concept
  whose label has a character that is neither alphanumeric nor a space, such as an apostrophe or a comma, is found by no
  query at all, its own label included.\<close>

theorem expansion_misses_punctuation:
  assumes "concepts (shared s) = [c]" "x \<in> set (con_label c)" "\<not> is_alphanumeric x" "x \<noteq> CHR '' ''"
  shows "expand (Some q) s \<in> {Inr [], Inl bad_request, Inl internal}"
proof -
  have low: "to_lower x = x" using assms(3) to_lower_nonalnum by simp
  then have "x \<in> set (lowercase (con_label c))" using assms(2) by (force simp: lowercase_def)
  moreover have "x \<notin> set (normalize_label q)"
  proof
    assume "x \<in> set (normalize_label q)"
    moreover have "set (join_str '' '' ws) \<subseteq> insert CHR '' '' (\<Union> (set ` set ws))" for ws
      by (induction "'' ''" ws rule: join_str.induct) auto
    ultimately obtain w where "w \<in> set (label_words q)" "x \<in> set w"
      using assms(4) unfolding normalize_label_eq by fastforce
    then show False using label_words_alnum assms(3) by (auto simp: alnum_word_def)
  qed
  ultimately have "lowercase (con_label c) \<noteq> normalize_label q" by auto
  then show ?thesis by (simp add: expand_def assms(1) Let_def)
qed

lemma split_matches:
  "length xs = length ms \<Longrightarrow> length (List.map_filter (\<lambda>(x, m). map_option (\<lambda>cm. (x, cm)) m) (zip xs ms))
    + length (filter (\<lambda>(x, m). m = None) (zip xs ms)) = length xs"
  by (induction xs ms rule: list_induct2) (auto simp: List.map_filter_simps split: option.split)

text \<open>The linking test accounts for every mention: each is either linked to a concept or listed as unmatched.\<close>

theorem link_test_accounts_for_mentions:
  assumes "test_links v nearest env txt_in mentions s = Inr rpt"
  shows "lr_tested rpt = length (lr_linked rpt) + length (lr_unmatched rpt)"
proof -
  obtain ms out where run: "link_mentions v nearest env ms (shared s) = Some out"
    "rpt = \<lparr>lr_tested = length ms, lr_linked = List.map_filter (\<lambda>(x, m). map_option (\<lambda>cm. (x, cm)) m) (zip ms out),
       lr_unmatched = map fst (filter (\<lambda>(x, m). m = None) (zip ms out))\<rparr>"
    using assms unfolding test_links_def Let_def by (auto split: if_splits option.splits)
  from link_mentions_slots(1) [OF run(1)] split_matches [of ms out] show ?thesis by (simp add: run(2))
qed

end
