(* ===== verification/Shelves.thy ===== *)
theory Shelves
  imports Documents
begin

text \<open>
  What orders the documents: folders (\<open>insight-api/src/routes/folders.rs\<close>), the registry of sources
  (\<open>routes/sources.rs\<close>) and the search for figures and tables (\<open>routes/figures.rs\<close>), over the tables of a
  \<open>site\<close>. The database's text order and the current year are parameters. Time stamps are left out, and a row's
  place in its table stands for \<open>added_at\<close>.
\<close>

record folder_row =
  fo_id :: string
  fo_tenant :: uuid
  fo_name :: string
  fo_parent :: "string option"

record registered_source =
  src_id :: string
  src_tenant :: uuid
  src_name :: string
  src_author :: string
  src_type :: string
  src_priority :: int
  src_date :: string

record office =
  desk :: site
  folders :: "folder_row list"
  sources :: "registered_source list"
  office_supply :: nat

abbreviation office_up :: "office \<Rightarrow> bool" where
  "office_up s \<equiv> db_up (library (desk s))"

abbreviation office_claims :: "office \<Rightarrow> knowledge_db" where
  "office_claims s \<equiv> know (wd (srv (desk s)))"

section \<open>Folders\<close>

record folder_view =
  fv_id :: string
  fv_name :: string
  fv_docs :: nat
  fv_topics :: nat
  fv_health :: int

definition folder_documents :: "uuid \<Rightarrow> string \<Rightarrow> office \<Rightarrow> document_row list" where
  "folder_documents t f s = filter (\<lambda>d. doc_tenant d = t \<and> doc_folder d = Some f) (documents (library (desk s)))"

definition folder_health :: "nat \<Rightarrow> nat \<Rightarrow> int" where
  "folder_health indexed docs = (if docs > 0 then \<lfloor>real indexed / real docs * 100 + 1 / 2\<rfloor> else 100)"

definition folder_topics :: "uuid \<Rightarrow> string \<Rightarrow> office \<Rightarrow> nat" where
  "folder_topics t f s = length (remdups (concat (map (\<lambda>d. topics_of t (doc_key d) (office_claims s)) (folder_documents t f s))))"

definition folder_json :: "uuid \<Rightarrow> folder_row \<Rightarrow> office \<Rightarrow> folder_view" where
  "folder_json t f s = (let ds = folder_documents t (fo_id f) s
     in \<lparr>fv_id = fo_id f, fv_name = fo_name f, fv_docs = length ds, fv_topics = folder_topics t (fo_id f) s,
         fv_health = folder_health (length (filter (\<lambda>d. doc_status d = ''indexed'') ds)) (length ds)\<rparr>)"

definition list_folders :: "(string \<Rightarrow> nat) \<Rightarrow> authed_user \<Rightarrow> office \<Rightarrow> api_error + folder_view list" where
  "list_folders collate user s = (if \<not> office_up s \<or> \<not> know_up (office_claims s) then Inl internal
     else Inr (map (\<lambda>f. folder_json (auth_tenant user) f s)
       (sort_key (\<lambda>f. collate (fo_name f)) (filter (\<lambda>f. fo_tenant f = auth_tenant user) (folders s)))))"

definition create_folder :: "authed_user \<Rightarrow> string \<Rightarrow> string option \<Rightarrow> office \<Rightarrow> (api_error + folder_view) \<times> office" where
  "create_folder user nm parent s =
     (if trim nm = [] then (Inl bad_request, s)
      else if \<not> office_up s then (Inl internal, s)
      else let k = uuid_text (office_supply s)
           in (Inr \<lparr>fv_id = k, fv_name = trim nm, fv_docs = 0, fv_topics = 0, fv_health = 100\<rparr>,
               s\<lparr>folders := folders s @ [\<lparr>fo_id = k, fo_tenant = auth_tenant user, fo_name = trim nm, fo_parent = parent\<rparr>],
                 office_supply := office_supply s + 1\<rparr>))"

definition get_folder :: "authed_user \<Rightarrow> string \<Rightarrow> office \<Rightarrow> api_error + folder_view \<times> json list" where
  "get_folder user k s =
     (let t = auth_tenant user
      in if \<not> office_up s \<or> \<not> know_up (office_claims s) then Inl internal
         else case find (\<lambda>f. fo_id f = k \<and> fo_tenant f = t) (folders s) of None \<Rightarrow> Inl not_found
           | Some f \<Rightarrow> (case store_list t (Some k) 500 0 (library (desk s)) of None \<Rightarrow> Inl internal
               | Some rows \<Rightarrow> Inr (folder_json t f s, map (\<lambda>d. JObj (document_json d (page_count t (doc_key d) (library (desk s)))
                   (topic_count t (doc_key d) (office_claims s)))) rows)))"

section \<open>Sources\<close>

definition editor_only :: "authed_user \<Rightarrow> api_error + unit" where
  "editor_only user = (if role_rank (auth_role user) < role_rank ''editor'' then Inl forbidden else Inr ())"

definition list_sources :: "(string \<Rightarrow> nat) \<Rightarrow> authed_user \<Rightarrow> office \<Rightarrow> api_error + registered_source list" where
  "list_sources collate user s = (if \<not> office_up s then Inl internal
     else Inr (sort_key src_priority (sort_key (\<lambda>r. collate (src_name r)) (filter (\<lambda>r. src_tenant r = auth_tenant user) (sources s)))))"

record source_body =
  sb_name :: "string option"
  sb_author :: "string option"
  sb_type :: "string option"
  sb_priority :: "int option"
  sb_date :: "string option"

definition unless_blank :: "string option \<Rightarrow> string \<Rightarrow> string" where
  "unless_blank x d = (case x of None \<Rightarrow> d | Some y \<Rightarrow> if trim y = [] then d else y)"

definition create_source :: "string \<Rightarrow> authed_user \<Rightarrow> string \<Rightarrow> source_body \<Rightarrow> office \<Rightarrow> (api_error + registered_source) \<times> office" where
  "create_source year user nm b s =
     (case editor_only user of Inl e \<Rightarrow> (Inl e, s)
      | Inr _ \<Rightarrow>
          if trim nm = [] then (Inl bad_request, s)
          else if \<not> office_up s then (Inl internal, s)
          else let r = \<lparr>src_id = uuid_text (office_supply s), src_tenant = auth_tenant user, src_name = trim nm,
                        src_author = (case sb_author b of None \<Rightarrow> [] | Some a \<Rightarrow> a), src_type = unless_blank (sb_type b) ''Textbook'',
                        src_priority = clamp (case sb_priority b of None \<Rightarrow> 3 | Some p \<Rightarrow> p) 1 10, src_date = unless_blank (sb_date b) year\<rparr>
               in (Inr r, s\<lparr>sources := sources s @ [r], office_supply := office_supply s + 1\<rparr>))"

definition given :: "'a option \<Rightarrow> 'a \<Rightarrow> 'a" where
  "given x d = (case x of None \<Rightarrow> d | Some y \<Rightarrow> y)"

definition patch_source :: "source_body \<Rightarrow> registered_source \<Rightarrow> registered_source" where
  "patch_source b r = r\<lparr>src_name := given (map_option trim (sb_name b)) (src_name r), src_author := given (sb_author b) (src_author r),
     src_type := given (sb_type b) (src_type r), src_priority := given (map_option (\<lambda>p. clamp p 1 10) (sb_priority b)) (src_priority r),
     src_date := given (sb_date b) (src_date r)\<rparr>"

definition own_source :: "uuid \<Rightarrow> string \<Rightarrow> registered_source \<Rightarrow> bool" where
  "own_source t k r = (src_id r = k \<and> src_tenant r = t)"

definition update_source :: "authed_user \<Rightarrow> string \<Rightarrow> source_body \<Rightarrow> office \<Rightarrow> (api_error + registered_source) \<times> office" where
  "update_source user k b s =
     (case editor_only user of Inl e \<Rightarrow> (Inl e, s)
      | Inr _ \<Rightarrow>
          if sb_name b = None \<and> sb_author b = None \<and> sb_type b = None \<and> sb_priority b = None \<and> sb_date b = None then (Inl bad_request, s)
          else if \<not> office_up s then (Inl internal, s)
          else let rs = update_where (own_source (auth_tenant user) k) (patch_source b) (sources s)
               in (case find (own_source (auth_tenant user) k) rs of None \<Rightarrow> Inl not_found | Some r \<Rightarrow> Inr r, s\<lparr>sources := rs\<rparr>))"

section \<open>Figures\<close>

text \<open>Postgres' \<open>LIKE\<close>: a percent sign for any text, an underscore for any character, a backslash to quote.\<close>

fun like :: "string \<Rightarrow> string \<Rightarrow> bool" where
  "like [] [] = True"
| "like [] (c # cs) = False"
| "like (p # ps) [] = (p = CHR ''%'' \<and> like ps [])"
| "like (p # ps) (c # cs) =
     (if p = CHR ''%'' then like ps (c # cs) \<or> like (p # ps) cs
      else if p = CHR ''_'' then like ps cs
      else if p = CHR 0x5C then (case ps of [] \<Rightarrow> False | q # qs \<Rightarrow> q = c \<and> like qs cs)
      else p = c \<and> like ps cs)"

definition ilike :: "string \<Rightarrow> string \<Rightarrow> bool" where
  "ilike pattern x = like (lowercase pattern) (lowercase x)"

record figure_row =
  fg_id :: uuid
  fg_document :: uuid
  fg_folder :: string
  fg_page :: int
  fg_kind :: string
  fg_content :: string
  fg_title :: string

definition figure_pattern :: "string option \<Rightarrow> string option" where
  "figure_pattern q = (let x = (case q of None \<Rightarrow> [] | Some y \<Rightarrow> y)
     in if trim x = [] then None else Some (''%'' @ trim x @ ''%''))"

definition figure_rows :: "uuid \<Rightarrow> string option \<Rightarrow> library_db \<Rightarrow> figure_row list" where
  "figure_rows t pattern db =
     [\<lparr>fg_id = block_key b, fg_document = doc_key d, fg_folder = (case doc_folder d of None \<Rightarrow> [] | Some f \<Rightarrow> f),
       fg_page = page_number p, fg_kind = block_kind b, fg_content = block_text b, fg_title = doc_title d\<rparr>.
      d \<leftarrow> rev (documents db), doc_tenant d = t, p \<leftarrow> pages db, page_tenant p = t \<and> page_doc p = doc_key d,
      b \<leftarrow> blocks db, block_tenant b = t \<and> block_page b = page_key p \<and> block_kind b \<in> {''figure'', ''table''}
        \<and> (case pattern of None \<Rightarrow> True | Some pt \<Rightarrow> ilike pt (block_text b))]"

definition search_figures :: "authed_user \<Rightarrow> string option \<Rightarrow> office \<Rightarrow> api_error + figure_row list" where
  "search_figures user q s = (if \<not> office_up s then Inl internal
     else Inr (take 50 (figure_rows (auth_tenant user) (figure_pattern q) (library (desk s)))))"

section \<open>Folder views\<close>

text \<open>A folder's page is consistent: the number of documents is the number of those listed as long as the
  folder has no more than five hundred, and the health is a percentage, 100 for an empty folder and for
  one whose documents are all indexed.\<close>

theorem folder_view_consistent:
  assumes "get_folder user k s = Inr (f, docs)"
  shows "length docs = min (fv_docs f) 500 \<and> 0 \<le> fv_health f \<and> fv_health f \<le> 100
    \<and> ((\<forall>d \<in> set (folder_documents (auth_tenant user) k s). doc_status d = ''indexed'') \<longrightarrow> fv_health f = 100)"
proof -
  let ?t = "auth_tenant user" and ?ds = "folder_documents (auth_tenant user) k s"
  obtain r rows where r: "find (\<lambda>f. fo_id f = k \<and> fo_tenant f = ?t) (folders s) = Some r" "f = folder_json ?t r s"
    "store_list ?t (Some k) 500 0 (library (desk s)) = Some rows" "length docs = length rows"
    using assms unfolding get_folder_def Let_def by (auto split: if_splits option.splits)
  have k: "fo_id r = k" using r(1) by (auto simp: find_Some_iff)
  have rows: "length rows = min (length ?ds) 500"
    using r(3) by (auto simp: store_list_def in_folder_def folder_documents_def split: if_splits)
  let ?n = "length (filter (\<lambda>d. doc_status d = ''indexed'') ?ds)"
  have f: "fv_docs f = length ?ds" "fv_health f = folder_health ?n (length ?ds)" by (simp_all add: r(2) folder_json_def k Let_def)
  have range: "0 \<le> folder_health n m \<and> folder_health n m \<le> 100" if "n \<le> m" for n m
  proof (cases "m = 0")
    case False
    have "real n / real m \<le> 1" using that False by (simp add: divide_le_eq_1)
    moreover have "x * 100 \<le> 100" if "x \<le> 1" for x :: real using that by simp
    ultimately have "real n / real m * 100 \<le> 100" by blast
    then have "\<lfloor>real n / real m * 100 + 1 / 2\<rfloor> \<le> \<lfloor>100 + 1 / 2 :: real\<rfloor>" by (intro floor_mono) linarith
    then show ?thesis using False by (simp add: folder_health_def)
  qed (simp add: folder_health_def)
  have "folder_health m m = 100" for m by (cases "m = 0") (simp_all add: folder_health_def)
  then have "fv_health f = 100" if "\<forall>d \<in> set ?ds. doc_status d = ''indexed''"
    using that f(2) filter_True [of ?ds "\<lambda>d. doc_status d = ''indexed''"] by simp
  then show ?thesis using rows r(4) f range [of ?n "length ?ds"] by simp
qed

section \<open>Source priorities\<close>

definition priorities_ok :: "office \<Rightarrow> bool" where
  "priorities_ok s = (\<forall>r \<in> set (sources s). 1 \<le> src_priority r \<and> src_priority r \<le> 10)"

lemma clamp_range: "1 \<le> clamp p 1 10 \<and> clamp p 1 10 \<le> (10 :: int)"
  by (simp add: clamp_def)

text \<open>The priorities by which conflicts between sources are to be resolved stay between 1 and 10 whatever is
  created or patched, and the list is in their order.\<close>

theorem source_priorities_bounded:
  assumes "priorities_ok s"
  shows "priorities_ok (snd (create_source year user nm b s)) \<and> priorities_ok (snd (update_source user k b s))
    \<and> (\<forall>rs. list_sources collate user s = Inr rs \<longrightarrow> sorted (map src_priority rs))"
proof -
  have "1 \<le> src_priority (patch_source b r) \<and> src_priority (patch_source b r) \<le> 10" if "1 \<le> src_priority r \<and> src_priority r \<le> 10" for r
    using that clamp_range by (cases "sb_priority b") (simp_all add: patch_source_def given_def)
  then have "priorities_ok (snd (update_source user k b s))"
    using assms by (auto simp: update_source_def priorities_ok_def update_where_def Let_def split: sum.split)
  moreover have "priorities_ok (snd (create_source year user nm b s))"
    using assms clamp_range by (auto simp: create_source_def priorities_ok_def Let_def split: sum.split)
  ultimately show ?thesis by (auto simp: list_sources_def split: if_splits)
qed

section \<open>Finding figures\<close>

lemma like_rest: "like ''%'' t"
  by (induction t) simp_all

definition plain_char :: "char \<Rightarrow> bool" where
  "plain_char c = (c \<notin> {CHR ''%'', CHR ''_'', CHR 0x5C})"

lemma like_prefix: "\<forall>c \<in> set q. plain_char c \<Longrightarrow> like (q @ ''%'') t = starts_with t q"
proof (induction q arbitrary: t)
  case (Cons p q)
  then show ?case by (cases t) (auto simp: plain_char_def starts_with_def)
qed (simp add: like_rest starts_with_def)

lemma like_contains: "\<forall>c \<in> set q. plain_char c \<Longrightarrow> like (''%'' @ q @ ''%'') t = contains_str t q"
proof (induction t)
  case Nil
  then show ?case using like_prefix [of q "[]"] by (cases q) (auto simp: starts_with_def)
next
  case (Cons c t)
  then show ?case using like_prefix [OF Cons.prems, of "c # t"] by simp
qed

text \<open>The caption search, for a query without the wildcards of the database: the answers are figures
  and tables of the workspace's own documents, and a caption is found exactly if it contains the trimmed query
  up to case.\<close>

theorem figures_found:
  assumes "search_figures user (Some q) s = Inr rows" "trim q \<noteq> []" "\<forall>c \<in> set (lowercase (trim q)). plain_char c"
  shows "(\<forall>r \<in> set rows. fg_kind r \<in> {''figure'', ''table''} \<and> contains_str (lowercase (fg_content r)) (lowercase (trim q))
      \<and> (\<exists>d \<in> set (documents (library (desk s))). doc_tenant d = auth_tenant user \<and> doc_key d = fg_document r))
    \<and> (length rows < 50 \<longrightarrow> (\<forall>d p b. d \<in> set (documents (library (desk s))) \<and> doc_tenant d = auth_tenant user
        \<and> p \<in> set (pages (library (desk s))) \<and> page_tenant p = auth_tenant user \<and> page_doc p = doc_key d
        \<and> b \<in> set (blocks (library (desk s))) \<and> block_tenant b = auth_tenant user \<and> block_page b = page_key p
        \<and> block_kind b \<in> {''figure'', ''table''} \<and> contains_str (lowercase (block_text b)) (lowercase (trim q))
        \<longrightarrow> block_key b \<in> fg_id ` set rows))"
proof -
  let ?t = "auth_tenant user" and ?db = "library (desk s)"
  let ?pt = "''%'' @ trim q @ ''%''"
  have match: "ilike ?pt x = contains_str (lowercase x) (lowercase (trim q))" for x
  proof -
    have "to_lower CHR ''%'' = CHR ''%''" by code_simp
    then have "lowercase ?pt = ''%'' @ lowercase (trim q) @ ''%''" by (simp add: lowercase_def)
    then show ?thesis unfolding ilike_def using like_contains [OF assms(3)] by simp
  qed
  have rows: "rows = take 50 (figure_rows ?t (Some ?pt) ?db)"
    using assms(1,2) by (auto simp: search_figures_def figure_pattern_def Let_def split: if_splits)
  have "fg_kind r \<in> {''figure'', ''table''} \<and> contains_str (lowercase (fg_content r)) (lowercase (trim q))
      \<and> (\<exists>d \<in> set (documents ?db). doc_tenant d = ?t \<and> doc_key d = fg_document r)" if "r \<in> set rows" for r
    using in_set_takeD [OF that [unfolded rows]] unfolding figure_rows_def by (auto simp: match [simplified] split: if_splits)
  moreover have "block_key b \<in> fg_id ` set rows"
    if "length rows < 50" "d \<in> set (documents ?db)" "doc_tenant d = ?t" "p \<in> set (pages ?db)" "page_tenant p = ?t" "page_doc p = doc_key d"
      "b \<in> set (blocks ?db)" "block_tenant b = ?t" "block_page b = page_key p" "block_kind b \<in> {''figure'', ''table''}"
      "contains_str (lowercase (block_text b)) (lowercase (trim q))" for d p b
  proof -
    have "rows = figure_rows ?t (Some ?pt) ?db" using that(1) unfolding rows by simp
    moreover have "block_key b \<in> fg_id ` set (figure_rows ?t (Some ?pt) ?db)"
      unfolding figure_rows_def using that(2-) by (force simp: match [simplified] image_iff)
    ultimately show ?thesis by simp
  qed
  ultimately show ?thesis by blast
qed

end
