(* ===== verification/Evaluation.thy ===== *)
theory Evaluation
  imports Retrieve Auth
begin

text \<open>
  The search endpoint (\<open>insight-api/src/routes/search.rs\<close>) and the evaluation of retrieval against a golden set:
  \<open>insight-core/src/eval.rs\<close> and \<open>routes/evaluation.rs\<close>. The state joins the retrieval stores with the tables
  \<open>golden_items\<close> and \<open>eval_runs\<close>; a row's place in its table stands for \<open>created_at\<close>. Floats are real numbers.
  The time a search took and time stamps are left out.
\<close>

record golden_row =
  gd_id :: uuid
  gd_tenant :: uuid
  gd_query :: string
  gd_expect :: string
  gd_source :: string

record run_row =
  rn_tenant :: uuid
  faithfulness :: f64
  citation_accuracy :: f64
  hallucination_rate :: f64
  novelty_precision :: f64

record bench =
  search_in :: stores
  golden :: "golden_row list"
  runs :: "run_row list"
  bench_supply :: uuid
  bench_up :: bool

section \<open>Searching\<close>

definition DEFAULT_TOP_K :: nat where "DEFAULT_TOP_K = 10"

record search_result =
  re_id :: uuid
  re_snippet :: string
  re_href :: string
  re_confidence :: f64

definition hit_href :: "search_hit \<Rightarrow> string" where
  "hit_href h = (case (sh_document h, sh_block h) of
       (Some d, Some b) \<Rightarrow> ''/reader?doc='' @ show_nat d @ ''&block='' @ show_nat b
     | (Some d, None) \<Rightarrow> ''/reader?doc='' @ show_nat d
     | _ \<Rightarrow> ''/reader'')"

definition hit_to_result :: "search_hit \<Rightarrow> search_result" where
  "hit_to_result h = \<lparr>re_id = sh_chunk h, re_snippet = snippet h, re_href = hit_href h, re_confidence = score h\<rparr>"

definition run_search :: "services \<Rightarrow> authed_user \<Rightarrow> string \<Rightarrow> nat \<Rightarrow> bench \<Rightarrow> (api_error + search_result list) \<times> bench" where
  "run_search v user query k s =
     (let q = trim query
      in if q = [] then (Inl bad_request, s)
         else (case search v (auth_tenant user) q k (search_in s) of
             (None, st) \<Rightarrow> (Inl internal, s\<lparr>search_in := st\<rparr>)
           | (Some hits, st) \<Rightarrow> (Inr (map hit_to_result hits), s\<lparr>search_in := st\<rparr>)))"

text \<open>Both endpoints: a missing query is refused, a missing count is ten.\<close>

definition search_handler :: "services \<Rightarrow> authed_user \<Rightarrow> string option \<Rightarrow> nat option \<Rightarrow> bench \<Rightarrow> (api_error + search_result list) \<times> bench" where
  "search_handler v user query k s = (case query of None \<Rightarrow> (Inl bad_request, s)
     | Some q \<Rightarrow> run_search v user q (case k of None \<Rightarrow> DEFAULT_TOP_K | Some n \<Rightarrow> n) s)"

section \<open>Running the golden set\<close>

definition passes :: "string \<Rightarrow> search_hit list \<Rightarrow> bool" where
  "passes expected hits = (let want = lowercase expected
     in list_ex (\<lambda>h. contains_str (lowercase (sh_text h)) want \<or> contains_str (lowercase (snippet h)) want) hits)"

fun eval_loop :: "services \<Rightarrow> uuid \<Rightarrow> golden_row list \<Rightarrow> stores \<Rightarrow> (string \<times> bool) list \<times> stores" where
  "eval_loop v t [] st = ([], st)"
| "eval_loop v t (g # gs) st =
     (let (r, st) = search v t (gd_query g) 8 st;
          ok = passes (gd_expect g) (case r of None \<Rightarrow> [] | Some hits \<Rightarrow> hits);
          (rest, st) = eval_loop v t gs st
      in ((gd_query g, ok) # rest, st))"

definition run_of :: "uuid \<Rightarrow> bool list \<Rightarrow> run_row" where
  "run_of t oks = (let f = real (length (filter id oks)) / real (max (length oks) 1)
     in \<lparr>rn_tenant = t, faithfulness = f, citation_accuracy = f, hallucination_rate = 1 - f, novelty_precision = f\<rparr>)"

definition own_golden :: "uuid \<Rightarrow> bench \<Rightarrow> golden_row list" where
  "own_golden t s = filter (\<lambda>g. gd_tenant g = t) (golden s)"

text \<open>The metrics of a run and the first twenty tests. The row is inserted after the searches.\<close>

definition run_golden_eval :: "services \<Rightarrow> uuid \<Rightarrow> bench \<Rightarrow> (run_row \<times> (string \<times> bool) list) option \<times> bench" where
  "run_golden_eval v t s =
     (if \<not> bench_up s then (None, s)
      else case eval_loop v t (take 200 (own_golden t s)) (search_in s) of (tests, st) \<Rightarrow>
        let r = run_of t (map snd tests)
        in (Some (r, take 20 tests), s\<lparr>search_in := st, runs := runs s @ [r]\<rparr>))"

definition run_evaluation :: "services \<Rightarrow> authed_user \<Rightarrow> bench \<Rightarrow> (api_error + run_row \<times> (string \<times> bool) list) \<times> bench" where
  "run_evaluation v user s = (case run_golden_eval v (auth_tenant user) s of
       (None, s) \<Rightarrow> (Inl internal, s) | (Some m, s) \<Rightarrow> (Inr m, s))"

definition no_run :: "uuid \<Rightarrow> run_row" where
  "no_run t = \<lparr>rn_tenant = t, faithfulness = 0, citation_accuracy = 0, hallucination_rate = 0, novelty_precision = 0\<rparr>"

definition get_evaluation :: "authed_user \<Rightarrow> int option \<Rightarrow> bench \<Rightarrow> api_error + run_row \<times> run_row list" where
  "get_evaluation user history s =
     (let n = nat (clamp (case history of None \<Rightarrow> 10 | Some k \<Rightarrow> k) 1 50);
          rs = take n (rev (filter (\<lambda>r. rn_tenant r = auth_tenant user) (runs s)))
      in if \<not> bench_up s then Inl internal
         else Inr (case rs of [] \<Rightarrow> no_run (auth_tenant user) | r # _ \<Rightarrow> r, rs))"

section \<open>The golden set\<close>

definition own_item :: "uuid \<Rightarrow> uuid \<Rightarrow> golden_row \<Rightarrow> bool" where
  "own_item t k g = (gd_id g = k \<and> gd_tenant g = t)"

definition list_golden :: "api_error + authed_user \<Rightarrow> bench \<Rightarrow> api_error + golden_row list" where
  "list_golden auth s = (case require_admin auth of Inl e \<Rightarrow> Inl e
     | Inr user \<Rightarrow> if \<not> bench_up s then Inl internal else Inr (own_golden (auth_tenant user) s))"

definition create_golden :: "api_error + authed_user \<Rightarrow> string \<Rightarrow> string \<Rightarrow> bench \<Rightarrow> (api_error + golden_row) \<times> bench" where
  "create_golden auth query expected s =
     (case require_admin auth of Inl e \<Rightarrow> (Inl e, s)
      | Inr user \<Rightarrow>
          if trim query = [] \<or> trim expected = [] then (Inl bad_request, s)
          else if \<not> bench_up s then (Inl internal, s)
          else let g = \<lparr>gd_id = bench_supply s, gd_tenant = auth_tenant user, gd_query = trim query, gd_expect = trim expected,
                        gd_source = ''custom''\<rparr>
               in (Inr g, s\<lparr>golden := golden s @ [g], bench_supply := bench_supply s + 1\<rparr>))"

definition patch_item :: "string option \<Rightarrow> string option \<Rightarrow> golden_row \<Rightarrow> golden_row" where
  "patch_item query expected g = g\<lparr>gd_query := (case query of None \<Rightarrow> gd_query g | Some q \<Rightarrow> trim q),
     gd_expect := (case expected of None \<Rightarrow> gd_expect g | Some x \<Rightarrow> trim x)\<rparr>"

definition update_golden ::
  "api_error + authed_user \<Rightarrow> uuid \<Rightarrow> string option \<Rightarrow> string option \<Rightarrow> bench \<Rightarrow> (api_error + golden_row) \<times> bench" where
  "update_golden auth k query expected s =
     (case require_admin auth of Inl e \<Rightarrow> (Inl e, s)
      | Inr user \<Rightarrow>
          if query = None \<and> expected = None then (Inl bad_request, s)
          else if \<not> bench_up s then (Inl internal, s)
          else let gs = update_where (own_item (auth_tenant user) k) (patch_item query expected) (golden s)
               in (case find (own_item (auth_tenant user) k) gs of None \<Rightarrow> Inl not_found | Some g \<Rightarrow> Inr g, s\<lparr>golden := gs\<rparr>))"

definition delete_golden :: "api_error + authed_user \<Rightarrow> uuid \<Rightarrow> bench \<Rightarrow> (api_error + unit) \<times> bench" where
  "delete_golden auth k s =
     (case require_admin auth of Inl e \<Rightarrow> (Inl e, s)
      | Inr user \<Rightarrow>
          if \<not> bench_up s then (Inl internal, s)
          else if \<not> list_ex (own_item (auth_tenant user) k) (golden s) then (Inl not_found, s)
          else (Inr (), s\<lparr>golden := filter (\<lambda>g. \<not> own_item (auth_tenant user) k g) (golden s)\<rparr>))"

section \<open>What the metrics say\<close>

lemma eval_loop_length: "eval_loop v t gs st = (tests, st') \<Longrightarrow> map fst tests = map gd_query gs"
proof (induction gs arbitrary: st tests st')
  case (Cons g gs)
  obtain r st1 where r: "search v t (gd_query g) 8 st = (r, st1)" by (meson surj_pair)
  obtain rest st2 where rest: "eval_loop v t gs st1 = (rest, st2)" by (meson surj_pair)
  from Cons.prems Cons.IH [OF rest] r rest show ?case by (auto simp: Let_def)
qed simp

lemma run_of_range:
  "0 \<le> faithfulness (run_of t oks) \<and> faithfulness (run_of t oks) \<le> 1
    \<and> hallucination_rate (run_of t oks) = 1 - faithfulness (run_of t oks)"
proof -
  have "real (length (filter id oks)) \<le> real (max (length oks) 1)" using length_filter_le [of id oks] by linarith
  then show ?thesis by (simp add: run_of_def Let_def divide_le_eq_1)
qed

text \<open>A run of the golden set is answered and recorded: its faithfulness is the share of the tests
  that passed, a fraction, its hallucination rate the rest; the tests are the workspace's own first two hundred queries
  in order; and reading the evaluation afterwards shows exactly this run as the latest one.\<close>

theorem evaluation_recorded:
  assumes "run_evaluation v user s = (Inr (r, shown), s')"
  shows "(\<exists>tests. map fst tests = map gd_query (take 200 (own_golden (auth_tenant user) s)) \<and> shown = take 20 tests
      \<and> r = run_of (auth_tenant user) (map snd tests))
    \<and> 0 \<le> faithfulness r \<and> faithfulness r \<le> 1 \<and> hallucination_rate r = 1 - faithfulness r
    \<and> (\<exists>older. get_evaluation user h s' = Inr (r, r # older))"
proof -
  let ?t = "auth_tenant user"
  have up: "bench_up s" using assms by (auto simp: run_evaluation_def run_golden_eval_def split: if_splits)
  obtain tests st where run: "eval_loop v ?t (take 200 (own_golden ?t s)) (search_in s) = (tests, st)" by (meson surj_pair)
  then have p: "r = run_of ?t (map snd tests)" "shown = take 20 tests" "s' = s\<lparr>search_in := st, runs := runs s @ [r]\<rparr>"
    using assms up by (auto simp: run_evaluation_def run_golden_eval_def Let_def)
  have tenant: "rn_tenant r = ?t" by (simp add: p(1) run_of_def Let_def)
  have n: "0 < nat (clamp (case h of None \<Rightarrow> 10 | Some k \<Rightarrow> k) 1 50)" by (auto simp: clamp_def)
  have "filter (\<lambda>x. rn_tenant x = ?t) (runs s') = filter (\<lambda>x. rn_tenant x = ?t) (runs s) @ [r]" using tenant by (simp add: p(3))
  then have "\<exists>older. get_evaluation user h s' = Inr (r, r # older)"
    using up n by (cases "nat (clamp (case h of None \<Rightarrow> 10 | Some k \<Rightarrow> k) 1 50)") (simp_all add: get_evaluation_def p(3) Let_def)
  then show ?thesis using run_of_range [of ?t "map snd tests"] eval_loop_length [OF run] p(1,2) by blast
qed

text \<open>Absence of evidence counts as evidence: in a workspace with no golden item, a run reports
  a hallucination rate of one.\<close>

theorem empty_golden_set_hallucinates:
  assumes "own_golden (auth_tenant user) s = []" "bench_up s"
  shows "\<exists>r s'. run_evaluation v user s = (Inr (r, []), s') \<and> hallucination_rate r = 1"
  using assms by (simp add: run_evaluation_def run_golden_eval_def run_of_def Let_def)

text \<open>The expectation of a golden item cannot be blank when it is created, but it can be patched to blank; from then on
  the item passes on every search that finds anything.\<close>

theorem blank_expectation_passes:
  assumes "require_admin auth = Inr user" "bench_up s" "find (own_item (auth_tenant user) k) (golden s) = Some g" "trim x = []"
  shows "\<exists>g' s'. update_golden auth k None (Some x) s = (Inr g', s') \<and> g' \<in> set (golden s')
    \<and> (\<forall>hits. passes (gd_expect g') hits = (hits \<noteq> [])) \<and> fst (create_golden auth (gd_query g) x s) = Inl bad_request"
proof -
  let ?P = "own_item (auth_tenant user) k" and ?f = "patch_item None (Some x)"
  have same: "?P (?f r) = ?P r" for r by (simp add: own_item_def patch_item_def)
  have "find ?P (update_where ?P ?f rs) = map_option ?f (find ?P rs)" for rs by (induction rs) (simp_all add: same)
  then have f: "find ?P (update_where ?P ?f (golden s)) = Some (?f g)" using assms(3) by simp
  then have "?f g \<in> set (update_where ?P ?f (golden s))" by (auto simp: find_Some_iff)
  moreover have "passes (gd_expect (?f g)) hits = (hits \<noteq> [])" for hits
  proof -
    have "contains_str y []" for y by (cases y) (simp_all add: starts_with_def)
    then show ?thesis by (cases hits) (simp_all add: patch_item_def assms(4) passes_def lowercase_def)
  qed
  ultimately show ?thesis using f assms by (simp add: update_golden_def create_golden_def Let_def)
qed

end
