(* ===== verification/Assistant.thy ===== *)
theory Assistant
  imports Evaluation Synth
begin

text \<open>
  What asks the model on behalf of a user: the copilot (\<open>insight-api/src/routes/copilot.rs\<close>) and the research
  projects (\<open>routes/research.rs\<close>). The state joins the gateway's state, the retrieval stores, the knowledge
  tables and the table \<open>research_projects\<close>; the database answers as long as it does for the knowledge
  tables. The time stamp written into a report is a parameter. A query with a limit and no order
  takes the first rows in table order. The frames of the event stream are a list, complete when the handler returns.
\<close>

record project_row =
  pj_id :: uuid
  pj_tenant :: uuid
  pj_kind :: string
  pj_title :: string
  pj_data :: json
  pj_author :: uuid
  pj_updated :: nat

record assistant =
  talk :: llm_state
  finder :: stores
  facts :: knowledge_db
  projects :: "project_row list"
  pj_supply :: uuid

abbreviation store_up :: "assistant \<Rightarrow> bool" where
  "store_up s \<equiv> know_up (facts s)"

definition asked :: "gateway \<Rightarrow> authed_user \<Rightarrow> llm_task \<Rightarrow> string \<Rightarrow> string \<Rightarrow> assistant \<Rightarrow> completion option \<times> assistant" where
  "asked g user task system prompt s =
     (case complete_metered g (auth_tenant user) (Some (auth_user user)) task system prompt (talk s) of
        (r, l) \<Rightarrow> (r, s\<lparr>talk := l\<rparr>))"

definition found :: "services \<Rightarrow> authed_user \<Rightarrow> string \<Rightarrow> nat \<Rightarrow> assistant \<Rightarrow> search_hit list \<times> assistant" where
  "found v user q k s = (case search v (auth_tenant user) q k (finder s) of
     (r, st) \<Rightarrow> (case r of None \<Rightarrow> [] | Some hits \<Rightarrow> hits, s\<lparr>finder := st\<rparr>))"

section \<open>Copilot\<close>

record attachment =
  am_kind :: string
  am_id :: string

record copilot_body =
  cp_mode :: string
  cp_message :: string
  cp_topic :: "string option"
  cp_attachment :: "attachment option"

definition VALID_MODES :: "string list" where
  "VALID_MODES = [''ask'', ''strict_citation'', ''research'', ''compare'', ''contradiction'', ''study'', ''teacher'', ''exam'',
     ''summarize'', ''deep_reasoning'', ''fast_answer'', ''ssot'', ''delta'']"

definition is_grounded :: "string \<Rightarrow> bool" where
  "is_grounded mode = (mode \<in> {''strict_citation'', ''ssot'', ''research'', ''compare'', ''contradiction'', ''delta''})"

definition base_prompt :: "string \<Rightarrow> string" where
  "base_prompt mode =
     (if mode = ''strict_citation'' then ''Answer ONLY using the provided context. Every sentence must be '' @
        ''supported by it; if the context is insufficient, say so plainly. Cite the source ids.''
      else if mode = ''ssot'' then ''Answer as the single source of truth for this topic, using only the provided '' @
        ''topic evidence. Be precise and non-redundant.''
      else if mode = ''research'' then ''You are a research assistant. Synthesize the provided context into a '' @
        ''structured, well-reasoned answer with clear sections.''
      else if mode = ''compare'' then ''Compare and contrast the entities in the question using the provided '' @
        ''context. Prefer a concise structured comparison.''
      else if mode = ''contradiction'' then ''Identify agreements and contradictions across the provided context. '' @
        ''Flag any conflicting claims explicitly.''
      else if mode = ''delta'' then ''Summarize what is NEW or changed relative to prior knowledge, using the '' @ ''provided context.''
      else if mode = ''study'' then ''You are a study coach. Explain clearly and check understanding with a short '' @ ''question at the end.''
      else if mode = ''teacher'' then ''You are a patient teacher. Explain from first principles with an example.''
      else if mode = ''exam'' then ''Answer as if writing a high-yield exam explanation: concise, precise, '' @ ''testable facts first.''
      else if mode = ''summarize'' then ''Summarize the answer succinctly in a few bullet points.''
      else if mode = ''deep_reasoning'' then ''Reason step by step and show the key inferences before the final '' @ ''answer.''
      else if mode = ''fast_answer'' then ''Give the shortest correct answer with no preamble.''
      else ''You are a helpful knowledge assistant. Answer clearly and accurately.'')"

definition system_prompt :: "json \<Rightarrow> string \<Rightarrow> string" where
  "system_prompt cfg mode = (case Option.bind (Option.bind (get_key cfg ''copilotPromptOverrides'') (\<lambda>v. get_key v mode)) as_str of
       Some p \<Rightarrow> p | None \<Rightarrow> base_prompt mode)"

definition topic_ref :: "copilot_body \<Rightarrow> uuid option" where
  "topic_ref b = Option.bind (case cp_topic b of Some t \<Rightarrow> Some t
     | None \<Rightarrow> Option.bind (cp_attachment b) (\<lambda>a. if am_kind a = ''topic'' then Some (am_id a) else None)) parse_uuid"

definition bullet_lines :: "string list \<Rightarrow> string" where
  "bullet_lines xs = join_str newline (map (\<lambda>x. ''- '' @ x) xs)"

definition topic_context :: "uuid \<Rightarrow> uuid \<Rightarrow> knowledge_db \<Rightarrow> string" where
  "topic_context t k db =
     (let page = (case newest_page t k db of None \<Rightarrow> [] | Some p \<Rightarrow> p); cs = map cl_text (take 40 (on_topic t k db))
      in page @ (if cs = [] then [] else newline @ newline @ ''Claims:'' @ newline @ bullet_lines cs))"

definition gather_context :: "services \<Rightarrow> authed_user \<Rightarrow> copilot_body \<Rightarrow> assistant \<Rightarrow> string \<times> assistant" where
  "gather_context v user b s =
     (let ctx = (case topic_ref b of Some k \<Rightarrow> if store_up s then topic_context (auth_tenant user) k (facts s) else [] | None \<Rightarrow> [])
      in if trim ctx \<noteq> [] then (take 6000 ctx, s)
         else case found v user (cp_message b) 8 s of (hits, s) \<Rightarrow> (take 6000 (bullet_lines (map snippet hits)), s))"

datatype frame = Frame (frame_kind: string) (frame_value: string)

text \<open>\<open>split_inclusive\<close>: every piece ends after a white space, but the last may not.\<close>

fun split_inclusive :: "string \<Rightarrow> string \<Rightarrow> string list" where
  "split_inclusive cur [] = (if cur = [] then [] else [cur])"
| "split_inclusive cur (c # cs) = (if is_whitespace c then (cur @ [c]) # split_inclusive [] cs else split_inclusive (cur @ [c]) cs)"

definition byte_length :: "string \<Rightarrow> nat" where
  "byte_length s = sum_list (map (\<lambda>c. if code_of c < 128 then 1 else 2) s)"

fun chunk_loop_answer :: "string \<Rightarrow> string list \<Rightarrow> string list" where
  "chunk_loop_answer cur [] = (if cur = [] then [] else [cur])"
| "chunk_loop_answer cur (w # ws) =
     (if byte_length (cur @ w) \<ge> 40 then (cur @ w) # chunk_loop_answer [] ws else chunk_loop_answer (cur @ w) ws)"

definition chunk_answer :: "string \<Rightarrow> string list" where
  "chunk_answer x = (let ps = chunk_loop_answer [] (split_inclusive [] x) in if ps = [] then [x] else ps)"

text \<open>A failed completion's message depends on its cause; it is the argument \<open>why\<close>.\<close>

definition answer_frames :: "string \<Rightarrow> completion option \<Rightarrow> frame list" where
  "answer_frames why r = (case r of None \<Rightarrow> [Frame ''error'' why, Frame ''done'' []]
     | Some c \<Rightarrow> map (Frame ''token'') (chunk_answer (reply_text c)) @ [Frame ''done'' []])"

definition user_prompt :: "services \<Rightarrow> authed_user \<Rightarrow> copilot_body \<Rightarrow> assistant \<Rightarrow> string \<times> assistant" where
  "user_prompt v user b s =
     (if is_grounded (cp_mode b)
      then case gather_context v user b s of (ctx, s) \<Rightarrow>
        (''Context:'' @ newline @ ctx @ newline @ newline @ ''Question: '' @ cp_message b, s)
      else (cp_message b, s))"

definition copilot :: "gateway \<Rightarrow> services \<Rightarrow> string \<Rightarrow> authed_user \<Rightarrow> copilot_body \<Rightarrow> assistant \<Rightarrow> (api_error + frame list) \<times> assistant" where
  "copilot g v why user b s =
     (if cp_mode b \<notin> set VALID_MODES then (Inl bad_request, s)
      else if trim (cp_message b) = [] then (Inl bad_request, s)
      else case budget_status_of g (auth_tenant user) (talk s) of (st, l) \<Rightarrow>
        let s = s\<lparr>talk := l\<rparr>
        in if (case st of None \<Rightarrow> False | Some bs \<Rightarrow> over_limit bs)
           then (Inr [Frame ''error'' ''monthly AI budget exceeded'', Frame ''done'' []], s)
           else case resolve_org (genv g) (auth_tenant user) (settings (talk s)) of (cfg, c) \<Rightarrow>
             let s = s\<lparr>talk := (talk s)\<lparr>settings := c\<rparr>\<rparr>
             in (case cfg of None \<Rightarrow> (Inl internal, s)
                 | Some cf \<Rightarrow> (case user_prompt v user b s of (prompt, s) \<Rightarrow>
                     case asked g user Chat (system_prompt cf (cp_mode b)) prompt s of (r, s) \<Rightarrow> (Inr (answer_frames why r), s))))"

section \<open>Research projects\<close>

definition TYPES :: "string list" where
  "TYPES = [''argument_map'', ''compare_matrix'', ''report'', ''timeline'']"

definition editors_only :: "authed_user \<Rightarrow> api_error + unit" where
  "editors_only user = (if role_rank (auth_role user) < role_rank ''editor'' then Inl forbidden else Inr ())"

definition empty_data :: "string \<Rightarrow> json" where
  "empty_data kind = (if kind = ''argument_map'' then JObj [(''nodes'', JArr [])]
     else if kind = ''compare_matrix'' then JObj [(''columns'', JArr []), (''rows'', JArr [])]
     else if kind = ''report'' then JObj [(''prompt'', JStr []), (''strictCitation'', JBool False), (''sources'', JArr []), (''body'', JStr [])]
     else if kind = ''timeline'' then JObj [(''events'', JArr [])] else JObj [])"

definition list_research :: "authed_user \<Rightarrow> string option \<Rightarrow> assistant \<Rightarrow> api_error + project_row list" where
  "list_research user kind s =
     (if (case kind of None \<Rightarrow> False | Some k \<Rightarrow> k \<notin> set TYPES) then Inl bad_request
      else if \<not> store_up s then Inl internal
      else Inr (take 500 (sort_key (\<lambda>p. - int (pj_updated p)) (filter (\<lambda>p. pj_tenant p = auth_tenant user
        \<and> (case kind of None \<Rightarrow> True | Some k \<Rightarrow> pj_kind p = k)) (projects s)))))"

definition create_research :: "authed_user \<Rightarrow> string \<Rightarrow> string \<Rightarrow> assistant \<Rightarrow> (api_error + project_row) \<times> assistant" where
  "create_research user kind title s =
     (case editors_only user of Inl e \<Rightarrow> (Inl e, s)
      | Inr _ \<Rightarrow>
          if kind \<notin> set TYPES \<or> trim title = [] then (Inl bad_request, s)
          else if \<not> store_up s then (Inl internal, s)
          else let p = \<lparr>pj_id = pj_supply s, pj_tenant = auth_tenant user, pj_kind = kind, pj_title = trim title, pj_data = empty_data kind,
                        pj_author = auth_user user, pj_updated = know_now (facts s)\<rparr>
               in (Inr p, s\<lparr>projects := projects s @ [p], pj_supply := pj_supply s + 1\<rparr>))"

definition own_project :: "uuid \<Rightarrow> uuid \<Rightarrow> project_row \<Rightarrow> bool" where
  "own_project t k p = (pj_id p = k \<and> pj_tenant p = t)"

definition load_project :: "uuid \<Rightarrow> uuid \<Rightarrow> assistant \<Rightarrow> api_error + project_row" where
  "load_project t k s = (if \<not> store_up s then Inl internal
     else case find (own_project t k) (projects s) of None \<Rightarrow> Inl not_found | Some p \<Rightarrow> Inr p)"

definition get_research :: "authed_user \<Rightarrow> uuid \<Rightarrow> assistant \<Rightarrow> api_error + project_row" where
  "get_research user k s = load_project (auth_tenant user) k s"

definition set_project :: "string option \<Rightarrow> json option \<Rightarrow> nat \<Rightarrow> project_row \<Rightarrow> project_row" where
  "set_project title d now p = p\<lparr>pj_title := (case title of None \<Rightarrow> pj_title p | Some x \<Rightarrow> trim x),
     pj_data := (case d of None \<Rightarrow> pj_data p | Some x \<Rightarrow> x), pj_updated := now\<rparr>"

definition patch_project :: "uuid \<Rightarrow> uuid \<Rightarrow> string option \<Rightarrow> json option \<Rightarrow> assistant \<Rightarrow> (api_error + project_row) \<times> assistant" where
  "patch_project t k title d s =
     (let ps = update_where (own_project t k) (set_project title d (know_now (facts s))) (projects s)
      in if \<not> store_up s then (Inl internal, s)
         else (case find (own_project t k) ps of None \<Rightarrow> Inl not_found | Some p \<Rightarrow> Inr p, s\<lparr>projects := ps\<rparr>))"

definition update_research :: "authed_user \<Rightarrow> uuid \<Rightarrow> string option \<Rightarrow> json option \<Rightarrow> assistant \<Rightarrow> (api_error + project_row) \<times> assistant" where
  "update_research user k title d s =
     (case editors_only user of Inl e \<Rightarrow> (Inl e, s)
      | Inr _ \<Rightarrow> if title = None \<and> d = None then (Inl bad_request, s) else patch_project (auth_tenant user) k title d s)"

definition delete_research :: "authed_user \<Rightarrow> uuid \<Rightarrow> assistant \<Rightarrow> (api_error + unit) \<times> assistant" where
  "delete_research user k s =
     (case editors_only user of Inl e \<Rightarrow> (Inl e, s)
      | Inr _ \<Rightarrow>
          if \<not> store_up s then (Inl internal, s)
          else if \<not> list_ex (own_project (auth_tenant user) k) (projects s) then (Inl not_found, s)
          else (Inr (), s\<lparr>projects := filter (\<lambda>p. \<not> own_project (auth_tenant user) k p) (projects s)\<rparr>))"

definition report_query :: "project_row \<Rightarrow> string" where
  "report_query p = (let prompt = (case Option.bind (get_key (pj_data p) ''prompt'') as_str of None \<Rightarrow> [] | Some x \<Rightarrow> x)
     in if trim prompt = [] then pj_title p else prompt)"

definition report_system :: "project_row \<Rightarrow> string" where
  "report_system p = (if (case Option.bind (get_key (pj_data p) ''strictCitation'') as_bool of None \<Rightarrow> False | Some x \<Rightarrow> x)
     then ''Write a well-structured report grounded ONLY in the provided context. Cite sources.''
     else ''Write a well-structured report from the provided context and the prompt.'')"

datatype report = NoEvidence | Report string string nat nat project_row

definition with_report :: "string \<Rightarrow> string \<Rightarrow> string \<Rightarrow> nat \<Rightarrow> nat \<Rightarrow> json \<Rightarrow> json" where
  "with_report text_out by_whom stamp words cited d = set_key (set_key (set_key (set_key (set_key d ''body'' (JStr text_out))
     ''generatedBy'' (JStr by_whom)) ''generatedAt'' (JStr stamp)) ''wordCount'' (JInt (int words))) ''citationCount'' (JInt (int cited))"

definition report_text :: "project_row \<Rightarrow> string \<Rightarrow> completion option \<Rightarrow> string \<times> string" where
  "report_text p ctx r = (case r of Some c \<Rightarrow> (reply_text c, ''ai'')
     | None \<Rightarrow> (''## '' @ pj_title p @ newline @ newline @ ctx, ''fallback''))"

definition generate_research :: "gateway \<Rightarrow> services \<Rightarrow> string \<Rightarrow> authed_user \<Rightarrow> uuid \<Rightarrow> assistant \<Rightarrow> (api_error + report) \<times> assistant" where
  "generate_research g v stamp user k s =
     (case editors_only user of Inl e \<Rightarrow> (Inl e, s)
      | Inr _ \<Rightarrow> (case load_project (auth_tenant user) k s of Inl e \<Rightarrow> (Inl e, s)
        | Inr p \<Rightarrow>
            if pj_kind p \<noteq> ''report'' then (Inl bad_request, s)
            else (case found v user (report_query p) 12 s of (hits, s) \<Rightarrow>
              if hits = [] then (Inr NoEvidence, s)
              else let ctx = bullet_lines (map snippet hits)
                   in case asked g user Synthesis (report_system p) (''Prompt: '' @ report_query p @ newline @ newline @ ''Context:'' @ newline
                        @ ctx @ newline @ newline @ ''Write the report.'') s of
                     (r, s) \<Rightarrow> (case report_text p ctx r of (x, by_whom) \<Rightarrow>
                        let words = length (split_whitespace x)
                        in case patch_project (auth_tenant user) k None (Some (with_report x by_whom stamp words (length hits) (pj_data p))) s of
                             (Inl e, s) \<Rightarrow> (Inl internal, s)
                           | (Inr p', s) \<Rightarrow> (Inr (Report x by_whom words (length hits) p'), s)))))"

section \<open>The copilot's frames\<close>

lemma split_inclusive_concat: "concat (split_inclusive cur x) = cur @ x"
  by (induction cur x rule: split_inclusive.induct) auto

lemma chunk_loop_answer_concat: "concat (chunk_loop_answer cur ws) = cur @ concat ws"
  by (induction cur ws rule: chunk_loop_answer.induct) auto

lemma chunk_answer_concat: "concat (chunk_answer x) = x"
  using chunk_loop_answer_concat [of "[]" "split_inclusive [] x"] split_inclusive_concat [of "[]" x]
  by (auto simp: chunk_answer_def Let_def)

lemma chunk_loop_answer_long: "ps = chunk_loop_answer cur ws \<Longrightarrow> \<forall>p \<in> set (butlast ps). 40 \<le> byte_length p"
proof (induction cur ws arbitrary: ps rule: chunk_loop_answer.induct)
  case (2 cur w ws)
  then show ?case by (cases "byte_length (cur @ w) \<ge> 40") auto
qed auto

text \<open>The copilot's answer survives its cutting into frames: the values of the token frames, put together, are the
  model's answer, each but the last of at least forty bytes, and the stream ends with one frame that says it is done. No
  frame is ever a citation, whatever the mode.\<close>

theorem copilot_frames_rejoin:
  "concat (map frame_value (filter (\<lambda>f. frame_kind f = ''token'') (answer_frames why (Some c)))) = reply_text c
    \<and> (\<forall>p \<in> set (butlast (chunk_answer (reply_text c))). 40 \<le> byte_length p)
    \<and> (\<forall>r. last (answer_frames why r) = Frame ''done'' [] \<and> (\<forall>f \<in> set (answer_frames why r). frame_kind f \<noteq> ''citation''))"
proof (intro conjI allI)
  have "filter (\<lambda>f. frame_kind f = ''token'') (map (Frame ''token'') ps) = map (Frame ''token'') ps" for ps by (induction ps) simp_all
  then show "concat (map frame_value (filter (\<lambda>f. frame_kind f = ''token'') (answer_frames why (Some c)))) = reply_text c"
    by (simp add: answer_frames_def comp_def chunk_answer_concat)
  show "\<forall>p \<in> set (butlast (chunk_answer (reply_text c))). 40 \<le> byte_length p"
    using chunk_loop_answer_long [OF HOL.refl, of "[]" "split_inclusive [] (reply_text c)"] by (auto simp: chunk_answer_def Let_def)
  show "last (answer_frames why r) = Frame ''done'' []" for r by (simp add: answer_frames_def split: option.split)
  show "\<forall>f \<in> set (answer_frames why r). frame_kind f \<noteq> ''citation''" for r by (auto simp: answer_frames_def split: option.split)
qed

text \<open>Over its monthly budget, a workspace gets no answer: the request ends with an error frame, no model is
  called, nothing is metered and nothing is searched.\<close>

theorem copilot_stops_over_budget:
  assumes "cp_mode b \<in> set VALID_MODES" "trim (cp_message b) \<noteq> []"
    and "budget_status_of g (auth_tenant user) (talk s) = (Some st, l)" "over_limit st"
  shows "\<exists>s'. copilot g v why user b s = (Inr [Frame ''error'' ''monthly AI budget exceeded'', Frame ''done'' []], s')
    \<and> calls (talk s') = calls (talk s) \<and> usage_records (talk s') = usage_records (talk s) \<and> finder s' = finder s \<and> projects s' = projects s"
proof -
  have l: "calls l = calls (talk s) \<and> usage_records l = usage_records (talk s)"
    using assms(3) by (auto simp: budget_status_of_def Let_def split: prod.splits option.splits)
  have "copilot g v why user b s = (Inr [Frame ''error'' ''monthly AI budget exceeded'', Frame ''done'' []], s\<lparr>talk := l\<rparr>)"
    using assms(1,2,4) by (simp add: copilot_def assms(3))
  with l show ?thesis by simp
qed

section \<open>Reports\<close>

lemma asked_frame: "asked g user task sys x s = (r, s') \<Longrightarrow> projects s' = projects s \<and> facts s' = facts s \<and> finder s' = finder s"
  by (auto simp: asked_def split: prod.splits)

lemma found_frame: "found v user q k s = (hits, s') \<Longrightarrow> projects s' = projects s \<and> facts s' = facts s"
  by (auto simp: found_def split: prod.splits)

lemma patch_project_frame: "patch_project t k title d s = (r, s') \<Longrightarrow> facts s' = facts s"
  by (auto simp: patch_project_def Let_def split: if_splits)

lemma patch_project_found:
  assumes "find (own_project t k) (projects s) = Some p" "store_up s"
  shows "\<exists>s'. patch_project t k title d s = (Inr (set_project title d (know_now (facts s)) p), s')
    \<and> find (own_project t k) (projects s') = Some (set_project title d (know_now (facts s)) p) \<and> facts s' = facts s"
proof -
  let ?f = "set_project title d (know_now (facts s))"
  have same: "own_project t k (?f q) = own_project t k q" for q by (simp add: own_project_def set_project_def)
  have "find (own_project t k) (update_where (own_project t k) ?f ps) = map_option ?f (find (own_project t k) ps)" for ps
    by (induction ps) (simp_all add: same)
  with assms show ?thesis by (simp add: patch_project_def Let_def)
qed

lemma generate_parts:
  assumes "generate_research g v stamp user k s = (Inr (Report x w words cited p'), s')"
  obtains p hits s1 r s2 where "find (own_project (auth_tenant user) k) (projects s) = Some p" "pj_kind p = ''report''" "store_up s"
    "found v user (report_query p) 12 s = (hits, s1)" "hits \<noteq> []" "(x, w) = report_text p (bullet_lines (map snippet hits)) r"
    "facts s2 = facts s" "projects s2 = projects s" "words = length (split_whitespace x)" "cited = length hits"
    "patch_project (auth_tenant user) k None (Some (with_report x w stamp words cited (pj_data p))) s2 = (Inr p', s')"
proof -
  let ?t = "auth_tenant user"
  obtain p where p: "load_project ?t k s = Inr p" "pj_kind p = ''report''"
    using assms by (auto simp: generate_research_def split: sum.splits if_splits)
  then have find: "find (own_project ?t k) (projects s) = Some p" "store_up s"
    by (auto simp: load_project_def split: if_splits option.splits)
  obtain hits s1 where h: "found v user (report_query p) 12 s = (hits, s1)" by (meson surj_pair)
  have ne: "hits \<noteq> []" using assms p h by (auto simp: generate_research_def split: sum.splits if_splits)
  let ?ctx = "bullet_lines (map snippet hits)"
  obtain r s2 where a: "asked g user Synthesis (report_system p) (''Prompt: '' @ report_query p @ newline @ newline @ ''Context:'' @ newline
      @ ?ctx @ newline @ newline @ ''Write the report.'') s1 = (r, s2)" by (meson surj_pair)
  obtain y u where y: "report_text p ?ctx r = (y, u)" by (meson surj_pair)
  obtain z s3 where z: "patch_project ?t k None (Some (with_report y u stamp (length (split_whitespace y)) (length hits) (pj_data p))) s2 = (z, s3)"
    by (meson surj_pair)
  have "z = Inr p' \<and> s3 = s' \<and> y = x \<and> u = w \<and> words = length (split_whitespace y) \<and> cited = length hits"
    using assms p h ne a y z unfolding generate_research_def Let_def by (auto split: sum.splits)
  then show ?thesis
    by (intro that [of p hits s1 r s2]) (use p(2) find h ne y z asked_frame [OF a] found_frame [OF h] in simp_all)
qed

lemma generate_kept:
  assumes "generate_research g v stamp user k s = (Inr (Report x w words cited p'), s')"
    and "find (own_project (auth_tenant user) k) (projects s) = Some p"
  obtains hits s2 where "store_up s" "(hits :: search_hit list) \<noteq> []" "facts s2 = facts s" "projects s2 = projects s" "words = length (split_whitespace x)"
    "cited = length hits"
    "patch_project (auth_tenant user) k None (Some (with_report x w stamp words cited (pj_data p))) s2 = (Inr p', s')"
proof (rule generate_parts [OF assms(1)], goal_cases)
  case (1 p0 hits s1 r s2)
  then have "p0 = p" using assms(2) by simp
  with 1 show ?case by (intro that [of hits s2]) simp_all
qed

text \<open>A generated report is stored as it is answered: reading the project afterwards shows the body of the answer, its
  word count is the number of words of the body, and the citation count is the number of passages found, at most
  twelve and never zero.\<close>

theorem report_round_trip:
  assumes "generate_research g v stamp user k s = (Inr (Report x w words cited p'), s')"
    and "find (own_project (auth_tenant user) k) (projects s) = Some p" "is_object (pj_data p)"
  shows "\<exists>q. get_research user k s' = Inr q \<and> get_key (pj_data q) ''body'' = Some (JStr x) \<and> words = length (split_whitespace x)
    \<and> get_key (pj_data q) ''wordCount'' = Some (JInt (int words)) \<and> get_key (pj_data q) ''citationCount'' = Some (JInt (int cited)) \<and> 0 < cited
    \<and> get_key (pj_data q) ''prompt'' = get_key (pj_data p) ''prompt''"
proof -
  obtain hits s2 where g: "store_up s" "(hits :: search_hit list) \<noteq> []" "facts s2 = facts s" "projects s2 = projects s" "words = length (split_whitespace x)"
    "cited = length hits" "patch_project (auth_tenant user) k None (Some (with_report x w stamp words cited (pj_data p))) s2 = (Inr p', s')"
    by (rule generate_kept [OF assms(1,2)])
  let ?q = "set_project None (Some (with_report x w stamp words cited (pj_data p))) (know_now (facts s2)) p"
  obtain s3 where "patch_project (auth_tenant user) k None (Some (with_report x w stamp words cited (pj_data p))) s2 = (Inr ?q, s3)"
    "find (own_project (auth_tenant user) k) (projects s3) = Some ?q" "facts s3 = facts s2"
    using patch_project_found [of "auth_tenant user" k s2 p None] assms(2) g(1,3,4) by (auto)
  with g(1,3,7) have "get_research user k s' = Inr ?q" by (simp add: get_research_def load_project_def)
  moreover have "pj_data ?q = with_report x w stamp words cited (pj_data p)" by (simp add: set_project_def)
  ultimately show ?thesis using assms(3) g(2,5,6) by (auto simp: with_report_def get_key_set_key)
qed

text \<open>The project's data may be patched to anything. If it is not an object, a report is still written
  and answered as a success, but nothing of it is stored.\<close>

theorem report_lost:
  assumes "generate_research g v stamp user k s = (Inr (Report x w words cited p'), s')"
    and "find (own_project (auth_tenant user) k) (projects s) = Some p" "\<not> is_object (pj_data p)"
  shows "pj_data p' = pj_data p"
proof -
  obtain s2 where g: "store_up s" "facts s2 = facts s" "projects s2 = projects s"
    "patch_project (auth_tenant user) k None (Some (with_report x w stamp words cited (pj_data p))) s2 = (Inr p', s')"
    by (rule generate_kept [OF assms(1,2)])
  have "with_report x w stamp words cited d = d" if "\<not> is_object d" for d
    using that by (cases d) (simp_all add: with_report_def set_key_def)
  then show ?thesis
    using patch_project_found [of "auth_tenant user" k s2 p None "Some (with_report x w stamp words cited (pj_data p))"] g assms(2,3)
    by (auto simp: set_project_def)
qed

end
