(* ===== verification/Operations.thy ===== *)
theory Operations
  imports Shelves RateLimit
begin

text \<open>
  What an operator of the service sees and sets: the ledger of the metered calls (\<open>insight-api/src/routes/usage.rs\<close>),
  the audit log (\<open>routes/audit.rs\<close> with the writer of \<open>middleware.rs\<close>), the embedding backlog and the row counts
  (\<open>routes/admin.rs\<close>), the three settings endpoints (\<open>routes/org_settings.rs\<close>, \<open>routes/preferences.rs\<close>,
  \<open>routes/admin_settings.rs\<close>) and the token exchange of the desktop client (\<open>routes/ai_oauth.rs\<close>). The order in
  which the database yields its groups, the reader of time stamps and the token endpoint are parameters. The table
  sizes, the environment block and constant fields of the answers are left out.
\<close>

section \<open>Usage\<close>

record usage_line =
  ul_provider :: "string option"
  ul_model :: "string option"
  ul_calls :: nat
  ul_tokens_in :: int
  ul_tokens_out :: int
  ul_cost_micro :: int

definition micro_usd :: "int \<Rightarrow> f64" where
  "micro_usd n = of_int n / 1000000"

definition in_period :: "bool \<Rightarrow> uuid \<Rightarrow> llm_state \<Rightarrow> usage_row \<Rightarrow> bool" where
  "in_period month_only t s r = (usage_tenant r = t \<and> metric r = ''llm'' \<and> (month_only \<longrightarrow> month_start s \<le> usage_at r))"

definition usage_group :: "usage_row \<Rightarrow> string option \<times> string option" where
  "usage_group r = (Option.bind (get_key (usage_meta r) ''provider'') as_str, Option.bind (get_key (usage_meta r) ''model'') as_str)"

definition token_count :: "string \<Rightarrow> usage_row \<Rightarrow> int" where
  "token_count k r = (case Option.bind (get_key (usage_meta r) k) as_i64 of None \<Rightarrow> 0 | Some n \<Rightarrow> n)"

definition usage_line_of :: "usage_row list \<Rightarrow> string option \<times> string option \<Rightarrow> usage_line" where
  "usage_line_of rows g = (let mine = filter (\<lambda>r. usage_group r = g) rows
     in \<lparr>ul_provider = fst g, ul_model = snd g, ul_calls = length mine, ul_tokens_in = sum_list (map (token_count ''inTokens'') mine),
         ul_tokens_out = sum_list (map (token_count ''outTokens'') mine), ul_cost_micro = sum_list (map quantity mine)\<rparr>)"

definition usage_lines ::
  "((string option \<times> string option) list \<Rightarrow> (string option \<times> string option) list) \<Rightarrow> usage_row list \<Rightarrow> usage_line list" where
  "usage_lines arrange rows = sort_key (\<lambda>l. - ul_cost_micro l) (map (usage_line_of rows) (arrange (remdups (map usage_group rows))))"

record usage_metrics =
  um_limit :: f64
  um_soft :: int
  um_spend :: f64
  um_queries :: nat
  um_cost_per_query :: f64
  um_lines :: "usage_line list"
  um_period :: string
  um_enforced :: bool

definition get_usage ::
  "((string option \<times> string option) list \<Rightarrow> (string option \<times> string option) list) \<Rightarrow> environment \<Rightarrow> authed_user \<Rightarrow> string option
    \<Rightarrow> llm_state \<Rightarrow> (api_error + usage_metrics) \<times> llm_state" where
  "get_usage arrange env user per s =
     (let period = (if per = Some ''all'' then ''all'' else ''month'');
          month_only = (period = ''month'');
          t = auth_tenant user
      in case resolve_org env t (settings s) of
           (None, st) \<Rightarrow> (Inl internal, s\<lparr>settings := st\<rparr>)
         | (Some cfg, st) \<Rightarrow>
             (let s = s\<lparr>settings := st\<rparr>;
                  limit = org_f64 cfg ''budgetMonthlyLimitUsd'' 0;
                  soft = org_i64 cfg ''budgetSoftThresholdPct'' 80;
                  ls = usage_lines arrange (filter (in_period month_only t s) (usage_records s));
                  total = sum_list (map ul_calls ls);
                  cost = micro_usd (sum_list (map ul_cost_micro ls))
              in if \<not> reachable st then (Inl internal, s)
                 else (Inr \<lparr>um_limit = limit, um_soft = soft, um_spend = micro_usd (spent_micro t s), um_queries = total,
                         um_cost_per_query = (if total > 0 then cost / real total else 0), um_lines = ls, um_period = period,
                         um_enforced = (limit > 0)\<rparr>, s)))"

section \<open>The audit log\<close>

record audit_row =
  al_id :: uuid
  al_entry :: audit_entry
  al_severity :: string
  al_at :: int

record audit_query =
  aq_limit :: "int option"
  aq_offset :: "int option"
  aq_from :: "string option"
  aq_to :: "string option"
  aq_action :: "string option"
  aq_actor :: "string option"
  aq_severity :: "string option"

text \<open>What the audit layer writes after a response; the insert is best effort.\<close>

definition log_audit :: "bool \<Rightarrow> audit_entry option \<Rightarrow> uuid \<Rightarrow> int \<Rightarrow> audit_row list \<Rightarrow> audit_row list" where
  "log_audit up entry k at_time rows = (case entry of
       Some e \<Rightarrow> if up then rows @ [\<lparr>al_id = k, al_entry = e, al_severity = ''info'', al_at = at_time\<rparr>] else rows
     | None \<Rightarrow> rows)"

definition audit_matches :: "(string \<Rightarrow> int option) \<Rightarrow> uuid \<Rightarrow> audit_query \<Rightarrow> audit_row \<Rightarrow> bool" where
  "audit_matches read_time t q r =
     (audit_tenant (al_entry r) = t
    \<and> (case Option.bind (aq_from q) read_time of None \<Rightarrow> True | Some a \<Rightarrow> a \<le> al_at r)
    \<and> (case Option.bind (aq_to q) read_time of None \<Rightarrow> True | Some b \<Rightarrow> al_at r \<le> b)
    \<and> (case aq_action q of None \<Rightarrow> True | Some a \<Rightarrow> ilike (''%'' @ a @ ''%'') (audit_action (al_entry r)))
    \<and> (case aq_actor q of None \<Rightarrow> True | Some a \<Rightarrow> ilike (''%'' @ a @ ''%'') (audit_actor (al_entry r)))
    \<and> (case aq_severity q of None \<Rightarrow> True
       | Some v \<Rightarrow> v \<in> {''info'', ''warning'', ''critical''} \<longrightarrow> al_severity r = v))"

record audit_page =
  ap_items :: "audit_row list"
  ap_total :: nat
  ap_limit :: int
  ap_offset :: int

definition list_audit :: "(string \<Rightarrow> int option) \<Rightarrow> bool \<Rightarrow> authed_user \<Rightarrow> audit_query \<Rightarrow> audit_row list \<Rightarrow> api_error + audit_page" where
  "list_audit read_time up user q rows =
     (let limit = max 1 (min 500 (case aq_limit q of None \<Rightarrow> 200 | Some n \<Rightarrow> n));
          offset = max 0 (case aq_offset q of None \<Rightarrow> 0 | Some n \<Rightarrow> n);
          matching = sort_key (\<lambda>r. - al_at r) (filter (audit_matches read_time (auth_tenant user) q) rows)
      in if \<not> up then Inl internal
         else Inr \<lparr>ap_items = take (nat limit) (drop (nat offset) matching), ap_total = length matching,
                   ap_limit = limit, ap_offset = offset\<rparr>)"

section \<open>Administration\<close>

definition REINDEX_BATCH :: int where "REINDEX_BATCH = 500"

definition reindex :: "services \<Rightarrow> api_error + authed_user \<Rightarrow> library_db \<Rightarrow> (api_error + nat \<times> bool) \<times> library_db" where
  "reindex v who db = (case who of
       Inl e \<Rightarrow> (Inl e, db)
     | Inr user \<Rightarrow> (case reindex_unembedded v (auth_tenant user) REINDEX_BATCH db of
           (None, db) \<Rightarrow> (Inl internal, db)
         | (Some r, db) \<Rightarrow> (Inr r, db)))"

record row_counts =
  rc_documents :: nat
  rc_chunks :: nat
  rc_embedded :: nat
  rc_blocks :: nat
  rc_nodes :: nat
  rc_edges :: nat
  rc_claims :: nat

definition storage_stats :: "api_error + authed_user \<Rightarrow> library_db \<Rightarrow> knowledge_db \<Rightarrow> api_error + row_counts" where
  "storage_stats who db k = (case who of
       Inl e \<Rightarrow> Inl e
     | Inr user \<Rightarrow> (let t = auth_tenant user; mine = filter (\<lambda>c. chunk_tenant c = t) (chunks db)
         in if \<not> db_up db then Inl internal
            else Inr \<lparr>rc_documents = length (filter (\<lambda>d. doc_tenant d = t) (documents db)), rc_chunks = length mine,
                  rc_embedded = length (filter embedded mine), rc_blocks = length (filter (\<lambda>b. block_tenant b = t) (blocks db)),
                  rc_nodes = length (filter (\<lambda>n. nd_tenant n = t) (graph_nodes k)),
                  rc_edges = length (filter (\<lambda>e. ed_tenant e = t) (graph_edges k)),
                  rc_claims = length (filter (\<lambda>c. cl_tenant c = t) (Knowledge.claims k))\<rparr>))"

section \<open>Settings\<close>

definition get_org_settings :: "environment \<Rightarrow> authed_user \<Rightarrow> settings_store \<Rightarrow> api_error + org_bundle" where
  "get_org_settings env user s = (case get_org_bundle env (auth_tenant user) s of None \<Rightarrow> Inl internal | Some b \<Rightarrow> Inr b)"

record update_body =
  up_name :: "string option"
  up_logo :: "string option option"
  up_settings :: "json option"

definition given_name :: "string option \<Rightarrow> string option" where
  "given_name n = (case n of None \<Rightarrow> None | Some x \<Rightarrow> if trim x = [] then None else Some (trim x))"

definition update_org_settings ::
  "environment \<Rightarrow> api_error + authed_user \<Rightarrow> update_body \<Rightarrow> settings_store \<Rightarrow> (api_error + org_bundle) \<times> settings_store" where
  "update_org_settings env who b s = (case who of
       Inl e \<Rightarrow> (Inl e, s)
     | Inr user \<Rightarrow>
         (case patch_org env (auth_tenant user) (whitelist_patch env Org (case up_settings b of None \<Rightarrow> JObj [] | Some v \<Rightarrow> v))
                 (given_name (up_name b)) (up_logo b) s of
            (None, s) \<Rightarrow> (Inl internal, s)
          | (Some bundle, s) \<Rightarrow> (Inr bundle, s)))"

definition get_preferences :: "authed_user \<Rightarrow> settings_store \<Rightarrow> api_error + json" where
  "get_preferences user s = (case user_prefs_raw (auth_tenant user) (auth_user user) s of None \<Rightarrow> Inl internal | Some v \<Rightarrow> Inr v)"

definition patch_preferences :: "authed_user \<Rightarrow> json \<Rightarrow> settings_store \<Rightarrow> (api_error + unit) \<times> settings_store" where
  "patch_preferences user b s =
     (case set_user_prefs_raw (auth_tenant user) (auth_user user) (if is_object b then b else JObj []) s of
        (None, s) \<Rightarrow> (Inl internal, s)
      | (Some x, s) \<Rightarrow> (Inr x, s))"

definition get_system_settings :: "environment \<Rightarrow> api_error + authed_user \<Rightarrow> settings_store \<Rightarrow> (api_error + json) \<times> settings_store" where
  "get_system_settings env who s = (case who of
       Inl e \<Rightarrow> (Inl e, s)
     | Inr _ \<Rightarrow> (case resolve_system env s of (None, s) \<Rightarrow> (Inl internal, s) | (Some v, s) \<Rightarrow> (Inr v, s)))"

definition update_system_settings ::
  "environment \<Rightarrow> api_error + authed_user \<Rightarrow> json \<Rightarrow> settings_store \<Rightarrow> (api_error + json) \<times> settings_store" where
  "update_system_settings env who b s = (case who of
       Inl e \<Rightarrow> (Inl e, s)
     | Inr user \<Rightarrow>
         (case patch_system env (whitelist_patch env System b) (Some (auth_user user)) s of
            (None, s) \<Rightarrow> (Inl internal, s)
          | (Some v, s) \<Rightarrow> (Inr v, s)))"

section \<open>The token exchange\<close>

record exchange_body =
  xb_grant :: "string option"
  xb_code :: "string option"
  xb_verifier :: "string option"
  xb_redirect :: "string option"
  xb_client :: "string option"
  xb_refresh :: "string option"

definition gateway_error :: api_error where
  "gateway_error = \<lparr>err_status = 502, err_code = ''bad_gateway''\<rparr>"

definition filled :: "string option \<Rightarrow> string option" where
  "filled v = (case v of None \<Rightarrow> None | Some x \<Rightarrow> if x = [] then None else Some x)"

definition exchange_form :: "exchange_body \<Rightarrow> (string \<times> string) list option" where
  "exchange_form b =
     (if xb_grant b = Some ''refresh_token'' then
        (case (filled (xb_refresh b), filled (xb_client b)) of
           (Some r, Some c) \<Rightarrow> Some [(''grant_type'', ''refresh_token''), (''refresh_token'', r), (''client_id'', c)]
         | _ \<Rightarrow> None)
      else
        (case (filled (xb_code b), filled (xb_verifier b), filled (xb_redirect b), filled (xb_client b)) of
           (Some k, Some v, Some r, Some c) \<Rightarrow>
             Some [(''grant_type'', ''authorization_code''), (''code'', k), (''redirect_uri'', r), (''client_id'', c), (''code_verifier'', v)]
         | _ \<Rightarrow> None))"

text \<open>The answer, and the forms that were posted to the token endpoint.\<close>

definition exchange :: "((string \<times> string) list \<Rightarrow> json http_reply) \<Rightarrow> exchange_body \<Rightarrow> (api_error + json) \<times> (string \<times> string) list list" where
  "exchange post b = (case exchange_form b of
       None \<Rightarrow> (Inl bad_request, [])
     | Some form \<Rightarrow> (case accept_json (post form) of None \<Rightarrow> (Inl gateway_error, [form]) | Some v \<Rightarrow> (Inr v, [form])))"

section \<open>The ledger adds up\<close>

lemma sum_by_group:
  fixes g :: "'a \<Rightarrow> 'b :: comm_monoid_add"
  assumes "distinct ks" "f ` set rows \<subseteq> set ks"
  shows "sum_list (map (\<lambda>k. sum_list (map g (filter (\<lambda>r. f r = k) rows))) ks) = sum_list (map g rows)"
  using assms(2)
proof (induction rows)
  case (Cons a rows)
  let ?h = "\<lambda>k. sum_list (map g (filter (\<lambda>r. f r = k) rows))"
  have "sum_list (map (\<lambda>k. (if f a = k then g a else 0) + ?h k) ks) = (\<Sum>k\<in>set ks. if f a = k then g a else 0) + sum_list (map ?h ks)"
    by (simp add: sum_list_addf sum_list_distinct_conv_sum_set assms(1))
  also have "(\<Sum>k\<in>set ks. if f a = k then g a else 0) = g a" using Cons.prems by simp
  finally have "sum_list (map (\<lambda>k. (if f a = k then g a else 0) + ?h k) ks) = g a + sum_list (map g rows)"
    using Cons by simp
  moreover have "sum_list (map g (filter (\<lambda>r. f r = k) (a # rows))) = (if f a = k then g a else 0) + ?h k" for k by simp
  ultimately show ?case by (simp only: list.map sum_list.Cons)
qed simp

lemma usage_lines_sum:
  fixes h :: "usage_line \<Rightarrow> 'b :: comm_monoid_add"
  assumes "\<And>xs. mset (arrange xs) = mset xs" "\<And>k. h (usage_line_of rows k) = sum_list (map g (filter (\<lambda>r. usage_group r = k) rows))"
  shows "sum_list (map h (usage_lines arrange rows)) = sum_list (map g rows)"
proof -
  let ?ks = "arrange (remdups (map usage_group rows))"
  have "mset ?ks = mset (remdups (map usage_group rows))" by (rule assms(1))
  then have "set ?ks = usage_group ` set rows" "distinct ?ks"
    by (metis set_mset_mset set_remdups list.set_map, metis distinct_remdups mset_eq_imp_distinct_iff)
  then have "sum_list (map (\<lambda>k. sum_list (map g (filter (\<lambda>r. usage_group r = k) rows))) ?ks) = sum_list (map g rows)"
    by (intro sum_by_group) simp_all
  moreover have "mset (usage_lines arrange rows) = mset (map (usage_line_of rows) ?ks)" by (simp add: usage_lines_def)
  then have "sum_list (map h (usage_lines arrange rows)) = sum_list (map h (map (usage_line_of rows) ?ks))"
    by (metis mset_map sum_mset_sum_list)
  ultimately show ?thesis by (simp add: comp_def assms(2))
qed

lemma usage_lines_calls:
  assumes "\<And>xs. mset (arrange xs) = mset xs"
  shows "sum_list (map ul_calls (usage_lines arrange rows)) = length rows"
  using usage_lines_sum [of arrange ul_calls rows "\<lambda>_. 1", OF assms] by (simp add: usage_line_of_def Let_def sum_list_triv)

lemma usage_lines_cost:
  assumes "\<And>xs. mset (arrange xs) = mset xs"
  shows "sum_list (map ul_cost_micro (usage_lines arrange rows)) = sum_list (map quantity rows)"
  by (rule usage_lines_sum [OF assms]) (simp add: usage_line_of_def Let_def)

text \<open>C27. The ledger adds up: the number of queries is the number of the workspace's metered calls in the period, the
  lines per provider and model add up to their cost, the month's spend is the figure the budget gate works with, and
  over the month the cost per query times the number of queries is that spend. Nothing is booked by looking.\<close>

theorem usage_adds_up:
  assumes "get_usage arrange env user per s = (Inr m, s')" and "\<And>xs. mset (arrange xs) = mset xs"
  shows "um_queries m = length (filter (in_period (per \<noteq> Some ''all'') (auth_tenant user) s) (usage_records s))
    \<and> sum_list (map ul_calls (um_lines m)) = um_queries m
    \<and> sum_list (map ul_cost_micro (um_lines m)) = sum_list (map quantity (filter (in_period (per \<noteq> Some ''all'') (auth_tenant user) s) (usage_records s)))
    \<and> Some (um_spend m) = month_to_date_usd (auth_tenant user) s'
    \<and> (per \<noteq> Some ''all'' \<longrightarrow> um_cost_per_query m * real (um_queries m) = um_spend m)
    \<and> usage_records s' = usage_records s"
proof -
  let ?t = "auth_tenant user" and ?p = "per \<noteq> Some ''all''"
  obtain st where st: "reachable st" "s' = s\<lparr>settings := st\<rparr>"
    and q: "um_queries m = sum_list (map ul_calls (um_lines m))"
    and l: "um_lines m = usage_lines arrange (filter (in_period ?p ?t s') (usage_records s'))"
    and c: "um_cost_per_query m = (if um_queries m > 0 then micro_usd (sum_list (map ul_cost_micro (um_lines m))) / real (um_queries m) else 0)"
    and sp: "um_spend m = micro_usd (spent_micro ?t s')"
    using assms(1) by (auto simp: get_usage_def Let_def split: prod.splits option.splits if_splits)
  have same: "in_period ?p ?t s' = in_period ?p ?t s" "usage_records s' = usage_records s" "spent_micro ?t s' = spent_micro ?t s"
    by (auto simp: st(2) in_period_def fun_eq_iff spent_micro_def)
  have n: "um_queries m = length (filter (in_period ?p ?t s) (usage_records s))"
    by (simp add: q l same usage_lines_calls [OF assms(2)])
  have cost: "sum_list (map ul_cost_micro (um_lines m)) = sum_list (map quantity (filter (in_period ?p ?t s) (usage_records s)))"
    by (simp add: l same usage_lines_cost [OF assms(2)])
  have "um_cost_per_query m * real (um_queries m) = um_spend m" if "?p"
  proof -
    have m: "sum_list (map quantity (filter (in_period ?p ?t s) (usage_records s))) = spent_micro ?t s"
      using that by (auto simp: spent_micro_def in_period_def intro!: arg_cong [of _ _ "\<lambda>xs. sum_list (map quantity xs)"] filter_cong)
    show ?thesis
    proof (cases "um_queries m = 0")
      case True
      then have "filter (in_period ?p ?t s) (usage_records s) = []" using n by simp
      then have "spent_micro ?t s = 0" using m by simp
      then show ?thesis using True sp by (simp add: same micro_usd_def)
    qed (use c cost m sp in \<open>simp add: same\<close>)
  qed
  then show ?thesis using n q cost sp st same by (auto simp: month_to_date_usd_def micro_usd_def)
qed


section \<open>Reading the audit log\<close>

lemma pages_cover: "0 < l \<Longrightarrow> concat (map (\<lambda>i. take l (drop (i * l) xs)) [0..<n]) = take (n * l) xs"
proof (induction n)
  case (Suc n)
  then have "concat (map (\<lambda>i. take l (drop (i * l) xs)) [0..<Suc n]) = take (n * l) xs @ take l (drop (n * l) xs)" by simp
  also have "\<dots> = take (n * l + l) xs" by (simp add: take_add)
  finally show ?case by (simp add: add.commute)
qed simp

lemma nat_page: "1 \<le> l \<Longrightarrow> nat (int i * l) = i * nat l"
  by (simp add: nat_mult_distrib)

text \<open>Reading the audit log page by page loses no entry and shows none twice: whatever page size is asked for, the
  pages put together are exactly the workspace's entries that match the filter, newest first, and every page states
  their number.\<close>

theorem audit_pages_cover:
  assumes l: "l = max 1 (min 500 (case aq_limit q of None \<Rightarrow> 200 | Some k \<Rightarrow> k))"
    and m: "matching = filter (audit_matches read_time (auth_tenant user) q) rows"
    and "int (length matching) \<le> int n * l"
  shows "\<exists>pages. map Inr pages = map (\<lambda>i. list_audit read_time True user (q\<lparr>aq_offset := Some (int i * l)\<rparr>) rows) [0..<n]
    \<and> mset (concat (map ap_items pages)) = mset matching \<and> sorted (map (\<lambda>r. - al_at r) (concat (map ap_items pages)))
    \<and> (\<forall>p \<in> set pages. ap_total p = length matching \<and> length (ap_items p) \<le> 500)
    \<and> (\<forall>p \<in> set pages. \<forall>r \<in> set (ap_items p). audit_tenant (al_entry r) = auth_tenant user)"
proof -
  let ?s = "sort_key (\<lambda>r. - al_at r) matching"
  let ?page = "\<lambda>i. \<lparr>ap_items = take (nat l) (drop (i * nat l) ?s), ap_total = length matching, ap_limit = l, ap_offset = int i * l\<rparr>"
  have bounds: "1 \<le> l" "l \<le> 500" by (auto simp: l)
  have same: "audit_matches read_time t (q\<lparr>aq_offset := x\<rparr>) = audit_matches read_time t q" for t x
    by (simp add: audit_matches_def fun_eq_iff)
  have "list_audit read_time True user (q\<lparr>aq_offset := Some (int i * l)\<rparr>) rows = Inr (?page i)" for i
    using bounds by (simp add: list_audit_def Let_def same nat_page flip: l m)
  then have pages: "map Inr (map ?page [0..<n]) = map (\<lambda>i. list_audit read_time True user (q\<lparr>aq_offset := Some (int i * l)\<rparr>) rows) [0..<n]"
    by simp
  have "concat (map ap_items (map ?page [0..<n])) = concat (map (\<lambda>i. take (nat l) (drop (i * nat l) ?s)) [0..<n])" by (simp add: comp_def)
  also have "\<dots> = take (n * nat l) ?s" using bounds by (intro pages_cover) simp
  also have "\<dots> = ?s"
  proof -
    have "int (n * nat l) = int n * l" using bounds by simp
    with assms(3) have "length matching \<le> n * nat l" by linarith
    then have "length ?s \<le> n * nat l" by simp
    then show ?thesis by simp
  qed
  finally have all: "concat (map ap_items (map ?page [0..<n])) = ?s" .
  have "audit_tenant (al_entry r) = auth_tenant user" if "r \<in> set matching" for r
    using that by (auto simp: m audit_matches_def)
  then have mine: "\<forall>p \<in> set (map ?page [0..<n]). \<forall>r \<in> set (ap_items p). audit_tenant (al_entry r) = auth_tenant user"
    by (auto dest!: in_set_takeD in_set_dropD)
  have "mset (concat (map ap_items (map ?page [0..<n]))) = mset matching" "sorted (map (\<lambda>r. - al_at r) (concat (map ap_items (map ?page [0..<n]))))"
    unfolding all by simp_all
  moreover have "\<forall>p \<in> set (map ?page [0..<n]). ap_total p = length matching \<and> length (ap_items p) \<le> 500" using bounds by auto
  ultimately show ?thesis using pages mine by (intro exI [of _ "map ?page [0..<n]"]) blast
qed

section \<open>The embedding backlog\<close>

text \<open>The reindex call and the statistics agree: when a call reports that nothing remains, the statistics show every
  chunk of the workspace as embedded; otherwise the number of embedded chunks has grown by the number reported,
  which is at most 500.\<close>

theorem reindex_shows_in_stats:
  assumes "distinct (map chunk_key (chunks db))" and "reindex v (Inr user) db = (Inr (n, again), db')"
    and "storage_stats (Inr user) db k = Inr before"
  shows "\<exists>after. storage_stats (Inr user) db' k = Inr after \<and> n \<le> 500 \<and> rc_embedded after = rc_embedded before + n
    \<and> rc_chunks after = rc_chunks before \<and> (\<not> again \<longrightarrow> rc_embedded after = rc_chunks after)"
proof -
  let ?t = "auth_tenant user"
  have run: "reindex_unembedded v ?t 500 db = (Some (n, again), db')"
    using assms(2) by (auto simp: reindex_def REINDEX_BATCH_def split: prod.splits option.splits)
  have split: "length (filter embedded (filter (\<lambda>c. chunk_tenant c = ?t) cs))
      + length (filter (\<lambda>c. chunk_tenant c = ?t \<and> \<not> embedded c) cs) = length (filter (\<lambda>c. chunk_tenant c = ?t) cs)" for cs
    by (induction cs) auto
  have chunks: "length (filter (\<lambda>c. chunk_tenant c = ?t) (chunks db')) = length (filter (\<lambda>c. chunk_tenant c = ?t) (chunks db))"
    and rest: "db_up db' = db_up db"
    by (rule reindex_cases [OF _ run]; auto dest: reindex_loop_effect intro!: filter_nth_length)+
  from reindex_progress [OF assms(1) _ run]
  have p: "n = min 500 (length (unembedded ?t db))" "length (unembedded ?t db') = length (unembedded ?t db) - n"
    "\<not> again \<Longrightarrow> unembedded ?t db' = []" by simp_all
  have up: "db_up db" "rc_embedded before = length (filter embedded (filter (\<lambda>c. chunk_tenant c = ?t) (chunks db)))"
    "rc_chunks before = length (filter (\<lambda>c. chunk_tenant c = ?t) (chunks db))"
    using assms(3) by (auto simp: storage_stats_def Let_def split: if_splits)
  then obtain after where after: "storage_stats (Inr user) db' k = Inr after"
    "rc_embedded after = length (filter embedded (filter (\<lambda>c. chunk_tenant c = ?t) (chunks db')))"
    "rc_chunks after = length (filter (\<lambda>c. chunk_tenant c = ?t) (chunks db'))"
    by (simp add: storage_stats_def Let_def rest)
  show ?thesis
    using after up p split [of "chunks db"] split [of "chunks db'"] chunks by (auto simp: unembedded_def)
qed

section \<open>Settings keep their keys\<close>

text \<open>Only keys that the scope's defaults have are stored, whatever the clients send.\<close>

definition known_keys :: "environment \<Rightarrow> scope \<Rightarrow> json \<Rightarrow> bool" where
  "known_keys env sc v = (is_object v \<and> (\<forall>k. get_key v k \<noteq> None \<longrightarrow> get_key (defaults_for env sc) k \<noteq> None))"

definition settings_known :: "environment \<Rightarrow> settings_store \<Rightarrow> bool" where
  "settings_known env s = (known_keys env System (system_overrides s) \<and> (\<forall>t. known_keys env Org (row_overrides (org_row t s)))
     \<and> (\<forall>t u. is_object (user_overrides t u s)))"

inductive settings_request :: "environment \<Rightarrow> settings_store \<Rightarrow> settings_store \<Rightarrow> bool" for env where
  org_put: "wf_json (case up_settings b of None \<Rightarrow> JNull | Some v \<Rightarrow> v) \<Longrightarrow> settings_request env s (snd (update_org_settings env who b s))"
| prefs_patched: "settings_request env s (snd (patch_preferences user b s))"
| system_got: "settings_request env s (snd (get_system_settings env who s))"
| system_put: "wf_json b \<Longrightarrow> settings_request env s (snd (update_system_settings env who b s))"
| time_passes: "settings_request env s (s\<lparr>now_ms := now_ms s + d\<rparr>)"
| database_fails: "settings_request env s (s\<lparr>reachable := up\<rparr>)"

lemma whitelisted:
  assumes "wf_json v"
  obtains p where "whitelist_patch env sc v = JObj p" "distinct (map fst p)"
    "\<forall>k. map_of p k \<noteq> None \<longrightarrow> get_key (defaults_for env sc) k \<noteq> None"
proof -
  obtain allowed where a: "defaults_for env sc = JObj allowed"
    by (cases sc) (auto simp: org_defaults_def system_defaults_def user_defaults_def)
  show ?thesis
  proof (cases v)
    case (JObj p)
    let ?p = "filter (\<lambda>(k, v). map_of allowed k \<noteq> None) p"
    have "whitelist_patch env sc v = JObj ?p" by (simp add: whitelist_patch_def a JObj)
    moreover have "distinct (map fst ?p)" using assms by (simp add: JObj distinct_map_filter)
    moreover have "\<forall>k. map_of ?p k \<noteq> None \<longrightarrow> get_key (defaults_for env sc) k \<noteq> None"
      by (auto simp: a dest!: map_of_SomeD)
    ultimately show ?thesis by (rule that)
  qed (use that in \<open>auto simp: whitelist_patch_def a\<close>)
qed

lemma known_after_patch:
  assumes "known_keys env sc v" "wf_json b"
  shows "known_keys env sc (apply_patch v (whitelist_patch env sc b))"
proof -
  obtain p where p: "whitelist_patch env sc b = JObj p" "distinct (map fst p)"
    "\<forall>k. map_of p k \<noteq> None \<longrightarrow> get_key (defaults_for env sc) k \<noteq> None"
    by (rule whitelisted [OF assms(2), of env sc])
  obtain t where t: "v = JObj t" using assms(1) by (auto simp: known_keys_def is_object_iff)
  have "get_key (apply_patch v (JObj p)) k = (case map_of p k of None \<Rightarrow> map_of t k | Some x \<Rightarrow> patched (map_of t k) x)" for k
    by (simp add: t apply_patch.simps map_of_patch_entries [OF p(2)])
  moreover have "is_object (apply_patch v (JObj p))" by (simp add: t apply_patch.simps)
  ultimately show ?thesis
    using p(3) assms(1) by (fastforce simp: known_keys_def p(1) t split: option.splits)
qed

text \<open>C39. The stored settings stay well-typed: under any sequence of settings requests, clock steps and outages, the
  overrides of the system and of every workspace are objects whose keys all exist among the defaults of their scope,
  and every user's preferences are an object.\<close>

theorem settings_keys_known:
  assumes "(settings_request env)\<^sup>*\<^sup>* s s'" and "settings_known env s"
  shows "settings_known env s'"
  using assms
proof (induction rule: rtranclp_induct)
  case (step y z)
  have known: "settings_known env y" using step.IH step.prems by simp
  from step.hyps(2) show ?case
  proof cases
    case (org_put b who)
    have "wf_json (case up_settings b of None \<Rightarrow> JObj [] | Some v \<Rightarrow> v)" using org_put(2) by (simp split: option.splits)
    from known_after_patch [OF _ this] known show ?thesis
      by (auto simp: org_put(1) settings_known_def update_org_settings_def patch_org_def Let_def settings_cache_invalidate_def write_org_def
          org_row_def system_overrides_def user_overrides_def split: sum.split)
  next
    case (system_put b who)
    from known_after_patch [OF _ system_put(2)] known show ?thesis
      by (auto simp: system_put(1) settings_known_def update_system_settings_def patch_system_def resolve_system_def Let_def store_updates
          settings_cache_get_def org_row_def system_overrides_def user_overrides_def split: sum.split option.split)
  qed (use known in \<open>auto simp: settings_known_def table_reads patch_preferences_def set_user_prefs_raw_def store_updates get_system_settings_def
      resolve_system_def settings_cache_get_def Let_def split: sum.split option.split\<close>)
qed simp

section \<open>What a settings request answers\<close>

text \<open>A workspace's settings are read back as they were answered: after a successful update the bundle is the one
  just returned, a name that is blank leaves the old one, and no other workspace's bundle changes.\<close>

theorem org_settings_round_trip:
  assumes "update_org_settings env (Inr user) b s = (Inr bundle, s')"
  shows "get_org_settings env user s' = Inr bundle
    \<and> (given_name (up_name b) = None \<longrightarrow> bundle_name bundle = row_name (org_row (auth_tenant user) s))
    \<and> (\<forall>n. given_name (up_name b) = Some n \<longrightarrow> bundle_name bundle = Some n)
    \<and> (\<forall>other. auth_tenant other \<noteq> auth_tenant user \<longrightarrow> get_org_settings env other s' = get_org_settings env other s)"
proof -
  have p: "patch_org env (auth_tenant user) (whitelist_patch env Org (case up_settings b of None \<Rightarrow> JObj [] | Some v \<Rightarrow> v))
    (given_name (up_name b)) (up_logo b) s = (Some bundle, s')"
    using assms by (auto simp: update_org_settings_def split: prod.splits option.splits)
  then have up: "reachable s" by (auto simp: patch_org_def split: if_splits)
  let ?cur = "org_row (auth_tenant user) s"
  obtain n l v where eq: "s' = settings_cache_invalidate (KOrg (auth_tenant user)) (write_org (auth_tenant user) n l v s)"
    and n: "n = (case given_name (up_name b) of Some x \<Rightarrow> Some x | None \<Rightarrow> row_name ?cur)"
    and bd: "bundle = \<lparr>bundle_name = n, bundle_logo = l, bundle_settings = merge_and_clamp Org (org_defaults env) v,
      bundle_defaults = org_defaults env, overridden = object_keys v, bundle_updated_at = Some (now_ms s)\<rparr>"
    using p up by (auto simp: patch_org_def Let_def)
  have row: "org_row t s' = (if t = auth_tenant user
      then \<lparr>row_name = n, row_logo = l, row_overrides = v, row_updated_at = Some (now_ms s)\<rparr> else org_row t s)" for t
    by (simp add: eq settings_cache_invalidate_def write_org_def org_row_def)
  have "reachable s'" using up by (simp add: eq settings_cache_invalidate_def write_org_def)
  then show ?thesis using up n by (simp add: get_org_settings_def get_org_bundle_def Let_def row bd split: option.splits)
qed

section \<open>The token exchange\<close>

text \<open>The exchange posts at most one form and only a complete one: with no blank value, always with the client's identifier;
  an incomplete request is answered 400 without any call, and whatever the endpoint refuses is answered 502.\<close>

theorem exchange_posts_complete_forms:
  assumes "exchange post b = (r, posted)"
  shows "(exchange_form b = None \<longrightarrow> posted = [] \<and> r = Inl bad_request)
    \<and> (\<forall>form. exchange_form b = Some form \<longrightarrow> posted = [form] \<and> (\<forall>kv \<in> set form. snd kv \<noteq> []) \<and> distinct (map fst form)
        \<and> map_of form ''client_id'' = xb_client b \<and> (r = Inl gateway_error \<or> (\<exists>v. r = Inr v \<and> accept_json (post form) = Some v)))"
proof -
  have form: "(\<forall>kv \<in> set form. snd kv \<noteq> []) \<and> distinct (map fst form) \<and> map_of form ''client_id'' = xb_client b"
    if "exchange_form b = Some form" for form
    using that by (auto simp: exchange_form_def filled_def split: option.splits if_splits)
  show ?thesis
    using assms form by (auto simp: exchange_def split: option.splits)
qed


section \<open>Concrete requests\<close>

theorem settings_keys_known_witness:
  "settings_known example_env (snd (update_org_settings example_env (Inr \<lparr>auth_user = 2, auth_tenant = 5, auth_role = ''admin'', auth_session = 0\<rparr>)
     \<lparr>up_name = None, up_logo = None, up_settings = Some (JObj [(''admin'', JBool True)])\<rparr> example_store))"
proof (rule settings_keys_known)
  show "(settings_request example_env)\<^sup>*\<^sup>* example_store (snd (update_org_settings example_env
      (Inr \<lparr>auth_user = 2, auth_tenant = 5, auth_role = ''admin'', auth_session = 0\<rparr>)
      \<lparr>up_name = None, up_logo = None, up_settings = Some (JObj [(''admin'', JBool True)])\<rparr> example_store))"
    by (rule r_into_rtranclp, rule org_put) simp
  show "settings_known example_env example_store"
    by (simp add: settings_known_def known_keys_def table_reads example_store_def)
qed

definition two_calls :: llm_state where
  "two_calls = fresh_llm\<lparr>usage_records :=
     [\<lparr>usage_tenant = 5, metric = ''llm'', quantity = 3000000, usage_meta = JObj [(''provider'', JStr ''openai'')], usage_at = 1\<rparr>,
      \<lparr>usage_tenant = 5, metric = ''llm'', quantity = 1000000, usage_meta = JObj [(''provider'', JStr ''gemini'')], usage_at = 2\<rparr>,
      \<lparr>usage_tenant = 6, metric = ''llm'', quantity = 7000000, usage_meta = JObj [], usage_at = 2\<rparr>]\<rparr>"

theorem usage_adds_up_witness:
  "\<exists>m s'. get_usage (\<lambda>xs. xs) example_env \<lparr>auth_user = 2, auth_tenant = 5, auth_role = ''viewer'', auth_session = 0\<rparr> None two_calls = (Inr m, s')
    \<and> um_queries m = 2 \<and> um_cost_per_query m * 2 = um_spend m"
proof -
  let ?u = "\<lparr>auth_user = 2, auth_tenant = 5, auth_role = ''viewer'', auth_session = 0\<rparr> :: authed_user"
  obtain m s' where run: "get_usage (\<lambda>xs. xs) example_env ?u None two_calls = (Inr m, s')"
    by (simp add: get_usage_def Let_def two_calls_def fresh_llm_def resolve_org_def settings_cache_get_def example_store_def settings_cache_put_def)
  note adds = usage_adds_up [OF run HOL.refl]
  from adds have "um_queries m = 2" by (simp add: in_period_def two_calls_def fresh_llm_def)
  moreover from adds have "None \<noteq> Some ''all'' \<longrightarrow> um_cost_per_query m * real (um_queries m) = um_spend m" by blast
  ultimately have "um_queries m = 2 \<and> um_cost_per_query m * 2 = um_spend m" by simp
  with run show ?thesis by blast
qed


end
