(* ===== verification/Realtime.thy ===== *)
theory Realtime
  imports Documents
begin

text \<open>
  \<open>insight-api/src/ws.rs\<close>: the web socket that forwards published events. A connection is its caller, the Redis
  channels it is subscribed to, the frames sent to the client and whether the loop still runs. The published messages,
  the client's frames and the failures of either side arrive in any order: the loop is a step function on events, and
  the tables may change between two of them. The JSON reader of a client's message, the workspaces table and the JWT
  library are parameters.
\<close>

section \<open>Opening a connection\<close>

record connection =
  viewer_of :: authed_user
  subscribed :: "string list"
  sent :: "string list"
  pongs :: "string list"
  running_loop :: bool

text \<open>The query parameter's token, or the header and cookie of the request.\<close>

definition maybe_user :: "jwt_library \<Rightarrow> api_config \<Rightarrow> request \<Rightarrow> api_state \<Rightarrow> authed_user option" where
  "maybe_user jwt cfg req s = Option.bind (access_token_from_parts req)
     (\<lambda>token. case verify jwt cfg token ''access'' s of Inl _ \<Rightarrow> None | Inr c \<Rightarrow> Some (from_claims c))"

definition socket_channel :: "uuid \<Rightarrow> string \<Rightarrow> string" where
  "socket_channel t c = ''tenant:'' @ show_nat t @ '':'' @ c"

definition realtime :: "jwt_library \<Rightarrow> api_config \<Rightarrow> string option \<Rightarrow> request \<Rightarrow> api_state \<Rightarrow> api_error + connection" where
  "realtime jwt cfg token req s =
     (let user = (case token of
            Some x \<Rightarrow> map_sum id from_claims (verify jwt cfg x ''access'' s)
          | None \<Rightarrow> (case maybe_user jwt cfg req s of None \<Rightarrow> Inl unauthorized | Some u \<Rightarrow> Inr u))
      in map_sum id (\<lambda>u. \<lparr>viewer_of = u, subscribed = [user_channel (show_nat (auth_user u))], sent = [], pongs = [], running_loop = True\<rparr>) user)"

section \<open>Widening the subscription\<close>

record client_message =
  cm_kind :: string
  cm_channel :: "string option"

text \<open>What the check of a channel reads: the topics, the workspaces (row and tenant), and whether the database answers.\<close>

record channel_db =
  known_topics :: "topic_row list"
  workspaces :: "(uuid \<times> uuid) list"
  channels_up :: bool

definition owns_channel :: "(string \<Rightarrow> uuid option) \<Rightarrow> uuid \<Rightarrow> string \<Rightarrow> channel_db \<Rightarrow> bool option" where
  "owns_channel read_uuid t c db = (case split_once CHR '':'' c of
       None \<Rightarrow> Some False
     | Some (kind, k) \<Rightarrow>
         if kind \<notin> {''topic'', ''workspace''} then Some False
         else (case read_uuid k of
             None \<Rightarrow> Some False
           | Some key \<Rightarrow>
               if \<not> channels_up db then None
               else Some (if kind = ''topic'' then list_ex (\<lambda>r. tp_id r = key \<and> tp_tenant r = t) (known_topics db)
                          else list_ex (\<lambda>r. r = (key, t)) (workspaces db))))"

definition handle_client_message ::
  "(string \<Rightarrow> client_message option) \<Rightarrow> (string \<Rightarrow> uuid option) \<Rightarrow> channel_db \<Rightarrow> bool \<Rightarrow> string \<Rightarrow> connection \<Rightarrow> connection" where
  "handle_client_message read_message read_uuid db redis_ok txt c = (case read_message txt of
       None \<Rightarrow> c
     | Some m \<Rightarrow>
         if cm_kind m \<noteq> ''subscribe'' then c
         else (case cm_channel m of
             None \<Rightarrow> c
           | Some ch \<Rightarrow>
               if owns_channel read_uuid (auth_tenant (viewer_of c)) ch db = Some True \<and> redis_ok
               then c\<lparr>subscribed := subscribed c @ [socket_channel (auth_tenant (viewer_of c)) ch]\<rparr>
               else c))"

section \<open>The loop\<close>

text \<open>What the loop can meet: a message published on a channel (with its payload, if it is text), the end of the Redis
  stream, and the client's frames. \<open>ok\<close> tells whether sending to the socket succeeds.\<close>

datatype event =
    Published string "string option" (ok: bool)
  | StreamEnded
  | ClientText string bool channel_db
  | ClientPing string (ok: bool)
  | ClientOther
  | ClientClosed
  | ClientFailed

fun pump_step :: "(string \<Rightarrow> client_message option) \<Rightarrow> (string \<Rightarrow> uuid option) \<Rightarrow> event \<Rightarrow> connection \<Rightarrow> connection" where
  "pump_step rm ru (Published ch payload up) c =
     (if ch \<notin> set (subscribed c) then c
      else (case payload of
          None \<Rightarrow> c\<lparr>running_loop := False\<rparr>
        | Some x \<Rightarrow> if up then c\<lparr>sent := sent c @ [x]\<rparr> else c\<lparr>running_loop := False\<rparr>))"
| "pump_step rm ru StreamEnded c = c\<lparr>running_loop := False\<rparr>"
| "pump_step rm ru (ClientText x redis_ok db) c = handle_client_message rm ru db redis_ok x c"
| "pump_step rm ru (ClientPing x up) c = (if up then c\<lparr>pongs := pongs c @ [x]\<rparr> else c\<lparr>running_loop := False\<rparr>)"
| "pump_step rm ru ClientOther c = c"
| "pump_step rm ru ClientClosed c = c\<lparr>running_loop := False\<rparr>"
| "pump_step rm ru ClientFailed c = c\<lparr>running_loop := False\<rparr>"

fun pump :: "(string \<Rightarrow> client_message option) \<Rightarrow> (string \<Rightarrow> uuid option) \<Rightarrow> event list \<Rightarrow> connection \<Rightarrow> connection" where
  "pump rm ru [] c = c"
| "pump rm ru (e # es) c = (if running_loop c then pump rm ru es (pump_step rm ru e c) else c)"

section \<open>Channel names\<close>

lemma no_colon: "CHR '':'' \<notin> set (show_nat n)"
  using show_nat_digits [of "CHR '':''" n] by (auto simp: code_of_def)

lemma socket_channel_inj: "socket_channel t c = socket_channel t' c' \<longleftrightarrow> t = t' \<and> c = c'"
proof -
  have "t = t' \<and> c = c'" if "show_nat t @ CHR '':'' # c = show_nat t' @ CHR '':'' # c'"
  proof -
    have "takeWhile (\<lambda>x. x \<noteq> CHR '':'') (show_nat k @ CHR '':'' # y) = show_nat k"
      "dropWhile (\<lambda>x. x \<noteq> CHR '':'') (show_nat k @ CHR '':'' # y) = CHR '':'' # y" for k y
      using no_colon by (auto simp: takeWhile_append dropWhile_append)
    with that show ?thesis by (metis show_nat_inject list.inject)
  qed
  then show ?thesis by (auto simp: socket_channel_def)
qed

lemma user_not_socket: "user_channel u \<noteq> socket_channel t c"
  by (simp add: user_channel_def socket_channel_def)

lemma split_once_join: "split_once sep s = Some (a, b) \<Longrightarrow> s = a @ sep # b"
proof -
  assume "split_once sep s = Some (a, b)"
  then have m: "sep \<in> set s" "a = takeWhile (\<lambda>c. c \<noteq> sep) s" "b = tl (dropWhile (\<lambda>c. c \<noteq> sep) s)"
    by (auto simp: split_once_def split: if_splits)
  then have "dropWhile (\<lambda>c. c \<noteq> sep) s \<noteq> []" by (simp add: dropWhile_eq_Nil_conv)
  with hd_dropWhile [OF this] have "dropWhile (\<lambda>c. c \<noteq> sep) s = sep # b" by (cases "dropWhile (\<lambda>c. c \<noteq> sep) s") (auto simp: m)
  then show "s = a @ sep # b" using takeWhile_dropWhile_id [of "\<lambda>c. c \<noteq> sep" s] m(2) by simp
qed

text \<open>The channels a caller's connection may listen to: the caller's own, and those named after a topic or a workspace in the
  caller's workspace.\<close>

definition own_channel :: "authed_user \<Rightarrow> string \<Rightarrow> bool" where
  "own_channel u ch = (ch = user_channel (show_nat (auth_user u))
     \<or> (\<exists>kind \<in> {''topic'', ''workspace''}. \<exists>k. ch = socket_channel (auth_tenant u) (kind @ CHR '':'' # k)))"

lemma handled_channels:
  assumes "\<forall>ch \<in> set (subscribed c). own_channel (viewer_of c) ch"
  shows "let c' = handle_client_message rm ru db up x c
    in viewer_of c' = viewer_of c \<and> sent c' = sent c \<and> (\<forall>ch \<in> set (subscribed c'). own_channel (viewer_of c) ch)"
proof -
  have "own_channel u (socket_channel (auth_tenant u) ch)" if "owns_channel ru (auth_tenant u) ch db = Some True" for u ch
    using that by (fastforce simp: owns_channel_def own_channel_def dest!: split_once_join split: option.splits if_splits)
  with assms show ?thesis by (auto simp: handle_client_message_def Let_def split: option.split)
qed

lemma pump_step_inv:
  assumes "\<forall>ch \<in> set (subscribed c). own_channel (viewer_of c) ch"
  shows "viewer_of (pump_step rm ru e c) = viewer_of c
    \<and> (\<forall>ch \<in> set (subscribed (pump_step rm ru e c)). own_channel (viewer_of c) ch)
    \<and> (\<forall>x \<in> set (sent (pump_step rm ru e c)). x \<in> set (sent c) \<or> (\<exists>ch b. e = Published ch (Some x) b \<and> own_channel (viewer_of c) ch))"
  using assms handled_channels [of c rm ru] by (cases e) (auto simp: Let_def split: option.split)

text \<open>C4. Events stay with those they are meant for: whatever a client sends, and however its messages interleave with the
  published events and with changes of the tables, a connection only listens to its user's channel and to topic and
  workspace channels under its own workspace's name, and each text it sends was published on such a channel.\<close>

theorem realtime_isolated:
  assumes "realtime jwt cfg token req s = Inr c"
  shows "viewer_of (pump rm ru es c) = viewer_of c
    \<and> (\<forall>ch \<in> set (subscribed (pump rm ru es c)). own_channel (viewer_of c) ch)
    \<and> (\<forall>x \<in> set (sent (pump rm ru es c)). \<exists>ch up. Published ch (Some x) up \<in> set es \<and> own_channel (viewer_of c) ch)"
proof -
  have gen: "viewer_of (pump rm ru es c) = viewer_of c
      \<and> (\<forall>ch \<in> set (subscribed (pump rm ru es c)). own_channel (viewer_of c) ch)
      \<and> (\<forall>x \<in> set (sent (pump rm ru es c)). x \<in> set (sent c) \<or> (\<exists>ch up. Published ch (Some x) up \<in> set es \<and> own_channel (viewer_of c) ch))"
    if "\<forall>ch \<in> set (subscribed c). own_channel (viewer_of c) ch" for es c
    using that
  proof (induction es arbitrary: c)
    case (Cons e es)
    note step = pump_step_inv [OF Cons.prems, of rm ru e]
    then have "\<forall>ch \<in> set (subscribed (pump_step rm ru e c)). own_channel (viewer_of (pump_step rm ru e c)) ch" by simp
    note rest = Cons.IH [OF this]
    show ?case
    proof (cases "running_loop c")
      case True
      then have eq: "pump rm ru (e # es) c = pump rm ru es (pump_step rm ru e c)" by simp
      show ?thesis unfolding eq using rest step by (metis list.set_intros)
    qed (use Cons.prems in simp)
  qed simp
  have "subscribed c = [user_channel (show_nat (auth_user (viewer_of c)))] \<and> sent c = []"
    using assms by (auto simp: realtime_def Let_def map_sum_def split: sum.splits option.splits)
  then show ?thesis using gen [of c es] by (simp add: own_channel_def)
qed

section \<open>Job events\<close>

text \<open>What the job queue has published, as a connection's loop meets it.\<close>

definition queue_events :: "(json \<Rightarrow> string) \<Rightarrow> (string \<times> json) list \<Rightarrow> event list" where
  "queue_events show_json es = map (\<lambda>e. Published (fst e) (Some (show_json (snd e))) True) es"

text \<open>The progress of a job reaches the one it was queued for: of the events the queue publishes, an open
  connection sends exactly those on its user's channel, in their order; the copies on the workspace's job channel reach no
  web socket.\<close>

theorem job_events_reach_their_user:
  assumes "realtime jwt cfg token req s = Inr c"
  shows "sent (pump rm ru (queue_events show_json es) c) =
      map (\<lambda>e. show_json (snd e)) (filter (\<lambda>e. fst e = user_channel (show_nat (auth_user (viewer_of c)))) es)
    \<and> running_loop (pump rm ru (queue_events show_json es) c)
    \<and> (\<forall>u t. \<not> own_channel u (tenant_channel t))"
proof -
  let ?u = "user_channel (show_nat (auth_user (viewer_of c)))"
  have gen: "sent (pump rm ru (queue_events show_json es) d) = sent d @ map (\<lambda>e. show_json (snd e)) (filter (\<lambda>e. fst e = ?u) es)
      \<and> running_loop (pump rm ru (queue_events show_json es) d)" if "subscribed d = [?u]" "running_loop d" for d
    using that by (induction es arbitrary: d) (auto simp: queue_events_def)
  have "subscribed c = [?u] \<and> sent c = [] \<and> running_loop c"
    using assms by (auto simp: realtime_def Let_def map_sum_def split: sum.splits option.splits)
  moreover have "\<not> own_channel u (tenant_channel t)" for u t
  proof -
    have "tenant_channel t = socket_channel t ''jobs''" by (simp add: tenant_channel_def socket_channel_def)
    then show ?thesis using user_not_socket by (auto simp: own_channel_def socket_channel_inj dest: sym)
  qed
  ultimately show ?thesis using gen [of c] by simp
qed

definition live_token :: claims where
  "live_token = \<lparr>sub = 2, ten = 5, claim_role = ''viewer'', claim_typ = ''access'', exp_at = 9, iat = 0, jti = 3, claim_sid = 4\<rparr>"

lemma live_connection:
  "realtime plain_jwt example_cfg (Some (jwt_encode plain_jwt (jwt_secret example_cfg) live_token)) plain_request start_state =
    Inr \<lparr>viewer_of = from_claims live_token, subscribed = [user_channel (show_nat 2)], sent = [], pongs = [], running_loop = True\<rparr>"
proof -
  have "db_now (tdb start_state) = 0" by (simp add: start_state_def empty_db_def)
  moreover have "jwt_decode plain_jwt (jwt_secret example_cfg) 0 (jwt_encode plain_jwt (jwt_secret example_cfg) live_token) = Some live_token"
  proof -
    have "\<not> exp_at live_token < 0" by (simp add: live_token_def)
    with plain_jwt_ok show ?thesis unfolding jwt_ok_def by blast
  qed
  ultimately have "verify plain_jwt example_cfg (jwt_encode plain_jwt (jwt_secret example_cfg) live_token) ''access'' start_state = Inr live_token"
    by (simp add: verify_def) (simp add: live_token_def)
  then show ?thesis by (simp add: realtime_def from_claims_def) (simp add: live_token_def)
qed

theorem realtime_isolated_witness:
  "\<exists>c. sent (pump (\<lambda>_. None) parse_uuid [Published (user_channel (show_nat 2)) (Some ''hi'') True, Published (user_channel (show_nat 7)) (Some ''no'') True] c) = [''hi'']
    \<and> own_channel (viewer_of c) (user_channel (show_nat 2))"
proof -
  let ?es = "[Published (user_channel (show_nat 2)) (Some ''hi'') True, Published (user_channel (show_nat 7)) (Some ''no'') True]"
  let ?c = "\<lparr>viewer_of = from_claims live_token, subscribed = [user_channel (show_nat 2)], sent = [], pongs = [], running_loop = True\<rparr>"
  have "sent (pump (\<lambda>_. None) parse_uuid ?es ?c) = [''hi'']" by (simp add: user_channel_def)
  moreover have "\<exists>ch up. Published ch (Some ''hi'') up \<in> set ?es \<and> own_channel (viewer_of ?c) ch"
    using realtime_isolated [OF live_connection, of "\<lambda>_. None" parse_uuid ?es] calculation by auto
  ultimately show ?thesis by (intro exI [of _ ?c]) (auto simp: user_channel_def)
qed

theorem job_events_reach_their_user_witness:
  "\<exists>c. sent (pump (\<lambda>_. None) parse_uuid (queue_events (\<lambda>_. ''x'') [(user_channel (show_nat 2), JNull), (tenant_channel 5, JNull)]) c) = [''x'']"
  using job_events_reach_their_user [OF live_connection, of "\<lambda>_. None" parse_uuid "\<lambda>_. ''x''" "[(user_channel (show_nat 2), JNull), (tenant_channel 5, JNull)]"]
  by (auto simp: from_claims_def live_token_def user_channel_def tenant_channel_def)


end
