(* ===== verification/Server.thy ===== *)
theory Server
  imports RateLimit Catalogue
begin

text \<open>
  The server around the handlers: the table of routes and the order of the layers (\<open>insight-api/src/main.rs\<close>), the
  configurations read from the environment (\<open>state.rs\<close>, \<open>insight-core/src/storage/mod.rs\<close>), the checks of the start
  (\<open>storage/mod.rs\<close>, \<open>main.rs\<close>) and the readiness probe (\<open>routes/health.rs\<close>). A route is its pattern with the
  handlers per verb, named as in the source; the handlers themselves are a parameter here. CORS and tracing are left out. A
  byte is a Latin-1 character where the code compares or trims; lengths are counted in UTF-8.
\<close>

section \<open>The table of routes\<close>

type_synonym route = "string \<times> (string \<times> string) list"

definition public_routes :: "route list" where
  "public_routes =
    [(''/healthz'', [(''GET'', ''health::healthz'')]),
     (''/readyz'', [(''GET'', ''health::readyz'')]),
     (''/api/health'', [(''GET'', ''health::api_health'')]),
     (''/api/billing/webhook'', [(''POST'', ''billing::webhook'')])]"

definition auth_routes :: "route list" where
  "auth_routes =
    [(''/api/auth/sign-up'', [(''POST'', ''auth::sign_up'')]),
     (''/api/auth/sign-in'', [(''POST'', ''auth::sign_in'')]),
     (''/api/auth/refresh'', [(''POST'', ''auth::refresh'')]),
     (''/api/auth/sign-out'', [(''POST'', ''auth::sign_out'')]),
     (''/api/ai-oauth/exchange'', [(''POST'', ''ai_oauth::exchange'')])]"

definition library_routes :: "route list" where
  "library_routes =
    [(''/api/session'', [(''GET'', ''auth::session'')]),
     (''/api/auth/session'', [(''GET'', ''auth::session'')]),
     (''/api/auth/sessions'', [(''GET'', ''auth::list_sessions'')]),
     (''/api/auth/sessions/revoke'', [(''POST'', ''auth::revoke_session'')]),
     (''/api/auth/sessions/revoke-others'', [(''POST'', ''auth::revoke_other_sessions'')]),
     (''/api/uploads/presign'', [(''POST'', ''documents::presign'')]),
     (''/api/documents'', [(''POST'', ''documents::create_document''), (''GET'', ''documents::list_documents'')]),
     (''/api/documents/{id}'', [(''GET'', ''documents::get_document'')]),
     (''/api/documents/{id}/download'', [(''GET'', ''documents::download_document'')]),
     (''/api/documents/{id}/structure'', [(''GET'', ''documents::document_structure'')]),
     (''/api/search'', [(''GET'', ''search::search_get''), (''POST'', ''search::search_post'')]),
     (''/api/jobs/{id}'', [(''GET'', ''jobs::get_job'')]),
     (''/api/folders'', [(''GET'', ''folders::list_folders''), (''POST'', ''folders::create_folder'')]),
     (''/api/folders/{id}'', [(''GET'', ''folders::get_folder'')]),
     (''/api/sources'', [(''GET'', ''sources::list_sources''), (''POST'', ''sources::create_source'')]),
     (''/api/sources/{id}'', [(''PATCH'', ''sources::update_source'')]),
     (''/api/figures'', [(''GET'', ''figures::search_figures'')]),
     (''/api/processing'', [(''GET'', ''processing::list_processing'')]),
     (''/api/processing/stats'', [(''GET'', ''processing::processing_stats'')]),
     (''/api/processing/stream'', [(''GET'', ''processing::processing_stream'')]),
     (''/api/processing/{id}/cancel'', [(''POST'', ''processing::cancel_job'')]),
     (''/api/processing/{id}/retry'', [(''POST'', ''processing::retry_job'')]),
     (''/api/admin/reindex'', [(''POST'', ''admin::reindex'')]),
     (''/api/admin/storage-stats'', [(''GET'', ''admin::storage_stats'')]),
     (''/api/topics'', [(''GET'', ''topics::list_topics'')]),
     (''/api/topics/{id}'', [(''GET'', ''topics::get_topic'')]),
     (''/api/topics/{id}/claims'', [(''GET'', ''topics::get_topic_claims''), (''POST'', ''topics::add_claim'')]),
     (''/api/topics/{id}/verify'', [(''POST'', ''topics::verify_topic'')]),
     (''/api/topics/{id}/regenerate'', [(''POST'', ''topics::regenerate_topic'')]),
     (''/api/topics/{id}/versions'', [(''GET'', ''topics::list_versions'')]),
     (''/api/topics/{id}/versions/{version}/restore'', [(''POST'', ''topics::restore_version'')]),
     (''/api/topics/{id}/case'', [(''POST'', ''topics::generate_case'')]),
     (''/api/topics/{id}/flashcards'', [(''POST'', ''topics::generate_flashcards'')]),
     (''/api/graph'', [(''GET'', ''graph::get_graph'')]),
     (''/api/graph/communities'', [(''GET'', ''graph::get_communities'')]),
     (''/api/graph/community/{nodeId}'', [(''GET'', ''graph::get_community'')]),
     (''/api/graph/pagerank'', [(''GET'', ''graph::get_pagerank'')]),
     (''/api/graph/stats'', [(''GET'', ''graph::get_stats'')]),
     (''/api/review'', [(''GET'', ''review::list_review'')]),
     (''/api/review/{id}'', [(''POST'', ''review::resolve_review'')]),
     (''/api/copilot'', [(''POST'', ''copilot::copilot'')]),
     (''/api/flashcards'', [(''GET'', ''study::list_flashcards'')]),
     (''/api/flashcards/{id}/review'', [(''POST'', ''study::review_flashcard'')]),
     (''/api/mcqs'', [(''GET'', ''study::list_mcqs''), (''POST'', ''study::generate_mcqs'')]),
     (''/api/mcqs/{id}'', [(''PATCH'', ''study::set_mcq_status'')]),
     (''/api/mcqs/{id}/attempt'', [(''POST'', ''study::attempt_mcq'')])]"

definition workspace_routes :: "route list" where
  "workspace_routes =
    [(''/api/research'', [(''GET'', ''research::list_research''), (''POST'', ''research::create_research'')]),
     (''/api/research/{id}'', [(''GET'', ''research::get_research''), (''PATCH'', ''research::update_research''), (''DELETE'', ''research::delete_research'')]),
     (''/api/research/{id}/generate'', [(''POST'', ''research::generate_research'')]),
     (''/api/ontologies'', [(''GET'', ''ontology::list_ontologies''), (''POST'', ''ontology::create_ontology'')]),
     (''/api/ontologies/{id}'', [(''DELETE'', ''ontology::delete_ontology'')]),
     (''/api/ontologies/{id}/schema'', [(''GET'', ''ontology::get_schema''), (''PUT'', ''ontology::put_schema'')]),
     (''/api/ontologies/import'', [(''POST'', ''ontology::import_ontology'')]),
     (''/api/ontology/expand'', [(''GET'', ''ontology::expand'')]),
     (''/api/ontology/test'', [(''POST'', ''ontology::test'')]),
     (''/api/notifications'', [(''GET'', ''notifications::list_notifications''), (''POST'', ''notifications::mark_all_read'')]),
     (''/api/notifications/{id}'', [(''PATCH'', ''notifications::update_notification'')]),
     (''/api/notifications/{id}/archive'', [(''POST'', ''notifications::archive_notification'')]),
     (''/api/webhooks'', [(''GET'', ''webhooks::list_webhooks''), (''POST'', ''webhooks::create_webhook'')]),
     (''/api/webhooks/{id}'', [(''PATCH'', ''webhooks::update_webhook''), (''DELETE'', ''webhooks::delete_webhook'')]),
     (''/api/webhooks/{id}/test'', [(''POST'', ''webhooks::test_webhook'')]),
     (''/api/audit'', [(''GET'', ''audit::list_audit'')]),
     (''/api/evaluation'', [(''GET'', ''evaluation::get_evaluation'')]),
     (''/api/evaluation/run'', [(''POST'', ''evaluation::run_evaluation'')]),
     (''/api/evaluation/golden'', [(''GET'', ''evaluation::list_golden''), (''POST'', ''evaluation::create_golden'')]),
     (''/api/evaluation/golden/{id}'', [(''PATCH'', ''evaluation::update_golden''), (''DELETE'', ''evaluation::delete_golden'')]),
     (''/api/api-keys'', [(''GET'', ''api_keys::list_api_keys''), (''POST'', ''api_keys::create_api_key'')]),
     (''/api/api-keys/{id}'', [(''DELETE'', ''api_keys::delete_api_key'')]),
     (''/api/preferences'', [(''GET'', ''preferences::get_preferences''), (''PATCH'', ''preferences::patch_preferences'')]),
     (''/api/org/settings'', [(''GET'', ''org_settings::get_org_settings''), (''PUT'', ''org_settings::update_org_settings'')]),
     (''/api/users'', [(''GET'', ''users::list_users''), (''POST'', ''users::users_action'')]),
     (''/api/users/{id}'', [(''PATCH'', ''users::update_user''), (''POST'', ''users::user_id_action'')]),
     (''/api/admin/system-settings'', [(''GET'', ''admin_settings::get_system_settings''), (''PUT'', ''admin_settings::update_system_settings'')]),
     (''/api/ai/providers'', [(''GET'', ''ai::get_providers''), (''PUT'', ''ai::set_providers'')]),
     (''/api/ai/keys'', [(''POST'', ''ai::save_key''), (''DELETE'', ''ai::delete_key'')]),
     (''/api/usage'', [(''GET'', ''usage::get_usage'')]),
     (''/api/billing/status'', [(''GET'', ''billing::status'')]),
     (''/api/billing/checkout'', [(''POST'', ''billing::checkout'')]),
     (''/api/billing/portal'', [(''POST'', ''billing::portal'')]),
     (''/api/billing/invoices'', [(''GET'', ''billing::invoices'')]),
     (''/api/admin/orgs'', [(''GET'', ''admin_orgs::list_orgs'')]),
     (''/api/admin/orgs/{id}'', [(''PATCH'', ''admin_orgs::update_org'')]),
     (''/api/admin/plans'', [(''GET'', ''admin_orgs::list_plans''), (''POST'', ''admin_orgs::upsert_plan'')]),
     (''/api/admin/overview'', [(''GET'', ''admin_orgs::overview'')])]"

definition realtime_routes :: "route list" where
  "realtime_routes =
    [(''/realtime'', [(''GET'', ''ws::realtime'')]),
     (''/api/realtime'', [(''GET'', ''ws::realtime'')])]"

datatype route_group = Public | AnonymousAuth | Protected | RealtimeSocket

definition all_routes :: "(route_group \<times> route) list" where
  "all_routes = map (Pair Public) public_routes @ map (Pair AnonymousAuth) auth_routes
     @ map (Pair Protected) (library_routes @ workspace_routes) @ map (Pair RealtimeSocket) realtime_routes"

definition segments :: "string \<Rightarrow> string list" where
  "segments path = split_on CHR ''/'' path"

definition is_param :: "string \<Rightarrow> bool" where
  "is_param seg = starts_with seg ''{''"

definition match_path :: "string list \<Rightarrow> string list \<Rightarrow> bool" where
  "match_path pattern path = list_all2 (\<lambda>p x. if is_param p then x \<noteq> [] else p = x) pattern path"

text \<open>Finding the route of a path is the router library's; its documented behaviour is that it finds a route of the table
  whose pattern matches the path. Its answer to a \<open>HEAD\<close> request from the handler of \<open>GET\<close> is left out.\<close>

type_synonym router = "string \<Rightarrow> (route_group \<times> route) option"

definition router_ok :: "router \<Rightarrow> bool" where
  "router_ok find_route = (\<forall>path x. find_route path = Some x \<longrightarrow>
     x \<in> set all_routes \<and> match_path (segments (fst (snd x))) (segments path))"

definition handler_of :: "string \<Rightarrow> route \<Rightarrow> string option" where
  "handler_of verb r = map_of (snd r) verb"

section \<open>The layers\<close>

text \<open>A handler is given its name, the caller the rate limiter left in the request, the request and the state, and answers with a
  status. What the audit layer writes is answered beside it.\<close>

type_synonym handlers = "string \<Rightarrow> authed_user option \<Rightarrow> request \<Rightarrow> api_state \<Rightarrow> nat \<times> api_state"

definition run_handler :: "handlers \<Rightarrow> string \<Rightarrow> route \<Rightarrow> authed_user option \<Rightarrow> request \<Rightarrow> api_state \<Rightarrow> nat \<times> api_state" where
  "run_handler h verb r user req s = (case handler_of verb r of None \<Rightarrow> (405, s) | Some name \<Rightarrow> h name user req s)"

definition serve ::
  "router \<Rightarrow> jwt_library \<Rightarrow> api_config \<Rightarrow> handlers \<Rightarrow> string \<Rightarrow> string \<Rightarrow> request \<Rightarrow> api_state \<Rightarrow> (nat \<times> audit_entry option) \<times> api_state" where
  "serve find_route jwt cfg h verb path req s = (case find_route path of
       None \<Rightarrow> ((404, None), s)
     | Some (g, r) \<Rightarrow>
         (if g = Protected then
            (case rate_limit jwt cfg req s of
               (Rejected _, s) \<Rightarrow> ((429, None), s)
             | (Pass user, s) \<Rightarrow> (case run_handler h verb r user req s of (st, s) \<Rightarrow> ((st, audit verb path user st), s)))
          else if g = AnonymousAuth then
            (case auth_rate_limit cfg req s of
               (Rejected _, s) \<Rightarrow> ((429, None), s)
             | (Pass _, s) \<Rightarrow> (case run_handler h verb r None req s of (st, s) \<Rightarrow> ((st, None), s)))
          else (case run_handler h verb r None req s of (st, s) \<Rightarrow> ((st, None), s))))"

section \<open>Configuration\<close>

definition parse_u64 :: "string \<Rightarrow> nat option" where
  "parse_u64 v = (let d = (if starts_with v ''+'' then tl v else v)
     in if d \<noteq> [] \<and> list_all (\<lambda>c. 48 \<le> code_of c \<and> code_of c \<le> 57) d \<and> digits_value d < 2 ^ 64 then Some (digits_value d) else None)"

definition parse_bool :: "string \<Rightarrow> bool option" where
  "parse_bool v = (if v = ''true'' then Some True else if v = ''false'' then Some False else None)"

definition env_parsed :: "(string \<Rightarrow> string option) \<Rightarrow> (string \<Rightarrow> 'a option) \<Rightarrow> string \<Rightarrow> 'a \<Rightarrow> 'a option" where
  "env_parsed env parse k dflt = (case env k of None \<Rightarrow> Some dflt | Some v \<Rightarrow> parse v)"

definition DEFAULT_CORS_ORIGINS :: string where
  "DEFAULT_CORS_ORIGINS = ''http://localhost:5173,http://localhost:1420,https://insight-app.polytronx.com,https://insightai.polytronx.com''"

record server_config = api_config +
  cors_origins :: "string list"
  cookie_secure :: bool

definition cors_list :: "string \<Rightarrow> string list" where
  "cors_list v = filter (\<lambda>x. x \<noteq> []) (map (\<lambda>x. trim_end_matches CHR ''/'' (trim x)) (split_on CHR '','' v))"

definition api_config_from_env :: "(string \<Rightarrow> string option) \<Rightarrow> server_config option" where
  "api_config_from_env env = (case env ''JWT_SECRET'' of
       None \<Rightarrow> None
     | Some secret \<Rightarrow>
         if utf8_length secret < 32 then None
         else (case (env_parsed env parse_u64 ''JWT_ACCESS_TTL_SECS'' 900, env_parsed env parse_u64 ''JWT_REFRESH_TTL_SECS'' 1209600,
                     env_parsed env parse_u64 ''RATE_LIMIT_MAX'' 300, env_parsed env parse_u64 ''RATE_LIMIT_WINDOW_SECS'' 60,
                     env_parsed env parse_u64 ''AUTH_RATE_LIMIT_MAX'' 10, env_parsed env parse_bool ''COOKIE_SECURE'' True) of
             (Some a, Some b, Some c, Some d, Some e, Some f) \<Rightarrow>
               Some \<lparr>jwt_secret = secret, access_ttl_secs = a, refresh_ttl_secs = b, rate_limit_max = c, rate_limit_window_secs = d,
                 auth_rate_limit_max = e, cors_origins = cors_list (case env ''CORS_ORIGINS'' of None \<Rightarrow> DEFAULT_CORS_ORIGINS | Some v \<Rightarrow> v),
                 cookie_secure = f\<rparr>
           | _ \<Rightarrow> None))"

record buckets =
  bu_documents :: string
  bu_figures :: string
  bu_thumbs :: string
  bu_audio :: string
  bu_exports :: string

record storage_config =
  st_database :: string
  st_redis :: string
  st_internal :: string
  st_public :: string
  st_region :: string
  st_access :: string
  st_secret :: string
  st_buckets :: buckets

definition or_default :: "(string \<Rightarrow> string option) \<Rightarrow> string \<Rightarrow> string \<Rightarrow> string" where
  "or_default env k dflt = (case env k of None \<Rightarrow> dflt | Some v \<Rightarrow> v)"

definition credential :: "(string \<Rightarrow> string option) \<Rightarrow> string \<Rightarrow> string \<Rightarrow> string option" where
  "credential env scoped fallback = (case env scoped of Some v \<Rightarrow> if v \<noteq> [] then Some v else env fallback | None \<Rightarrow> env fallback)"

definition storage_config_from_env :: "(string \<Rightarrow> string option) \<Rightarrow> storage_config option" where
  "storage_config_from_env env =
     (case (env ''DATABASE_URL'', env ''REDIS_URL'', env ''S3_ENDPOINT_INTERNAL'', env ''S3_ENDPOINT_PUBLIC'',
            credential env ''S3_ACCESS_KEY'' ''MINIO_ROOT_USER'', credential env ''S3_SECRET_KEY'' ''MINIO_ROOT_PASSWORD'') of
        (Some d, Some r, Some i, Some p, Some a, Some k) \<Rightarrow>
          Some \<lparr>st_database = d, st_redis = r, st_internal = i, st_public = p, st_region = or_default env ''S3_REGION'' ''us-east-1'',
            st_access = a, st_secret = k,
            st_buckets = \<lparr>bu_documents = or_default env ''S3_BUCKET_DOCS'' ''documents'', bu_figures = or_default env ''S3_BUCKET_FIGS'' ''figures'',
              bu_thumbs = or_default env ''S3_BUCKET_THUMBS'' ''thumbs'', bu_audio = or_default env ''S3_BUCKET_AUDIO'' ''audio'',
              bu_exports = or_default env ''S3_BUCKET_EXPORTS'' ''exports''\<rparr>\<rparr>
      | _ \<Rightarrow> None)"

section \<open>The start\<close>

text \<open>What the start meets: the role the database reports (if it answers), whether Redis and the migrations succeed.\<close>

record world_outside =
  db_role :: "(bool \<times> bool) option"
  redis_answers :: bool
  migrations_apply :: bool

definition assert_rls_capable_role :: "(string \<Rightarrow> string option) \<Rightarrow> world_outside \<Rightarrow> bool" where
  "assert_rls_capable_role env w = (case db_role w of
       None \<Rightarrow> False
     | Some (superuser, bypass) \<Rightarrow> if superuser \<or> bypass then env ''INSIGHT_ALLOW_SUPERUSER'' = Some ''1'' else True)"

definition stores_connect :: "(string \<Rightarrow> string option) \<Rightarrow> world_outside \<Rightarrow> bool" where
  "stores_connect env w = (assert_rls_capable_role env w \<and> redis_answers w)"

definition init_state :: "(string \<Rightarrow> string option) \<Rightarrow> world_outside \<Rightarrow> (server_config \<times> storage_config) option" where
  "init_state env w = (case api_config_from_env env of
       None \<Rightarrow> None
     | Some cfg \<Rightarrow> (case storage_config_from_env env of
         None \<Rightarrow> None
       | Some sc \<Rightarrow> if \<not> stores_connect env w then None
           else if \<not> migrations_apply w then None
           else if \<not> redis_answers w then None else Some (cfg, sc)))"

text \<open>Several processes start at once: each waits for the advisory lock, applies the migrations and gives the lock back
  whatever came of them; a process that dies gives it back with its session.\<close>

datatype boot = Waiting | Migrating | Booted bool

record cluster_start =
  boots :: "nat \<Rightarrow> boot"
  lock_holder :: "nat option"

inductive run_migrations :: "cluster_start \<Rightarrow> cluster_start \<Rightarrow> bool" where
  locked: "boots s p = Waiting \<Longrightarrow> lock_holder s = None \<Longrightarrow>
    run_migrations s (s\<lparr>boots := (boots s)(p := Migrating), lock_holder := Some p\<rparr>)"
| unlocked: "boots s p = Migrating \<Longrightarrow> lock_holder s = Some p \<Longrightarrow>
    run_migrations s (s\<lparr>boots := (boots s)(p := Booted ok), lock_holder := None\<rparr>)"

inductive_cases run_migrationsE: "run_migrations s s'"

section \<open>Readiness\<close>

record health_report =
  hr_postgres :: "string option"
  hr_redis :: "string option"
  hr_objects :: "string option"

definition healthy :: "health_report \<Rightarrow> bool" where
  "healthy r = (hr_postgres r = None \<and> hr_redis r = None \<and> hr_objects r = None)"

definition readyz :: "health_report \<Rightarrow> nat \<times> (string \<times> string) list" where
  "readyz r = (let coarse = (\<lambda>e :: string option. if e = None then ''ok'' else ''error'')
     in (if healthy r then 200 else 503,
         [(''status'', if healthy r then ''ready'' else ''unavailable''), (''postgres'', coarse (hr_postgres r)),
          (''redis'', coarse (hr_redis r)), (''object_store'', coarse (hr_objects r))]))"

section \<open>The routes do not collide\<close>

text \<open>Two patterns that could both match a path: as long as each other, and segment by segment equal or with a parameter.\<close>

definition overlap :: "string list \<Rightarrow> string list \<Rightarrow> bool" where
  "overlap p q = list_all2 (\<lambda>x y. x = y \<or> is_param x \<or> is_param y) p q"

lemma overlap_if_both: "match_path p xs \<Longrightarrow> match_path q xs \<Longrightarrow> overlap p q"
  unfolding match_path_def overlap_def list_all2_conv_all_nth by (metis (full_types))

definition patterns :: "string list list" where
  "patterns = map (\<lambda>r. segments (fst (snd r))) all_routes"

fun clashes :: "string list list \<Rightarrow> (string list \<times> string list) list" where
  "clashes [] = []"
| "clashes (p # ps) = map (Pair p) (filter (overlap p) ps) @ clashes ps"

lemma clashes_found: "i < j \<Longrightarrow> j < length ps \<Longrightarrow> overlap (ps ! i) (ps ! j) \<Longrightarrow> (ps ! i, ps ! j) \<in> set (clashes ps)"
proof (induction ps arbitrary: i j)
  case (Cons p ps)
  then show ?case by (cases i; cases j) auto
qed simp

lemma table_clashes: "clashes patterns = [(segments ''/api/ontologies/{id}'', segments ''/api/ontologies/import'')]"
  by code_simp

text \<open>Of all paths, the only ones that two routes of the table match are those of an ontology whose identifier would be the
  word import, where the library prefers the fixed route.\<close>

theorem routes_unambiguous:
  assumes "i < j" "j < length patterns" "match_path (patterns ! i) (segments path)" "match_path (patterns ! j) (segments path)"
  shows "patterns ! i = segments ''/api/ontologies/{id}'' \<and> patterns ! j = segments ''/api/ontologies/import''"
  using clashes_found [OF assms(1,2) overlap_if_both [OF assms(3,4)]] by (simp add: table_clashes)

section \<open>What the layers record\<close>

lemma rate_limit_passes:
  assumes "rate_limit jwt cfg req s = (Pass (Some u), s')"
  shows "\<exists>token c. access_token_from_parts req = Some token \<and> verify jwt cfg token ''access'' s = Inr c \<and> u = from_claims c"
  using assms by (auto simp: rate_limit_def split: option.splits sum.splits prod.splits)

text \<open>An entry of the audit log stands for something done: it is written only for a protected route with a handler for the verb,
  after an answer of success, on a path that is watched; and it is booked to the workspace and the user of the verified
  access token of that request. What the limiters refuse leaves no entry.\<close>

theorem audit_entries_are_genuine:
  assumes "serve find_route jwt cfg h verb path req s = ((st, Some e), s')"
  shows "(\<exists>r. find_route path = Some (Protected, r) \<and> (router_ok find_route \<longrightarrow> r \<in> set (library_routes @ workspace_routes)) \<and> handler_of verb r \<noteq> None) \<and> 200 \<le> st \<and> st < 300
    \<and> verb \<in> {''POST'', ''PUT'', ''PATCH'', ''DELETE''} \<and> is_audited path \<and> audit_target e = path
    \<and> (\<exists>token c. access_token_from_parts req = Some token \<and> verify jwt cfg token ''access'' s = Inr c
        \<and> audit_tenant e = ten c \<and> audit_actor e = show_nat (sub c))"
proof -
  obtain g r where r: "find_route path = Some (g, r)" using assms by (auto simp: serve_def split: option.splits)
  have g: "g = Protected" using assms by (auto simp: serve_def r split: if_splits prod.splits verdict.splits)
  obtain user s1 where pass: "rate_limit jwt cfg req s = (Pass user, s1)"
    using assms by (auto simp: serve_def r g split: prod.splits verdict.splits)
  obtain s2 where run: "run_handler h verb r user req s1 = (st, s2)" and e: "audit verb path user st = Some e"
    using assms by (auto simp: serve_def r g pass split: prod.splits)
  obtain u where u: "user = Some u" using e by (auto simp: audit_def split: if_splits)
  have ok: "200 \<le> st \<and> st < 300 \<and> verb \<in> {''POST'', ''PUT'', ''PATCH'', ''DELETE''} \<and> is_audited path"
    using e by (auto simp: audit_def split: if_splits)
  have entry: "audit_target e = path" "audit_tenant e = auth_tenant u" "audit_actor e = show_nat (auth_user u)"
    using e by (auto simp: audit_def u split: if_splits)
  have "handler_of verb r \<noteq> None"
  proof
    assume "handler_of verb r = None"
    then have "st = 405" using run by (simp add: run_handler_def)
    with ok show False by simp
  qed
  moreover have "r \<in> set (library_routes @ workspace_routes)" if "router_ok find_route"
  proof -
    have "(g, r) \<in> set all_routes" using that r unfolding router_ok_def by blast
    then have "(Protected, r) \<in> set all_routes" by (simp only: g)
    then show ?thesis by (auto simp: all_routes_def)
  qed
  ultimately show ?thesis using r g ok entry rate_limit_passes [OF pass [unfolded u]] by (auto simp: from_claims_def)
qed

section \<open>Starting safely\<close>

text \<open>A server that has started signs its tokens with a secret of at least 32 bytes, keeps every limit within 64 bits, and is
  connected as a role that row-level security binds, unless the override is set.\<close>

theorem starts_only_isolated:
  assumes "init_state env w = Some (cfg, sc)" "env ''INSIGHT_ALLOW_SUPERUSER'' \<noteq> Some ''1''"
  shows "db_role w = Some (False, False) \<and> 32 \<le> utf8_length (jwt_secret cfg) \<and> migrations_apply w
    \<and> access_ttl_secs cfg < 2 ^ 64 \<and> refresh_ttl_secs cfg < 2 ^ 64 \<and> rate_limit_max cfg < 2 ^ 64 \<and> auth_rate_limit_max cfg < 2 ^ 64
    \<and> (\<forall>x \<in> set (cors_origins cfg). x \<noteq> [])"
proof -
  have cfg: "api_config_from_env env = Some cfg" and up: "stores_connect env w" "migrations_apply w"
    using assms(1) by (auto simp: init_state_def split: option.splits if_splits)
  have role: "db_role w = Some (False, False)"
    using up(1) assms(2) by (auto simp: stores_connect_def assert_rls_capable_role_def split: option.splits if_splits)
  have u64: "n < 2 ^ 64" if "env_parsed env parse_u64 k d = Some n" "d < 2 ^ 64" for k d n
    using that by (auto simp: env_parsed_def parse_u64_def Let_def split: option.splits if_splits)
  obtain secret where secret: "env ''JWT_SECRET'' = Some secret" "32 \<le> utf8_length secret"
    using cfg by (auto simp: api_config_from_env_def split: option.splits if_splits)
  then have parts: "env_parsed env parse_u64 ''JWT_ACCESS_TTL_SECS'' 900 = Some (access_ttl_secs cfg)"
    "env_parsed env parse_u64 ''JWT_REFRESH_TTL_SECS'' 1209600 = Some (refresh_ttl_secs cfg)"
    "env_parsed env parse_u64 ''RATE_LIMIT_MAX'' 300 = Some (rate_limit_max cfg)"
    "env_parsed env parse_u64 ''AUTH_RATE_LIMIT_MAX'' 10 = Some (auth_rate_limit_max cfg)"
    "jwt_secret cfg = secret" "\<exists>v. cors_origins cfg = cors_list v"
    using cfg by (auto simp: api_config_from_env_def split: option.splits)
  from u64 [OF parts(1)] u64 [OF parts(2)] u64 [OF parts(3)] u64 [OF parts(4)] parts(5,6) secret role up(2)
  show ?thesis by (auto simp: cors_list_def)
qed

text \<open>The two halves of the credentials are chosen one by one: with a scoped access key but no scoped secret the
  server signs in with the scoped key and the root password.\<close>

theorem credentials_mix:
  assumes "storage_config_from_env env = Some c" "env ''S3_ACCESS_KEY'' = Some k" "k \<noteq> []" "env ''S3_SECRET_KEY'' = None"
  shows "st_access c = k \<and> env ''MINIO_ROOT_PASSWORD'' = Some (st_secret c)"
  using assms by (auto simp: storage_config_from_env_def credential_def split: option.splits)

text \<open>However many processes start at the same time, never more than one applies the migrations, and as long as one
  waits, some step is possible.\<close>

theorem migrations_exclusive:
  assumes "run_migrations\<^sup>*\<^sup>* s0 s" "lock_holder s0 = None" "\<forall>p. boots s0 p = Waiting"
  shows "(\<forall>p q. boots s p = Migrating \<and> boots s q = Migrating \<longrightarrow> p = q)
    \<and> ((\<exists>p. boots s p = Waiting) \<longrightarrow> (\<exists>s'. run_migrations s s'))"
proof -
  have inv: "\<forall>p. boots s p = Migrating \<longleftrightarrow> lock_holder s = Some p"
    using assms
  proof (induction rule: rtranclp_induct)
    case (step y z)
    then have "\<forall>p. boots y p = Migrating \<longleftrightarrow> lock_holder y = Some p" by simp
    with step.hyps(2) show ?case by (auto elim!: run_migrationsE split: if_splits)
  qed auto
  have "\<exists>s'. run_migrations s s'" if "boots s p = Waiting" for p
    using inv that by (cases "lock_holder s") (auto intro: locked unlocked)
  with inv show ?thesis by auto
qed

end
