(* ===== verification/Spec2Isabelle.thy ===== *)
theory Spec2Isabelle
  imports Prelude Json Chunking UnionFind Graph Settings Cache SettingsStore Tenancy Auth RateLimit Study VectorStore Retrieve Queue Llm AiKeys Ingest Ontology Knowledge Claims Synth GraphStore Webhooks Worker Topics Orgs Members Documents Processing Quiz Catalogue Shelves Evaluation Assistant Operations Realtime Server
begin

text \<open>
  A verification development for the Rust backend of InsightLibrary AI (\<open>src/backend/crates\<close>): the library crate
  \<open>insight-core\<close>, the HTTP server \<open>insight-api\<close> and the job worker \<open>insight-worker\<close>.

  The program. A document is registered through the API, which queues an ingest job. The worker takes the job from a
  Redis stream, has the file parsed, and stores pages, blocks, chunks and embeddings in Postgres, and then queues the
  building of knowledge: claims are extracted from the chunks, grounded in an ontology, deduplicated and checked for
  contradictions, topics and their versioned pages are synthesised, and the concept graph is rebuilt. The API serves
  search, topic pages, reviews, questions, a copilot and research reports over this data, and the administration of
  workspaces: members, sessions, keys, settings, plans. Every table row belongs to a tenant, and every language-model call
  is metered against a monthly budget.

  Theories and sources (paths are relative to \<open>insight-core/src\<close>, \<open>insight-api/src\<close> and \<open>insight-worker/src\<close>).

    \<^item> \<open>Prelude\<close>: strings, lists, updates of table rows, numbers as text; the collection of invariant facts.
      \<open>Json\<close>: the JSON values of \<open>serde_json\<close>.
    \<^item> \<open>Chunking\<close> (\<open>ingest.rs\<close>): the splitter; it keeps the text and bounds the size of the chunks.
    \<^item> \<open>UnionFind\<close>, \<open>Graph\<close> (\<open>graph.rs\<close>), \<open>GraphStore\<close> (\<open>storage/graph_store.rs\<close>, \<open>routes/graph.rs\<close>): communities are
      the connected components, PageRank is a distribution, the rebuild from claims is the co-occurrence graph.
    \<^item> \<open>Settings\<close>, \<open>SettingsStore\<close> (\<open>settings.rs\<close>), \<open>Cache\<close> (\<open>storage/cache.rs\<close>): defaults, clamping and patches; the store of
      three scopes behind its cache refines the store without one.
    \<^item> \<open>Tenancy\<close> (\<open>tenancy.rs\<close>), \<open>Auth\<close> (\<open>auth.rs\<close>, \<open>routes/auth.rs\<close>), \<open>RateLimit\<close> (\<open>middleware.rs\<close>), \<open>Members\<close>
      (\<open>routes/users.rs\<close>, \<open>routes/api_keys.rs\<close>, \<open>security.rs\<close>), \<open>Orgs\<close> (\<open>billing.rs\<close>, \<open>routes/billing.rs\<close>,
      \<open>routes/admin_orgs.rs\<close>): accounts, invitations, sessions, refresh tokens, keys, plans, signed billing events.
    \<^item> \<open>VectorStore\<close>, \<open>Retrieve\<close>, \<open>Evaluation\<close> (\<open>storage/vector_store.rs\<close>, \<open>retrieve.rs\<close>, \<open>eval.rs\<close>, \<open>routes/search.rs\<close>,
      \<open>routes/evaluation.rs\<close>): the rows of the library, hybrid search, its rank fusion and caches, the golden set.
    \<^item> \<open>Queue\<close> (\<open>storage/queue.rs\<close>), \<open>Worker\<close> (\<open>main.rs\<close> of the worker), \<open>Processing\<close> (\<open>routes/processing.rs\<close>, \<open>routes/jobs.rs\<close>):
      no job is lost between crash and redelivery, the queue refines a first-in-first-out queue, the worker refines its
      abstract cluster, cancelling and counting.
    \<^item> \<open>Llm\<close>, \<open>AiKeys\<close> (\<open>llm.rs\<close>, \<open>routes/ai.rs\<close>): providers, encrypted keys, the fallback chain, metering, the budget.
    \<^item> \<open>Ingest\<close> (\<open>ingest.rs\<close>), \<open>Documents\<close> (\<open>routes/documents.rs\<close>, \<open>storage/doc_store.rs\<close>): the pipeline of one document,
      and its registration once per idempotency key within the plan's cap.
    \<^item> \<open>Ontology\<close> (\<open>ontology.rs\<close>), \<open>Catalogue\<close> (\<open>routes/ontology.rs\<close>): the parser and loader of OBO graphs, embedding, linking
      of mentions, the registry.
    \<^item> \<open>Knowledge\<close> (the tables), \<open>Claims\<close> (\<open>claims.rs\<close>, \<open>correlate.rs\<close>), \<open>Synth\<close> (\<open>synth.rs\<close>), \<open>Topics\<close> (\<open>routes/topics.rs\<close>,
      \<open>routes/review.rs\<close>), \<open>Study\<close>, \<open>Quiz\<close> (\<open>study.rs\<close>, \<open>routes/study.rs\<close>): claims, pages and their history, reviews,
      flashcards and questions.
    \<^item> \<open>Webhooks\<close> (\<open>webhooks.rs\<close>, \<open>notify.rs\<close> and their routes), \<open>Realtime\<close> (\<open>ws.rs\<close>), \<open>Shelves\<close> (\<open>routes/folders.rs\<close>,
      \<open>routes/sources.rs\<close>, \<open>routes/figures.rs\<close>), \<open>Assistant\<close> (\<open>routes/copilot.rs\<close>, \<open>routes/research.rs\<close>), \<open>Operations\<close>
      (\<open>routes/usage.rs\<close>, \<open>routes/audit.rs\<close>, \<open>routes/admin.rs\<close>, the settings routes, \<open>routes/ai_oauth.rs\<close>).
    \<^item> \<open>Server\<close> (\<open>main.rs\<close>, \<open>state.rs\<close>, \<open>routes/health.rs\<close> of the API, \<open>storage/mod.rs\<close>): the table of routes and the order of the
      layers around the handlers, the configuration, the checks of the start and the migration lock.

  How the model reads the code. A struct is a record, an enum a datatype, and a table a list of rows in the order of
  insertion. A handler or operation takes the state and returns its result with the state it leaves; an \<open>Err\<close> is \<open>None\<close> where
  the code only passes it on, and \<open>Inl\<close> of the HTTP error where it has a status. A transaction that fails leaves the
  tables as they were. A component's state holds one flag for the database being up; Redis has a flag per command,
  so a failure may strike between any two of them. Row-level security is a filter by tenant in each statement. A UUID is
  a natural number from a supply in the state, its text the decimal form (the hyphenated form in \<open>Documents\<close>, where the code
  takes it apart). A string is a list of Latin-1 characters, an \<open>f64\<close> a real number, an \<open>i64\<close> an integer where the code
  does not wrap, and a time stamp a number the state holds. The order in which a hash map or a \<open>GROUP BY\<close> without an order
  yields its entries is an argument. Code outside the repository is a parameter: JWT, argon2, SHA-256, HMAC, AES-GCM, the JSON
  printer and reader at their types, the inference, parsing and model services, the vector index, the text-search
  rank, Stripe and the object store. What is relied on is a named hypothesis (\<open>jwt_ok\<close>, \<open>aes_ok\<close>, \<open>services_ok\<close> and others), and
  concrete instances show that each can hold.

  Interfaces. \<open>partition_store\<close> (a forest with find and link; interpreted on the code's forest), \<open>read_through\<close> (a cache
  with get and put over a table; interpreted on the settings cache), \<open>token_store\<close> (single-use tokens; interpreted on
  the refresh allowlist) and \<open>effect_order\<close> (a preorder on states that every operation of a pipeline respects; interpreted on
  the history of topic pages and on the queue's jobs). Each client's lemmas are proved once inside the locale.

  Lemma groups. Every component has a frame lemma per operation (what it leaves alone), a case lemma for its
  outcomes, and the preservation of its invariant; step relations with rule induction carry the invariants over
  sequences of operations (settings, tenancy, queue, search, uploads, page history, settings requests). Refinements relate the
  queue to an abstract queue, the worker to a cluster and the settings store to one without a cache. Each property
  is followed in its theory by a witness on a concrete state.

  Loops and bounds. The union-find search is a partial function into \<open>option\<close>, and on a forest it is proved to return.
  Splitting, batching and the embedding of concepts recurse with a measure. The bounds of the code (batches of 500, 50 candidates,
  2000 concepts, 25 mentions, page limits, clamped settings) are constants of the model. No fuel is used.

  Not modelled. The S3 client (\<open>storage/blob_store.rs\<close>): each operation is one call of a library. The programs that test a
  running system (\<open>storage/selftest.rs\<close>, \<open>insight-worker/src/bin\<close>). Files that hold a comment for a later phase
  (\<open>analytics.rs\<close>, \<open>collab.rs\<close>, \<open>export.rs\<close>, \<open>tutor.rs\<close>). CORS and tracing in \<open>insight-api/src/main.rs\<close>. Within the modelled parts: logging, back-off sleeps, the transport of event
  streams, constant fields of answers, table sizes, and time stamps that are only rendered. Rounding of \<open>f64\<close> and
  overflow of \<open>i64\<close> counters are outside the model, as are characters beyond Latin-1.
\<close>

end
